(* ===== verification/Prelude.thy ===== *)
theory Prelude
  imports Main "HOL-Library.Word" "HOL-Library.Sublist"
begin

text \<open>
  Shared vocabulary of the development: machine types, the error-propagating sequencing of
  Rust's \<open>?\<close> operator, Rust strings as UTF-8 byte sequences, and the generic list and map
  lemmas the components use.
\<close>

named_theorems step_defs \<open>defining equations of operations, for case analysis on their branches\<close>
named_theorems inv_intros \<open>preservation of a component invariant by its operations\<close>

subsection \<open>Machine types\<close>

type_synonym u8 = "8 word"
type_synonym uuid = "128 word"
type_synonym key32 = "u8 list"
type_synonym datetime = int

text \<open>
  A UTC instant is a number of nanoseconds since the epoch. Unsigned 64-bit quantities that are only added and compared are natural numbers with the
  wrap-around of a release build written out.
\<close>

definition u64_max :: nat where
  "u64_max = 2 ^ 64 - 1"

definition wadd :: "nat \<Rightarrow> nat \<Rightarrow> nat" where
  "wadd a b = (a + b) mod 2 ^ 64"

definition checked_add :: "nat \<Rightarrow> nat \<Rightarrow> nat option" where
  "checked_add a b = (if a + b < 2 ^ 64 then Some (a + b) else None)"

definition sat_mul :: "nat \<Rightarrow> nat \<Rightarrow> nat" where
  "sat_mul a b = min u64_max (a * b)"

lemma wadd_exact [simp]: "a + b < 2 ^ 64 \<Longrightarrow> wadd a b = a + b"
  by (simp add: wadd_def)

lemma wadd_less: "wadd a b < 2 ^ 64"
  by (simp add: wadd_def)

lemma wadd_0 [simp]: "a < 2 ^ 64 \<Longrightarrow> wadd a 0 = a"
  by (simp add: wadd_def)

lemma checked_add_Some [simp]:
  "checked_add a b = Some c \<longleftrightarrow> c = a + b \<and> a + b < 2 ^ 64"
  by (auto simp: checked_add_def)

lemma unat_u8: "unat (b :: u8) < 256"
  using unsigned_less[of b] by simp

lemma unat_u8_div [simp]: "unat (b :: u8) div 16 < 16"
  using unat_u8[of b] by (simp add: div_less_iff_less_mult)

subsection \<open>Results: the error-propagating bind of the \<open>?\<close> operator\<close>

definition sbind :: "'e + 'a \<Rightarrow> ('a \<Rightarrow> 'e + 'b) \<Rightarrow> 'e + 'b" where
  "sbind m f = (case m of Inl e \<Rightarrow> Inl e | Inr x \<Rightarrow> f x)"

lemma sbind_simps [simp]:
  "sbind (Inl e) f = Inl e"
  "sbind (Inr x) f = f x"
  by (simp_all add: sbind_def)

lemma sbind_Inr_iff: "sbind m f = Inr y \<longleftrightarrow> (\<exists>x. m = Inr x \<and> f x = Inr y)"
  by (cases m) auto

lemma sbind_Inl_iff:
  "sbind m f = Inl e \<longleftrightarrow> m = Inl e \<or> (\<exists>x. m = Inr x \<and> f x = Inl e)"
  by (cases m) auto

lemma sbind_cong [fundef_cong]:
  "m = m' \<Longrightarrow> (\<And>x. m' = Inr x \<Longrightarrow> f x = f' x) \<Longrightarrow> sbind m f = sbind m' f'"
  by (cases m') auto

definition ok_or :: "'e \<Rightarrow> 'a option \<Rightarrow> 'e + 'a" where
  "ok_or e x = (case x of None \<Rightarrow> Inl e | Some y \<Rightarrow> Inr y)"

lemma ok_or_simps [simp]:
  "ok_or e None = Inl e"
  "ok_or e (Some y) = Inr y"
  by (simp_all add: ok_or_def)

lemma ok_or_Inr_iff: "ok_or e x = Inr y \<longleftrightarrow> x = Some y"
  by (cases x) auto

text \<open>
  Operations on a state that keep what they changed before an error: the result is the sum, the
  state is returned in either case.
\<close>

type_synonym ('s, 'e, 'a) sx = "'s \<Rightarrow> ('e + 'a) \<times> 's"

definition sx_return :: "'a \<Rightarrow> ('s, 'e, 'a) sx" where
  "sx_return x s = (Inr x, s)"

definition sx_throw :: "'e \<Rightarrow> ('s, 'e, 'a) sx" where
  "sx_throw e s = (Inl e, s)"

definition sx_bind :: "('s, 'e, 'a) sx \<Rightarrow> ('a \<Rightarrow> ('s, 'e, 'b) sx) \<Rightarrow> ('s, 'e, 'b) sx" where
  "sx_bind m f s = (case m s of (Inl e, s') \<Rightarrow> (Inl e, s') | (Inr x, s') \<Rightarrow> f x s')"

definition sx_ask :: "('s \<Rightarrow> 'e + 'a) \<Rightarrow> ('s, 'e, 'a) sx" where
  "sx_ask f s = (f s, s)"

fun each :: "('a \<Rightarrow> ('s, 'e, unit) sx) \<Rightarrow> 'a list \<Rightarrow> ('s, 'e, unit) sx" where
  "each f [] = sx_return ()"
| "each f (x # xs) = sx_bind (f x) (\<lambda>_. each f xs)"

definition sx_update :: "('s \<Rightarrow> 's) \<Rightarrow> ('s, 'e, unit) sx" where
  "sx_update g s = (Inr (), g s)"

lemma sx_return_Inr [simp]: "sx_return x s = (r, s') \<longleftrightarrow> r = Inr x \<and> s' = s"
  by (auto simp: sx_return_def)

lemma sx_throw_Inr [simp]: "sx_throw e s = (r, s') \<longleftrightarrow> r = Inl e \<and> s' = s"
  by (auto simp: sx_throw_def)

lemma sx_ask_Inr [simp]: "sx_ask f s = (r, s') \<longleftrightarrow> f s = r \<and> s' = s"
  by (auto simp: sx_ask_def)

lemma sx_bind_Inr_iff:
  "sx_bind m f s = (Inr y, s') \<longleftrightarrow> (\<exists>x s1. m s = (Inr x, s1) \<and> f x s1 = (Inr y, s'))"
  by (auto simp: sx_bind_def split: prod.splits sum.splits)

lemma sx_bind_Inl_iff:
  "sx_bind m f s = (Inl e, s') \<longleftrightarrow>
     m s = (Inl e, s') \<or> (\<exists>x s1. m s = (Inr x, s1) \<and> f x s1 = (Inl e, s'))"
  by (auto simp: sx_bind_def split: prod.splits sum.splits)

text \<open>Partial correctness of such operations: from a state with \<open>P\<close> a normal end satisfies \<open>Q\<close> and an
  error leaves a state with \<open>E\<close>.\<close>

definition sx_valid ::
  "('s \<Rightarrow> bool) \<Rightarrow> ('s, 'e, 'a) sx \<Rightarrow> ('a \<Rightarrow> 's \<Rightarrow> bool) \<Rightarrow> ('s \<Rightarrow> bool) \<Rightarrow> bool" where
  "sx_valid P m Q E \<longleftrightarrow> (\<forall>s. P s \<longrightarrow> (case m s of (Inl e, s') \<Rightarrow> E s' | (Inr x, s') \<Rightarrow> Q x s'))"

lemma sx_validD:
  "sx_valid P m Q E \<Longrightarrow> P s \<Longrightarrow> m s = (Inr x, s') \<Longrightarrow> Q x s'"
  "sx_valid P m Q E \<Longrightarrow> P s \<Longrightarrow> m s = (Inl e, s') \<Longrightarrow> E s'"
  unfolding sx_valid_def by force+

lemma sx_validI:
  assumes "\<And>s x s'. P s \<Longrightarrow> m s = (Inr x, s') \<Longrightarrow> Q x s'" "\<And>s e s'. P s \<Longrightarrow> m s = (Inl e, s') \<Longrightarrow> E s'"
  shows "sx_valid P m Q E"
  using assms by (auto simp: sx_valid_def split: prod.splits sum.splits)

lemma sx_valid_bind:
  assumes "sx_valid P m Q E" "\<And>x. sx_valid (Q x) (f x) R E"
  shows "sx_valid P (sx_bind m f) R E"
proof (rule sx_validI)
  show "R y s'" if "P s" "sx_bind m f s = (Inr y, s')" for s y s'
    using that assms sx_validD(1) unfolding sx_bind_Inr_iff by metis
  show "E s'" if "P s" "sx_bind m f s = (Inl e, s')" for s e s'
    using that assms sx_validD unfolding sx_bind_Inl_iff by metis
qed

lemma sx_valid_conseq:
  assumes "sx_valid P' m Q' E'" "\<And>s. P s \<Longrightarrow> P' s" "\<And>x s. Q' x s \<Longrightarrow> Q x s" "\<And>s. E' s \<Longrightarrow> E s"
  shows "sx_valid P m Q E"
proof (rule sx_validI)
  show "Q x s'" if "P s" "m s = (Inr x, s')" for s x s'
    using assms(3)[OF sx_validD(1)[OF assms(1) assms(2)[OF that(1)] that(2)]] .
  show "E s'" if "P s" "m s = (Inl e, s')" for s e s'
    using assms(4)[OF sx_validD(2)[OF assms(1) assms(2)[OF that(1)] that(2)]] .
qed

lemma sx_valid_return: "(\<And>s. P s \<Longrightarrow> Q x s) \<Longrightarrow> sx_valid P (sx_return x) Q E"
  by (rule sx_validI) auto

lemma sx_valid_throw: "(\<And>s. P s \<Longrightarrow> E s) \<Longrightarrow> sx_valid P (sx_throw e) Q E"
  by (rule sx_validI) auto

lemma sx_valid_update: "(\<And>s. P s \<Longrightarrow> Q () (g s)) \<Longrightarrow> sx_valid P (sx_update g) Q E"
  by (rule sx_validI) (auto simp: sx_update_def)

text \<open>Collecting a list of results stops at the first error.\<close>

fun collect :: "('a \<Rightarrow> 'e + 'b) \<Rightarrow> 'a list \<Rightarrow> 'e + 'b list" where
  "collect f [] = Inr []"
| "collect f (x # xs) = sbind (f x) (\<lambda>y. sbind (collect f xs) (\<lambda>ys. Inr (y # ys)))"

lemma collect_Inr_iff: "collect f xs = Inr ys \<longleftrightarrow> list_all2 (\<lambda>x y. f x = Inr y) xs ys"
  by (induction xs arbitrary: ys) (auto simp: sbind_Inr_iff list_all2_Cons1)

lemma collect_ok: "(\<And>x. x \<in> set xs \<Longrightarrow> f x = Inr (g x)) \<Longrightarrow> collect f xs = Inr (map g xs)"
  by (induction xs) auto

subsection \<open>Strings as UTF-8 bytes\<close>

text \<open>
  A Rust \<open>str\<close> is its UTF-8 byte sequence; a HOL character is one byte. \<open>next_char\<close> is
  \<open>chars().next()\<close> together with the remaining slice; \<open>slice_from\<close> is \<open>&s[i..]\<close>, which
  panics (here: \<open>None\<close>) when \<open>i\<close> is not on a character boundary.
\<close>

definition byte_of :: "char \<Rightarrow> nat" where
  "byte_of c = of_char c"

definition is_ascii :: "char \<Rightarrow> bool" where
  "is_ascii c \<longleftrightarrow> byte_of c < 128"

definition ascii_str :: "string \<Rightarrow> bool" where
  "ascii_str s \<longleftrightarrow> list_all is_ascii s"

definition is_cont :: "char \<Rightarrow> bool" where
  "is_cont c \<longleftrightarrow> 128 \<le> byte_of c \<and> byte_of c < 192"

definition char_width :: "char \<Rightarrow> nat" where
  "char_width c =
     (if byte_of c < 128 then 1 else if byte_of c < 224 then 2
      else if byte_of c < 240 then 3 else 4)"

definition next_char :: "string \<Rightarrow> (string \<times> string) option" where
  "next_char s = (case s of [] \<Rightarrow> None
     | c # _ \<Rightarrow> Some (take (char_width c) s, drop (char_width c) s))"

definition slice_from :: "string \<Rightarrow> nat \<Rightarrow> string option" where
  "slice_from s i =
     (if i = 0 \<or> i = length s \<or> (i < length s \<and> \<not> is_cont (s ! i)) then Some (drop i s) else None)"

lemma char_width_pos [simp]: "0 < char_width c" "char_width c \<noteq> 0"
  by (simp_all add: char_width_def)

lemma char_width_ascii [simp]: "is_ascii c \<Longrightarrow> char_width c = 1"
  by (simp add: char_width_def is_ascii_def)

lemma ascii_str_simps [simp]:
  "ascii_str []"
  "ascii_str (c # s) \<longleftrightarrow> is_ascii c \<and> ascii_str s"
  "ascii_str (s @ t) \<longleftrightarrow> ascii_str s \<and> ascii_str t"
  by (simp_all add: ascii_str_def)

lemma ascii_str_drop [simp]: "ascii_str s \<Longrightarrow> ascii_str (drop i s)"
  by (metis append_take_drop_id ascii_str_simps(3))

lemma next_char_Nil [simp]: "next_char [] = None"
  by (simp add: next_char_def)

lemma next_char_Cons_ascii [simp]: "is_ascii c \<Longrightarrow> next_char (c # s) = Some ([c], s)"
  by (simp add: next_char_def)

lemma next_char_shorter: "next_char s = Some (c, t) \<Longrightarrow> length t < length s"
  by (auto simp: next_char_def split: list.splits)

lemma next_char_hd:
  assumes "next_char s = Some (pc, t)"
  shows "s \<noteq> [] \<and> pc \<noteq> [] \<and> hd pc = hd s"
proof (cases s)
  case (Cons c s')
  with assms have "pc = take (char_width c) s"
    by (simp add: next_char_def)
  with Cons show ?thesis by (cases "char_width c") auto
qed (use assms in simp)

lemma slice_from_ascii: "ascii_str s \<Longrightarrow> i \<le> length s \<Longrightarrow> slice_from s i = Some (drop i s)"
proof -
  assume a: "ascii_str s" and i: "i \<le> length s"
  have "\<not> is_cont (s ! i)" if "i < length s"
    using a that by (auto simp: ascii_str_def list_all_length is_ascii_def is_cont_def)
  with i show ?thesis by (auto simp: slice_from_def)
qed

text \<open>\<open>chars()\<close>: a Rust character is the group of bytes that encodes it.\<close>

function chars :: "string \<Rightarrow> string list" where
  "chars s = (case next_char s of None \<Rightarrow> [] | Some (c, rest) \<Rightarrow> c # chars rest)"
  by pat_completeness auto
termination
  by (relation "measure length") (auto dest: next_char_shorter)

declare chars.simps [simp del]

lemma chars_Nil [simp]: "chars [] = []"
  by (simp add: chars.simps)

lemma chars_ascii [simp]: "is_ascii c \<Longrightarrow> chars (c # s) = [c] # chars s"
  by (simp add: chars.simps[of "c # s"])

text \<open>\<open>char::is_whitespace\<close> (the Unicode property White\_Space) on the bytes of a character,
  and \<open>trim().is_empty()\<close>.\<close>

definition is_white :: "string \<Rightarrow> bool" where
  "is_white c \<longleftrightarrow>
     (length c = 1 \<and> (let n = byte_of (hd c) in (9 \<le> n \<and> n \<le> 13) \<or> n = 32)) \<or>
     c \<in> {[CHR 0xC2, CHR 0x85], [CHR 0xC2, CHR 0xA0], [CHR 0xE1, CHR 0x9A, CHR 0x80],
          [CHR 0xE2, CHR 0x80, CHR 0xA8], [CHR 0xE2, CHR 0x80, CHR 0xA9],
          [CHR 0xE2, CHR 0x80, CHR 0xAF], [CHR 0xE2, CHR 0x81, CHR 0x9F],
          [CHR 0xE3, CHR 0x80, CHR 0x80]} \<or>
     (length c = 3 \<and> take 2 c = [CHR 0xE2, CHR 0x80] \<and> 128 \<le> byte_of (c ! 2) \<and> byte_of (c ! 2) \<le> 138)"

definition blank :: "string \<Rightarrow> bool" where
  "blank s = list_all is_white (chars s)"

text \<open>\<open>BufRead::lines\<close>: split at line feeds, a carriage return before one is dropped, a last line
  without line feed is kept as it is.\<close>

definition strip_cr :: "string \<Rightarrow> string" where
  "strip_cr w = (if w \<noteq> [] \<and> last w = CHR 0x0D then butlast w else w)"

fun lines_from :: "string \<Rightarrow> string \<Rightarrow> string list" where
  "lines_from acc [] = (if acc = [] then [] else [acc])"
| "lines_from acc (c # s) =
     (if c = CHR 0x0A then strip_cr acc # lines_from [] s else lines_from (acc @ [c]) s)"

definition lines :: "string \<Rightarrow> string list" where
  "lines s = lines_from [] s"

text \<open>A text all of whose lines are terminated.\<close>

definition terminated :: "string \<Rightarrow> bool" where
  "terminated s \<longleftrightarrow> s = [] \<or> last s = CHR 0x0A"

lemma lines_from_append_nl:
  "lines_from acc (s @ CHR 0x0A # t) = lines_from acc (s @ [CHR 0x0A]) @ lines_from [] t"
  by (induction s arbitrary: acc) auto

lemma lines_from_line:
  "CHR 0x0A \<notin> set w \<Longrightarrow> lines_from acc (w @ [CHR 0x0A]) = [strip_cr (acc @ w)]"
  by (induction w arbitrary: acc) auto

lemma lines_append_line:
  assumes "terminated s" and "CHR 0x0A \<notin> set w" and "CHR 0x0D \<notin> set w"
  shows "lines (s @ w @ [CHR 0x0A]) = lines s @ [w]"
proof -
  have "w \<noteq> [] \<Longrightarrow> last w \<noteq> CHR 0x0D" using assms(3) last_in_set by metis
  then have w: "lines (w @ [CHR 0x0A]) = [w]"
    using assms(2) by (auto simp: lines_def lines_from_line strip_cr_def)
  show ?thesis
  proof (cases "s = []")
    case False
    with assms(1) obtain s' where s: "s = s' @ [CHR 0x0A]"
      by (metis append_butlast_last_id terminated_def)
    then have "lines (s @ w @ [CHR 0x0A]) = lines_from [] (s' @ CHR 0x0A # (w @ [CHR 0x0A]))"
      by (simp add: lines_def)
    also have "\<dots> = lines_from [] (s' @ [CHR 0x0A]) @ lines_from [] (w @ [CHR 0x0A])"
      by (rule lines_from_append_nl)
    finally show ?thesis using w by (simp add: lines_def s)
  qed (use w in \<open>simp add: lines_def\<close>)
qed

lemma lines_Nil [simp]: "lines [] = []"
  by (simp add: lines_def)

text \<open>\<open>str::from_utf8\<close>, which reading a line performs.\<close>

definition in_range :: "nat \<Rightarrow> nat \<Rightarrow> char \<Rightarrow> bool" where
  "in_range lo hi c \<longleftrightarrow> lo \<le> byte_of c \<and> byte_of c \<le> hi"

definition utf8_char :: "string \<Rightarrow> bool" where
  "utf8_char c = (case c of
      [a] \<Rightarrow> in_range 0 127 a
    | [a, b] \<Rightarrow> in_range 194 223 a \<and> is_cont b
    | [a, b, d] \<Rightarrow> is_cont d \<and>
        ((in_range 224 224 a \<and> in_range 160 191 b) \<or> (in_range 225 236 a \<and> is_cont b) \<or>
         (in_range 237 237 a \<and> in_range 128 159 b) \<or> (in_range 238 239 a \<and> is_cont b))
    | [a, b, d, e] \<Rightarrow> is_cont d \<and> is_cont e \<and>
        ((in_range 240 240 a \<and> in_range 144 191 b) \<or> (in_range 241 243 a \<and> is_cont b) \<or>
         (in_range 244 244 a \<and> in_range 128 143 b))
    | _ \<Rightarrow> False)"

definition utf8_valid :: "string \<Rightarrow> bool" where
  "utf8_valid s = list_all utf8_char (chars s)"

subsection \<open>Positions and updates in lists\<close>

text \<open>\<open>iter().position(p)\<close>, \<open>Vec::remove(i)\<close> and \<open>iter().find(p)\<close>.\<close>

fun position :: "('a \<Rightarrow> bool) \<Rightarrow> 'a list \<Rightarrow> nat option" where
  "position p [] = None"
| "position p (x # xs) = (if p x then Some 0 else map_option Suc (position p xs))"

definition remove_at :: "nat \<Rightarrow> 'a list \<Rightarrow> 'a list" where
  "remove_at i xs = take i xs @ drop (Suc i) xs"

lemma list_ex_upto: "list_ex Q [0..<Suc n] \<longleftrightarrow> (\<exists>i \<le> n. Q i)"
  by (metis list_ex_iff atLeastLessThan_iff le0 less_Suc_eq_le set_upt)

lemma position_Some:
  "position p xs = Some i \<Longrightarrow> i < length xs \<and> p (xs ! i) \<and> (\<forall>j < i. \<not> p (xs ! j))"
proof (induction xs arbitrary: i)
  case (Cons x xs)
  show ?case
  proof (cases "p x")
    case True
    with Cons.prems show ?thesis by auto
  next
    case False
    with Cons.prems obtain k where k: "position p xs = Some k" "i = Suc k" by auto
    with Cons.IH[OF k(1)] False show ?thesis by (auto simp: less_Suc_eq_0_disj)
  qed
qed simp

lemma position_None: "position p xs = None \<longleftrightarrow> (\<forall>x \<in> set xs. \<not> p x)"
  by (induction xs) auto

lemma remove_at_0 [simp]: "remove_at 0 (x # xs) = xs"
  by (simp add: remove_at_def)

lemma remove_at_Suc [simp]: "remove_at (Suc i) (x # xs) = x # remove_at i xs"
  by (simp add: remove_at_def)

lemma set_remove_at: "set (remove_at i xs) \<subseteq> set xs"
  by (auto simp: remove_at_def dest: in_set_takeD in_set_dropD)

lemma length_remove_at: "i < length xs \<Longrightarrow> length (remove_at i xs) = length xs - 1"
  by (simp add: remove_at_def)

lemma remove_at_filter_first:
  "position p xs = Some i \<Longrightarrow> remove_at i xs = takeWhile (\<lambda>x. \<not> p x) xs @ tl (dropWhile (\<lambda>x. \<not> p x) xs)"
  by (induction xs arbitrary: i) (auto split: if_splits)

lemma set_remove_at_distinct:
  "distinct (map f xs) \<Longrightarrow> i < length xs \<Longrightarrow>
     set (remove_at i xs) = {x \<in> set xs. f x \<noteq> f (xs ! i)}"
proof (induction xs arbitrary: i)
  case (Cons x xs)
  show ?case
  proof (cases i)
    case 0
    with Cons.prems show ?thesis by (auto simp: image_iff)
  next
    case (Suc n)
    with Cons.prems have "f x \<noteq> f (xs ! n)" by (auto simp: image_iff)
    with Cons.IH[of n] Cons.prems Suc show ?thesis by auto
  qed
qed simp

lemma distinct_remove_at: "distinct (map f xs) \<Longrightarrow> distinct (map f (remove_at i xs))"
proof (induction xs arbitrary: i)
  case (Cons x xs)
  then show ?case
    using set_remove_at[of _ xs] by (cases i) (auto simp: image_iff)
qed (simp add: remove_at_def)

lemma find_Some_mem: "List.find p xs = Some x \<Longrightarrow> x \<in> set xs \<and> p x"
  by (induction xs) (auto split: if_splits)

lemma find_None_all: "List.find p xs = None \<longleftrightarrow> (\<forall>x \<in> set xs. \<not> p x)"
  by (induction xs) auto

subsection \<open>Digits\<close>

lemma digits_mod: "foldr (\<lambda>i acc. n div b ^ i mod b + b * acc) [0..<k] 0 = n mod b ^ k" for n b :: nat
proof (induction k arbitrary: n)
  case (Suc k)
  have "foldr (\<lambda>i acc. n div b ^ i mod b + b * acc) [0..<Suc k] 0 =
      n mod b + b * foldr (\<lambda>i acc. (n div b) div b ^ i mod b + b * acc) [0..<k] 0"
    by (simp add: upt_conv_Cons map_Suc_upt[symmetric] foldr_map o_def div_mult2_eq del: upt_Suc)
  also have "\<dots> = n mod b + b * (n div b mod b ^ k)" by (simp only: Suc.IH)
  also have "\<dots> = n mod b ^ Suc k" by (simp add: mod_mult2_eq[of n b "b ^ k"])
  finally show ?case .
qed simp

text \<open>Decimals of a fixed width (\<open>{:0n}\<close>), most significant digit first; a number with more digits
  than fit does not occur. The order of the strings is the order of the numbers.\<close>

definition dec_pad :: "nat \<Rightarrow> nat \<Rightarrow> string" where
  "dec_pad w n = map (\<lambda>k. char_of (48 + n div 10 ^ k mod 10)) (rev [0..<w])"

lemma dec_pad_0 [simp]: "dec_pad 0 n = []"
  by (simp add: dec_pad_def)

lemma dec_pad_Suc: "dec_pad (Suc w) n = char_of (48 + n div 10 ^ w mod 10) # dec_pad w n"
  by (simp add: dec_pad_def)

lemma length_dec_pad [simp]: "length (dec_pad w n) = w"
  by (simp add: dec_pad_def)

lemma dec_pad_mod: "dec_pad w (n mod 10 ^ w) = dec_pad w n"
proof -
  have "n mod 10 ^ w div 10 ^ k mod 10 = n div 10 ^ k mod 10" if "k < w" for k
  proof -
    have "(10 :: nat) ^ w = 10 ^ k * 10 ^ (w - k)" using that by (simp flip: power_add)
    then have "n mod 10 ^ w div 10 ^ k = n div 10 ^ k mod 10 ^ (w - k)"
      by (simp add: mod_mult2_eq)
    moreover have "(10 :: nat) dvd 10 ^ (w - k)" using that by simp
    ultimately show ?thesis by (simp add: mod_mod_cancel)
  qed
  then show ?thesis by (simp add: dec_pad_def)
qed

lemma digit_char_inj: "a < 10 \<Longrightarrow> b < 10 \<Longrightarrow> (char_of (48 + a) :: char) = char_of (48 + b) \<longleftrightarrow> a = b"
  for a b :: nat
proof -
  assume "a < 10" "b < 10"
  moreover have "of_char (char_of (48 + a) :: char) = 48 + a" "of_char (char_of (48 + b) :: char) = 48 + b"
    if "a < 10" "b < 10" using that by (simp_all add: of_char_of)
  ultimately show ?thesis by (metis add_left_cancel)
qed

text \<open>An event of an extended trace lies in the old part or in the new one.\<close>

lemma event_cases:
  assumes "tr @ es = before @ e # after"
  obtains rest where "tr = before @ e # rest" | front where "before = tr @ front" "es = front @ e # after"
  using assms by (auto simp: append_eq_append_conv2 Cons_eq_append_conv append_eq_Cons_conv)

end
