(* ===== verification/CredTypes.thy ===== *)
theory CredTypes
  imports Prelude
begin

text \<open>
  The entities of the credential system (\<open>rockbot-credentials/src/types.rs\<close>): endpoints,
  credentials, permission rules, vault objects and grants, audit entries, approval requests, and
  the hexadecimal codec their binary fields go through. A field keeps its source name behind a
  prefix for its record.
\<close>

subsection \<open>Enumerations\<close>

datatype endpoint_type = HomeAssistant | Gmail | Spotify | GenericRest | GenericOAuth2
  | ApiKeyService | BasicAuthService | BearerTokenEndpoint

fun endpoint_type_as_str :: "endpoint_type \<Rightarrow> string" where
  "endpoint_type_as_str HomeAssistant = ''home_assistant''"
| "endpoint_type_as_str Gmail = ''gmail''"
| "endpoint_type_as_str Spotify = ''spotify''"
| "endpoint_type_as_str GenericRest = ''generic_rest''"
| "endpoint_type_as_str GenericOAuth2 = ''generic_oauth2''"
| "endpoint_type_as_str ApiKeyService = ''api_key_service''"
| "endpoint_type_as_str BasicAuthService = ''basic_auth_service''"
| "endpoint_type_as_str BearerTokenEndpoint = ''bearer_token''"

datatype credential_type = BearerToken | BasicAuth string | ApiKey string
  | OAuth2 string string "string list" | ClientCertificate | Passkey

datatype http_method = Get | Post | Put | Delete | Patch | Head | Options

fun method_as_str :: "http_method \<Rightarrow> string" where
  "method_as_str Get = ''GET''"
| "method_as_str Post = ''POST''"
| "method_as_str Put = ''PUT''"
| "method_as_str Delete = ''DELETE''"
| "method_as_str Patch = ''PATCH''"
| "method_as_str Head = ''HEAD''"
| "method_as_str Options = ''OPTIONS''"

text \<open>\<open>to_uppercase\<close> is the Unicode case mapping of the standard library, whose tables are the
  parameter \<open>upper\<close>.\<close>

definition method_from_str :: "(string \<Rightarrow> string) \<Rightarrow> string \<Rightarrow> http_method option" where
  "method_from_str upper s =
     (let u = upper s in
      if u = ''GET'' then Some Get
      else if u = ''POST'' then Some Post
      else if u = ''PUT'' then Some Put
      else if u = ''DELETE'' then Some Delete
      else if u = ''PATCH'' then Some Patch
      else if u = ''HEAD'' then Some Head
      else if u = ''OPTIONS'' then Some Options
      else None)"

datatype permission_level = Allow | AllowHil | AllowHil2fa | Deny

fun level_as_str :: "permission_level \<Rightarrow> string" where
  "level_as_str Allow = ''allow''"
| "level_as_str AllowHil = ''allow_hil''"
| "level_as_str AllowHil2fa = ''allow_hil_2fa''"
| "level_as_str Deny = ''deny''"

definition requires_approval :: "permission_level \<Rightarrow> bool" where
  "requires_approval l = (l = AllowHil \<or> l = AllowHil2fa)"

definition requires_2fa :: "permission_level \<Rightarrow> bool" where
  "requires_2fa l = (l = AllowHil2fa)"

definition allows_execution :: "permission_level \<Rightarrow> bool" where
  "allows_execution l = (l \<noteq> Deny)"

fun level_display :: "permission_level \<Rightarrow> string" where
  "level_display Allow = ''Allow''"
| "level_display AllowHil = ''AllowHIL''"
| "level_display AllowHil2fa = ''AllowHIL2FA''"
| "level_display Deny = ''Deny''"

datatype cluster_node_role = GatewayRole | VaultProviderRole | ClientRole | AdminRole

datatype vault_grant_kind = Provider | Node

datatype result_status = Success | ClientError | ServerError | Timeout | Denied
  | PendingApproval | Cancelled

fun status_as_str :: "result_status \<Rightarrow> string" where
  "status_as_str Success = ''success''"
| "status_as_str ClientError = ''client_error''"
| "status_as_str ServerError = ''server_error''"
| "status_as_str Timeout = ''timeout''"
| "status_as_str Denied = ''denied''"
| "status_as_str PendingApproval = ''pending_approval''"
| "status_as_str Cancelled = ''cancelled''"

datatype approval_status = Pending | Approved | ApprovalDenied | Expired

fun approval_status_as_str :: "approval_status \<Rightarrow> string" where
  "approval_status_as_str Pending = ''pending''"
| "approval_status_as_str Approved = ''approved''"
| "approval_status_as_str ApprovalDenied = ''denied''"
| "approval_status_as_str Expired = ''expired''"

text \<open>The textual forms identify the values: they go into the hash of an audit entry.\<close>

lemma method_as_str_inj [simp]: "method_as_str a = method_as_str b \<longleftrightarrow> a = b"
  by (cases a; cases b) auto

lemma level_as_str_inj [simp]: "level_as_str a = level_as_str b \<longleftrightarrow> a = b"
  by (cases a; cases b) auto

lemma status_as_str_inj [simp]: "status_as_str a = status_as_str b \<longleftrightarrow> a = b"
  by (cases a; cases b) auto

subsection \<open>Records\<close>

record endpoint =
  ep_id :: uuid
  ep_name :: string
  ep_endpoint_type :: endpoint_type
  ep_base_url :: string
  ep_credential_id :: uuid
  ep_created_at :: datetime
  ep_updated_at :: datetime

record credential =
  cr_id :: uuid
  cr_endpoint_id :: uuid
  cr_credential_type :: credential_type
  cr_encrypted_data :: string
  cr_nonce :: string
  cr_created_at :: datetime
  cr_rotated_at :: "datetime option"

record permission =
  pm_id :: uuid
  pm_endpoint_id :: uuid
  pm_path_pattern :: string
  pm_method :: "http_method option"
  pm_permission_level :: permission_level
  pm_created_at :: datetime

record registered_node_key =
  nk_node_id :: string
  nk_identity_fingerprint :: "string option"
  nk_vault_public_key :: string
  nk_roles :: "cluster_node_role list"
  nk_active :: bool
  nk_created_at :: datetime
  nk_rotated_at :: "datetime option"
  nk_revoked_at :: "datetime option"

record vault_object_record =
  vo_id :: uuid
  vo_namespace :: string
  vo_name :: string
  vo_description :: "string option"
  vo_created_by :: "string option"
  vo_created_at :: datetime
  vo_updated_at :: datetime
  vo_version :: nat

record vault_grant_record =
  vg_object_id :: uuid
  vg_recipient_node_id :: string
  vg_issued_by :: "string option"
  vg_grant_kind :: vault_grant_kind
  vg_algorithm :: string
  vg_key_id :: "string option"
  vg_ciphertext :: string
  vg_version :: nat
  vg_created_at :: datetime

type_synonym hash256 = "u8 list"

definition ZERO_HASH :: hash256 where
  "ZERO_HASH = replicate 32 0"

record audit_entry =
  ae_sequence :: nat
  ae_timestamp :: datetime
  ae_request_id :: uuid
  ae_source :: string
  ae_endpoint_id :: uuid
  ae_method :: http_method
  ae_path :: string
  ae_parameters_hash :: string
  ae_permission_level :: permission_level
  ae_approval_id :: "uuid option"
  ae_result_status :: result_status
  ae_result_hash :: string
  ae_error_message :: "string option"
  ae_previous_hash :: string
  ae_entry_hash :: string

record approval_request =
  ar_id :: uuid
  ar_audit_entry_id :: uuid
  ar_endpoint_id :: uuid
  ar_method :: http_method
  ar_path :: string
  ar_body_preview :: "string option"
  ar_permission_level :: permission_level
  ar_status :: approval_status
  ar_created_at :: datetime
  ar_resolved_at :: "datetime option"
  ar_resolved_by :: "string option"
  ar_yubikey_verified :: bool

subsection \<open>The hexadecimal codec\<close>

datatype hex_error = OddLength | InvalidHexAt nat | WrongByteCount nat

definition hex_digit :: "nat \<Rightarrow> char" where
  "hex_digit n = ''0123456789abcdef'' ! n"

definition hex_encode_byte :: "u8 \<Rightarrow> string" where
  "hex_encode_byte b = [hex_digit (unat b div 16), hex_digit (unat b mod 16)]"

definition hex_encode :: "u8 list \<Rightarrow> string" where
  "hex_encode bytes = concat (map hex_encode_byte bytes)"

text \<open>\<open>char::to_digit(16)\<close> on a byte.\<close>

definition hex_value :: "char \<Rightarrow> nat option" where
  "hex_value c =
     (let n = byte_of c in
      if 48 \<le> n \<and> n \<le> 57 then Some (n - 48)
      else if 97 \<le> n \<and> n \<le> 102 then Some (n - 87)
      else if 65 \<le> n \<and> n \<le> 70 then Some (n - 55)
      else None)"

text \<open>\<open>u8::from_str_radix(_, 16)\<close> on a two-byte string, which accepts a leading plus sign.\<close>

definition u8_from_hex2 :: "char \<Rightarrow> char \<Rightarrow> u8 option" where
  "u8_from_hex2 a b =
     (if a = CHR ''+'' then map_option word_of_nat (hex_value b)
      else (case (hex_value a, hex_value b) of
              (Some x, Some y) \<Rightarrow> Some (word_of_nat (16 * x + y))
            | _ \<Rightarrow> None))"

text \<open>The loop over \<open>(0..s.len()).step_by(2)\<close>, on the suffix from position \<open>i\<close>. The slice
  \<open>&s[i..i + 2]\<close> panics (outer \<open>None\<close>) when either end is inside a character.\<close>

fun hex_decode_from :: "nat \<Rightarrow> string \<Rightarrow> (hex_error + u8 list) option" where
  "hex_decode_from i (a # b # s) =
     (if is_cont a \<or> (s \<noteq> [] \<and> is_cont (hd s)) then None
      else (case u8_from_hex2 a b of
              None \<Rightarrow> Some (Inl (InvalidHexAt i))
            | Some byte \<Rightarrow> (case hex_decode_from (i + 2) s of
                  None \<Rightarrow> None
                | Some (Inl e) \<Rightarrow> Some (Inl e)
                | Some (Inr bytes) \<Rightarrow> Some (Inr (byte # bytes)))))"
| "hex_decode_from i _ = Some (Inr [])"

definition hex_decode :: "string \<Rightarrow> (hex_error + u8 list) option" where
  "hex_decode s = (if \<not> even (length s) then Some (Inl OddLength) else hex_decode_from 0 s)"

definition hex_decode_hash :: "string \<Rightarrow> (hex_error + hash256) option" where
  "hex_decode_hash s = (case hex_decode s of
       None \<Rightarrow> None
     | Some (Inl e) \<Rightarrow> Some (Inl e)
     | Some (Inr bytes) \<Rightarrow>
         Some (if length bytes \<noteq> 32 then Inl (WrongByteCount (length bytes)) else Inr bytes))"

definition hex_encode_hash :: "hash256 \<Rightarrow> string" where
  "hex_encode_hash hash = hex_encode hash"

text \<open>The accessors of a stored credential and of an audit entry.\<close>

definition encrypted_data_bytes :: "credential \<Rightarrow> (hex_error + u8 list) option" where
  "encrypted_data_bytes c = hex_decode (cr_encrypted_data c)"

definition nonce_bytes :: "credential \<Rightarrow> (hex_error + u8 list) option" where
  "nonce_bytes c = hex_decode (cr_nonce c)"

definition set_encrypted_data :: "u8 list \<Rightarrow> credential \<Rightarrow> credential" where
  "set_encrypted_data data c = c\<lparr>cr_encrypted_data := hex_encode data\<rparr>"

definition set_nonce :: "u8 list \<Rightarrow> credential \<Rightarrow> credential" where
  "set_nonce n c = c\<lparr>cr_nonce := hex_encode n\<rparr>"

definition parameters_hash_bytes :: "audit_entry \<Rightarrow> (hex_error + hash256) option" where
  "parameters_hash_bytes e = hex_decode_hash (ae_parameters_hash e)"

definition result_hash_bytes :: "audit_entry \<Rightarrow> (hex_error + hash256) option" where
  "result_hash_bytes e = hex_decode_hash (ae_result_hash e)"

definition previous_hash_bytes :: "audit_entry \<Rightarrow> (hex_error + hash256) option" where
  "previous_hash_bytes e = hex_decode_hash (ae_previous_hash e)"

definition entry_hash_bytes :: "audit_entry \<Rightarrow> (hex_error + hash256) option" where
  "entry_hash_bytes e = hex_decode_hash (ae_entry_hash e)"

lemma hex_digit_value:
  "n < 16 \<Longrightarrow> hex_value (hex_digit n) = Some n \<and> \<not> is_cont (hex_digit n)
     \<and> hex_digit n \<noteq> CHR ''+''"
proof -
  assume "n < 16"
  then have "n \<in> set [0..<16]" by simp
  moreover have "\<forall>n \<in> set [0..<16]. hex_value (hex_digit n) = Some n \<and> \<not> is_cont (hex_digit n)
     \<and> hex_digit n \<noteq> CHR ''+''"
    by code_simp
  ultimately show ?thesis by blast
qed

lemma u8_from_hex2_encode:
  "u8_from_hex2 (hex_digit (unat (b :: u8) div 16)) (hex_digit (unat b mod 16)) = Some b"
proof -
  show ?thesis
    using hex_digit_value[of "unat b div 16"] hex_digit_value[of "unat b mod 16"]
    by (simp add: u8_from_hex2_def)
qed

lemma hex_encode_simps [simp]:
  "hex_encode [] = []"
  "hex_encode (b # bs) = hex_encode_byte b @ hex_encode bs"
  by (simp_all add: hex_encode_def)

lemma hex_encode_length [simp]: "length (hex_encode bs) = 2 * length bs"
  by (induction bs) (auto simp: hex_encode_byte_def)

lemma hex_encode_no_cont: "c \<in> set (hex_encode bs) \<Longrightarrow> \<not> is_cont c"
proof (induction bs)
  case (Cons b bs)
  from Cons hex_digit_value[of "unat b div 16"] hex_digit_value[of "unat b mod 16"] show ?case
    by (auto simp: hex_encode_byte_def)
qed simp

lemma hex_decode_from_encode: "hex_decode_from i (hex_encode bs) = Some (Inr bs)"
proof (induction bs arbitrary: i)
  case (Cons b bs)
  have "hex_encode bs \<noteq> [] \<Longrightarrow> \<not> is_cont (hd (hex_encode bs))"
    by (meson hd_in_set hex_encode_no_cont)
  then show ?case
    using Cons.IH hex_digit_value[of "unat b div 16"]
    by (auto simp: hex_encode_byte_def u8_from_hex2_encode)
qed simp

lemma hex_decode_encode [simp]: "hex_decode (hex_encode bs) = Some (Inr bs)"
  by (simp add: hex_decode_def hex_decode_from_encode)

lemma hex_decode_hash_encode [simp]:
  "length h = 32 \<Longrightarrow> hex_decode_hash (hex_encode_hash h) = Some (Inr h)"
  by (simp add: hex_decode_hash_def hex_encode_hash_def)

lemma hex_encode_inj: "hex_encode xs = hex_encode ys \<Longrightarrow> xs = ys"
  by (metis hex_decode_encode option.inject sum.inject(2))

text \<open>Hex round trip. Bytes stored in a credential (ciphertext and nonce) are read back
  unchanged, whatever they are, with no error and no panic.\<close>

theorem credential_bytes_roundtrip:
  "encrypted_data_bytes (set_nonce n (set_encrypted_data d c)) = Some (Inr d) \<and>
   nonce_bytes (set_nonce n (set_encrypted_data d c)) = Some (Inr n)"
  by (simp add: encrypted_data_bytes_def nonce_bytes_def set_encrypted_data_def set_nonce_def)

lemma hex_value_iff: "hex_value c \<noteq> None \<longleftrightarrow> c \<in> set ''0123456789abcdefABCDEF''"
proof -
  have char: "c = d \<longleftrightarrow> byte_of c = byte_of d" for d by (simp add: byte_of_def)
  have "c \<in> set ''0123456789abcdefABCDEF'' \<longleftrightarrow>
      48 \<le> byte_of c \<and> byte_of c \<le> 57 \<or> 97 \<le> byte_of c \<and> byte_of c \<le> 102 \<or> 65 \<le> byte_of c \<and> byte_of c \<le> 70"
    by (simp only: list.set insert_iff empty_iff char) (simp add: byte_of_def, arith)
  then show ?thesis by (simp add: hex_value_def Let_def)
qed

lemma hex_value_ascii: "hex_value c \<noteq> None \<Longrightarrow> \<not> is_cont c"
  by (auto simp: hex_value_def is_cont_def Let_def split: if_splits)

fun hex_pairs :: "string \<Rightarrow> bool" where
  "hex_pairs (a # b # s) \<longleftrightarrow> (hex_value a \<noteq> None \<or> a = CHR ''+'') \<and> hex_value b \<noteq> None \<and> hex_pairs s"
| "hex_pairs s \<longleftrightarrow> s = []"

lemma hex_pairs_nth:
  "hex_pairs s \<longleftrightarrow> even (length s) \<and> (\<forall>i < length s. hex_value (s ! i) \<noteq> None \<or> even i \<and> s ! i = CHR ''+'')"
proof (induction s rule: hex_pairs.induct)
  case (1 a b s)
  have "(\<forall>i < length (a # b # s). P i) \<longleftrightarrow> P 0 \<and> P 1 \<and> (\<forall>i < length s. P (Suc (Suc i)))" for P
    by (auto simp: less_Suc_eq_0_disj)
  then show ?case using 1 by auto
qed auto

lemma hex_decode_from_pairs: "even (length s) \<Longrightarrow> (\<exists>bytes. hex_decode_from i s = Some (Inr bytes)) \<longleftrightarrow> hex_pairs s"
proof (induction i s rule: hex_decode_from.induct)
  case (1 i a b s)
  have plus: "\<not> is_cont (CHR ''+'')" by (simp add: is_cont_def byte_of_def)
  have not_cont: "hex_pairs s \<Longrightarrow> s \<noteq> [] \<Longrightarrow> \<not> is_cont (hd s)"
    using hex_value_ascii plus by (cases s rule: hex_pairs.cases) auto
  have byte: "u8_from_hex2 a b \<noteq> None \<longleftrightarrow> (hex_value a \<noteq> None \<or> a = CHR ''+'') \<and> hex_value b \<noteq> None"
    by (auto simp: u8_from_hex2_def split: option.splits)
  show ?case
  proof (cases "u8_from_hex2 a b")
    case (Some x)
    with byte have ab: "hex_value a \<noteq> None \<or> a = CHR ''+''" "hex_value b \<noteq> None" by auto
    then have "\<not> is_cont a" using hex_value_ascii plus by blast
    with Some ab 1 not_cont show ?thesis by (auto split: option.splits sum.splits)
  qed (use byte in auto)
qed auto

text \<open>Decoding succeeds exactly on the strings of even length that consist of hexadecimal digits of either case, where
  the first digit of a pair may also be a plus sign, which the parser of the standard library accepts. So
  different strings decode to the same bytes.\<close>

theorem hex_decode_accepts:
  "(\<exists>bytes. hex_decode s = Some (Inr bytes)) \<longleftrightarrow> even (length s) \<and>
     (\<forall>i < length s. s ! i \<in> set ''0123456789abcdefABCDEF'' \<or> even i \<and> s ! i = CHR ''+'')"
proof (cases "even (length s)")
  case True
  then have "(\<exists>bytes. hex_decode s = Some (Inr bytes)) \<longleftrightarrow> hex_pairs s"
    using hex_decode_from_pairs[OF True, of 0] by (simp add: hex_decode_def)
  then show ?thesis unfolding hex_pairs_nth hex_value_iff .
qed (simp add: hex_decode_def)

end
