(* ===== verification/Glob.thy ===== *)
theory Glob
  imports Prelude
begin

text \<open>
  The glob matcher of the permission engine (\<open>rockbot-credentials/src/permissions.rs\<close>,
  \<open>pattern_match_recursive\<close>): the single-star backtracking loop with its two registers
  \<open>star_pattern\<close>, \<open>star_path\<close> and the recursive scan of \<open>**\<close>. Slicing a path off a character
  boundary panics, which is the result \<open>None\<close>. \<open>gspec\<close> is the language that the loop decides, without its
  registers; \<open>documented\<close> is the language that the module documentation describes, and
  \<open>pattern_matches_spec\<close> says where the two agree. They differ on the \<open>/\<close> after a \<open>**\<close>, which the matcher skips.
\<close>

subsection \<open>The matcher\<close>

text \<open>The backtracking step shared by a mismatch and by an exhausted pattern returns the loop's
  next state: \<open>None\<close> is a failed \<open>unwrap\<close>, \<open>Some None\<close> the \<open>return false\<close>.\<close>

definition backtrack :: "(string \<times> string) option \<Rightarrow> (string \<times> string) option option" where
  "backtrack star = (case star of
       None \<Rightarrow> Some None
     | Some (sp, st) \<Rightarrow> (case next_char st of
           None \<Rightarrow> None
         | Some (c, st') \<Rightarrow> if c = ''/'' then Some None else Some (Some (sp, st'))))"

definition skip_slash :: "string \<Rightarrow> string" where
  "skip_slash p = (if prefix ''/'' p then drop 1 p else p)"

lemma skip_slash_length: "length (skip_slash p) \<le> length p"
  by (simp add: skip_slash_def)

definition loop_pat_size :: "string \<Rightarrow> (string \<times> string) option \<Rightarrow> nat" where
  "loop_pat_size pat star = max (length pat) (case star of None \<Rightarrow> 0 | Some (sp, _) \<Rightarrow> length sp)"

definition loop_path_size :: "string \<Rightarrow> (string \<times> string) option \<Rightarrow> nat" where
  "loop_path_size path star =
     (case star of None \<Rightarrow> Suc (length path) | Some (_, st) \<Rightarrow> max (length st) (length path))"

lemma backtrack_shorter:
  "backtrack star = Some (Some (sp, st)) \<Longrightarrow>
     \<exists>st0. star = Some (sp, st0) \<and> length st < length st0"
  by (auto simp: backtrack_def split: option.splits if_splits)
    (erule next_char_shorter)

function glob_loop :: "string \<Rightarrow> string \<Rightarrow> (string \<times> string) option \<Rightarrow> bool option"
  and glob_try :: "string \<Rightarrow> string \<Rightarrow> nat \<Rightarrow> bool option"
where
  "glob_loop pat path star =
     (if path = [] then Some (dropWhile (\<lambda>c. c = CHR ''*'') pat = [])
      else if prefix ''**'' pat then
        (let pat' = skip_slash (drop 2 pat)
         in if pat' = [] then Some True else glob_try pat' path 0)
      else (case next_char pat of
          Some (pc, prest) \<Rightarrow> (case next_char path of
              None \<Rightarrow> None
            | Some (c, rest) \<Rightarrow>
                if pc = ''?'' \<and> c \<noteq> ''/'' then glob_loop prest rest star
                else if pc = ''*'' then glob_loop prest path (Some (prest, path))
                else if pc = c then glob_loop prest rest star
                else (case backtrack star of
                    None \<Rightarrow> None
                  | Some None \<Rightarrow> Some False
                  | Some (Some (sp, st)) \<Rightarrow> glob_loop sp st (Some (sp, st))))
        | None \<Rightarrow> (case backtrack star of
              None \<Rightarrow> None
            | Some None \<Rightarrow> Some False
            | Some (Some (sp, st)) \<Rightarrow> glob_loop sp st (Some (sp, st)))))"
| "glob_try pat path i =
     (if length path < i then Some False
      else (case slice_from path i of
          None \<Rightarrow> None
        | Some s \<Rightarrow> (case glob_loop pat s None of
              None \<Rightarrow> None
            | Some True \<Rightarrow> Some True
            | Some False \<Rightarrow> glob_try pat path (Suc i))))"
  by pat_completeness auto

termination
proof (relation "measures
    [case_sum (\<lambda>(pat, path, star). 2 * loop_pat_size pat star) (\<lambda>(pat, path, i). 2 * length pat + 1),
     case_sum (\<lambda>(pat, path, star). loop_path_size path star) (\<lambda>(pat, path, i). Suc (length path) - i),
     case_sum (\<lambda>(pat, path, star). length pat) (\<lambda>_. 0)]", goal_cases)
  case (2 pat path star pat')
  then have "length pat' + 2 \<le> length pat"
    using skip_slash_length[of "drop 2 pat"] prefix_length_le[of "''**''" pat] by simp
  moreover have "length pat \<le> loop_pat_size pat star"
    by (simp add: loop_pat_size_def)
  ultimately show ?case by simp
qed (auto simp: loop_pat_size_def loop_path_size_def max_def split: option.splits if_splits
      dest!: next_char_shorter backtrack_shorter)

definition pattern_match_recursive :: "string \<Rightarrow> string \<Rightarrow> bool option" where
  "pattern_match_recursive pattern path = glob_loop pattern path None"

definition pattern_matches :: "string \<Rightarrow> string \<Rightarrow> bool option" where
  "pattern_matches pattern path = pattern_match_recursive pattern path"

declare glob_loop.simps [simp del] glob_try.simps [simp del]

subsection \<open>The language the loop decides\<close>

text \<open>
  As in the loop: \<open>?\<close> is one character other than \<open>/\<close>, \<open>*\<close> a sequence without \<open>/\<close>, \<open>**\<close> (with an optional
  \<open>/\<close> after it) any sequence; the end of the path is matched by stars only.
\<close>

abbreviation no_slash :: "string \<Rightarrow> bool" where
  "no_slash s \<equiv> CHR ''/'' \<notin> set s"

function gspec :: "string \<Rightarrow> string \<Rightarrow> bool" where
  "gspec pat path =
     (if path = [] then (\<forall>c \<in> set pat. c = CHR ''*'')
      else if pat = [] then False
      else if prefix ''**'' pat then
        (let pat' = skip_slash (drop 2 pat)
         in pat' = [] \<or> (\<exists>i \<le> length path. gspec pat' (drop i path)))
      else if hd pat = CHR ''*'' then
        (\<exists>k \<le> length path. no_slash (take k path) \<and> gspec (tl pat) (drop k path))
      else (hd pat = hd path \<or> (hd pat = CHR ''?'' \<and> hd path \<noteq> CHR ''/''))
           \<and> gspec (tl pat) (tl path))"
  by pat_completeness auto
termination
proof (relation "measure (\<lambda>(pat, path). length pat)", goal_cases)
  case (2 pat path pat' i)
  then show ?case
    using skip_slash_length[of "drop 2 pat"] prefix_length_le[of "''**''" pat]
    by (cases pat) auto
qed auto

declare gspec.simps [simp del]

subsection \<open>Facts about the pattern language\<close>

lemma gspec_Nil_path [simp]: "gspec pat [] \<longleftrightarrow> (\<forall>c \<in> set pat. c = CHR ''*'')"
  by (simp add: gspec.simps)

lemma gspec_Nil_pat [simp]: "gspec [] path \<longleftrightarrow> path = []"
  by (simp add: gspec.simps)

lemma gspec_lit:
  "c \<noteq> CHR ''*'' \<Longrightarrow> gspec (c # pat) path \<longleftrightarrow>
     path \<noteq> [] \<and> (c = hd path \<or> (c = CHR ''?'' \<and> hd path \<noteq> CHR ''/'')) \<and> gspec pat (tl path)"
  by (subst gspec.simps) auto

lemma gspec_star:
  assumes "\<not> prefix ''*'' pat"
  shows "gspec (CHR ''*'' # pat) path \<longleftrightarrow>
     (\<exists>k \<le> length path. no_slash (take k path) \<and> gspec pat (drop k path))"
proof (cases "path = []")
  case False
  with assms show ?thesis by (subst gspec.simps) (auto simp: prefix_def)
qed simp

lemma gspec_dstar:
  "path \<noteq> [] \<Longrightarrow> gspec (CHR ''*'' # CHR ''*'' # pat) path \<longleftrightarrow>
     skip_slash pat = [] \<or> (\<exists>i \<le> length path. gspec (skip_slash pat) (drop i path))"
  by (subst gspec.simps) (auto simp: Let_def)

lemma gspec_dstar_mono:
  assumes g: "gspec (CHR ''*'' # CHR ''*'' # pat) (drop k path)" and ne: "path \<noteq> []"
  shows "gspec (CHR ''*'' # CHR ''*'' # pat) path"
proof (cases "drop k path = []")
  case True
  with g have all: "\<forall>c \<in> set pat. c = CHR ''*''" by (simp del: drop_eq_Nil)
  then have "skip_slash pat = pat" by (cases pat) (auto simp: skip_slash_def)
  with all ne have "gspec (skip_slash pat) (drop (length path) path)" by simp
  then show ?thesis unfolding gspec_dstar[OF ne] by (metis order_refl)
next
  case False
  with g consider "skip_slash pat = []"
    | i where "i \<le> length (drop k path)" "gspec (skip_slash pat) (drop i (drop k path))"
    by (auto simp: gspec_dstar)
  then show ?thesis
  proof cases
    case 2
    with False have "i + k \<le> length path" by simp
    with 2 ne show ?thesis by (auto simp: gspec_dstar)
  qed (use ne in \<open>simp add: gspec_dstar\<close>)
qed

text \<open>\<open>seg v w\<close>: the star-free pattern segment \<open>v\<close> matches exactly the characters \<open>w\<close>.\<close>

definition seg :: "string \<Rightarrow> string \<Rightarrow> bool" where
  "seg v w \<longleftrightarrow>
     list_all2 (\<lambda>p c. p \<noteq> CHR ''*'' \<and> (p = c \<or> (p = CHR ''?'' \<and> c \<noteq> CHR ''/''))) v w"

lemma seg_Nil [simp]: "seg [] w \<longleftrightarrow> w = []"
  by (simp add: seg_def)

lemma seg_length: "seg v w \<Longrightarrow> length v = length w"
  by (simp add: seg_def list_all2_lengthD)

lemma seg_snoc:
  "seg v w \<Longrightarrow> p \<noteq> CHR ''*'' \<Longrightarrow> p = c \<or> (p = CHR ''?'' \<and> c \<noteq> CHR ''/'') \<Longrightarrow>
     seg (v @ [p]) (w @ [c])"
  by (auto simp: seg_def intro: list_all2_appendI)

lemma gspec_seg_append: "seg v w \<Longrightarrow> gspec (v @ pat) (w @ path) \<longleftrightarrow> gspec pat path"
proof (induction v arbitrary: w)
  case (Cons p v)
  then obtain c w' where "w = c # w'" "seg v w'" and pc: "p \<noteq> CHR ''*''"
    "p = c \<or> (p = CHR ''?'' \<and> c \<noteq> CHR ''/'')"
    by (auto simp: seg_def list_all2_Cons1)
  with Cons.IH show ?case by (auto simp: gspec_lit)
qed simp

lemma gspec_segD:
  assumes "CHR ''*'' \<notin> set v" and "gspec (v @ pat) s"
  shows "length v \<le> length s \<and> seg v (take (length v) s) \<and> gspec pat (drop (length v) s)"
  using assms
proof (induction v arbitrary: s)
  case (Cons p v)
  then have p: "p \<noteq> CHR ''*''" by auto
  with Cons.prems obtain c s' where s: "s = c # s'"
    and pc: "p = c \<or> (p = CHR ''?'' \<and> c \<noteq> CHR ''/'')" and g: "gspec (v @ pat) s'"
    by (cases s) (auto simp: gspec_lit)
  from Cons.IH[OF _ g] Cons.prems p pc s show ?case by (auto simp: seg_def)
qed simp

lemma seg_no_star: "seg v w \<Longrightarrow> CHR ''*'' \<notin> set v"
  by (auto simp: seg_def list_all2_conv_all_nth in_set_conv_nth)

lemma seg_nth:
  "seg v w \<Longrightarrow> i < length v \<Longrightarrow> v ! i = w ! i \<or> (v ! i = CHR ''?'' \<and> w ! i \<noteq> CHR ''/'')"
  by (auto simp: seg_def list_all2_conv_all_nth)

text \<open>Where a segment matches at the start of \<open>st\<close> and again \<open>k\<close> characters later, a slash in
  the span would propagate back into the first \<open>k\<close> characters.\<close>

lemma overlap_no_slash:
  assumes v0: "seg v (take (length v) st)" and vk: "seg v (take (length v) (drop k st))"
    and len: "length v + k \<le> length st" and ns: "no_slash (take k st)" and k: "0 < k"
  shows "i < length v + k \<Longrightarrow> st ! i \<noteq> CHR ''/''"
proof (induction i rule: less_induct)
  case (less i)
  show ?case
  proof (cases "i < k")
    case True
    with ns len show ?thesis by (auto simp: in_set_conv_nth)
  next
    case False
    define j where "j = i - k"
    have j: "j < length v" "i = k + j" using False less.prems by (auto simp: j_def)
    show ?thesis
    proof
      assume sl: "st ! i = CHR ''/''"
      from seg_nth[OF vk j(1)] len j sl have "v ! j = CHR ''/''" by auto
      with seg_nth[OF v0 j(1)] j(1) have "st ! j = CHR ''/''" by auto
      with less.IH[of j] less.prems j k show False by simp
    qed
  qed
qed

subsection \<open>The loop decides the language\<close>

text \<open>\<open>star_ok pat path star\<close> is the loop invariant of the two star registers: the pattern and the
  path have advanced over the same star-free segment since the last star.  \<open>star_sem\<close> is what the
  whole search from the registers means.\<close>

fun star_ok :: "string \<Rightarrow> string \<Rightarrow> (string \<times> string) option \<Rightarrow> bool" where
  "star_ok pat path None \<longleftrightarrow> True"
| "star_ok pat path (Some (sp, st)) \<longleftrightarrow>
     ascii_str st \<and> \<not> prefix ''*'' sp \<and> (\<exists>v w. sp = v @ pat \<and> st = w @ path \<and> seg v w)"

fun star_sem :: "string \<Rightarrow> string \<Rightarrow> (string \<times> string) option \<Rightarrow> bool" where
  "star_sem pat path None \<longleftrightarrow> gspec pat path"
| "star_sem pat path (Some (sp, st)) \<longleftrightarrow> gspec (CHR ''*'' # sp) st"

lemma star_ok_step:
  assumes "star_ok (p # pat) (c # path) star" "p \<noteq> CHR ''*''"
    "p = c \<or> (p = CHR ''?'' \<and> c \<noteq> CHR ''/'')"
  shows "star_ok pat path star \<and> star_sem (p # pat) (c # path) star = star_sem pat path star"
proof (cases star)
  case None
  with assms show ?thesis by (auto simp: gspec_lit)
next
  case (Some a)
  obtain sp st where a: "a = (sp, st)" by (cases a)
  with Some assms(1) obtain v w where vw: "sp = v @ p # pat" "st = w @ c # path" "seg v w"
    and st: "ascii_str st" "\<not> prefix ''*'' sp" by auto
  have "sp = (v @ [p]) @ pat" "st = (w @ [c]) @ path" "seg (v @ [p]) (w @ [c])"
    using vw assms by (auto intro: seg_snoc)
  with Some a st show ?thesis by auto
qed

text \<open>With star registers, the search succeeds if the rest matches where the loop stands
  (\<open>now\<close>), and conversely for a rest on which a later restart cannot do better.\<close>

lemma star_sem_now:
  assumes "star_ok pat path star" and "gspec pat path"
  shows "star_sem pat path star"
proof (cases star)
  case (Some a)
  obtain sp st where a: "a = (sp, st)" by (cases a)
  with Some assms(1) obtain v w where vw: "sp = v @ pat" "st = w @ path" "seg v w"
    and sp: "\<not> prefix ''*'' sp" by auto
  then have "gspec sp (drop 0 st)" using gspec_seg_append assms(2) by auto
  then have "gspec (CHR ''*'' # sp) st"
    unfolding gspec_star[OF sp] by (intro exI[of _ 0]) simp
  then show ?thesis by (simp add: Some a)
qed (use assms in simp)

lemma star_sem_later:
  assumes ok: "star_ok pat path star" and sem: "star_sem pat path star"
    and later: "\<And>(v :: string) st k. \<lbrakk>path = drop (length v) st; k + length v \<le> length st; 0 < k;
        no_slash (take k path); gspec pat (drop k path)\<rbrakk> \<Longrightarrow> gspec pat path"
  shows "gspec pat path"
proof (cases star)
  case (Some a)
  obtain sp st where a: "a = (sp, st)" by (cases a)
  with Some ok obtain v w where vw: "sp = v @ pat" "st = w @ path" and sg: "seg v w"
    and sp: "\<not> prefix ''*'' sp" by auto
  from sem Some a obtain k where k: "k \<le> length st" "no_slash (take k st)" "gspec sp (drop k st)"
    by (auto simp: gspec_star[OF sp])
  have ln: "length w = length v" using seg_length[OF sg] by simp
  have path: "path = drop (length v) st" by (simp add: vw ln)
  show ?thesis
  proof (cases "k = 0")
    case True
    with k vw gspec_seg_append[OF sg] show ?thesis by simp
  next
    case False
    have D: "length v \<le> length (drop k st)" "seg v (take (length v) (drop k st))"
      "gspec pat (drop (length v) (drop k st))"
      using gspec_segD[OF seg_no_star[OF sg], of pat "drop k st"] k(3) by (simp_all add: vw(1))
    have "seg v (take (length v) st)" using sg ln by (simp add: vw)
    from overlap_no_slash[OF this D(2) _ k(2)] D(1) k(1) False
    have ns: "\<And>i. i < length v + k \<Longrightarrow> st ! i \<noteq> CHR ''/''" by simp
    show ?thesis
    proof (rule later[OF path])
      show "k + length v \<le> length st" using D(1) k(1) by simp
      show "0 < k" using False by simp
      show "no_slash (take k path)"
        using ns D(1) k(1) by (auto simp: path in_set_conv_nth)
      show "gspec pat (drop k path)" using D(3) by (simp add: path add.commute)
    qed
  qed
qed (use sem in simp)

lemma backtrack_sem:
  assumes ok: "star_ok pat path star" and "path \<noteq> []" and no: "\<not> gspec pat path"
  obtains "backtrack star = Some None" "\<not> star_sem pat path star"
  | sp st where "backtrack star = Some (Some (sp, st))" "star_ok sp st (Some (sp, st))"
      "star_sem pat path star = star_sem sp st (Some (sp, st))"
proof (cases star)
  case None
  with no that(1) show ?thesis by (simp add: backtrack_def)
next
  case (Some a)
  obtain sp st where a: "a = (sp, st)" by (cases a)
  with Some ok obtain v w where vw: "sp = v @ pat" "st = w @ path" "seg v w"
    and st: "ascii_str st" and sp: "\<not> prefix ''*'' sp" by auto
  from vw assms(2) obtain c st' where c: "st = c # st'"
    by (metis append_is_Nil_conv neq_Nil_conv)
  from gspec_seg_append[OF vw(3)] no vw have no0: "\<not> gspec sp (c # st')" by (simp add: c[symmetric])
  have sem: "star_sem pat path star \<longleftrightarrow> c \<noteq> CHR ''/'' \<and> gspec (CHR ''*'' # sp) st'"
  proof -
    have "star_sem pat path star \<longleftrightarrow>
        (\<exists>k \<le> length st. no_slash (take k st) \<and> gspec sp (drop k st))"
      by (simp add: Some a gspec_star[OF sp])
    also have "\<dots> \<longleftrightarrow> (\<exists>k. k \<le> length st' \<and> c \<noteq> CHR ''/'' \<and> no_slash (take k st')
        \<and> gspec sp (drop k st'))"
    proof
      assume "\<exists>k \<le> length st. no_slash (take k st) \<and> gspec sp (drop k st)"
      then obtain k where "k \<le> length st" "no_slash (take k st)" "gspec sp (drop k st)" by blast
      with no0 show "\<exists>k. k \<le> length st' \<and> c \<noteq> CHR ''/'' \<and> no_slash (take k st')
        \<and> gspec sp (drop k st')" by (cases k) (auto simp: c)
    next
      assume "\<exists>k. k \<le> length st' \<and> c \<noteq> CHR ''/'' \<and> no_slash (take k st')
        \<and> gspec sp (drop k st')"
      then obtain k where "k \<le> length st'" "c \<noteq> CHR ''/''" "no_slash (take k st')"
        "gspec sp (drop k st')" by blast
      then show "\<exists>k \<le> length st. no_slash (take k st) \<and> gspec sp (drop k st)"
        by (intro exI[of _ "Suc k"]) (auto simp: c)
    qed
    finally show ?thesis by (auto simp: gspec_star[OF sp])
  qed
  show ?thesis
  proof (cases "c = CHR ''/''")
    case True
    with sem that(1) st show ?thesis by (simp add: backtrack_def Some a c)
  next
    case False
    show ?thesis
    proof (rule that(2)[of sp st'])
      show "backtrack star = Some (Some (sp, st'))"
        using False st by (simp add: backtrack_def Some a c)
      show "star_ok sp st' (Some (sp, st'))" using st sp by (simp add: c)
    qed (use False sem in simp)
  qed
qed

lemma glob_loop_sem:
  shows "ascii_str path \<Longrightarrow> star_ok pat path star \<Longrightarrow>
           glob_loop pat path star = Some (star_sem pat path star)"
    and "ascii_str path \<Longrightarrow>
           glob_try pat path i = Some (\<exists>j. i \<le> j \<and> j \<le> length path \<and> gspec pat (drop j path))"
proof (induction pat path star and pat path i rule: glob_loop_glob_try.induct)
  case (1 pat path star)
  show ?case
  proof (cases "path = []")
    case True
    have "star_sem pat path star \<longleftrightarrow> (\<forall>c \<in> set pat. c = CHR ''*'')"
      using star_sem_now[OF "1.prems"(2)] star_sem_later[OF "1.prems"(2)] True by auto
    with True show ?thesis by (simp add: glob_loop.simps)
  next
    case ne: False
    then obtain c rest where path: "path = c # rest" by (cases path) auto
    with "1.prems" have c: "is_ascii c" "ascii_str rest" by auto
    consider (dstar) p where "pat = CHR ''*'' # CHR ''*'' # p"
      | (star) p where "pat = CHR ''*'' # p" "\<not> prefix ''*'' p"
      | (step) p pat' where "pat = p # pat'" "p \<noteq> CHR ''*''" "p = c \<or> (p = CHR ''?'' \<and> c \<noteq> CHR ''/'')"
      | (fail) "\<not> prefix ''*'' pat" "\<not> gspec pat path"
          "pat \<noteq> [] \<longrightarrow> hd pat \<noteq> c \<and> (hd pat = CHR ''?'' \<longrightarrow> c = CHR ''/'')"
      by (cases pat; cases "tl pat")
        (auto simp: path gspec_lit prefix_def split: if_splits)
    then show ?thesis
    proof cases
      case dstar
      have iff: "star_sem pat path star \<longleftrightarrow> gspec pat path"
        using star_sem_now[OF "1.prems"(2)] star_sem_later[OF "1.prems"(2)] gspec_dstar_mono ne
        unfolding dstar by blast
      show ?thesis
        using "1.IH"(1)[OF ne _ refl] "1.prems"(1) dstar ne
        unfolding iff by (subst glob_loop.simps) (simp add: gspec_dstar Let_def)
    next
      case star
      have iff: "star_sem pat path star \<longleftrightarrow> gspec pat path"
      proof
        assume "star_sem pat path star"
        from "1.prems"(2) this show "gspec pat path"
        proof (rule star_sem_later)
          fix v st :: string and k
          assume k: "path = drop (length v) st" "k + length v \<le> length st"
            "no_slash (take k path)" "gspec pat (drop k path)"
          then obtain j where j: "j \<le> length (drop k path)" "no_slash (take j (drop k path))"
            "gspec p (drop j (drop k path))"
            unfolding star(1) gspec_star[OF star(2)] by blast
          have "k + j \<le> length path" using j(1) k by simp
          moreover have "no_slash (take (k + j) path)" using j(2) k(3) by (simp add: take_add)
          moreover have "gspec p (drop (k + j) path)" using j(3) by (simp add: add.commute)
          ultimately show "gspec pat path"
            unfolding star(1) gspec_star[OF star(2)] by blast
        qed
      qed (rule star_sem_now[OF "1.prems"(2)])
      have "star_ok p path (Some (p, path))" using "1.prems"(1) star by simp
      with "1.IH" show ?thesis
        using "1.prems"(1) star ne c unfolding iff by (subst glob_loop.simps) (auto simp: path prefix_def is_ascii_def byte_of_def)
    next
      case step
      from "1.prems"(2) have ok: "star_ok (p # pat') (c # rest) star" by (simp add: step path)
      note st = star_ok_step[OF ok step(2,3)]
      have p: "is_ascii p" using step(3) c(1) by (auto simp: is_ascii_def byte_of_def)
      have eq: "glob_loop pat path star = glob_loop pat' rest star"
        using step p c(1) ne by (subst glob_loop.simps) (auto simp: path prefix_def)
      have ih: "glob_loop pat' rest star = Some (star_sem pat' rest star)"
      proof (cases "p = CHR ''?'' \<and> c \<noteq> CHR ''/''")
        case True
        show ?thesis
          by (rule "1.IH"(3)[OF ne, of "([p], pat')" "[p]" pat' "([c], rest)" "[c]" rest])
            (use step p c st True in \<open>auto simp: path prefix_def\<close>)
      next
        case False
        show ?thesis
          by (rule "1.IH"(5)[OF ne, of "([p], pat')" "[p]" pat' "([c], rest)" "[c]" rest])
            (use step p c st False in \<open>auto simp: path prefix_def\<close>)
      qed
      with st eq show ?thesis by (simp add: step path)
    next
      case fail
      define R where "R = (case backtrack star of None \<Rightarrow> None | Some None \<Rightarrow> Some False
                  | Some (Some (sp, st)) \<Rightarrow> glob_loop sp st (Some (sp, st)))"
      have n: "next_char path = Some ([c], rest)" using c by (simp add: path)
      have ns: "pat \<noteq> [] \<longrightarrow> hd pat \<noteq> CHR ''*''" "\<not> prefix ''**'' pat"
        using fail(1) by (cases pat; auto simp: prefix_def)+
      have eq: "glob_loop pat path star = R"
      proof (cases "next_char pat")
        case None
        with ne fail(1) show ?thesis
          unfolding R_def by (subst glob_loop.simps) (auto simp: prefix_def)
      next
        case (Some a)
        obtain pc prest where a: "a = (pc, prest)" by (cases a)
        with Some next_char_hd[of pat pc prest] fail ne n ns show ?thesis
          unfolding R_def by (subst glob_loop.simps) auto
      qed
      from "1.prems"(2) ne fail(2) show ?thesis
      proof (cases rule: backtrack_sem)
        case 1
        with eq show ?thesis by (simp add: R_def)
      next
        case (2 sp st)
        have "glob_loop sp st (Some (sp, st)) = Some (star_sem sp st (Some (sp, st)))"
        proof (cases "next_char pat")
          case None
          from "1.IH"(2)[OF ne _ None 2(1) refl refl] ns 2(2) show ?thesis
            by auto
        next
          case (Some a)
          obtain pc prest where a: "a = (pc, prest)" by (cases a)
          with Some have hd: "pc \<noteq> []" "hd pc = hd pat" "pat \<noteq> []"
            using next_char_hd[of pat pc prest] by auto
          have pc: "pc \<noteq> ''*''" "pc \<noteq> [c]" "\<not> (pc = ''?'' \<and> [c] \<noteq> ''/'')"
            using hd fail(3) ns by auto
          from "1.IH"(6)[OF ne _ Some a[symmetric] n refl _ _ _ 2(1) refl refl] pc ns 2(2)
          show ?thesis by auto
        qed
        with 2 eq show ?thesis by (simp add: R_def)
      qed
    qed
  qed
next
  case (2 pat path i)
  show ?case
  proof (cases "length path < i")
    case True
    then show ?thesis by (simp add: glob_try.simps)
  next
    case False
    with 2 have "slice_from path i = Some (drop i path)" by (simp add: slice_from_ascii)
    with False 2 have ih: "glob_loop pat (drop i path) None = Some (gspec pat (drop i path))"
      "\<not> gspec pat (drop i path) \<Longrightarrow> glob_try pat path (Suc i) =
         Some (\<exists>j. Suc i \<le> j \<and> j \<le> length path \<and> gspec pat (drop j path))"
      by simp_all
    have "(\<exists>j. i \<le> j \<and> j \<le> length path \<and> gspec pat (drop j path)) \<longleftrightarrow>
        gspec pat (drop i path) \<or> (\<exists>j. Suc i \<le> j \<and> j \<le> length path \<and> gspec pat (drop j path))"
      using False by (metis Suc_leD le_antisym not_less not_less_eq_eq)
    with ih \<open>slice_from path i = _\<close> False show ?thesis
      by (subst glob_try.simps) (cases "gspec pat (drop i path)"; simp)
  qed
qed

subsection \<open>Properties\<close>

lemma pattern_matches_ascii:
  "ascii_str path \<Longrightarrow> pattern_matches pattern path = Some (gspec pattern path)"
  by (simp add: pattern_matches_def pattern_match_recursive_def glob_loop_sem(1))

subsection \<open>The documentation\<close>

text \<open>
  What the module says of a pattern, character by character: \<open>**\<close> is any sequence, \<open>*\<close> a sequence without \<open>/\<close>,
  \<open>?\<close> one character other than \<open>/\<close>, everything else stands for itself, the \<open>/\<close> after a \<open>**\<close> included. It
  does not refer to the matcher.
\<close>

datatype glob_token = AnyPath | AnySegment | AnyChar | Exactly char

definition glob_token :: "char \<Rightarrow> glob_token" where
  "glob_token c = (if c = CHR ''*'' then AnySegment else if c = CHR ''?'' then AnyChar else Exactly c)"

fun glob_tokens :: "string \<Rightarrow> glob_token list" where
  "glob_tokens [] = []"
| "glob_tokens [c] = [glob_token c]"
| "glob_tokens (c # d # pat) =
     (if c = CHR ''*'' \<and> d = CHR ''*'' then AnyPath # glob_tokens pat else glob_token c # glob_tokens (d # pat))"

fun token_lang :: "glob_token \<Rightarrow> string set" where
  "token_lang AnyPath = UNIV"
| "token_lang AnySegment = {s. no_slash s}"
| "token_lang AnyChar = {[c] |c. c \<noteq> CHR ''/''}"
| "token_lang (Exactly c) = {[c]}"

definition documented :: "string \<Rightarrow> string \<Rightarrow> bool" where
  "documented pattern path \<longleftrightarrow>
     path \<in> foldr (\<lambda>t L. {u @ v |u v. u \<in> token_lang t \<and> v \<in> L}) (glob_tokens pattern) {[]}"

lemma documented_Nil [simp]: "documented [] path \<longleftrightarrow> path = []"
  by (simp add: documented_def)

lemma documented_dstar:
  "documented (CHR ''*'' # CHR ''*'' # pat) path \<longleftrightarrow> (\<exists>u v. path = u @ v \<and> documented pat v)"
  by (simp add: documented_def)

lemma glob_tokens_Cons: "\<not> (c = CHR ''*'' \<and> prefix ''*'' pat) \<Longrightarrow> glob_tokens (c # pat) = glob_token c # glob_tokens pat"
  by (cases pat) auto

lemma documented_star:
  "\<not> prefix ''*'' pat \<Longrightarrow>
     documented (CHR ''*'' # pat) path \<longleftrightarrow> (\<exists>u v. path = u @ v \<and> no_slash u \<and> documented pat v)"
  by (simp add: documented_def glob_tokens_Cons glob_token_def)

lemma documented_lit:
  assumes "c \<noteq> CHR ''*''"
  shows "documented (c # pat) path \<longleftrightarrow>
     path \<noteq> [] \<and> (c = hd path \<or> c = CHR ''?'' \<and> hd path \<noteq> CHR ''/'') \<and> documented pat (tl path)"
proof -
  have "documented (c # pat) path \<longleftrightarrow> (\<exists>u v. path = u @ v \<and> u \<in> token_lang (glob_token c) \<and> documented pat v)"
    using assms by (simp add: documented_def glob_tokens_Cons)
  also have "\<dots> \<longleftrightarrow> (\<exists>d v. path = d # v \<and> (c = d \<or> c = CHR ''?'' \<and> d \<noteq> CHR ''/'') \<and> documented pat v)"
    using assms by (cases "c = CHR ''?''") (auto simp: glob_token_def intro: exI[of _ "[_]"])
  finally show ?thesis by (cases path) auto
qed

text \<open>The ways a pattern can start.\<close>

lemma glob_cases [case_names Nil dstar star lit]:
  obtains "pat = []" | pat' where "pat = CHR ''*'' # CHR ''*'' # pat'"
    | pat' where "pat = CHR ''*'' # pat'" "\<not> prefix ''*'' pat'"
    | c pat' where "pat = c # pat'" "c \<noteq> CHR ''*''"
  by (cases pat; cases "tl pat"; cases "hd pat = CHR ''*''"; cases "hd (tl pat) = CHR ''*''") auto

lemma gspec_dstarI:
  assumes "gspec pat v"
  shows "gspec (CHR ''*'' # CHR ''*'' # pat) (u @ v)"
proof (cases "u @ v = []")
  case False
  show ?thesis
  proof (cases "prefix ''/'' pat")
    case True
    then obtain rest where pat: "pat = CHR ''/'' # rest" by (auto simp: prefix_def)
    with assms have "v \<noteq> []" "gspec rest (drop (Suc (length u)) (u @ v))"
      by (auto simp: gspec_lit drop_Suc)
    then have "\<exists>i \<le> length (u @ v). gspec rest (drop i (u @ v))"
      by (intro exI[of _ "Suc (length u)"]) (cases v; simp)
    with False show ?thesis by (simp add: gspec_dstar pat skip_slash_def)
  next
    case no_slash_first: False
    have "\<exists>i \<le> length (u @ v). gspec pat (drop i (u @ v))"
      using assms by (intro exI[of _ "length u"]) simp
    with False no_slash_first show ?thesis by (simp add: gspec_dstar skip_slash_def)
  qed
qed (use assms in simp)

lemma documented_gspec: "documented pat path \<Longrightarrow> gspec pat path"
proof (induction "length pat" arbitrary: pat path rule: less_induct)
  case less
  show ?case
  proof (cases pat rule: glob_cases)
    case (dstar pat')
    with less show ?thesis by (auto simp: documented_dstar intro: gspec_dstarI)
  next
    case (star pat')
    with less.prems obtain u v where uv: "path = u @ v" "no_slash u" "documented pat' v" by (auto simp: documented_star)
    with less.hyps[of pat' v] star have "gspec pat' (drop (length u) path)" by simp
    with uv show ?thesis unfolding star(1) gspec_star[OF star(2)] by (intro exI[of _ "length u"]) simp
  next
    case (lit c pat')
    with less show ?thesis by (auto simp: documented_lit gspec_lit)
  qed (use less.prems in simp)
qed

lemma gspec_documented: "gspec pat path \<Longrightarrow> \<not> sublist ''**/'' pat \<Longrightarrow> documented pat path"
proof (induction "length pat" arbitrary: pat path rule: less_induct)
  case less
  have sub: "\<not> sublist ''**/'' pat'" if "pat = pre @ pat'" for pre pat'
    using less.prems(2) that by (metis sublist_appendI sublist_def append.assoc)
  show ?case
  proof (cases pat rule: glob_cases)
    case (dstar pat')
    have skip: "skip_slash pat' = pat'"
    proof (rule ccontr)
      assume "skip_slash pat' \<noteq> pat'"
      then obtain rest where "pat = ''**/'' @ rest" using dstar by (auto simp: skip_slash_def prefix_def split: if_splits)
      then show False using less.prems(2) by (metis sublist_appendI append_Nil)
    qed
    have ns: "\<not> sublist ''**/'' pat'" by (rule sub[of "''**''"]) (simp add: dstar)
    note ih = less.hyps[of pat', OF _ _ ns]
    show ?thesis
    proof (cases "path = []")
      case True
      with less.prems dstar ih[of "[]"] show ?thesis by (simp add: documented_dstar)
    next
      case False
      with less.prems(1) skip consider "pat' = []" | i where "gspec pat' (drop i path)"
        by (auto simp: dstar gspec_dstar)
      then show ?thesis
      proof cases
        case 2
        with ih[of "drop i path"] dstar have "documented pat' (drop i path)" by simp
        then show ?thesis unfolding dstar documented_dstar by (metis append_take_drop_id)
      qed (simp add: dstar documented_dstar)
    qed
  next
    case (star pat')
    with less.prems(1) obtain k where k: "no_slash (take k path)" "gspec pat' (drop k path)"
      unfolding star(1) gspec_star[OF star(2)] by blast
    have "\<not> sublist ''**/'' pat'" by (rule sub[of "''*''"]) (simp add: star)
    with less.hyps[of pat' "drop k path"] k star have "documented pat' (drop k path)" by simp
    with k(1) show ?thesis unfolding star(1) documented_star[OF star(2)] by (metis append_take_drop_id)
  next
    case (lit c pat')
    have "\<not> sublist ''**/'' pat'" by (rule sub[of "[c]"]) (simp add: lit)
    with less lit show ?thesis by (auto simp: documented_lit gspec_lit)
  qed (use less.prems in simp)
qed

text \<open>C5. On every ASCII path the matcher returns, without a panic and for every pattern. It accepts every path
  that the documentation gives the pattern, and for a pattern in which no \<open>/\<close> follows a \<open>**\<close> it accepts no
  other: the backtracking with one pair of registers and the early \<open>return false\<close> after a \<open>**\<close> lose no match.\<close>

theorem pattern_matches_spec:
  assumes "ascii_str path"
  shows "\<exists>b. pattern_matches pattern path = Some b \<and> (documented pattern path \<longrightarrow> b) \<and>
    (\<not> sublist ''**/'' pattern \<longrightarrow> b = documented pattern path)"
  using documented_gspec gspec_documented by (auto simp: pattern_matches_ascii[OF assms])

theorem pattern_matches_spec_witness: "pattern_matches ''/a/**'' ''/a/b/cd'' = Some True"
proof -
  have "documented ''/a/**'' ''/a/b/cd''"
    by (simp add: documented_lit) (simp add: documented_dstar)
  moreover have "ascii_str ''/a/b/cd''" by (simp add: is_ascii_def byte_of_def)
  ultimately show ?thesis using pattern_matches_spec[of "''/a/b/cd''" "''/a/**''"] by auto
qed

lemma exact_gspec:
  "CHR ''*'' \<notin> set pattern \<Longrightarrow> CHR ''?'' \<notin> set pattern \<Longrightarrow> gspec pattern path \<longleftrightarrow> pattern = path"
proof (induction pattern arbitrary: path)
  case (Cons c pattern)
  then have "c \<noteq> CHR ''*''" "c \<noteq> CHR ''?''" and "gspec pattern (tl path) \<longleftrightarrow> pattern = tl path"
    by auto
  then show ?case by (cases path) (auto simp: gspec_lit)
qed auto

text \<open>A pattern without wildcards matches exactly itself, so a rule the evaluator scores as
  exact grants no other path.\<close>

theorem exact_pattern_matches_itself:
  assumes "ascii_str path" and "CHR ''*'' \<notin> set pattern" and "CHR ''?'' \<notin> set pattern"
  shows "pattern_matches pattern path = Some (pattern = path)"
  by (simp add: pattern_matches_ascii[OF assms(1)] exact_gspec[OF assms(2,3)])

theorem exact_pattern_matches_itself_witness:
  "pattern_matches ''/api'' ''/api/x'' = Some (''/api'' = ''/api/x'')"
  by (rule exact_pattern_matches_itself) (simp_all add: is_ascii_def byte_of_def)

subsection \<open>Where the matcher departs from the documentation\<close>

definition literal :: "string \<Rightarrow> bool" where
  "literal a \<longleftrightarrow> CHR ''*'' \<notin> set a \<and> CHR ''?'' \<notin> set a"

lemma literal_simps [simp]: "literal []" "literal (c # a) \<longleftrightarrow> c \<noteq> CHR ''*'' \<and> c \<noteq> CHR ''?'' \<and> literal a"
  by (auto simp: literal_def)

lemma documented_literal: "literal a \<Longrightarrow> documented a path \<longleftrightarrow> path = a"
proof (induction a arbitrary: path)
  case (Cons c a)
  then show ?case by (cases path) (auto simp: documented_lit)
qed simp

lemma documented_literal_append: "literal a \<Longrightarrow> documented (a @ pat) (a @ path) \<longleftrightarrow> documented pat path"
  by (induction a) (auto simp: documented_lit)

lemma gspec_literal_append: "literal a \<Longrightarrow> gspec (a @ pat) (a @ path) \<longleftrightarrow> gspec pat path"
  by (induction a) (auto simp: gspec_lit)

text \<open>C40. The slash that follows a \<open>**\<close> is not required: \<open>a**/b\<close> accepts every path that starts with \<open>a\<close> and ends with
  \<open>b\<close>, although the documentation gives it those alone that have a slash before \<open>b\<close>. A rule for
  \<open>/api/**/admin\<close> also decides on \<open>/api/superadmin\<close>.\<close>

theorem double_star_slash_optional:
  assumes "literal a" and "literal b" and "b \<noteq> []" and "ascii_str (a @ x @ b)"
  shows "pattern_matches (a @ ''**/'' @ b) (a @ x @ b) = Some True \<and>
    (documented (a @ ''**/'' @ b) (a @ x @ b) \<longleftrightarrow> x \<noteq> [] \<and> last x = CHR ''/'')"
proof -
  have "gspec b b" using assms(2) by (intro documented_gspec) (simp add: documented_literal)
  then have "\<exists>i \<le> length (x @ b). gspec b (drop i (x @ b))" by (intro exI[of _ "length x"]) simp
  with assms(3) have "gspec (''**/'' @ b) (x @ b)" by (simp add: gspec_dstar skip_slash_def)
  then have "pattern_matches (a @ ''**/'' @ b) (a @ x @ b) = Some True"
    using assms(1) by (simp only: pattern_matches_ascii[OF assms(4)] gspec_literal_append)
  moreover have "documented (''**/'' @ b) (x @ b) \<longleftrightarrow> (\<exists>u. x @ b = (u @ ''/'') @ b)"
    using assms(2) documented_literal[of "CHR ''/'' # b"] by (simp add: documented_dstar)
  then have "documented (a @ ''**/'' @ b) (a @ x @ b) \<longleftrightarrow> x \<noteq> [] \<and> last x = CHR ''/''"
    unfolding documented_literal_append[OF assms(1)] append_same_eq
    by (metis append_butlast_last_id last_snoc snoc_eq_iff_butlast)
  ultimately show ?thesis by blast
qed

theorem double_star_slash_optional_witness:
  "pattern_matches ''/api/**/admin'' ''/api/superadmin'' = Some True \<and> \<not> documented ''/api/**/admin'' ''/api/superadmin''"
proof -
  have "ascii_str (''/api/'' @ ''super'' @ ''admin'')" by (simp add: is_ascii_def byte_of_def)
  from double_star_slash_optional[OF _ _ _ this] show ?thesis by simp
qed

lemma glob_loop_literal_step:
  "literal [c] \<Longrightarrow> is_ascii c \<Longrightarrow> glob_loop (c # pat) (c # path) None = glob_loop pat path None"
  by (subst glob_loop.simps) auto

lemma glob_loop_literal_append:
  "literal a \<Longrightarrow> ascii_str a \<Longrightarrow> glob_loop (a @ pat) (a @ path) None = glob_loop pat path None"
  by (induction a) (auto simp: glob_loop_literal_step)

text \<open>A literal pattern does not match a path with a character it cannot contain; the comparison stops there.\<close>

lemma glob_loop_literal_stops:
  "literal r \<Longrightarrow> ascii_str r \<Longrightarrow> ascii_str pre \<Longrightarrow> \<not> is_ascii l \<Longrightarrow> glob_loop r (pre @ l # post) None = Some False"
proof (induction pre arbitrary: r)
  case Nil
  show ?case
  proof (cases r)
    case (Cons c r')
    with Nil have "c \<noteq> l" by auto
    obtain ch rest where n: "next_char (l # post) = Some (ch, rest)" "hd ch = l" "ch \<noteq> []"
      using next_char_hd[of "l # post"] by (auto simp: next_char_def split: list.splits)
    with Cons Nil \<open>c \<noteq> l\<close> show ?thesis by (subst glob_loop.simps) (auto simp: backtrack_def)
  qed (simp add: glob_loop.simps backtrack_def)
next
  case (Cons d pre)
  then have d: "is_ascii d" "ascii_str pre" by simp_all
  show ?case
  proof (cases r)
    case (Cons c r')
    show ?thesis
    proof (cases "c = d")
      case True
      with Cons Cons.IH[of r'] \<open>literal r\<close> \<open>ascii_str r\<close> d Cons.prems(4) show ?thesis
        by (simp add: glob_loop_literal_step)
    next
      case False
      with Cons d \<open>literal r\<close> \<open>ascii_str r\<close> show ?thesis by (subst glob_loop.simps) (auto simp: backtrack_def)
    qed
  qed (simp add: glob_loop.simps backtrack_def)
qed

lemma glob_try_panics:
  assumes "literal r" "ascii_str r" "ascii_str pre" "\<not> is_ascii l" "\<not> is_cont l" "is_cont k"
  shows "i \<le> Suc (length pre) \<Longrightarrow> glob_try r (pre @ l # k # post) i = None"
proof (induction "Suc (length pre) - i" arbitrary: i)
  case 0
  then have "i = Suc (length pre)" by simp
  with assms(6) have "slice_from (pre @ l # k # post) i = None" by (simp add: slice_from_def nth_append)
  with 0 \<open>i = _\<close> show ?case by (subst glob_try.simps) simp
next
  case (Suc n)
  then have i: "i \<le> length pre" by simp
  have split: "drop i (pre @ l # k # post) = drop i pre @ l # k # post" using i by simp
  have "\<not> is_cont ((pre @ l # k # post) ! i)"
    using assms(3,5) i by (auto simp: nth_append ascii_str_def list_all_length is_ascii_def is_cont_def)
  with i split have "slice_from (pre @ l # k # post) i = Some (drop i pre @ l # k # post)" by (simp add: slice_from_def)
  moreover have "glob_loop r (drop i pre @ l # k # post) None = Some False"
    using assms by (intro glob_loop_literal_stops) simp_all
  moreover have "glob_try r (pre @ l # k # post) (Suc i) = None" using Suc by simp
  ultimately show ?case using i by (subst glob_try.simps) simp
qed

text \<open>A rule \<open>a**/b\<close> panics on every path that starts with \<open>a\<close> and has a character of several bytes after it: the
  positions after \<open>**\<close> are tried byte by byte, and the slice inside the character (its first two bytes are \<open>l\<close> and \<open>k\<close>)
  is not a string.\<close>

theorem double_star_panics_inside_character:
  assumes "literal a" and "ascii_str a" and "literal b" and "ascii_str b" and "b \<noteq> []"
    and "ascii_str pre" and "\<not> is_ascii l" and "\<not> is_cont l" and "is_cont k"
  shows "pattern_matches (a @ ''**/'' @ b) (a @ pre @ l # k # post) = None"
proof -
  have "glob_loop (''**/'' @ b) (pre @ l # k # post) None = glob_try b (pre @ l # k # post) 0"
    using assms(5) by (subst glob_loop.simps) (simp add: skip_slash_def Let_def)
  with glob_try_panics[OF assms(3,4,6-9), of 0 post] assms(1,2) show ?thesis
    by (simp add: pattern_matches_def pattern_match_recursive_def glob_loop_literal_append)
qed

theorem double_star_panics_inside_character_witness:
  "pattern_matches ''/api/**/admin'' (''/api/'' @ ''caf'' @ CHR 0xC3 # CHR 0xA9 # []) = None"
proof -
  have "ascii_str ''/api/''" "ascii_str ''caf''" "ascii_str ''admin''" "\<not> is_ascii (CHR 0xC3)" "\<not> is_cont (CHR 0xC3)" "is_cont (CHR 0xA9)"
    by (simp_all add: is_ascii_def is_cont_def byte_of_def)
  from double_star_panics_inside_character[where a = "''/api/''" and b = "''admin''", OF _ this(1) _ this(3) _ this(2,4-6), of "[]"]
  show ?thesis by simp
qed

end
