(* ===== verification/Permissions.thy ===== *)
theory Permissions
  imports Glob CredTypes "HOL-Library.Multiset"
begin

text \<open>
  The permission evaluator of \<open>rockbot-credentials/src/permissions.rs\<close>: rules grouped by
  endpoint, scored by specificity, ties broken towards the more restrictive level, default deny.
  The locale \<open>best_rule\<close> states what choosing a rule promises; it is interpreted here on the
  sort-and-scan of \<open>evaluate\<close> and, in \<open>PathPolicy\<close>, on the single pass of the path evaluator.
\<close>

subsection \<open>What choosing a rule promises\<close>

locale best_rule =
  fixes pick :: "'r list \<Rightarrow> 'r option"
    and score :: "'r \<Rightarrow> 's :: linorder"
    and restr :: "'r \<Rightarrow> nat"
  assumes pick_Nil: "pick [] = None"
    and pick_best: "rs \<noteq> [] \<Longrightarrow> \<exists>r. pick rs = Some r \<and> r \<in> set rs \<and>
          (\<forall>q \<in> set rs. score q < score r \<or> (score q = score r \<and> restr q \<le> restr r))"
begin

lemma pick_spec:
  assumes "pick rs = Some r"
  shows "r \<in> set rs \<and>
    (\<forall>q \<in> set rs. score q < score r \<or> (score q = score r \<and> restr q \<le> restr r))"
proof -
  have "rs \<noteq> []" using assms pick_Nil by auto
  from pick_best[OF this] assms show ?thesis by auto
qed

lemma pick_None_iff: "pick rs = None \<longleftrightarrow> rs = []"
  using pick_Nil pick_best[of rs] by (cases rs) auto

lemma pick_mem: "pick rs = Some r \<Longrightarrow> r \<in> set rs"
  using pick_spec by blast

lemma pick_ge: "pick rs = Some r \<Longrightarrow> q \<in> set rs \<Longrightarrow>
    score q < score r \<or> (score q = score r \<and> restr q \<le> restr r)"
  using pick_spec by blast

text \<open>The restriction chosen depends on the set of rules only, not on their order.\<close>

lemma pick_set_cong:
  assumes "set rs = set qs"
  shows "map_option restr (pick rs) = map_option restr (pick qs)"
proof (cases "rs = []")
  case True
  with assms show ?thesis by simp
next
  case False
  with assms have "qs \<noteq> []" by auto
  with False obtain r q where r: "pick rs = Some r" and q: "pick qs = Some q"
    using pick_best by blast
  have "q \<in> set rs" "r \<in> set qs" using pick_mem r q assms by auto
  from pick_ge[OF r this(1)] pick_ge[OF q this(2)] show ?thesis by (auto simp: r q)
qed

text \<open>A rule that no other outranks decides; a more restrictive rule of the top score wins.\<close>

lemma pick_top:
  assumes "r \<in> set rs" and "\<And>q. q \<in> set rs \<Longrightarrow> score q \<le> score r"
    and "\<And>q. q \<in> set rs \<Longrightarrow> restr q \<le> restr r"
  shows "map_option restr (pick rs) = Some (restr r)"
proof -
  from assms(1) obtain b where b: "pick rs = Some b" using pick_None_iff by (cases "pick rs") auto
  from pick_ge[OF b assms(1)] assms(2,3)[OF pick_mem[OF b]] b show ?thesis
    by (auto simp: not_less[symmetric])
qed

text \<open>Adding a strictly less specific rule changes nothing.\<close>

lemma pick_lower:
  assumes "pick rs = Some r" and "score q < score r"
  shows "map_option restr (pick (q # rs)) = Some (restr r)"
proof -
  obtain b where b: "pick (q # rs) = Some b" using pick_best[of "q # rs"] by auto
  have "r \<in> set (q # rs)" using pick_mem[OF assms(1)] by simp
  from pick_ge[OF b this] pick_mem[OF b] pick_ge[OF assms(1), of b] assms(2) b show ?thesis
    by auto
qed

end

subsection \<open>Match scores\<close>

text \<open>The derived order compares the fields in declaration order, \<open>false\<close> below \<open>true\<close>.\<close>

datatype match_score =
  MatchScore (is_exact: bool) (pattern_len: nat) (has_method_constraint: bool)

instantiation match_score :: linorder
begin

definition less_eq_match_score :: "match_score \<Rightarrow> match_score \<Rightarrow> bool" where
  "less_eq_match_score a b \<longleftrightarrow>
     is_exact a < is_exact b \<or> (is_exact a = is_exact b \<and>
       (pattern_len a < pattern_len b \<or> (pattern_len a = pattern_len b \<and>
          has_method_constraint a \<le> has_method_constraint b)))"

definition less_match_score :: "match_score \<Rightarrow> match_score \<Rightarrow> bool" where
  "less_match_score a b \<longleftrightarrow> a \<le> b \<and> \<not> b \<le> (a :: match_score)"

instance
  by standard (auto simp: less_eq_match_score_def less_match_score_def match_score.expand)

end

fun restriction_level :: "permission_level \<Rightarrow> nat" where
  "restriction_level Allow = 0"
| "restriction_level AllowHil = 1"
| "restriction_level AllowHil2fa = 2"
| "restriction_level Deny = 3"

lemma restriction_level_inj [simp]: "restriction_level a = restriction_level b \<longleftrightarrow> a = b"
  by (cases a; cases b) auto

lemma restriction_level_3: "restriction_level a = 3 \<longleftrightarrow> a = Deny"
  by (cases a) auto

lemma restriction_level_le3 [simp]: "restriction_level a \<le> 3"
  by (cases a) auto

subsection \<open>The evaluator\<close>

text \<open>The map is a \<open>HashMap\<close>; its iteration order, which \<open>remove_permission\<close> observes, is the
  argument \<open>order\<close>, an enumeration of its keys.\<close>

record permission_evaluator =
  pe_permissions :: "uuid \<rightharpoonup> permission list"

definition evaluator_new :: permission_evaluator where
  "evaluator_new = \<lparr>pe_permissions = Map.empty\<rparr>"

definition add_permission :: "permission \<Rightarrow> permission_evaluator \<Rightarrow> permission_evaluator" where
  "add_permission p ev =
     ev\<lparr>pe_permissions := (pe_permissions ev)(pm_endpoint_id p \<mapsto>
        (case pe_permissions ev (pm_endpoint_id p) of None \<Rightarrow> [] | Some ps \<Rightarrow> ps) @ [p])\<rparr>"

definition from_permissions :: "permission list \<Rightarrow> permission_evaluator" where
  "from_permissions ps = foldl (\<lambda>ev p. add_permission p ev) evaluator_new ps"

fun remove_permission :: "uuid list \<Rightarrow> uuid \<Rightarrow> permission_evaluator \<Rightarrow> permission_evaluator \<times> bool" where
  "remove_permission [] pid ev = (ev, False)"
| "remove_permission (k # order) pid ev =
     (case pe_permissions ev k of
        None \<Rightarrow> remove_permission order pid ev
      | Some perms \<Rightarrow> (case position (\<lambda>p. pm_id p = pid) perms of
            Some pos \<Rightarrow> (ev\<lparr>pe_permissions := (pe_permissions ev)(k \<mapsto> remove_at pos perms)\<rparr>, True)
          | None \<Rightarrow> remove_permission order pid ev))"

definition list_permissions :: "uuid \<Rightarrow> permission_evaluator \<Rightarrow> permission list" where
  "list_permissions ep ev = (case pe_permissions ev ep of None \<Rightarrow> [] | Some ps \<Rightarrow> ps)"

record permission_result =
  pr_level :: permission_level
  pr_matched_rule :: "uuid option"
  pr_reason :: string

definition result_is_allowed :: "permission_result \<Rightarrow> bool" where
  "result_is_allowed r = allows_execution (pr_level r)"

definition result_requires_approval :: "permission_result \<Rightarrow> bool" where
  "result_requires_approval r = requires_approval (pr_level r)"

definition result_requires_2fa :: "permission_result \<Rightarrow> bool" where
  "result_requires_2fa r = requires_2fa (pr_level r)"

definition rule_score :: "permission \<Rightarrow> match_score" where
  "rule_score p = MatchScore
     (CHR ''*'' \<notin> set (pm_path_pattern p) \<and> CHR ''?'' \<notin> set (pm_path_pattern p))
     (length (pm_path_pattern p)) (pm_method p \<noteq> None)"

text \<open>The outer \<open>None\<close> is a panic of the matcher.\<close>

definition rule_matches :: "permission \<Rightarrow> http_method \<Rightarrow> string \<Rightarrow> match_score option option" where
  "rule_matches p m path =
     (if (case pm_method p of None \<Rightarrow> False | Some pm \<Rightarrow> pm \<noteq> m) then Some None
      else (case pattern_matches (pm_path_pattern p) path of
              None \<Rightarrow> None
            | Some False \<Rightarrow> Some None
            | Some True \<Rightarrow> Some (Some (rule_score p))))"

fun filter_matches :: "http_method \<Rightarrow> string \<Rightarrow> permission list \<Rightarrow> (permission \<times> match_score) list option" where
  "filter_matches m path [] = Some []"
| "filter_matches m path (p # ps) =
     (case rule_matches p m path of
        None \<Rightarrow> None
      | Some None \<Rightarrow> filter_matches m path ps
      | Some (Some s) \<Rightarrow> map_option (\<lambda>r. (p, s) # r) (filter_matches m path ps))"

text \<open>\<open>sort_by(|a, b| b.1.cmp(&a.1))\<close>: stable, highest score first.\<close>

definition sort_by_score :: "(permission \<times> match_score) list \<Rightarrow> (permission \<times> match_score) list" where
  "sort_by_score ms = rev (sort_key snd (rev ms))"

text \<open>\<open>max_by_key\<close> keeps the last of several maxima.\<close>

fun max_by_key :: "('a \<Rightarrow> nat) \<Rightarrow> 'a list \<Rightarrow> 'a option" where
  "max_by_key f [] = None"
| "max_by_key f (x # xs) =
     (case max_by_key f xs of None \<Rightarrow> Some x | Some y \<Rightarrow> Some (if f x \<le> f y then y else x))"

definition pick_match :: "(permission \<times> match_score) list \<Rightarrow> (permission \<times> match_score) option" where
  "pick_match ms =
     (let sorted = sort_by_score ms in
      case sorted of
        [] \<Rightarrow> None
      | best # _ \<Rightarrow>
          max_by_key (\<lambda>x. restriction_level (pm_permission_level (fst x)))
            (takeWhile (\<lambda>x. snd x = snd best) sorted))"

definition evaluate ::
  "permission_evaluator \<Rightarrow> uuid \<Rightarrow> http_method \<Rightarrow> string \<Rightarrow> permission_result option" where
  "evaluate ev ep m path =
     (case pe_permissions ev ep of
        None \<Rightarrow> Some \<lparr>pr_level = Deny, pr_matched_rule = None,
                     pr_reason = ''no permissions configured for endpoint''\<rparr>
      | Some perms \<Rightarrow> (case filter_matches m path perms of
            None \<Rightarrow> None
          | Some ms \<Rightarrow> (case pick_match ms of
                None \<Rightarrow> Some \<lparr>pr_level = Deny, pr_matched_rule = None,
                             pr_reason = ''no matching permission rule''\<rparr>
              | Some (p, _) \<Rightarrow> Some \<lparr>pr_level = pm_permission_level p, pr_matched_rule = Some (pm_id p),
                    pr_reason = ''matched rule: '' @ pm_path_pattern p @ '' ('' @
                      (case pm_method p of None \<Rightarrow> ''*'' | Some pm \<Rightarrow> method_as_str pm) @ '')''\<rparr>)))"

subsection \<open>The sort-and-scan chooses a best rule\<close>

lemma max_by_key_None [simp]: "max_by_key f xs = None \<longleftrightarrow> xs = []"
  by (cases xs) (auto split: option.splits)

lemma max_by_key_Some:
  "max_by_key f xs = Some x \<Longrightarrow> x \<in> set xs \<and> (\<forall>y \<in> set xs. f y \<le> f x)"
  by (induction xs arbitrary: x) (fastforce split: option.splits if_splits)+

lemma set_sort_by_score [simp]: "set (sort_by_score ms) = set ms"
  by (simp add: sort_by_score_def)

lemma sort_by_score_Nil [simp]: "sort_by_score ms = [] \<longleftrightarrow> ms = []"
  by (metis set_empty set_sort_by_score)

lemma sort_by_score_descending: "sorted (rev (map snd (sort_by_score ms)))"
  by (simp add: sort_by_score_def rev_map[symmetric])

lemma sort_by_score_hd:
  assumes "sort_by_score ms = b # rest" and "x \<in> set ms"
  shows "snd x \<le> snd b"
proof -
  have "sorted (rev (map snd rest) @ [snd b])"
    using sort_by_score_descending[of ms] assms(1) by simp
  moreover have "x = b \<or> x \<in> set rest"
    using assms set_sort_by_score[of ms] by auto
  ultimately show ?thesis by (auto simp: sorted_append)
qed

text \<open>In the descending list the leading run of the best score holds all rules of that score.\<close>

lemma takeWhile_descending:
  "sorted (rev (map f xs)) \<Longrightarrow> \<forall>x \<in> set xs. f x \<le> m \<Longrightarrow>
     set (takeWhile (\<lambda>x. f x = m) xs) = {x \<in> set xs. f x = (m :: 'a :: linorder)}"
proof (induction xs)
  case (Cons x xs)
  then have "\<forall>y \<in> set xs. f y \<le> f x" by (auto simp: sorted_append)
  with Cons show ?case by (cases "f x = m") (auto simp: sorted_append)
qed simp

lemma takeWhile_best:
  assumes "sort_by_score ms = b # rest"
  shows "set (takeWhile (\<lambda>x. snd x = snd b) (b # rest)) = {x \<in> set ms. snd x = snd b}"
proof -
  have eq: "set (b # rest) = set ms" using set_sort_by_score[of ms] assms by simp
  have "sorted (rev (map snd (b # rest)))"
    using sort_by_score_descending[of ms] assms by simp
  moreover have "\<forall>x \<in> set (b # rest). snd x \<le> snd b"
    unfolding eq using sort_by_score_hd[OF assms] by blast
  ultimately have "set (takeWhile (\<lambda>x. snd x = snd b) (b # rest)) =
      {x \<in> set (b # rest). snd x = snd b}" by (rule takeWhile_descending)
  then show ?thesis unfolding eq .
qed

interpretation scored: best_rule pick_match snd "\<lambda>x. restriction_level (pm_permission_level (fst x))"
proof (unfold_locales, goal_cases)
  case 1
  show ?case by (simp add: pick_match_def sort_by_score_def)
next
  case (2 ms)
  then obtain b rest where b: "sort_by_score ms = b # rest"
    by (metis sort_by_score_Nil neq_Nil_conv)
  define tied where "tied = takeWhile (\<lambda>x. snd x = snd b) (b # rest)"
  have tied: "set tied = {x \<in> set ms. snd x = snd b}"
    unfolding tied_def by (rule takeWhile_best[OF b])
  have "tied \<noteq> []" by (simp add: tied_def)
  then obtain r where r: "max_by_key (\<lambda>x. restriction_level (pm_permission_level (fst x))) tied = Some r"
    by (meson max_by_key_None not_None_eq)
  have "pick_match ms = Some r" using r by (simp add: pick_match_def b tied_def)
  moreover have mem: "r \<in> set ms" "snd r = snd b" using max_by_key_Some[OF r] tied by auto
  moreover have "snd q < snd r \<or> (snd q = snd r \<and>
      restriction_level (pm_permission_level (fst q)) \<le> restriction_level (pm_permission_level (fst r)))"
    if "q \<in> set ms" for q
  proof (cases "snd q = snd b")
    case True
    with that tied have "q \<in> set tied" by simp
    with max_by_key_Some[OF r] True mem show ?thesis by simp
  next
    case False
    with sort_by_score_hd[OF b that] mem show ?thesis by simp
  qed
  ultimately show ?case by blast
qed

subsection \<open>Evaluation\<close>

text \<open>The rules that apply to a request, by the documented pattern language.\<close>

definition applicable :: "http_method \<Rightarrow> string \<Rightarrow> permission \<Rightarrow> bool" where
  "applicable m path p \<longleftrightarrow>
     (pm_method p = None \<or> pm_method p = Some m) \<and> gspec (pm_path_pattern p) path"

lemma filter_matches_ascii:
  "ascii_str path \<Longrightarrow> filter_matches m path ps =
     Some (map (\<lambda>p. (p, rule_score p)) (filter (applicable m path) ps))"
  by (induction ps)
    (auto simp: rule_matches_def applicable_def pattern_matches_ascii split: option.splits)

lemma evaluate_ascii:
  assumes "ascii_str path"
  shows "evaluate ev ep m path = Some r \<Longrightarrow>
     (let ms = map (\<lambda>p. (p, rule_score p)) (filter (applicable m path) (list_permissions ep ev)) in
      case pick_match ms of
        None \<Rightarrow> pr_level r = Deny \<and> pr_matched_rule r = None
      | Some (p, s) \<Rightarrow> pr_level r = pm_permission_level p \<and> pr_matched_rule r = Some (pm_id p))"
  using assms scored.pick_Nil
  by (auto simp: evaluate_def list_permissions_def filter_matches_ascii split: option.splits prod.splits)

lemma evaluate_total: "ascii_str path \<Longrightarrow> \<exists>r. evaluate ev ep m path = Some r"
  by (auto simp: evaluate_def filter_matches_ascii split: option.splits prod.splits)

lemma evaluate_level:
  assumes "ascii_str path" "evaluate ev ep m path = Some r"
  shows "pr_level r = (case pick_match (map (\<lambda>p. (p, rule_score p))
            (filter (applicable m path) (list_permissions ep ev))) of
          None \<Rightarrow> Deny | Some x \<Rightarrow> pm_permission_level (fst x))"
  using evaluate_ascii[OF assms] by (auto simp: Let_def split: option.splits prod.splits)

text \<open>C3. Evaluation on an ASCII path always answers. With no applicable rule the answer is Deny;
  otherwise it is the level of an applicable rule of the endpoint that no applicable rule
  outranks, and among the rules of its score none is more restrictive.\<close>

theorem evaluate_most_specific:
  assumes "ascii_str path"
  shows "\<exists>r. evaluate ev ep m path = Some r \<and>
     (if (\<exists>p \<in> set (list_permissions ep ev). applicable m path p)
      then \<exists>p \<in> set (list_permissions ep ev). applicable m path p \<and>
             pr_level r = pm_permission_level p \<and> pr_matched_rule r = Some (pm_id p) \<and>
             (\<forall>q \<in> set (list_permissions ep ev). applicable m path q \<longrightarrow>
                rule_score q < rule_score p \<or> (rule_score q = rule_score p \<and>
                restriction_level (pm_permission_level q) \<le> restriction_level (pm_permission_level p)))
      else pr_level r = Deny \<and> pr_matched_rule r = None)"
proof -
  obtain r where r: "evaluate ev ep m path = Some r" using evaluate_total[OF assms] by blast
  define ms where "ms = map (\<lambda>p. (p, rule_score p)) (filter (applicable m path) (list_permissions ep ev))"
  note ev = evaluate_ascii[OF assms r, unfolded Let_def, folded ms_def]
  show ?thesis
  proof (cases "pick_match ms")
    case None
    with ev r scored.pick_None_iff[of ms] show ?thesis by (auto simp: ms_def filter_empty_conv)
  next
    case (Some x)
    obtain p s where x: "x = (p, s)" by (cases x)
    from scored.pick_spec[OF Some] ev Some x r show ?thesis
      by (intro exI[of _ r] conjI) (fastforce simp: ms_def)+
  qed
qed

theorem evaluate_most_specific_witness:
  "\<exists>r. evaluate (from_permissions [\<lparr>pm_id = 1, pm_endpoint_id = 7, pm_path_pattern = ''/a'',
       pm_method = None, pm_permission_level = Allow, pm_created_at = 0\<rparr>]) 7 Get ''/a'' = Some r \<and>
     pr_level r = Allow"
proof -
  let ?p = "\<lparr>pm_id = 1, pm_endpoint_id = 7, pm_path_pattern = ''/a'',
       pm_method = None, pm_permission_level = Allow, pm_created_at = 0\<rparr>"
  have "ascii_str ''/a''" by (simp add: is_ascii_def byte_of_def)
  from evaluate_most_specific[OF this, of "from_permissions [?p]" 7 Get] show ?thesis
    by (auto simp: from_permissions_def add_permission_def evaluator_new_def list_permissions_def
        applicable_def gspec_lit)
qed

text \<open>C23. On an ASCII path, the decision does not depend on the order in which the rules were added.\<close>

theorem evaluate_order_independent:
  assumes "ascii_str path"
    and "set (list_permissions ep ev) = set (list_permissions ep ev')"
    and "evaluate ev ep m path = Some r" and "evaluate ev' ep m path = Some r'"
  shows "pr_level r = pr_level r'"
proof -
  let ?ms = "\<lambda>ev. map (\<lambda>p. (p, rule_score p)) (filter (applicable m path) (list_permissions ep ev))"
  have "set (?ms ev) = set (?ms ev')" using assms(2) by simp
  from scored.pick_set_cong[OF this] show ?thesis
    unfolding evaluate_level[OF assms(1,3)] evaluate_level[OF assms(1,4)]
    by (auto split: option.splits)
qed

text \<open>C4. An exact, method-specific Deny rule for an ASCII path cannot be overridden by any set of other
  rules.\<close>

theorem exact_deny_wins:
  assumes "ascii_str path" and "CHR ''*'' \<notin> set path" and "CHR ''?'' \<notin> set path"
    and "p \<in> set (list_permissions ep ev)"
    and "pm_path_pattern p = path" and "pm_method p = Some m" and "pm_permission_level p = Deny"
    and "evaluate ev ep m path = Some r"
  shows "pr_level r = Deny"
proof -
  define ms where "ms = map (\<lambda>p. (p, rule_score p)) (filter (applicable m path) (list_permissions ep ev))"
  note exact = exact_gspec
  have "(p, rule_score p) \<in> set ms"
    using assms by (auto simp: ms_def applicable_def exact)
  moreover have "snd q \<le> snd (p, rule_score p)" if "q \<in> set ms" for q
    using that assms by (auto simp: ms_def rule_score_def applicable_def exact less_eq_match_score_def)
  ultimately have "map_option (\<lambda>x. restriction_level (pm_permission_level (fst x))) (pick_match ms)
      = Some (restriction_level (pm_permission_level (fst (p, rule_score p))))"
    by (rule scored.pick_top) (simp_all add: assms)
  then obtain x where x: "pick_match ms = Some x" "pm_permission_level (fst x) = Deny"
    using assms(7) by (auto simp: restriction_level_3)
  have "pr_level r = (case pick_match ms of None \<Rightarrow> Deny | Some x \<Rightarrow> pm_permission_level (fst x))"
    unfolding ms_def by (rule evaluate_level[OF assms(1,8)])
  with x show ?thesis by simp
qed

lemma list_permissions_new [simp]: "list_permissions k evaluator_new = []"
  by (simp add: list_permissions_def evaluator_new_def)

lemma list_permissions_add: "list_permissions k (add_permission p ev) =
    list_permissions k ev @ (if k = pm_endpoint_id p then [p] else [])"
  by (auto simp: list_permissions_def add_permission_def split: option.splits)

definition sample_rule :: "uuid \<Rightarrow> permission_level \<Rightarrow> permission" where
  "sample_rule i l = \<lparr>pm_id = i, pm_endpoint_id = 7, pm_path_pattern = ''/a'', pm_method = Some Get,
     pm_permission_level = l, pm_created_at = 0\<rparr>"

lemma sample_rule_simps [simp]:
  "pm_id (sample_rule i l) = i" "pm_endpoint_id (sample_rule i l) = 7"
  "pm_path_pattern (sample_rule i l) = ''/a''" "pm_method (sample_rule i l) = Some Get"
  "pm_permission_level (sample_rule i l) = l"
  by (simp_all add: sample_rule_def)

lemma sample_path_ascii: "ascii_str ''/a''"
  by (simp add: is_ascii_def byte_of_def)

theorem evaluate_order_independent_witness:
  "\<exists>r r'. evaluate (from_permissions [sample_rule 1 Allow, sample_rule 2 AllowHil]) 7 Get ''/a'' = Some r \<and>
     evaluate (from_permissions [sample_rule 2 AllowHil, sample_rule 1 Allow]) 7 Get ''/a'' = Some r' \<and>
     pr_level r = pr_level r'"
  (is "\<exists>r r'. evaluate ?ev _ _ _ = _ \<and> evaluate ?ev' _ _ _ = _ \<and> _")
proof -
  obtain r r' where r: "evaluate ?ev 7 Get ''/a'' = Some r" "evaluate ?ev' 7 Get ''/a'' = Some r'"
    using evaluate_total[OF sample_path_ascii] by blast
  have "set (list_permissions 7 ?ev) = set (list_permissions 7 ?ev')"
    by (auto simp: from_permissions_def list_permissions_add)
  from evaluate_order_independent[OF sample_path_ascii this r] r show ?thesis by blast
qed

theorem exact_deny_wins_witness:
  "\<exists>r. evaluate (from_permissions [sample_rule 1 Allow, sample_rule 2 Deny]) 7 Get ''/a'' = Some r
     \<and> pr_level r = Deny"
  (is "\<exists>r. evaluate ?ev _ _ _ = _ \<and> _")
proof -
  obtain r where r: "evaluate ?ev 7 Get ''/a'' = Some r"
    using evaluate_total[OF sample_path_ascii] by blast
  have "sample_rule 2 Deny \<in> set (list_permissions 7 ?ev)"
    by (simp add: from_permissions_def list_permissions_add)
  from exact_deny_wins[OF sample_path_ascii _ _ this _ _ _ r] r show ?thesis by simp
qed

subsection \<open>Adding and removing rules\<close>

definition stored :: "permission_evaluator \<Rightarrow> permission set" where
  "stored ev = (\<Union>k. set (list_permissions k ev))"

text \<open>Every rule is filed under its own endpoint, and the ids of a list are distinct.\<close>

definition pe_wf :: "permission_evaluator \<Rightarrow> bool" where
  "pe_wf ev \<longleftrightarrow> (\<forall>k. (\<forall>p \<in> set (list_permissions k ev). pm_endpoint_id p = k) \<and>
    distinct (map pm_id (list_permissions k ev)))"

lemma stored_add [simp]: "stored (add_permission p ev) = insert p (stored ev)"
  by (auto simp: stored_def list_permissions_add split: if_splits)

lemma stored_new [simp]: "stored evaluator_new = {}"
  by (simp add: stored_def)

lemma stored_from_permissions: "stored (from_permissions ps) = set ps"
proof -
  have "stored (foldl (\<lambda>ev p. add_permission p ev) ev ps) = stored ev \<union> set ps" for ev
    by (induction ps arbitrary: ev) auto
  then show ?thesis by (simp add: from_permissions_def)
qed

lemma pe_wf_new [intro]: "pe_wf evaluator_new"
  by (simp add: pe_wf_def)

lemma pe_wf_add:
  "pe_wf ev \<Longrightarrow> pm_id p \<notin> pm_id ` stored ev \<Longrightarrow> pe_wf (add_permission p ev)"
  by (auto simp: pe_wf_def list_permissions_add stored_def image_iff)

lemma remove_permission_cases:
  "remove_permission order pid ev = (ev', b) \<Longrightarrow>
     (b \<and> (\<exists>k ps i. k \<in> set order \<and> pe_permissions ev k = Some ps \<and>
        position (\<lambda>p. pm_id p = pid) ps = Some i \<and>
        ev' = ev\<lparr>pe_permissions := (pe_permissions ev)(k \<mapsto> remove_at i ps)\<rparr>))
   \<or> (\<not> b \<and> ev' = ev \<and> (\<forall>k \<in> set order. \<forall>ps. pe_permissions ev k = Some ps \<longrightarrow>
        (\<forall>p \<in> set ps. pm_id p \<noteq> pid)))"
  by (induction order) (auto simp: position_None split: option.splits)

lemma remove_rule_stored:
  assumes wf: "pe_wf ev" and uniq: "inj_on pm_id (stored ev)"
    and k: "pe_permissions ev k = Some ps" and i: "position (\<lambda>p. pm_id p = pid) ps = Some i"
    and ev': "ev' = ev\<lparr>pe_permissions := (pe_permissions ev)(k \<mapsto> remove_at i ps)\<rparr>"
  shows "pid \<in> pm_id ` stored ev \<and> stored ev' = {p \<in> stored ev. pm_id p \<noteq> pid} \<and> pe_wf ev'"
proof -
  have L: "list_permissions j ev' = (if j = k then remove_at i ps else list_permissions j ev)" for j
    by (simp add: list_permissions_def ev')
  have Lk: "list_permissions k ev = ps" by (simp add: list_permissions_def k)
  from position_Some[OF i] have il: "i < length ps" and id: "pm_id (ps ! i) = pid" by auto
  have dk: "distinct (map pm_id ps)" using wf Lk by (auto simp: pe_wf_def)
  have rest: "set (remove_at i ps) = {p \<in> set ps. pm_id p \<noteq> pid}"
    using set_remove_at_distinct[OF dk il] id by simp
  have mem: "ps ! i \<in> set (list_permissions k ev)" using Lk il by simp
  have other: "pm_id p \<noteq> pid" if "p \<in> set (list_permissions j ev)" "j \<noteq> k" for j p
  proof
    assume "pm_id p = pid"
    moreover have "p \<in> stored ev" "ps ! i \<in> stored ev" using that mem unfolding stored_def by blast+
    ultimately have "p = ps ! i" using uniq id by (auto dest: inj_onD)
    with that(1) wf have "pm_endpoint_id (ps ! i) = j" unfolding pe_wf_def by blast
    moreover have "pm_endpoint_id (ps ! i) = k" using wf mem unfolding pe_wf_def by blast
    ultimately show False using that(2) by simp
  qed
  have "stored ev' = {p \<in> stored ev. pm_id p \<noteq> pid}" (is "?L = ?R")
  proof
    show "?L \<subseteq> ?R"
    proof
      fix x assume "x \<in> ?L"
      then obtain j where "x \<in> set (list_permissions j ev')" unfolding stored_def by blast
      with rest Lk have "x \<in> set (list_permissions j ev)" "pm_id x \<noteq> pid"
        using other[of x j] by (auto simp: L split: if_splits)
      then show "x \<in> ?R" unfolding stored_def by blast
    qed
    show "?R \<subseteq> ?L"
    proof
      fix x assume "x \<in> ?R"
      then obtain j where "x \<in> set (list_permissions j ev)" "pm_id x \<noteq> pid"
        unfolding stored_def by blast
      then have "x \<in> set (list_permissions j ev')" using rest Lk by (auto simp: L)
      then show "x \<in> ?L" unfolding stored_def by blast
    qed
  qed
  moreover have "pe_wf ev'"
    using wf rest Lk distinct_remove_at[OF dk] by (auto simp: pe_wf_def L)
  moreover have "ps ! i \<in> stored ev" using mem unfolding stored_def by blast
  ultimately show ?thesis using id by auto
qed

text \<open>C24. Removing a rule. Whatever the order in which the map is walked, the answer says whether a
  rule of that id was stored; exactly that rule is gone afterwards, and the evaluator stays
  well formed.\<close>

theorem remove_permission_exact:
  assumes wf: "pe_wf ev" and uniq: "inj_on pm_id (stored ev)"
    and order: "set order = dom (pe_permissions ev)"
    and rm: "remove_permission order pid ev = (ev', b)"
  shows "b = (pid \<in> pm_id ` stored ev) \<and> stored ev' = {p \<in> stored ev. pm_id p \<noteq> pid} \<and> pe_wf ev'"
  using remove_permission_cases[OF rm]
proof (elim disjE conjE exE)
  fix k ps i
  assume b: b and k: "pe_permissions ev k = Some ps" and i: "position (\<lambda>p. pm_id p = pid) ps = Some i"
    and ev': "ev' = ev\<lparr>pe_permissions := (pe_permissions ev)(k \<mapsto> remove_at i ps)\<rparr>"
  from remove_rule_stored[OF wf uniq k i ev'] b show ?thesis by simp
next
  assume nb: "\<not> b" and ev': "ev' = ev"
    and none: "\<forall>k \<in> set order. \<forall>ps. pe_permissions ev k = Some ps \<longrightarrow> (\<forall>p \<in> set ps. pm_id p \<noteq> pid)"
  have "pm_id p \<noteq> pid" if "p \<in> set (list_permissions k ev)" for p k
    using that none order by (cases "pe_permissions ev k") (auto simp: list_permissions_def dom_def)
  then have "p \<in> stored ev \<Longrightarrow> pm_id p \<noteq> pid" for p unfolding stored_def by blast
  then show ?thesis using wf ev' nb by auto
qed

theorem remove_permission_exact_witness:
  "stored (fst (remove_permission [7] 1 (from_permissions [sample_rule 1 Allow]))) = {}"
proof -
  let ?p = "sample_rule 1 Allow"
  have ev: "from_permissions [?p] = add_permission ?p evaluator_new" by (simp add: from_permissions_def)
  obtain ev' b where r: "remove_permission [7] 1 (from_permissions [?p]) = (ev', b)" by fastforce
  have "pe_wf (from_permissions [?p])" unfolding ev by (rule pe_wf_add) auto
  moreover have "inj_on pm_id (stored (from_permissions [?p]))" by (simp add: ev)
  moreover have "set [7] = dom (pe_permissions (from_permissions [?p]))"
    by (simp add: ev add_permission_def evaluator_new_def)
  ultimately have "stored ev' = {q \<in> stored (from_permissions [?p]). pm_id q \<noteq> 1}"
    using remove_permission_exact[OF _ _ _ r] by blast
  then show ?thesis unfolding r by (simp add: ev)
qed

end
