(* ===== verification/PathPolicy.thy ===== *)
theory PathPolicy
  imports Permissions
begin

text \<open>
  The path policy of the credential manager (\<open>rockbot-credentials/src/manager.rs\<close>,
  \<open>PathPermissionEvaluator\<close>): segment-wise pattern matching with \<open>**\<close> over whole segments, a
  backtracking matcher inside one segment, and the single pass that keeps the best rule.
\<close>

subsection \<open>Segments\<close>

text \<open>\<open>split('/')\<close> never yields an empty list.\<close>

fun split_slash :: "string \<Rightarrow> string list" where
  "split_slash [] = [[]]"
| "split_slash (c # s) =
     (if c = CHR ''/'' then [] # split_slash s
      else (case split_slash s of [] \<Rightarrow> [[c]] | w # ws \<Rightarrow> (c # w) # ws))"

lemma split_slash_nonempty [simp]: "split_slash s \<noteq> []"
  by (induction s) (auto split: list.splits)

subsection \<open>Matching one segment\<close>

text \<open>The loop of \<open>glob_match_segment\<close> with its indices \<open>pi\<close>, \<open>ti\<close> as the remaining suffixes of
  \<open>pattern\<close> and \<open>text\<close>; \<open>star_pi\<close> and \<open>star_ti\<close>, always set together, are one pair.\<close>

function seg_loop ::
  "string list \<Rightarrow> string list \<Rightarrow> (string list \<times> string list) option \<Rightarrow> bool" where
  "seg_loop p t star =
     (if t = [] then dropWhile (\<lambda>c. c = ''*'') p = []
      else if p \<noteq> [] \<and> hd p = ''*'' then seg_loop (tl p) t (Some (tl p, t))
      else if p \<noteq> [] \<and> (hd p = ''?'' \<or> hd p = hd t) then seg_loop (tl p) (tl t) star
      else (case star of
          Some (sp, st) \<Rightarrow> seg_loop sp (tl st) (Some (sp, tl st))
        | None \<Rightarrow> False))"
  by pat_completeness auto
termination
proof (relation "measures
        [\<lambda>(p, t, star). case star of None \<Rightarrow> Suc (length t) | Some (_, st) \<Rightarrow> max (length st) (length t),
         \<lambda>(p, t, star). length p]", goal_cases)
  case (4 p t star a sp st)
  then have "length t \<noteq> 0" by auto
  then have "length (tl st) < max (length st) (length t)" by (cases st) auto
  with 4 show ?case by auto
qed (auto split: option.splits simp: max_def neq_Nil_conv)

declare seg_loop.simps [simp del]

definition glob_match_segment :: "string \<Rightarrow> string \<Rightarrow> bool" where
  "glob_match_segment pattern txt = seg_loop (chars pattern) (chars txt) None"

text \<open>The language: \<open>*\<close> any run of characters, \<open>?\<close> any one character.\<close>

fun sspec :: "string list \<Rightarrow> string list \<Rightarrow> bool" where
  "sspec [] t \<longleftrightarrow> t = []"
| "sspec (c # p) t \<longleftrightarrow>
     (if c = ''*'' then (\<exists>k \<le> length t. sspec p (drop k t))
      else t \<noteq> [] \<and> (c = ''?'' \<or> c = hd t) \<and> sspec p (tl t))"

definition slit :: "string list \<Rightarrow> string list \<Rightarrow> bool" where
  "slit v w \<longleftrightarrow> list_all2 (\<lambda>p c. p \<noteq> ''*'' \<and> (p = ''?'' \<or> p = c)) v w"

lemma sspec_Nil_text: "sspec p [] \<longleftrightarrow> dropWhile (\<lambda>c. c = ''*'') p = []"
  by (induction p) auto

lemma sspec_lit_append: "slit v w \<Longrightarrow> sspec (v @ p) (w @ t) = sspec p t"
  by (induction v arbitrary: w) (auto simp: slit_def list_all2_Cons1)

lemma sspec_litD:
  "''*'' \<notin> set v \<Longrightarrow> sspec (v @ p) t \<Longrightarrow> length v \<le> length t \<and> sspec p (drop (length v) t)"
proof (induction v arbitrary: t)
  case (Cons c v)
  then show ?case by (cases t) (auto split: if_splits)
qed simp

lemma slit_no_star: "slit v w \<Longrightarrow> ''*'' \<notin> set v"
  by (auto simp: slit_def list_all2_conv_all_nth in_set_conv_nth)

lemma sspec_star_mono: "sspec (''*'' # p) (drop k t) \<Longrightarrow> sspec (''*'' # p) t"
proof -
  assume "sspec (''*'' # p) (drop k t)"
  then obtain j where "j \<le> length (drop k t)" "sspec p (drop j (drop k t))" by auto
  then have "(k + j) \<le> length t \<and> sspec p (drop (k + j) t) \<or> sspec p (drop (length t) t)"
    by (cases "k \<le> length t") (auto simp: add.commute)
  then show ?thesis by auto
qed

lemma sspec_star_step:
  "sspec (''*'' # p) (c # t) \<longleftrightarrow> sspec p (c # t) \<or> sspec (''*'' # p) t"
proof
  assume "sspec (''*'' # p) (c # t)"
  then obtain k where "k \<le> length (c # t)" "sspec p (drop k (c # t))" by auto
  then show "sspec p (c # t) \<or> sspec (''*'' # p) t" by (cases k) auto
next
  assume "sspec p (c # t) \<or> sspec (''*'' # p) t"
  then show "sspec (''*'' # p) (c # t)"
  proof
    assume "sspec p (c # t)"
    then show ?thesis by (auto intro: exI[of _ 0])
  next
    assume "sspec (''*'' # p) t"
    then show ?thesis using sspec_star_mono[of p 1 "c # t"] by simp
  qed
qed

fun seg_ok :: "string list \<Rightarrow> string list \<Rightarrow> (string list \<times> string list) option \<Rightarrow> bool" where
  "seg_ok p t None \<longleftrightarrow> True"
| "seg_ok p t (Some (sp, st)) \<longleftrightarrow> (\<exists>v w. sp = v @ p \<and> st = w @ t \<and> slit v w)"

fun seg_sem :: "string list \<Rightarrow> string list \<Rightarrow> (string list \<times> string list) option \<Rightarrow> bool" where
  "seg_sem p t None \<longleftrightarrow> sspec p t"
| "seg_sem p t (Some (sp, st)) \<longleftrightarrow> sspec (''*'' # sp) st"

text \<open>A restart can only help where the rest is a literal: in front of a star the current position
  is at least as good as any later one, and the same holds at the end of the text.\<close>

lemma seg_sem_now:
  assumes "seg_ok p t star" and mono: "\<And>k. sspec p (drop k t) \<Longrightarrow> sspec p t"
  shows "seg_sem p t star \<longleftrightarrow> sspec p t"
proof (cases star)
  case (Some a)
  obtain sp st where a: "a = (sp, st)" by (cases a)
  with Some assms(1) obtain v w where vw: "sp = v @ p" "st = w @ t" "slit v w" by auto
  have len: "length w = length v" using vw(3) by (simp add: slit_def list_all2_lengthD)
  have "sspec p t" if k: "sspec sp (drop k st)" for k
  proof -
    from sspec_litD[OF slit_no_star[OF vw(3)], of p "drop k st"] k
    have "sspec p (drop (length v) (drop k st))" by (simp add: vw(1))
    moreover have "drop (length v) (drop k st) = drop k (drop (length v) st)"
      by (simp add: add.commute)
    moreover have "drop (length v) st = t" by (simp add: vw(2) len)
    ultimately have "sspec p (drop k t)" by simp
    then show ?thesis by (rule mono)
  qed
  moreover have "sspec sp (drop 0 st)" if "sspec p t"
    using that sspec_lit_append[OF vw(3)] vw by simp
  ultimately show ?thesis by (auto simp: Some a)
qed simp

lemma seg_loop_sem: "seg_ok p t star \<Longrightarrow> seg_loop p t star = seg_sem p t star"
proof (induction p t star rule: seg_loop.induct)
  case (1 p t star)
  consider (nil) "t = []" | (star) p' where "t \<noteq> []" "p = ''*'' # p'"
    | (step) c p' x t' where "t = x # t'" "p = c # p'" "c \<noteq> ''*''" "c = ''?'' \<or> c = x"
    | (fail) x t' where "t = x # t'" "p = [] \<or> (hd p \<noteq> ''*'' \<and> hd p \<noteq> ''?'' \<and> hd p \<noteq> x)"
    by (cases t; cases p) auto
  then show ?case
  proof cases
    case nil
    with seg_sem_now[OF "1.prems"] show ?thesis by (simp add: seg_loop.simps sspec_Nil_text)
  next
    case star
    have "seg_sem p t star \<longleftrightarrow> sspec p t"
      using "1.prems" by (rule seg_sem_now) (simp only: star sspec_star_mono)
    moreover have "seg_loop p t star = seg_loop p' t (Some (p', t))"
      using star by (subst seg_loop.simps) simp
    moreover have "seg_loop p' t (Some (p', t)) = sspec (''*'' # p') t"
      using "1.IH"(1) star by (simp add: slit_def)
    ultimately show ?thesis by (simp add: star)
  next
    case step
    have "seg_loop p t star = seg_loop p' t' star"
      using step by (subst seg_loop.simps) auto
    moreover have ok: "seg_ok p' t' star"
    proof (cases star)
      case (Some a)
      obtain sp st where a: "a = (sp, st)" by (cases a)
      with Some "1.prems" step obtain v w where vw: "sp = v @ c # p'" "st = w @ x # t'" "slit v w"
        by auto
      have "slit (v @ [c]) (w @ [x])"
        using vw(3) step by (auto simp: slit_def intro!: list_all2_appendI)
      with vw show ?thesis by (auto simp: Some a intro!: exI[of _ "v @ [c]"] exI[of _ "w @ [x]"])
    qed simp
    moreover have "seg_sem p t star = seg_sem p' t' star"
      using step by (cases star) auto
    ultimately show ?thesis using "1.IH"(2) step by auto
  next
    case fail
    then have no: "\<not> sspec p t" by (cases p) auto
    show ?thesis
    proof (cases star)
      case None
      with fail no show ?thesis by (subst seg_loop.simps) auto
    next
      case (Some a)
      obtain sp st where a: "a = (sp, st)" by (cases a)
      with Some "1.prems" obtain v w where vw: "sp = v @ p" "st = w @ t" "slit v w" by auto
      with fail obtain y st' where st: "st = y # st'"
        by (metis append_is_Nil_conv list.distinct(1) neq_Nil_conv)
      have "\<not> sspec sp st" using sspec_lit_append[OF vw(3)] no vw by simp
      then have "seg_sem p t star \<longleftrightarrow> sspec (''*'' # sp) st'"
        using sspec_star_step by (simp add: Some a st del: sspec.simps)
      moreover have "seg_loop p t star = seg_loop sp st' (Some (sp, st'))"
        using fail Some a st by (subst seg_loop.simps) auto
      moreover have "seg_loop sp st' (Some (sp, st')) = sspec (''*'' # sp) st'"
        using "1.IH"(3) fail Some a st by (auto simp: slit_def)
      ultimately show ?thesis by simp
    qed
  qed
qed

lemma glob_match_segment_sspec: "glob_match_segment p t = sspec (chars p) (chars t)"
  using seg_loop_sem[of "chars p" "chars t" None] by (simp add: glob_match_segment_def)

subsection \<open>Matching paths\<close>

function match_parts :: "string list \<Rightarrow> string list \<Rightarrow> bool" where
  "match_parts pattern path =
     (if pattern = [] then path = []
      else (let pat = hd pattern in
        if pat = ''**'' then
          (if length pattern = 1 then True
           else list_ex (\<lambda>i. match_parts (tl pattern) (drop i path)) [0..<Suc (length path)])
        else if path = [] then False
        else if pat = ''*'' then match_parts (tl pattern) (tl path)
        else if CHR ''*'' \<in> set pat then
          (if glob_match_segment pat (hd path) then match_parts (tl pattern) (tl path) else False)
        else if pat = hd path then match_parts (tl pattern) (tl path)
        else False))"
  by pat_completeness auto
termination
  by (relation "measure (\<lambda>(pattern, path). length pattern)") auto

declare match_parts.simps [simp del]

definition path_pattern_matches :: "string \<Rightarrow> string \<Rightarrow> bool" where
  "path_pattern_matches pattern path = match_parts (split_slash pattern) (split_slash path)"

text \<open>What one pattern part other than \<open>**\<close> accepts, and the matching of whole paths as a
  decomposition of the path.\<close>

definition part_ok :: "string \<Rightarrow> string \<Rightarrow> bool" where
  "part_ok pat part \<longleftrightarrow>
     pat = ''*'' \<or> (if CHR ''*'' \<in> set pat then sspec (chars pat) (chars part) else pat = part)"

lemma match_parts_Nil [simp]: "match_parts [] path \<longleftrightarrow> path = []"
  by (simp add: match_parts.simps)

lemma match_parts_dstar [simp]: "match_parts (''**'' # pat) path \<longleftrightarrow>
    pat = [] \<or> (\<exists>i \<le> length path. match_parts pat (drop i path))"
  by (simp add: match_parts.simps[of "''**'' # pat"] list_ex_upto del: upt_Suc)

subsection \<open>The evaluator\<close>

record path_permission =
  pp_id :: uuid
  pp_path_pattern :: string
  pp_level :: permission_level
  pp_description :: "string option"

record path_permission_result =
  ppr_level :: permission_level
  ppr_matched_rule :: "uuid option"
  ppr_reason :: string

definition path_add_permission :: "path_permission \<Rightarrow> path_permission list \<Rightarrow> path_permission list" where
  "path_add_permission p perms = perms @ [p]"

definition path_remove_permission ::
  "uuid \<Rightarrow> path_permission list \<Rightarrow> path_permission list \<times> bool" where
  "path_remove_permission pid perms =
     (case position (\<lambda>p. pp_id p = pid) perms of
        Some pos \<Rightarrow> (remove_at pos perms, True)
      | None \<Rightarrow> (perms, False))"

text \<open>The update of \<open>best_match\<close> by a matching rule.\<close>

definition keep_better ::
  "(path_permission \<times> nat) option \<Rightarrow> path_permission \<Rightarrow> (path_permission \<times> nat) option" where
  "keep_better best perm =
     (let specificity = length (pp_path_pattern perm) in
      case best of
        None \<Rightarrow> Some (perm, specificity)
      | Some (b, best_specificity) \<Rightarrow>
          if specificity > best_specificity \<or> (specificity = best_specificity \<and>
               restriction_level (pp_level perm) > restriction_level (pp_level b))
          then Some (perm, specificity) else best)"

definition path_best :: "string \<Rightarrow> path_permission list \<Rightarrow> (path_permission \<times> nat) option" where
  "path_best path perms =
     foldl (\<lambda>best perm. if path_pattern_matches (pp_path_pattern perm) path
                         then keep_better best perm else best) None perms"

definition path_evaluate :: "path_permission list \<Rightarrow> string \<Rightarrow> path_permission_result" where
  "path_evaluate perms path =
     (case path_best path perms of
        Some (perm, _) \<Rightarrow> \<lparr>ppr_level = pp_level perm, ppr_matched_rule = Some (pp_id perm),
                           ppr_reason = ''matched rule: '' @ pp_path_pattern perm\<rparr>
      | None \<Rightarrow> \<lparr>ppr_level = Deny, ppr_matched_rule = None,
                 ppr_reason = ''no matching permission rule''\<rparr>)"

definition path_pick :: "path_permission list \<Rightarrow> path_permission option" where
  "path_pick perms = map_option fst (foldl keep_better None perms)"

lemma foldl_filter:
  "foldl (\<lambda>b x. if P x then f b x else b) a xs = foldl f a (filter P xs)"
  by (induction xs arbitrary: a) auto

definition path_le :: "path_permission \<Rightarrow> path_permission \<Rightarrow> bool" where
  "path_le q b \<longleftrightarrow> length (pp_path_pattern q) < length (pp_path_pattern b) \<or>
     (length (pp_path_pattern q) = length (pp_path_pattern b) \<and>
      restriction_level (pp_level q) \<le> restriction_level (pp_level b))"

lemma path_le_trans: "path_le a b \<Longrightarrow> path_le b c \<Longrightarrow> path_le a c"
  by (auto simp: path_le_def)

lemma keep_better_cases:
  "\<exists>c. keep_better (Some (a, length (pp_path_pattern a))) r = Some (c, length (pp_path_pattern c))
     \<and> c \<in> {a, r} \<and> path_le a c \<and> path_le r c"
proof (cases "path_le r a")
  case True
  then show ?thesis by (intro exI[of _ a]) (auto simp: keep_better_def path_le_def)
next
  case False
  then show ?thesis by (intro exI[of _ r]) (auto simp: keep_better_def path_le_def Let_def)
qed

lemma keep_better_fold:
  "\<exists>b. foldl keep_better (Some (a, length (pp_path_pattern a))) rs = Some (b, length (pp_path_pattern b))
     \<and> b \<in> insert a (set rs) \<and> (\<forall>q \<in> insert a (set rs). path_le q b)"
proof (induction rs arbitrary: a)
  case (Cons r rs)
  obtain c where c: "keep_better (Some (a, length (pp_path_pattern a))) r
      = Some (c, length (pp_path_pattern c))" "c \<in> {a, r}" "path_le a c" "path_le r c"
    using keep_better_cases by blast
  from Cons.IH[of c] obtain b where b: "foldl keep_better (Some (c, length (pp_path_pattern c))) rs
      = Some (b, length (pp_path_pattern b))" "b \<in> insert c (set rs)"
    "\<forall>q \<in> insert c (set rs). path_le q b" by blast
  then have "path_le a b" "path_le r b" using c path_le_trans by blast+
  with b c show ?case by auto
qed (simp add: path_le_def)

interpretation pathpol: best_rule path_pick "\<lambda>p. length (pp_path_pattern p)"
  "\<lambda>p. restriction_level (pp_level p)"
proof (unfold_locales, goal_cases)
  case (2 rs)
  then obtain a rs' where rs: "rs = a # rs'" by (cases rs) auto
  have "path_pick rs = map_option fst (foldl keep_better (Some (a, length (pp_path_pattern a))) rs')"
    by (simp add: path_pick_def rs keep_better_def)
  with keep_better_fold[of a rs'] show ?case by (fastforce simp: rs path_le_def)
qed (simp add: path_pick_def)

lemma path_evaluate_pick:
  "path_evaluate perms path =
     (case path_pick (filter (\<lambda>p. path_pattern_matches (pp_path_pattern p) path) perms) of
        Some perm \<Rightarrow> \<lparr>ppr_level = pp_level perm, ppr_matched_rule = Some (pp_id perm),
                      ppr_reason = ''matched rule: '' @ pp_path_pattern perm\<rparr>
      | None \<Rightarrow> \<lparr>ppr_level = Deny, ppr_matched_rule = None,
                 ppr_reason = ''no matching permission rule''\<rparr>)"
  by (simp add: path_evaluate_def path_best_def foldl_filter path_pick_def split: option.splits)

subsection \<open>Properties\<close>

text \<open>C26. The backtracking matcher for one path segment, run on the characters of the pattern and of
  the segment, decides the wildcard language: \<open>*\<close> is any run of characters and \<open>?\<close> any one.\<close>

theorem glob_match_segment_spec:
  "glob_match_segment pattern txt \<longleftrightarrow> sspec (chars pattern) (chars txt)"
  by (rule glob_match_segment_sspec)

lemma split_slash_inj: "split_slash s = split_slash t \<Longrightarrow> s = t"
proof (induction s arbitrary: t)
  case Nil
  then show ?case
    by (cases t) (auto split: if_splits list.splits simp: split_slash_nonempty[symmetric])
next
  case (Cons c s)
  obtain w ws where s: "split_slash s = w # ws" by (cases "split_slash s") auto
  from Cons.prems s obtain d t' where t: "t = d # t'"
    by (cases t) (auto split: if_splits list.splits)
  obtain v vs where t': "split_slash t' = v # vs" by (cases "split_slash t'") auto
  from Cons.prems s t t' have "c = d \<and> split_slash s = split_slash t'"
    by (auto split: if_splits)
  with Cons.IH t show ?case by simp
qed

lemma split_slash_set: "w \<in> set (split_slash s) \<Longrightarrow> set w \<subseteq> set s"
  by (induction s arbitrary: w) (force split: if_splits list.splits)+

lemma match_parts_literal:
  "\<forall>p \<in> set pattern. CHR ''*'' \<notin> set p \<Longrightarrow> match_parts pattern path \<longleftrightarrow> pattern = path"
proof (induction pattern arbitrary: path)
  case (Cons p pattern)
  then have "p \<noteq> ''**''" "p \<noteq> ''*''" "CHR ''*'' \<notin> set p" by auto
  with Cons show ?case
    by (cases path) (simp_all add: match_parts.simps[of "p # pattern"])
qed auto

text \<open>A path rule without \<open>*\<close> grants exactly its own path, whatever other characters (\<open>?\<close>
  included) it holds.\<close>

theorem literal_path_rule:
  assumes "CHR ''*'' \<notin> set pattern"
  shows "path_pattern_matches pattern path \<longleftrightarrow> pattern = path"
proof -
  have "\<forall>p \<in> set (split_slash pattern). CHR ''*'' \<notin> set p"
    using assms split_slash_set by blast
  then show ?thesis
    by (auto simp: path_pattern_matches_def match_parts_literal dest: split_slash_inj)
qed

theorem literal_path_rule_witness:
  "path_pattern_matches ''saggyclaw://x/?'' ''saggyclaw://x/a'' \<longleftrightarrow> False"
  using literal_path_rule[of "''saggyclaw://x/?''" "''saggyclaw://x/a''"] by simp

text \<open>C25. The path policy denies when no rule matches; otherwise the level is that of a matching rule
  with the longest pattern and, among those, the most restrictive level, independently of the
  order of the rules.\<close>

theorem path_evaluate_best:
  "if (\<exists>p \<in> set perms. path_pattern_matches (pp_path_pattern p) path)
   then \<exists>p \<in> set perms. path_pattern_matches (pp_path_pattern p) path \<and>
          ppr_level (path_evaluate perms path) = pp_level p \<and>
          ppr_matched_rule (path_evaluate perms path) = Some (pp_id p) \<and>
          (\<nexists>q. q \<in> set perms \<and> path_pattern_matches (pp_path_pattern q) path \<and> \<not> path_le q p)
   else ppr_level (path_evaluate perms path) = Deny \<and>
        ppr_matched_rule (path_evaluate perms path) = None"
proof (cases "path_pick (filter (\<lambda>p. path_pattern_matches (pp_path_pattern p) path) perms)")
  case None
  then have "\<not> (\<exists>p \<in> set perms. path_pattern_matches (pp_path_pattern p) path)"
    by (simp add: pathpol.pick_None_iff filter_empty_conv)
  with None show ?thesis by (simp add: path_evaluate_pick)
next
  case (Some p)
  from pathpol.pick_spec[OF Some] Some show ?thesis
    by (auto simp: path_evaluate_pick path_le_def)
qed

end
