(* ===== verification/Store.thy ===== *)
theory Store
  imports Prelude "HOL-Library.Char_ord" "HOL-Library.List_Lexorder"
begin

text \<open>
  The embedded store (\<open>rockbot-storage/src/lib.rs\<close>, \<open>tables.rs\<close>, \<open>sync.rs\<close>). The database redb is
  not part of the repository: a record of its operations is an argument of every definition, and
  the locale \<open>redb_laws\<close> states its documented behaviour through the contents of a database
  and of a transaction. Every operation can fail. A write transaction that is dropped without a
  commit changes nothing, so a failing store operation is \<open>Inl\<close> and keeps the old database.
  The values are bytes; their type stays a parameter \<open>'v\<close>.
\<close>

type_synonym table = string
type_synonym 'v contents = "table \<Rightarrow> (string \<rightharpoonup> 'v) option"

record ('db, 'tx, 'v, 'e) redb =
  rb_begin_read :: "'db \<Rightarrow> 'e + 'tx"
  rb_begin_write :: "'db \<Rightarrow> 'e + 'tx"
  rb_open_read :: "table \<Rightarrow> 'tx \<Rightarrow> 'e + unit"
  rb_open_write :: "table \<Rightarrow> 'tx \<Rightarrow> 'e + 'tx"
  rb_insert :: "table \<Rightarrow> string \<Rightarrow> 'v \<Rightarrow> 'tx \<Rightarrow> 'e + 'tx"
  rb_remove :: "table \<Rightarrow> string \<Rightarrow> 'tx \<Rightarrow> 'e + ('tx \<times> 'v option)"
  rb_get :: "table \<Rightarrow> string \<Rightarrow> 'tx \<Rightarrow> 'e + 'v option"
  rb_iter :: "table \<Rightarrow> 'tx \<Rightarrow> 'e + (string \<times> 'v) list"
  rb_range :: "table \<Rightarrow> string \<Rightarrow> string \<Rightarrow> 'tx \<Rightarrow> 'e + (string \<times> 'v) list"
  rb_commit :: "'tx \<Rightarrow> 'e + 'db"

subsection \<open>Store operations\<close>

definition store_put ::
  "('db, 'tx, 'v, 'e) redb \<Rightarrow> table \<Rightarrow> string \<Rightarrow> 'v \<Rightarrow> 'db \<Rightarrow> 'e + 'db" where
  "store_put rb t k v db =
     sbind (rb_begin_write rb db) (\<lambda>tx.
     sbind (rb_open_write rb t tx) (\<lambda>tx.
     sbind (rb_insert rb t k v tx) (\<lambda>tx.
     rb_commit rb tx)))"

definition store_get ::
  "('db, 'tx, 'v, 'e) redb \<Rightarrow> table \<Rightarrow> string \<Rightarrow> 'db \<Rightarrow> 'e + 'v option" where
  "store_get rb t k db =
     sbind (rb_begin_read rb db) (\<lambda>tx.
     sbind (rb_open_read rb t tx) (\<lambda>_.
     rb_get rb t k tx))"

definition store_delete ::
  "('db, 'tx, 'v, 'e) redb \<Rightarrow> table \<Rightarrow> string \<Rightarrow> 'db \<Rightarrow> 'e + ('db \<times> bool)" where
  "store_delete rb t k db =
     sbind (rb_begin_write rb db) (\<lambda>tx.
     sbind (rb_open_write rb t tx) (\<lambda>tx.
     sbind (rb_remove rb t k tx) (\<lambda>(tx, removed).
     sbind (rb_commit rb tx) (\<lambda>db.
     Inr (db, removed \<noteq> None)))))"

definition store_list ::
  "('db, 'tx, 'v, 'e) redb \<Rightarrow> table \<Rightarrow> 'db \<Rightarrow> 'e + (string \<times> 'v) list" where
  "store_list rb t db =
     sbind (rb_begin_read rb db) (\<lambda>tx.
     sbind (rb_open_read rb t tx) (\<lambda>_.
     rb_iter rb t tx))"

definition store_range ::
  "('db, 'tx, 'v, 'e) redb \<Rightarrow> table \<Rightarrow> string \<Rightarrow> string \<Rightarrow> 'db \<Rightarrow> 'e + (string \<times> 'v) list" where
  "store_range rb t lo hi db =
     sbind (rb_begin_read rb db) (\<lambda>tx.
     sbind (rb_open_read rb t tx) (\<lambda>_.
     rb_range rb t lo hi tx))"

text \<open>The string-valued tables (\<open>VAULT_META\<close>).\<close>

definition store_put_str ::
  "('db, 'tx, string, 'e) redb \<Rightarrow> table \<Rightarrow> string \<Rightarrow> string \<Rightarrow> 'db \<Rightarrow> 'e + 'db" where
  "store_put_str rb t k v db =
     sbind (rb_begin_write rb db) (\<lambda>tx.
     sbind (rb_open_write rb t tx) (\<lambda>tx.
     sbind (rb_insert rb t k v tx) (\<lambda>tx.
     rb_commit rb tx)))"

definition store_get_str ::
  "('db, 'tx, string, 'e) redb \<Rightarrow> table \<Rightarrow> string \<Rightarrow> 'db \<Rightarrow> 'e + string option" where
  "store_get_str rb t k db =
     sbind (rb_begin_read rb db) (\<lambda>tx.
     sbind (rb_open_read rb t tx) (\<lambda>_.
     rb_get rb t k tx))"

subsection \<open>Tables and replication policies\<close>

definition ENDPOINTS :: table where "ENDPOINTS = ''endpoints''"
definition CREDENTIALS :: table where "CREDENTIALS = ''credentials''"
definition PERMISSIONS :: table where "PERMISSIONS = ''permissions''"
definition KV_STORE :: table where "KV_STORE = ''kv_store''"
definition SESSIONS :: table where "SESSIONS = ''sessions''"
definition SESSION_MESSAGES :: table where "SESSION_MESSAGES = ''session_messages''"
definition CRON_JOBS :: table where "CRON_JOBS = ''cron_jobs''"
definition ROUTE_BINDINGS :: table where "ROUTE_BINDINGS = ''route_bindings''"
definition PKI_INDEX :: table where "PKI_INDEX = ''pki_index''"
definition AGENTS :: table where "AGENTS = ''agents''"
definition NODE_KEYS :: table where "NODE_KEYS = ''node_keys''"
definition VAULT_OBJECTS :: table where "VAULT_OBJECTS = ''vault_objects''"
definition VAULT_PROVIDER_GRANTS :: table where "VAULT_PROVIDER_GRANTS = ''vault_provider_grants''"
definition VAULT_NODE_GRANTS :: table where "VAULT_NODE_GRANTS = ''vault_node_grants''"
definition VAULT_POLICIES :: table where "VAULT_POLICIES = ''vault_policies''"
definition VAULT_META :: table where "VAULT_META = ''vault_meta''"
definition REPLICATION_META :: table where "REPLICATION_META = ''replication_meta''"

datatype sync_policy = Eager | Eventual | LocalOnly

definition all_policies :: "(table \<times> sync_policy) list" where
  "all_policies =
    [(VAULT_META, Eager), (CREDENTIALS, Eager), (PERMISSIONS, Eager), (PKI_INDEX, Eager),
     (ENDPOINTS, Eventual), (ROUTE_BINDINGS, Eventual), (KV_STORE, Eventual),
     (SESSIONS, Eventual), (SESSION_MESSAGES, Eventual), (CRON_JOBS, Eventual), (AGENTS, Eventual),
     (''agent_documents'', Eventual), (''agent_objects'', Eventual), (''topology_nodes'', Eventual),
     (''topology_edges'', Eventual), (''topology_edges_from'', Eventual),
     (''topology_edges_to'', Eventual), (''zones'', Eventual), (''zone_members'', Eventual),
     (''blackboards'', Eventual), (''blackboard_acl'', Eventual), (''ownership_events'', Eventual),
     (''agent_vdisks'', Eventual), (NODE_KEYS, Eager), (VAULT_OBJECTS, Eager),
     (VAULT_PROVIDER_GRANTS, Eager), (VAULT_NODE_GRANTS, Eager), (VAULT_POLICIES, Eager),
     (REPLICATION_META, LocalOnly)]"

definition policy_for :: "string \<Rightarrow> sync_policy" where
  "policy_for n =
    (if n = CREDENTIALS then Eager
     else if n = VAULT_META then Eager
     else if n = PERMISSIONS then Eager
     else if n = PKI_INDEX then Eager
     else if n = ENDPOINTS then Eventual
     else if n = ROUTE_BINDINGS then Eventual
     else if n = KV_STORE then Eventual
     else if n = SESSIONS then Eventual
     else if n = SESSION_MESSAGES then Eventual
     else if n = CRON_JOBS then Eventual
     else if n = AGENTS then Eventual
     else if n = ''agent_documents'' then Eventual
     else if n = ''agent_objects'' then Eventual
     else if n = ''topology_nodes'' then Eventual
     else if n = ''topology_edges'' then Eventual
     else if n = ''topology_edges_from'' then Eventual
     else if n = ''topology_edges_to'' then Eventual
     else if n = ''zones'' then Eventual
     else if n = ''zone_members'' then Eventual
     else if n = ''blackboards'' then Eventual
     else if n = ''blackboard_acl'' then Eventual
     else if n = ''ownership_events'' then Eventual
     else if n = ''agent_vdisks'' then Eventual
     else if n = NODE_KEYS then Eager
     else if n = VAULT_OBJECTS then Eager
     else if n = VAULT_PROVIDER_GRANTS then Eager
     else if n = VAULT_NODE_GRANTS then Eager
     else if n = VAULT_POLICIES then Eager
     else if n = REPLICATION_META then LocalOnly
     else LocalOnly)"

definition replicated_tables :: "(table \<times> sync_policy) list" where
  "replicated_tables = filter (\<lambda>(_, p). p \<noteq> LocalOnly) all_policies"

text \<open>The tables created when a store is opened.\<close>

definition initial_tables :: "table list" where
  "initial_tables =
    [ENDPOINTS, CREDENTIALS, PERMISSIONS, KV_STORE, SESSIONS, SESSION_MESSAGES, CRON_JOBS,
     ROUTE_BINDINGS, PKI_INDEX, AGENTS, ''agent_documents'', ''agent_objects'', ''topology_nodes'',
     ''topology_edges'', ''topology_edges_from'', ''topology_edges_to'', ''zones'', ''zone_members'',
     ''blackboards'', ''blackboard_acl'', ''ownership_events'', ''agent_vdisks'', REPLICATION_META,
     NODE_KEYS, VAULT_OBJECTS, VAULT_PROVIDER_GRANTS, VAULT_NODE_GRANTS, VAULT_POLICIES, VAULT_META]"

fun open_all :: "('db, 'tx, 'v, 'e) redb \<Rightarrow> table list \<Rightarrow> 'tx \<Rightarrow> 'e + 'tx" where
  "open_all rb [] tx = Inr tx"
| "open_all rb (t # ts) tx = sbind (rb_open_write rb t tx) (open_all rb ts)"

definition initialize_tables :: "('db, 'tx, 'v, 'e) redb \<Rightarrow> 'db \<Rightarrow> 'e + 'db" where
  "initialize_tables rb db =
     sbind (rb_begin_write rb db) (\<lambda>tx.
     sbind (open_all rb initial_tables tx) (rb_commit rb))"

subsection \<open>Namespaced keys\<close>

definition kv_key :: "string \<Rightarrow> string \<Rightarrow> string" where
  "kv_key namespace key = namespace @ [CHR 0x00] @ key"

definition kv_put ::
  "('db, 'tx, 'v, 'e) redb \<Rightarrow> string \<Rightarrow> string \<Rightarrow> 'v \<Rightarrow> 'db \<Rightarrow> 'e + 'db" where
  "kv_put rb namespace key v db = store_put rb KV_STORE (kv_key namespace key) v db"

definition kv_get ::
  "('db, 'tx, 'v, 'e) redb \<Rightarrow> string \<Rightarrow> string \<Rightarrow> 'db \<Rightarrow> 'e + 'v option" where
  "kv_get rb namespace key db = store_get rb KV_STORE (kv_key namespace key) db"

definition kv_delete ::
  "('db, 'tx, 'v, 'e) redb \<Rightarrow> string \<Rightarrow> string \<Rightarrow> 'db \<Rightarrow> 'e + ('db \<times> bool)" where
  "kv_delete rb namespace key db = store_delete rb KV_STORE (kv_key namespace key) db"

definition strip_prefix :: "string \<Rightarrow> string \<Rightarrow> string option" where
  "strip_prefix p s = (if prefix p s then Some (drop (length p) s) else None)"

definition kv_list ::
  "('db, 'tx, 'v, 'e) redb \<Rightarrow> string \<Rightarrow> 'db \<Rightarrow> 'e + (string \<times> 'v) list" where
  "kv_list rb namespace db =
     (let pre = namespace @ [CHR 0x00]; pre_end = namespace @ [CHR 0x01] in
      sbind (store_range rb KV_STORE pre pre_end db) (\<lambda>pairs.
      Inr (map (\<lambda>(k, v). (case strip_prefix pre k of Some bare \<Rightarrow> bare | None \<Rightarrow> k, v)) pairs)))"

subsection \<open>Serialised rows\<close>

text \<open>The serde codec of a row type is a pair of parameters: the writer and the reader.\<close>

definition put_json :: "('db, 'tx, 'v, 'e) redb \<Rightarrow> ('a \<Rightarrow> 'e + 'v) \<Rightarrow> table \<Rightarrow> string \<Rightarrow> 'a \<Rightarrow> 'db \<Rightarrow> 'e + 'db" where
  "put_json rb enc t k x db = sbind (enc x) (\<lambda>bytes. store_put rb t k bytes db)"

definition get_json :: "('db, 'tx, 'v, 'e) redb \<Rightarrow> ('v \<Rightarrow> 'e + 'a) \<Rightarrow> table \<Rightarrow> string \<Rightarrow> 'db \<Rightarrow> 'e + 'a option" where
  "get_json rb dec t k db =
     sbind (store_get rb t k db) (\<lambda>r. case r of
         Some bytes \<Rightarrow> sbind (dec bytes) (\<lambda>x. Inr (Some x))
       | None \<Rightarrow> Inr None)"

definition list_json :: "('db, 'tx, 'v, 'e) redb \<Rightarrow> ('v \<Rightarrow> 'e + 'a) \<Rightarrow> table \<Rightarrow> 'db \<Rightarrow> 'e + (string \<times> 'a) list" where
  "list_json rb dec t db =
     sbind (store_list rb t db) (collect (\<lambda>(key, bytes). sbind (dec bytes) (\<lambda>x. Inr (key, x))))"

definition store_agent :: "('db, 'tx, 'v, 'e) redb \<Rightarrow> ('a \<Rightarrow> 'e + 'v) \<Rightarrow> string \<Rightarrow> 'a \<Rightarrow> 'db \<Rightarrow> 'e + 'db" where
  "store_agent rb enc i agent db = sbind (enc agent) (\<lambda>bytes. store_put rb AGENTS i bytes db)"

definition load_agent :: "('db, 'tx, 'v, 'e) redb \<Rightarrow> ('v \<Rightarrow> 'e + 'a) \<Rightarrow> string \<Rightarrow> 'db \<Rightarrow> 'e + 'a option" where
  "load_agent rb dec i db =
     sbind (store_get rb AGENTS i db) (\<lambda>r. case r of
         Some bytes \<Rightarrow> sbind (dec bytes) (\<lambda>x. Inr (Some x))
       | None \<Rightarrow> Inr None)"

definition list_agents :: "('db, 'tx, 'v, 'e) redb \<Rightarrow> ('v \<Rightarrow> 'e + 'a) \<Rightarrow> 'db \<Rightarrow> 'e + 'a list" where
  "list_agents rb dec db = sbind (store_list rb AGENTS db) (collect (\<lambda>(_, bytes). dec bytes))"

definition delete_agent :: "('db, 'tx, 'v, 'e) redb \<Rightarrow> string \<Rightarrow> 'db \<Rightarrow> 'e + ('db \<times> bool)" where
  "delete_agent rb i db = store_delete rb AGENTS i db"

subsection \<open>Whole-table writes\<close>

fun remove_keys :: "('db, 'tx, 'v, 'e) redb \<Rightarrow> table \<Rightarrow> string list \<Rightarrow> 'tx \<Rightarrow> 'e + 'tx" where
  "remove_keys rb t [] tx = Inr tx"
| "remove_keys rb t (k # ks) tx = sbind (rb_remove rb t k tx) (\<lambda>(tx, _). remove_keys rb t ks tx)"

fun insert_entries :: "('db, 'tx, 'v, 'e) redb \<Rightarrow> table \<Rightarrow> (string \<times> 'v) list \<Rightarrow> 'tx \<Rightarrow> 'e + 'tx" where
  "insert_entries rb t [] tx = Inr tx"
| "insert_entries rb t ((k, v) # es) tx = sbind (rb_insert rb t k v tx) (insert_entries rb t es)"

fun replace_each ::
  "('db, 'tx, 'v, 'e) redb \<Rightarrow> (table \<times> (string \<times> 'v) list) list \<Rightarrow> 'tx \<Rightarrow> 'e + 'tx" where
  "replace_each rb [] tx = Inr tx"
| "replace_each rb ((t, entries) # reps) tx =
     sbind (rb_open_write rb t tx) (\<lambda>tx.
     sbind (rb_iter rb t tx) (\<lambda>rows.
     sbind (remove_keys rb t (map fst rows) tx) (\<lambda>tx.
     sbind (insert_entries rb t entries tx) (replace_each rb reps))))"

definition replace_bytes_tables ::
  "('db, 'tx, 'v, 'e) redb \<Rightarrow> (table \<times> (string \<times> 'v) list) list \<Rightarrow> 'db \<Rightarrow> 'e + 'db" where
  "replace_bytes_tables rb replacements db =
     sbind (rb_begin_write rb db) (\<lambda>tx.
     sbind (replace_each rb replacements tx) (rb_commit rb))"

fun put_each :: "('db, 'tx, 'v, 'e) redb \<Rightarrow> (table \<times> string \<times> 'v) list \<Rightarrow> 'tx \<Rightarrow> 'e + 'tx" where
  "put_each rb [] tx = Inr tx"
| "put_each rb ((t, k, v) # ops) tx =
     sbind (rb_open_write rb t tx) (\<lambda>tx. sbind (rb_insert rb t k v tx) (put_each rb ops))"

definition put_many ::
  "('db, 'tx, 'v, 'e) redb \<Rightarrow> (table \<times> string \<times> 'v) list \<Rightarrow> 'db \<Rightarrow> 'e + 'db" where
  "put_many rb ops db =
     sbind (rb_begin_write rb db) (\<lambda>tx. sbind (put_each rb ops tx) (rb_commit rb))"

subsection \<open>The contract of a table store\<close>

text \<open>What the clients of the store rely on: reads and writes through the contents of the tables.\<close>

locale table_store =
  fixes put :: "table \<Rightarrow> string \<Rightarrow> 'v \<Rightarrow> 'db \<Rightarrow> 'e + 'db"
    and get :: "table \<Rightarrow> string \<Rightarrow> 'db \<Rightarrow> 'e + 'v option"
    and delete :: "table \<Rightarrow> string \<Rightarrow> 'db \<Rightarrow> 'e + ('db \<times> bool)"
    and list_rows :: "table \<Rightarrow> 'db \<Rightarrow> 'e + (string \<times> 'v) list"
    and view :: "'db \<Rightarrow> table \<Rightarrow> string \<rightharpoonup> 'v"
  assumes put_view: "put t k v db = Inr db' \<Longrightarrow> view db' = (view db)(t := (view db t)(k \<mapsto> v))"
    and get_view: "get t k db = Inr r \<Longrightarrow> r = view db t k"
    and delete_view: "delete t k db = Inr (db', b) \<Longrightarrow>
           view db' = (view db)(t := (view db t)(k := None)) \<and> b = (view db t k \<noteq> None)"
    and list_view: "list_rows t db = Inr rows \<Longrightarrow>
           map_of rows = view db t \<and> sorted (map fst rows) \<and> distinct (map fst rows)"
begin

lemma get_after_put:
  "put t k v db = Inr db' \<Longrightarrow> get t' k' db' = Inr r \<Longrightarrow>
     r = (if t' = t \<and> k' = k then Some v else view db t' k')"
  using put_view[of t k v db db'] get_view[of t' k' db' r] by simp

lemma get_after_delete:
  "delete t k db = Inr (db', b) \<Longrightarrow> get t' k' db' = Inr r \<Longrightarrow>
     r = (if t' = t \<and> k' = k then None else view db t' k')"
  using delete_view[of t k db db' b] get_view[of t' k' db' r] by simp

lemma list_mem: "list_rows t db = Inr rows \<Longrightarrow> (k, v) \<in> set rows \<longleftrightarrow> view db t k = Some v"
  using list_view by (metis map_of_eq_Some_iff)

lemma list_rows_eq:
  assumes "list_rows t db = Inr rows"
  shows "rows = map (\<lambda>k. (k, the (view db t k))) (map fst rows)"
proof (rule nth_equalityI)
  fix i assume i: "i < length rows"
  then have "(fst (rows ! i), snd (rows ! i)) \<in> set rows" by simp
  then have "view db t (fst (rows ! i)) = Some (snd (rows ! i))" by (simp only: list_mem[OF assms])
  with i show "rows ! i = map (\<lambda>k. (k, the (view db t k))) (map fst rows) ! i" by simp
qed simp

lemma list_unique:
  assumes "list_rows t db = Inr rows" "list_rows t' db' = Inr rows'" "view db t = view db' t'"
  shows "rows = rows'"
proof -
  have "set (map fst rows) = set (map fst rows')"
    using list_view[OF assms(1)] list_view[OF assms(2)] assms(3)
    by (metis dom_map_of_conv_image_fst set_map)
  then have "map fst rows = map fst rows'"
    using list_view[OF assms(1)] list_view[OF assms(2)] sorted_distinct_set_unique by blast
  then show ?thesis using list_rows_eq[OF assms(1)] list_rows_eq[OF assms(2)] assms(3) by simp
qed

end

subsection \<open>The documented behaviour of redb\<close>

locale redb_laws =
  fixes rb :: "('db, 'tx, 'v, 'e) redb"
    and dbv :: "'db \<Rightarrow> 'v contents"
    and txv :: "'tx \<Rightarrow> 'v contents"
  assumes begin_read: "rb_begin_read rb db = Inr tx \<Longrightarrow> txv tx = dbv db"
    and begin_write: "rb_begin_write rb db = Inr tx \<Longrightarrow> txv tx = dbv db"
    and open_read: "rb_open_read rb t tx = Inr u \<Longrightarrow> txv tx t \<noteq> None"
    and open_write: "rb_open_write rb t tx = Inr tx' \<Longrightarrow>
          txv tx' = (if txv tx t = None then (txv tx)(t \<mapsto> Map.empty) else txv tx)"
    and insert: "rb_insert rb t k v tx = Inr tx' \<Longrightarrow> txv tx t = Some m \<Longrightarrow>
          txv tx' = (txv tx)(t \<mapsto> m(k \<mapsto> v))"
    and remove: "rb_remove rb t k tx = Inr (tx', r) \<Longrightarrow> txv tx t = Some m \<Longrightarrow>
          txv tx' = (txv tx)(t \<mapsto> m(k := None)) \<and> r = m k"
    and get: "rb_get rb t k tx = Inr r \<Longrightarrow> txv tx t = Some m \<Longrightarrow> r = m k"
    and iter: "rb_iter rb t tx = Inr rows \<Longrightarrow> txv tx t = Some m \<Longrightarrow>
          map_of rows = m \<and> sorted (map fst rows) \<and> distinct (map fst rows)"
    and range: "rb_range rb t lo hi tx = Inr rows \<Longrightarrow> txv tx t = Some m \<Longrightarrow>
          map_of rows = m |` {k. lo \<le> k \<and> k < hi} \<and> sorted (map fst rows) \<and> distinct (map fst rows)"
    and commit: "rb_commit rb tx = Inr db \<Longrightarrow> dbv db = txv tx"
begin

definition view :: "'db \<Rightarrow> table \<Rightarrow> string \<rightharpoonup> 'v" where
  "view db t = (case dbv db t of None \<Rightarrow> Map.empty | Some m \<Rightarrow> m)"

lemma opened: "rb_open_write rb t tx = Inr tx' \<Longrightarrow>
    txv tx' = (txv tx)(t \<mapsto> (case txv tx t of None \<Rightarrow> Map.empty | Some m \<Rightarrow> m))"
  using open_write by (force split: option.splits)

lemma view_upd: "dbv db' = (dbv db)(t \<mapsto> m) \<Longrightarrow> view db' = (view db)(t := m)"
  by (auto simp: view_def fun_eq_iff)

lemma put_view:
  assumes "store_put rb t k v db = Inr db'"
  shows "view db' = (view db)(t := (view db t)(k \<mapsto> v))"
proof -
  from assms obtain tx1 tx2 tx3 where
    "rb_begin_write rb db = Inr tx1" "rb_open_write rb t tx1 = Inr tx2"
    "rb_insert rb t k v tx2 = Inr tx3" "rb_commit rb tx3 = Inr db'"
    by (auto simp: store_put_def sbind_Inr_iff)
  then have "dbv db' = (dbv db)(t \<mapsto> (view db t)(k \<mapsto> v))"
    using opened[of t tx1 tx2] insert[of t k v tx2 tx3] by (simp add: begin_write commit view_def)
  then show ?thesis by (rule view_upd)
qed

lemma get_view:
  assumes "store_get rb t k db = Inr r"
  shows "r = view db t k"
proof -
  from assms obtain tx where tx: "rb_begin_read rb db = Inr tx" "rb_open_read rb t tx = Inr ()"
    "rb_get rb t k tx = Inr r"
    by (auto simp: store_get_def sbind_Inr_iff)
  then obtain m where "txv tx t = Some m" using open_read by blast
  with tx get[OF tx(3)] show ?thesis by (simp add: begin_read view_def)
qed

lemma delete_view:
  assumes "store_delete rb t k db = Inr (db', b)"
  shows "view db' = (view db)(t := (view db t)(k := None)) \<and> b = (view db t k \<noteq> None)"
proof -
  from assms obtain tx1 tx2 tx3 r where
    "rb_begin_write rb db = Inr tx1" "rb_open_write rb t tx1 = Inr tx2"
    "rb_remove rb t k tx2 = Inr (tx3, r)" "rb_commit rb tx3 = Inr db'" and b: "b = (r \<noteq> None)"
    by (auto simp: store_delete_def sbind_Inr_iff)
  then have "dbv db' = (dbv db)(t \<mapsto> (view db t)(k := None)) \<and> r = view db t k"
    using opened[of t tx1 tx2] remove[of t k tx2 tx3 r] by (simp add: begin_write commit view_def)
  with b show ?thesis by (auto intro: view_upd)
qed

lemma list_view:
  assumes "store_list rb t db = Inr rows"
  shows "map_of rows = view db t \<and> sorted (map fst rows) \<and> distinct (map fst rows)"
proof -
  from assms obtain tx where tx: "rb_begin_read rb db = Inr tx" "rb_open_read rb t tx = Inr ()"
    "rb_iter rb t tx = Inr rows"
    by (auto simp: store_list_def sbind_Inr_iff)
  then obtain m where "txv tx t = Some m" using open_read by blast
  with tx iter[OF tx(3)] show ?thesis by (simp add: begin_read view_def)
qed

lemma range_view:
  assumes "store_range rb t lo hi db = Inr rows"
  shows "map_of rows = view db t |` {k. lo \<le> k \<and> k < hi} \<and> sorted (map fst rows)
    \<and> distinct (map fst rows)"
proof -
  from assms obtain tx where tx: "rb_begin_read rb db = Inr tx" "rb_open_read rb t tx = Inr ()"
    "rb_range rb t lo hi tx = Inr rows"
    by (auto simp: store_range_def sbind_Inr_iff)
  then obtain m where "txv tx t = Some m" using open_read by blast
  with tx range[OF tx(3)] show ?thesis by (simp add: begin_read view_def)
qed

lemma get_json_view:
  "get_json rb dec t k db = Inr r \<Longrightarrow> view db t k = Some v \<Longrightarrow> dec v = Inr x \<Longrightarrow> r = Some x"
  by (auto simp: get_json_def sbind_Inr_iff dest!: get_view)

lemma get_json_absent: "get_json rb dec t k db = Inr r \<Longrightarrow> view db t k = None \<Longrightarrow> r = None"
  by (auto simp: get_json_def sbind_Inr_iff dest!: get_view)

lemma list_json_view:
  assumes "list_json rb dec t db = Inr rows"
  shows "\<And>k x. (k, x) \<in> set rows \<Longrightarrow> \<exists>v. view db t k = Some v \<and> dec v = Inr x"
    and "\<And>k v. view db t k = Some v \<Longrightarrow> \<exists>x. dec v = Inr x \<and> (k, x) \<in> set rows"
    and "distinct (map fst rows)"
proof -
  let ?row = "\<lambda>a b. fst b = fst a \<and> dec (snd a) = Inr (snd b)"
  have e: "(\<lambda>a b. (case a of (key, bytes) \<Rightarrow> sbind (dec bytes) (\<lambda>x. Inr (key, x))) = Inr b) = ?row"
    by (auto simp: fun_eq_iff sbind_Inr_iff)
  from assms obtain raw where raw: "store_list rb t db = Inr raw" and r: "list_all2 ?row raw rows"
    unfolding list_json_def sbind_Inr_iff collect_Inr_iff e by blast
  from list_view[OF raw] have v: "map_of raw = view db t" "distinct (map fst raw)" by auto
  show "\<exists>v. view db t k = Some v \<and> dec v = Inr x" if x: "(k, x) \<in> set rows" for k x
  proof -
    from x obtain i where i: "i < length rows" "rows ! i = (k, x)" by (auto simp: in_set_conv_nth)
    with r have "i < length raw" "fst (raw ! i) = k" "dec (snd (raw ! i)) = Inr x" by (auto simp: list_all2_conv_all_nth)
    moreover from this have "view db t k = Some (snd (raw ! i))"
      unfolding v(1)[symmetric] using v(2) by (metis map_of_is_SomeI nth_mem prod.collapse)
    ultimately show ?thesis by blast
  qed
  show "\<exists>x. dec v = Inr x \<and> (k, x) \<in> set rows" if k: "view db t k = Some v" for k v
  proof -
    from k v(1) have "(k, v) \<in> set raw" by (metis map_of_SomeD)
    then obtain i where i: "i < length raw" "raw ! i = (k, v)" by (auto simp: in_set_conv_nth)
    with r have "i < length rows" "fst (rows ! i) = k" "dec v = Inr (snd (rows ! i))" by (auto simp: list_all2_conv_all_nth)
    then show ?thesis by (metis nth_mem prod.collapse)
  qed
  have "map fst rows = map fst raw" using r by (induction rule: list_all2_induct) auto
  with v(2) show "distinct (map fst rows)" by simp
qed

end

sublocale redb_laws \<subseteq> ts: table_store "store_put rb" "store_get rb" "store_delete rb" "store_list rb" view
  by unfold_locales (fact put_view get_view delete_view list_view)+

subsection \<open>A reference implementation of the laws\<close>

text \<open>An in-memory database that satisfies the laws and never fails: the hypothesis that a database
  obeys them can be met.\<close>

type_synonym 'v mem_db = "table \<Rightarrow> (string \<times> 'v) list option"

definition mem_rows :: "table \<Rightarrow> 'v mem_db \<Rightarrow> (string \<times> 'v) list" where
  "mem_rows t db = (case db t of None \<Rightarrow> [] | Some rows \<Rightarrow> rows)"

definition mem_sorted :: "(string \<times> 'v) list \<Rightarrow> (string \<times> 'v) list" where
  "mem_sorted rows = map (\<lambda>k. (k, the (map_of rows k))) (sorted_list_of_set (set (map fst rows)))"

definition mem_redb :: "('v mem_db, 'v mem_db, 'v, 'e) redb" where
  "mem_redb = \<lparr>rb_begin_read = Inr, rb_begin_write = Inr,
     rb_open_read = (\<lambda>t tx. if tx t = None then Inl undefined else Inr ()),
     rb_open_write = (\<lambda>t tx. Inr (tx(t \<mapsto> mem_rows t tx))),
     rb_insert = (\<lambda>t k v tx. Inr (tx(t \<mapsto> (k, v) # mem_rows t tx))),
     rb_remove = (\<lambda>t k tx. Inr (tx(t \<mapsto> filter (\<lambda>r. fst r \<noteq> k) (mem_rows t tx)), map_of (mem_rows t tx) k)),
     rb_get = (\<lambda>t k tx. Inr (map_of (mem_rows t tx) k)),
     rb_iter = (\<lambda>t tx. Inr (mem_sorted (mem_rows t tx))),
     rb_range = (\<lambda>t lo hi tx. Inr (mem_sorted (filter (\<lambda>r. lo \<le> fst r \<and> fst r < hi) (mem_rows t tx)))),
     rb_commit = Inr\<rparr>"

definition mem_view :: "'v mem_db \<Rightarrow> 'v contents" where
  "mem_view db t = map_option map_of (db t)"

lemma map_of_filter_fst: "map_of (filter (\<lambda>r. P (fst r)) rows) = map_of rows |` {k. P k}"
  by (induction rows) (auto simp: fun_eq_iff restrict_map_def)

lemma map_of_mem_sorted [simp]: "map_of (mem_sorted rows) = map_of rows"
proof
  fix k
  have "map_of (map (\<lambda>k. (k, f k)) ks) k = (if k \<in> set ks then Some (f k) else None)" for f :: "string \<Rightarrow> 'a" and ks
    by (induction ks) auto
  then show "map_of (mem_sorted rows) k = map_of rows k"
    by (auto simp: mem_sorted_def map_of_eq_None_iff)
      (metis map_of_eq_None_iff option.collapse image_eqI fst_conv)
qed

lemma mem_sorted_sorted [simp]: "sorted (map fst (mem_sorted rows))" "distinct (map fst (mem_sorted rows))"
  by (simp_all add: mem_sorted_def comp_def)

lemma mem_view_upd [simp]: "mem_view (db(t \<mapsto> rows)) = (mem_view db)(t \<mapsto> map_of rows)"
  by (simp add: mem_view_def fun_eq_iff)

lemma mem_view_rows: "mem_view db t = Some m \<Longrightarrow> map_of (mem_rows t db) = m"
  by (auto simp: mem_view_def mem_rows_def)

lemma mem_view_None: "mem_view db t = None \<longleftrightarrow> db t = None"
  by (simp add: mem_view_def)

lemma mem_view_same: "mem_view db t = Some m \<Longrightarrow> (mem_view db)(t \<mapsto> map_of (mem_rows t db)) = mem_view db"
  by (simp add: mem_view_rows fun_upd_idem)

lemma map_of_remove: "map_of (filter (\<lambda>r. fst r \<noteq> k) rows) = (map_of rows)(k := None)"
  by (simp add: map_of_filter_fst[of "\<lambda>j. j \<noteq> k"] fun_eq_iff restrict_map_def)

interpretation mem: redb_laws "mem_redb :: ('v mem_db, 'v mem_db, 'v, 'e) redb" mem_view mem_view
proof (unfold_locales, goal_cases)
  case (4 t tx tx')
  then have tx': "tx' = tx(t \<mapsto> mem_rows t tx)" by (simp add: mem_redb_def)
  show ?case
  proof (cases "mem_view tx t")
    case None
    then show ?thesis by (simp add: tx' mem_view_None mem_rows_def)
  next
    case (Some m)
    then show ?thesis by (simp add: tx' mem_view_same)
  qed
next
  case (6 t k tx tx' r m)
  then show ?case
    by (auto simp: mem_redb_def map_of_remove mem_view_rows)
next
  case (9 t lo hi tx rows m)
  then show ?case
    by (auto simp: mem_redb_def map_of_filter_fst[of "\<lambda>k. lo \<le> k \<and> k < hi"] mem_view_rows)
next
  case (3 t tx u)
  then show ?case by (simp add: mem_redb_def mem_view_None split: if_splits)
qed (auto simp: mem_redb_def mem_view_rows)

subsection \<open>Namespaces\<close>

lemma char_less_1: "c < CHR 0x01 \<longleftrightarrow> c = CHR 0x00"
proof -
  have "c < CHR 0x01 \<longleftrightarrow> of_char c < (1 :: nat)" by (simp add: less_char_def)
  also have "\<dots> \<longleftrightarrow> of_char c = (of_char (CHR 0x00) :: nat)" by simp
  finally show ?thesis by (simp only: of_char_eq_iff)
qed

text \<open>The range scanned by \<open>kv_list\<close> is the set of keys with the namespace prefix.\<close>

lemma range_is_prefix:
  "ns @ [CHR 0x00] \<le> k \<and> k < ns @ [CHR 0x01] \<longleftrightarrow> prefix (ns @ [CHR 0x00]) k"
proof (induction ns arbitrary: k)
  case Nil
  have "[CHR 0x00] \<le> k \<and> k < [CHR 0x01] \<longleftrightarrow> (\<exists>k'. k = CHR 0x00 # k')"
    by (cases k) (auto simp: char_less_1)
  then show ?case by (auto simp: prefix_def)
next
  case (Cons c ns)
  show ?case
  proof (cases k)
    case (Cons d k')
    with Cons.IH[of k'] show ?thesis by (cases "c = d") auto
  qed simp
qed

context redb_laws
begin

lemma kv_get_view: "kv_get rb ns k db = Inr r \<Longrightarrow> r = view db KV_STORE (kv_key ns k)"
  unfolding kv_get_def by (rule get_view)

lemma kv_put_view: "kv_put rb ns k v db = Inr db' \<Longrightarrow>
    view db' = (view db)(KV_STORE := (view db KV_STORE)(kv_key ns k \<mapsto> v))"
  unfolding kv_put_def by (rule put_view)

lemma kv_list_view:
  assumes "kv_list rb ns db = Inr rows"
  shows "(k, v) \<in> set rows \<longleftrightarrow> view db KV_STORE (kv_key ns k) = Some v"
proof -
  define pre where "pre = ns @ [CHR 0x00]"
  from assms obtain pairs where
    pairs: "store_range rb KV_STORE pre (ns @ [CHR 0x01]) db = Inr pairs" and
    rows: "rows = map (\<lambda>(k, v). (case strip_prefix pre k of Some bare \<Rightarrow> bare | None \<Rightarrow> k, v)) pairs"
    by (auto simp: kv_list_def sbind_Inr_iff Let_def pre_def)
  note rv = range_view[OF pairs]
  have mem: "(j, v) \<in> set pairs \<longleftrightarrow> prefix pre j \<and> view db KV_STORE j = Some v" for j v
    using rv map_of_eq_Some_iff[of pairs j v] range_is_prefix[of ns j]
    by (auto simp: restrict_map_def pre_def split: if_splits)
  show ?thesis
  proof
    assume "(k, v) \<in> set rows"
    then obtain j where j: "(j, v) \<in> set pairs"
      "k = (case strip_prefix pre j of Some bare \<Rightarrow> bare | None \<Rightarrow> j)" by (auto simp: rows)
    then have p: "prefix pre j" and vj: "view db KV_STORE j = Some v" using mem by blast+
    from p obtain bare where "j = pre @ bare" by (auto simp: prefix_def)
    with j(2) have "j = pre @ k" by (simp add: strip_prefix_def)
    with vj show "view db KV_STORE (kv_key ns k) = Some v" by (simp add: kv_key_def pre_def)
  next
    assume "view db KV_STORE (kv_key ns k) = Some v"
    with mem[of "pre @ k" v] have "(pre @ k, v) \<in> set pairs" by (simp add: kv_key_def pre_def)
    then show "(k, v) \<in> set rows" by (force simp: rows strip_prefix_def)
  qed
qed

lemma remove_keys_tx:
  "remove_keys rb t ks tx = Inr tx' \<Longrightarrow> txv tx t = Some m \<Longrightarrow>
     txv tx' = (txv tx)(t \<mapsto> m |` (- set ks))"
proof (induction ks arbitrary: tx m)
  case (Cons k ks)
  then obtain tx1 r where tx1: "rb_remove rb t k tx = Inr (tx1, r)" "remove_keys rb t ks tx1 = Inr tx'"
    by (auto simp: sbind_Inr_iff)
  have t1: "txv tx1 = (txv tx)(t \<mapsto> m(k := None))" using remove[OF tx1(1)] Cons.prems by simp
  then have "txv tx1 t = Some (m(k := None))" by simp
  then have "txv tx' = (txv tx1)(t \<mapsto> (m(k := None)) |` (- set ks))"
    by (rule Cons.IH[OF tx1(2)])
  moreover have "(m(k := None)) |` (- set ks) = m |` (- set (k # ks))"
    by (auto simp: restrict_map_def)
  ultimately show ?case unfolding t1 by (simp only: fun_upd_upd)
qed (auto simp: restrict_map_def fun_upd_idem)

lemma insert_entries_tx:
  "insert_entries rb t es tx = Inr tx' \<Longrightarrow> txv tx t = Some m \<Longrightarrow>
     txv tx' = (txv tx)(t \<mapsto> m ++ map_of (rev es))"
proof (induction es arbitrary: tx m)
  case (Cons e es)
  obtain k v where e: "e = (k, v)" by (cases e)
  with Cons.prems obtain tx1 where tx1: "rb_insert rb t k v tx = Inr tx1" "insert_entries rb t es tx1 = Inr tx'"
    by (auto simp: sbind_Inr_iff)
  have t1: "txv tx1 = (txv tx)(t \<mapsto> m(k \<mapsto> v))" using insert[OF tx1(1)] Cons.prems by simp
  then have "txv tx1 t = Some (m(k \<mapsto> v))" by simp
  then have "txv tx' = (txv tx1)(t \<mapsto> m(k \<mapsto> v) ++ map_of (rev es))"
    by (rule Cons.IH[OF tx1(2)])
  moreover have "m(k \<mapsto> v) ++ map_of (rev es) = m ++ map_of (rev (e # es))"
    by (simp add: e)
  ultimately show ?case unfolding t1 by (simp only: fun_upd_upd)
qed (simp add: fun_upd_idem)

lemma replace_each_tx:
  "replace_each rb reps tx = Inr tx' \<Longrightarrow> distinct (map fst reps) \<Longrightarrow>
     txv tx' = (\<lambda>t. case map_of reps t of Some es \<Rightarrow> Some (map_of (rev es)) | None \<Rightarrow> txv tx t)"
proof (induction reps arbitrary: tx)
  case (Cons r reps)
  obtain t es where r: "r = (t, es)" by (cases r)
  with Cons.prems obtain tx1 rows tx2 tx3 where
    tx: "rb_open_write rb t tx = Inr tx1" "rb_iter rb t tx1 = Inr rows"
      "remove_keys rb t (map fst rows) tx1 = Inr tx2" "insert_entries rb t es tx2 = Inr tx3"
      "replace_each rb reps tx3 = Inr tx'"
    by (auto simp: sbind_Inr_iff)
  define m where "m = (case txv tx t of None \<Rightarrow> Map.empty | Some m \<Rightarrow> m)"
  have t1: "txv tx1 = (txv tx)(t \<mapsto> m)" using opened[OF tx(1)] by (simp add: m_def)
  have "map_of rows = m" using iter[OF tx(2), of m] t1 by simp
  then have "m |` (- set (map fst rows)) = Map.empty"
    using map_of_eq_None_iff[of rows] by (auto simp: restrict_map_def fun_eq_iff)
  then have "txv tx2 = (txv tx)(t \<mapsto> Map.empty)"
    using remove_keys_tx[OF tx(3), of m] t1 by simp
  then have "txv tx3 = (txv tx)(t \<mapsto> map_of (rev es))"
    using insert_entries_tx[OF tx(4), of Map.empty] by simp
  moreover have "map_of reps t = None" using Cons.prems(2) by (simp add: r map_of_eq_None_iff image_iff)
  ultimately show ?case
    using Cons.IH[OF tx(5)] Cons.prems(2) by (auto simp: r fun_eq_iff split: option.splits)
qed simp

lemma replace_view:
  assumes "replace_bytes_tables rb reps db = Inr db'" "distinct (map fst reps)"
  shows "view db' t = (case map_of reps t of Some es \<Rightarrow> map_of (rev es) | None \<Rightarrow> view db t)"
proof -
  from assms(1) obtain tx tx' where "rb_begin_write rb db = Inr tx" "replace_each rb reps tx = Inr tx'"
    "rb_commit rb tx' = Inr db'"
    by (auto simp: replace_bytes_tables_def sbind_Inr_iff)
  with replace_each_tx[of reps tx tx'] assms(2) show ?thesis
    by (auto simp: view_def begin_write commit split: option.splits)
qed

end

subsection \<open>Properties\<close>

lemma kv_key_eq:
  "kv_key ns' k' = kv_key ns k \<longleftrightarrow> ns' = ns \<and> k' = k \<or>
     (\<exists>m. ns' = ns @ [CHR 0x00] @ m \<and> k = m @ [CHR 0x00] @ k') \<or>
     (\<exists>m. ns = ns' @ [CHR 0x00] @ m \<and> k' = m @ [CHR 0x00] @ k)"
  by (auto simp: kv_key_def append_eq_append_conv2 Cons_eq_append_conv append_eq_Cons_conv)

text \<open>C21. Over any database that obeys the laws of redb: after a write, a read of the same namespace and key gives the
  value, and a read of another namespace and key gives what it gave before, except where one namespace
  continues the other after a zero byte and the keys make up for it. So namespaces without zero bytes never
  interfere; the code does not refuse the others.\<close>

theorem kv_namespace_isolation:
  assumes "redb_laws rb dbv txv" and "kv_put rb ns k v db = Inr db'"
    and "kv_get rb ns' k' db' = Inr r'" and "kv_get rb ns' k' db = Inr r"
  shows "r' = (if ns' = ns \<and> k' = k \<or> (\<exists>m. ns' = ns @ [CHR 0x00] @ m \<and> k = m @ [CHR 0x00] @ k') \<or>
      (\<exists>m. ns = ns' @ [CHR 0x00] @ m \<and> k' = m @ [CHR 0x00] @ k) then Some v else r)"
  unfolding kv_key_eq[symmetric] redb_laws.kv_get_view[OF assms(1,3)] redb_laws.kv_get_view[OF assms(1,4)]
    redb_laws.kv_put_view[OF assms(1,2)] by simp

theorem kv_namespace_isolation_witness:
  "\<exists>db'. kv_put mem_redb ''a'' ''k'' 5 (\<lambda>_. Some []) = (Inr db' :: unit + nat mem_db) \<and>
     kv_get mem_redb ''b'' ''k'' db' = (Inr None :: unit + nat option)"
proof -
  obtain db' where db': "kv_put mem_redb ''a'' ''k'' 5 (\<lambda>_. Some []) = (Inr db' :: unit + nat mem_db)"
    by (simp add: kv_put_def store_put_def mem_redb_def)
  obtain r' where r': "kv_get mem_redb ''b'' ''k'' db' = (Inr r' :: unit + nat option)"
    using db' by (auto simp: kv_get_def kv_put_def store_put_def store_get_def mem_redb_def)
  have r: "kv_get mem_redb ''b'' ''k'' (\<lambda>_. Some []) = (Inr None :: unit + nat option)"
    by (simp add: kv_get_def store_get_def mem_redb_def mem_rows_def)
  from kv_namespace_isolation[OF mem.redb_laws_axioms db' r' r] db' r' show ?thesis by simp
qed

text \<open>C34. Listing a namespace is exact: it returns precisely the pairs that reading the namespace key
  by key would return, with the bare keys.\<close>

theorem kv_list_exact:
  assumes "redb_laws rb dbv txv" and "kv_list rb ns db = Inr rows" and "kv_get rb ns k db = Inr r"
  shows "(k, v) \<in> set rows \<longleftrightarrow> r = Some v"
  using redb_laws.kv_list_view[OF assms(1,2)] redb_laws.kv_get_view[OF assms(1,3)] by simp

theorem kv_list_exact_witness:
  "\<exists>rows. kv_list mem_redb ''a'' (\<lambda>_. Some [(kv_key ''a'' ''k'', 5)]) = (Inr rows :: unit + (string \<times> nat) list)
     \<and> (''k'', 5) \<in> set rows"
proof -
  let ?db = "\<lambda>_. Some [(kv_key ''a'' ''k'', 5)] :: (string \<times> nat) list option"
  obtain rows where rows: "kv_list mem_redb ''a'' ?db = (Inr rows :: unit + (string \<times> nat) list)"
    by (simp add: kv_list_def store_range_def mem_redb_def Let_def)
  have "kv_get mem_redb ''a'' ''k'' ?db = (Inr (Some 5) :: unit + nat option)"
    by (simp add: kv_get_def store_get_def mem_redb_def mem_rows_def)
  from kv_list_exact[OF mem.redb_laws_axioms rows this] rows show ?thesis by blast
qed

text \<open>C35. Replacing whole tables (the installation of a snapshot) leaves every replaced table with
  exactly the given entries, the last one winning for a repeated key, and every other table as it
  was; nothing of the old rows survives.\<close>

theorem replace_bytes_tables_exact:
  assumes "redb_laws rb dbv txv" and "distinct (map fst reps)"
    and "replace_bytes_tables rb reps db = Inr db'"
    and "store_get rb t k db' = Inr r" and "store_get rb t k db = Inr r0"
  shows "r = (case map_of reps t of Some entries \<Rightarrow> map_of (rev entries) k | None \<Rightarrow> r0)"
  using redb_laws.replace_view[OF assms(1,3,2)] redb_laws.get_view[OF assms(1,4)]
    redb_laws.get_view[OF assms(1,5)] by (auto split: option.splits)

theorem replace_bytes_tables_exact_witness:
  "\<exists>db'. replace_bytes_tables mem_redb [(''t'', [(''a'', 1)])] (\<lambda>_. Some [(''b'', 2)])
       = (Inr db' :: unit + nat mem_db) \<and> store_get mem_redb ''t'' ''b'' db' = (Inr None :: unit + nat option)"
proof -
  let ?db = "\<lambda>_. Some [(''b'', 2)] :: (string \<times> nat) list option"
  obtain db' where db': "replace_bytes_tables mem_redb [(''t'', [(''a'', 1)])] ?db = (Inr db' :: unit + nat mem_db)"
    by (simp add: replace_bytes_tables_def mem_redb_def mem_sorted_def mem_rows_def)
  obtain r where r: "store_get mem_redb ''t'' ''b'' db' = (Inr r :: unit + nat option)"
    using db' by (auto simp: replace_bytes_tables_def store_get_def mem_redb_def mem_sorted_def mem_rows_def)
  obtain r0 where r0: "store_get mem_redb ''t'' ''b'' ?db = (Inr r0 :: unit + nat option)"
    by (simp add: store_get_def mem_redb_def)
  from replace_bytes_tables_exact[OF mem.redb_laws_axioms _ db' r r0] db' r show ?thesis by simp
qed

text \<open>C36. The table of policies agrees with the policy function, names every table once and every
  table that opening a store creates; a table is replicated iff its policy is not local.\<close>

theorem policies_consistent:
  "list_all (\<lambda>(t, p). policy_for t = p) all_policies \<and> distinct (map fst all_policies) \<and>
   set (map fst all_policies) = set initial_tables \<and>
   set (map fst replicated_tables) = {t. policy_for t \<noteq> LocalOnly}"
proof (intro conjI)
  have pol: "list_all (\<lambda>(t, p). policy_for t = p) all_policies" by code_simp
  then show "list_all (\<lambda>(t, p). policy_for t = p) all_policies" .
  show "distinct (map fst all_policies)" by code_simp
  show "set (map fst all_policies) = set initial_tables" by code_simp
  have "policy_for t \<noteq> LocalOnly \<Longrightarrow> t \<in> set (map fst replicated_tables)" for t
    by (simp add: policy_for_def replicated_tables_def all_policies_def split: if_splits)
  moreover have "policy_for t \<noteq> LocalOnly" if "t \<in> set (map fst replicated_tables)" for t
    using that pol by (fastforce simp: replicated_tables_def list_all_iff)
  ultimately show "set (map fst replicated_tables) = {t. policy_for t \<noteq> LocalOnly}" by blast
qed

end
