(* ===== verification/AuditLog.thy ===== *)
theory AuditLog
  imports CredTypes
begin

text \<open>
  The hash-chained audit log (\<open>rockbot-credentials/src/audit.rs\<close>). The log file is its content,
  \<open>None\<close> when it does not exist; the open \<open>AuditLog\<close> is the record of its last hash and next
  sequence number. SHA-256, the RFC 3339 rendering of an instant and the JSON codec of an entry
  are parameters. A panic of the hex decoder on a non-ASCII field is the error \<open>Panic\<close>.
\<close>

datatype audit_error = IoError | ReadParse | ReadBadHash | WriteBadPrevious | ChainBroken nat
  | WrongSequence nat nat | WriteBadHash | HashDiffers | SerializeFailed | Panic

datatype verify_error = VParse nat | VBadPrevious nat | VChainBroken nat nat | VBadHash nat
  | VHashMismatch nat nat

record audit_log =
  al_last_hash :: hash256
  al_next_sequence :: nat

record verification_result =
  vr_valid :: bool
  vr_entries_checked :: nat
  vr_last_sequence :: nat
  vr_error :: "verify_error option"

subsection \<open>The hash of an entry\<close>

definition le_bytes8 :: "nat \<Rightarrow> string" where
  "le_bytes8 n = map (\<lambda>i. char_of (n div 256 ^ i mod 256)) [0..<8]"

definition uuid_bytes :: "uuid \<Rightarrow> string" where
  "uuid_bytes u = map (\<lambda>i. char_of (unat u div 256 ^ (15 - i) mod 256)) [0..<16]"

definition hash_input :: "(datetime \<Rightarrow> string) \<Rightarrow> audit_entry \<Rightarrow> string" where
  "hash_input rfc3339 e =
     le_bytes8 (ae_sequence e) @ rfc3339 (ae_timestamp e) @ uuid_bytes (ae_request_id e) @
     ae_source e @ uuid_bytes (ae_endpoint_id e) @ method_as_str (ae_method e) @ ae_path e @
     ae_parameters_hash e @ level_as_str (ae_permission_level e) @
     (case ae_approval_id e of Some a \<Rightarrow> uuid_bytes a | None \<Rightarrow> []) @
     status_as_str (ae_result_status e) @ ae_result_hash e @
     (case ae_error_message e of Some m \<Rightarrow> m | None \<Rightarrow> []) @ ae_previous_hash e"

definition compute_entry_hash ::
  "(string \<Rightarrow> hash256) \<Rightarrow> (datetime \<Rightarrow> string) \<Rightarrow> audit_entry \<Rightarrow> hash256" where
  "compute_entry_hash sha rfc3339 e = sha (hash_input rfc3339 e)"

subsection \<open>Opening\<close>

definition decoded :: "audit_error \<Rightarrow> (hex_error + 'a) option \<Rightarrow> audit_error + 'a" where
  "decoded err r = (case r of None \<Rightarrow> Inl Panic | Some (Inl _) \<Rightarrow> Inl err | Some (Inr h) \<Rightarrow> Inr h)"

fun scan_entries ::
  "(string \<Rightarrow> audit_entry option) \<Rightarrow> string list \<Rightarrow> hash256 \<times> nat \<Rightarrow> audit_error + (hash256 \<times> nat)" where
  "scan_entries dec [] st = Inr st"
| "scan_entries dec (line # ls) st =
     (if \<not> utf8_valid line then Inl IoError
      else if blank line then scan_entries dec ls st
      else sbind (ok_or ReadParse (dec line)) (\<lambda>e.
           sbind (decoded ReadBadHash (entry_hash_bytes e)) (\<lambda>h.
           scan_entries dec ls (h, wadd (ae_sequence e) 1))))"

definition read_last_entry :: "(string \<Rightarrow> audit_entry option) \<Rightarrow> string \<Rightarrow> audit_error + (hash256 \<times> nat)" where
  "read_last_entry dec content = scan_entries dec (lines content) (ZERO_HASH, 1)"

definition audit_open :: "(string \<Rightarrow> audit_entry option) \<Rightarrow> string option \<Rightarrow> audit_error + audit_log" where
  "audit_open dec file =
     sbind (case file of Some content \<Rightarrow> read_last_entry dec content | None \<Rightarrow> Inr (ZERO_HASH, 1))
       (\<lambda>(h, n). Inr \<lparr>al_last_hash = h, al_next_sequence = n\<rparr>)"

subsection \<open>Building entries\<close>

record audit_entry_builder =
  bd_sequence :: nat
  bd_previous_hash :: hash256
  bd_request_id :: uuid
  bd_source :: string
  bd_endpoint_id :: uuid
  bd_method :: http_method
  bd_path :: string
  bd_parameters_hash :: hash256
  bd_permission_level :: permission_level
  bd_approval_id :: "uuid option"
  bd_result_status :: result_status
  bd_result_hash :: hash256
  bd_error_message :: "string option"

text \<open>The fresh request id is an argument. The setters of the builder are the record updates.\<close>

definition new_entry :: "uuid \<Rightarrow> audit_log \<Rightarrow> audit_entry_builder" where
  "new_entry rid lg = \<lparr>bd_sequence = al_next_sequence lg, bd_previous_hash = al_last_hash lg,
     bd_request_id = rid, bd_source = [], bd_endpoint_id = 0, bd_method = Get, bd_path = [],
     bd_parameters_hash = ZERO_HASH, bd_permission_level = Deny, bd_approval_id = None,
     bd_result_status = Success, bd_result_hash = ZERO_HASH, bd_error_message = None\<rparr>"

definition unhashed_entry :: "datetime \<Rightarrow> audit_entry_builder \<Rightarrow> audit_entry" where
  "unhashed_entry now b = \<lparr>ae_sequence = bd_sequence b, ae_timestamp = now,
     ae_request_id = bd_request_id b, ae_source = bd_source b, ae_endpoint_id = bd_endpoint_id b,
     ae_method = bd_method b, ae_path = bd_path b,
     ae_parameters_hash = hex_encode_hash (bd_parameters_hash b),
     ae_permission_level = bd_permission_level b, ae_approval_id = bd_approval_id b,
     ae_result_status = bd_result_status b, ae_result_hash = hex_encode_hash (bd_result_hash b),
     ae_error_message = bd_error_message b,
     ae_previous_hash = hex_encode_hash (bd_previous_hash b), ae_entry_hash = []\<rparr>"

definition build ::
  "(string \<Rightarrow> hash256) \<Rightarrow> (datetime \<Rightarrow> string) \<Rightarrow> datetime \<Rightarrow> audit_entry_builder \<Rightarrow> audit_entry" where
  "build sha rfc3339 now b =
     (let entry = unhashed_entry now b
      in entry\<lparr>ae_entry_hash := hex_encode_hash (compute_entry_hash sha rfc3339 entry)\<rparr>)"

subsection \<open>Appending and verifying\<close>

text \<open>The operating system may refuse to open, write or sync the file (\<open>io\<close> false); the model takes
  a failed write to leave the content as it was.\<close>

definition audit_append ::
  "(string \<Rightarrow> hash256) \<Rightarrow> (datetime \<Rightarrow> string) \<Rightarrow> (audit_entry \<Rightarrow> string option) \<Rightarrow> bool \<Rightarrow>
   audit_entry \<Rightarrow> audit_log \<times> string option \<Rightarrow> audit_error + (audit_log \<times> string option)" where
  "audit_append sha rfc3339 enc io entry st =
     (let (lg, file) = st; expected_prev = al_last_hash lg in
      sbind (decoded WriteBadPrevious (previous_hash_bytes entry)) (\<lambda>actual_prev.
      if actual_prev \<noteq> expected_prev then Inl (ChainBroken (ae_sequence entry))
      else if ae_sequence entry \<noteq> al_next_sequence lg
      then Inl (WrongSequence (al_next_sequence lg) (ae_sequence entry))
      else let computed_hash = compute_entry_hash sha rfc3339 entry in
      sbind (decoded WriteBadHash (entry_hash_bytes entry)) (\<lambda>stored_hash.
      if computed_hash \<noteq> stored_hash then Inl HashDiffers
      else if \<not> io then Inl IoError
      else sbind (ok_or SerializeFailed (enc entry)) (\<lambda>json.
      Inr (\<lparr>al_last_hash = stored_hash, al_next_sequence = wadd (ae_sequence entry) 1\<rparr>,
           Some ((case file of None \<Rightarrow> [] | Some content \<Rightarrow> content) @ json @ [CHR 0x0A]))))))"

text \<open>The loop of \<open>verify\<close>: \<open>n\<close> is the line number, \<open>prev\<close> the hash of the previous entry.\<close>

fun verify_lines ::
  "(string \<Rightarrow> hash256) \<Rightarrow> (datetime \<Rightarrow> string) \<Rightarrow> (string \<Rightarrow> audit_entry option) \<Rightarrow>
   nat \<Rightarrow> string list \<Rightarrow> hash256 \<Rightarrow> nat \<Rightarrow> nat \<Rightarrow> audit_error + verification_result" where
  "verify_lines sha rfc3339 dec n [] prev checked lastseq =
     Inr \<lparr>vr_valid = True, vr_entries_checked = checked, vr_last_sequence = lastseq, vr_error = None\<rparr>"
| "verify_lines sha rfc3339 dec n (line # ls) prev checked lastseq =
     (let bad = (\<lambda>err. Inr \<lparr>vr_valid = False, vr_entries_checked = checked,
                            vr_last_sequence = lastseq, vr_error = Some err\<rparr>) in
      if \<not> utf8_valid line then Inl IoError
      else if blank line then verify_lines sha rfc3339 dec (Suc n) ls prev checked lastseq
      else case dec line of
        None \<Rightarrow> bad (VParse n)
      | Some entry \<Rightarrow> (case previous_hash_bytes entry of
            None \<Rightarrow> Inl Panic
          | Some (Inl _) \<Rightarrow> bad (VBadPrevious n)
          | Some (Inr entry_prev) \<Rightarrow>
              if entry_prev \<noteq> prev then bad (VChainBroken n (ae_sequence entry))
              else (case entry_hash_bytes entry of
                  None \<Rightarrow> Inl Panic
                | Some (Inl _) \<Rightarrow> bad (VBadHash n)
                | Some (Inr stored_hash) \<Rightarrow>
                    if compute_entry_hash sha rfc3339 entry \<noteq> stored_hash
                    then bad (VHashMismatch n (ae_sequence entry))
                    else verify_lines sha rfc3339 dec (Suc n) ls stored_hash (wadd checked 1)
                           (ae_sequence entry))))"

definition verify ::
  "(string \<Rightarrow> hash256) \<Rightarrow> (datetime \<Rightarrow> string) \<Rightarrow> (string \<Rightarrow> audit_entry option) \<Rightarrow>
   string option \<Rightarrow> audit_error + verification_result" where
  "verify sha rfc3339 dec file = (case file of
       None \<Rightarrow> Inr \<lparr>vr_valid = True, vr_entries_checked = 0, vr_last_sequence = 0, vr_error = None\<rparr>
     | Some content \<Rightarrow> verify_lines sha rfc3339 dec 1 (lines content) ZERO_HASH 0 0)"

text \<open>\<open>get_audit_entries\<close> of the manager: unreadable and unparsable lines are skipped, the last
  \<open>limit\<close> entries are returned in file order.\<close>

definition get_audit_entries :: "(string \<Rightarrow> audit_entry option) \<Rightarrow> string option \<Rightarrow> nat \<Rightarrow> audit_entry list" where
  "get_audit_entries dec file limit = (case file of
       None \<Rightarrow> []
     | Some content \<Rightarrow>
         (let entries = List.map_filter (\<lambda>line. if \<not> utf8_valid line then None
                          else if blank line then None else dec line) (lines content)
          in if length entries > limit then drop (length entries - limit) entries else entries))"

subsection \<open>The chain\<close>

text \<open>\<open>chain prev es\<close>: the entries form a chain that starts from the hash \<open>prev\<close>.\<close>

fun chain :: "(string \<Rightarrow> hash256) \<Rightarrow> (datetime \<Rightarrow> string) \<Rightarrow> hash256 \<Rightarrow> audit_entry list \<Rightarrow> bool" where
  "chain sha ts prev [] \<longleftrightarrow> True"
| "chain sha ts prev (e # es) \<longleftrightarrow>
     previous_hash_bytes e = Some (Inr prev) \<and>
     entry_hash_bytes e = Some (Inr (compute_entry_hash sha ts e)) \<and>
     chain sha ts (compute_entry_hash sha ts e) es"

fun chain_hash :: "(string \<Rightarrow> hash256) \<Rightarrow> (datetime \<Rightarrow> string) \<Rightarrow> hash256 \<Rightarrow> audit_entry list \<Rightarrow> hash256" where
  "chain_hash sha ts prev [] = prev"
| "chain_hash sha ts prev (e # es) = chain_hash sha ts (compute_entry_hash sha ts e) es"

fun last_sequence :: "nat \<Rightarrow> audit_entry list \<Rightarrow> nat" where
  "last_sequence n [] = n"
| "last_sequence n (e # es) = last_sequence (ae_sequence e) es"

text \<open>The entries of a file: what its non-blank lines decode to.\<close>

definition file_lines :: "string option \<Rightarrow> string list" where
  "file_lines file = (case file of None \<Rightarrow> [] | Some content \<Rightarrow> lines content)"

definition readable :: "(string \<Rightarrow> audit_entry option) \<Rightarrow> string list \<Rightarrow> bool" where
  "readable dec ls \<longleftrightarrow> list_all (\<lambda>l. utf8_valid l \<and> (blank l \<or> dec l \<noteq> None)) ls"

definition entries_of :: "(string \<Rightarrow> audit_entry option) \<Rightarrow> string list \<Rightarrow> audit_entry list" where
  "entries_of dec ls = map (\<lambda>l. the (dec l)) (filter (\<lambda>l. \<not> blank l) ls)"

lemma chain_append:
  "chain sha ts prev (es @ fs) \<longleftrightarrow> chain sha ts prev es \<and> chain sha ts (chain_hash sha ts prev es) fs"
  by (induction es arbitrary: prev) auto

lemma chain_hash_append:
  "chain_hash sha ts prev (es @ fs) = chain_hash sha ts (chain_hash sha ts prev es) fs"
  by (induction es arbitrary: prev) auto

lemma last_sequence_append: "last_sequence n (es @ fs) = last_sequence (last_sequence n es) fs"
  by (induction es arbitrary: n) auto

lemma decoded_Inr: "decoded err r = Inr h \<longleftrightarrow> r = Some (Inr h)"
  by (auto simp: decoded_def split: option.splits sum.splits)

text \<open>Verification answers valid exactly when every line is readable and the entries chain up from
  the zero hash.\<close>

lemma verify_lines_valid:
  "(\<exists>r. verify_lines sha ts dec n ls prev k sq = Inr r \<and> vr_valid r) \<longleftrightarrow>
     readable dec ls \<and> chain sha ts prev (entries_of dec ls)"
proof (induction ls arbitrary: n prev k sq)
  case (Cons l ls)
  show ?case
  proof (cases "utf8_valid l \<and> \<not> blank l")
    case False
    with Cons.IH show ?thesis by (auto simp: readable_def entries_of_def Let_def)
  next
    case True
    show ?thesis
    proof (cases "dec l")
      case None
      with True show ?thesis by (auto simp: readable_def Let_def)
    next
      case (Some e)
      with True have "entries_of dec (l # ls) = e # entries_of dec ls"
        and "readable dec (l # ls) \<longleftrightarrow> readable dec ls"
        by (simp_all add: entries_of_def readable_def)
      with True Some Cons.IH show ?thesis
        by (auto simp: Let_def split: option.splits sum.splits)
    qed
  qed
qed (simp add: readable_def entries_of_def)

lemma verify_lines_result:
  "verify_lines sha ts dec n ls prev k sq = Inr r \<Longrightarrow> vr_valid r \<Longrightarrow> k + length ls < 2 ^ 64 \<Longrightarrow>
     vr_entries_checked r = k + length (entries_of dec ls) \<and>
     vr_last_sequence r = last_sequence sq (entries_of dec ls)"
proof (induction ls arbitrary: n prev k sq)
  case (Cons l ls)
  show ?case
  proof (cases "utf8_valid l \<and> \<not> blank l")
    case False
    with Cons show ?thesis by (auto simp: entries_of_def Let_def split: if_splits)
  next
    case True
    with Cons.prems obtain e where e: "dec l = Some e" "verify_lines sha ts dec (Suc n) ls
        (compute_entry_hash sha ts e) (wadd k 1) (ae_sequence e) = Inr r"
      by (auto simp: Let_def split: option.splits sum.splits if_splits)
    with Cons.IH[OF e(2) Cons.prems(2)] Cons.prems(3) True show ?thesis
      by (simp add: entries_of_def)
  qed
qed (auto simp: entries_of_def)

lemma scan_entries_chain:
  "readable dec ls \<Longrightarrow> chain sha ts prev (entries_of dec ls) \<Longrightarrow>
     scan_entries dec ls (prev, n) = Inr (chain_hash sha ts prev (entries_of dec ls),
        if entries_of dec ls = [] then n else wadd (last_sequence 0 (entries_of dec ls)) 1)"
proof (induction ls arbitrary: prev n)
  case (Cons l ls)
  show ?case
  proof (cases "blank l")
    case True
    with Cons show ?thesis by (simp add: readable_def entries_of_def)
  next
    case False
    with Cons.prems obtain e where e: "dec l = Some e" by (auto simp: readable_def)
    with False have es: "entries_of dec (l # ls) = e # entries_of dec ls" by (simp add: entries_of_def)
    from Cons.prems False e es have "utf8_valid l" "readable dec ls"
      and h: "entry_hash_bytes e = Some (Inr (compute_entry_hash sha ts e))"
      and c: "chain sha ts (compute_entry_hash sha ts e) (entries_of dec ls)"
      by (auto simp: readable_def)
    with Cons.IH[OF \<open>readable dec ls\<close> c, of "wadd (ae_sequence e) 1"] False e es show ?thesis
      by (cases "entries_of dec ls") (auto simp: decoded_def)
  qed
qed (simp add: entries_of_def)

subsection \<open>Appending keeps the chain\<close>

text \<open>What the JSON codec of an entry is relied on for: it is read back, and its text is one
  non-blank line of valid UTF-8.\<close>

definition entry_codec :: "(audit_entry \<Rightarrow> string option) \<Rightarrow> (string \<Rightarrow> audit_entry option) \<Rightarrow> bool" where
  "entry_codec enc dec \<longleftrightarrow> (\<forall>e s. enc e = Some s \<longrightarrow> dec s = Some e \<and> utf8_valid s \<and> \<not> blank s
     \<and> CHR 0x0A \<notin> set s \<and> CHR 0x0D \<notin> set s)"

text \<open>The open log agrees with its file: every line is terminated and readable, the entries chain
  up, and the registers are the hash and the successor of the number of the last entry.\<close>

definition log_ok ::
  "(string \<Rightarrow> hash256) \<Rightarrow> (datetime \<Rightarrow> string) \<Rightarrow> (string \<Rightarrow> audit_entry option) \<Rightarrow>
   audit_log \<times> string option \<Rightarrow> bool" where
  "log_ok sha ts dec st = (case st of (lg, file) \<Rightarrow>
     (case file of None \<Rightarrow> True | Some content \<Rightarrow> terminated content) \<and>
     readable dec (file_lines file) \<and>
     chain sha ts ZERO_HASH (entries_of dec (file_lines file)) \<and>
     al_last_hash lg = chain_hash sha ts ZERO_HASH (entries_of dec (file_lines file)) \<and>
     al_next_sequence lg = (if entries_of dec (file_lines file) = [] then 1
        else wadd (last_sequence 0 (entries_of dec (file_lines file))) 1))"

lemma append_cases:
  assumes "audit_append sha ts enc io e (lg, file) = Inr (lg', file')"
  obtains json where "enc e = Some json" "previous_hash_bytes e = Some (Inr (al_last_hash lg))"
    "ae_sequence e = al_next_sequence lg" "entry_hash_bytes e = Some (Inr (compute_entry_hash sha ts e))"
    "lg' = \<lparr>al_last_hash = compute_entry_hash sha ts e, al_next_sequence = wadd (ae_sequence e) 1\<rparr>"
    "file' = Some ((case file of None \<Rightarrow> [] | Some content \<Rightarrow> content) @ json @ [CHR 0x0A])"
  using assms
  by (auto simp: audit_append_def Let_def sbind_Inr_iff decoded_Inr ok_or_Inr_iff split: if_splits)

lemma append_entries:
  assumes codec: "entry_codec enc dec" and ok: "log_ok sha ts dec (lg, file)"
    and ap: "audit_append sha ts enc io e (lg, file) = Inr (lg', file')"
  shows "entries_of dec (file_lines file') = entries_of dec (file_lines file) @ [e] \<and>
    readable dec (file_lines file') \<and> terminated (the file') \<and> file' \<noteq> None"
proof -
  from append_cases[OF ap] obtain json where enc: "enc e = Some json"
    and f: "file' = Some ((case file of None \<Rightarrow> [] | Some content \<Rightarrow> content) @ json @ [CHR 0x0A])"
    by metis
  have j: "dec json = Some e" "utf8_valid json" "\<not> blank json" "CHR 0x0A \<notin> set json" "CHR 0x0D \<notin> set json"
    using codec enc unfolding entry_codec_def by blast+
  have t: "terminated (case file of None \<Rightarrow> [] | Some content \<Rightarrow> content)"
    using ok by (auto simp: log_ok_def terminated_def split: option.splits)
  have "file_lines file' = file_lines file @ [json]"
    using lines_append_line[OF t j(4,5)] by (auto simp: f file_lines_def split: option.splits)
  with j ok show ?thesis
    by (auto simp: entries_of_def readable_def log_ok_def f terminated_def)
qed

lemma append_log_ok:
  assumes codec: "entry_codec enc dec" and ok: "log_ok sha ts dec (lg, file)"
    and ap: "audit_append sha ts enc io e (lg, file) = Inr (lg', file')"
  shows "log_ok sha ts dec (lg', file')"
proof -
  define es where "es = entries_of dec (file_lines file)"
  from append_cases[OF ap] obtain json where
    e: "previous_hash_bytes e = Some (Inr (al_last_hash lg))" "ae_sequence e = al_next_sequence lg"
      "entry_hash_bytes e = Some (Inr (compute_entry_hash sha ts e))"
    and lg': "lg' = \<lparr>al_last_hash = compute_entry_hash sha ts e, al_next_sequence = wadd (ae_sequence e) 1\<rparr>"
    by metis
  from ok have "chain sha ts ZERO_HASH es" "al_last_hash lg = chain_hash sha ts ZERO_HASH es"
    by (simp_all add: log_ok_def es_def)
  with e have "chain sha ts ZERO_HASH (es @ [e])"
    "al_last_hash lg' = chain_hash sha ts ZERO_HASH (es @ [e])"
    "al_next_sequence lg' = wadd (last_sequence 0 (es @ [e])) 1"
    by (simp_all add: chain_append chain_hash_append last_sequence_append lg')
  with append_entries[OF codec ok ap, folded es_def] show ?thesis
    by (auto simp: log_ok_def)
qed

lemma log_ok_open: "log_ok sha ts dec (lg, file) \<Longrightarrow> audit_open dec file = Inr lg"
  using scan_entries_chain[of dec "file_lines file" sha ts ZERO_HASH 1]
  by (auto simp: log_ok_def audit_open_def read_last_entry_def file_lines_def entries_of_def
      split: option.splits)

lemma log_ok_verify: "log_ok sha ts dec (lg, file) \<Longrightarrow>
    \<exists>r. verify sha ts dec file = Inr r \<and> vr_valid r"
  using verify_lines_valid[of sha ts dec 1 "file_lines file" ZERO_HASH 0 0]
  by (auto simp: log_ok_def verify_def file_lines_def split: option.splits)

text \<open>C8. A successful append keeps the log verifiable and reopenable: afterwards verification
  answers valid, the entry is the last one of the file, and opening the file anew gives exactly the
  registers the log holds.\<close>

theorem append_preserves_integrity:
  assumes "entry_codec enc dec" and "log_ok sha ts dec (lg, file)"
    and "audit_append sha ts enc io e (lg, file) = Inr (lg', file')"
  shows "log_ok sha ts dec (lg', file') \<and> audit_open dec file' = Inr lg' \<and>
    (\<exists>r. verify sha ts dec file' = Inr r \<and> vr_valid r) \<and>
    entries_of dec (file_lines file') = entries_of dec (file_lines file) @ [e]"
  using append_log_ok[OF assms] append_entries[OF assms] log_ok_open log_ok_verify by blast

lemma chain_hash_length:
  "(\<And>s. length (sha s) = 32) \<Longrightarrow> length prev = 32 \<Longrightarrow> length (chain_hash sha ts prev es) = 32"
  by (induction es arbitrary: prev) (auto simp: compute_entry_hash_def)

lemma build_accepted:
  assumes "\<And>s. length (sha s) = 32" and "length (al_last_hash lg) = 32"
    and "bd_sequence b = al_next_sequence lg" and "bd_previous_hash b = al_last_hash lg"
    and "enc (build sha ts now b) = Some json"
  shows "\<exists>st'. audit_append sha ts enc True (build sha ts now b) (lg, file) = Inr st'"
proof -
  define e where "e = build sha ts now b"
  have "hash_input ts e = hash_input ts (unhashed_entry now b)"
    by (simp add: e_def build_def Let_def hash_input_def)
  then have "compute_entry_hash sha ts e = compute_entry_hash sha ts (unhashed_entry now b)"
    by (simp add: compute_entry_hash_def)
  moreover have "entry_hash_bytes e = Some (Inr (compute_entry_hash sha ts (unhashed_entry now b)))"
    using assms(1) by (simp add: e_def build_def Let_def entry_hash_bytes_def compute_entry_hash_def)
  moreover have "previous_hash_bytes e = Some (Inr (al_last_hash lg))" "ae_sequence e = al_next_sequence lg"
    using assms(2-4) by (simp_all add: e_def build_def Let_def previous_hash_bytes_def unhashed_entry_def)
  ultimately show ?thesis
    using assms(5)[folded e_def] by (simp add: audit_append_def Let_def decoded_def e_def[symmetric])
qed

text \<open>C32. An entry that \<open>new_entry\<close> starts from an open log, with whatever the setters then put into it, is accepted by
  that log when the disk and the serialiser work: the append succeeds, the log stays verifiable and its last
  entry is the new one, with the number after the previous entry.\<close>

theorem built_entry_accepted:
  assumes "\<And>s. length (sha s) = 32" and "entry_codec enc dec" and "log_ok sha ts dec (lg, file)"
    and "e = build sha ts now ((new_entry rid lg)\<lparr>bd_source := src, bd_endpoint_id := ep, bd_method := m, bd_path := path,
      bd_parameters_hash := ph, bd_permission_level := level, bd_approval_id := approval, bd_result_status := status,
      bd_result_hash := rh, bd_error_message := msg\<rparr>)"
    and "enc e = Some json"
  shows "\<exists>lg' file'. audit_append sha ts enc True e (lg, file) = Inr (lg', file') \<and> log_ok sha ts dec (lg', file') \<and>
    entries_of dec (file_lines file') = entries_of dec (file_lines file) @ [e] \<and>
    ae_sequence e = (if entries_of dec (file_lines file) = [] then 1
      else wadd (ae_sequence (last (entries_of dec (file_lines file)))) 1)"
proof -
  have lg: "al_last_hash lg = chain_hash sha ts ZERO_HASH (entries_of dec (file_lines file))"
    "al_next_sequence lg = (if entries_of dec (file_lines file) = [] then 1
        else wadd (last_sequence 0 (entries_of dec (file_lines file))) 1)"
    using assms(3) by (simp_all add: log_ok_def)
  have len: "length (al_last_hash lg) = 32"
    unfolding lg(1) by (rule chain_hash_length[OF assms(1)]) (simp add: ZERO_HASH_def)
  obtain b where b: "e = build sha ts now b" "bd_sequence b = al_next_sequence lg" "bd_previous_hash b = al_last_hash lg"
    using assms(4) by (simp add: new_entry_def)
  have "enc (build sha ts now b) = Some json" using assms(5) b(1) by simp
  note accepted = build_accepted[of sha lg b enc ts now json, OF assms(1) len b(2,3) this]
  obtain lg' file' where ap: "audit_append sha ts enc True e (lg, file) = Inr (lg', file')"
    using accepted unfolding b(1) by (metis surj_pair)
  have seq: "ae_sequence e = al_next_sequence lg"
    by (simp add: assms(4) build_def Let_def unhashed_entry_def new_entry_def)
  have ls: "es \<noteq> [] \<Longrightarrow> last_sequence n es = ae_sequence (last es)" for es n
    by (induction es arbitrary: n) auto
  have "ae_sequence e = (if entries_of dec (file_lines file) = [] then 1
      else wadd (ae_sequence (last (entries_of dec (file_lines file)))) 1)"
    by (simp add: seq lg(2) ls)
  with ap append_log_ok[OF assms(2,3) ap] append_entries[OF assms(2,3) ap] show ?thesis by blast
qed

text \<open>A concrete log: a constant hash function and a codec for one entry.\<close>

definition sample_log :: audit_log where
  "sample_log = \<lparr>al_last_hash = ZERO_HASH, al_next_sequence = 1\<rparr>"

definition sample_sha :: "string \<Rightarrow> hash256" where
  "sample_sha s = replicate 32 (of_nat (length s))"

definition sample_builder :: audit_entry_builder where
  "sample_builder = new_entry 0 sample_log"

definition sample_entry :: audit_entry where
  "sample_entry = build sample_sha (\<lambda>_. []) 0 sample_builder"

definition sample_enc :: "audit_entry \<Rightarrow> string option" where
  "sample_enc e = (if e = sample_entry then Some ''{}'' else None)"

definition sample_dec :: "string \<Rightarrow> audit_entry option" where
  "sample_dec s = (if s = ''{}'' then Some sample_entry else None)"

lemma sample_codec: "entry_codec sample_enc sample_dec"
proof -
  have "utf8_valid ''{}''" "\<not> blank ''{}''" by code_simp+
  then show ?thesis by (simp add: entry_codec_def sample_enc_def sample_dec_def)
qed

lemma sample_log_ok: "log_ok sha ts dec (sample_log, None)"
  by (simp add: log_ok_def sample_log_def file_lines_def readable_def entries_of_def)

theorem built_entry_accepted_witness:
  "\<exists>st'. audit_append sample_sha (\<lambda>_. []) sample_enc True sample_entry (sample_log, None) = Inr st' \<and> ae_sequence sample_entry = 1"
proof -
  have enc: "sample_enc sample_entry = Some ''{}''" by (simp add: sample_enc_def)
  have len: "length (sample_sha s) = 32" for s by (simp add: sample_sha_def)
  have e: "sample_entry = build sample_sha (\<lambda>_. []) 0 ((new_entry 0 sample_log)\<lparr>bd_source := [], bd_endpoint_id := 0, bd_method := Get,
      bd_path := [], bd_parameters_hash := ZERO_HASH, bd_permission_level := Deny, bd_approval_id := None, bd_result_status := Success,
      bd_result_hash := ZERO_HASH, bd_error_message := None\<rparr>)"
    by (simp add: sample_entry_def sample_builder_def new_entry_def)
  from built_entry_accepted[OF len sample_codec sample_log_ok e enc] show ?thesis
    by (auto simp: file_lines_def entries_of_def)
qed

lemma sample_append:
  "\<exists>st'. audit_append sample_sha (\<lambda>_. []) sample_enc True sample_entry (sample_log, None) = Inr st'"
proof -
  have "length (al_last_hash sample_log) = 32" by (simp add: sample_log_def ZERO_HASH_def)
  moreover have "hash_input (\<lambda>_. []) sample_entry = hash_input (\<lambda>_. []) (unhashed_entry 0 sample_builder)"
    by (simp add: sample_entry_def build_def Let_def hash_input_def)
  ultimately show ?thesis
    by (simp add: audit_append_def Let_def decoded_def sample_enc_def previous_hash_bytes_def
        entry_hash_bytes_def sample_entry_def build_def unhashed_entry_def sample_builder_def
        new_entry_def compute_entry_hash_def sample_sha_def hash_input_def)
qed

theorem append_preserves_integrity_witness:
  "\<exists>lg' file'. audit_append sample_sha (\<lambda>_. []) sample_enc True sample_entry (sample_log, None) = Inr (lg', file')
     \<and> audit_open sample_dec file' = Inr lg'"
proof -
  obtain lg' file' where
    "audit_append sample_sha (\<lambda>_. []) sample_enc True sample_entry (sample_log, None) = Inr (lg', file')"
    using sample_append by force
  with append_preserves_integrity[OF sample_codec sample_log_ok this] show ?thesis by blast
qed

subsection \<open>What verification detects\<close>

lemma hex_decode_from_length:
  "hex_decode_from i s = Some (Inr bytes) \<Longrightarrow> even (length s) \<Longrightarrow> length s = 2 * length bytes"
  by (induction i s arbitrary: bytes rule: hex_decode_from.induct)
    (auto split: if_splits option.splits sum.splits)

lemma hex_decode_hash_length: "hex_decode_hash s = Some (Inr h) \<Longrightarrow> length s = 64"
  by (auto simp: hex_decode_hash_def hex_decode_def split: option.splits sum.splits if_splits
      dest: hex_decode_from_length)

text \<open>A collision of the hash function between two entries.\<close>

definition colliding :: "(string \<Rightarrow> hash256) \<Rightarrow> (datetime \<Rightarrow> string) \<Rightarrow> audit_entry \<Rightarrow> audit_entry \<Rightarrow> bool" where
  "colliding sha ts e e' \<longleftrightarrow> hash_input ts e \<noteq> hash_input ts e' \<and> sha (hash_input ts e) = sha (hash_input ts e')"

lemma chain_hash_determines:
  "chain sha ts p es \<Longrightarrow> chain sha ts p es' \<Longrightarrow> length es = length es' \<Longrightarrow>
    chain_hash sha ts p es = chain_hash sha ts p es' \<Longrightarrow>
    map (hash_input ts) es = map (hash_input ts) es' \<or> (\<exists>i < length es. colliding sha ts (es ! i) (es' ! i))"
proof (induction es arbitrary: es' rule: rev_induct)
  case (snoc x xs)
  from snoc.prems(3) obtain ys y where es': "es' = ys @ [y]"
    by (metis append_butlast_last_id length_append_singleton list.size(3) nat.distinct(1))
  then have len: "length xs = length ys" using snoc.prems(3) by simp
  have same: "sha (hash_input ts x) = sha (hash_input ts y)"
    using snoc.prems(4) by (simp add: es' chain_hash_append compute_entry_hash_def)
  show ?case
  proof (cases "hash_input ts x = hash_input ts y")
    case False
    with same len have "colliding sha ts ((xs @ [x]) ! length xs) (es' ! length xs)"
      by (simp add: colliding_def es' nth_append)
    then show ?thesis by auto
  next
    case eq: True
    have px: "previous_hash_bytes x = Some (Inr (chain_hash sha ts p xs))"
      and py: "previous_hash_bytes y = Some (Inr (chain_hash sha ts p ys))"
      using snoc.prems(1,2) by (simp_all add: es' chain_append)
    from px py have "length (ae_previous_hash x) = 64" "length (ae_previous_hash y) = 64"
      by (simp_all add: previous_hash_bytes_def hex_decode_hash_length)
    with eq have "ae_previous_hash x = ae_previous_hash y"
      by (auto simp: hash_input_def append_assoc[symmetric] simp del: append_assoc)
    with px py have "chain_hash sha ts p xs = chain_hash sha ts p ys"
      by (simp add: previous_hash_bytes_def)
    with snoc.IH[of ys] snoc.prems len
    consider "map (hash_input ts) xs = map (hash_input ts) ys"
      | i where "i < length xs" "colliding sha ts (xs ! i) (ys ! i)"
      by (auto simp: es' chain_append)
    then show ?thesis
    proof cases
      case 2
      with len have "colliding sha ts ((xs @ [x]) ! i) (es' ! i)" by (simp add: es' nth_append)
      then have "\<exists>i < length (xs @ [x]). colliding sha ts ((xs @ [x]) ! i) (es' ! i)"
        using 2(1) by (intro exI[of _ i]) simp
      then show ?thesis ..
    qed (simp add: es' eq)
  qed
qed simp

text \<open>C9. Tamper evidence. Two files that both verify, have the same number of entries and end in the same
  hash agree in the hashed text of every entry; otherwise the files themselves hold two entries at the same position
  whose hashed texts differ and hash to the same value.\<close>

theorem tamper_evident:
  assumes "verify sha ts dec file = Inr r" "vr_valid r" "audit_open dec file = Inr lg"
    and "verify sha ts dec file' = Inr r'" "vr_valid r'" "audit_open dec file' = Inr lg'"
    and "length (entries_of dec (file_lines file)) = length (entries_of dec (file_lines file'))"
    and "al_last_hash lg = al_last_hash lg'"
  shows "map (hash_input ts) (entries_of dec (file_lines file))
      = map (hash_input ts) (entries_of dec (file_lines file')) \<or>
    (\<exists>i < length (entries_of dec (file_lines file)).
       let e = entries_of dec (file_lines file) ! i; e' = entries_of dec (file_lines file') ! i in
       hash_input ts e \<noteq> hash_input ts e' \<and> compute_entry_hash sha ts e = compute_entry_hash sha ts e')"
proof -
  have V: "readable dec (file_lines f) \<and> chain sha ts ZERO_HASH (entries_of dec (file_lines f)) \<and>
      al_last_hash l = chain_hash sha ts ZERO_HASH (entries_of dec (file_lines f))"
    if "verify sha ts dec f = Inr q" "vr_valid q" "audit_open dec f = Inr l" for f q l
  proof -
    have rc: "readable dec (file_lines f) \<and> chain sha ts ZERO_HASH (entries_of dec (file_lines f))"
      using that(1,2) verify_lines_valid[of sha ts dec 1 "file_lines f" ZERO_HASH 0 0]
      by (cases f) (auto simp: verify_def file_lines_def readable_def entries_of_def)
    with that(3) scan_entries_chain[of dec "file_lines f" sha ts ZERO_HASH 1] show ?thesis
      by (cases f) (auto simp: audit_open_def read_last_entry_def file_lines_def entries_of_def)
  qed
  from chain_hash_determines[of sha ts ZERO_HASH "entries_of dec (file_lines file)" "entries_of dec (file_lines file')"]
    V[OF assms(1-3)] V[OF assms(4-6)] assms(7,8) show ?thesis
    by (auto simp: colliding_def compute_entry_hash_def Let_def)
qed

text \<open>Two different files that the theorem is about: their only entries differ in where the path ends.\<close>

definition shifted_entry :: audit_entry where
  "shifted_entry = sample_entry\<lparr>ae_path := ''0'', ae_parameters_hash := tl (ae_parameters_hash sample_entry)\<rparr>"

definition two_dec :: "string \<Rightarrow> audit_entry option" where
  "two_dec s = (if s = ''{}'' then Some sample_entry else if s = ''[]'' then Some shifted_entry else None)"

lemma shifted_hash_input: "hash_input ts shifted_entry = hash_input ts sample_entry"
proof -
  have "hex_encode_hash ZERO_HASH = hex_encode_hash (0 # replicate 31 0)" by (simp add: ZERO_HASH_def numeral_eq_Suc)
  then have "ae_parameters_hash sample_entry = CHR ''0'' # tl (ae_parameters_hash sample_entry)" "ae_path sample_entry = []"
    by (simp_all add: sample_entry_def build_def Let_def unhashed_entry_def sample_builder_def new_entry_def
        hex_encode_hash_def hex_encode_byte_def hex_digit_def)
  then show ?thesis by (simp add: hash_input_def shifted_entry_def)
qed

lemma one_line_log:
  assumes "json = ''{}'' \<or> json = ''[]''" and "two_dec json = Some e"
  shows "log_ok sample_sha (\<lambda>_. []) two_dec
      (\<lparr>al_last_hash = compute_entry_hash sample_sha (\<lambda>_. []) sample_entry, al_next_sequence = 2\<rparr>, Some (json @ [CHR 0x0A])) \<and>
    entries_of two_dec (file_lines (Some (json @ [CHR 0x0A]))) = [e]"
proof -
  have json: "utf8_valid json" "\<not> blank json" "terminated (json @ [CHR 0x0A])" "lines (json @ [CHR 0x0A]) = [json]"
    using assms(1) by (auto; code_simp)+
  have e: "e = sample_entry \<or> e = shifted_entry" using assms(2) by (auto simp: two_dec_def split: if_splits)
  have hash: "compute_entry_hash sample_sha (\<lambda>_. []) e = compute_entry_hash sample_sha (\<lambda>_. []) sample_entry"
    using e by (auto simp: compute_entry_hash_def shifted_hash_input)
  have "hash_input (\<lambda>_. []) sample_entry = hash_input (\<lambda>_. []) (unhashed_entry 0 sample_builder)"
    by (simp add: sample_entry_def build_def Let_def hash_input_def)
  then have own: "compute_entry_hash sample_sha (\<lambda>_. []) (unhashed_entry 0 sample_builder) =
      compute_entry_hash sample_sha (\<lambda>_. []) sample_entry" by (simp add: compute_entry_hash_def)
  have sample: "ae_sequence sample_entry = 1" "previous_hash_bytes sample_entry = Some (Inr ZERO_HASH)"
    "entry_hash_bytes sample_entry = Some (Inr (compute_entry_hash sample_sha (\<lambda>_. []) sample_entry))"
    using own by (simp_all add: sample_entry_def build_def Let_def unhashed_entry_def sample_builder_def new_entry_def
        sample_log_def previous_hash_bytes_def entry_hash_bytes_def ZERO_HASH_def compute_entry_hash_def sample_sha_def)
  have "previous_hash_bytes shifted_entry = previous_hash_bytes sample_entry"
    "entry_hash_bytes shifted_entry = entry_hash_bytes sample_entry" "ae_sequence shifted_entry = ae_sequence sample_entry"
    by (simp_all add: shifted_entry_def previous_hash_bytes_def entry_hash_bytes_def)
  with sample e have "ae_sequence e = 1" "previous_hash_bytes e = Some (Inr ZERO_HASH)"
    "entry_hash_bytes e = Some (Inr (compute_entry_hash sample_sha (\<lambda>_. []) sample_entry))" by auto
  with hash json assms(2) show ?thesis
    by (simp add: log_ok_def file_lines_def readable_def entries_of_def)
qed

theorem tamper_evident_witness:
  "entries_of two_dec (file_lines (Some (''{}'' @ [CHR 0x0A]))) \<noteq> entries_of two_dec (file_lines (Some (''[]'' @ [CHR 0x0A]))) \<and>
   map (hash_input (\<lambda>_. [])) (entries_of two_dec (file_lines (Some (''{}'' @ [CHR 0x0A])))) =
   map (hash_input (\<lambda>_. [])) (entries_of two_dec (file_lines (Some (''[]'' @ [CHR 0x0A]))))"
proof -
  let ?a = "Some (''{}'' @ [CHR 0x0A])" and ?b = "Some (''[]'' @ [CHR 0x0A])"
  have a: "two_dec ''{}'' = Some sample_entry" and b: "two_dec ''[]'' = Some shifted_entry" by (simp_all add: two_dec_def)
  from one_line_log[OF _ a] one_line_log[OF _ b]
  have la: "log_ok sample_sha (\<lambda>_. []) two_dec
      (\<lparr>al_last_hash = compute_entry_hash sample_sha (\<lambda>_. []) sample_entry, al_next_sequence = 2\<rparr>, ?a)"
    and lb: "log_ok sample_sha (\<lambda>_. []) two_dec
      (\<lparr>al_last_hash = compute_entry_hash sample_sha (\<lambda>_. []) sample_entry, al_next_sequence = 2\<rparr>, ?b)"
    and es: "entries_of two_dec (file_lines ?a) = [sample_entry]" "entries_of two_dec (file_lines ?b) = [shifted_entry]" by auto
  obtain r r' where "verify sample_sha (\<lambda>_. []) two_dec ?a = Inr r" "vr_valid r"
    "verify sample_sha (\<lambda>_. []) two_dec ?b = Inr r'" "vr_valid r'" using log_ok_verify[OF la] log_ok_verify[OF lb] by blast
  from tamper_evident[OF this(1,2) log_ok_open[OF la] this(3,4) log_ok_open[OF lb]] es
  have "map (hash_input (\<lambda>_. [])) (entries_of two_dec (file_lines ?a)) = map (hash_input (\<lambda>_. [])) (entries_of two_dec (file_lines ?b))"
    by (auto simp: shifted_hash_input)
  moreover have "sample_entry \<noteq> shifted_entry"
  proof
    assume "sample_entry = shifted_entry"
    then have "ae_path sample_entry = ae_path shifted_entry" by simp
    then show False by (simp add: shifted_entry_def sample_entry_def build_def Let_def unhashed_entry_def sample_builder_def new_entry_def)
  qed
  ultimately show ?thesis using es by simp
qed

text \<open>C33. What verification does not detect: the hashed text runs the fields together, so moving the
  end of the path into the parameters hash, or replacing a missing error message by an empty one,
  keeps every hash and the whole chain.\<close>

theorem undetected_field_shift:
  "hash_input ts (e\<lparr>ae_path := p, ae_parameters_hash := q @ h\<rparr>)
     = hash_input ts (e\<lparr>ae_path := p @ q, ae_parameters_hash := h\<rparr>) \<and>
   chain sha ts prev (xs @ e\<lparr>ae_path := p, ae_parameters_hash := q @ h\<rparr> # ys)
     = chain sha ts prev (xs @ e\<lparr>ae_path := p @ q, ae_parameters_hash := h\<rparr> # ys) \<and>
   chain sha ts prev (xs @ e\<lparr>ae_error_message := None\<rparr> # ys)
     = chain sha ts prev (xs @ e\<lparr>ae_error_message := Some []\<rparr> # ys)"
proof -
  have "hash_input ts (e\<lparr>ae_path := p, ae_parameters_hash := q @ h\<rparr>)
     = hash_input ts (e\<lparr>ae_path := p @ q, ae_parameters_hash := h\<rparr>)"
    "hash_input ts (e\<lparr>ae_error_message := None\<rparr>) = hash_input ts (e\<lparr>ae_error_message := Some []\<rparr>)"
    by (simp_all add: hash_input_def)
  then show ?thesis
    by (simp add: chain_append compute_entry_hash_def previous_hash_bytes_def entry_hash_bytes_def)
qed

end
