(* ===== verification/Vault.thy ===== *)
theory Vault
  imports Store CredTypes
begin

text \<open>
  The credential vault (\<open>rockbot-credentials/src/storage.rs\<close>): initialisation and unlocking, and the
  rows it keeps in the store: endpoints, credentials, node keys, vault objects, grants,
  permission rules and the key-value store. The cipher, the key derivation, \<open>age\<close>, the JSON codecs,
  the rendering of a UUID and the database are parameters, collected in \<open>vault_env\<close>; fresh UUIDs,
  nonces, salts and the current time are arguments. An operation that writes twice keeps its first
  write when the second fails.
\<close>

datatype 'e vault_error = VaultLocked | VaultNotInitialized | VaultAlreadyExists | InvalidPassword
  | CredentialNotFound uuid | EndpointNotFound uuid | EncryptionFailed | DecryptionFailed
  | ValidationFailed string | SerializationError | DeserializationError | StoreError 'e
  | InvalidNonceSize nat | VaultInternal | VaultIo | VaultPanic

text \<open>The ways in which a call of the \<open>age\<close> library fails: the text is not base64, the key or identity does not
  parse, the identity does not fit, anything else.\<close>

datatype age_error = AgeBase64 | AgeKey | AgeMismatch | AgeOther

datatype unlock_method = PasswordUnlock string | SshKeyUnlock string string
  | AgeUnlock string string | KeyfileUnlock "string option"

record vault_meta =
  vm_version :: nat
  vm_created_at :: datetime
  vm_unlock :: unlock_method
  vm_verification :: string
  vm_verification_nonce :: string

record ('db, 'k) vault =
  v_meta :: "vault_meta option"
  v_master_key :: "'k option"
  v_store :: 'db

record ('db, 'tx, 'v, 'e, 'k) vault_env =
  ve_rb :: "('db, 'tx, 'v, 'e) redb"
  ve_uuid :: "uuid \<Rightarrow> string"
  ve_endpoint :: "(endpoint \<Rightarrow> 'v option) \<times> ('v \<Rightarrow> endpoint option)"
  ve_credential :: "(credential \<Rightarrow> 'v option) \<times> ('v \<Rightarrow> credential option)"
  ve_node_key :: "(registered_node_key \<Rightarrow> 'v option) \<times> ('v \<Rightarrow> registered_node_key option)"
  ve_object :: "(vault_object_record \<Rightarrow> 'v option) \<times> ('v \<Rightarrow> vault_object_record option)"
  ve_grant :: "(vault_grant_record \<Rightarrow> 'v option) \<times> ('v \<Rightarrow> vault_grant_record option)"
  ve_permission :: "(permission \<Rightarrow> 'v option) \<times> ('v \<Rightarrow> permission option)"
  ve_encrypt :: "'k \<Rightarrow> u8 list \<Rightarrow> u8 list \<Rightarrow> u8 list option"
  ve_decrypt :: "'k \<Rightarrow> u8 list \<Rightarrow> u8 list \<Rightarrow> u8 list option"
  ve_derive :: "string \<Rightarrow> u8 list \<Rightarrow> 'k option"
  ve_key_of_bytes :: "u8 list \<Rightarrow> 'k option"
  ve_bytes_of_key :: "'k \<Rightarrow> u8 list"
  ve_age_encrypt :: "string \<Rightarrow> u8 list \<Rightarrow> age_error + string"
  ve_age_decrypt :: "string \<Rightarrow> string \<Rightarrow> age_error + u8 list"

definition NONCE_SIZE :: nat where "NONCE_SIZE = 12"
definition VAULT_VERSION :: nat where "VAULT_VERSION = 1"

definition VERIFICATION_PLAINTEXT :: "u8 list" where
  "VERIFICATION_PLAINTEXT = map of_char ''rockbot-vault-v1''"

definition verification_matches :: "u8 list \<Rightarrow> bool" where
  "verification_matches candidate = (candidate = VERIFICATION_PLAINTEXT)"

subsection \<open>Initialisation and unlocking\<close>

definition from_hex :: "(hex_error + u8 list) option \<Rightarrow> 'e vault_error + u8 list" where
  "from_hex r = (case r of None \<Rightarrow> Inl VaultPanic | Some (Inl _) \<Rightarrow> Inl DeserializationError
     | Some (Inr bytes) \<Rightarrow> Inr bytes)"

definition map_err :: "('e \<Rightarrow> 'f) \<Rightarrow> 'e + 'a \<Rightarrow> 'f + 'a" where
  "map_err f r = (case r of Inl e \<Rightarrow> Inl (f e) | Inr x \<Rightarrow> Inr x)"

lemma map_err_Inr [simp]: "map_err f r = Inr x \<longleftrightarrow> r = Inr x"
  by (auto simp: map_err_def split: sum.splits)

definition age_failed :: "age_error \<Rightarrow> 'e vault_error" where
  "age_failed e = (case e of AgeBase64 \<Rightarrow> DeserializationError | AgeKey \<Rightarrow> ValidationFailed ''Invalid Age key''
     | AgeMismatch \<Rightarrow> InvalidPassword | AgeOther \<Rightarrow> VaultInternal)"

definition encrypt_for_age_recipient ::
  "('db, 'tx, 'v, 'e, 'k) vault_env \<Rightarrow> string \<Rightarrow> u8 list \<Rightarrow> 'e vault_error + string" where
  "encrypt_for_age_recipient env public_key bytes = map_err age_failed (ve_age_encrypt env public_key bytes)"

definition decrypt_with_age_identity ::
  "('db, 'tx, 'v, 'e, 'k) vault_env \<Rightarrow> string \<Rightarrow> string \<Rightarrow> 'e vault_error + u8 list" where
  "decrypt_with_age_identity env ciphertext identity = map_err age_failed (ve_age_decrypt env ciphertext identity)"

definition wrap_key_with_age ::
  "('db, 'tx, 'v, 'e, 'k) vault_env \<Rightarrow> u8 list \<Rightarrow> string \<Rightarrow> 'e vault_error + string" where
  "wrap_key_with_age env key_bytes public_key = map_err age_failed (ve_age_encrypt env public_key key_bytes)"

definition unwrap_key_with_age ::
  "('db, 'tx, 'v, 'e, 'k) vault_env \<Rightarrow> string \<Rightarrow> string \<Rightarrow> 'e vault_error + u8 list" where
  "unwrap_key_with_age env wrapped identity =
     sbind (map_err age_failed (ve_age_decrypt env wrapped identity)) (\<lambda>bytes.
     if length bytes \<noteq> 32 then Inl VaultInternal else Inr bytes)"

text \<open>What initialisation finds outside: whether \<open>meta.json\<close> already exists in the directory, and how creating the
  directory, opening the store and writing \<open>meta.json\<close> end.\<close>

record ('db, 'e) init_io =
  io_present :: bool
  io_dir :: "'e vault_error option"
  io_store :: "'e vault_error + 'db"
  io_save :: "'e vault_error option"

definition unless :: "'e option \<Rightarrow> 'e + unit" where
  "unless e = (case e of None \<Rightarrow> Inr () | Some x \<Rightarrow> Inl x)"

lemma unless_Inr [simp]: "unless e = Inr u \<longleftrightarrow> e = None" "unless None = Inr ()"
  by (auto simp: unless_def split: option.splits)

definition finalize_init ::
  "('db, 'tx, 'v, 'e, 'k) vault_env \<Rightarrow> ('db, 'e) init_io \<Rightarrow> datetime \<Rightarrow> u8 list \<Rightarrow> 'k \<Rightarrow> unlock_method \<Rightarrow>
   'e vault_error + ('db, 'k) vault" where
  "finalize_init env io now nonce key unlock =
     sbind (ok_or EncryptionFailed (ve_encrypt env key nonce VERIFICATION_PLAINTEXT)) (\<lambda>ct.
     sbind (io_store io) (\<lambda>db.
     sbind (unless (io_save io)) (\<lambda>_.
     Inr \<lparr>v_meta = Some \<lparr>vm_version = VAULT_VERSION, vm_created_at = now, vm_unlock = unlock,
            vm_verification = hex_encode ct, vm_verification_nonce = hex_encode nonce\<rparr>,
          v_master_key = Some key, v_store = db\<rparr>)))"

definition init_with_password ::
  "('db, 'tx, 'v, 'e, 'k) vault_env \<Rightarrow> ('db, 'e) init_io \<Rightarrow> datetime \<Rightarrow> u8 list \<Rightarrow> u8 list \<Rightarrow> string \<Rightarrow>
   'e vault_error + ('db, 'k) vault" where
  "init_with_password env io now salt nonce password =
     (if io_present io then Inl VaultAlreadyExists
      else sbind (unless (io_dir io)) (\<lambda>_.
        sbind (ok_or VaultInternal (ve_derive env password salt)) (\<lambda>key.
        finalize_init env io now nonce key (PasswordUnlock (hex_encode salt)))))"

text \<open>The content of the key file is an argument, \<open>None\<close> when it cannot be read.\<close>

definition init_with_keyfile ::
  "('db, 'tx, 'v, 'e, 'k) vault_env \<Rightarrow> ('db, 'e) init_io \<Rightarrow> datetime \<Rightarrow> u8 list \<Rightarrow> u8 list option \<Rightarrow> string option \<Rightarrow>
   'e vault_error + ('db, 'k) vault" where
  "init_with_keyfile env io now nonce content hint =
     (if io_present io then Inl VaultAlreadyExists
      else sbind (ok_or VaultIo content) (\<lambda>key_bytes.
        if length key_bytes \<noteq> 32 then Inl (ValidationFailed ''keyfile must be exactly 32 bytes'')
        else sbind (unless (io_dir io)) (\<lambda>_.
          sbind (ok_or VaultInternal (ve_key_of_bytes env key_bytes)) (\<lambda>key.
          finalize_init env io now nonce key (KeyfileUnlock hint)))))"

definition init_with_age ::
  "('db, 'tx, 'v, 'e, 'k) vault_env \<Rightarrow> ('db, 'e) init_io \<Rightarrow> datetime \<Rightarrow> 'k \<Rightarrow> u8 list \<Rightarrow> string \<Rightarrow>
   'e vault_error + ('db, 'k) vault" where
  "init_with_age env io now key nonce public_key =
     (if io_present io then Inl VaultAlreadyExists
      else sbind (unless (io_dir io)) (\<lambda>_.
        sbind (wrap_key_with_age env (ve_bytes_of_key env key) public_key)
        (\<lambda>wrapped. finalize_init env io now nonce key (AgeUnlock public_key wrapped))))"

definition verify_and_set_master_key ::
  "('db, 'tx, 'v, 'e, 'k) vault_env \<Rightarrow> 'k \<Rightarrow> ('db, 'k) vault \<Rightarrow> 'e vault_error + ('db, 'k) vault" where
  "verify_and_set_master_key env key v =
     sbind (ok_or VaultNotInitialized (v_meta v)) (\<lambda>meta.
     sbind (from_hex (hex_decode (vm_verification meta))) (\<lambda>ct.
     sbind (from_hex (hex_decode (vm_verification_nonce meta))) (\<lambda>nonce.
     if length nonce \<noteq> NONCE_SIZE then Inl DeserializationError
     else sbind (ok_or InvalidPassword (ve_decrypt env key nonce ct)) (\<lambda>plain.
       if \<not> verification_matches plain then Inl InvalidPassword
       else Inr (v\<lparr>v_master_key := Some key\<rparr>)))))"

definition unlock_with_password ::
  "('db, 'tx, 'v, 'e, 'k) vault_env \<Rightarrow> string \<Rightarrow> ('db, 'k) vault \<Rightarrow> 'e vault_error + ('db, 'k) vault" where
  "unlock_with_password env password v =
     sbind (ok_or VaultNotInitialized (v_meta v)) (\<lambda>meta.
     sbind (case vm_unlock meta of
              PasswordUnlock salt \<Rightarrow> from_hex (hex_decode salt)
            | _ \<Rightarrow> Inl (ValidationFailed ''vault was not initialized with password-based encryption'')) (\<lambda>salt.
     sbind (ok_or VaultInternal (ve_derive env password salt)) (\<lambda>key.
     verify_and_set_master_key env key v)))"

definition unlock_with_keyfile ::
  "('db, 'tx, 'v, 'e, 'k) vault_env \<Rightarrow> u8 list option \<Rightarrow> ('db, 'k) vault \<Rightarrow> 'e vault_error + ('db, 'k) vault" where
  "unlock_with_keyfile env content v =
     sbind (ok_or VaultNotInitialized (v_meta v)) (\<lambda>meta.
     sbind (case vm_unlock meta of KeyfileUnlock _ \<Rightarrow> Inr ()
            | _ \<Rightarrow> Inl (ValidationFailed ''vault was not initialized with keyfile-based encryption'')) (\<lambda>_.
     sbind (ok_or VaultIo content) (\<lambda>key_bytes.
     if length key_bytes \<noteq> 32 then Inl (ValidationFailed ''keyfile must be exactly 32 bytes'')
     else sbind (ok_or VaultInternal (ve_key_of_bytes env key_bytes)) (\<lambda>key.
       verify_and_set_master_key env key v))))"

definition unlock_with_age ::
  "('db, 'tx, 'v, 'e, 'k) vault_env \<Rightarrow> string \<Rightarrow> ('db, 'k) vault \<Rightarrow> 'e vault_error + ('db, 'k) vault" where
  "unlock_with_age env identity v =
     sbind (ok_or VaultNotInitialized (v_meta v)) (\<lambda>meta.
     sbind (case vm_unlock meta of AgeUnlock _ wrapped \<Rightarrow> Inr wrapped
            | _ \<Rightarrow> Inl (ValidationFailed ''vault was not initialized with Age encryption'')) (\<lambda>wrapped.
     sbind (unwrap_key_with_age env wrapped identity) (\<lambda>key_bytes.
     sbind (ok_or VaultInternal (ve_key_of_bytes env key_bytes)) (\<lambda>key.
     verify_and_set_master_key env key v))))"

text \<open>Wrapping with an SSH key is disabled: unwrapping always fails.\<close>

definition unlock_with_ssh ::
  "('db, 'k) vault \<Rightarrow> 'e vault_error + ('db, 'k) vault" where
  "unlock_with_ssh v =
     sbind (ok_or VaultNotInitialized (v_meta v)) (\<lambda>meta.
     case vm_unlock meta of
       SshKeyUnlock _ _ \<Rightarrow> Inl (ValidationFailed ''SSH-key vault wrapping is disabled'')
     | _ \<Rightarrow> Inl (ValidationFailed ''vault was not initialized with SSH key encryption''))"

definition vault_unlock ::
  "('db, 'tx, 'v, 'e, 'k) vault_env \<Rightarrow> 'k \<Rightarrow> ('db, 'k) vault \<Rightarrow> 'e vault_error + ('db, 'k) vault" where
  "vault_unlock env key v = verify_and_set_master_key env key v"

definition vault_lock :: "('db, 'k) vault \<Rightarrow> ('db, 'k) vault" where
  "vault_lock v = v\<lparr>v_master_key := None\<rparr>"

definition is_unlocked :: "('db, 'k) vault \<Rightarrow> bool" where
  "is_unlocked v = (v_master_key v \<noteq> None)"

definition vault_unlock_method :: "('db, 'k) vault \<Rightarrow> unlock_method option" where
  "vault_unlock_method v = map_option vm_unlock (v_meta v)"

subsection \<open>Rows\<close>

definition get_row ::
  "('db, 'tx, 'v, 'e, 'k) vault_env \<Rightarrow> ('v \<Rightarrow> 'a option) \<Rightarrow> table \<Rightarrow> string \<Rightarrow>
   ('db, 'k) vault \<Rightarrow> 'e vault_error + 'a option" where
  "get_row env dec t k v =
     sbind (map_err StoreError (store_get (ve_rb env) t k (v_store v))) (\<lambda>bytes. case bytes of
         Some b \<Rightarrow> sbind (ok_or DeserializationError (dec b)) (\<lambda>x. Inr (Some x))
       | None \<Rightarrow> Inr None)"

definition put_row ::
  "('db, 'tx, 'v, 'e, 'k) vault_env \<Rightarrow> ('a \<Rightarrow> 'v option) \<Rightarrow> table \<Rightarrow> string \<Rightarrow> 'a \<Rightarrow>
   (('db, 'k) vault, 'e vault_error, unit) sx" where
  "put_row env enc t k x v =
     (case enc x of
        None \<Rightarrow> (Inl SerializationError, v)
      | Some json \<Rightarrow> (case store_put (ve_rb env) t k json (v_store v) of
            Inl e \<Rightarrow> (Inl (StoreError e), v)
          | Inr db \<Rightarrow> (Inr (), v\<lparr>v_store := db\<rparr>)))"

definition delete_row ::
  "('db, 'tx, 'v, 'e, 'k) vault_env \<Rightarrow> table \<Rightarrow> string \<Rightarrow> (('db, 'k) vault, 'e vault_error, bool) sx" where
  "delete_row env t k v =
     (case store_delete (ve_rb env) t k (v_store v) of
        Inl e \<Rightarrow> (Inl (StoreError e), v)
      | Inr (db, existed) \<Rightarrow> (Inr existed, v\<lparr>v_store := db\<rparr>))"

definition list_rows ::
  "('db, 'tx, 'v, 'e, 'k) vault_env \<Rightarrow> ('v \<Rightarrow> 'a option) \<Rightarrow> table \<Rightarrow>
   ('db, 'k) vault \<Rightarrow> 'e vault_error + 'a list" where
  "list_rows env dec t v =
     sbind (map_err StoreError (store_list (ve_rb env) t (v_store v)))
       (collect (\<lambda>(_, bytes). ok_or DeserializationError (dec bytes)))"

definition or_default :: "'e + 'a list \<Rightarrow> 'a list" where
  "or_default r = (case r of Inl _ \<Rightarrow> [] | Inr xs \<Rightarrow> xs)"

definition store_get_endpoint where
  "store_get_endpoint env i = get_row env (snd (ve_endpoint env)) ENDPOINTS (ve_uuid env i)"
definition store_put_endpoint where
  "store_put_endpoint env e = put_row env (fst (ve_endpoint env)) ENDPOINTS (ve_uuid env (ep_id e)) e"
definition store_get_credential where
  "store_get_credential env i = get_row env (snd (ve_credential env)) CREDENTIALS (ve_uuid env i)"
definition store_put_credential where
  "store_put_credential env c = put_row env (fst (ve_credential env)) CREDENTIALS (ve_uuid env (cr_id c)) c"
definition store_list_endpoints where
  "store_list_endpoints env = list_rows env (snd (ve_endpoint env)) ENDPOINTS"
definition store_list_credentials where
  "store_list_credentials env = list_rows env (snd (ve_credential env)) CREDENTIALS"
definition store_get_node_key where
  "store_get_node_key env n = get_row env (snd (ve_node_key env)) NODE_KEYS n"
definition store_put_node_key where
  "store_put_node_key env n = put_row env (fst (ve_node_key env)) NODE_KEYS (nk_node_id n) n"
definition store_list_node_keys where
  "store_list_node_keys env = list_rows env (snd (ve_node_key env)) NODE_KEYS"
definition store_get_vault_object where
  "store_get_vault_object env i = get_row env (snd (ve_object env)) VAULT_OBJECTS (ve_uuid env i)"
definition store_put_vault_object where
  "store_put_vault_object env obj = put_row env (fst (ve_object env)) VAULT_OBJECTS (ve_uuid env (vo_id obj)) obj"
definition store_list_vault_objects where
  "store_list_vault_objects env = list_rows env (snd (ve_object env)) VAULT_OBJECTS"

definition grant_table :: "vault_grant_kind \<Rightarrow> table" where
  "grant_table kind = (case kind of Provider \<Rightarrow> VAULT_PROVIDER_GRANTS | Node \<Rightarrow> VAULT_NODE_GRANTS)"

definition grant_row_key :: "('db, 'tx, 'v, 'e, 'k) vault_env \<Rightarrow> uuid \<Rightarrow> string \<Rightarrow> string" where
  "grant_row_key env object_id recipient = ve_uuid env object_id @ [CHR 0x00] @ recipient"

definition store_get_grant where
  "store_get_grant env i recipient kind =
  get_row env (snd (ve_grant env)) (grant_table kind) (grant_row_key env i recipient)"
definition store_put_grant where
  "store_put_grant env g =
  put_row env (fst (ve_grant env)) (grant_table (vg_grant_kind g))
    (grant_row_key env (vg_object_id g) (vg_recipient_node_id g)) g"
definition store_list_grants where
  "store_list_grants env kind = list_rows env (snd (ve_grant env)) (grant_table kind)"

subsection \<open>Endpoints and credentials\<close>

definition create_endpoint ::
  "('db, 'tx, 'v, 'e, 'k) vault_env \<Rightarrow> uuid \<Rightarrow> datetime \<Rightarrow> string \<Rightarrow> endpoint_type \<Rightarrow> string \<Rightarrow>
   (('db, 'k) vault, 'e vault_error, endpoint) sx" where
  "create_endpoint env i now name ty url =
     (let e = \<lparr>ep_id = i, ep_name = name, ep_endpoint_type = ty, ep_base_url = url,
               ep_credential_id = 0, ep_created_at = now, ep_updated_at = now\<rparr> in
      sx_bind (store_put_endpoint env e) (\<lambda>_. sx_return e))"

definition get_endpoint ::
  "('db, 'tx, 'v, 'e, 'k) vault_env \<Rightarrow> uuid \<Rightarrow> ('db, 'k) vault \<Rightarrow> 'e vault_error + endpoint" where
  "get_endpoint env i v = sbind (store_get_endpoint env i v) (ok_or (EndpointNotFound i))"

definition get_endpoint_by_name ::
  "('db, 'tx, 'v, 'e, 'k) vault_env \<Rightarrow> string \<Rightarrow> ('db, 'k) vault \<Rightarrow> endpoint option" where
  "get_endpoint_by_name env name v = (case store_list_endpoints env v of
       Inl _ \<Rightarrow> None | Inr es \<Rightarrow> List.find (\<lambda>e. ep_name e = name) es)"

definition list_endpoints :: "('db, 'tx, 'v, 'e, 'k) vault_env \<Rightarrow> ('db, 'k) vault \<Rightarrow> endpoint list" where
  "list_endpoints env v = or_default (store_list_endpoints env v)"

definition update_endpoint ::
  "('db, 'tx, 'v, 'e, 'k) vault_env \<Rightarrow> endpoint \<Rightarrow> (('db, 'k) vault, 'e vault_error, unit) sx" where
  "update_endpoint env e =
     sx_bind (sx_ask (\<lambda>v. sbind (store_get_endpoint env (ep_id e) v) (ok_or (EndpointNotFound (ep_id e)))))
       (\<lambda>_. store_put_endpoint env e)"

definition delete_endpoint ::
  "('db, 'tx, 'v, 'e, 'k) vault_env \<Rightarrow> uuid \<Rightarrow> (('db, 'k) vault, 'e vault_error, unit) sx" where
  "delete_endpoint env i =
     sx_bind (sx_ask (\<lambda>v. sbind (store_get_endpoint env i v) (ok_or (EndpointNotFound i)))) (\<lambda>e.
     sx_bind (if ep_credential_id e \<noteq> 0
              then delete_row env CREDENTIALS (ve_uuid env (ep_credential_id e))
              else sx_return False) (\<lambda>_.
     sx_bind (delete_row env ENDPOINTS (ve_uuid env i)) (\<lambda>_.
     sx_return ())))"

text \<open>\<open>if let Ok(Some(endpoint)) = ...\<close>: a missing or unreadable endpoint is passed over.\<close>

definition update_if_readable ::
  "('db, 'tx, 'v, 'e, 'k) vault_env \<Rightarrow> uuid \<Rightarrow> (endpoint \<Rightarrow> endpoint) \<Rightarrow>
   (('db, 'k) vault, 'e vault_error, unit) sx" where
  "update_if_readable env i f v =
     (case store_get_endpoint env i v of
        Inr (Some e) \<Rightarrow> store_put_endpoint env (f e) v
      | _ \<Rightarrow> (Inr (), v))"

definition store_credential ::
  "('db, 'tx, 'v, 'e, 'k) vault_env \<Rightarrow> uuid \<Rightarrow> datetime \<Rightarrow> u8 list \<Rightarrow>
   uuid \<Rightarrow> credential_type \<Rightarrow> u8 list \<Rightarrow> (('db, 'k) vault, 'e vault_error, credential) sx" where
  "store_credential env cid now nonce endpoint_id ty secret =
     sx_bind (sx_ask (\<lambda>v. ok_or VaultLocked (v_master_key v))) (\<lambda>key.
     sx_bind (sx_ask (\<lambda>_. ok_or EncryptionFailed (ve_encrypt env key nonce secret))) (\<lambda>ct.
     let c = \<lparr>cr_id = cid, cr_endpoint_id = endpoint_id, cr_credential_type = ty,
              cr_encrypted_data = hex_encode ct, cr_nonce = hex_encode nonce,
              cr_created_at = now, cr_rotated_at = None\<rparr> in
     sx_bind (update_if_readable env endpoint_id
                (\<lambda>e. e\<lparr>ep_credential_id := cid, ep_updated_at := now\<rparr>)) (\<lambda>_.
     sx_bind (store_put_credential env c) (\<lambda>_.
     sx_return c))))"

definition get_credential ::
  "('db, 'tx, 'v, 'e, 'k) vault_env \<Rightarrow> uuid \<Rightarrow> ('db, 'k) vault \<Rightarrow> 'e vault_error + credential" where
  "get_credential env i v = sbind (store_get_credential env i v) (ok_or (CredentialNotFound i))"

definition get_credential_for_endpoint ::
  "('db, 'tx, 'v, 'e, 'k) vault_env \<Rightarrow> uuid \<Rightarrow> ('db, 'k) vault \<Rightarrow> 'e vault_error + credential" where
  "get_credential_for_endpoint env i v =
     sbind (get_endpoint env i v) (\<lambda>e. get_credential env (ep_credential_id e) v)"

definition decrypt_credential ::
  "('db, 'tx, 'v, 'e, 'k) vault_env \<Rightarrow> uuid \<Rightarrow> ('db, 'k) vault \<Rightarrow> 'e vault_error + u8 list" where
  "decrypt_credential env i v =
     sbind (ok_or VaultLocked (v_master_key v)) (\<lambda>key.
     sbind (get_credential env i v) (\<lambda>c.
     sbind (from_hex (encrypted_data_bytes c)) (\<lambda>ct.
     sbind (from_hex (nonce_bytes c)) (\<lambda>nonce.
     if length nonce \<noteq> NONCE_SIZE then Inl (InvalidNonceSize (length nonce))
     else ok_or DecryptionFailed (ve_decrypt env key nonce ct)))))"

definition decrypt_credential_for_endpoint ::
  "('db, 'tx, 'v, 'e, 'k) vault_env \<Rightarrow> uuid \<Rightarrow> ('db, 'k) vault \<Rightarrow> 'e vault_error + u8 list" where
  "decrypt_credential_for_endpoint env i v =
     sbind (get_endpoint env i v) (\<lambda>e. decrypt_credential env (ep_credential_id e) v)"

definition rotate_credential ::
  "('db, 'tx, 'v, 'e, 'k) vault_env \<Rightarrow> datetime \<Rightarrow> u8 list \<Rightarrow> uuid \<Rightarrow> u8 list \<Rightarrow>
   (('db, 'k) vault, 'e vault_error, unit) sx" where
  "rotate_credential env now nonce i secret =
     sx_bind (sx_ask (\<lambda>v. ok_or VaultLocked (v_master_key v))) (\<lambda>key.
     sx_bind (sx_ask (get_credential env i)) (\<lambda>c.
     sx_bind (sx_ask (\<lambda>_. ok_or EncryptionFailed (ve_encrypt env key nonce secret))) (\<lambda>ct.
     store_put_credential env
       (c\<lparr>cr_encrypted_data := hex_encode ct, cr_nonce := hex_encode nonce, cr_rotated_at := Some now\<rparr>))))"

definition delete_credential ::
  "('db, 'tx, 'v, 'e, 'k) vault_env \<Rightarrow> datetime \<Rightarrow> uuid \<Rightarrow> (('db, 'k) vault, 'e vault_error, unit) sx" where
  "delete_credential env now i =
     sx_bind (sx_ask (\<lambda>v. sbind (store_get_credential env i v) (ok_or (CredentialNotFound i)))) (\<lambda>c.
     sx_bind (update_if_readable env (cr_endpoint_id c)
                (\<lambda>e. e\<lparr>ep_credential_id := 0, ep_updated_at := now\<rparr>)) (\<lambda>_.
     sx_bind (delete_row env CREDENTIALS (ve_uuid env i)) (\<lambda>_.
     sx_return ())))"

definition list_credentials :: "('db, 'tx, 'v, 'e, 'k) vault_env \<Rightarrow> ('db, 'k) vault \<Rightarrow> credential list" where
  "list_credentials env v = or_default (store_list_credentials env v)"

subsection \<open>The distributed vault\<close>

definition register_node_key ::
  "('db, 'tx, 'v, 'e, 'k) vault_env \<Rightarrow> registered_node_key \<Rightarrow> (('db, 'k) vault, 'e vault_error, unit) sx" where
  "register_node_key env node = store_put_node_key env node"

definition get_registered_node_key ::
  "('db, 'tx, 'v, 'e, 'k) vault_env \<Rightarrow> string \<Rightarrow> ('db, 'k) vault \<Rightarrow> 'e vault_error + registered_node_key" where
  "get_registered_node_key env n v =
     sbind (store_get_node_key env n v) (ok_or (ValidationFailed ''node is not registered''))"

definition list_registered_node_keys ::
  "('db, 'tx, 'v, 'e, 'k) vault_env \<Rightarrow> ('db, 'k) vault \<Rightarrow> registered_node_key list" where
  "list_registered_node_keys env v = or_default (store_list_node_keys env v)"

definition create_vault_object ::
  "('db, 'tx, 'v, 'e, 'k) vault_env \<Rightarrow> uuid \<Rightarrow> datetime \<Rightarrow> string \<Rightarrow> string \<Rightarrow> string option \<Rightarrow> string option \<Rightarrow>
   (('db, 'k) vault, 'e vault_error, vault_object_record) sx" where
  "create_vault_object env i now ns name descr creator =
     (let obj = \<lparr>vo_id = i, vo_namespace = ns, vo_name = name, vo_description = descr,
                 vo_created_by = creator, vo_created_at = now, vo_updated_at = now, vo_version = 1\<rparr> in
      sx_bind (store_put_vault_object env obj) (\<lambda>_. sx_return obj))"

definition list_vault_objects ::
  "('db, 'tx, 'v, 'e, 'k) vault_env \<Rightarrow> ('db, 'k) vault \<Rightarrow> vault_object_record list" where
  "list_vault_objects env v = or_default (store_list_vault_objects env v)"

definition issue_vault_grant ::
  "('db, 'tx, 'v, 'e, 'k) vault_env \<Rightarrow> datetime \<Rightarrow> uuid \<Rightarrow> string \<Rightarrow> string option \<Rightarrow> vault_grant_kind \<Rightarrow>
   u8 list \<Rightarrow> (('db, 'k) vault, 'e vault_error, vault_grant_record) sx" where
  "issue_vault_grant env now i recipient issuer kind secret =
     sx_bind (sx_ask (\<lambda>v. sbind (store_get_vault_object env i v)
                (ok_or (ValidationFailed ''vault object not found'')))) (\<lambda>obj.
     sx_bind (sx_ask (get_registered_node_key env recipient)) (\<lambda>node.
     sx_bind (sx_ask (\<lambda>_. encrypt_for_age_recipient env (nk_vault_public_key node) secret)) (\<lambda>ciphertext.
     let g = \<lparr>vg_object_id = i, vg_recipient_node_id = recipient, vg_issued_by = issuer,
              vg_grant_kind = kind, vg_algorithm = ''age_x25519'',
              vg_key_id = Some (nk_vault_public_key node), vg_ciphertext = ciphertext,
              vg_version = vo_version obj, vg_created_at = now\<rparr> in
     sx_bind (store_put_grant env g) (\<lambda>_. sx_return g))))"

definition get_vault_grant ::
  "('db, 'tx, 'v, 'e, 'k) vault_env \<Rightarrow> uuid \<Rightarrow> string \<Rightarrow> vault_grant_kind \<Rightarrow>
   ('db, 'k) vault \<Rightarrow> 'e vault_error + vault_grant_record" where
  "get_vault_grant env i recipient kind v =
     sbind (store_get_grant env i recipient kind v) (ok_or (ValidationFailed ''vault grant not found''))"

definition list_vault_grants ::
  "('db, 'tx, 'v, 'e, 'k) vault_env \<Rightarrow> vault_grant_kind \<Rightarrow> ('db, 'k) vault \<Rightarrow> vault_grant_record list" where
  "list_vault_grants env kind v = or_default (store_list_grants env kind v)"

definition decrypt_vault_grant ::
  "('db, 'tx, 'v, 'e, 'k) vault_env \<Rightarrow> uuid \<Rightarrow> string \<Rightarrow> vault_grant_kind \<Rightarrow> string \<Rightarrow>
   ('db, 'k) vault \<Rightarrow> 'e vault_error + u8 list" where
  "decrypt_vault_grant env i recipient kind identity v =
     sbind (get_vault_grant env i recipient kind v) (\<lambda>g.
     decrypt_with_age_identity env (vg_ciphertext g) identity)"

subsection \<open>Key-value data and permission rows\<close>

definition vault_kv_put ::
  "('db, 'tx, 'v, 'e, 'k) vault_env \<Rightarrow> string \<Rightarrow> string \<Rightarrow> 'v \<Rightarrow> (('db, 'k) vault, 'e vault_error, unit) sx" where
  "vault_kv_put env ns key x v = (case kv_put (ve_rb env) ns key x (v_store v) of
       Inl e \<Rightarrow> (Inl (StoreError e), v) | Inr db \<Rightarrow> (Inr (), v\<lparr>v_store := db\<rparr>))"

definition vault_kv_get ::
  "('db, 'tx, 'v, 'e, 'k) vault_env \<Rightarrow> string \<Rightarrow> string \<Rightarrow> ('db, 'k) vault \<Rightarrow> 'e vault_error + 'v option" where
  "vault_kv_get env ns key v = map_err StoreError (kv_get (ve_rb env) ns key (v_store v))"

definition vault_kv_delete ::
  "('db, 'tx, 'v, 'e, 'k) vault_env \<Rightarrow> string \<Rightarrow> string \<Rightarrow> (('db, 'k) vault, 'e vault_error, unit) sx" where
  "vault_kv_delete env ns key v = (case kv_delete (ve_rb env) ns key (v_store v) of
       Inl e \<Rightarrow> (Inl (StoreError e), v) | Inr (db, _) \<Rightarrow> (Inr (), v\<lparr>v_store := db\<rparr>))"

definition vault_kv_list ::
  "('db, 'tx, 'v, 'e, 'k) vault_env \<Rightarrow> string \<Rightarrow> ('db, 'k) vault \<Rightarrow> string list" where
  "vault_kv_list env ns v = map fst (or_default (kv_list (ve_rb env) ns (v_store v)))"

definition store_permission ::
  "('db, 'tx, 'v, 'e, 'k) vault_env \<Rightarrow> permission \<Rightarrow> (('db, 'k) vault, 'e vault_error, unit) sx" where
  "store_permission env p = put_row env (fst (ve_permission env)) PERMISSIONS (ve_uuid env (pm_id p)) p"

definition delete_permission ::
  "('db, 'tx, 'v, 'e, 'k) vault_env \<Rightarrow> uuid \<Rightarrow> (('db, 'k) vault, 'e vault_error, bool) sx" where
  "delete_permission env i = delete_row env PERMISSIONS (ve_uuid env i)"

definition list_stored_permissions ::
  "('db, 'tx, 'v, 'e, 'k) vault_env \<Rightarrow> ('db, 'k) vault \<Rightarrow> permission list" where
  "list_stored_permissions env v =
     List.map_filter (\<lambda>(_, bytes). snd (ve_permission env) bytes)
       (or_default (store_list (ve_rb env) PERMISSIONS (v_store v)))"

subsection \<open>What the vault relies on\<close>

definition codec_ok :: "('a \<Rightarrow> 'v option) \<times> ('v \<Rightarrow> 'a option) \<Rightarrow> bool" where
  "codec_ok c \<longleftrightarrow> (\<forall>x b. fst c x = Some b \<longrightarrow> snd c b = Some x)"

text \<open>The database obeys its laws, every codec reads back what it wrote, a UUID is rendered
  injectively and without a zero byte, and the cipher inverts itself.\<close>

definition env_ok ::
  "('db, 'tx, 'v, 'e, 'k) vault_env \<Rightarrow> ('db \<Rightarrow> 'v contents) \<Rightarrow> ('tx \<Rightarrow> 'v contents) \<Rightarrow> bool" where
  "env_ok env dbv txv \<longleftrightarrow>
     redb_laws (ve_rb env) dbv txv \<and>
     codec_ok (ve_endpoint env) \<and> codec_ok (ve_credential env) \<and> codec_ok (ve_node_key env) \<and>
     codec_ok (ve_object env) \<and> codec_ok (ve_grant env) \<and> codec_ok (ve_permission env) \<and>
     inj (ve_uuid env) \<and> (\<forall>i. CHR 0x00 \<notin> set (ve_uuid env i)) \<and>
     (\<forall>k n x ct. ve_encrypt env k n x = Some ct \<longrightarrow> ve_decrypt env k n ct = Some x)"

text \<open>A result that is the given value unless the database failed.\<close>

definition unless_store :: "'e vault_error + 'a \<Rightarrow> 'a \<Rightarrow> bool" where
  "unless_store r x \<longleftrightarrow> r = Inr x \<or> (\<exists>e. r = Inl (StoreError e))"

lemma unless_store_Inr [simp]: "unless_store (Inr y) x \<longleftrightarrow> y = x"
  by (auto simp: unless_store_def)

lemma unless_store_bind:
  "unless_store m y \<Longrightarrow> unless_store (f y) x \<Longrightarrow> unless_store (sbind m f) x"
  by (auto simp: unless_store_def)

lemma put_row_cases:
  assumes "put_row env enc t k x v = (Inr u, v')"
  obtains b db where "enc x = Some b" "store_put (ve_rb env) t k b (v_store v) = Inr db"
    "v' = v\<lparr>v_store := db\<rparr>"
  using assms by (auto simp: put_row_def split: option.splits sum.splits)

lemma put_row_ex: "put_row env enc t k x v = (Inr u, v') \<Longrightarrow>
    \<exists>b db. enc x = Some b \<and> store_put (ve_rb env) t k b (v_store v) = Inr db \<and> v' = v\<lparr>v_store := db\<rparr>"
  by (elim put_row_cases) auto

text \<open>The row a table holds, seen through the contents of the database.\<close>

definition has_row ::
  "('db \<Rightarrow> 'v contents) \<Rightarrow> ('v \<Rightarrow> 'a option) \<Rightarrow> table \<Rightarrow> string \<Rightarrow> ('db, 'k) vault \<Rightarrow> 'a \<Rightarrow> bool" where
  "has_row dbv dec t k v x \<longleftrightarrow> (\<exists>b. redb_laws.view dbv (v_store v) t k = Some b \<and> dec b = Some x)"

definition no_row :: "('db \<Rightarrow> 'v contents) \<Rightarrow> table \<Rightarrow> string \<Rightarrow> ('db, 'k) vault \<Rightarrow> bool" where
  "no_row dbv t k v \<longleftrightarrow> redb_laws.view dbv (v_store v) t k = None"

lemma get_row_has:
  assumes "redb_laws (ve_rb env) dbv txv" and "has_row dbv dec t k v x"
  shows "unless_store (get_row env dec t k v) (Some x)"
  using assms(2) redb_laws.get_view[OF assms(1), of t k "v_store v"]
  by (cases "store_get (ve_rb env) t k (v_store v)")
    (auto simp: get_row_def map_err_def unless_store_def has_row_def)

lemma get_row_none:
  assumes "redb_laws (ve_rb env) dbv txv" and "no_row dbv t k v"
  shows "unless_store (get_row env dec t k v) None"
  using assms(2) redb_laws.get_view[OF assms(1), of t k "v_store v"]
  by (cases "store_get (ve_rb env) t k (v_store v)")
    (auto simp: get_row_def map_err_def unless_store_def no_row_def)

lemma get_row_SomeD:
  assumes "redb_laws (ve_rb env) dbv txv" and "get_row env dec t k v = Inr (Some x)"
  shows "has_row dbv dec t k v x"
proof -
  from assms(2) obtain r where r: "store_get (ve_rb env) t k (v_store v) = Inr r"
    by (auto simp: get_row_def sbind_Inr_iff)
  with assms(2) obtain b where "r = Some b" "dec b = Some x"
    by (cases r) (auto simp: get_row_def map_err_def sbind_Inr_iff ok_or_Inr_iff)
  with redb_laws.get_view[OF assms(1) r] have "redb_laws.view dbv (v_store v) t k = Some b" by simp
  with \<open>dec b = Some x\<close> show ?thesis by (auto simp: has_row_def)
qed

lemma put_row_view:
  assumes "redb_laws (ve_rb env) dbv txv" and "put_row env enc t k x v = (Inr u, v')"
  obtains b where "enc x = Some b" "\<And>t' k'. redb_laws.view dbv (v_store v') t' k' =
      (if t' = t \<and> k' = k then Some b else redb_laws.view dbv (v_store v) t' k')"
proof -
  from put_row_ex[OF assms(2)] obtain b db where b: "enc x = Some b"
    "store_put (ve_rb env) t k b (v_store v) = Inr db" "v' = v\<lparr>v_store := db\<rparr>" by blast
  have "redb_laws.view dbv (v_store v') t' k' =
      (if t' = t \<and> k' = k then Some b else redb_laws.view dbv (v_store v) t' k')" for t' k'
    using redb_laws.put_view[OF assms(1) b(2)] by (simp add: b(3))
  with that b(1) show ?thesis by blast
qed

lemma put_row_has:
  assumes "redb_laws (ve_rb env) dbv txv" and "codec_ok c"
    and "put_row env (fst c) t k x v = (Inr u, v')"
  shows "has_row dbv (snd c) t k v' x"
proof -
  from put_row_view[OF assms(1,3)] obtain b where "fst c x = Some b"
    "redb_laws.view dbv (v_store v') t k = Some b" by metis
  with assms(2) show ?thesis by (auto simp: has_row_def codec_ok_def)
qed

lemma put_row_keeps:
  assumes "redb_laws (ve_rb env) dbv txv" and "put_row env enc t k x v = (Inr u, v')"
    and "t' \<noteq> t \<or> k' \<noteq> k"
  shows "has_row dbv dec t' k' v' y = has_row dbv dec t' k' v y" "no_row dbv t' k' v' = no_row dbv t' k' v"
proof -
  from put_row_view[OF assms(1,2)] have
    "redb_laws.view dbv (v_store v') t' k' = redb_laws.view dbv (v_store v) t' k'"
    using assms(3) by metis
  then show "has_row dbv dec t' k' v' y = has_row dbv dec t' k' v y" "no_row dbv t' k' v' = no_row dbv t' k' v"
    by (simp_all add: has_row_def no_row_def)
qed

lemma delete_row_ex: "delete_row env t k v = (Inr b, v') \<Longrightarrow>
    \<exists>db. store_delete (ve_rb env) t k (v_store v) = Inr (db, b) \<and> v' = v\<lparr>v_store := db\<rparr>"
  by (auto simp: delete_row_def split: sum.splits prod.splits)

lemma delete_row_view:
  assumes "redb_laws (ve_rb env) dbv txv" and "delete_row env t k v = (Inr b, v')"
  shows "redb_laws.view dbv (v_store v') t' k' =
      (if t' = t \<and> k' = k then None else redb_laws.view dbv (v_store v) t' k')"
proof -
  from delete_row_ex[OF assms(2)] obtain db where
    d: "store_delete (ve_rb env) t k (v_store v) = Inr (db, b)" "v' = v\<lparr>v_store := db\<rparr>" by blast
  show ?thesis using redb_laws.delete_view[OF assms(1) d(1)] by (simp add: d(2))
qed

lemma delete_row_gone:
  "redb_laws (ve_rb env) dbv txv \<Longrightarrow> delete_row env t k v = (Inr b, v') \<Longrightarrow> no_row dbv t k v'"
  by (simp add: no_row_def delete_row_view)

lemma delete_row_keeps:
  assumes "redb_laws (ve_rb env) dbv txv" and "delete_row env t k v = (Inr b, v')"
    and "t' \<noteq> t \<or> k' \<noteq> k"
  shows "has_row dbv dec t' k' v' y = has_row dbv dec t' k' v y" "no_row dbv t' k' v' = no_row dbv t' k' v"
  using assms(3) by (auto simp: has_row_def no_row_def delete_row_view[OF assms(1,2)])

lemmas row_simps = store_get_endpoint_def store_put_endpoint_def store_get_credential_def
  store_put_credential_def store_get_grant_def store_put_grant_def

lemma put_row_key: "put_row env enc t k x v = (Inr u, v') \<Longrightarrow> v_master_key v' = v_master_key v \<and> v_meta v' = v_meta v"
  by (elim put_row_cases) simp

subsection \<open>Unlocking\<close>

lemma verify_sets_checked_key:
  assumes "verify_and_set_master_key env key v = Inr v'"
  shows "v' = v\<lparr>v_master_key := Some key\<rparr> \<and>
    (\<exists>meta ct nonce. v_meta v = Some meta \<and> hex_decode (vm_verification meta) = Some (Inr ct) \<and>
       hex_decode (vm_verification_nonce meta) = Some (Inr nonce) \<and>
       ve_decrypt env key nonce ct = Some VERIFICATION_PLAINTEXT)"
  using assms
  by (auto simp: verify_and_set_master_key_def sbind_Inr_iff ok_or_Inr_iff from_hex_def
      verification_matches_def split: if_splits option.splits sum.splits)

lemma unlock_checked:
  assumes "unlock_with_password env pw v = Inr v' \<or> unlock_with_keyfile env kf v = Inr v' \<or>
    unlock_with_age env ident v = Inr v' \<or> unlock_with_ssh v = Inr v' \<or> vault_unlock env key v = Inr v'"
  shows "\<exists>key meta ct nonce. v' = v\<lparr>v_master_key := Some key\<rparr> \<and> v_meta v = Some meta \<and>
    hex_decode (vm_verification meta) = Some (Inr ct) \<and>
    hex_decode (vm_verification_nonce meta) = Some (Inr nonce) \<and>
    ve_decrypt env key nonce ct = Some VERIFICATION_PLAINTEXT"
proof -
  have "\<exists>key. verify_and_set_master_key env key v = Inr v'"
  proof (cases "v_meta v")
    case (Some meta)
    with assms show ?thesis
      by (cases "vm_unlock meta")
        (auto simp: unlock_with_password_def unlock_with_keyfile_def unlock_with_age_def
          unlock_with_ssh_def vault_unlock_def sbind_Inr_iff split: if_splits)
  qed (use assms in \<open>auto simp: unlock_with_password_def unlock_with_keyfile_def unlock_with_age_def
        unlock_with_ssh_def vault_unlock_def\<close>)
  then obtain key where "verify_and_set_master_key env key v = Inr v'" ..
  from verify_sets_checked_key[OF this] show ?thesis by blast
qed

text \<open>C10. Whatever the unlock method, a key is installed only after it decrypted the verification
  record of the vault to the known plaintext; nothing else of the vault changes.\<close>

theorem unlock_verifies_key:
  assumes "unlock_with_password env pw v = Inr v' \<or> unlock_with_keyfile env kf v = Inr v' \<or>
    unlock_with_age env ident v = Inr v' \<or> unlock_with_ssh v = Inr v' \<or> vault_unlock env key v = Inr v'"
  shows "\<exists>key meta ct nonce. v' = v\<lparr>v_master_key := Some key\<rparr> \<and> v_meta v = Some meta \<and>
    hex_decode (vm_verification meta) = Some (Inr ct) \<and>
    hex_decode (vm_verification_nonce meta) = Some (Inr nonce) \<and>
    ve_decrypt env key nonce ct = Some VERIFICATION_PLAINTEXT"
  by (rule unlock_checked[OF assms])

lemma verify_after_finalize:
  assumes cipher: "\<And>k n x ct. ve_encrypt env k n x = Some ct \<Longrightarrow> ve_decrypt env k n ct = Some x"
    and nonce: "length nonce = NONCE_SIZE"
    and init: "finalize_init env io now nonce key unlock = Inr v"
  shows "v_meta v \<noteq> None \<and> vm_unlock (the (v_meta v)) = unlock \<and>
    verify_and_set_master_key env key (vault_lock v) = Inr v"
proof -
  from init obtain ct where ct: "ve_encrypt env key nonce VERIFICATION_PLAINTEXT = Some ct"
    and v: "\<exists>db. v = \<lparr>v_meta = Some \<lparr>vm_version = VAULT_VERSION, vm_created_at = now, vm_unlock = unlock,
            vm_verification = hex_encode ct, vm_verification_nonce = hex_encode nonce\<rparr>,
          v_master_key = Some key, v_store = db\<rparr>"
    by (auto simp: finalize_init_def sbind_Inr_iff ok_or_Inr_iff)
  from v cipher[OF ct] nonce show ?thesis
    by (auto simp: verify_and_set_master_key_def vault_lock_def from_hex_def verification_matches_def)
qed

text \<open>C28. Locking a freshly initialised vault and unlocking it with the same password gives the vault
  back.\<close>

theorem password_unlock_roundtrip:
  assumes "env_ok env dbv txv" and "length nonce = NONCE_SIZE"
    and "init_with_password env io now salt nonce pw = Inr v"
  shows "unlock_with_password env pw (vault_lock v) = Inr v \<and> is_unlocked v \<and> \<not> is_unlocked (vault_lock v)"
proof -
  from assms(3) obtain key where key: "ve_derive env pw salt = Some key"
    "finalize_init env io now nonce key (PasswordUnlock (hex_encode salt)) = Inr v"
    by (auto simp: init_with_password_def sbind_Inr_iff ok_or_Inr_iff split: if_splits)
  have "\<And>k n x ct. ve_encrypt env k n x = Some ct \<Longrightarrow> ve_decrypt env k n ct = Some x"
    using assms(1) by (auto simp: env_ok_def)
  from verify_after_finalize[OF this assms(2) key(2)] key obtain meta where
    m: "v_meta v = Some meta" "vm_unlock meta = PasswordUnlock (hex_encode salt)"
      "verify_and_set_master_key env key (vault_lock v) = Inr v" by auto
  have "is_unlocked v"
    using key(2) by (auto simp: finalize_init_def sbind_Inr_iff is_unlocked_def)
  with m key show ?thesis
    by (simp add: unlock_with_password_def vault_lock_def from_hex_def is_unlocked_def)
qed

subsection \<open>Credentials\<close>

lemma store_credential_cases:
  assumes "store_credential env cid now nonce ep ty secret v = (Inr c, v')"
    and "store_get_endpoint env ep v = Inr (Some e)"
  obtains key ct v1 where "v_master_key v = Some key" "ve_encrypt env key nonce secret = Some ct"
    "store_put_endpoint env (e\<lparr>ep_credential_id := cid, ep_updated_at := now\<rparr>) v = (Inr (), v1)"
    "store_put_credential env c v1 = (Inr (), v')"
    "cr_id c = cid" "cr_endpoint_id c = ep" "cr_encrypted_data c = hex_encode ct" "cr_nonce c = hex_encode nonce"
  using assms
  by (auto simp: store_credential_def sx_bind_Inr_iff ok_or_Inr_iff Let_def update_if_readable_def)

lemma tables_differ [simp]: "ENDPOINTS \<noteq> CREDENTIALS" "CREDENTIALS \<noteq> ENDPOINTS"
  by (simp_all add: ENDPOINTS_def CREDENTIALS_def)

lemma decrypt_stored:
  assumes env: "env_ok env dbv txv" and nonce: "length nonce = NONCE_SIZE"
    and key: "v_master_key v = Some key" and ct: "ve_encrypt env key nonce secret = Some ct"
    and c: "cr_encrypted_data c = hex_encode ct" "cr_nonce c = hex_encode nonce"
    and get: "unless_store (store_get_credential env i v) (Some c)"
  shows "unless_store (decrypt_credential env i v) secret"
proof -
  have "ve_decrypt env key nonce ct = Some secret" using env ct by (auto simp: env_ok_def)
  with key nonce c get show ?thesis
    by (auto simp: decrypt_credential_def get_credential_def encrypted_data_bytes_def nonce_bytes_def
        from_hex_def unless_store_def)
qed

text \<open>C29. What is stored for an endpoint is what is read back: after storing a credential for an
  existing endpoint, decrypting the endpoint's credential gives the secret, unless the database
  fails.\<close>

theorem store_credential_roundtrip:
  assumes "env_ok env dbv txv" and "length nonce = NONCE_SIZE"
    and "store_get_endpoint env ep v = Inr (Some e)" and "ep_id e = ep"
    and "store_credential env cid now nonce ep ty secret v = (Inr c, v')"
  shows "unless_store (decrypt_credential_for_endpoint env ep v') secret"
proof -
  have laws: "redb_laws (ve_rb env) dbv txv" and codecs: "codec_ok (ve_endpoint env)" "codec_ok (ve_credential env)"
    using assms(1) by (auto simp: env_ok_def)
  from store_credential_cases[OF assms(5,3)] obtain key ct v1 where k: "v_master_key v = Some key"
    and ct: "ve_encrypt env key nonce secret = Some ct"
    and put1: "store_put_endpoint env (e\<lparr>ep_credential_id := cid, ep_updated_at := now\<rparr>) v = (Inr (), v1)"
    and put2: "store_put_credential env c v1 = (Inr (), v')"
    and c: "cr_id c = cid" "cr_encrypted_data c = hex_encode ct" "cr_nonce c = hex_encode nonce"
    by metis
  define e' where "e' = e\<lparr>ep_credential_id := cid, ep_updated_at := now\<rparr>"
  have id: "ep_id e' = ep" and cid: "ep_credential_id e' = cid" using assms(4) by (simp_all add: e'_def)
  note put1' = put1[folded e'_def, unfolded row_simps id]
  note put2' = put2[unfolded row_simps c(1)]
  have "has_row dbv (snd (ve_endpoint env)) ENDPOINTS (ve_uuid env ep) v' e'"
    using put_row_has[OF laws codecs(1) put1'] by (simp add: put_row_keeps(1)[OF laws put2'])
  then have e2: "unless_store (store_get_endpoint env ep v') (Some e')"
    unfolding row_simps by (rule get_row_has[OF laws])
  have c2: "unless_store (store_get_credential env cid v') (Some c)"
    unfolding row_simps by (rule get_row_has[OF laws put_row_has[OF laws codecs(2) put2']])
  have k': "v_master_key v' = Some key"
    using put_row_key[OF put1'] put_row_key[OF put2'] k by simp
  have "unless_store (decrypt_credential env cid v') secret"
    by (rule decrypt_stored[OF assms(1,2) k' ct c(2,3) c2])
  with e2 cid show ?thesis
    by (auto simp: decrypt_credential_for_endpoint_def get_endpoint_def unless_store_def)
qed

text \<open>The operations that use the master key refuse when it is absent. Grants and key-value rows do not use
  it, so they can be read and written while the vault is locked.\<close>

theorem locked_vault_refuses:
  assumes "v_master_key v = None"
  shows "decrypt_credential env i v = Inl VaultLocked \<and>
    store_credential env cid now nonce ep ty secret v = (Inl VaultLocked, v) \<and>
    rotate_credential env now nonce i secret v = (Inl VaultLocked, v)"
  using assms
  by (simp add: decrypt_credential_def store_credential_def rotate_credential_def sx_bind_def
      sx_ask_def)

text \<open>C30. A grant is recovered by its recipient: after issuing a grant to a registered node,
  decrypting it with an identity that inverts the node's public key gives the secret, unless the
  database fails.\<close>

theorem grant_roundtrip:
  assumes "env_ok env dbv txv"
    and "get_registered_node_key env recipient v = Inr node"
    and "\<And>x ct. ve_age_encrypt env (nk_vault_public_key node) x = Inr ct \<Longrightarrow>
            ve_age_decrypt env ct identity = Inr x"
    and "issue_vault_grant env now i recipient issuer kind secret v = (Inr g, v')"
  shows "unless_store (decrypt_vault_grant env i recipient kind identity v') secret"
proof -
  have laws: "redb_laws (ve_rb env) dbv txv" and codec: "codec_ok (ve_grant env)"
    using assms(1) by (auto simp: env_ok_def)
  from assms(2,4) have ct: "ve_age_encrypt env (nk_vault_public_key node) secret = Inr (vg_ciphertext g)"
    and g: "vg_object_id g = i" "vg_recipient_node_id g = recipient" "vg_grant_kind g = kind"
    and put: "store_put_grant env g v = (Inr (), v')"
    by (auto simp: issue_vault_grant_def sx_bind_Inr_iff Let_def ok_or_Inr_iff encrypt_for_age_recipient_def)
  have "unless_store (store_get_grant env i recipient kind v') (Some g)"
    unfolding row_simps
    by (rule get_row_has[OF laws put_row_has[OF laws codec put[unfolded row_simps g]]])
  with assms(3)[OF ct] show ?thesis
    by (auto simp: decrypt_vault_grant_def get_vault_grant_def unless_store_def decrypt_with_age_identity_def map_err_def)
qed

text \<open>C27. Deleting an endpoint removes the row of the endpoint and, when it has one, the row of its credential, and
  changes nothing else: every other row of every table, the key and the metadata are as before.\<close>

theorem delete_endpoint_exact:
  assumes "env_ok env dbv txv" and "store_get_endpoint env i v = Inr (Some e)"
    and "delete_endpoint env i v = (Inr u, v')"
  shows "redb_laws.view dbv (v_store v') t k =
      (if t = ENDPOINTS \<and> k = ve_uuid env i \<or>
          ep_credential_id e \<noteq> 0 \<and> t = CREDENTIALS \<and> k = ve_uuid env (ep_credential_id e) then None
       else redb_laws.view dbv (v_store v) t k) \<and>
    v_master_key v' = v_master_key v \<and> v_meta v' = v_meta v"
proof -
  have laws: "redb_laws (ve_rb env) dbv txv" using assms(1) by (auto simp: env_ok_def)
  from assms(2,3) obtain v1 b where
    d1: "if ep_credential_id e \<noteq> 0 then \<exists>b1. delete_row env CREDENTIALS (ve_uuid env (ep_credential_id e)) v = (Inr b1, v1)
         else v1 = v"
    and d2: "delete_row env ENDPOINTS (ve_uuid env i) v1 = (Inr b, v')"
    by (auto simp: delete_endpoint_def sx_bind_Inr_iff sbind_Inr_iff ok_or_Inr_iff sx_return_def split: if_splits)
  have one: "redb_laws.view dbv (v_store v1) t k =
      (if ep_credential_id e \<noteq> 0 \<and> t = CREDENTIALS \<and> k = ve_uuid env (ep_credential_id e) then None
       else redb_laws.view dbv (v_store v) t k) \<and> v_master_key v1 = v_master_key v \<and> v_meta v1 = v_meta v"
    using d1 by (auto split: if_splits simp: delete_row_view[OF laws] dest: delete_row_ex)
  then show ?thesis using delete_row_view[OF laws d2, of t k] delete_row_ex[OF d2] by auto
qed

text \<open>C31. Deleting a superseded credential unlinks the current one: when an endpoint points to a
  newer credential, deleting an old credential of that endpoint clears the pointer although the
  newer credential is still stored.\<close>

theorem delete_old_credential_unlinks_new:
  assumes "env_ok env dbv txv" and "store_get_endpoint env ep v = Inr (Some e)" and "ep_id e = ep"
    and "store_get_credential env old v = Inr (Some c)" and "cr_endpoint_id c = ep"
    and "store_get_credential env new v = Inr (Some c')" and "ep_credential_id e = new" and "new \<noteq> old"
    and "delete_credential env now old v = (Inr u, v')"
  shows "unless_store (store_get_endpoint env ep v') (Some (e\<lparr>ep_credential_id := 0, ep_updated_at := now\<rparr>))
    \<and> unless_store (store_get_credential env new v') (Some c')"
proof -
  have laws: "redb_laws (ve_rb env) dbv txv" and inj: "inj (ve_uuid env)"
    and codecs: "codec_ok (ve_endpoint env)" "codec_ok (ve_credential env)"
    using assms(1) by (auto simp: env_ok_def)
  define e' where "e' = e\<lparr>ep_credential_id := 0, ep_updated_at := now\<rparr>"
  from assms(2,4,5,9) obtain v1 b where put: "store_put_endpoint env e' v = (Inr (), v1)"
    and del: "delete_row env CREDENTIALS (ve_uuid env old) v1 = (Inr b, v')"
    by (auto simp: delete_credential_def sx_bind_Inr_iff sbind_Inr_iff ok_or_Inr_iff
        update_if_readable_def e'_def)
  have id: "ep_id e' = ep" using assms(3) by (simp add: e'_def)
  note put' = put[unfolded row_simps id]
  have "has_row dbv (snd (ve_endpoint env)) ENDPOINTS (ve_uuid env ep) v' e'"
    using put_row_has[OF laws codecs(1) put'] by (simp add: delete_row_keeps(1)[OF laws del])
  moreover have "has_row dbv (snd (ve_credential env)) CREDENTIALS (ve_uuid env new) v c'"
    using get_row_SomeD[OF laws assms(6)[unfolded row_simps]] .
  then have "has_row dbv (snd (ve_credential env)) CREDENTIALS (ve_uuid env new) v' c'"
    using assms(8) inj
    by (simp add: inj_eq put_row_keeps(1)[OF laws put'] delete_row_keeps(1)[OF laws del])
  ultimately show ?thesis
    unfolding row_simps e'_def[symmetric] by (intro conjI get_row_has[OF laws])
qed

subsection \<open>A concrete environment\<close>

text \<open>The in-memory database with rows as values, UUIDs rendered in unary, the identity as cipher and
  an \<open>age\<close> that wraps one secret: the hypotheses of the properties hold together.\<close>

datatype sample_row = REndpoint endpoint | RCredential credential | RNode registered_node_key
  | RObject vault_object_record | RGrant vault_grant_record | RPermission permission

type_synonym sample_vault = "(sample_row mem_db, nat) vault"

definition sample_uuid :: "uuid \<Rightarrow> string" where
  "sample_uuid i = replicate (unat i) CHR ''u''"

lemma sample_uuid_eq [simp]: "sample_uuid i = sample_uuid j \<longleftrightarrow> i = j"
proof
  assume "sample_uuid i = sample_uuid j"
  then have "length (sample_uuid i) = length (sample_uuid j)" by simp
  then show "i = j" by (simp add: sample_uuid_def word_unat_eq_iff)
qed simp

definition sample_env ::
  "(sample_row mem_db, sample_row mem_db, sample_row, unit, nat) vault_env" where
  "sample_env = \<lparr>ve_rb = mem_redb, ve_uuid = sample_uuid,
     ve_endpoint = (Some \<circ> REndpoint, \<lambda>r. case r of REndpoint e \<Rightarrow> Some e | _ \<Rightarrow> None),
     ve_credential = (Some \<circ> RCredential, \<lambda>r. case r of RCredential c \<Rightarrow> Some c | _ \<Rightarrow> None),
     ve_node_key = (Some \<circ> RNode, \<lambda>r. case r of RNode n \<Rightarrow> Some n | _ \<Rightarrow> None),
     ve_object = (Some \<circ> RObject, \<lambda>r. case r of RObject obj \<Rightarrow> Some obj | _ \<Rightarrow> None),
     ve_grant = (Some \<circ> RGrant, \<lambda>r. case r of RGrant g \<Rightarrow> Some g | _ \<Rightarrow> None),
     ve_permission = (Some \<circ> RPermission, \<lambda>r. case r of RPermission p \<Rightarrow> Some p | _ \<Rightarrow> None),
     ve_encrypt = (\<lambda>k n x. Some x), ve_decrypt = (\<lambda>k n x. Some x),
     ve_derive = (\<lambda>pw salt. Some (length pw)), ve_key_of_bytes = (\<lambda>b. Some (length b)),
     ve_bytes_of_key = (\<lambda>_. []),
     ve_age_encrypt = (\<lambda>pub x. if x = [1] then Inr ''c'' else Inl AgeOther),
     ve_age_decrypt = (\<lambda>ct ident. if ct = ''c'' then Inr [1] else Inl AgeMismatch)\<rparr>"

definition sample_io :: "'db \<Rightarrow> ('db, 'e) init_io" where
  "sample_io db = \<lparr>io_present = False, io_dir = None, io_store = Inr db, io_save = None\<rparr>"

lemma sample_env_ok: "env_ok sample_env mem_view mem_view"
proof -
  have "redb_laws (ve_rb sample_env) mem_view mem_view"
    using mem.redb_laws_axioms by (simp add: sample_env_def)
  moreover have "inj sample_uuid" by (simp add: inj_def)
  moreover have "CHR 0x00 \<notin> set (sample_uuid i)" for i by (simp add: sample_uuid_def)
  ultimately show ?thesis by (auto simp: env_ok_def sample_env_def codec_ok_def)
qed

definition sample_endpoint :: endpoint where
  "sample_endpoint = \<lparr>ep_id = 1, ep_name = ''x'', ep_endpoint_type = Gmail, ep_base_url = [],
     ep_credential_id = 2, ep_created_at = 0, ep_updated_at = 0\<rparr>"

definition sample_credential :: "uuid \<Rightarrow> credential" where
  "sample_credential i = \<lparr>cr_id = i, cr_endpoint_id = 1, cr_credential_type = BearerToken,
     cr_encrypted_data = [], cr_nonce = [], cr_created_at = 0, cr_rotated_at = None\<rparr>"

definition sample_node :: registered_node_key where
  "sample_node = \<lparr>nk_node_id = ''n'', nk_identity_fingerprint = None, nk_vault_public_key = ''p'',
     nk_roles = [], nk_active = True, nk_created_at = 0, nk_rotated_at = None, nk_revoked_at = None\<rparr>"

definition sample_object :: vault_object_record where
  "sample_object = \<lparr>vo_id = 1, vo_namespace = [], vo_name = [], vo_description = None,
     vo_created_by = None, vo_created_at = 0, vo_updated_at = 0, vo_version = 1\<rparr>"

text \<open>A vault with one endpoint that points to credential 2, an older credential 3, a node and an
  object.\<close>

definition sample_vault :: sample_vault where
  "sample_vault = \<lparr>v_meta = None, v_master_key = Some 0, v_store = (\<lambda>t.
     if t = ENDPOINTS then Some [(sample_uuid 1, REndpoint sample_endpoint)]
     else if t = CREDENTIALS then Some [(sample_uuid 2, RCredential (sample_credential 2)),
                                        (sample_uuid 3, RCredential (sample_credential 3))]
     else if t = NODE_KEYS then Some [(''n'', RNode sample_node)]
     else if t = VAULT_OBJECTS then Some [(sample_uuid 1, RObject sample_object)]
     else Some [])\<rparr>"

lemma sample_tables [simp]: "NODE_KEYS \<noteq> ENDPOINTS" "NODE_KEYS \<noteq> CREDENTIALS"
  "VAULT_OBJECTS \<noteq> ENDPOINTS" "VAULT_OBJECTS \<noteq> CREDENTIALS" "VAULT_OBJECTS \<noteq> NODE_KEYS"
  by (simp_all add: ENDPOINTS_def CREDENTIALS_def NODE_KEYS_def VAULT_OBJECTS_def)

lemmas sample_defs = sample_env_def sample_vault_def mem_redb_def mem_rows_def get_row_def map_err_def
  store_get_def put_row_def store_put_def delete_row_def store_delete_def

lemma sample_endpoint_get: "store_get_endpoint sample_env 1 sample_vault = Inr (Some sample_endpoint)"
  by (simp add: store_get_endpoint_def sample_defs)

lemma sample_credential_get:
  "store_get_credential sample_env 2 sample_vault = Inr (Some (sample_credential 2))"
  "store_get_credential sample_env 3 sample_vault = Inr (Some (sample_credential 3))"
  by (simp_all add: store_get_credential_def sample_defs)

lemma sample_node_get: "get_registered_node_key sample_env ''n'' sample_vault = Inr sample_node"
  by (simp add: get_registered_node_key_def store_get_node_key_def sample_defs)

lemma sample_object_get: "store_get_vault_object sample_env 1 sample_vault = Inr (Some sample_object)"
  by (simp add: store_get_vault_object_def sample_defs)

lemma sample_put:
  "\<exists>v'. store_put_endpoint sample_env e v = (Inr (), v')"
  "\<exists>v'. store_put_credential sample_env c v = (Inr (), v')"
  "\<exists>v'. store_put_grant sample_env g v = (Inr (), v')"
  by (simp_all add: row_simps put_row_def store_put_def sample_env_def mem_redb_def)

lemma sample_delete: "\<exists>b v'. delete_row sample_env t k v = (Inr b, v')"
  by (simp add: delete_row_def store_delete_def sample_env_def mem_redb_def)

theorem unlock_verifies_key_witness:
  "\<exists>v v' :: sample_vault. finalize_init sample_env (sample_io Map.empty) 0 (replicate 12 0) 5 (KeyfileUnlock None) = Inr v \<and>
     vault_unlock sample_env 5 (vault_lock v) = Inr v' \<and> is_unlocked v'"
proof -
  obtain v :: sample_vault where v: "finalize_init sample_env (sample_io Map.empty) 0 (replicate 12 0) 5 (KeyfileUnlock None) = Inr v"
    by (simp add: finalize_init_def sample_env_def sample_io_def)
  have "vault_unlock sample_env 5 (vault_lock v) = Inr v"
    using verify_after_finalize[OF _ _ v] by (simp add: vault_unlock_def sample_env_def NONCE_SIZE_def)
  moreover from unlock_verifies_key[OF disjI2[OF disjI2[OF disjI2[OF disjI2[OF this]]]]]
  obtain key where "v = vault_lock v\<lparr>v_master_key := Some key\<rparr>" by blast
  then have "v_master_key v = v_master_key (vault_lock v\<lparr>v_master_key := Some key\<rparr>)" by (rule arg_cong)
  then have "is_unlocked v" by (simp add: is_unlocked_def)
  ultimately show ?thesis using v by blast
qed

theorem password_unlock_roundtrip_witness:
  "\<exists>v :: sample_vault. init_with_password sample_env (sample_io Map.empty) 0 [] (replicate 12 0) ''pw'' = Inr v \<and>
     unlock_with_password sample_env ''pw'' (vault_lock v) = Inr v"
proof -
  obtain v :: sample_vault where v: "init_with_password sample_env (sample_io Map.empty) 0 [] (replicate 12 0) ''pw'' = Inr v"
    by (simp add: init_with_password_def finalize_init_def sample_env_def sample_io_def)
  have "length (replicate 12 0 :: u8 list) = NONCE_SIZE" by (simp add: NONCE_SIZE_def)
  from password_unlock_roundtrip[OF sample_env_ok this v] v show ?thesis by blast
qed

theorem store_credential_roundtrip_witness:
  "\<exists>c v'. store_credential sample_env 9 0 (replicate 12 0) 1 BearerToken [7] sample_vault = (Inr c, v') \<and>
     unless_store (decrypt_credential_for_endpoint sample_env 1 v') [7]"
proof -
  define c where "c = \<lparr>cr_id = 9 :: uuid, cr_endpoint_id = 1, cr_credential_type = BearerToken,
     cr_encrypted_data = hex_encode [7], cr_nonce = hex_encode (replicate 12 0), cr_created_at = 0,
     cr_rotated_at = None\<rparr>"
  define e where "e = sample_endpoint\<lparr>ep_credential_id := 9, ep_updated_at := 0\<rparr>"
  obtain v1 where p1: "store_put_endpoint sample_env e sample_vault = (Inr (), v1)"
    using sample_put by blast
  obtain v' where p2: "store_put_credential sample_env c v1 = (Inr (), v')"
    using sample_put by blast
  have "v_master_key sample_vault = Some 0" by (simp add: sample_vault_def)
  moreover have "ve_encrypt sample_env 0 (replicate 12 0) [7] = Some [7]" by (simp add: sample_env_def)
  ultimately have s: "store_credential sample_env 9 0 (replicate 12 0) 1 BearerToken [7] sample_vault = (Inr c, v')"
    using p1 p2 unfolding store_credential_def sx_bind_Inr_iff Let_def
    by (simp add: update_if_readable_def sample_endpoint_get c_def e_def[symmetric] sx_bind_Inr_iff)
  have n: "length (replicate 12 0 :: u8 list) = NONCE_SIZE" by (simp add: NONCE_SIZE_def)
  have id: "ep_id sample_endpoint = 1" by (simp add: sample_endpoint_def)
  from store_credential_roundtrip[OF sample_env_ok n sample_endpoint_get id s] s show ?thesis by blast
qed

theorem locked_vault_refuses_witness:
  "decrypt_credential sample_env 2 (vault_lock sample_vault) = Inl VaultLocked"
  using locked_vault_refuses[of "vault_lock sample_vault" sample_env 2] by (simp add: vault_lock_def)

theorem grant_roundtrip_witness:
  "\<exists>g v'. issue_vault_grant sample_env 0 1 ''n'' None Node [1] sample_vault = (Inr g, v') \<and>
     unless_store (decrypt_vault_grant sample_env 1 ''n'' Node ''id'' v') [1]"
proof -
  have age: "ve_age_encrypt sample_env (nk_vault_public_key sample_node) x = Inr ct \<Longrightarrow>
      ve_age_decrypt sample_env ct ''id'' = Inr x" for x ct
    by (auto simp: sample_env_def split: if_splits)
  define g where "g = \<lparr>vg_object_id = 1 :: uuid, vg_recipient_node_id = ''n'', vg_issued_by = None,
     vg_grant_kind = Node, vg_algorithm = ''age_x25519'', vg_key_id = Some ''p'',
     vg_ciphertext = ''c'', vg_version = 1, vg_created_at = 0\<rparr>"
  obtain v' where p: "store_put_grant sample_env g sample_vault = (Inr (), v')"
    using sample_put by blast
  have "encrypt_for_age_recipient sample_env (nk_vault_public_key sample_node) [1] = (Inr ''c'' :: unit vault_error + _)"
    by (simp add: encrypt_for_age_recipient_def sample_env_def map_err_def)
  then have g: "issue_vault_grant sample_env 0 1 ''n'' None Node [1] sample_vault = (Inr g, v')"
    using p unfolding issue_vault_grant_def sx_bind_Inr_iff Let_def
    by (simp add: sample_object_get sample_node_get sx_bind_Inr_iff g_def sample_node_def sample_object_def)
  from grant_roundtrip[where identity = "''id''", OF sample_env_ok sample_node_get age g] g show ?thesis by blast
qed

theorem delete_endpoint_exact_witness:
  "\<exists>v'. delete_endpoint sample_env 1 sample_vault = (Inr (), v') \<and>
     redb_laws.view mem_view (v_store v') CREDENTIALS (ve_uuid sample_env 2) = None"
proof -
  obtain b v1 where d1: "delete_row sample_env CREDENTIALS (ve_uuid sample_env 2) sample_vault = (Inr b, v1)"
    using sample_delete by blast
  obtain b' v' where d2: "delete_row sample_env ENDPOINTS (ve_uuid sample_env 1) v1 = (Inr b', v')"
    using sample_delete by blast
  have e: "ep_credential_id sample_endpoint = 2" by (simp add: sample_endpoint_def)
  have d: "delete_endpoint sample_env 1 sample_vault = (Inr (), v')"
    using d1 d2 unfolding delete_endpoint_def sx_bind_Inr_iff
    by (simp add: sample_endpoint_get e sx_bind_Inr_iff)
  have c: "ep_credential_id sample_endpoint \<noteq> 0" "ep_credential_id sample_endpoint = 2"
    by (simp_all add: sample_endpoint_def)
  from delete_endpoint_exact[OF sample_env_ok sample_endpoint_get d, of CREDENTIALS "ve_uuid sample_env 2"] d c show ?thesis by auto
qed

theorem delete_old_credential_unlinks_new_witness:
  "\<exists>v'. delete_credential sample_env 0 3 sample_vault = (Inr (), v') \<and>
     unless_store (store_get_credential sample_env 2 v') (Some (sample_credential 2))"
proof -
  obtain v1 where p: "store_put_endpoint sample_env (sample_endpoint\<lparr>ep_credential_id := 0, ep_updated_at := 0\<rparr>)
      sample_vault = (Inr (), v1)"
    using sample_put by blast
  obtain b v' where d1: "delete_row sample_env CREDENTIALS (ve_uuid sample_env 3) v1 = (Inr b, v')"
    using sample_delete by blast
  have c: "cr_endpoint_id (sample_credential 3) = 1" by (simp add: sample_credential_def)
  have d: "delete_credential sample_env 0 3 sample_vault = (Inr (), v')"
    using p d1 unfolding delete_credential_def sx_bind_Inr_iff
    by (simp add: sample_credential_get c update_if_readable_def sample_endpoint_get sx_bind_Inr_iff)
  have e: "ep_id sample_endpoint = 1" "ep_credential_id sample_endpoint = 2" "(2 :: uuid) \<noteq> 3"
    by (simp_all add: sample_endpoint_def)
  from delete_old_credential_unlinks_new[OF sample_env_ok sample_endpoint_get e(1)
      sample_credential_get(2) c sample_credential_get(1) e(2,3) d] d show ?thesis by blast
qed

end
