(* ===== verification/CredManager.thy ===== *)
theory CredManager
  imports PathPolicy Vault AuditLog
begin

text \<open>
  The credential manager (\<open>rockbot-credentials/src/manager.rs\<close>): policy check, human approval with
  timeout, and release of a credential. The manager is shared by many asynchronous calls, so a
  call of \<open>request_credential\<close> is a task that moves in the atomic steps the lock acquisitions and
  awaits of the source leave; \<open>cm_step\<close> interleaves the tasks with approvals, locking,
  unlocking and policy changes. UUIDs and instants are chosen by the step; a request id is new.
\<close>

record hil_request =
  hr_id :: uuid
  hr_path :: string
  hr_agent_id :: string
  hr_reason :: string
  hr_permission_level :: permission_level
  hr_created_at :: datetime
  hr_expires_at :: datetime
  hr_status :: approval_status
  hr_resolved_by :: "string option"
  hr_resolved_at :: "datetime option"

record hil_response =
  hs_request_id :: uuid
  hs_approved :: bool
  hs_resolved_by :: string
  hs_denial_reason :: "string option"

datatype 'e cm_error = CmVault "'e vault_error" | YubikeyTouchRequired | ApprovalNotFound uuid | CmPanic

record ('db, 'k) manager =
  cm_vault :: "('db, 'k) vault"
  cm_permissions :: "path_permission list"
  cm_locked :: bool
  cm_pending :: "uuid \<rightharpoonup> hil_request"
  cm_notifier :: bool
  cm_notified :: "hil_request list"
  cm_hil_timeout_secs :: nat

definition manager_new :: "('db, 'k) vault \<Rightarrow> ('db, 'k) manager" where
  "manager_new v = \<lparr>cm_vault = v, cm_permissions = [], cm_locked = True, cm_pending = Map.empty,
     cm_notifier = False, cm_notified = [], cm_hil_timeout_secs = 300\<rparr>"

definition with_hil_timeout :: "('db, 'k) vault \<Rightarrow> nat \<Rightarrow> ('db, 'k) manager" where
  "with_hil_timeout v secs = (manager_new v)\<lparr>cm_hil_timeout_secs := secs\<rparr>"

definition subscribe_hil_notifications :: "('db, 'k) manager \<Rightarrow> ('db, 'k) manager" where
  "subscribe_hil_notifications m = m\<lparr>cm_notifier := True, cm_notified := []\<rparr>"

definition list_pending_approvals :: "uuid list \<Rightarrow> ('db, 'k) manager \<Rightarrow> hil_request list" where
  "list_pending_approvals order m = List.map_filter (cm_pending m) order"

subsection \<open>Approvals\<close>

definition respond_to_approval ::
  "hil_response \<Rightarrow> ('db, 'k) manager \<Rightarrow> 'e cm_error + (('db, 'k) manager \<times> hil_response)" where
  "respond_to_approval resp m = (case cm_pending m (hs_request_id resp) of
       Some _ \<Rightarrow> Inr (m\<lparr>cm_pending := (cm_pending m)(hs_request_id resp := None)\<rparr>, resp)
     | None \<Rightarrow> Inl (ApprovalNotFound (hs_request_id resp)))"

text \<open>The first part of \<open>request_hil_approval\<close>: store the pending request and notify. The configured seconds are
  cast to \<open>i64\<close>; \<open>add_secs\<close> is the addition of the \<open>chrono\<close> library, \<open>None\<close> when it panics.\<close>

definition begin_hil_approval ::
  "(datetime \<Rightarrow> int \<Rightarrow> datetime option) \<Rightarrow> uuid \<Rightarrow> datetime \<Rightarrow> string \<Rightarrow> string \<Rightarrow> string \<Rightarrow> permission_level \<Rightarrow>
   ('db, 'k) manager \<Rightarrow> ('db, 'k) manager option" where
  "begin_hil_approval add_secs rid now path agent reason level m =
     (case add_secs now (sint (word_of_nat (cm_hil_timeout_secs m) :: 64 word)) of
        None \<Rightarrow> None
      | Some expires \<Rightarrow>
          (let r = \<lparr>hr_id = rid, hr_path = path, hr_agent_id = agent, hr_reason = reason,
                    hr_permission_level = level, hr_created_at = now, hr_expires_at = expires,
                    hr_status = Pending, hr_resolved_by = None, hr_resolved_at = None\<rparr>;
               m = m\<lparr>cm_pending := (cm_pending m)(rid \<mapsto> r)\<rparr>
           in Some (if cm_notifier m then m\<lparr>cm_notified := cm_notified m @ [r]\<rparr> else m)))"

definition cleanup_expired_approval :: "uuid \<Rightarrow> ('db, 'k) manager \<Rightarrow> ('db, 'k) manager" where
  "cleanup_expired_approval rid m = m\<lparr>cm_pending := (cm_pending m)(rid := None)\<rparr>"

subsection \<open>Locking and policy\<close>

text \<open>Locking and unlocking change the vault under its write guard and then, still holding it, wait for the guard of
  the flag: \<open>cm_set_locked\<close> is the second part. In between the flag can be read, and it is the old one.\<close>

definition cm_unlock_by ::
  "(('db, 'k) vault \<Rightarrow> 'e vault_error + ('db, 'k) vault) \<Rightarrow> ('db, 'k) manager \<Rightarrow> 'e cm_error + ('db, 'k) manager" where
  "cm_unlock_by unlock m = sbind (map_err CmVault (unlock (cm_vault m)))
     (\<lambda>v. Inr (m\<lparr>cm_vault := v\<rparr>))"

definition cm_unlock_with_password ::
  "('db, 'tx, 'v, 'e, 'k) vault_env \<Rightarrow> string \<Rightarrow> ('db, 'k) manager \<Rightarrow> 'e cm_error + ('db, 'k) manager" where
  "cm_unlock_with_password env pw m = cm_unlock_by (unlock_with_password env pw) m"

definition cm_unlock_with_keyfile ::
  "('db, 'tx, 'v, 'e, 'k) vault_env \<Rightarrow> u8 list option \<Rightarrow> ('db, 'k) manager \<Rightarrow> 'e cm_error + ('db, 'k) manager" where
  "cm_unlock_with_keyfile env kf m = cm_unlock_by (unlock_with_keyfile env kf) m"

definition cm_unlock_with_age ::
  "('db, 'tx, 'v, 'e, 'k) vault_env \<Rightarrow> string \<Rightarrow> ('db, 'k) manager \<Rightarrow> 'e cm_error + ('db, 'k) manager" where
  "cm_unlock_with_age env identity m = cm_unlock_by (unlock_with_age env identity) m"

definition cm_unlock_with_ssh :: "('db, 'k) manager \<Rightarrow> 'e cm_error + ('db, 'k) manager" where
  "cm_unlock_with_ssh m = cm_unlock_by unlock_with_ssh m"

definition cm_unlock ::
  "('db, 'tx, 'v, 'e, 'k) vault_env \<Rightarrow> 'k \<Rightarrow> ('db, 'k) manager \<Rightarrow> 'e cm_error + ('db, 'k) manager" where
  "cm_unlock env key m = cm_unlock_by (vault_unlock env key) m"

definition cm_lock :: "('db, 'k) manager \<Rightarrow> ('db, 'k) manager" where
  "cm_lock m = m\<lparr>cm_vault := vault_lock (cm_vault m)\<rparr>"

definition cm_set_locked :: "bool \<Rightarrow> ('db, 'k) manager \<Rightarrow> ('db, 'k) manager" where
  "cm_set_locked b m = m\<lparr>cm_locked := b\<rparr>"

definition cm_add_permission :: "path_permission \<Rightarrow> ('db, 'k) manager \<Rightarrow> ('db, 'k) manager" where
  "cm_add_permission p m = m\<lparr>cm_permissions := path_add_permission p (cm_permissions m)\<rparr>"

definition cm_remove_permission :: "uuid \<Rightarrow> ('db, 'k) manager \<Rightarrow> ('db, 'k) manager \<times> bool" where
  "cm_remove_permission pid m =
     (let (ps, b) = path_remove_permission pid (cm_permissions m) in (m\<lparr>cm_permissions := ps\<rparr>, b))"

definition check_permission :: "string \<Rightarrow> ('db, 'k) manager \<Rightarrow> path_permission_result" where
  "check_permission path m = path_evaluate (cm_permissions m) path"

subsection \<open>Guarded vault operations\<close>

text \<open>Every vault operation runs under the vault's guard; the operations on secrets and endpoints check
  the lock flag first, the others do not.\<close>

definition with_vault ::
  "(('db, 'k) vault, 'e vault_error, 'a) sx \<Rightarrow> (('db, 'k) manager, 'e cm_error, 'a) sx" where
  "with_vault f m = (case f (cm_vault m) of (r, v) \<Rightarrow> (map_err CmVault r, m\<lparr>cm_vault := v\<rparr>))"

definition guarded ::
  "(('db, 'k) vault, 'e vault_error, 'a) sx \<Rightarrow> (('db, 'k) manager, 'e cm_error, 'a) sx" where
  "guarded f m = (if cm_locked m then (Inl (CmVault VaultLocked), m) else with_vault f m)"

definition cm_create_endpoint ::
  "('db, 'tx, 'v, 'e, 'k) vault_env \<Rightarrow> uuid \<Rightarrow> datetime \<Rightarrow> string \<Rightarrow> endpoint_type \<Rightarrow> string \<Rightarrow>
   (('db, 'k) manager, 'e cm_error, endpoint) sx" where
  "cm_create_endpoint env i now name ty url = guarded (create_endpoint env i now name ty url)"

definition cm_store_credential ::
  "('db, 'tx, 'v, 'e, 'k) vault_env \<Rightarrow> uuid \<Rightarrow> datetime \<Rightarrow> u8 list \<Rightarrow> uuid \<Rightarrow> credential_type \<Rightarrow> u8 list \<Rightarrow>
   (('db, 'k) manager, 'e cm_error, unit) sx" where
  "cm_store_credential env cid now nonce ep ty secret =
     sx_bind (guarded (store_credential env cid now nonce ep ty secret)) (\<lambda>_. sx_return ())"

definition cm_delete_endpoint ::
  "('db, 'tx, 'v, 'e, 'k) vault_env \<Rightarrow> uuid \<Rightarrow> (('db, 'k) manager, 'e cm_error, unit) sx" where
  "cm_delete_endpoint env i = guarded (delete_endpoint env i)"

definition cm_register_node_key ::
  "('db, 'tx, 'v, 'e, 'k) vault_env \<Rightarrow> registered_node_key \<Rightarrow> (('db, 'k) manager, 'e cm_error, unit) sx" where
  "cm_register_node_key env node = with_vault (register_node_key env node)"

definition cm_create_vault_object ::
  "('db, 'tx, 'v, 'e, 'k) vault_env \<Rightarrow> uuid \<Rightarrow> datetime \<Rightarrow> string \<Rightarrow> string \<Rightarrow> string option \<Rightarrow> string option \<Rightarrow>
   (('db, 'k) manager, 'e cm_error, vault_object_record) sx" where
  "cm_create_vault_object env i now ns name descr creator =
     with_vault (create_vault_object env i now ns name descr creator)"

definition cm_issue_vault_grant ::
  "('db, 'tx, 'v, 'e, 'k) vault_env \<Rightarrow> datetime \<Rightarrow> uuid \<Rightarrow> string \<Rightarrow> string option \<Rightarrow> vault_grant_kind \<Rightarrow>
   u8 list \<Rightarrow> (('db, 'k) manager, 'e cm_error, vault_grant_record) sx" where
  "cm_issue_vault_grant env now i recipient issuer kind secret =
     with_vault (issue_vault_grant env now i recipient issuer kind secret)"

definition cm_kv_put ::
  "('db, 'tx, 'v, 'e, 'k) vault_env \<Rightarrow> string \<Rightarrow> string \<Rightarrow> 'v \<Rightarrow> (('db, 'k) manager, 'e cm_error, unit) sx" where
  "cm_kv_put env ns key x = with_vault (vault_kv_put env ns key x)"

definition cm_kv_delete ::
  "('db, 'tx, 'v, 'e, 'k) vault_env \<Rightarrow> string \<Rightarrow> string \<Rightarrow> (('db, 'k) manager, 'e cm_error, unit) sx" where
  "cm_kv_delete env ns key = with_vault (vault_kv_delete env ns key)"

subsection \<open>Resolving a credential path\<close>

text \<open>\<open>lower\<close> is the Unicode lower-case mapping, \<open>parse_uuid\<close> the parser of the uuid crate.\<close>

definition resolve_credential_from_path ::
  "('db, 'tx, 'v, 'e, 'k) vault_env \<Rightarrow> (string \<Rightarrow> string) \<Rightarrow> (string \<Rightarrow> uuid option) \<Rightarrow>
   ('db, 'k) vault \<Rightarrow> string \<Rightarrow> 'e vault_error + u8 list" where
  "resolve_credential_from_path env lower parse_uuid v path =
     (let by_name = (\<lambda>name.
        sbind (ok_or (ValidationFailed ''endpoint not found'')
                 (List.find (\<lambda>e. lower (ep_name e) = lower name) (list_endpoints env v)))
          (\<lambda>e. decrypt_credential_for_endpoint env (ep_id e) v)) in
      case strip_prefix ''saggyclaw://'' path of
        Some rest \<Rightarrow> by_name (takeWhile (\<lambda>c. c \<noteq> CHR ''/'') rest)
      | None \<Rightarrow> (case parse_uuid path of
            Some i \<Rightarrow> decrypt_credential_for_endpoint env i v
          | None \<Rightarrow> by_name path))"

lemma resolve_needs_key:
  "resolve_credential_from_path env lower parse_uuid v path = Inr secret \<Longrightarrow> is_unlocked v"
proof -
  have "decrypt_credential_for_endpoint env i v = Inr secret \<Longrightarrow> is_unlocked v" for i
    by (auto simp: decrypt_credential_for_endpoint_def decrypt_credential_def sbind_Inr_iff
        ok_or_Inr_iff is_unlocked_def)
  then show "resolve_credential_from_path env lower parse_uuid v path = Inr secret \<Longrightarrow> is_unlocked v"
    by (auto simp: resolve_credential_from_path_def Let_def sbind_Inr_iff split: option.splits)
qed

subsection \<open>Tasks\<close>

text \<open>The states of one call of \<open>request_credential\<close>: waiting for an answer, answered, timed out and
  about to clean up, past the policy, past the lock check, finished.\<close>

datatype 'e task =
    Waiting uuid string path_permission_result
  | Responded bool string path_permission_result
  | TimedOut uuid path_permission_result
  | Granted string path_permission_result
  | LockChecked string path_permission_result
  | Finished "'e cm_error + (path_permission_result \<times> u8 list option)"

definition begin_request ::
  "(datetime \<Rightarrow> int \<Rightarrow> datetime option) \<Rightarrow> uuid \<Rightarrow> datetime \<Rightarrow> string \<Rightarrow> string \<Rightarrow> string \<Rightarrow> ('db, 'k) manager \<Rightarrow>
   'e task \<times> ('db, 'k) manager" where
  "begin_request add_secs rid now path agent reason m =
     (let r = path_evaluate (cm_permissions m) path in
      case ppr_level r of
        Deny \<Rightarrow> (Finished (Inr (r, None)), m)
      | AllowHil \<Rightarrow> (case begin_hil_approval add_secs rid now path agent reason AllowHil m of
            None \<Rightarrow> (Finished (Inl CmPanic), m)
          | Some m' \<Rightarrow> (Waiting rid path r, m'))
      | AllowHil2fa \<Rightarrow> (Finished (Inl YubikeyTouchRequired), m)
      | Allow \<Rightarrow> (Granted path r, m))"

definition resume_request :: "bool \<Rightarrow> string \<Rightarrow> path_permission_result \<Rightarrow> 'e task" where
  "resume_request approved path r = (if approved then Granted path r else Finished (Inr (r, None)))"

text \<open>\<open>retrieve_credential\<close>, whose lock check and vault access take different guards.\<close>

definition retrieve_check_lock :: "string \<Rightarrow> path_permission_result \<Rightarrow> ('db, 'k) manager \<Rightarrow> 'e task" where
  "retrieve_check_lock path r m =
     (if cm_locked m then Finished (Inl (CmVault VaultLocked)) else LockChecked path r)"

definition retrieve_resolve ::
  "('db, 'tx, 'v, 'e, 'k) vault_env \<Rightarrow> (string \<Rightarrow> string) \<Rightarrow> (string \<Rightarrow> uuid option) \<Rightarrow>
   string \<Rightarrow> path_permission_result \<Rightarrow> ('db, 'k) manager \<Rightarrow> 'e task" where
  "retrieve_resolve env lower parse_uuid path r m =
     Finished (case resolve_credential_from_path env lower parse_uuid (cm_vault m) path of
                 Inl e \<Rightarrow> Inl (CmVault e)
               | Inr secret \<Rightarrow> Inr (r, Some secret))"

text \<open>\<open>sy_guard\<close> is \<open>Some b\<close> while a call that locks or unlocks holds the write guard of the vault and is about to set the
  flag to \<open>b\<close>. \<open>sy_used\<close> holds the ids drawn so far, \<open>sy_responses\<close> the answers that were accepted.\<close>

record ('db, 'k, 'e) system =
  sy_mgr :: "('db, 'k) manager"
  sy_guard :: "bool option"
  sy_tasks :: "nat \<rightharpoonup> 'e task"
  sy_used :: "uuid set"
  sy_responses :: "(uuid \<times> bool) list"

text \<open>Sending on the oneshot channel: the waiting task gets the answer; a send to a task that is no
  longer waiting is ignored.\<close>

definition deliver :: "uuid \<Rightarrow> bool \<Rightarrow> 'e task \<Rightarrow> 'e task" where
  "deliver rid approved t = (case t of
       Waiting rid' path r \<Rightarrow> if rid' = rid then Responded approved path r else t
     | _ \<Rightarrow> t)"

text \<open>What can be observed of a run: a call is made; the rules it was evaluated against; the id of the approval it
  opened; an accepted answer; the flag a call read; the vault a call read; the result of a call.\<close>

datatype ('db, 'k, 'e) cm_event =
    Requested nat string
  | Evaluated nat "path_permission list"
  | Opened nat uuid
  | Answered uuid bool
  | FlagRead nat bool
  | VaultRead nat "('db, 'k) vault"
  | Returned nat "'e cm_error + (path_permission_result \<times> u8 list option)"

fun outcome :: "nat \<Rightarrow> 'e task \<Rightarrow> ('db, 'k, 'e) cm_event list" where
  "outcome tid (Waiting rid path r) = [Opened tid rid]"
| "outcome tid (Finished res) = [Returned tid res]"
| "outcome tid _ = []"

text \<open>The writes of the vault. A manager call whose lock check passed may find the vault locked by the
  time it writes, so a write may happen whenever the guard of the vault is free.\<close>

inductive vault_write ::
  "('db, 'tx, 'v, 'e, 'k) vault_env \<Rightarrow> (('db, 'k) vault \<Rightarrow> ('db, 'k) vault) \<Rightarrow> bool"
  for env :: "('db, 'tx, 'v, 'e, 'k) vault_env"
where
  "vault_write env (\<lambda>v. snd (create_endpoint env i now name ty url v))"
| "vault_write env (\<lambda>v. snd (store_credential env cid now nonce ep cty secret v))"
| "vault_write env (\<lambda>v. snd (delete_endpoint env i v))"
| "vault_write env (\<lambda>v. snd (register_node_key env node v))"
| "vault_write env (\<lambda>v. snd (create_vault_object env i now ns name descr creator v))"
| "vault_write env (\<lambda>v. snd (issue_vault_grant env now i recipient issuer kind secret v))"
| "vault_write env (\<lambda>v. snd (vault_kv_put env ns key x v))"
| "vault_write env (\<lambda>v. snd (vault_kv_delete env ns key v))"

inductive cm_unlocks ::
  "('db, 'tx, 'v, 'e, 'k) vault_env \<Rightarrow> ('db, 'k) manager \<Rightarrow> ('db, 'k) manager \<Rightarrow> bool"
  for env :: "('db, 'tx, 'v, 'e, 'k) vault_env"
where
  by_password: "cm_unlock_with_password env pw m = Inr m' \<Longrightarrow> cm_unlocks env m m'"
| by_keyfile: "cm_unlock_with_keyfile env kf m = Inr m' \<Longrightarrow> cm_unlocks env m m'"
| by_age: "cm_unlock_with_age env ident m = Inr m' \<Longrightarrow> cm_unlocks env m m'"
| by_ssh: "cm_unlock_with_ssh m = (Inr m' :: 'e cm_error + _) \<Longrightarrow> cm_unlocks env m m'"
| by_key: "cm_unlock env key m = Inr m' \<Longrightarrow> cm_unlocks env m m'"

inductive cm_policy :: "('db, 'k) manager \<Rightarrow> ('db, 'k) manager \<Rightarrow> bool" where
  subscribe: "cm_policy m (subscribe_hil_notifications m)"
| add_rule: "cm_policy m (cm_add_permission p m)"
| remove_rule: "cm_policy m (fst (cm_remove_permission pid m))"

definition put_task :: "nat \<Rightarrow> 'e task \<Rightarrow> ('db, 'k, 'e) system \<Rightarrow> ('db, 'k, 'e) system" where
  "put_task tid t s = s\<lparr>sy_tasks := (sy_tasks s)(tid \<mapsto> t)\<rparr>"

inductive cm_step ::
  "('db, 'tx, 'v, 'e, 'k) vault_env \<Rightarrow> (string \<Rightarrow> string) \<Rightarrow> (string \<Rightarrow> uuid option) \<Rightarrow>
   (datetime \<Rightarrow> int \<Rightarrow> datetime option) \<Rightarrow>
   ('db, 'k, 'e) system \<Rightarrow> ('db, 'k, 'e) cm_event list \<Rightarrow> ('db, 'k, 'e) system \<Rightarrow> bool"
  for env :: "('db, 'tx, 'v, 'e, 'k) vault_env" and lower parse_uuid add_secs
where
  request: "sy_tasks s tid = None \<Longrightarrow> rid \<notin> sy_used s \<Longrightarrow>
      begin_request add_secs rid now path agent reason (sy_mgr s) = (t, m') \<Longrightarrow>
      cm_step env lower parse_uuid add_secs s
        ([Requested tid path, Evaluated tid (cm_permissions (sy_mgr s))] @ outcome tid t)
        (put_task tid t (s\<lparr>sy_mgr := m', sy_used := insert rid (sy_used s)\<rparr>))"
| respond: "respond_to_approval resp (sy_mgr s) = (Inr (m', resp) :: 'e cm_error + _) \<Longrightarrow>
      cm_step env lower parse_uuid add_secs s [Answered (hs_request_id resp) (hs_approved resp)]
        (s\<lparr>sy_mgr := m',
           sy_tasks := (\<lambda>tid. map_option (deliver (hs_request_id resp) (hs_approved resp)) (sy_tasks s tid)),
           sy_responses := sy_responses s @ [(hs_request_id resp, hs_approved resp)]\<rparr>)"
| resume: "sy_tasks s tid = Some (Responded b path r) \<Longrightarrow>
      cm_step env lower parse_uuid add_secs s (outcome tid (resume_request b path r :: 'e task))
        (put_task tid (resume_request b path r) s)"
| timeout: "sy_tasks s tid = Some (Waiting rid path r) \<Longrightarrow>
      cm_step env lower parse_uuid add_secs s [] (put_task tid (TimedOut rid r) s)"
| cleanup: "sy_tasks s tid = Some (TimedOut rid r) \<Longrightarrow>
      cm_step env lower parse_uuid add_secs s [Returned tid (Inr (r, None))]
        (put_task tid (Finished (Inr (r, None))) (s\<lparr>sy_mgr := cleanup_expired_approval rid (sy_mgr s)\<rparr>))"
| check_lock: "sy_tasks s tid = Some (Granted path r) \<Longrightarrow> t = retrieve_check_lock path r (sy_mgr s) \<Longrightarrow>
      cm_step env lower parse_uuid add_secs s ([FlagRead tid (cm_locked (sy_mgr s))] @ outcome tid t) (put_task tid t s)"
| release: "sy_tasks s tid = Some (LockChecked path r) \<Longrightarrow> sy_guard s = None \<Longrightarrow>
      t = retrieve_resolve env lower parse_uuid path r (sy_mgr s) \<Longrightarrow>
      cm_step env lower parse_uuid add_secs s ([VaultRead tid (cm_vault (sy_mgr s))] @ outcome tid t) (put_task tid t s)"
| policy: "cm_policy (sy_mgr s) m' \<Longrightarrow> cm_step env lower parse_uuid add_secs s [] (s\<lparr>sy_mgr := m'\<rparr>)"
| writing: "sy_guard s = None \<Longrightarrow> vault_write env g \<Longrightarrow>
      cm_step env lower parse_uuid add_secs s [] (s\<lparr>sy_mgr := (sy_mgr s)\<lparr>cm_vault := g (cm_vault (sy_mgr s))\<rparr>\<rparr>)"
| unlocking: "sy_guard s = None \<Longrightarrow> cm_unlocks env (sy_mgr s) m' \<Longrightarrow>
      cm_step env lower parse_uuid add_secs s [] (s\<lparr>sy_mgr := m', sy_guard := Some False\<rparr>)"
| locking: "sy_guard s = None \<Longrightarrow>
      cm_step env lower parse_uuid add_secs s [] (s\<lparr>sy_mgr := cm_lock (sy_mgr s), sy_guard := Some True\<rparr>)"
| set_flag: "sy_guard s = Some b \<Longrightarrow>
      cm_step env lower parse_uuid add_secs s [] (s\<lparr>sy_mgr := cm_set_locked b (sy_mgr s), sy_guard := None\<rparr>)"

definition system_init :: "('db, 'k) vault \<Rightarrow> ('db, 'k, 'e) system" where
  "system_init v = \<lparr>sy_mgr = manager_new (v\<lparr>v_master_key := None\<rparr>), sy_guard = None, sy_tasks = Map.empty,
     sy_used = {}, sy_responses = []\<rparr>"

inductive cm_run ::
  "('db, 'tx, 'v, 'e, 'k) vault_env \<Rightarrow> (string \<Rightarrow> string) \<Rightarrow> (string \<Rightarrow> uuid option) \<Rightarrow>
   (datetime \<Rightarrow> int \<Rightarrow> datetime option) \<Rightarrow> ('db, 'k) vault \<Rightarrow> ('db, 'k, 'e) cm_event list \<Rightarrow> ('db, 'k, 'e) system \<Rightarrow> bool"
  for env :: "('db, 'tx, 'v, 'e, 'k) vault_env" and lower parse_uuid add_secs v
where
  start: "cm_run env lower parse_uuid add_secs v [] (system_init v)"
| step: "cm_run env lower parse_uuid add_secs v tr s \<Longrightarrow> cm_step env lower parse_uuid add_secs s es s' \<Longrightarrow>
      cm_run env lower parse_uuid add_secs v (tr @ es) s'"

subsection \<open>Invariants\<close>

definition evaluated :: "('db, 'k, 'e) cm_event list \<Rightarrow> nat \<Rightarrow> string \<Rightarrow> path_permission_result \<Rightarrow> bool" where
  "evaluated tr tid path r \<longleftrightarrow> Requested tid path \<in> set tr \<and> (\<exists>ps. Evaluated tid ps \<in> set tr \<and> r = path_evaluate ps path)"

definition answered :: "('db, 'k, 'e) cm_event list \<Rightarrow> nat \<Rightarrow> bool \<Rightarrow> bool" where
  "answered tr tid b \<longleftrightarrow> (\<exists>rid. Opened tid rid \<in> set tr \<and> Answered rid b \<in> set tr)"

text \<open>What let a call pass: the policy said Allow, or it asked for a human and this call's request was
  approved.\<close>

definition authorised :: "('db, 'k, 'e) cm_event list \<Rightarrow> nat \<Rightarrow> string \<Rightarrow> path_permission_result \<Rightarrow> bool" where
  "authorised tr tid path r \<longleftrightarrow> evaluated tr tid path r \<and> (ppr_level r = Allow \<or> ppr_level r = AllowHil \<and> answered tr tid True)"

fun task_ok :: "('db, 'k, 'e) cm_event list \<Rightarrow> nat \<Rightarrow> 'e task \<Rightarrow> bool" where
  "task_ok tr tid (Waiting rid path r) \<longleftrightarrow> evaluated tr tid path r \<and> ppr_level r = AllowHil \<and> Opened tid rid \<in> set tr"
| "task_ok tr tid (Responded b path r) \<longleftrightarrow> evaluated tr tid path r \<and> ppr_level r = AllowHil \<and> answered tr tid b"
| "task_ok tr tid (TimedOut rid r) \<longleftrightarrow> True"
| "task_ok tr tid (Granted path r) \<longleftrightarrow> authorised tr tid path r"
| "task_ok tr tid (LockChecked path r) \<longleftrightarrow> authorised tr tid path r \<and> FlagRead tid False \<in> set tr"
| "task_ok tr tid (Finished res) \<longleftrightarrow> True"

definition tasks_ok :: "('db, 'k, 'e) cm_event list \<Rightarrow> ('db, 'k, 'e) system \<Rightarrow> bool" where
  "tasks_ok tr s \<longleftrightarrow> (\<forall>tid t. sy_tasks s tid = Some t \<longrightarrow> task_ok tr tid t)"

text \<open>A call is made once, and an approval is opened by one call.\<close>

definition trace_ok :: "('db, 'k, 'e) cm_event list \<Rightarrow> ('db, 'k, 'e) system \<Rightarrow> bool" where
  "trace_ok tr s \<longleftrightarrow>
     (\<forall>tid path. Requested tid path \<in> set tr \<longrightarrow> sy_tasks s tid \<noteq> None) \<and>
     (\<forall>tid p q. Requested tid p \<in> set tr \<and> Requested tid q \<in> set tr \<longrightarrow> p = q) \<and>
     (\<forall>tid rid. Opened tid rid \<in> set tr \<longrightarrow> rid \<in> sy_used s) \<and>
     (\<forall>a b rid. Opened a rid \<in> set tr \<and> Opened b rid \<in> set tr \<longrightarrow> a = b)"

definition ids_ok :: "('db, 'k, 'e) system \<Rightarrow> bool" where
  "ids_ok s \<longleftrightarrow> dom (cm_pending (sy_mgr s)) \<subseteq> sy_used s \<and> fst ` set (sy_responses s) \<subseteq> sy_used s \<and>
     dom (cm_pending (sy_mgr s)) \<inter> fst ` set (sy_responses s) = {} \<and> distinct (map fst (sy_responses s))"

text \<open>The flag agrees with the key, or is about to.\<close>

definition lock_ok :: "('db, 'k, 'e) system \<Rightarrow> bool" where
  "lock_ok s \<longleftrightarrow> (case sy_guard s of None \<Rightarrow> cm_locked (sy_mgr s) | Some b \<Rightarrow> b) = (\<not> is_unlocked (cm_vault (sy_mgr s)))"

lemma events_mono:
  "set tr \<subseteq> set tr' \<Longrightarrow> evaluated tr tid path r \<Longrightarrow> evaluated tr' tid path r"
  "set tr \<subseteq> set tr' \<Longrightarrow> answered tr tid b \<Longrightarrow> answered tr' tid b"
  "set tr \<subseteq> set tr' \<Longrightarrow> authorised tr tid path r \<Longrightarrow> authorised tr' tid path r"
  by (auto simp: evaluated_def answered_def authorised_def)

lemma task_ok_mono: "set tr \<subseteq> set tr' \<Longrightarrow> task_ok tr tid t \<Longrightarrow> task_ok tr' tid t"
  using events_mono[of tr tr' tid] by (cases t) auto

lemma task_ok_append [intro]: "task_ok tr tid t \<Longrightarrow> task_ok (tr @ es) tid t"
  by (rule task_ok_mono) auto

lemma deliver_ok: "task_ok tr tid t \<Longrightarrow> task_ok (tr @ [Answered rid b]) tid (deliver rid b t)"
proof (cases t)
  case (Waiting rid' path r)
  assume t: "task_ok tr tid t"
  show ?thesis
  proof (cases "rid' = rid")
    case True
    with t Waiting show ?thesis by (auto simp: deliver_def evaluated_def answered_def)
  next
    case False
    with task_ok_append[OF t, of "[Answered rid b]"] Waiting show ?thesis by (simp add: deliver_def)
  qed
qed (use task_ok_append[of tr tid t "[Answered rid b]"] in \<open>simp_all add: deliver_def\<close>)

lemma begin_request_ok:
  assumes "begin_request add_secs rid now path agent reason m = (t, m')"
  shows "task_ok (tr @ [Requested tid path, Evaluated tid (cm_permissions m)] @ outcome tid t) tid t"
    "dom (cm_pending m') \<subseteq> insert rid (dom (cm_pending m))"
    "cm_vault m' = cm_vault m" "cm_locked m' = cm_locked m"
    "set (outcome tid t) \<subseteq> {Opened tid rid} \<union> range (Returned tid)"
    "Returned tid (Inr (r, Some secret)) \<notin> set (outcome tid t)"
  using assms
  by (auto simp: begin_request_def Let_def begin_hil_approval_def authorised_def evaluated_def
      split: permission_level.splits if_splits option.splits)

subsection \<open>What the operations keep\<close>

definition keeps_key :: "(('db, 'k) vault, 'e, 'a) sx \<Rightarrow> bool" where
  "keeps_key f \<longleftrightarrow> (\<forall>v. v_master_key (snd (f v)) = v_master_key v)"

named_theorems keeps_key_intros

lemma keeps_key_bind [keeps_key_intros]:
  "keeps_key f \<Longrightarrow> (\<And>x. keeps_key (g x)) \<Longrightarrow> keeps_key (sx_bind f g)"
  by (auto simp: keeps_key_def sx_bind_def split: prod.split sum.split) (metis snd_conv)+

lemma keeps_key_basic [keeps_key_intros]:
  "keeps_key (sx_return x)" "keeps_key (sx_ask h)" "keeps_key (put_row env enc t k y)" "keeps_key (delete_row env t k)"
  by (auto simp: keeps_key_def sx_return_def sx_ask_def put_row_def delete_row_def
      split: option.split sum.split)

lemma keeps_key_ite [keeps_key_intros]: "keeps_key f \<Longrightarrow> keeps_key g \<Longrightarrow> keeps_key (if b then f else g)"
  by simp

lemma keeps_key_upd [keeps_key_intros]: "keeps_key (update_if_readable env i h)"
  using keeps_key_basic(3)[of env "fst (ve_endpoint env)" ENDPOINTS]
  by (auto simp: keeps_key_def update_if_readable_def store_put_endpoint_def split: sum.split option.split)

lemma vault_write_keeps: "vault_write env g \<Longrightarrow> v_master_key (g v) = v_master_key v"
proof (induction rule: vault_write.induct)
  case (1 i now name ty url)
  have "keeps_key (create_endpoint env i now name ty url)"
    unfolding create_endpoint_def row_simps Let_def by (intro keeps_key_intros)
  then show ?case by (simp add: keeps_key_def)
next
  case (2 cid now nonce ep cty secret)
  have "keeps_key (store_credential env cid now nonce ep cty secret)"
    unfolding store_credential_def row_simps Let_def by (intro keeps_key_intros)
  then show ?case by (simp add: keeps_key_def)
next
  case (3 i)
  have "keeps_key (delete_endpoint env i)" unfolding delete_endpoint_def by (intro keeps_key_intros)
  then show ?case by (simp add: keeps_key_def)
next
  case (4 node)
  have "keeps_key (register_node_key env node)"
    unfolding register_node_key_def store_put_node_key_def by (intro keeps_key_intros)
  then show ?case by (simp add: keeps_key_def)
next
  case (5 i now ns name descr creator)
  have "keeps_key (create_vault_object env i now ns name descr creator)"
    unfolding create_vault_object_def store_put_vault_object_def Let_def by (intro keeps_key_intros)
  then show ?case by (simp add: keeps_key_def)
next
  case (6 now i recipient issuer kind secret)
  have "keeps_key (issue_vault_grant env now i recipient issuer kind secret)"
    unfolding issue_vault_grant_def store_put_grant_def Let_def by (intro keeps_key_intros)
  then show ?case by (simp add: keeps_key_def)
qed (auto simp: vault_kv_put_def vault_kv_delete_def split: sum.split)

lemma guarded_refuses: "cm_locked m \<Longrightarrow> guarded f m = (Inl (CmVault VaultLocked), m)"
  by (simp add: guarded_def)

text \<open>A manager call on the vault is a write of the vault, and one that checks the flag writes nothing when it is set.\<close>

lemma with_vault_writes:
  "vault_write env (\<lambda>v. snd (f v)) \<Longrightarrow> \<exists>g. vault_write env g \<and> snd (with_vault f m) = m\<lparr>cm_vault := g (cm_vault m)\<rparr>"
  by (rule exI[of _ "\<lambda>v. snd (f v)"]) (cases "f (cm_vault m)"; simp add: with_vault_def)

lemma ssh_never_unlocks: "unlock_with_ssh v \<noteq> Inr v'"
  by (cases "v_meta v") (auto simp: unlock_with_ssh_def split: unlock_method.split)

lemma cm_unlocks_keeps:
  "cm_unlocks env m m' \<Longrightarrow> is_unlocked (cm_vault m') \<and> cm_locked m' = cm_locked m \<and> cm_pending m' = cm_pending m"
proof (induction rule: cm_unlocks.induct)
  case (by_password pw m m')
  with unlock_checked[of env pw "cm_vault m" "cm_vault m'"] show ?case
    by (auto simp: cm_unlock_with_password_def cm_unlock_by_def sbind_Inr_iff is_unlocked_def)
next
  case (by_keyfile kf m m')
  with unlock_checked[of env _ "cm_vault m" "cm_vault m'" kf] show ?case
    by (auto simp: cm_unlock_with_keyfile_def cm_unlock_by_def sbind_Inr_iff is_unlocked_def)
next
  case (by_age ident m m')
  with unlock_checked[of env _ "cm_vault m" "cm_vault m'" _ ident] show ?case
    by (auto simp: cm_unlock_with_age_def cm_unlock_by_def sbind_Inr_iff is_unlocked_def)
next
  case (by_ssh m m')
  then show ?case
    by (auto simp: cm_unlock_with_ssh_def cm_unlock_by_def sbind_Inr_iff ssh_never_unlocks)
next
  case (by_key key m m')
  with unlock_checked[of env _ "cm_vault m" "cm_vault m'" _ _ key] show ?case
    by (auto simp: cm_unlock_def cm_unlock_by_def sbind_Inr_iff is_unlocked_def)
qed

lemma cm_policy_keeps:
  "cm_policy m m' \<Longrightarrow> cm_vault m' = cm_vault m \<and> cm_locked m' = cm_locked m \<and> cm_pending m' = cm_pending m"
  by (induction rule: cm_policy.induct)
    (auto simp: subscribe_hil_notifications_def cm_add_permission_def cm_remove_permission_def split: prod.split)

lemma cm_step_lock: "cm_step env lower parse_uuid add_secs s es s' \<Longrightarrow> lock_ok s \<Longrightarrow> lock_ok s'"
proof (induction rule: cm_step.induct)
  case (request s tid rid now path agent reason t m')
  then show ?case by (cases "sy_guard s") (simp_all add: lock_ok_def put_task_def begin_request_ok(3,4)[OF request(3)])
next
  case (policy s m')
  then show ?case using cm_policy_keeps[OF policy(1)] by (cases "sy_guard s") (simp_all add: lock_ok_def)
next
  case (writing s g)
  then show ?case using vault_write_keeps[OF writing(2)] by (simp add: lock_ok_def is_unlocked_def)
next
  case (unlocking s m')
  then show ?case using cm_unlocks_keeps[OF unlocking(2)] by (simp add: lock_ok_def)
qed (auto simp: lock_ok_def put_task_def respond_to_approval_def cleanup_expired_approval_def cm_lock_def
      vault_lock_def is_unlocked_def cm_set_locked_def split: option.splits)

lemma respond_cases:
  assumes "respond_to_approval resp m = Inr (m', r)"
  shows "hs_request_id resp \<in> dom (cm_pending m)" "r = resp"
    "cm_pending m' = (cm_pending m)(hs_request_id resp := None)"
  using assms by (auto simp: respond_to_approval_def split: option.splits)

lemma cm_step_ids: "cm_step env lower parse_uuid add_secs s es s' \<Longrightarrow> ids_ok s \<Longrightarrow> ids_ok s'"
proof (induction rule: cm_step.induct)
  case (request s tid rid now path agent reason t m')
  let ?P = "dom (cm_pending (sy_mgr s))" and ?R = "fst ` set (sy_responses s)"
  have old: "?P \<subseteq> sy_used s" "?R \<subseteq> sy_used s" "?P \<inter> ?R = {}" "distinct (map fst (sy_responses s))"
    using request(4) by (simp_all add: ids_ok_def)
  have "dom (cm_pending m') \<subseteq> insert rid ?P" by (rule begin_request_ok(2)[OF request(3)])
  moreover have "rid \<notin> ?R" using old(2) request(2) by blast
  ultimately have "dom (cm_pending m') \<subseteq> insert rid (sy_used s)" "?R \<subseteq> insert rid (sy_used s)"
    "dom (cm_pending m') \<inter> ?R = {}" using old(1,2,3) by blast+
  with old(4) show ?case by (simp add: ids_ok_def put_task_def)
next
  case (respond resp s m')
  note r = respond_cases[OF respond(1)]
  let ?P = "cm_pending (sy_mgr s)" and ?i = "hs_request_id resp" and ?R = "map fst (sy_responses s)"
  have old: "dom ?P \<subseteq> sy_used s" "set ?R \<subseteq> sy_used s" "dom ?P \<inter> set ?R = {}" "distinct ?R"
    using respond(2) by (simp_all add: ids_ok_def)
  have "dom (cm_pending m') = dom ?P - {?i}" by (simp add: r(3))
  moreover have "?i \<in> sy_used s" "?i \<notin> set ?R" using old r(1) by blast+
  ultimately show ?case using old by (auto simp: ids_ok_def)
next
  case (policy s m')
  then show ?case using cm_policy_keeps[OF policy(1)] by (simp add: ids_ok_def)
next
  case (unlocking s m')
  then show ?case using cm_unlocks_keeps[OF unlocking(2)] by (simp add: ids_ok_def)
qed (auto simp: ids_ok_def put_task_def cleanup_expired_approval_def cm_lock_def cm_set_locked_def)

lemma cm_step_trace: "cm_step env lower parse_uuid add_secs s es s' \<Longrightarrow> trace_ok tr s \<Longrightarrow> trace_ok (tr @ es) s'"
proof (induction rule: cm_step.induct)
  case (request s tid rid now path agent reason t m')
  have es: "set (outcome tid t) \<subseteq> {Opened tid rid} \<union> range (Returned tid)" by (rule begin_request_ok(5)[OF request(3)])
  have new: "Requested tid p \<notin> set tr" "Opened a rid \<notin> set tr" for p a
    using request(1,2,4) unfolding trace_ok_def by blast+
  have req: "Requested a p \<in> set (tr @ [Requested tid path, Evaluated tid (cm_permissions (sy_mgr s))] @ outcome tid t) \<longleftrightarrow>
      Requested a p \<in> set tr \<or> a = tid \<and> p = path" for a p using es by auto
  have opn: "Opened a i \<in> set (tr @ [Requested tid path, Evaluated tid (cm_permissions (sy_mgr s))] @ outcome tid t) \<Longrightarrow>
      Opened a i \<in> set tr \<or> a = tid \<and> i = rid" for a i using es by auto
  show ?case using request(4) new opn unfolding trace_ok_def req by (auto simp: put_task_def) metis+
next
  case (check_lock s tid path r t)
  then show ?case by (auto simp: trace_ok_def put_task_def retrieve_check_lock_def)
next
  case (resume s tid b path r)
  then show ?case by (auto simp: trace_ok_def put_task_def resume_request_def)
qed (auto simp: trace_ok_def put_task_def retrieve_resolve_def)

lemma tasks_okD: "tasks_ok tr s \<Longrightarrow> sy_tasks s tid = Some t \<Longrightarrow> task_ok tr tid t"
  by (simp add: tasks_ok_def)

lemma tasks_ok_put:
  "tasks_ok tr s \<Longrightarrow> task_ok (tr @ es) tid t \<Longrightarrow> sy_tasks s' = sy_tasks s \<Longrightarrow> tasks_ok (tr @ es) (put_task tid t s')"
  unfolding tasks_ok_def put_task_def by auto

lemma cm_step_tasks: "cm_step env lower parse_uuid add_secs s es s' \<Longrightarrow> tasks_ok tr s \<Longrightarrow> tasks_ok (tr @ es) s'"
proof (induction rule: cm_step.induct)
  case (request s tid rid now path agent reason t m')
  then show ?case using begin_request_ok(1)[OF request(3), of tr tid] by (intro tasks_ok_put) simp_all
next
  case (respond resp s m')
  then show ?case by (auto simp: tasks_ok_def intro: deliver_ok)
next
  case (resume s tid b path r)
  then have "task_ok tr tid (Responded b path r)" by (blast dest: tasks_okD)
  then have "task_ok tr tid (resume_request b path r)" by (auto simp: resume_request_def authorised_def)
  with resume show ?case by (intro tasks_ok_put) auto
next
  case (check_lock s tid path r t)
  then have "task_ok tr tid (Granted path r)" by (blast dest: tasks_okD)
  then have "authorised tr tid path r" by simp
  then have "authorised (tr @ [FlagRead tid (cm_locked (sy_mgr s))] @ outcome tid t) tid path r"
    by (rule events_mono(3)[rotated]) auto
  then have "task_ok (tr @ [FlagRead tid (cm_locked (sy_mgr s))] @ outcome tid t) tid t"
    using check_lock(2) by (cases "cm_locked (sy_mgr s)") (simp_all add: retrieve_check_lock_def)
  with check_lock show ?case by (intro tasks_ok_put) auto
next
  case (release s tid path r t)
  then show ?case by (intro tasks_ok_put) (auto simp: retrieve_resolve_def)
qed (auto simp: tasks_ok_def put_task_def)

text \<open>The return of a secret.\<close>

definition returned_ok ::
  "('db, 'tx, 'v, 'e, 'k) vault_env \<Rightarrow> (string \<Rightarrow> string) \<Rightarrow> (string \<Rightarrow> uuid option) \<Rightarrow>
   ('db, 'k, 'e) cm_event list \<Rightarrow> ('db, 'k, 'e) cm_event \<Rightarrow> bool" where
  "returned_ok env lower parse_uuid tr e \<longleftrightarrow> (\<forall>tid r secret. e = Returned tid (Inr (r, Some secret)) \<longrightarrow>
     (\<exists>path w. authorised tr tid path r \<and> FlagRead tid False \<in> set tr \<and> VaultRead tid w \<in> set tr \<and>
        resolve_credential_from_path env lower parse_uuid w path = Inr secret))"

lemma returned_ok_other: "(\<And>tid r secret. e \<noteq> Returned tid (Inr (r, Some secret))) \<Longrightarrow> returned_ok env lower parse_uuid tr e"
  by (simp add: returned_ok_def)

lemma cm_step_returns:
  assumes "cm_step env lower parse_uuid add_secs s es s'" "tasks_ok tr s" "es = front @ e # after"
  shows "returned_ok env lower parse_uuid (tr @ front) e"
  using assms
proof (induction rule: cm_step.induct)
  case (request s tid rid now path agent reason t m')
  have es: "set (outcome tid t) \<subseteq> {Opened tid rid} \<union> range (Returned tid)" by (rule begin_request_ok(5)[OF request(3)])
  have "e \<noteq> Returned a (Inr (r, Some secret))" for a r secret
  proof
    assume e: "e = Returned a (Inr (r, Some secret))"
    have "e \<in> set ([Requested tid path, Evaluated tid (cm_permissions (sy_mgr s))] @ outcome tid t)"
      unfolding request(5) by simp
    then have "e \<in> set (outcome tid t)" by (simp add: e)
    with es e begin_request_ok(6)[OF request(3), of tid r secret] show False by auto
  qed
  then show ?case by (rule returned_ok_other)
next
  case (release s tid path r t)
  from release(1,4) have ok: "task_ok tr tid (LockChecked path r)" by (blast dest: tasks_okD)
  show ?case
  proof (cases "resolve_credential_from_path env lower parse_uuid (cm_vault (sy_mgr s)) path")
    case (Inr secret)
    with release(3,5) consider "front = []" "e = VaultRead tid (cm_vault (sy_mgr s))"
      | "front = [VaultRead tid (cm_vault (sy_mgr s))]" "e = Returned tid (Inr (r, Some secret))"
      by (cases front) (auto simp: retrieve_resolve_def Cons_eq_append_conv)
    then show ?thesis
    proof cases
      case 2
      have "authorised (tr @ front) tid path r" by (rule events_mono(3)[of tr]) (use ok in auto)
      with 2 ok Inr show ?thesis unfolding returned_ok_def by auto
    qed (simp add: returned_ok_other)
  qed (use release(3,5) in \<open>cases front; auto simp: retrieve_resolve_def Cons_eq_append_conv intro!: returned_ok_other\<close>)
qed (auto simp: resume_request_def retrieve_check_lock_def Cons_eq_append_conv append_eq_Cons_conv
      intro!: returned_ok_other split: if_splits)

lemma cm_run_ok:
  "cm_run env lower parse_uuid add_secs v tr s \<Longrightarrow> tasks_ok tr s \<and> trace_ok tr s \<and> ids_ok s \<and> lock_ok s"
proof (induction rule: cm_run.induct)
  case start
  show ?case
    by (simp add: system_init_def tasks_ok_def trace_ok_def ids_ok_def lock_ok_def manager_new_def is_unlocked_def)
qed (metis cm_step_tasks cm_step_trace cm_step_ids cm_step_lock)

lemma run_returns:
  "cm_run env lower parse_uuid add_secs v tr s \<Longrightarrow> tr = before @ e # after \<Longrightarrow> returned_ok env lower parse_uuid before e"
proof (induction arbitrary: after rule: cm_run.induct)
  case (step tr s es s')
  from step(4) show ?case
  proof (cases rule: event_cases)
    case (2 front)
    with cm_step_returns[OF step(2) _ 2(2)] cm_run_ok[OF step(1)] show ?thesis by blast
  qed (use step.IH in blast)
qed simp

subsection \<open>Properties\<close>

text \<open>C1. However calls, answers, timeouts, changes of the policy and locking interleave: when a call returns a secret, it is the
  one that the vault it read holds under the path the call asked for, the result it carries is the evaluation of
  that path against the rules in force when the call was made, and that evaluation is Allow, or AllowHil and
  the approval this call opened, which no other call opened, was answered with yes.\<close>

theorem release_only_if_authorised:
  assumes "cm_run env lower parse_uuid add_secs v (before @ Returned tid (Inr (r, Some secret)) # after) s"
  shows "\<exists>path ps w. Requested tid path \<in> set before \<and> (\<forall>q. Requested tid q \<in> set before \<longrightarrow> q = path) \<and>
    Evaluated tid ps \<in> set before \<and> r = path_evaluate ps path \<and>
    VaultRead tid w \<in> set before \<and> resolve_credential_from_path env lower parse_uuid w path = Inr secret \<and>
    (ppr_level r = Allow \<or> ppr_level r = AllowHil \<and>
       (\<exists>rid. Opened tid rid \<in> set before \<and> (\<forall>a. Opened a rid \<in> set before \<longrightarrow> a = tid) \<and> Answered rid True \<in> set before))"
proof -
  from run_returns[OF assms refl] obtain path w where
    p: "authorised before tid path r" "VaultRead tid w \<in> set before"
      "resolve_credential_from_path env lower parse_uuid w path = Inr secret" unfolding returned_ok_def by blast
  let ?tr = "before @ Returned tid (Inr (r, Some secret)) # after"
  have "set before \<subseteq> set ?tr" by auto
  with cm_run_ok[OF assms] have one: "Requested tid q \<in> set before \<Longrightarrow> Requested tid path \<in> set before \<Longrightarrow> q = path"
    "Opened a rid \<in> set before \<Longrightarrow> Opened tid rid \<in> set before \<Longrightarrow> a = tid" for q a rid
    unfolding trace_ok_def by (blast dest: subsetD)+
  from p(1) obtain ps where "Requested tid path \<in> set before" "Evaluated tid ps \<in> set before" "r = path_evaluate ps path"
    and level: "ppr_level r = Allow \<or> ppr_level r = AllowHil \<and> answered before tid True"
    unfolding authorised_def evaluated_def by blast
  moreover have "answered before tid True \<Longrightarrow> \<exists>rid. Opened tid rid \<in> set before \<and>
      (\<forall>a. Opened a rid \<in> set before \<longrightarrow> a = tid) \<and> Answered rid True \<in> set before"
    using one(2) unfolding answered_def by blast
  ultimately show ?thesis using p(2,3) one(1) by blast
qed

text \<open>C22. An approval request is answered at most once: the ids of the accepted responses are pairwise
  distinct, and once answered a request is refused with \<open>ApprovalNotFound\<close>, so approving after a
  denial (or twice) is impossible.\<close>

theorem approval_answered_once:
  assumes "cm_run env lower parse_uuid add_secs v tr s"
  shows "distinct (map fst (sy_responses s)) \<and>
    list_all (\<lambda>(rid, b). respond_to_approval \<lparr>hs_request_id = rid, hs_approved = ok, hs_resolved_by = who,
        hs_denial_reason = why\<rparr> (sy_mgr s) = (Inl (ApprovalNotFound rid) :: 'e cm_error + _)) (sy_responses s)"
proof -
  from cm_run_ok[OF assms] have ids: "ids_ok s" by blast
  have "cm_pending (sy_mgr s) rid = None" if "(rid, b) \<in> set (sy_responses s)" for rid b
    using ids that unfolding ids_ok_def by (force simp: domIff)
  then show ?thesis using ids by (auto simp: ids_ok_def list_all_iff respond_to_approval_def)
qed

text \<open>C2. Whenever nobody is in the middle of locking or unlocking, the lock flag says whether the vault holds a key. A call
  returns a secret only after it has read the flag and found the vault unlocked, and from a vault that held a key
  at the moment it was read: a lock that comes between the check and the access is respected.\<close>

theorem release_needs_unlocked:
  assumes "cm_run env lower parse_uuid add_secs v tr s"
  shows "(sy_guard s = None \<longrightarrow> cm_locked (sy_mgr s) = (\<not> is_unlocked (cm_vault (sy_mgr s)))) \<and>
    (\<forall>before tid r secret after. tr = before @ Returned tid (Inr (r, Some secret)) # after \<longrightarrow>
       FlagRead tid False \<in> set before \<and> (\<exists>w. VaultRead tid w \<in> set before \<and> is_unlocked w))"
proof -
  have "FlagRead tid False \<in> set before \<and> (\<exists>w. VaultRead tid w \<in> set before \<and> is_unlocked w)"
    if "tr = before @ Returned tid (Inr (r, Some secret)) # after" for before tid r secret after
    using run_returns[OF assms that] resolve_needs_key unfolding returned_ok_def by blast
  with cm_run_ok[OF assms] show ?thesis by (auto simp: lock_ok_def)
qed

subsection \<open>A run that releases a secret\<close>

definition sample_db :: "sample_row mem_db" where
  "sample_db = (\<lambda>t. if t = ENDPOINTS then Some [(sample_uuid 1, REndpoint sample_endpoint)]
     else if t = CREDENTIALS then Some [(sample_uuid 2, RCredential (sample_credential 2
       \<lparr>cr_encrypted_data := hex_encode [7], cr_nonce := hex_encode (replicate 12 0)\<rparr>))] else Some [])"

definition sample_rule :: path_permission where
  "sample_rule = \<lparr>pp_id = 4, pp_path_pattern = ''x'', pp_level = AllowHil, pp_description = None\<rparr>"

definition sample_result :: path_permission_result where
  "sample_result = \<lparr>ppr_level = AllowHil, ppr_matched_rule = Some 4, ppr_reason = ''matched rule: x''\<rparr>"

definition sample_response :: hil_response where
  "sample_response = \<lparr>hs_request_id = 5, hs_approved = True, hs_resolved_by = [], hs_denial_reason = None\<rparr>"

definition sample_secs :: "datetime \<Rightarrow> int \<Rightarrow> datetime option" where
  "sample_secs now n = Some (now + n * 1000000000)"

abbreviation (input) sample_cm_run where
  "sample_cm_run \<equiv> cm_run sample_env id (\<lambda>_. Some 1) sample_secs"

lemma sample_evaluate: "path_evaluate [sample_rule] ''x'' = sample_result"
  by (simp add: path_evaluate_def path_best_def path_pattern_matches_def match_parts.simps[of "[_]"]
      keep_better_def sample_rule_def sample_result_def)

lemma sample_decrypt: "ve_decrypt sample_env k n x = Some x"
  by (simp add: sample_env_def)

lemma sample_resolve:
  assumes "v_master_key v = Some k" "v_store v = sample_db"
  shows "resolve_credential_from_path sample_env id (\<lambda>_. Some 1) v ''x'' = Inr [7]"
proof -
  have "store_get_endpoint sample_env 1 v = Inr (Some sample_endpoint)"
    by (simp add: store_get_endpoint_def sample_defs assms sample_db_def)
  moreover have "store_get_credential sample_env 2 v = Inr (Some (sample_credential 2
       \<lparr>cr_encrypted_data := hex_encode [7], cr_nonce := hex_encode (replicate 12 0)\<rparr>))"
    by (simp add: store_get_credential_def sample_defs assms sample_db_def)
  moreover have "hex_decode (hex_encode_byte 7) = Some (Inr [7])" using hex_decode_encode[of "[7]"] by simp
  ultimately show ?thesis
    by (simp add: resolve_credential_from_path_def strip_prefix_def decrypt_credential_for_endpoint_def
        get_endpoint_def sample_endpoint_def decrypt_credential_def assms get_credential_def
        encrypted_data_bytes_def nonce_bytes_def from_hex_def NONCE_SIZE_def sample_decrypt)
qed

text \<open>The vault is unlocked, a rule is added, a call waits, is approved, reads the flag and returns the secret.\<close>

lemma sample_released:
  "\<exists>v w s before after. sample_cm_run v (before @ Returned 0 (Inr (sample_result, Some [7])) # after) (s :: (_, _, unit) system) \<and>
     sy_responses s = [(5, True)] \<and> VaultRead 0 w \<in> set before"
proof -
  obtain v :: sample_vault where fin: "finalize_init sample_env (sample_io sample_db) 0 (replicate 12 0) 5 (KeyfileUnlock None) = Inr v"
    by (simp add: finalize_init_def sample_env_def sample_io_def)
  then have v: "v_store v = sample_db" "v_master_key v = Some 5"
    by (auto simp: finalize_init_def sample_env_def sample_io_def)
  have unl: "vault_unlock sample_env 5 (v\<lparr>v_master_key := None\<rparr>) = Inr v"
    using verify_after_finalize[OF _ _ fin] by (simp add: vault_unlock_def vault_lock_def sample_env_def NONCE_SIZE_def)
  let ?m0 = "manager_new (v\<lparr>v_master_key := None\<rparr>)"
  let ?s0 = "system_init v :: (_, _, unit) system"
  let ?s1 = "?s0\<lparr>sy_mgr := ?m0\<lparr>cm_vault := v\<rparr>, sy_guard := Some False\<rparr>"
  let ?s2 = "?s1\<lparr>sy_mgr := cm_set_locked False (sy_mgr ?s1), sy_guard := None\<rparr>"
  let ?s3 = "?s2\<lparr>sy_mgr := cm_add_permission sample_rule (sy_mgr ?s2)\<rparr>"
  note go = cm_run.step
  have r0: "sample_cm_run v [] ?s0" by (rule cm_run.start)
  have "cm_unlocks sample_env (sy_mgr ?s0) (?m0\<lparr>cm_vault := v\<rparr>)"
    by (rule cm_unlocks.by_key[of _ 5]) (simp add: cm_unlock_def cm_unlock_by_def system_init_def manager_new_def unl sbind_Inr_iff)
  with go[OF r0 cm_step.unlocking] have r1: "sample_cm_run v [] ?s1" by (simp add: system_init_def)
  have r2: "sample_cm_run v [] ?s2" using go[OF r1 cm_step.set_flag[of _ False]] by simp
  have r3: "sample_cm_run v [] ?s3" using go[OF r2 cm_step.policy[OF cm_policy.add_rule[of _ sample_rule]]] by simp
  have perms: "cm_permissions (sy_mgr ?s3) = [sample_rule]"
    by (simp add: cm_add_permission_def path_add_permission_def system_init_def manager_new_def cm_set_locked_def)
  obtain m' where m': "begin_hil_approval sample_secs 5 0 ''x'' [] [] AllowHil (sy_mgr ?s3) = Some m'"
    by (simp add: begin_hil_approval_def sample_secs_def Let_def)
  then have m'_eq: "cm_vault m' = v" "cm_locked m' = False" "cm_pending m' 5 \<noteq> None"
    by (auto simp: begin_hil_approval_def sample_secs_def Let_def cm_add_permission_def cm_set_locked_def split: if_splits)
  let ?t1 = "Waiting 5 ''x'' sample_result :: unit task"
  let ?s4 = "put_task 0 ?t1 (?s3\<lparr>sy_mgr := m', sy_used := insert 5 (sy_used ?s3)\<rparr>)"
  have "begin_request sample_secs 5 0 ''x'' [] [] (sy_mgr ?s3) = (?t1, m')"
    unfolding begin_request_def perms sample_evaluate Let_def m' by (simp add: sample_result_def)
  from go[OF r3 cm_step.request[where tid = 0, OF _ _ this]]
  have r4: "sample_cm_run v [Requested 0 ''x'', Evaluated 0 [sample_rule], Opened 0 5] ?s4"
    by (simp add: cm_add_permission_def path_add_permission_def manager_new_def cm_set_locked_def system_init_def)
  let ?m5 = "m'\<lparr>cm_pending := (cm_pending m')(5 := None)\<rparr>"
  have tasks: "(\<lambda>tid. map_option (deliver 5 True) (sy_tasks ?s4 tid)) = [0 \<mapsto> Responded True ''x'' sample_result]"
    by (rule ext) (simp add: put_task_def system_init_def deliver_def)
  let ?s5 = "?s4\<lparr>sy_mgr := ?m5, sy_tasks := [0 \<mapsto> Responded True ''x'' sample_result], sy_responses := [(5, True)]\<rparr>"
  have resp: "hs_request_id sample_response = 5" "hs_approved sample_response = True" by (simp_all add: sample_response_def)
  have "respond_to_approval sample_response (sy_mgr ?s4) = (Inr (?m5, sample_response) :: unit cm_error + _)"
    using m'_eq(3) unfolding respond_to_approval_def resp by (auto simp: put_task_def)
  from go[OF r4 cm_step.respond[OF this]]
  have r5: "sample_cm_run v ([Requested 0 ''x'', Evaluated 0 [sample_rule], Opened 0 5] @ [Answered 5 True]) ?s5"
    unfolding resp tasks by (simp add: put_task_def system_init_def)
  let ?tr = "[Requested 0 ''x'', Evaluated 0 [sample_rule], Opened 0 5] @ [Answered 5 True]"
  let ?s6 = "put_task 0 (Granted ''x'' sample_result) ?s5"
  have r6: "sample_cm_run v ?tr ?s6"
    using go[OF r5 cm_step.resume[of _ 0 True "''x''" sample_result]] by (simp add: resume_request_def put_task_def)
  have flag: "cm_locked (sy_mgr ?s6) = False" using m'_eq(2) by (simp add: put_task_def)
  let ?s7 = "put_task 0 (LockChecked ''x'' sample_result) ?s6"
  have r7: "sample_cm_run v (?tr @ [FlagRead 0 False]) ?s7"
    using go[OF r6 cm_step.check_lock[of _ 0 "''x''" sample_result, OF _ refl]] flag
    by (simp add: retrieve_check_lock_def put_task_def)
  have vault: "cm_vault (sy_mgr ?s7) = v" using m'_eq(1) by (simp add: put_task_def)
  have "retrieve_resolve sample_env id (\<lambda>_. Some 1) ''x'' sample_result (sy_mgr ?s7) =
      (Finished (Inr (sample_result, Some [7])) :: unit task)"
    unfolding retrieve_resolve_def vault sample_resolve[OF v(2,1)] by simp
  from go[OF r7 cm_step.release[of _ 0 "''x''" sample_result, OF _ _ this[symmetric]]]
  have "sample_cm_run v ((?tr @ [FlagRead 0 False]) @ [VaultRead 0 v, Returned 0 (Inr (sample_result, Some [7]))])
      (put_task 0 (Finished (Inr (sample_result, Some [7]))) ?s7)"
    unfolding vault by (simp add: put_task_def system_init_def)
  then have "sample_cm_run v (((?tr @ [FlagRead 0 False]) @ [VaultRead 0 v]) @ Returned 0 (Inr (sample_result, Some [7])) # [])
      (put_task 0 (Finished (Inr (sample_result, Some [7]))) ?s7)" by simp
  moreover have "sy_responses (put_task 0 (Finished (Inr (sample_result, Some [7]))) ?s7) = [(5, True)]" by (simp add: put_task_def)
  moreover have "VaultRead 0 v \<in> set ((?tr @ [FlagRead 0 False]) @ [VaultRead 0 v])" by simp
  ultimately show ?thesis by blast
qed

theorem release_only_if_authorised_witness:
  "\<exists>v s before after. sample_cm_run v (before @ Returned 0 (Inr (sample_result, Some [7])) # after) (s :: (_, _, unit) system) \<and>
     (\<exists>rid. Opened 0 rid \<in> set before \<and> Answered rid True \<in> set before)"
proof -
  obtain v and s :: "(_, _, unit) system" and before after where
    run: "sample_cm_run v (before @ Returned 0 (Inr (sample_result, Some [7])) # after) s"
    using sample_released by blast
  have "ppr_level sample_result \<noteq> Allow" by (simp add: sample_result_def)
  with release_only_if_authorised[OF run] run show ?thesis by blast
qed

theorem approval_answered_once_witness:
  "\<exists>v tr s. sample_cm_run v tr (s :: (_, _, unit) system) \<and> sy_responses s = [(5, True)] \<and>
     respond_to_approval sample_response (sy_mgr s) = (Inl (ApprovalNotFound 5) :: unit cm_error + _)"
proof -
  obtain v tr and s :: "(_, _, unit) system" where run: "sample_cm_run v tr s" "sy_responses s = [(5, True)]"
    using sample_released by blast
  from approval_answered_once[OF run(1), of True "[]" None] run show ?thesis unfolding sample_response_def by auto
qed

theorem release_needs_unlocked_witness:
  "\<exists>v s before after. sample_cm_run v (before @ Returned 0 (Inr (sample_result, Some [7])) # after) (s :: (_, _, unit) system) \<and>
     FlagRead 0 False \<in> set before"
proof -
  obtain v and s :: "(_, _, unit) system" and before after where
    run: "sample_cm_run v (before @ Returned 0 (Inr (sample_result, Some [7])) # after) s"
    using sample_released by blast
  from release_needs_unlocked[OF run] run show ?thesis by blast
qed

end
