(* ===== verification/Vdisk.thy ===== *)
theory Vdisk
  imports Prelude "HOL-Library.AList"
begin

text \<open>
  The virtual disk (\<open>rockbot-vdisk/src/lib.rs\<close>): one file that holds a header with a JSON manifest and
  any number of named volumes, each optionally encrypted in sectors. A file is its length and its
  bytes; operating-system errors other than reading past the end are left out. The JSON codec, the
  key derivation and the XTS cipher are parameters. A handle (\<open>VolumeBackend\<close>) keeps its own copy
  of the manifest, as in the code; operations on handles of one file share the file only. Sums the
  code does not check wrap at 64 bits.
\<close>

definition HEADER_BYTES :: nat where "HEADER_BYTES = 1048576"
definition ALIGNMENT :: nat where "ALIGNMENT = 4096"
definition MAGIC :: "u8 list" where "MAGIC = [0x52, 0x42, 0x56, 0x44, 0x49, 0x53, 0x4B, 0x31]"

datatype vd_error = EmptyVolumeName | ZeroCapacity | NotAVirtualDisk | CorruptHeader | HeaderParse
  | ManifestTooLarge | ExceededCapacity nat | OffsetOverflow | ReadBeyondEnd nat nat | UnexpectedEof
  | MissingVolume | KeyDerivation | ReadOnlyFile | VdPanic

record volume_record =
  vr_offset :: nat
  vr_capacity :: nat
  vr_len :: nat

record disk_manifest =
  dm_version :: nat
  dm_volumes :: "(string \<times> volume_record) list"

record ('r, 'k) vd_env =
  vd_to_json :: "disk_manifest \<Rightarrow> u8 list"
  vd_from_json :: "u8 list \<Rightarrow> disk_manifest option"
  vd_derive :: "'r \<Rightarrow> string \<Rightarrow> 'k option"
  vd_area :: "bool \<Rightarrow> 'k \<Rightarrow> nat \<Rightarrow> u8 list \<Rightarrow> u8 list option"

subsection \<open>Files\<close>

record disk_file =
  f_len :: nat
  f_byte :: "nat \<Rightarrow> u8"

definition empty_file :: disk_file where "empty_file = \<lparr>f_len = 0, f_byte = (\<lambda>_. 0)\<rparr>"

definition rng :: "disk_file \<Rightarrow> nat \<Rightarrow> nat \<Rightarrow> u8 list" where
  "rng f off n = map (f_byte f) [off..<off + n]"

definition file_read :: "disk_file \<Rightarrow> nat \<Rightarrow> nat \<Rightarrow> vd_error + u8 list" where
  "file_read f off n = (if n = 0 \<or> off + n \<le> f_len f then Inr (rng f off n) else Inl UnexpectedEof)"

definition file_write :: "nat \<Rightarrow> u8 list \<Rightarrow> disk_file \<Rightarrow> disk_file" where
  "file_write off d f =
     (if d = [] then f
      else \<lparr>f_len = max (f_len f) (off + length d),
            f_byte = (\<lambda>i. if off \<le> i \<and> i < off + length d then d ! (i - off) else f_byte f i)\<rparr>)"

definition file_set_len :: "nat \<Rightarrow> disk_file \<Rightarrow> disk_file" where
  "file_set_len n f = \<lparr>f_len = n, f_byte = (\<lambda>i. if i < n \<and> i < f_len f then f_byte f i else 0)\<rparr>"

definition ensure_len :: "nat \<Rightarrow> (disk_file, vd_error, unit) sx" where
  "ensure_len n f = (Inr (), if f_len f < n then file_set_len n f else f)"

subsection \<open>Alignment and the header\<close>

definition align_up :: "nat \<Rightarrow> nat \<Rightarrow> nat" where
  "align_up value a = (let remainder = value mod a in
     if remainder = 0 then value else wadd value (a - remainder))"

definition align_down :: "nat \<Rightarrow> nat \<Rightarrow> nat" where
  "align_down value a = value div a * a"

definition to_le64 :: "nat \<Rightarrow> u8 list" where
  "to_le64 n = map (\<lambda>i. of_nat (n div 256 ^ i)) [0..<8]"

definition from_le64 :: "u8 list \<Rightarrow> nat" where
  "from_le64 bs = foldr (\<lambda>b acc. unat b + 256 * acc) bs 0"

definition manifest_default :: disk_manifest where
  "manifest_default = \<lparr>dm_version = 1, dm_volumes = []\<rparr>"

definition header_image :: "u8 list \<Rightarrow> u8 list" where
  "header_image encoded =
     MAGIC @ to_le64 (length encoded) @ encoded @ replicate (HEADER_BYTES - 16 - length encoded) 0"

definition persist_manifest :: "('r, 'k) vd_env \<Rightarrow> disk_manifest \<Rightarrow> (disk_file, vd_error, unit) sx" where
  "persist_manifest env m f =
     (let encoded = vd_to_json env m in
      if HEADER_BYTES - 16 < length encoded then (Inl ManifestTooLarge, f)
      else (Inr (), file_write 0 (header_image encoded) f))"

definition read_manifest :: "('r, 'k) vd_env \<Rightarrow> disk_file \<Rightarrow> vd_error + disk_manifest" where
  "read_manifest env f =
     sbind (file_read f 0 8) (\<lambda>magic.
     if magic \<noteq> MAGIC then Inl NotAVirtualDisk
     else sbind (file_read f 8 8) (\<lambda>header_len_bytes.
       let header_len = from_le64 header_len_bytes in
       if header_len = 0 \<or> HEADER_BYTES - 16 < header_len then Inl CorruptHeader
       else sbind (file_read f 16 header_len) (\<lambda>json. ok_or HeaderParse (vd_from_json env json))))"

definition load_or_initialize_manifest :: "('r, 'k) vd_env \<Rightarrow> (disk_file, vd_error, disk_manifest) sx" where
  "load_or_initialize_manifest env f =
     (if f_len f = 0
      then sx_bind (persist_manifest env manifest_default) (\<lambda>_. sx_return manifest_default)
             (file_set_len HEADER_BYTES f)
      else (read_manifest env f, f))"

subsection \<open>Volumes\<close>

record 'k backend =
  vb_manifest :: disk_manifest
  vb_key :: "'k option"
  vb_name :: string
  vb_base :: nat
  vb_capacity :: nat
  vb_len :: nat

definition put_volume :: "string \<Rightarrow> volume_record \<Rightarrow> disk_manifest \<Rightarrow> disk_manifest" where
  "put_volume name v m = m\<lparr>dm_volumes := AList.update name v (dm_volumes m)\<rparr>"

definition next_offset :: "disk_manifest \<Rightarrow> nat" where
  "next_offset m = (case map (\<lambda>(_, v). wadd (vr_offset v) (vr_capacity v)) (dm_volumes m) of
       [] \<Rightarrow> HEADER_BYTES | ends \<Rightarrow> Max (set ends))"

text \<open>The tail of the first branch of \<open>open\<close>, which \<open>replace_bytes\<close> repeats.\<close>

definition allocate_volume ::
  "('r, 'k) vd_env \<Rightarrow> string \<Rightarrow> nat \<Rightarrow> disk_manifest \<Rightarrow> (disk_file, vd_error, disk_manifest \<times> volume_record) sx" where
  "allocate_volume env name capacity m =
     (let v = \<lparr>vr_offset = align_up (next_offset m) ALIGNMENT, vr_capacity = capacity, vr_len = 0\<rparr>;
          m' = put_volume name v m in
      sx_bind (persist_manifest env m') (\<lambda>_.
      sx_bind (ensure_len (wadd (vr_offset v) (vr_capacity v))) (\<lambda>_.
      sx_return (m', v))))"

definition derive_key :: "('r, 'k) vd_env \<Rightarrow> 'r option \<Rightarrow> string \<Rightarrow> vd_error + 'k option" where
  "derive_key env root name = (case root of None \<Rightarrow> Inr None
     | Some r \<Rightarrow> (case vd_derive env r name of None \<Rightarrow> Inl KeyDerivation | Some k \<Rightarrow> Inr (Some k)))"

definition vb_open ::
  "('r, 'k) vd_env \<Rightarrow> string \<Rightarrow> nat \<Rightarrow> 'r option \<Rightarrow> (disk_file, vd_error, 'k backend) sx" where
  "vb_open env name capacity root =
     (if name = [] then sx_throw EmptyVolumeName
      else if capacity = 0 then sx_throw ZeroCapacity
      else
        sx_bind (load_or_initialize_manifest env) (\<lambda>m.
        sx_bind (case map_of (dm_volumes m) name of
                   Some existing \<Rightarrow> sx_return (m, existing)
                 | None \<Rightarrow> allocate_volume env name (align_up capacity ALIGNMENT) m) (\<lambda>(m, v).
        sx_bind (ensure_len (wadd (vr_offset v) (vr_capacity v))) (\<lambda>_.
        sx_bind (sx_ask (\<lambda>_. derive_key env root name)) (\<lambda>key.
        sx_return \<lparr>vb_manifest = m, vb_key = key, vb_name = name, vb_base = vr_offset v,
                   vb_capacity = vr_capacity v, vb_len = vr_len v\<rparr>)))))"

definition encrypted :: "'k backend \<Rightarrow> bool" where "encrypted b \<longleftrightarrow> vb_key b \<noteq> None"

definition apply_xts :: "('r, 'k) vd_env \<Rightarrow> 'k option \<Rightarrow> bool \<Rightarrow> nat \<Rightarrow> u8 list \<Rightarrow> vd_error + u8 list" where
  "apply_xts env key encrypt absolute_offset d =
     (case key of None \<Rightarrow> Inr d
      | Some k \<Rightarrow> if d = [] then Inr d
                  else ok_or VdPanic (vd_area env encrypt k (absolute_offset div ALIGNMENT) d))"

definition checked_end_offset :: "'k backend \<Rightarrow> nat \<Rightarrow> nat \<Rightarrow> vd_error + nat" where
  "checked_end_offset b off n = sbind (ok_or OffsetOverflow (checked_add off n)) (\<lambda>e.
     if vb_capacity b < e then Inl (ExceededCapacity e) else Inr e)"

definition absolute_offset :: "'k backend \<Rightarrow> nat \<Rightarrow> vd_error + nat" where
  "absolute_offset b off = ok_or OffsetOverflow (checked_add (vb_base b) off)"

definition set_len_locked ::
  "('r, 'k) vd_env \<Rightarrow> nat \<Rightarrow> ('k backend \<times> disk_file, vd_error, unit) sx" where
  "set_len_locked env n = (\<lambda>(b, f). case map_of (dm_volumes (vb_manifest b)) (vb_name b) of
       None \<Rightarrow> (Inl MissingVolume, (b, f))
     | Some r \<Rightarrow>
        (let b = b\<lparr>vb_manifest := put_volume (vb_name b) (r\<lparr>vr_len := n\<rparr>) (vb_manifest b)\<rparr> in
         case persist_manifest env (vb_manifest b) f of
           (Inl e, f) \<Rightarrow> (Inl e, (b, f))
         | (Inr _, f) \<Rightarrow> (Inr (), (b\<lparr>vb_len := n\<rparr>, f))))"

definition vb_set_len :: "('r, 'k) vd_env \<Rightarrow> nat \<Rightarrow> ('k backend \<times> disk_file, vd_error, unit) sx" where
  "vb_set_len env n = (\<lambda>(b, f). if vb_capacity b < n then (Inl (ExceededCapacity n), (b, f))
     else set_len_locked env n (b, f))"

definition vb_read :: "('r, 'k) vd_env \<Rightarrow> nat \<Rightarrow> nat \<Rightarrow> 'k backend \<times> disk_file \<Rightarrow> vd_error + u8 list" where
  "vb_read env off n = (\<lambda>(b, f).
     sbind (checked_end_offset b off n) (\<lambda>e.
     if vb_len b < e then Inl (ReadBeyondEnd e (vb_len b))
     else sbind (absolute_offset b off) (\<lambda>absolute.
       let sector_start = align_down absolute ALIGNMENT;
           sector_end = min (align_up (wadd absolute n) ALIGNMENT) (wadd (vb_base b) (vb_len b)) in
       if sector_end < sector_start then Inl VdPanic
       else sbind (file_read f sector_start (sector_end - sector_start)) (\<lambda>buf.
         sbind (apply_xts env (vb_key b) False sector_start buf) (\<lambda>buf.
         let relative = absolute - sector_start in
         if length buf < relative + n then Inl VdPanic else Inr (take n (drop relative buf)))))))"

text \<open>What \<open>write\<close> puts at the start of the first touched sector: the decrypted old bytes of the touched
  sectors (zeros past the logical end) with the data laid over them, encrypted again.\<close>

definition write_image ::
  "('r, 'k) vd_env \<Rightarrow> 'k option \<Rightarrow> nat \<Rightarrow> nat \<Rightarrow> nat \<Rightarrow> nat \<Rightarrow> u8 list \<Rightarrow> disk_file \<Rightarrow> vd_error + u8 list" where
  "write_image env key absolute sector_start write_end existing_len d f =
     sbind (if 0 < existing_len
            then sbind (file_read f sector_start existing_len) (apply_xts env key False sector_start)
            else Inr []) (\<lambda>old.
     let buf = old @ replicate (write_end - sector_start - existing_len) 0;
         relative = absolute - sector_start in
     if length buf < relative + length d then Inl VdPanic
     else apply_xts env key True sector_start
            (take relative buf @ d @ drop (relative + length d) buf))"

definition vb_write :: "('r, 'k) vd_env \<Rightarrow> nat \<Rightarrow> u8 list \<Rightarrow> ('k backend \<times> disk_file, vd_error, unit) sx" where
  "vb_write env off d = (\<lambda>(b, f).
     case sbind (checked_end_offset b off (length d)) (\<lambda>e.
          sbind (absolute_offset b off) (\<lambda>absolute.
          let sector_start = align_down absolute ALIGNMENT;
              preserve_end = min (align_up (wadd absolute (length d)) ALIGNMENT) (wadd (vb_base b) (vb_len b));
              buffer_end = wadd absolute (length d);
              write_end = max buffer_end preserve_end;
              existing_len = min (wadd (vb_base b) (vb_len b) - sector_start) (write_end - sector_start) in
          sbind (write_image env (vb_key b) absolute sector_start write_end existing_len d f)
            (\<lambda>img. Inr (e, sector_start, img)))) of
       Inl err \<Rightarrow> (Inl err, (b, f))
     | Inr (e, sector_start, img) \<Rightarrow>
        (let f = file_write sector_start img f in
         if vb_len b < e then set_len_locked env e (b, f) else (Inr (), (b, f))))"

definition vb_write_all :: "('r, 'k) vd_env \<Rightarrow> u8 list \<Rightarrow> ('k backend \<times> disk_file, vd_error, unit) sx" where
  "vb_write_all env d = sx_bind (vb_write env 0 d) (\<lambda>_. vb_set_len env (length d))"

definition vb_read_all :: "('r, 'k) vd_env \<Rightarrow> 'k backend \<times> disk_file \<Rightarrow> vd_error + u8 list" where
  "vb_read_all env s = vb_read env 0 (vb_len (fst s)) s"

subsection \<open>Operations on a disk by name\<close>

text \<open>The disk is \<open>None\<close> when the file does not exist. A file opened for reading only cannot be
  initialised.\<close>

definition has_volume :: "('r, 'k) vd_env \<Rightarrow> disk_file option \<Rightarrow> string \<Rightarrow> vd_error + bool" where
  "has_volume env disk name = (case disk of None \<Rightarrow> Inr False
     | Some f \<Rightarrow> if f_len f = 0 then Inl ReadOnlyFile
                 else sbind (read_manifest env f) (\<lambda>m. Inr (map_of (dm_volumes m) name \<noteq> None)))"

definition volume_info :: "('r, 'k) vd_env \<Rightarrow> disk_file option \<Rightarrow> string \<Rightarrow> vd_error + volume_record option" where
  "volume_info env disk name = (case disk of None \<Rightarrow> Inr None
     | Some f \<Rightarrow> if f_len f = 0 then Inl ReadOnlyFile
                 else sbind (read_manifest env f) (\<lambda>m. Inr (map_of (dm_volumes m) name)))"

definition read_volume_prefix ::
  "('r, 'k) vd_env \<Rightarrow> disk_file option \<Rightarrow> string \<Rightarrow> nat \<Rightarrow> vd_error + u8 list option" where
  "read_volume_prefix env disk name n =
     (if n = 0 then Inr (Some [])
      else sbind (volume_info env disk name) (\<lambda>info. case (info, disk) of
        (Some v, Some f) \<Rightarrow>
          if vr_len v = 0 then Inr (Some [])
          else sbind (file_read f (vr_offset v) (min (vr_len v) n)) (\<lambda>buf. Inr (Some buf))
      | _ \<Rightarrow> Inr None))"

text \<open>The handle is dropped at the end; what stays is the file.\<close>

definition write_volume :: "('r, 'k) vd_env \<Rightarrow> u8 list \<Rightarrow> 'k backend \<Rightarrow> (disk_file, vd_error, unit) sx" where
  "write_volume env d b f = (case vb_write_all env d (b, f) of (r, (_, f)) \<Rightarrow> (r, f))"

definition import_bytes ::
  "('r, 'k) vd_env \<Rightarrow> string \<Rightarrow> u8 list \<Rightarrow> 'r option \<Rightarrow> (disk_file, vd_error, unit) sx" where
  "import_bytes env name d root =
     sx_bind (vb_open env name (align_up (wadd (length d) ALIGNMENT) ALIGNMENT) root) (write_volume env d)"

definition replace_bytes ::
  "('r, 'k) vd_env \<Rightarrow> string \<Rightarrow> u8 list \<Rightarrow> 'r option \<Rightarrow> (disk_file, vd_error, unit) sx" where
  "replace_bytes env name d root =
     (let capacity = align_up (wadd (length d) ALIGNMENT) ALIGNMENT in
      sx_bind (load_or_initialize_manifest env) (\<lambda>m.
      sx_bind (allocate_volume env name capacity (m\<lparr>dm_volumes := AList.delete name (dm_volumes m)\<rparr>)) (\<lambda>_.
      sx_bind (vb_open env name capacity root) (write_volume env d))))"

definition remove_volume :: "('r, 'k) vd_env \<Rightarrow> string \<Rightarrow> (disk_file option, vd_error, bool) sx" where
  "remove_volume env name disk = (case disk of None \<Rightarrow> (Inr False, None)
     | Some f \<Rightarrow> (case load_or_initialize_manifest env f of
         (Inl e, f) \<Rightarrow> (Inl e, Some f)
       | (Inr m, f) \<Rightarrow>
          if map_of (dm_volumes m) name = None then (Inr False, Some f)
          else (case persist_manifest env (m\<lparr>dm_volumes := AList.delete name (dm_volumes m)\<rparr>) f of
                  (r, f) \<Rightarrow> (map_sum id (\<lambda>_. True) r, Some f))))"

definition materialize :: "('r, 'k) vd_env \<Rightarrow> string \<Rightarrow> 'r option \<Rightarrow> (disk_file, vd_error, u8 list) sx" where
  "materialize env name root =
     sx_bind (vb_open env name ALIGNMENT root) (\<lambda>b. sx_ask (\<lambda>f. vb_read_all env (b, f)))"

definition sanitize_volume_component :: "string \<Rightarrow> string" where
  "sanitize_volume_component input =
     (let out = concat (map (\<lambda>ch. if length ch = 1 \<and> (hd ch \<in> set ''abcdefghijklmnopqrstuvwxyz''
            \<or> hd ch \<in> set ''ABCDEFGHIJKLMNOPQRSTUVWXYZ'' \<or> hd ch \<in> set ''0123456789-_'')
          then ch else ''_'') (chars input)) in
      if out = [] then ''blob'' else out)"

definition blob_volume_name :: "string \<Rightarrow> string \<Rightarrow> string" where
  "blob_volume_name ns key =
     ''blob.'' @ sanitize_volume_component ns @ ''.'' @ sanitize_volume_component key"


subsection \<open>Ranges and alignment\<close>

lemma rng_length [simp]: "length (rng f off n) = n"
  by (simp add: rng_def)

lemma rng_0 [simp]: "rng f off 0 = []"
  by (simp add: rng_def)

lemma rng_Nil [simp]: "rng f off n = [] \<longleftrightarrow> n = 0"
  by (auto simp: rng_def)

lemma rng_append: "rng f off (m + n) = rng f off m @ rng f (off + m) n"
  unfolding rng_def by (simp add: upt_add_eq_append[of off "off + m" n, simplified] add.assoc[symmetric])

lemma rng_cong: "(\<And>i. off \<le> i \<Longrightarrow> i < off + n \<Longrightarrow> f_byte f i = f_byte g i) \<Longrightarrow> rng f off n = rng g off n"
  by (simp add: rng_def)

lemma rng_write_same: "rng (file_write off d f) off (length d) = d"
  by (auto simp: rng_def file_write_def intro: nth_equalityI)

lemma write_other: "i < off \<or> off + length d \<le> i \<Longrightarrow> f_byte (file_write off d f) i = f_byte f i"
  by (auto simp: file_write_def)

lemma rng_write_other:
  "off + n \<le> w \<or> w + length d \<le> off \<Longrightarrow> rng (file_write w d f) off n = rng f off n"
  by (rule rng_cong) (auto intro!: write_other)

lemma write_len [simp]: "f_len (file_write off d f) = (if d = [] then f_len f else max (f_len f) (off + length d))"
  by (simp add: file_write_def)

lemma file_read_rng: "off + n \<le> f_len f \<Longrightarrow> file_read f off n = Inr (rng f off n)"
  by (simp add: file_read_def)

lemma ALIGNMENT_pos [simp]: "0 < ALIGNMENT" "ALIGNMENT \<noteq> 0"
  by (simp_all add: ALIGNMENT_def)

lemma align_up_bound:
  assumes "v \<le> e" "ALIGNMENT dvd e" "e < 2 ^ 64"
  shows "v \<le> align_up v ALIGNMENT \<and> align_up v ALIGNMENT \<le> e \<and> ALIGNMENT dvd align_up v ALIGNMENT"
proof (cases "v mod ALIGNMENT = 0")
  case False
  let ?u = "v + (ALIGNMENT - v mod ALIGNMENT)"
  have r: "v mod ALIGNMENT < ALIGNMENT" by simp
  have "?u = ALIGNMENT * (v div ALIGNMENT + 1)"
    using r mult_div_mod_eq[of ALIGNMENT v] unfolding distrib_left by linarith
  then have dvd: "ALIGNMENT dvd ?u" by simp
  have "v \<noteq> e" using False assms(2) by auto
  with assms(1) have "v < e" by simp
  have "?u \<le> e"
  proof (rule ccontr)
    assume "\<not> ?u \<le> e"
    then have "0 < ?u - e" "?u - e < ALIGNMENT" using r \<open>v < e\<close> False by linarith+
    moreover have "ALIGNMENT dvd ?u - e" using dvd assms(2) by (rule dvd_diff_nat)
    ultimately show False by (auto dest: dvd_imp_le)
  qed
  with assms(3) have "?u < 2 ^ 64" by linarith
  with False have "align_up v ALIGNMENT = ?u" by (simp add: align_up_def Let_def)
  moreover have "v \<le> ?u" by (rule le_add1)
  ultimately show ?thesis using dvd \<open>?u \<le> e\<close> by metis
qed (use assms in \<open>auto simp: align_up_def\<close>)

lemma align_down_split:
  assumes "ALIGNMENT dvd base"
  shows "align_down (base + off) ALIGNMENT = base + align_down off ALIGNMENT"
  using assms by (auto simp: align_down_def algebra_simps)

lemma align_down_props: "align_down v ALIGNMENT \<le> v" "ALIGNMENT dvd align_down v ALIGNMENT"
  by (simp_all add: align_down_def)

subsection \<open>Sector ciphers\<close>

text \<open>What reading and writing need of the cipher, as a function of the absolute offset: it keeps the
  length, works sector by sector, and decryption undoes encryption.\<close>

locale sector_cipher =
  fixes crypt :: "bool \<Rightarrow> nat \<Rightarrow> u8 list \<Rightarrow> vd_error + u8 list"
  assumes crypt_length: "crypt e s d = Inr c \<Longrightarrow> length c = length d"
    and crypt_append: "ALIGNMENT dvd s \<Longrightarrow> ALIGNMENT dvd length x \<Longrightarrow>
      crypt e s (x @ y) = sbind (crypt e s x) (\<lambda>a. sbind (crypt e (s + length x) y) (\<lambda>c. Inr (a @ c)))"
    and crypt_inverse: "crypt True s d = Inr c \<Longrightarrow> crypt False s c = Inr d"
begin

lemma crypt_append_Inr:
  assumes "ALIGNMENT dvd s" "ALIGNMENT dvd length x"
  shows "crypt e s (x @ y) = Inr p \<longleftrightarrow>
    (\<exists>a c. crypt e s x = Inr a \<and> crypt e (s + length x) y = Inr c \<and> p = a @ c)"
  by (auto simp: crypt_append[OF assms] sbind_Inr_iff)

lemma window_split:
  assumes "ALIGNMENT dvd s" "ALIGNMENT dvd length x" "z = [] \<or> ALIGNMENT dvd length y"
  shows "crypt e s (x @ y @ z) = Inr p \<longleftrightarrow>
    (\<exists>a m c. crypt e s x = Inr a \<and> crypt e (s + length x) y = Inr m \<and>
       (if z = [] then c = [] else crypt e (s + length x + length y) z = Inr c) \<and> p = a @ m @ c)"
proof (cases "z = []")
  case True
  then show ?thesis using crypt_append_Inr[OF assms(1,2)] by auto
next
  case False
  have "ALIGNMENT dvd s + length x" using assms by (simp add: dvd_add)
  from crypt_append_Inr[OF this, of y e z] False assms(3)
  show ?thesis using crypt_append_Inr[OF assms(1,2), of e "y @ z"] by auto
qed

lemma read_window:
  assumes "ALIGNMENT dvd s" "ALIGNMENT dvd length x" "z = [] \<or> ALIGNMENT dvd length y"
    and "crypt False s (x @ y @ z) = Inr p"
  shows "crypt False (s + length x) y = Inr (take (length y) (drop (length x) p))"
proof -
  from assms(4)[unfolded window_split[OF assms(1-3)]] obtain a m w where
    p: "crypt False s x = Inr a" "crypt False (s + length x) y = Inr m" "p = a @ m @ w" by blast
  then show ?thesis using crypt_length[OF p(1)] crypt_length[OF p(2)] by simp
qed

lemma write_window:
  assumes "ALIGNMENT dvd s" "ALIGNMENT dvd length x" "z = [] \<or> ALIGNMENT dvd length y \<and> length new = length y"
    and "crypt False s (x @ y @ z) = Inr p" "crypt True (s + length x) new = Inr c"
  shows "crypt False s (x @ c @ z) = Inr (take (length x) p @ new @ drop (length x + length y) p)"
proof -
  have len: "length c = length new" using crypt_length[OF assms(5)] .
  have d: "crypt False (s + length x) c = Inr new" using crypt_inverse[OF assms(5)] .
  have al: "z = [] \<or> ALIGNMENT dvd length y" "z = [] \<or> ALIGNMENT dvd length c" using assms(3) len by auto
  from assms(4)[unfolded window_split[OF assms(1,2) al(1)]] obtain a m w where
    p: "crypt False s x = Inr a" "crypt False (s + length x) y = Inr m" "p = a @ m @ w"
      "if z = [] then w = [] else crypt False (s + length x + length y) z = Inr w" by blast
  have "crypt False s (x @ c @ z) = Inr (a @ new @ w)"
    unfolding window_split[OF assms(1,2) al(2)] using p d len assms(3) by (auto split: if_splits)
  moreover have "length a = length x" "length m = length y" using p crypt_length by auto
  ultimately show ?thesis using p(3) by simp
qed

end

text \<open>The XTS code of the cipher crates: an area is processed in sectors of 4096 bytes numbered from
  the given one, lengths are kept, decryption undoes encryption; \<open>None\<close> is its panic on a last
  sector shorter than a cipher block.\<close>

locale xts_laws =
  fixes env :: "('r, 'k) vd_env"
  assumes area_length: "vd_area env e k s d = Some c \<Longrightarrow> length c = length d"
    and area_append: "x \<noteq> [] \<Longrightarrow> y \<noteq> [] \<Longrightarrow> ALIGNMENT dvd length x \<Longrightarrow>
      vd_area env e k s (x @ y) = (case vd_area env e k s x of None \<Rightarrow> None
        | Some a \<Rightarrow> map_option ((@) a) (vd_area env e k (s + length x div ALIGNMENT) y))"
    and area_inverse: "vd_area env True k s d = Some c \<Longrightarrow> vd_area env False k s c = Some d"

lemma apply_xts_clear: "apply_xts env None e s d = Inr d"
  by (simp add: apply_xts_def)

interpretation clear: sector_cipher "apply_xts env None" for env
  by unfold_locales (simp_all add: apply_xts_clear)

sublocale xts_laws \<subseteq> vol: sector_cipher "apply_xts env key" for key
proof
  show "apply_xts env key e s d = Inr c \<Longrightarrow> length c = length d" for e s d c
    by (auto simp: apply_xts_def ok_or_Inr_iff area_length split: option.splits if_splits)
  show "apply_xts env key True s d = Inr c \<Longrightarrow> apply_xts env key False s c = Inr d" for s d c
    using area_length by (fastforce simp: apply_xts_def ok_or_Inr_iff area_inverse split: option.splits if_splits)
  fix s e and x y :: "u8 list"
  assume al: "ALIGNMENT dvd s" "ALIGNMENT dvd length x"
  then have "(s + length x) div ALIGNMENT = s div ALIGNMENT + length x div ALIGNMENT"
    by (simp add: div_plus_div_distrib_dvd_left)
  then show "apply_xts env key e s (x @ y) = sbind (apply_xts env key e s x)
      (\<lambda>a. sbind (apply_xts env key e (s + length x) y) (\<lambda>c. Inr (a @ c)))"
    using al by (auto simp: apply_xts_def area_append ok_or_def sbind_def split: option.split)
qed


subsection \<open>A handle as an array of bytes\<close>

definition vol_plain :: "('r, 'k) vd_env \<Rightarrow> 'k backend \<Rightarrow> disk_file \<Rightarrow> vd_error + u8 list" where
  "vol_plain env b f = apply_xts env (vb_key b) False (vb_base b) (rng f (vb_base b) (vb_len b))"

definition handle_ok :: "'k backend \<Rightarrow> disk_file \<Rightarrow> bool" where
  "handle_ok b f \<longleftrightarrow> ALIGNMENT dvd vb_base b \<and> ALIGNMENT dvd vb_capacity b \<and> HEADER_BYTES \<le> vb_base b \<and>
     vb_base b + vb_capacity b \<le> f_len f \<and> vb_base b + vb_capacity b < 2 ^ 64 \<and> vb_len b \<le> vb_capacity b"

text \<open>The byte positions a transfer of \<open>n\<close> bytes at \<open>off\<close> touches: \<open>x\<close> whole sectors before it, then
  the window up to the end of the last touched sector or of the data.\<close>

lemma transfer_bounds:
  assumes "handle_ok b f" "off + n \<le> vb_capacity b"
  defines "q \<equiv> align_down off ALIGNMENT" and "u \<equiv> align_up (vb_base b + off + n) ALIGNMENT"
  shows "checked_end_offset b off n = Inr (off + n)" "absolute_offset b off = Inr (vb_base b + off)"
    "align_down (vb_base b + off) ALIGNMENT = vb_base b + q" "q \<le> off" "ALIGNMENT dvd q"
    "vb_base b + off + n \<le> u" "u \<le> vb_base b + vb_capacity b" "ALIGNMENT dvd u"
    "wadd (vb_base b + off) n = vb_base b + off + n" "wadd (vb_base b) (vb_len b) = vb_base b + vb_len b"
proof -
  have h: "ALIGNMENT dvd vb_base b" "ALIGNMENT dvd vb_base b + vb_capacity b"
    "vb_base b + vb_capacity b < 2 ^ 64" "vb_len b \<le> vb_capacity b"
    using assms(1) by (auto simp: handle_ok_def dvd_add)
  show "checked_end_offset b off n = Inr (off + n)" "absolute_offset b off = Inr (vb_base b + off)"
    "wadd (vb_base b + off) n = vb_base b + off + n" "wadd (vb_base b) (vb_len b) = vb_base b + vb_len b"
    using h assms(2) by (auto simp: checked_end_offset_def absolute_offset_def ok_or_def sbind_def checked_add_def)
  show "align_down (vb_base b + off) ALIGNMENT = vb_base b + q" by (simp add: q_def align_down_split h)
  show "q \<le> off" "ALIGNMENT dvd q" by (simp_all add: q_def align_down_props)
  have "vb_base b + off + n \<le> vb_base b + vb_capacity b" using assms(2) by simp
  from align_up_bound[OF this h(2,3)]
  show "vb_base b + off + n \<le> u" "u \<le> vb_base b + vb_capacity b" "ALIGNMENT dvd u" by (simp_all add: u_def)
qed

lemma to_le64_length [simp]: "length (to_le64 n) = 8"
  by (simp add: to_le64_def)

lemma header_image_length: "length e \<le> HEADER_BYTES - 16 \<Longrightarrow> length (header_image e) = HEADER_BYTES"
  by (simp add: header_image_def MAGIC_def HEADER_BYTES_def)

lemma persist_Inr:
  assumes "persist_manifest env m f = (Inr (), f')"
  shows "f' = file_write 0 (header_image (vd_to_json env m)) f" "length (vd_to_json env m) \<le> HEADER_BYTES - 16"
    "f_len f' = max (f_len f) HEADER_BYTES" "HEADER_BYTES \<le> i \<Longrightarrow> f_byte f' i = f_byte f i"
proof -
  show f': "f' = file_write 0 (header_image (vd_to_json env m)) f" and le: "length (vd_to_json env m) \<le> HEADER_BYTES - 16"
    using assms by (auto simp: persist_manifest_def Let_def split: if_splits)
  note len = header_image_length[OF le]
  moreover from len have "header_image (vd_to_json env m) \<noteq> []" by (auto simp: HEADER_BYTES_def)
  ultimately show "f_len f' = max (f_len f) HEADER_BYTES" by (simp add: f')
  show "HEADER_BYTES \<le> i \<Longrightarrow> f_byte f' i = f_byte f i" using len by (simp add: f' write_other)
qed

lemma set_len_Inr:
  assumes "set_len_locked env n (b, f) = (Inr (), (b', f'))"
  shows "\<exists>m. b' = b\<lparr>vb_manifest := m, vb_len := n\<rparr> \<and> persist_manifest env m f = (Inr (), f')"
  using assms by (auto simp: set_len_locked_def Let_def split: option.splits prod.splits sum.splits)

text \<open>The stored bytes of a volume, cut at two positions.\<close>

lemma rng_cut: "a \<le> c \<Longrightarrow> c \<le> n \<Longrightarrow> rng f o1 n = rng f o1 a @ rng f (o1 + a) (c - a) @ rng f (o1 + c) (n - c)"
  using rng_append[of f o1 a "n - a"] rng_append[of f "o1 + a" "c - a" "n - c"] by simp

lemma dvd_window: "ALIGNMENT dvd base \<Longrightarrow> ALIGNMENT dvd q \<Longrightarrow> ALIGNMENT dvd u \<Longrightarrow> base + q \<le> u \<Longrightarrow>
  ALIGNMENT dvd (u - base - q)"
  by (simp add: dvd_diff_nat)

context xts_laws
begin

lemma read_array:
  assumes ok: "handle_ok b f" and p: "vol_plain env b f = Inr p" and le: "off + n \<le> vb_len b"
  shows "vb_read env off n (b, f) = Inr (take n (drop off p))"
proof -
  let ?B = "vb_base b" and ?L = "vb_len b"
  define q where "q = align_down off ALIGNMENT"
  define u where "u = align_up (?B + off + n) ALIGNMENT"
  have cap: "?L \<le> vb_capacity b" "ALIGNMENT dvd ?B" "?B + vb_capacity b \<le> f_len f"
    using ok by (simp_all add: handle_ok_def)
  note t = transfer_bounds[OF ok order_trans[OF le cap(1)], folded q_def u_def]
  define c where "c = min u (?B + ?L) - ?B"
  have c: "q \<le> c" "c \<le> ?L" "off + n \<le> c" "min u (?B + ?L) = ?B + c" using t(4,6) le by (auto simp: c_def)
  have last: "rng f (?B + c) (?L - c) = [] \<or> ALIGNMENT dvd length (rng f (?B + q) (c - q))"
  proof (cases "u \<le> ?B + ?L")
    case True
    then have "c - q = u - ?B - q" by (simp add: c_def)
    then show ?thesis using dvd_window[OF cap(2) t(5,8)] t(4,6) by simp
  qed (simp add: c_def)
  from vol.read_window[OF cap(2) _ last, of "rng f ?B q"] p rng_cut[OF c(1,2), of f ?B] t(5)
  have dec: "apply_xts env (vb_key b) False (?B + q) (rng f (?B + q) (c - q)) =
      Inr (take (c - q) (drop q p))" by (simp add: vol_plain_def)
  have plen: "length p = ?L" using p vol.crypt_length by (auto simp: vol_plain_def)
  have rd: "file_read f (?B + q) (c - q) = Inr (rng f (?B + q) (c - q))"
    using c cap by (intro file_read_rng) linarith
  have "take n (drop (off - q) (take (c - q) (drop q p))) = take n (drop off p)"
    using t(4) c by (simp add: drop_take min_absorb1)
  moreover have "?B + c - (?B + q) = c - q" "?B + off - (?B + q) = off - q" by simp_all
  moreover have "\<not> ?L < off + n" "\<not> ?B + c < ?B + q" "\<not> c - q < off - q + n"
    "length (take (c - q) (drop q p)) = c - q" using le c t(4) plen by auto
  ultimately show ?thesis
    unfolding vb_read_def prod.case t(1,2) sbind_simps Let_def t(3,9,10) u_def[symmetric] c(4)
    by (simp only: rd dec sbind_simps if_False)
qed

text \<open>The new contents of the window, as lists: \<open>m\<close> is the old window, \<open>zs\<close> the zeros past the end.\<close>

lemma splice_window:
  fixes p d :: "u8 list"
  assumes "q \<le> off" "off \<le> length p" "off + length d \<le> c" "c \<le> length p \<or> c = off + length d"
  defines "k \<equiv> min c (length p)"
  defines "m \<equiv> take (k - q) (drop q p) @ replicate (c - q - (k - q)) 0"
  shows "take q p @ (take (off - q) m @ d @ drop (off - q + length d) m) @ drop k p =
      take off p @ d @ drop (off + length d) p" "length m = c - q"
proof -
  have k: "off \<le> k" "k \<le> length p" "k \<le> c" using assms(2,3) by (auto simp: k_def)
  show len: "length m = c - q" using k assms(1) by (simp add: m_def)
  have "take (off - q) m = take (off - q) (drop q p)" using k assms(1) by (simp add: m_def)
  then have front: "take q p @ take (off - q) m = take off p"
    using assms(1) take_add[of q "off - q" p] by simp
  have "drop (off - q + length d) m @ drop k p = drop (off + length d) p"
  proof (cases "c \<le> length p")
    case True
    then have "m = take (c - q) (drop q p)" "k = c" by (simp_all add: m_def k_def)
    then have "drop (off - q + length d) m = take (c - (off + length d)) (drop (off + length d) p)"
      using assms(1) by (simp add: drop_take)
    moreover have "drop k p = drop (c - (off + length d)) (drop (off + length d) p)"
      using assms(3) \<open>k = c\<close> by simp
    ultimately show ?thesis by (simp only: append_take_drop_id)
  next
    case False
    then have "c = off + length d" "k = length p" using assms(4) by (auto simp: k_def)
    then show ?thesis using False len assms(1) by simp
  qed
  with front show "take q p @ (take (off - q) m @ d @ drop (off - q + length d) m) @ drop k p =
      take off p @ d @ drop (off + length d) p" by (metis append_assoc)
qed

text \<open>The bytes written when a write succeeds.\<close>

lemma write_cases:
  assumes ok: "handle_ok b f" and le: "off \<le> vb_len b" and fit: "off + length d \<le> vb_capacity b"
    and w: "vb_write env off d (b, f) = (Inr (), (b', f'))"
  defines "q \<equiv> align_down off ALIGNMENT" and "u \<equiv> align_up (vb_base b + off + length d) ALIGNMENT"
  defines "c \<equiv> max (off + length d) (min (u - vb_base b) (vb_len b))"
  obtains img where
    "write_image env (vb_key b) (vb_base b + off) (vb_base b + q) (vb_base b + c) (min c (vb_len b) - q) d f = Inr img"
    "if vb_len b < off + length d
     then set_len_locked env (off + length d) (b, file_write (vb_base b + q) img f) = (Inr (), (b', f'))
     else b' = b \<and> f' = file_write (vb_base b + q) img f"
proof -
  note t = transfer_bounds[OF ok fit, folded q_def u_def]
  have e: "max (vb_base b + off + length d) (min u (vb_base b + vb_len b)) = vb_base b + c"
    using t(6) by (auto simp: c_def)
  have x: "min (vb_base b + vb_len b - (vb_base b + q)) (vb_base b + c - (vb_base b + q)) = min c (vb_len b) - q"
    by simp
  let ?W = "write_image env (vb_key b) (vb_base b + off) (vb_base b + q) (vb_base b + c) (min c (vb_len b) - q) d f"
  note w' = w[unfolded vb_write_def prod.case t(1,2) sbind_simps Let_def t(3,9,10) u_def[symmetric] e x]
  show ?thesis
  proof (cases ?W)
    case (Inl err)
    from w'[unfolded Inl sbind_simps sum.case] show ?thesis by simp
  next
    case (Inr img)
    from w'[unfolded Inr sbind_simps sum.case prod.case] show ?thesis
      by (intro that[OF Inr]) (auto split: if_splits)
  qed
qed

lemma write_fits:
  assumes "vb_write env off d (b, f) = (Inr (), s')"
  shows "off + length d \<le> vb_capacity b"
proof (cases "checked_end_offset b off (length d)")
  case (Inl err)
  from assms[unfolded vb_write_def prod.case Inl sbind_simps sum.case] show ?thesis by simp
qed (auto simp: checked_end_offset_def sbind_Inr_iff ok_or_Inr_iff split: if_splits)

lemma write_array:
  assumes ok: "handle_ok b f" and p: "vol_plain env b f = Inr p" and le: "off \<le> vb_len b"
    and w: "vb_write env off d (b, f) = (Inr (), (b', f'))"
  shows "vol_plain env b' f' = Inr (take off p @ d @ drop (off + length d) p)"
    and "handle_ok b' f'" and "vb_len b' = max (vb_len b) (off + length d)"
    and "HEADER_BYTES \<le> i \<Longrightarrow> i < vb_base b \<or> vb_base b + vb_capacity b \<le> i \<Longrightarrow> f_byte f' i = f_byte f i"
proof -
  let ?B = "vb_base b" and ?L = "vb_len b" and ?n = "length d" and ?C = "apply_xts env (vb_key b)"
  define q where "q = align_down off ALIGNMENT"
  define u where "u = align_up (?B + off + ?n) ALIGNMENT"
  define c where "c = max (off + ?n) (min (u - ?B) ?L)"
  define k where "k = min c ?L"
  define m where "m = take (k - q) (drop q p) @ replicate (c - q - (k - q)) 0"
  note fit = write_fits[OF w]
  have h: "?L \<le> vb_capacity b" "ALIGNMENT dvd ?B" "?B + vb_capacity b \<le> f_len f" "HEADER_BYTES \<le> ?B"
    using ok by (simp_all add: handle_ok_def)
  note t = transfer_bounds[OF ok fit, folded q_def u_def]
  have plen: "length p = ?L" using p vol.crypt_length by (auto simp: vol_plain_def)
  have c: "off + ?n \<le> c" "c \<le> vb_capacity b" "c \<le> ?L \<or> c = off + ?n" "q \<le> k" "k \<le> ?L" "k \<le> c"
    using t(4,7) fit h(1) le by (auto simp: c_def k_def)
  from write_cases[OF ok le fit w, folded q_def u_def, folded c_def, folded k_def] obtain img where
    img: "write_image env (vb_key b) (?B + off) (?B + q) (?B + c) (k - q) d f = Inr img" and
    fin: "if ?L < off + ?n then set_len_locked env (off + ?n) (b, file_write (?B + q) img f) = (Inr (), (b', f'))
       else b' = b \<and> f' = file_write (?B + q) img f" by blast
  let ?x = "rng f ?B q" and ?y = "rng f (?B + q) (k - q)" and ?z = "rng f (?B + k) (?L - k)"
  have cut: "?C False ?B (?x @ ?y @ ?z) = Inr p" using p rng_cut[OF c(4,5), of f ?B] by (simp add: vol_plain_def)
  have al: "?z = [] \<or> ALIGNMENT dvd length ?y \<and> k = c"
  proof (cases "k < ?L")
    case True
    then have "c = u - ?B" "k = c" using c(1) t(6) by (auto simp: c_def k_def)
    then show ?thesis using dvd_window[OF h(2) t(5,8)] t(4,6) by simp
  qed simp
  have old: "(if 0 < k - q then sbind (file_read f (?B + q) (k - q)) (?C False (?B + q)) else Inr []) =
      Inr (take (k - q) (drop q p))"
    using vol.read_window[OF h(2) _ _ cut] al t(5) h(1,3) c(4,5) by (auto simp: file_read_rng)
  note sp = splice_window[where p = p and off = off and d = d and c = c and q = q,
      unfolded plen, folded k_def, folded m_def, OF t(4) le c(1,3)]
  let ?new = "take (off - q) m @ d @ drop (off - q + ?n) m"
  have i: "?B + c - (?B + q) - (k - q) = c - q - (k - q)" "?B + off - (?B + q) = off - q" by simp_all
  have enc: "?C True (?B + q) ?new = Inr img"
    using img unfolding write_image_def old sbind_simps Let_def i m_def[symmetric] by (simp split: if_splits)
  have new: "length ?new = c - q" using sp(2) c(1) t(4) by simp
  then have ilen: "length img = c - q" using vol.crypt_length[OF enc] by simp
  have alw: "?z = [] \<or> ALIGNMENT dvd length ?y \<and> length ?new = length ?y" using al new by auto
  have qx: "ALIGNMENT dvd length ?x" using t(5) by simp
  from vol.write_window[OF h(2) qx alw cut] enc sp(1)
  have dec: "?C False ?B (?x @ img @ ?z) = Inr (take off p @ d @ drop (off + ?n) p)"
    using c(4) by simp
  let ?f = "file_write (?B + q) img f"
  let ?M = "max ?L (off + ?n)"
  have M: "q \<le> c" "c \<le> ?M" "?M - c = ?L - k" "?M \<le> vb_capacity b"
    using c h(1) fit by (auto simp: k_def)
  have "rng ?f (?B + c) (?L - k) = ?z"
    using al ilen c(4,5,6) by (cases "?L = k") (simp_all add: rng_write_other)
  moreover have "rng ?f (?B + q) (c - q) = img" using rng_write_same[of "?B + q" img f] ilen by simp
  moreover have "rng ?f ?B q = ?x" by (rule rng_write_other) simp
  ultimately have f1: "rng ?f ?B ?M = ?x @ img @ ?z" using rng_cut[OF M(1,2), of ?f ?B] M(3) by simp
  have far: "HEADER_BYTES \<le> i \<Longrightarrow> f_byte f' i = f_byte ?f i" "f_len ?f \<le> f_len f'"
    "b'\<lparr>vb_manifest := vb_manifest b\<rparr> = b\<lparr>vb_len := ?M\<rparr>" for i
    using fin by (auto dest!: set_len_Inr simp: persist_Inr(4) split: if_splits) (auto dest: persist_Inr(3))
  have b': "vb_base b' = ?B" "vb_key b' = vb_key b" "vb_capacity b' = vb_capacity b" "vb_len b' = ?M"
    using arg_cong[OF far(3), of vb_base] arg_cong[OF far(3), of vb_key] arg_cong[OF far(3), of vb_capacity]
      arg_cong[OF far(3), of vb_len] by simp_all
  have "rng f' ?B ?M = rng ?f ?B ?M" by (rule rng_cong) (use h(4) far(1) in auto)
  then show "vol_plain env b' f' = Inr (take off p @ d @ drop (off + ?n) p)"
    using dec f1 by (simp add: vol_plain_def b')
  have "f_len f \<le> f_len f'" using far(2) by (auto split: if_splits)
  then show "handle_ok b' f'" using ok M(4) by (auto simp: handle_ok_def b')
  show "vb_len b' = ?M" by (rule b')
  show "HEADER_BYTES \<le> i \<Longrightarrow> i < ?B \<or> ?B + vb_capacity b \<le> i \<Longrightarrow> f_byte f' i = f_byte f i"
    using far(1)[of i] ilen c(2,4,6) by (auto intro!: write_other)
qed

end

subsection \<open>Header\<close>

definition json_ok :: "('r, 'k) vd_env \<Rightarrow> bool" where
  "json_ok env \<longleftrightarrow> (\<forall>m. vd_from_json env (vd_to_json env m) = Some m \<and> vd_to_json env m \<noteq> [])"

lemma from_to_le64: "n < 2 ^ 64 \<Longrightarrow> from_le64 (to_le64 n) = n"
proof -
  have "unat (of_nat m :: u8) = m mod 256" for m by (simp add: unat_of_nat)
  then have "from_le64 (to_le64 n) = foldr (\<lambda>i acc. n div 256 ^ i mod 256 + 256 * acc) [0..<8] 0"
    unfolding from_le64_def to_le64_def by (simp add: foldr_map o_def)
  then show "n < 2 ^ 64 \<Longrightarrow> ?thesis" by (simp only: digits_mod) simp
qed

lemma rng_write_inside:
  "off + n \<le> length d \<Longrightarrow> rng (file_write 0 d f) off n = take n (drop off d)"
  by (rule nth_equalityI) (auto simp: rng_def file_write_def)

lemma read_persisted:
  assumes json: "json_ok env" and p: "persist_manifest env m f = (Inr (), f')"
  shows "read_manifest env f' = Inr m"
proof -
  let ?e = "vd_to_json env m"
  have le: "length ?e \<le> HEADER_BYTES - 16" and f': "f' = file_write 0 (header_image ?e) f"
    using persist_Inr[OF p] by simp_all
  have H: "length (header_image ?e) = HEADER_BYTES" "HEADER_BYTES \<le> f_len f'"
    using header_image_length[OF le] persist_Inr(3)[OF p] by simp_all
  have rd: "off + n \<le> HEADER_BYTES \<Longrightarrow> file_read f' off n = Inr (take n (drop off (header_image ?e)))" for off n
    using H by (simp add: file_read_def f' rng_write_inside)
  have "length ?e < 2 ^ 64" using le by (simp add: HEADER_BYTES_def)
  then have n: "from_le64 (to_le64 (length ?e)) = length ?e" by (rule from_to_le64)
  have parts: "take 8 (drop 0 (header_image ?e)) = MAGIC" "take 8 (drop 8 (header_image ?e)) = to_le64 (length ?e)"
    "take (length ?e) (drop 16 (header_image ?e)) = ?e"
    by (simp_all add: header_image_def MAGIC_def)
  have bounds: "0 + 8 \<le> HEADER_BYTES" "8 + 8 \<le> HEADER_BYTES" "16 + length ?e \<le> HEADER_BYTES"
    "length ?e \<noteq> 0" "\<not> HEADER_BYTES - 16 < length ?e"
    using le json by (auto simp: HEADER_BYTES_def json_ok_def)
  show ?thesis unfolding read_manifest_def rd[OF bounds(1)] rd[OF bounds(2)] parts sbind_simps Let_def n rd[OF bounds(3)]
    using bounds(4,5) json by (simp add: json_ok_def ok_or_def)
qed

subsection \<open>Allocation\<close>

definition vol_end :: "volume_record \<Rightarrow> nat" where "vol_end v = vr_offset v + vr_capacity v"

definition record_ok :: "disk_file \<Rightarrow> volume_record \<Rightarrow> bool" where
  "record_ok f v \<longleftrightarrow> ALIGNMENT dvd vr_offset v \<and> ALIGNMENT dvd vr_capacity v \<and> HEADER_BYTES \<le> vr_offset v \<and>
     vol_end v \<le> f_len f \<and> vol_end v < 2 ^ 64 \<and> vr_len v \<le> vr_capacity v"

definition apart :: "volume_record \<Rightarrow> volume_record \<Rightarrow> bool" where
  "apart v w \<longleftrightarrow> vol_end v \<le> vr_offset w \<or> vol_end w \<le> vr_offset v"

text \<open>The layout invariant: every recorded volume lies behind the header inside the file, and no two
  overlap.\<close>

definition layout_ok :: "disk_manifest \<Rightarrow> disk_file \<Rightarrow> bool" where
  "layout_ok m f \<longleftrightarrow> distinct (map fst (dm_volumes m)) \<and> (\<forall>v \<in> ran (map_of (dm_volumes m)). record_ok f v) \<and>
     (\<forall>x y v w. map_of (dm_volumes m) x = Some v \<longrightarrow> map_of (dm_volumes m) y = Some w \<longrightarrow> x \<noteq> y \<longrightarrow> apart v w)"

lemma layout_record: "layout_ok m f \<Longrightarrow> map_of (dm_volumes m) x = Some v \<Longrightarrow> record_ok f v"
  unfolding layout_ok_def by (blast intro: ranI)

lemma layout_apart:
  "layout_ok m f \<Longrightarrow> map_of (dm_volumes m) x = Some v \<Longrightarrow> map_of (dm_volumes m) y = Some w \<Longrightarrow> x \<noteq> y \<Longrightarrow> apart v w"
  by (auto simp: layout_ok_def)

lemma next_offset_bound:
  assumes "layout_ok m f"
  shows "HEADER_BYTES \<le> next_offset m" "map_of (dm_volumes m) x = Some v \<Longrightarrow> vol_end v \<le> next_offset m"
proof -
  have d: "distinct (map fst (dm_volumes m))" using assms by (simp add: layout_ok_def)
  have rec: "record_ok f v" if "(x, v) \<in> set (dm_volumes m)" for x v
    using layout_record[OF assms] map_of_is_SomeI[OF d that] by blast
  then have ends: "wadd (vr_offset v) (vr_capacity v) = vol_end v" if "(x, v) \<in> set (dm_volumes m)" for x v
    using that by (fastforce simp: record_ok_def vol_end_def)
  let ?ends = "map (\<lambda>(_, v). wadd (vr_offset v) (vr_capacity v)) (dm_volumes m)"
  have n: "next_offset m = (if dm_volumes m = [] then HEADER_BYTES else Max (set ?ends))"
    by (cases "dm_volumes m") (simp_all add: next_offset_def)
  have up: "vol_end v \<le> next_offset m" if "(x, v) \<in> set (dm_volumes m)" for x v
  proof -
    have "vol_end v \<in> set ?ends" using that ends[OF that] by force
    then show ?thesis using that by (auto simp: n intro: Max_ge)
  qed
  show "map_of (dm_volumes m) x = Some v \<Longrightarrow> vol_end v \<le> next_offset m"
    by (rule up) (rule map_of_SomeD)
  show "HEADER_BYTES \<le> next_offset m"
  proof (cases "dm_volumes m")
    case (Cons a vs)
    obtain x v where "(x, v) \<in> set (dm_volumes m)" using Cons by (cases a) auto
    with up[OF this] rec[OF this] show ?thesis by (simp add: record_ok_def vol_end_def)
  qed (simp add: n)
qed

lemma ensure_len_props:
  assumes "ensure_len n f = (r, f')"
  shows "f_len f' = max n (f_len f)" "i < f_len f \<Longrightarrow> f_byte f' i = f_byte f i"
  using assms by (auto simp: ensure_len_def file_set_len_def split: if_splits)

lemma volumes_put [simp]:
  "map_of (dm_volumes (put_volume name v m)) = (map_of (dm_volumes m))(name \<mapsto> v)"
  "distinct (map fst (dm_volumes m)) \<Longrightarrow> distinct (map fst (dm_volumes (put_volume name v m)))"
  by (simp_all add: put_volume_def update_conv' distinct_update)

lemma layout_grow:
  assumes "layout_ok m f" "f_len f \<le> f_len f'"
  shows "layout_ok m f'"
proof -
  have "record_ok f v \<Longrightarrow> record_ok f' v" for v using assms(2) by (auto simp: record_ok_def)
  with assms(1) show ?thesis unfolding layout_ok_def by blast
qed

text \<open>Allocating a new volume: it gets its own range behind all others, and no stored byte changes.\<close>

lemma allocate_ok:
  assumes lay: "layout_ok m f" and new: "map_of (dm_volumes m) name = None" and json: "json_ok env"
    and fit: "next_offset m + ALIGNMENT + cap < 2 ^ 64" and cap: "ALIGNMENT dvd cap"
    and run: "allocate_volume env name cap m f = (Inr (m', v), f')"
  shows "layout_ok m' f'" "m' = put_volume name v m" "vr_len v = 0" "vr_capacity v = cap"
    "read_manifest env f' = Inr m'" "HEADER_BYTES \<le> f_len f'"
    "HEADER_BYTES \<le> i \<Longrightarrow> i < f_len f \<Longrightarrow> f_byte f' i = f_byte f i" "f_len f \<le> f_len f'"
proof -
  let ?o = "align_up (next_offset m) ALIGNMENT"
  let ?up = "(next_offset m div ALIGNMENT + 1) * ALIGNMENT"
  have "next_offset m \<le> ?up" "?up \<le> next_offset m + ALIGNMENT"
    using div_mult_mod_eq[of "next_offset m" ALIGNMENT] mod_less_divisor[OF ALIGNMENT_pos(1), of "next_offset m"]
    unfolding distrib_right mult_1 by linarith+
  note up = this
  have "?up < 2 ^ 64" using up(2) fit by linarith
  from align_up_bound[OF up(1) dvd_triv_right this] up(2)
  have o: "next_offset m \<le> ?o" "?o \<le> next_offset m + ALIGNMENT" "ALIGNMENT dvd ?o" by linarith+
  have w: "wadd ?o cap = ?o + cap" using o(2) fit by simp
  from run obtain f1 where v: "v = \<lparr>vr_offset = ?o, vr_capacity = cap, vr_len = 0\<rparr>"
    and m': "m' = put_volume name v m" and p: "persist_manifest env m' f = (Inr (), f1)"
    and e: "ensure_len (?o + cap) f1 = (Inr (), f')"
    by (auto simp: allocate_volume_def Let_def sx_bind_Inr_iff w)
  note en = ensure_len_props[OF e] and pe = persist_Inr(3,4)[OF p]
  show "m' = put_volume name v m" "vr_len v = 0" "vr_capacity v = cap" by (simp_all add: m' v)
  show len: "f_len f \<le> f_len f'" and H: "HEADER_BYTES \<le> f_len f'" using en(1) pe(1) by simp_all
  show "HEADER_BYTES \<le> i \<Longrightarrow> i < f_len f \<Longrightarrow> f_byte f' i = f_byte f i" using en(2)[of i] pe by simp
  have "rng f' i n = rng f1 i n" if "i + n \<le> HEADER_BYTES" for i n
    by (rule rng_cong) (use that en(2) pe(1) in auto)
  then have same: "file_read f' i n = file_read f1 i n" if "i + n \<le> HEADER_BYTES" for i n
    using that H pe(1) by (simp add: file_read_def le_max_iff_disj)
  have "read_manifest env f' = read_manifest env f1"
    unfolding read_manifest_def by (auto simp: same HEADER_BYTES_def Let_def intro!: sbind_cong)
  with read_persisted[OF json p] show "read_manifest env f' = Inr m'" by simp
  have bound: "HEADER_BYTES \<le> ?o" "map_of (dm_volumes m) x = Some u \<Longrightarrow> vol_end u \<le> ?o" for x u
    using next_offset_bound[OF lay] o(1) le_trans by blast+
  have v_ok: "record_ok f' v" using bound(1) o fit cap en(1) by (simp add: record_ok_def v vol_end_def)
  note old = layout_grow[OF lay len]
  have behind: "apart u v" "apart v u" if "map_of (dm_volumes m) x = Some u" for x u
    using bound(2)[OF that] by (simp_all add: apart_def v)
  have maps: "map_of (dm_volumes m') = (map_of (dm_volumes m))(name \<mapsto> v)" by (simp add: m')
  have recs: "record_ok f' u" if "map_of (dm_volumes m') x = Some u" for x u
    using that v_ok layout_record[OF old] by (auto simp: maps split: if_splits)
  have pairs: "apart t u" if "map_of (dm_volumes m') x = Some t" "map_of (dm_volumes m') y = Some u" "x \<noteq> y" for x y t u
    using that behind layout_apart[OF lay] by (auto simp: maps split: if_splits)
  have "distinct (map fst (dm_volumes m'))" unfolding m' by (rule volumes_put(2)) (use lay in \<open>simp add: layout_ok_def\<close>)
  then show "layout_ok m' f'" using recs pairs by (auto simp: layout_ok_def ran_def)
qed


text \<open>Opening a volume of a well-formed disk: an existing record is used as it is, a new one is
  allocated; either way the layout stays well formed and every stored byte stays.\<close>

lemma open_ok:
  assumes lay: "layout_ok m f" and rd: "read_manifest env f = Inr m" and ne: "0 < f_len f" and json: "json_ok env"
    and fit: "next_offset m + 2 * ALIGNMENT + cap < 2 ^ 64"
    and run: "vb_open env name cap root f = (Inr b, f')"
  shows "\<exists>m'. layout_ok m' f' \<and> read_manifest env f' = Inr m' \<and> vb_manifest b = m' \<and> vb_name b = name \<and>
     (\<exists>v. map_of (dm_volumes m') = (map_of (dm_volumes m))(name \<mapsto> v) \<and> record_ok f' v \<and>
       (map_of (dm_volumes m) name = None \<or> map_of (dm_volumes m) name = Some v) \<and>
       vb_base b = vr_offset v \<and> vb_capacity b = vr_capacity v \<and> vb_len b = vr_len v)"
    "handle_ok b f'" "HEADER_BYTES \<le> i \<Longrightarrow> i < f_len f \<Longrightarrow> f_byte f' i = f_byte f i" "0 < f_len f'"
proof -
  let ?cap = "align_up cap ALIGNMENT"
  have cap: "ALIGNMENT dvd ?cap" "?cap \<le> cap + ALIGNMENT"
  proof -
    let ?up = "(cap div ALIGNMENT + 1) * ALIGNMENT"
    have up: "cap \<le> ?up" "?up \<le> cap + ALIGNMENT"
      using div_mult_mod_eq[of cap ALIGNMENT] mod_less_divisor[OF ALIGNMENT_pos(1), of cap]
      unfolding distrib_right mult_1 by linarith+
    then have "?up < 2 ^ 64" using fit by linarith
    from align_up_bound[OF up(1) dvd_triv_right this] up(2)
    show "ALIGNMENT dvd ?cap" "?cap \<le> cap + ALIGNMENT" by linarith+
  qed
  from run obtain m' v f1 f2 key where
    alloc: "(case map_of (dm_volumes m) name of Some e \<Rightarrow> sx_return (m, e)
       | None \<Rightarrow> allocate_volume env name ?cap m) f = (Inr (m', v), f1)"
    and ens: "ensure_len (wadd (vr_offset v) (vr_capacity v)) f1 = (Inr (), f')"
    and b: "b = \<lparr>vb_manifest = m', vb_key = key, vb_name = name, vb_base = vr_offset v,
                   vb_capacity = vr_capacity v, vb_len = vr_len v\<rparr>"
    using ne by (auto simp: vb_open_def load_or_initialize_manifest_def rd sx_bind_Inr_iff split: if_splits)
  have f1: "layout_ok m' f1 \<and> map_of (dm_volumes m') = (map_of (dm_volumes m))(name \<mapsto> v) \<and>
      (map_of (dm_volumes m) name = None \<or> map_of (dm_volumes m) name = Some v) \<and>
      read_manifest env f1 = Inr m' \<and> (\<forall>i. HEADER_BYTES \<le> i \<longrightarrow> i < f_len f \<longrightarrow> f_byte f1 i = f_byte f i) \<and>
      f_len f \<le> f_len f1"
  proof (cases "map_of (dm_volumes m) name")
    case None
    then have "allocate_volume env name ?cap m f = (Inr (m', v), f1)" using alloc by simp
    note a = allocate_ok[OF lay None json _ cap(1) this]
    have "next_offset m + ALIGNMENT + ?cap < 2 ^ 64" using fit cap(2) by linarith
    from a[OF this] None show ?thesis by simp
  qed (use alloc lay rd in \<open>auto simp: fun_upd_idem\<close>)
  then have v: "map_of (dm_volumes m') name = Some v" by simp
  with f1 have "record_ok f1 v" using layout_record by blast
  then have "f' = f1" using ens by (auto simp: record_ok_def vol_end_def ensure_len_def)
  moreover from this have ok: "record_ok f' v" using \<open>record_ok f1 v\<close> by simp
  ultimately show "\<exists>m'. layout_ok m' f' \<and> read_manifest env f' = Inr m' \<and> vb_manifest b = m' \<and> vb_name b = name \<and>
     (\<exists>v. map_of (dm_volumes m') = (map_of (dm_volumes m))(name \<mapsto> v) \<and> record_ok f' v \<and>
       (map_of (dm_volumes m) name = None \<or> map_of (dm_volumes m) name = Some v) \<and>
       vb_base b = vr_offset v \<and> vb_capacity b = vr_capacity v \<and> vb_len b = vr_len v)"
    using f1 by (intro exI[of _ m'] conjI exI[of _ v]) (simp_all add: b)
  show "handle_ok b f'" using ok by (simp add: b handle_ok_def record_ok_def vol_end_def)
  show "HEADER_BYTES \<le> i \<Longrightarrow> i < f_len f \<Longrightarrow> f_byte f' i = f_byte f i" "0 < f_len f'"
    using f1 \<open>f' = f1\<close> ne by auto
qed

subsection \<open>Properties\<close>

lemma plain_other:
  assumes "vol_plain env c f = Inr p" "\<And>i. vb_base c \<le> i \<Longrightarrow> i < vb_base c + vb_len c \<Longrightarrow> f_byte f' i = f_byte f i"
  shows "vol_plain env c f' = Inr p"
proof -
  have "rng f' (vb_base c) (vb_len c) = rng f (vb_base c) (vb_len c)" by (rule rng_cong) (use assms(2) in auto)
  with assms(1) show ?thesis by (simp add: vol_plain_def)
qed

text \<open>C15. A volume is an array of bytes, whatever the encryption: a successful write at or before the
  logical end splices the data into the decrypted contents (extending them when it runs past the
  end), and every later read inside the logical length returns that slice of the array; writes that
  start or end inside a sector, or extend a partial last sector, included.\<close>

theorem volume_refines_array:
  assumes "xts_laws env" "handle_ok b f" "vol_plain env b f = Inr p" "off \<le> vb_len b"
    and "vb_write env off d (b, f) = (Inr (), (b', f'))"
    and "at + n \<le> max (vb_len b) (off + length d)"
  shows "vol_plain env b' f' = Inr (take off p @ d @ drop (off + length d) p) \<and> handle_ok b' f' \<and>
    vb_read env at n (b', f') = Inr (take n (drop at (take off p @ d @ drop (off + length d) p)))"
proof -
  note w = xts_laws.write_array(1-3)[OF assms(1-5)]
  have "at + n \<le> vb_len b'" using assms(6) w(3) by simp
  from xts_laws.read_array[OF assms(1) w(2,1) this] w(1,2) show ?thesis by simp
qed

text \<open>Volumes of one disk do not disturb each other: opening a volume, new or existing, on a disk
  whose layout is well formed keeps the layout well formed and the stored bytes of every volume,
  and a write through the handle leaves every other recorded volume's bytes as they were.\<close>

theorem volumes_isolated:
  assumes "xts_laws env" "layout_ok m f" "read_manifest env f = Inr m" "0 < f_len f" "json_ok env"
    and "next_offset m + 2 * ALIGNMENT + cap < 2 ^ 64"
    and "vb_open env name cap root f = (Inr b, f1)" "vol_plain env b f1 = Inr p" "off \<le> vb_len b"
    and "vb_write env off d (b, f1) = (Inr (), (b', f2))"
    and "map_of (dm_volumes m) other = Some v" "other \<noteq> name"
  shows "layout_ok (vb_manifest b) f1 \<and> read_manifest env f1 = Inr (vb_manifest b) \<and>
    map_of (dm_volumes (vb_manifest b)) other = Some v \<and>
    rng f2 (vr_offset v) (vr_capacity v) = rng f (vr_offset v) (vr_capacity v)"
proof -
  note o = open_ok[OF assms(2-7)]
  from o(1) obtain w where lay: "layout_ok (vb_manifest b) f1" and rd: "read_manifest env f1 = Inr (vb_manifest b)"
    and w: "map_of (dm_volumes (vb_manifest b)) = (map_of (dm_volumes m))(name \<mapsto> w)"
      "vb_base b = vr_offset w" "vb_capacity b = vr_capacity w" by blast
  have v: "map_of (dm_volumes (vb_manifest b)) other = Some v" using w(1) assms(11,12) by simp
  have "apart v w" using layout_apart[OF lay v _ assms(12), of w] w(1) by simp
  moreover have "record_ok f v" by (rule layout_record[OF assms(2,11)])
  ultimately have "f_byte f2 i = f_byte f i" if "vr_offset v \<le> i" "i < vr_offset v + vr_capacity v" for i
    using that xts_laws.write_array(4)[OF assms(1) o(2) assms(8-10), of i] o(3)[of i]
    by (auto simp: apart_def vol_end_def record_ok_def w)
  then have "rng f2 (vr_offset v) (vr_capacity v) = rng f (vr_offset v) (vr_capacity v)"
    by (intro rng_cong) auto
  with lay rd v show ?thesis by blast
qed

text \<open>A handle that was opened before another volume was created forgets that volume: the handle
  writes back its own copy of the manifest, so the first change of length through it removes the
  other volume from the header, and with it the way to its data.\<close>

theorem stale_handle_drops_volume:
  assumes "json_ok env" "map_of (dm_volumes (vb_manifest a)) other = None" "other \<noteq> vb_name a"
    and "has_volume env (Some f) other = Inr True"
    and "vb_set_len env n (a, f) = (Inr (), (a', f'))"
  shows "has_volume env (Some f') other = Inr False"
proof -
  have "set_len_locked env n (a, f) = (Inr (), (a', f'))"
    using assms(5) by (auto simp: vb_set_len_def split: if_splits)
  then obtain r where p: "persist_manifest env (put_volume (vb_name a) r (vb_manifest a)) f = (Inr (), f')"
    by (auto simp: set_len_locked_def Let_def split: option.splits prod.splits sum.splits)
  have "f_len f' \<noteq> 0" using persist_Inr(3)[OF p] by (simp add: HEADER_BYTES_def)
  with read_persisted[OF assms(1) p] assms(2,3) show ?thesis by (simp add: has_volume_def)
qed


subsection \<open>A concrete environment\<close>

text \<open>A manifest as a list of numbers, written in binary with a terminator, and a cipher that flips
  bits: the hypotheses of the properties hold together.\<close>

fun enc_num :: "nat \<Rightarrow> u8 list" where
  "enc_num n = (if n = 0 then [2] else (if odd n then 1 else 0) # enc_num (n div 2))"

declare enc_num.simps [simp del]

fun dec_num :: "u8 list \<Rightarrow> nat \<times> u8 list" where
  "dec_num [] = (0, [])"
| "dec_num (b # bs) = (if b = 2 then (0, bs) else (let (n, r) = dec_num bs in (2 * n + (if b = 1 then 1 else 0), r)))"

fun dec_nums :: "nat \<Rightarrow> u8 list \<Rightarrow> nat list" where
  "dec_nums 0 bs = []"
| "dec_nums (Suc k) bs = (let (n, r) = dec_num bs in n # dec_nums k r)"

definition volume_nums :: "string \<times> volume_record \<Rightarrow> nat list" where
  "volume_nums nv = length (fst nv) # map of_char (fst nv) @ [vr_offset (snd nv), vr_capacity (snd nv), vr_len (snd nv)]"

definition manifest_nums :: "disk_manifest \<Rightarrow> nat list" where
  "manifest_nums m = dm_version m # length (dm_volumes m) # concat (map volume_nums (dm_volumes m))"

fun parse_volumes :: "nat \<Rightarrow> nat list \<Rightarrow> (string \<times> volume_record) list" where
  "parse_volumes (Suc k) (l # ns) = (case drop l ns of
      a # c # n # rest \<Rightarrow> (map char_of (take l ns), \<lparr>vr_offset = a, vr_capacity = c, vr_len = n\<rparr>) # parse_volumes k rest
    | _ \<Rightarrow> [])"
| "parse_volumes k ns = []"

definition sample_disk_env :: "(unit, unit) vd_env" where
  "sample_disk_env = \<lparr>
     vd_to_json = (\<lambda>m. enc_num (length (manifest_nums m)) @ concat (map enc_num (manifest_nums m))),
     vd_from_json = (\<lambda>bs. case dec_num bs of (k, r) \<Rightarrow> (case dec_nums k r of
        ver # n # ns \<Rightarrow> Some \<lparr>dm_version = ver, dm_volumes = parse_volumes n ns\<rparr> | _ \<Rightarrow> None)),
     vd_derive = (\<lambda>_ _. Some ()),
     vd_area = (\<lambda>_ _ _ d. Some (map (\<lambda>b. 255 - b) d))\<rparr>"

lemma dec_enc_num: "dec_num (enc_num n @ r) = (n, r)"
proof (induction n rule: enc_num.induct)
  case (1 n)
  then show ?case by (subst enc_num.simps) (cases "n = 0", auto simp: odd_two_times_div_two_succ)
qed

lemma dec_enc_nums: "dec_nums (length ns) (concat (map enc_num ns)) = ns"
  by (induction ns) (simp_all add: dec_enc_num)

lemma parse_nums: "parse_volumes (length vs) (concat (map volume_nums vs)) = vs"
  by (induction vs) (auto simp: volume_nums_def)

lemma sample_json_ok: "json_ok sample_disk_env"
proof -
  have "enc_num n \<noteq> []" for n by (subst enc_num.simps) simp
  then show ?thesis unfolding json_ok_def
    by (simp add: sample_disk_env_def dec_enc_num dec_enc_nums) (simp add: manifest_nums_def parse_nums)
qed

interpretation sample_xts: xts_laws sample_disk_env
  by unfold_locales (auto simp: sample_disk_env_def o_def)

definition sample_record :: "nat \<Rightarrow> volume_record" where
  "sample_record k = \<lparr>vr_offset = HEADER_BYTES + k * 4096, vr_capacity = 4096, vr_len = 2\<rparr>"

definition sample_manifest :: "nat \<Rightarrow> disk_manifest" where
  "sample_manifest k = \<lparr>dm_version = 1, dm_volumes = take k [(''a'', sample_record 0), (''b'', sample_record 1)]\<rparr>"

definition sample_blank :: disk_file where
  "sample_blank = \<lparr>f_len = HEADER_BYTES + 8192, f_byte = (\<lambda>_. 0)\<rparr>"

lemmas enc_num_numeral = enc_num.simps[of "numeral w" for w] enc_num.simps[of 0] enc_num.simps[of "Suc n" for n]

lemmas sample_length = sample_disk_env_def manifest_nums_def volume_nums_def sample_manifest_def
  sample_record_def put_volume_def HEADER_BYTES_def enc_num_numeral

lemma sample_persist:
  "\<exists>f'. persist_manifest sample_disk_env (sample_manifest 2) f = (Inr (), f')"
  "\<exists>f'. persist_manifest sample_disk_env (put_volume ''a'' (sample_record 0\<lparr>vr_len := 0\<rparr>) (sample_manifest 1)) f = (Inr (), f')"
proof -
  have "length (vd_to_json sample_disk_env (sample_manifest 2)) \<le> HEADER_BYTES - 16" by (simp add: sample_length)
  then show "\<exists>f'. persist_manifest sample_disk_env (sample_manifest 2) f = (Inr (), f')"
    by (simp add: persist_manifest_def Let_def)
  have "length (vd_to_json sample_disk_env (put_volume ''a'' (sample_record 0\<lparr>vr_len := 0\<rparr>) (sample_manifest 1)))
      \<le> HEADER_BYTES - 16" by (simp add: sample_length)
  then show "\<exists>f'. persist_manifest sample_disk_env (put_volume ''a'' (sample_record 0\<lparr>vr_len := 0\<rparr>) (sample_manifest 1)) f = (Inr (), f')"
    by (simp add: persist_manifest_def Let_def)
qed


lemma sample_layout: "layout_ok (sample_manifest 2) f" if "HEADER_BYTES + 8192 \<le> f_len f" for f
  using that by (auto simp: layout_ok_def sample_manifest_def sample_record_def record_ok_def vol_end_def
      apart_def ALIGNMENT_def HEADER_BYTES_def ran_def split: if_splits)

lemma sample_disk:
  obtains f where "read_manifest sample_disk_env f = Inr (sample_manifest 2)" "HEADER_BYTES + 8192 \<le> f_len f"
proof -
  obtain f where f: "persist_manifest sample_disk_env (sample_manifest 2) sample_blank = (Inr (), f)"
    using sample_persist(1) by blast
  from read_persisted[OF sample_json_ok f] persist_Inr(3)[OF f] that show thesis by (simp add: sample_blank_def)
qed

definition sample_handle :: "nat \<Rightarrow> unit backend" where
  "sample_handle k = \<lparr>vb_manifest = sample_manifest k, vb_key = Some (), vb_name = ''a'',
     vb_base = HEADER_BYTES, vb_capacity = 4096, vb_len = 2\<rparr>"

lemma sample_handle_ok: "HEADER_BYTES + 8192 \<le> f_len f \<Longrightarrow> handle_ok (sample_handle k) f"
  by (simp add: handle_ok_def sample_handle_def ALIGNMENT_def HEADER_BYTES_def)

lemma sample_plain: "\<exists>p. vol_plain sample_disk_env (sample_handle k) f = Inr p"
  by (simp add: vol_plain_def sample_handle_def apply_xts_def sample_disk_env_def ok_or_def)

lemma sample_handle_simps [simp]:
  "vb_base (sample_handle k) = HEADER_BYTES" "vb_len (sample_handle k) = 2" "vb_key (sample_handle k) = Some ()"
  "vb_capacity (sample_handle k) = 4096" "vb_manifest (sample_handle k) = sample_manifest k" "vb_name (sample_handle k) = ''a''"
  by (simp_all add: sample_handle_def)

lemma sample_image:
  assumes "HEADER_BYTES + 8192 \<le> f_len f"
  shows "\<exists>img. write_image sample_disk_env (Some ()) HEADER_BYTES HEADER_BYTES (HEADER_BYTES + 2) 2 [7] f = Inr img"
proof -
  have "file_read f HEADER_BYTES 2 = Inr (rng f HEADER_BYTES 2)" using assms by (intro file_read_rng) simp
  moreover have "apply_xts sample_disk_env (Some ()) e HEADER_BYTES d = Inr (map (\<lambda>b. 255 - b) d)" for e d
    by (simp add: apply_xts_def sample_disk_env_def ok_or_def)
  ultimately show ?thesis by (simp add: write_image_def Let_def)
qed

lemma sample_write:
  assumes "HEADER_BYTES + 8192 \<le> f_len f"
  shows "\<exists>f'. vb_write sample_disk_env 0 [7] (sample_handle k, f) = (Inr (), (sample_handle k, f'))"
proof -
  have a: "align_down HEADER_BYTES ALIGNMENT = HEADER_BYTES" "align_up (HEADER_BYTES + 1) ALIGNMENT = HEADER_BYTES + 4096"
    "wadd HEADER_BYTES 1 = HEADER_BYTES + 1" "wadd HEADER_BYTES 2 = HEADER_BYTES + 2"
    by (simp_all add: align_down_def align_up_def ALIGNMENT_def HEADER_BYTES_def)
  have c: "checked_end_offset (sample_handle k) 0 1 = Inr 1" "absolute_offset (sample_handle k) 0 = Inr HEADER_BYTES"
    by (simp_all add: checked_end_offset_def absolute_offset_def ok_or_def checked_add_def HEADER_BYTES_def)
  have n: "min (HEADER_BYTES + 4096) (HEADER_BYTES + 2) = HEADER_BYTES + 2"
    "max (HEADER_BYTES + 1) (HEADER_BYTES + 2) = HEADER_BYTES + 2"
    "min (HEADER_BYTES + 2 - HEADER_BYTES) (HEADER_BYTES + 2 - HEADER_BYTES) = 2" "length [7 :: u8] = 1"
    by simp_all
  obtain img where img: "write_image sample_disk_env (Some ()) HEADER_BYTES HEADER_BYTES (HEADER_BYTES + 2) 2 [7] f = Inr img"
    using sample_image[OF assms] by blast
  show ?thesis
    unfolding vb_write_def prod.case n(4) c sbind_simps Let_def sample_handle_simps a n(1-3) img sum.case by simp
qed

theorem volume_refines_array_witness:
  "\<exists>f'. vb_write sample_disk_env 0 [7] (sample_handle 2, sample_blank) = (Inr (), (sample_handle 2, f')) \<and>
     vb_read sample_disk_env 0 1 (sample_handle 2, f') = Inr [7]"
proof -
  have f: "HEADER_BYTES + 8192 \<le> f_len sample_blank" by (simp add: sample_blank_def)
  obtain f' where w: "vb_write sample_disk_env 0 [7] (sample_handle 2, sample_blank) = (Inr (), (sample_handle 2, f'))"
    using sample_write[OF f] by blast
  obtain p where p: "vol_plain sample_disk_env (sample_handle 2) sample_blank = Inr p" using sample_plain by blast
  have b: "0 + 1 \<le> max (vb_len (sample_handle 2)) (0 + length [7 :: u8])" by simp
  from volume_refines_array[OF sample_xts.xts_laws_axioms sample_handle_ok[OF f] p le0 w b]
  have r: "vb_read sample_disk_env 0 1 (sample_handle 2, f') =
      Inr (take 1 (drop 0 (take 0 p @ [7] @ drop (0 + length [7 :: u8]) p)))" by blast
  have "vb_read sample_disk_env 0 1 (sample_handle 2, f') = Inr [7]" unfolding r by simp
  with w show ?thesis by blast
qed

theorem volumes_isolated_witness:
  "\<exists>f f1 b f2 b'. vb_open sample_disk_env ''a'' 4096 (Some ()) f = (Inr b, f1) \<and>
     vb_write sample_disk_env 0 [7] (b, f1) = (Inr (), (b', f2)) \<and>
     rng f2 (HEADER_BYTES + 4096) 4096 = rng f (HEADER_BYTES + 4096) 4096"
proof -
  obtain f where rd: "read_manifest sample_disk_env f = Inr (sample_manifest 2)"
    and f: "HEADER_BYTES + 8192 \<le> f_len f" by (rule sample_disk)
  have ne: "0 < f_len f" using f by (simp add: HEADER_BYTES_def)
  have "wadd HEADER_BYTES 4096 = HEADER_BYTES + 4096" by (simp add: HEADER_BYTES_def)
  then have o: "vb_open sample_disk_env ''a'' 4096 (Some ()) f = (Inr (sample_handle 2), f)"
    using rd ne f by (simp add: vb_open_def load_or_initialize_manifest_def sx_bind_Inr_iff sample_manifest_def
        sample_record_def derive_key_def sample_handle_def ensure_len_def)
      (simp add: sample_disk_env_def)
  obtain f' where w: "vb_write sample_disk_env 0 [7] (sample_handle 2, f) = (Inr (), (sample_handle 2, f'))"
    using sample_write[OF f] by blast
  obtain p where p: "vol_plain sample_disk_env (sample_handle 2) f = Inr p" using sample_plain by blast
  have fit: "next_offset (sample_manifest 2) + 2 * ALIGNMENT + 4096 < 2 ^ 64"
    by (simp add: next_offset_def sample_manifest_def sample_record_def HEADER_BYTES_def ALIGNMENT_def)
  have b: "map_of (dm_volumes (sample_manifest 2)) ''b'' = Some (sample_record 1)" "''b'' \<noteq> ''a''"
    by (simp_all add: sample_manifest_def)
  have "rng f' (vr_offset (sample_record 1)) (vr_capacity (sample_record 1)) =
      rng f (vr_offset (sample_record 1)) (vr_capacity (sample_record 1))"
    using volumes_isolated[OF sample_xts.xts_laws_axioms sample_layout[OF f] rd ne sample_json_ok fit o p le0 w b] by blast
  then have "rng f' (HEADER_BYTES + 4096) 4096 = rng f (HEADER_BYTES + 4096) 4096" by (simp add: sample_record_def)
  with o w show ?thesis by blast
qed

lemma sample_first: "map_of (dm_volumes (sample_manifest 1)) ''a'' = Some (sample_record 0)"
  by (simp add: sample_manifest_def)

theorem stale_handle_drops_volume_witness:
  "\<exists>f f' a'. has_volume sample_disk_env (Some f) ''b'' = Inr True \<and>
     vb_set_len sample_disk_env 0 (sample_handle 1, f) = (Inr (), (a', f')) \<and>
     has_volume sample_disk_env (Some f') ''b'' = Inr False"
proof -
  obtain f where rd: "read_manifest sample_disk_env f = Inr (sample_manifest 2)"
    and f: "HEADER_BYTES + 8192 \<le> f_len f" by (rule sample_disk)
  have has: "has_volume sample_disk_env (Some f) ''b'' = Inr True"
    using f rd by (simp add: has_volume_def sample_manifest_def HEADER_BYTES_def)
  obtain f' where p: "persist_manifest sample_disk_env
      (put_volume ''a'' (sample_record 0\<lparr>vr_len := 0\<rparr>) (sample_manifest 1)) f = (Inr (), f')"
    using sample_persist(2) by blast
  have "\<exists>a'. vb_set_len sample_disk_env 0 (sample_handle 1, f) = (Inr (), (a', f'))"
    using p by (simp add: vb_set_len_def set_len_locked_def Let_def sample_first del: One_nat_def)
  then obtain a' where s: "vb_set_len sample_disk_env 0 (sample_handle 1, f) = (Inr (), (a', f'))" by blast
  have "map_of (dm_volumes (vb_manifest (sample_handle 1))) ''b'' = None" "''b'' \<noteq> vb_name (sample_handle 1)"
    by (simp_all add: sample_handle_def sample_manifest_def)
  from stale_handle_drops_volume[OF sample_json_ok this has s] has s show ?thesis by blast
qed

end
