(* ===== verification/RaftStore.thy ===== *)
theory RaftStore
  imports Store
begin

text \<open>
  The replicated state machine (\<open>rockbot-storage/src/raft/state_machine.rs\<close>, \<open>raft/mod.rs\<close>): committed
  log entries applied to the store, snapshots built, installed and persisted. OpenRaft delivers the
  entries and is not part of the repository; a log id, a membership and a snapshot's meta data are its
  types, here plain data. The JSON codecs and the database are parameters. An operation that fails
  keeps what it changed before.
\<close>

record log_id =
  lid_leader :: "nat \<times> nat"
  lid_index :: nat

datatype 'v store_request = PutReq table string 'v | DeleteReq table string
datatype store_response = RespOk | RespNotFound
datatype ('v, 'm) payload = Blank | Normal "'v store_request" | Membership 'm

record ('v, 'm) raft_entry =
  en_log_id :: log_id
  en_payload :: "('v, 'm) payload"

type_synonym 'm stored_membership = "log_id option \<times> 'm"

record 'v table_snapshot =
  ts_name :: string
  ts_rows :: "(string \<times> 'v) list"

record ('v, 'm) snapshot_payload =
  sp_last_applied :: "log_id option"
  sp_last_membership :: "'m stored_membership"
  sp_tables :: "'v table_snapshot list"

record 'm snapshot_meta =
  me_last_log_id :: "log_id option"
  me_last_membership :: "'m stored_membership"
  me_snapshot_id :: string

record ('db, 'v, 'm) state_machine =
  sm_store :: 'db
  sm_last_applied :: "log_id option"
  sm_last_membership :: "'m stored_membership"
  sm_current_snapshot :: "('m snapshot_meta \<times> 'v) option"

datatype 'e raft_error = RaftStoreError 'e | UnknownTable string

record ('db, 'tx, 'v, 'e, 'm) raft_env =
  re_rb :: "('db, 'tx, 'v, 'e) redb"
  re_log_id :: "(log_id \<Rightarrow> 'e + 'v) \<times> ('v \<Rightarrow> 'e + log_id)"
  re_membership :: "('m stored_membership \<Rightarrow> 'e + 'v) \<times> ('v \<Rightarrow> 'e + 'm stored_membership)"
  re_meta :: "('m snapshot_meta \<Rightarrow> 'e + 'v) \<times> ('v \<Rightarrow> 'e + 'm snapshot_meta)"
  re_payload :: "(('v, 'm) snapshot_payload \<Rightarrow> 'e + 'v) \<times> ('v \<Rightarrow> 'e + ('v, 'm) snapshot_payload)"
  re_default_membership :: "'m stored_membership"
  re_show_leader :: "nat \<times> nat \<Rightarrow> string"
  re_show_index :: "nat \<Rightarrow> string"

definition LAST_APPLIED_KEY :: string where "LAST_APPLIED_KEY = ''raft/internal/state_machine/last_applied''"
definition LAST_MEMBERSHIP_KEY :: string where "LAST_MEMBERSHIP_KEY = ''raft/internal/state_machine/last_membership''"
definition SNAPSHOT_META_KEY :: string where "SNAPSHOT_META_KEY = ''raft/internal/snapshot/meta''"
definition SNAPSHOT_DATA_KEY :: string where "SNAPSHOT_DATA_KEY = ''raft/internal/snapshot/data''"

subsection \<open>Tables\<close>

definition bytes_table_def :: "string \<Rightarrow> 'e raft_error + table" where
  "bytes_table_def name =
     (if name \<in> set [''endpoints'', ''credentials'', ''permissions'', ''kv_store'', ''sessions'',
        ''session_messages'', ''cron_jobs'', ''route_bindings'', ''pki_index'', ''agents'',
        ''agent_documents'', ''agent_objects'', ''topology_nodes'', ''topology_edges'',
        ''topology_edges_from'', ''topology_edges_to'', ''zones'', ''zone_members'', ''blackboards'',
        ''blackboard_acl'', ''ownership_events'', ''agent_vdisks'', ''node_keys'', ''vault_objects'',
        ''vault_provider_grants'', ''vault_node_grants'', ''vault_policies'']
      then Inr name else Inl (UnknownTable name))"

definition snapshot_tables :: "table list" where
  "snapshot_tables =
     [ENDPOINTS, CREDENTIALS, PERMISSIONS, KV_STORE, SESSIONS, SESSION_MESSAGES, CRON_JOBS,
      ROUTE_BINDINGS, PKI_INDEX, AGENTS, ''agent_documents'', ''agent_objects'', ''topology_nodes'',
      ''topology_edges'', ''topology_edges_from'', ''topology_edges_to'', ''zones'', ''zone_members'',
      ''blackboards'', ''blackboard_acl'', ''ownership_events'', ''agent_vdisks'', NODE_KEYS,
      VAULT_OBJECTS, VAULT_PROVIDER_GRANTS, VAULT_NODE_GRANTS, VAULT_POLICIES]"

subsection \<open>Loading and persisting\<close>

definition raft_err :: "'e + 'a \<Rightarrow> 'e raft_error + 'a" where
  "raft_err r = (case r of Inl e \<Rightarrow> Inl (RaftStoreError e) | Inr x \<Rightarrow> Inr x)"

definition load_snapshot ::
  "('db, 'tx, 'v, 'e, 'm) raft_env \<Rightarrow> 'db \<Rightarrow> 'e raft_error + ('m snapshot_meta \<times> 'v) option" where
  "load_snapshot env db =
     sbind (raft_err (get_json (re_rb env) (snd (re_meta env)) REPLICATION_META SNAPSHOT_META_KEY db)) (\<lambda>meta.
     sbind (raft_err (store_get (re_rb env) REPLICATION_META SNAPSHOT_DATA_KEY db)) (\<lambda>data.
     Inr (case (meta, data) of (Some meta, Some data) \<Rightarrow> Some (meta, data) | _ \<Rightarrow> None)))"

definition state_machine_new ::
  "('db, 'tx, 'v, 'e, 'm) raft_env \<Rightarrow> 'db \<Rightarrow> 'e raft_error + ('db, 'v, 'm) state_machine" where
  "state_machine_new env db =
     sbind (raft_err (get_json (re_rb env) (snd (re_log_id env)) REPLICATION_META LAST_APPLIED_KEY db)) (\<lambda>applied.
     sbind (raft_err (get_json (re_rb env) (snd (re_membership env)) REPLICATION_META LAST_MEMBERSHIP_KEY db)) (\<lambda>mem.
     sbind (load_snapshot env db) (\<lambda>snap.
     Inr \<lparr>sm_store = db, sm_last_applied = applied,
          sm_last_membership = (case mem of Some m \<Rightarrow> m | None \<Rightarrow> re_default_membership env),
          sm_current_snapshot = snap\<rparr>)))"

text \<open>A write of the store inside the state machine.\<close>

definition sm_write :: "('db \<Rightarrow> 'e + 'db) \<Rightarrow> (('db, 'v, 'm) state_machine, 'e raft_error, unit) sx" where
  "sm_write w s = (case w (sm_store s) of
       Inl e \<Rightarrow> (Inl (RaftStoreError e), s) | Inr db \<Rightarrow> (Inr (), s\<lparr>sm_store := db\<rparr>))"

definition sm_delete :: "('db \<Rightarrow> 'e + ('db \<times> bool)) \<Rightarrow> (('db, 'v, 'm) state_machine, 'e raft_error, bool) sx" where
  "sm_delete w s = (case w (sm_store s) of
       Inl e \<Rightarrow> (Inl (RaftStoreError e), s) | Inr (db, b) \<Rightarrow> (Inr b, s\<lparr>sm_store := db\<rparr>))"

definition persist_applied_state ::
  "('db, 'tx, 'v, 'e, 'm) raft_env \<Rightarrow> (('db, 'v, 'm) state_machine, 'e raft_error, unit) sx" where
  "persist_applied_state env s =
     sx_bind
       (case sm_last_applied s of
          Some l \<Rightarrow> sm_write (put_json (re_rb env) (fst (re_log_id env)) REPLICATION_META LAST_APPLIED_KEY l)
        | None \<Rightarrow> sx_return ())
       (\<lambda>_. sm_write (put_json (re_rb env) (fst (re_membership env)) REPLICATION_META LAST_MEMBERSHIP_KEY
              (sm_last_membership s))) s"

definition persist_snapshot ::
  "('db, 'tx, 'v, 'e, 'm) raft_env \<Rightarrow> 'm snapshot_meta \<Rightarrow> 'v \<Rightarrow>
   (('db, 'v, 'm) state_machine, 'e raft_error, unit) sx" where
  "persist_snapshot env meta data =
     sx_bind (sm_write (put_json (re_rb env) (fst (re_meta env)) REPLICATION_META SNAPSHOT_META_KEY meta)) (\<lambda>_.
     sx_bind (sm_write (store_put (re_rb env) REPLICATION_META SNAPSHOT_DATA_KEY data)) (\<lambda>_ s.
     (Inr (), s\<lparr>sm_current_snapshot := Some (meta, data)\<rparr>)))"

subsection \<open>Applying entries\<close>

definition apply_request ::
  "('db, 'tx, 'v, 'e, 'm) raft_env \<Rightarrow> 'v store_request \<Rightarrow>
   (('db, 'v, 'm) state_machine, 'e raft_error, store_response) sx" where
  "apply_request env req = (case req of
       PutReq t k v \<Rightarrow>
         sx_bind (sx_ask (\<lambda>_. bytes_table_def t)) (\<lambda>td.
         sx_bind (sm_write (store_put (re_rb env) td k v)) (\<lambda>_. sx_return RespOk))
     | DeleteReq t k \<Rightarrow>
         sx_bind (sx_ask (\<lambda>_. bytes_table_def t)) (\<lambda>td.
         sx_bind (sm_delete (store_delete (re_rb env) td k)) (\<lambda>existed.
         sx_return (if existed then RespOk else RespNotFound))))"

definition apply_entry ::
  "('db, 'tx, 'v, 'e, 'm) raft_env \<Rightarrow> ('v, 'm) raft_entry \<Rightarrow>
   (('db, 'v, 'm) state_machine, 'e raft_error, store_response) sx" where
  "apply_entry env entry s =
     (let s = s\<lparr>sm_last_applied := Some (en_log_id entry)\<rparr> in
      sx_bind (case en_payload entry of
          Blank \<Rightarrow> sx_return RespOk
        | Normal req \<Rightarrow> apply_request env req
        | Membership m \<Rightarrow> (\<lambda>s. (Inr RespOk, s\<lparr>sm_last_membership := (Some (en_log_id entry), m)\<rparr>)))
      (\<lambda>response. sx_bind (persist_applied_state env) (\<lambda>_. sx_return response)) s)"

fun apply_entries ::
  "('db, 'tx, 'v, 'e, 'm) raft_env \<Rightarrow> ('v, 'm) raft_entry list \<Rightarrow>
   (('db, 'v, 'm) state_machine, 'e raft_error, store_response list) sx" where
  "apply_entries env [] = sx_return []"
| "apply_entries env (entry # entries) =
     sx_bind (apply_entry env entry) (\<lambda>r.
     sx_bind (apply_entries env entries) (\<lambda>rs. sx_return (r # rs)))"

subsection \<open>Snapshots\<close>

definition snapshot_id :: "('db, 'tx, 'v, 'e, 'm) raft_env \<Rightarrow> log_id option \<Rightarrow> string" where
  "snapshot_id env applied = (case applied of
       Some l \<Rightarrow> re_show_leader env (lid_leader l) @ ''-'' @ re_show_index env (lid_index l)
     | None \<Rightarrow> ''empty-0'')"

definition snapshot_of ::
  "('db, 'tx, 'v, 'e, 'm) raft_env \<Rightarrow> ('db, 'v, 'm) state_machine \<Rightarrow> 'e raft_error + ('v, 'm) snapshot_payload" where
  "snapshot_of env s =
     sbind (collect (\<lambda>t. sbind (raft_err (store_list (re_rb env) t (sm_store s)))
              (\<lambda>rows. Inr \<lparr>ts_name = t, ts_rows = rows\<rparr>)) snapshot_tables)
       (\<lambda>tables. Inr \<lparr>sp_last_applied = sm_last_applied s, sp_last_membership = sm_last_membership s,
                      sp_tables = tables\<rparr>)"

definition build_snapshot ::
  "('db, 'tx, 'v, 'e, 'm) raft_env \<Rightarrow>
   (('db, 'v, 'm) state_machine, 'e raft_error, 'm snapshot_meta \<times> 'v) sx" where
  "build_snapshot env =
     sx_bind (sx_ask (snapshot_of env)) (\<lambda>payload.
     sx_bind (sx_ask (\<lambda>_. raft_err (fst (re_payload env) payload))) (\<lambda>data s.
     let meta = \<lparr>me_last_log_id = sm_last_applied s, me_last_membership = sm_last_membership s,
                 me_snapshot_id = snapshot_id env (sm_last_applied s)\<rparr> in
     sx_bind (persist_snapshot env meta data) (\<lambda>_. sx_return (meta, data)) s))"

definition snapshot_rows :: "('v, 'm) snapshot_payload \<Rightarrow> table \<Rightarrow> (string \<times> 'v) list" where
  "snapshot_rows payload t = (case List.find (\<lambda>ts. ts_name ts = t) (sp_tables payload) of
       Some ts \<Rightarrow> ts_rows ts | None \<Rightarrow> [])"

definition install_snapshot ::
  "('db, 'tx, 'v, 'e, 'm) raft_env \<Rightarrow> 'm snapshot_meta \<Rightarrow> 'v \<Rightarrow>
   (('db, 'v, 'm) state_machine, 'e raft_error, unit) sx" where
  "install_snapshot env meta bytes =
     sx_bind (sx_ask (\<lambda>_. raft_err (snd (re_payload env) bytes))) (\<lambda>payload.
     sx_bind (sm_write (replace_bytes_tables (re_rb env)
                (map (\<lambda>t. (t, snapshot_rows payload t)) snapshot_tables))) (\<lambda>_ s.
     sx_bind (persist_applied_state env) (\<lambda>_. persist_snapshot env meta bytes)
       (s\<lparr>sm_last_applied := sp_last_applied payload, sm_last_membership := sp_last_membership payload\<rparr>)))"

definition get_current_snapshot :: "('db, 'v, 'm) state_machine \<Rightarrow> ('m snapshot_meta \<times> 'v) option" where
  "get_current_snapshot s = sm_current_snapshot s"

definition get_snapshot_builder ::
  "('db, 'tx, 'v, 'e, 'm) raft_env \<Rightarrow> ('db, 'v, 'm) state_machine \<Rightarrow> ('db, 'v, 'm) state_machine option" where
  "get_snapshot_builder env s = (case state_machine_new env (sm_store s) of Inl _ \<Rightarrow> None | Inr b \<Rightarrow> Some b)"


subsection \<open>What the state machine relies on\<close>

definition reads_back :: "('a \<Rightarrow> 'e + 'v) \<times> ('v \<Rightarrow> 'e + 'a) \<Rightarrow> bool" where
  "reads_back codec \<longleftrightarrow> (\<forall>x v. fst codec x = Inr v \<longrightarrow> snd codec v = Inr x)"

lemma reads_backD: "reads_back codec \<Longrightarrow> fst codec x = Inr v \<Longrightarrow> snd codec v = Inr x"
  by (simp add: reads_back_def)

locale raft_laws = redb_laws "re_rb env" dbv txv
  for env :: "('db, 'tx, 'v, 'e, 'm) raft_env" and dbv :: "'db \<Rightarrow> 'v contents" and txv :: "'tx \<Rightarrow> 'v contents" +
  assumes log_id_codec: "reads_back (re_log_id env)"
    and membership_codec: "reads_back (re_membership env)"
    and payload_codec: "reads_back (re_payload env)"
begin

text \<open>Two replicas agree: same position in the log, same membership, same rows in every replicated
  table.\<close>

definition agree :: "('db, 'v, 'm) state_machine \<Rightarrow> ('db, 'v, 'm) state_machine \<Rightarrow> bool" where
  "agree s r \<longleftrightarrow> sm_last_applied s = sm_last_applied r \<and> sm_last_membership s = sm_last_membership r \<and>
     (\<forall>t \<in> set snapshot_tables. view (sm_store s) t = view (sm_store r) t)"

lemma agree_sym: "agree s r \<Longrightarrow> agree r s"
  by (simp add: agree_def)

lemma agree_trans: "agree s r \<Longrightarrow> agree r q \<Longrightarrow> agree s q"
  by (simp add: agree_def)

lemma sm_write_Inr: "sm_write w s = (Inr u, s') \<Longrightarrow> \<exists>db. w (sm_store s) = Inr db \<and> s' = s\<lparr>sm_store := db\<rparr>"
  by (auto simp: sm_write_def split: sum.splits)

lemma sm_delete_Inr: "sm_delete w s = (Inr b, s') \<Longrightarrow> \<exists>db. w (sm_store s) = Inr (db, b) \<and> s' = s\<lparr>sm_store := db\<rparr>"
  by (auto simp: sm_delete_def split: sum.splits)

lemma write_json:
  assumes "sm_write (put_json (re_rb env) enc t k x) s = (Inr u, s')"
  shows "\<exists>v db. enc x = Inr v \<and> s' = s\<lparr>sm_store := db\<rparr> \<and>
    view db = (view (sm_store s))(t := (view (sm_store s) t)(k \<mapsto> v))"
  using sm_write_Inr[OF assms] by (auto simp: put_json_def sbind_Inr_iff dest!: put_view)

lemma persist_applied:
  assumes "persist_applied_state env s = (Inr u, s')"
  shows "\<exists>db. s' = s\<lparr>sm_store := db\<rparr> \<and> (\<forall>t. t \<noteq> REPLICATION_META \<longrightarrow> view db t = view (sm_store s) t) \<and>
    (\<exists>v. fst (re_membership env) (sm_last_membership s) = Inr v \<and>
         view db REPLICATION_META LAST_MEMBERSHIP_KEY = Some v) \<and>
    (\<forall>l. sm_last_applied s = Some l \<longrightarrow> (\<exists>v. fst (re_log_id env) l = Inr v \<and>
         view db REPLICATION_META LAST_APPLIED_KEY = Some v))"
proof -
  have keys: "LAST_APPLIED_KEY \<noteq> LAST_MEMBERSHIP_KEY" by (simp add: LAST_APPLIED_KEY_def LAST_MEMBERSHIP_KEY_def)
  from assms obtain s1 where
    1: "(case sm_last_applied s of Some l \<Rightarrow>
          sm_write (put_json (re_rb env) (fst (re_log_id env)) REPLICATION_META LAST_APPLIED_KEY l)
        | None \<Rightarrow> sx_return ()) s = (Inr (), s1)" and
    2: "sm_write (put_json (re_rb env) (fst (re_membership env)) REPLICATION_META LAST_MEMBERSHIP_KEY
          (sm_last_membership s)) s1 = (Inr (), s')"
    by (auto simp: persist_applied_state_def sx_bind_Inr_iff)
  from write_json[OF 2] obtain v2 db where w2: "fst (re_membership env) (sm_last_membership s) = Inr v2"
    "s' = s1\<lparr>sm_store := db\<rparr>"
    "view db = (view (sm_store s1))(REPLICATION_META := (view (sm_store s1) REPLICATION_META)(LAST_MEMBERSHIP_KEY \<mapsto> v2))"
    by blast
  show ?thesis
  proof (cases "sm_last_applied s")
    case None
    then show ?thesis using 1 w2 by (intro exI[of _ db]) simp
  next
    case (Some l)
    with 1 write_json[of "fst (re_log_id env)" REPLICATION_META LAST_APPLIED_KEY l s "()" s1]
    obtain v1 db1 where "fst (re_log_id env) l = Inr v1" "s1 = s\<lparr>sm_store := db1\<rparr>"
      "view db1 = (view (sm_store s))(REPLICATION_META := (view (sm_store s) REPLICATION_META)(LAST_APPLIED_KEY \<mapsto> v1))"
      by auto
    with w2 keys Some show ?thesis by (intro exI[of _ db]) simp
  qed
qed

lemma snapshot_not_meta: "t \<in> set snapshot_tables \<Longrightarrow> t \<noteq> REPLICATION_META"
  by (auto simp: snapshot_tables_def REPLICATION_META_def ENDPOINTS_def CREDENTIALS_def PERMISSIONS_def KV_STORE_def
      SESSIONS_def SESSION_MESSAGES_def CRON_JOBS_def ROUTE_BINDINGS_def PKI_INDEX_def AGENTS_def NODE_KEYS_def
      VAULT_OBJECTS_def VAULT_PROVIDER_GRANTS_def VAULT_NODE_GRANTS_def VAULT_POLICIES_def)

lemma table_def_snapshot: "bytes_table_def name = Inr t \<Longrightarrow> t = name \<and> t \<in> set snapshot_tables"
  by (auto simp: bytes_table_def_def snapshot_tables_def ENDPOINTS_def CREDENTIALS_def PERMISSIONS_def KV_STORE_def
      SESSIONS_def SESSION_MESSAGES_def CRON_JOBS_def ROUTE_BINDINGS_def PKI_INDEX_def AGENTS_def NODE_KEYS_def
      VAULT_OBJECTS_def VAULT_PROVIDER_GRANTS_def VAULT_NODE_GRANTS_def VAULT_POLICIES_def split: if_splits)

lemma apply_request_agree:
  assumes "agree s r" "apply_request env req s = (Inr a, s')" "apply_request env req r = (Inr b, r')"
  shows "agree s' r' \<and> a = b"
proof (cases req)
  case (PutReq t k v)
  from assms(2)[unfolded PutReq apply_request_def] obtain td db where
    s: "bytes_table_def t = (Inr td :: 'e raft_error + table)" "store_put (re_rb env) td k v (sm_store s) = Inr db"
      "s' = s\<lparr>sm_store := db\<rparr>" "a = RespOk"
    by (auto simp: sx_bind_Inr_iff dest!: sm_write_Inr)
  from assms(3)[unfolded PutReq apply_request_def] s(1) obtain db2 where
    r: "store_put (re_rb env) td k v (sm_store r) = Inr db2" "r' = r\<lparr>sm_store := db2\<rparr>" "b = RespOk"
    by (auto simp: sx_bind_Inr_iff dest!: sm_write_Inr)
  show ?thesis using assms(1) table_def_snapshot[OF s(1)]
    by (auto simp: agree_def s(3,4) r(2,3) put_view[OF s(2)] put_view[OF r(1)])
next
  case (DeleteReq t k)
  from assms(2)[unfolded DeleteReq apply_request_def] obtain td db x where
    s: "bytes_table_def t = (Inr td :: 'e raft_error + table)" "store_delete (re_rb env) td k (sm_store s) = Inr (db, x)"
      "s' = s\<lparr>sm_store := db\<rparr>" "a = (if x then RespOk else RespNotFound)"
    by (auto simp: sx_bind_Inr_iff dest!: sm_delete_Inr)
  from assms(3)[unfolded DeleteReq apply_request_def] s(1) obtain db2 y where
    r: "store_delete (re_rb env) td k (sm_store r) = Inr (db2, y)" "r' = r\<lparr>sm_store := db2\<rparr>"
      "b = (if y then RespOk else RespNotFound)"
    by (auto simp: sx_bind_Inr_iff dest!: sm_delete_Inr)
  show ?thesis using assms(1) table_def_snapshot[OF s(1)] delete_view[OF s(2)] delete_view[OF r(1)]
    by (auto simp: agree_def s(3,4) r(2,3))
qed

lemma persist_agree:
  assumes "persist_applied_state env s = (Inr u, s')"
  shows "agree s s'" "sm_last_applied s' = sm_last_applied s"
  using persist_applied[OF assms] snapshot_not_meta by (fastforce simp: agree_def)+

text \<open>One entry, split at the end of its own effect.\<close>

lemma apply_entry_split:
  assumes "apply_entry env en s = (Inr a, s')"
  obtains s1 where "persist_applied_state env s1 = (Inr (), s')" "sm_last_applied s1 = Some (en_log_id en)"
    "(case en_payload en of
          Blank \<Rightarrow> sx_return RespOk
        | Normal req \<Rightarrow> apply_request env req
        | Membership m \<Rightarrow> (\<lambda>s. (Inr RespOk, s\<lparr>sm_last_membership := (Some (en_log_id en), m)\<rparr>)))
      (s\<lparr>sm_last_applied := Some (en_log_id en)\<rparr>) = (Inr a, s1)"
proof -
  from assms obtain s1 where
    run: "(case en_payload en of
          Blank \<Rightarrow> sx_return RespOk
        | Normal req \<Rightarrow> apply_request env req
        | Membership m \<Rightarrow> (\<lambda>s. (Inr RespOk, s\<lparr>sm_last_membership := (Some (en_log_id en), m)\<rparr>)))
      (s\<lparr>sm_last_applied := Some (en_log_id en)\<rparr>) = (Inr a, s1)"
    and p: "persist_applied_state env s1 = (Inr (), s')"
    by (auto simp: apply_entry_def Let_def sx_bind_Inr_iff)
  have "sm_last_applied s1 = Some (en_log_id en)"
    using run by (auto simp: apply_request_def sx_bind_Inr_iff dest!: sm_write_Inr sm_delete_Inr
        split: payload.splits store_request.splits)
  with run p that show thesis by blast
qed

lemma apply_entry_agree:
  assumes "agree s r" "apply_entry env en s = (Inr a, s')" "apply_entry env en r = (Inr b, r')"
  shows "agree s' r' \<and> a = b"
proof -
  let ?up = "\<lambda>s :: ('db, 'v, 'm) state_machine. s\<lparr>sm_last_applied := Some (en_log_id en)\<rparr>"
  have up: "agree (?up s) (?up r)" using assms(1) by (simp add: agree_def)
  from apply_entry_split[OF assms(2)] obtain s1 where s: "persist_applied_state env s1 = (Inr (), s')"
    "(case en_payload en of Blank \<Rightarrow> sx_return RespOk | Normal req \<Rightarrow> apply_request env req
        | Membership m \<Rightarrow> (\<lambda>s. (Inr RespOk, s\<lparr>sm_last_membership := (Some (en_log_id en), m)\<rparr>)))
      (?up s) = (Inr a, s1)" by blast
  from apply_entry_split[OF assms(3)] obtain r1 where r: "persist_applied_state env r1 = (Inr (), r')"
    "(case en_payload en of Blank \<Rightarrow> sx_return RespOk | Normal req \<Rightarrow> apply_request env req
        | Membership m \<Rightarrow> (\<lambda>s. (Inr RespOk, s\<lparr>sm_last_membership := (Some (en_log_id en), m)\<rparr>)))
      (?up r) = (Inr b, r1)" by blast
  have "agree s1 r1 \<and> a = b"
  proof (cases "en_payload en")
    case (Normal req)
    then show ?thesis using apply_request_agree[OF up] s(2) r(2) by simp
  qed (use up s(2) r(2) in \<open>auto simp: agree_def\<close>)
  then show ?thesis
    using agree_trans[OF agree_sym[OF persist_agree(1)[OF s(1)]] agree_trans[OF _ persist_agree(1)[OF r(1)]]] by blast
qed

lemma apply_entries_agree:
  "agree s r \<Longrightarrow> apply_entries env es s = (Inr a, s') \<Longrightarrow> apply_entries env es r = (Inr b, r') \<Longrightarrow> agree s' r' \<and> a = b"
proof (induction es arbitrary: s r a b)
  case (Cons en es)
  from Cons.prems(2) obtain x s1 xs where s: "apply_entry env en s = (Inr x, s1)"
    "apply_entries env es s1 = (Inr xs, s')" "a = x # xs" by (auto simp: sx_bind_Inr_iff)
  from Cons.prems(3) obtain y r1 ys where r: "apply_entry env en r = (Inr y, r1)"
    "apply_entries env es r1 = (Inr ys, r')" "b = y # ys" by (auto simp: sx_bind_Inr_iff)
  from apply_entry_agree[OF Cons.prems(1) s(1) r(1)] have "agree s1 r1" "x = y" by simp_all
  with Cons.IH[OF _ s(2) r(2)] s(3) r(3) show ?case by simp
qed simp

text \<open>Snapshots.\<close>

lemma rev_rows: "distinct (map fst rows) \<Longrightarrow> map_of (rev rows) = map_of rows"
  by (rule map_of_inject_set[THEN iffD2]) (simp_all add: rev_map[symmetric])

lemma find_named: "list_all2 (\<lambda>t x. ts_name x = t \<and> P t (ts_rows x)) ts xs \<Longrightarrow> t \<in> set ts \<Longrightarrow>
    \<exists>x. List.find (\<lambda>x. ts_name x = t) xs = Some x \<and> P t (ts_rows x)"
  by (induction ts xs rule: list_all2_induct) auto

lemma raft_err_Inr [simp]: "raft_err r = Inr x \<longleftrightarrow> r = Inr x"
  by (cases r) (auto simp: raft_err_def)

lemma snapshot_of_rows:
  assumes "snapshot_of env s = Inr payload"
  shows "sp_last_applied payload = sm_last_applied s" "sp_last_membership payload = sm_last_membership s"
    "t \<in> set snapshot_tables \<Longrightarrow> store_list (re_rb env) t (sm_store s) = Inr (snapshot_rows payload t)"
proof -
  from assms obtain xs where c: "collect (\<lambda>t. sbind (raft_err (store_list (re_rb env) t (sm_store s)))
              (\<lambda>rows. Inr \<lparr>ts_name = t, ts_rows = rows\<rparr>)) snapshot_tables = (Inr xs :: 'e raft_error + _)"
    and p: "payload = \<lparr>sp_last_applied = sm_last_applied s, sp_last_membership = sm_last_membership s, sp_tables = xs\<rparr>"
    by (auto simp: snapshot_of_def sbind_Inr_iff)
  show "sp_last_applied payload = sm_last_applied s" "sp_last_membership payload = sm_last_membership s"
    by (simp_all add: p)
  have "list_all2 (\<lambda>t x. ts_name x = t \<and> store_list (re_rb env) t (sm_store s) = Inr (ts_rows x)) snapshot_tables xs"
    using c unfolding collect_Inr_iff by (rule list_all2_mono) (auto simp: sbind_Inr_iff)
  from find_named[OF this]
  show "t \<in> set snapshot_tables \<Longrightarrow> store_list (re_rb env) t (sm_store s) = Inr (snapshot_rows payload t)"
    by (fastforce simp: snapshot_rows_def p)
qed

lemma persist_snapshot_agree:
  assumes "persist_snapshot env meta data s = (Inr u, s')"
  shows "agree s s'"
proof -
  from assms obtain s1 s2 where
    1: "sm_write (put_json (re_rb env) (fst (re_meta env)) REPLICATION_META SNAPSHOT_META_KEY meta) s = (Inr (), s1)" and
    2: "sm_write (store_put (re_rb env) REPLICATION_META SNAPSHOT_DATA_KEY data) s1 = (Inr (), s2)" and
    3: "s' = s2\<lparr>sm_current_snapshot := Some (meta, data)\<rparr>"
    by (auto simp: persist_snapshot_def sx_bind_Inr_iff)
  from write_json[OF 1] sm_write_Inr[OF 2] snapshot_not_meta show ?thesis
    by (auto simp: agree_def 3 dest!: put_view)
qed

lemma build_snapshot_Inr:
  assumes "build_snapshot env s = (Inr (meta, data), s')"
  shows "agree s s'" "\<exists>payload. snapshot_of env s = (Inr payload :: 'e raft_error + _) \<and> snd (re_payload env) data = Inr payload"
    "sm_current_snapshot s' = Some (meta, data)"
proof -
  from assms obtain payload where p: "snapshot_of env s = (Inr payload :: 'e raft_error + _)"
    "fst (re_payload env) payload = Inr data" "persist_snapshot env meta data s = (Inr (), s')"
    by (auto simp: build_snapshot_def sx_bind_Inr_iff Let_def)
  show "agree s s'" by (rule persist_snapshot_agree[OF p(3)])
  show "\<exists>payload. snapshot_of env s = (Inr payload :: 'e raft_error + _) \<and> snd (re_payload env) data = Inr payload"
    using p(1) reads_backD[OF payload_codec p(2)] by blast
  show "sm_current_snapshot s' = Some (meta, data)"
    using p(3) by (auto simp: persist_snapshot_def sx_bind_Inr_iff)
qed

lemma install_agree:
  assumes "snapshot_of env s = (Inr payload :: 'e raft_error + _)" "snd (re_payload env) data = Inr payload"
    and "install_snapshot env meta data r = (Inr u, r')"
  shows "agree s r'"
proof -
  let ?reps = "map (\<lambda>t. (t, snapshot_rows payload t)) snapshot_tables"
  let ?up = "\<lambda>r :: ('db, 'v, 'm) state_machine.
    r\<lparr>sm_last_applied := sp_last_applied payload, sm_last_membership := sp_last_membership payload\<rparr>"
  from assms(3) obtain r1 r2 where
    1: "sm_write (replace_bytes_tables (re_rb env) ?reps) r = (Inr (), r1)" and
    2: "persist_applied_state env (?up r1) = (Inr (), r2)" and
    3: "persist_snapshot env meta data r2 = (Inr (), r')"
    by (auto simp: install_snapshot_def assms(2) sx_bind_Inr_iff)
  from sm_write_Inr[OF 1] obtain db where db: "replace_bytes_tables (re_rb env) ?reps (sm_store r) = Inr db"
    "r1 = r\<lparr>sm_store := db\<rparr>" by blast
  have d: "distinct (map fst ?reps)"
    by (simp add: o_def) (simp add: snapshot_tables_def ENDPOINTS_def CREDENTIALS_def PERMISSIONS_def KV_STORE_def
      SESSIONS_def SESSION_MESSAGES_def CRON_JOBS_def ROUTE_BINDINGS_def PKI_INDEX_def AGENTS_def NODE_KEYS_def
      VAULT_OBJECTS_def VAULT_PROVIDER_GRANTS_def VAULT_NODE_GRANTS_def VAULT_POLICIES_def)
  have "view db t = view (sm_store s) t" if t: "t \<in> set snapshot_tables" for t
  proof -
    have "map_of ?reps t = Some (snapshot_rows payload t)" using t by (simp add: map_of_map_restrict restrict_map_def)
    then have "view db t = map_of (rev (snapshot_rows payload t))" using replace_view[OF db(1) d, of t] by simp
    moreover from list_view[OF snapshot_of_rows(3)[OF assms(1) t]]
    have "map_of (snapshot_rows payload t) = view (sm_store s) t" "distinct (map fst (snapshot_rows payload t))" by simp_all
    ultimately show ?thesis by (simp add: rev_rows)
  qed
  then have "agree s (?up r1)" using snapshot_of_rows(1,2)[OF assms(1)] by (simp add: agree_def db(2))
  from agree_trans[OF agree_trans[OF this persist_agree(1)[OF 2]] persist_snapshot_agree[OF 3]] show ?thesis .
qed

text \<open>Restarting.\<close>

lemma restart_after_persist:
  assumes "persist_applied_state env s = (Inr u, s')" "sm_last_applied s = Some l"
    and "state_machine_new env (sm_store s') = Inr s''"
  shows "agree s' s''"
proof -
  from persist_applied[OF assms(1)] assms(2) obtain v1 v2 where
    v: "fst (re_membership env) (sm_last_membership s') = Inr v1" "view (sm_store s') REPLICATION_META LAST_MEMBERSHIP_KEY = Some v1"
      "fst (re_log_id env) l = Inr v2" "view (sm_store s') REPLICATION_META LAST_APPLIED_KEY = Some v2"
      "sm_last_applied s' = Some l" by auto
  from assms(3) obtain a m where
    a: "get_json (re_rb env) (snd (re_log_id env)) REPLICATION_META LAST_APPLIED_KEY (sm_store s') = Inr a" and
    m: "get_json (re_rb env) (snd (re_membership env)) REPLICATION_META LAST_MEMBERSHIP_KEY (sm_store s') = Inr m" and
    s'': "sm_store s'' = sm_store s'" "sm_last_applied s'' = a"
      "sm_last_membership s'' = (case m of Some m \<Rightarrow> m | None \<Rightarrow> re_default_membership env)"
    by (auto simp: state_machine_new_def sbind_Inr_iff)
  have "a = Some l" by (rule get_json_view[OF a v(4) reads_backD[OF log_id_codec v(3)]])
  moreover have "m = Some (sm_last_membership s')" by (rule get_json_view[OF m v(2) reads_backD[OF membership_codec v(1)]])
  ultimately show ?thesis using s'' v(5) by (simp add: agree_def)
qed

lemma apply_entries_last:
  "apply_entries env es s = (Inr rs, s') \<Longrightarrow> es \<noteq> [] \<Longrightarrow>
    \<exists>s1. persist_applied_state env s1 = (Inr (), s') \<and> sm_last_applied s1 = Some (en_log_id (last es))"
proof (induction es arbitrary: s rs)
  case (Cons en es)
  then obtain x s1 xs where s: "apply_entry env en s = (Inr x, s1)" "apply_entries env es s1 = (Inr xs, s')"
    by (auto simp: sx_bind_Inr_iff)
  show ?case
  proof (cases "es = []")
    case True
    with s(2) have "s' = s1" by simp
    with True apply_entry_split[OF s(1)] show ?thesis by auto
  qed (use Cons.IH[OF s(2)] in simp)
qed simp

lemma catches_up:
  assumes "build_snapshot env s = (Inr (meta, data), s1)" "install_snapshot env meta data r = (Inr (), r1)"
    and "apply_entries env es s1 = (Inr a, s2)" "apply_entries env es r1 = (Inr b, r2)"
  shows "agree s2 r2 \<and> a = b"
proof -
  from build_snapshot_Inr[OF assms(1)] obtain payload where
    "agree s s1" "snapshot_of env s = (Inr payload :: 'e raft_error + _)" "snd (re_payload env) data = Inr payload" by blast
  then have "agree s1 r1" using install_agree[OF _ _ assms(2)] agree_trans agree_sym by blast
  from apply_entries_agree[OF this assms(3,4)] show ?thesis .
qed

lemma resumes:
  assumes "apply_entries env es s = (Inr rs, s1)" "es \<noteq> []" "state_machine_new env (sm_store s1) = Inr s2"
  shows "agree s1 s2 \<and> sm_last_applied s1 = Some (en_log_id (last es))"
proof -
  from apply_entries_last[OF assms(1,2)] obtain s0 where
    s0: "persist_applied_state env s0 = (Inr (), s1)" "sm_last_applied s0 = Some (en_log_id (last es))" by blast
  show ?thesis using restart_after_persist[OF s0 assms(3)] persist_agree(2)[OF s0(1)] s0(2) by simp
qed

end


subsection \<open>Properties\<close>

text \<open>C16. A follower that installs a leader's snapshot and then applies the entries that follow it
  cannot be told from the leader: every entry gets the same response, and afterwards both have the
  same position in the log, the same membership and the same row under every key of every replicated
  table, whatever the follower held before.\<close>

theorem replica_catches_up:
  assumes "raft_laws env dbv txv"
    and "build_snapshot env s = (Inr (meta, data), s1)" "install_snapshot env meta data r = (Inr (), r1)"
    and "apply_entries env es s1 = (Inr a, s2)" "apply_entries env es r1 = (Inr b, r2)"
    and "t \<in> set snapshot_tables"
    and "store_get (re_rb env) t k (sm_store s2) = Inr x" "store_get (re_rb env) t k (sm_store r2) = Inr y"
  shows "a = b \<and> x = y \<and> sm_last_applied s2 = sm_last_applied r2 \<and> sm_last_membership s2 = sm_last_membership r2"
  using raft_laws.catches_up[OF assms(1-5)] redb_laws.get_view[OF raft_laws.axioms(1)[OF assms(1)] assms(7)]
    redb_laws.get_view[OF raft_laws.axioms(1)[OF assms(1)] assms(8)] assms(6)
  by (simp add: raft_laws.agree_def[OF assms(1)])

text \<open>A crash loses nothing that was applied: after applying entries, a state machine opened again on
  the same store is at the position of the last entry, with the membership in force then, and
  would give every replicated row as before.\<close>

theorem restart_resumes:
  assumes "raft_laws env dbv txv" "apply_entries env es s = (Inr rs, s1)" "es \<noteq> []"
    and "state_machine_new env (sm_store s1) = Inr s2"
  shows "sm_last_applied s2 = Some (en_log_id (last es)) \<and> sm_last_membership s2 = sm_last_membership s1 \<and>
    sm_store s2 = sm_store s1"
proof -
  have "sm_store s2 = sm_store s1" using assms(4) by (auto simp: state_machine_new_def sbind_Inr_iff)
  with raft_laws.resumes[OF assms] show ?thesis by (auto simp: raft_laws.agree_def[OF assms(1)])
qed


text \<open>\<open>vault_meta\<close> is declared Eager but the state machine does not know the table: a replicated write to
  it is an error on every node, and no snapshot carries it.\<close>

lemma vault_meta_not_replicated:
  "(VAULT_META, Eager) \<in> set replicated_tables \<and> bytes_table_def VAULT_META = Inl (UnknownTable VAULT_META) \<and>
   VAULT_META \<notin> set snapshot_tables"
  by (simp add: replicated_tables_def all_policies_def bytes_table_def_def snapshot_tables_def VAULT_META_def
      ENDPOINTS_def CREDENTIALS_def PERMISSIONS_def KV_STORE_def
      SESSIONS_def SESSION_MESSAGES_def CRON_JOBS_def ROUTE_BINDINGS_def PKI_INDEX_def AGENTS_def NODE_KEYS_def
      VAULT_OBJECTS_def VAULT_PROVIDER_GRANTS_def VAULT_NODE_GRANTS_def VAULT_POLICIES_def)

subsection \<open>A concrete environment\<close>

datatype sample_cell = CBytes nat | CLog log_id | CMem "log_id option \<times> nat"
  | CMeta "log_id option" "log_id option \<times> nat" string
  | CPayload "log_id option" "log_id option \<times> nat" "(string \<times> (string \<times> sample_cell) list) list"

definition sample_raft :: "(sample_cell mem_db, sample_cell mem_db, sample_cell, unit, nat) raft_env" where
  "sample_raft = \<lparr>re_rb = mem_redb,
     re_log_id = (Inr \<circ> CLog, \<lambda>c. case c of CLog l \<Rightarrow> Inr l | _ \<Rightarrow> Inl ()),
     re_membership = (Inr \<circ> CMem, \<lambda>c. case c of CMem m \<Rightarrow> Inr m | _ \<Rightarrow> Inl ()),
     re_meta = (\<lambda>m. Inr (CMeta (me_last_log_id m) (me_last_membership m) (me_snapshot_id m)),
        \<lambda>c. case c of CMeta l m i \<Rightarrow> Inr \<lparr>me_last_log_id = l, me_last_membership = m, me_snapshot_id = i\<rparr> | _ \<Rightarrow> Inl ()),
     re_payload = (\<lambda>p. Inr (CPayload (sp_last_applied p) (sp_last_membership p)
          (map (\<lambda>ts. (ts_name ts, ts_rows ts)) (sp_tables p))),
        \<lambda>c. case c of CPayload l m ts \<Rightarrow> Inr \<lparr>sp_last_applied = l, sp_last_membership = m,
          sp_tables = map (\<lambda>(n, rows). \<lparr>ts_name = n, ts_rows = rows\<rparr>) ts\<rparr> | _ \<Rightarrow> Inl ()),
     re_default_membership = (None, 0), re_show_leader = (\<lambda>_. []), re_show_index = (\<lambda>_. [])\<rparr>"

interpretation sample_replica: raft_laws sample_raft mem_view mem_view
proof -
  have "redb_laws (re_rb sample_raft) mem_view mem_view"
    using mem.redb_laws_axioms by (simp add: sample_raft_def)
  moreover have "raft_laws_axioms sample_raft"
  proof
    have ts: "\<lparr>ts_name = ts_name x, ts_rows = ts_rows x\<rparr> = x" for x :: "sample_cell table_snapshot" by simp
    show "reads_back (re_payload sample_raft)"
      by (auto simp: reads_back_def sample_raft_def o_def ts)
  qed (auto simp: reads_back_def sample_raft_def)
  ultimately show "raft_laws sample_raft mem_view mem_view" by (rule raft_laws.intro)
qed

definition full :: "(sample_cell mem_db, sample_cell, nat) state_machine \<Rightarrow> bool" where
  "full s \<longleftrightarrow> (\<forall>t. sm_store s t \<noteq> None)"

definition sample_replica_state :: "(string \<times> sample_cell) list \<Rightarrow> (sample_cell mem_db, sample_cell, nat) state_machine" where
  "sample_replica_state rows = \<lparr>sm_store = (\<lambda>t. Some (if t = KV_STORE then rows else [])), sm_last_applied = None,
     sm_last_membership = (None, 0), sm_current_snapshot = None\<rparr>"

lemma sample_raft_sel [simp]:
  "re_rb sample_raft = mem_redb" "fst (re_log_id sample_raft) = Inr \<circ> CLog" "fst (re_membership sample_raft) = Inr \<circ> CMem"
  by (simp_all add: sample_raft_def)

lemma mem_ops:
  "rb_open_write mem_redb t tx = (Inr (tx(t \<mapsto> mem_rows t tx)) :: unit + sample_cell mem_db)"
  "rb_insert mem_redb t k v tx = (Inr (tx(t \<mapsto> (k, v) # mem_rows t tx)) :: unit + sample_cell mem_db)"
  "rb_remove mem_redb t k tx = (Inr (tx(t \<mapsto> filter (\<lambda>r. fst r \<noteq> k) (mem_rows t tx)), map_of (mem_rows t tx) k) :: unit + sample_cell mem_db \<times> sample_cell option)"
  "rb_iter mem_redb t tx = (Inr (mem_sorted (mem_rows t tx)) :: unit + _)"
  "rb_begin_write mem_redb db = (Inr db :: unit + sample_cell mem_db)"
  "rb_commit mem_redb tx = (Inr tx :: unit + sample_cell mem_db)"
  by (simp_all add: mem_redb_def)

text \<open>Every operation of the state machine succeeds on the in-memory database.\<close>

definition total :: "((sample_cell mem_db, sample_cell, nat) state_machine, unit raft_error, 'a) sx \<Rightarrow> bool" where
  "total f \<longleftrightarrow> (\<forall>s. full s \<longrightarrow> (\<exists>x s'. f s = (Inr x, s') \<and> full s'))"

lemma totalD: "total f \<Longrightarrow> full s \<Longrightarrow> \<exists>x s'. f s = (Inr x, s') \<and> full s'"
  by (simp add: total_def)

named_theorems total_intros

lemma total_bind [total_intros]: "total f \<Longrightarrow> (\<And>x. total (g x)) \<Longrightarrow> total (sx_bind f g)"
  unfolding total_def sx_bind_def by (fastforce split: prod.split sum.split)

lemma total_return [total_intros]: "total (sx_return x)"
  by (simp add: total_def)

lemma total_put [total_intros]: "total (sm_write (store_put mem_redb t k v))"
  by (auto simp: total_def sm_write_def store_put_def mem_redb_def full_def)

lemma total_put_json: "enc x = Inr v \<Longrightarrow> total (sm_write (put_json mem_redb enc t k x))"
proof -
  assume "enc x = Inr v"
  then have "put_json mem_redb enc t k x = store_put mem_redb t k v" by (simp add: put_json_def fun_eq_iff)
  then show ?thesis using total_put by simp
qed

lemma total_applied [total_intros]: "total (persist_applied_state sample_raft)"
proof -
  have "total (case l of Some l \<Rightarrow> sm_write (put_json mem_redb (Inr \<circ> CLog) REPLICATION_META LAST_APPLIED_KEY l)
        | None \<Rightarrow> sx_return ())" for l
    by (cases l) (auto intro: total_return total_put_json)
  moreover have "total (sm_write (put_json mem_redb (Inr \<circ> CMem) REPLICATION_META LAST_MEMBERSHIP_KEY m))" for m
    by (rule total_put_json) simp
  ultimately have "total (sx_bind (case l of Some l \<Rightarrow> sm_write (put_json mem_redb (Inr \<circ> CLog) REPLICATION_META LAST_APPLIED_KEY l)
        | None \<Rightarrow> sx_return ()) (\<lambda>_. sm_write (put_json mem_redb (Inr \<circ> CMem) REPLICATION_META LAST_MEMBERSHIP_KEY m)))" for l m
    by (intro total_bind)
  then show ?thesis unfolding total_def persist_applied_state_def sample_raft_sel by blast
qed

lemma total_snapshot [total_intros]: "total (persist_snapshot sample_raft meta data)"
proof -
  have "total (\<lambda>s. (Inr (), s\<lparr>sm_current_snapshot := Some (meta, data)\<rparr>))" by (simp add: total_def full_def)
  then show ?thesis unfolding persist_snapshot_def
    by (intro total_bind) (auto simp: sample_raft_def intro: total_put_json total_put)
qed

lemma total_build: "total (build_snapshot sample_raft)"
proof -
  have "\<exists>p. snapshot_of sample_raft s = (Inr p :: unit raft_error + _)" if "full s" for s
  proof -
    have "store_list mem_redb t (sm_store s) = (Inr (mem_sorted (mem_rows t (sm_store s))) :: unit + _)" for t
      using that by (simp add: store_list_def mem_redb_def full_def)
    then show ?thesis
      by (simp add: snapshot_of_def sample_raft_def raft_err_def
          collect_ok[where g = "\<lambda>t. \<lparr>ts_name = t, ts_rows = mem_sorted (mem_rows t (sm_store s))\<rparr>"])
  qed
  moreover have "\<exists>x s'. sx_bind (persist_snapshot sample_raft meta data) (\<lambda>_. sx_return (meta, data)) s = (Inr x, s') \<and> full s'"
    if "full s" for meta data s
    by (rule totalD[OF _ that]) (intro total_intros)
  ultimately show ?thesis unfolding total_def build_snapshot_def
    by (fastforce simp: sx_bind_Inr_iff Let_def raft_err_def sample_raft_def)
qed

lemma sample_replace: "\<exists>db'. replace_bytes_tables mem_redb reps db = (Inr db' :: unit + sample_cell mem_db) \<and> (\<forall>t. db t \<noteq> None \<longrightarrow> db' t \<noteq> None)"
proof -
  have rem: "\<exists>tx'. remove_keys mem_redb t ks tx = (Inr tx' :: unit + sample_cell mem_db) \<and> (\<forall>t. tx t \<noteq> None \<longrightarrow> tx' t \<noteq> None)" for t ks and tx :: "sample_cell mem_db"
  proof (induction ks arbitrary: tx)
    case (Cons k ks)
    let ?tx = "tx(t \<mapsto> filter (\<lambda>r. fst r \<noteq> k) (mem_rows t tx))"
    obtain tx' where tx': "remove_keys mem_redb t ks ?tx = (Inr tx' :: unit + _)" "\<forall>u. ?tx u \<noteq> None \<longrightarrow> tx' u \<noteq> None"
      using Cons.IH by blast
    have "remove_keys mem_redb t (k # ks) tx = (Inr tx' :: unit + _)" using tx'(1) by (simp add: mem_ops del: fun_upd_apply)
    moreover have "tx u \<noteq> None \<longrightarrow> tx' u \<noteq> None" for u using tx'(2) by (auto split: if_splits)
    ultimately show ?case by blast
  qed simp
  have ins: "\<exists>tx'. insert_entries mem_redb t es tx = (Inr tx' :: unit + sample_cell mem_db) \<and> (\<forall>t. tx t \<noteq> None \<longrightarrow> tx' t \<noteq> None)" for t es and tx :: "sample_cell mem_db"
  proof (induction es arbitrary: tx)
    case (Cons e es)
    let ?tx = "tx(t \<mapsto> e # mem_rows t tx)"
    obtain tx' where tx': "insert_entries mem_redb t es ?tx = (Inr tx' :: unit + _)" "\<forall>u. ?tx u \<noteq> None \<longrightarrow> tx' u \<noteq> None"
      using Cons.IH by blast
    have "insert_entries mem_redb t (e # es) tx = (Inr tx' :: unit + _)"
      using tx'(1) by (cases e) (simp add: mem_ops del: fun_upd_apply)
    moreover have "tx u \<noteq> None \<longrightarrow> tx' u \<noteq> None" for u using tx'(2) by (auto split: if_splits)
    ultimately show ?case by blast
  qed simp
  have "\<exists>tx'. replace_each mem_redb reps tx = (Inr tx' :: unit + sample_cell mem_db) \<and> (\<forall>t. tx t \<noteq> None \<longrightarrow> tx' t \<noteq> None)" for tx
  proof (induction reps arbitrary: tx)
    case (Cons r reps)
    obtain t es where r: "r = (t, es)" by (cases r)
    let ?tx = "tx(t \<mapsto> mem_rows t tx)"
    obtain tx1 where 1: "remove_keys mem_redb t (map fst (mem_sorted (mem_rows t ?tx))) ?tx = (Inr tx1 :: unit + _)"
      "\<forall>u. ?tx u \<noteq> None \<longrightarrow> tx1 u \<noteq> None" using rem by blast
    obtain tx2 where 2: "insert_entries mem_redb t es tx1 = (Inr tx2 :: unit + _)" "\<forall>u. tx1 u \<noteq> None \<longrightarrow> tx2 u \<noteq> None"
      using ins by blast
    from Cons.IH[of tx2] obtain tx3 where 3: "replace_each mem_redb reps tx2 = (Inr tx3 :: unit + _)"
      "\<forall>u. tx2 u \<noteq> None \<longrightarrow> tx3 u \<noteq> None" by blast
    have op: "replace_each mem_redb (r # reps) tx = sbind (remove_keys mem_redb t (map fst (mem_sorted (mem_rows t ?tx))) ?tx)
        (\<lambda>tx. sbind (insert_entries mem_redb t es tx) (replace_each mem_redb reps) :: unit + _)"
      unfolding r replace_each.simps mem_ops sbind_simps ..
    have "replace_each mem_redb (r # reps) tx = (Inr tx3 :: unit + _)"
      unfolding op sbind_simps 1(1) 2(1) 3(1) ..
    moreover have "tx u \<noteq> None \<longrightarrow> tx3 u \<noteq> None" for u using 1(2) 2(2) 3(2) by (auto split: if_splits)
    ultimately show ?case by blast
  qed simp
  then show ?thesis by (simp add: replace_bytes_tables_def mem_ops sbind_Inr_iff)
qed

lemma ask_const: "sx_bind (sx_ask (\<lambda>_. Inr x)) f = f x"
  by (simp add: sx_bind_def sx_ask_def fun_eq_iff)

lemma total_install:
  assumes "snd (re_payload sample_raft) data = Inr payload"
  shows "total (install_snapshot sample_raft meta data)"
proof -
  have w: "total (sm_write (replace_bytes_tables mem_redb reps))" for reps
    unfolding total_def
  proof (intro allI impI)
    fix s :: "(sample_cell mem_db, sample_cell, nat) state_machine" assume s: "full s"
    obtain db where db: "replace_bytes_tables mem_redb reps (sm_store s) = (Inr db :: unit + _)"
      "\<forall>t. sm_store s t \<noteq> None \<longrightarrow> db t \<noteq> None" using sample_replace by blast
    have "sm_write (replace_bytes_tables mem_redb reps) s = (Inr () :: unit raft_error + unit, s\<lparr>sm_store := db\<rparr>)"
      by (simp add: sm_write_def db(1))
    moreover have "full (s\<lparr>sm_store := db\<rparr>)" using s db(2) by (simp add: full_def)
    ultimately show "\<exists>x s'. sm_write (replace_bytes_tables mem_redb reps) s = (Inr x :: unit raft_error + unit, s') \<and> full s'"
      by blast
  qed
  have "total (\<lambda>s. sx_bind (persist_applied_state sample_raft) (\<lambda>_. persist_snapshot sample_raft meta data)
       (s\<lparr>sm_last_applied := sp_last_applied payload, sm_last_membership := sp_last_membership payload\<rparr>))"
    unfolding total_def
  proof (intro allI impI)
    fix s assume "full s"
    then have "full (s\<lparr>sm_last_applied := sp_last_applied payload, sm_last_membership := sp_last_membership payload\<rparr>)"
      by (simp add: full_def)
    from totalD[OF total_bind[OF total_applied total_snapshot] this]
    show "\<exists>x s'. sx_bind (persist_applied_state sample_raft) (\<lambda>_. persist_snapshot sample_raft meta data)
       (s\<lparr>sm_last_applied := sp_last_applied payload, sm_last_membership := sp_last_membership payload\<rparr>) =
       (Inr x, s') \<and> full s'" .
  qed
  moreover have "raft_err (snd (re_payload sample_raft) data) = Inr payload" using assms by simp
  ultimately show ?thesis
    unfolding install_snapshot_def sample_raft_sel by (simp only: ask_const) (rule total_bind[OF w])
qed

definition sample_entries :: "(sample_cell, nat) raft_entry list" where
  "sample_entries = [\<lparr>en_log_id = \<lparr>lid_leader = (1, 1), lid_index = 1\<rparr>, en_payload = Normal (PutReq KV_STORE ''k'' (CBytes 7))\<rparr>]"

lemma total_apply: "total (apply_entries sample_raft sample_entries)"
proof -
  have "total (apply_request sample_raft (PutReq KV_STORE ''k'' (CBytes 7)))"
  proof -
    have "bytes_table_def KV_STORE = (Inr KV_STORE :: unit raft_error + _)" by (simp add: bytes_table_def_def KV_STORE_def)
    then have "total (sx_ask (\<lambda>_. bytes_table_def KV_STORE))" by (simp add: total_def)
    then show ?thesis unfolding apply_request_def store_request.case
      by (intro total_intros) (simp_all add: sample_raft_def total_put)
  qed
  then have "total (sx_bind (apply_request sample_raft (PutReq KV_STORE ''k'' (CBytes 7)))
      (\<lambda>response. sx_bind (persist_applied_state sample_raft) (\<lambda>_. sx_return response)))" by (intro total_intros)
  then have "total (apply_entry sample_raft (hd sample_entries))"
    by (simp add: total_def apply_entry_def sample_entries_def full_def)
  then show ?thesis by (simp add: sample_entries_def total_intros)
qed

lemma sample_full: "full (sample_replica_state rows)"
  by (simp add: full_def sample_replica_state_def)

theorem replica_catches_up_witness:
  "\<exists>meta data s1 r1 a s2 r2 x.
     build_snapshot sample_raft (sample_replica_state [(''a'', CBytes 1)]) = (Inr (meta, data), s1) \<and>
     install_snapshot sample_raft meta data (sample_replica_state [(''b'', CBytes 2)]) = (Inr (), r1) \<and>
     apply_entries sample_raft sample_entries s1 = (Inr a, s2) \<and> apply_entries sample_raft sample_entries r1 = (Inr a, r2) \<and>
     store_get mem_redb KV_STORE ''a'' (sm_store s2) = (Inr x :: unit + _) \<and>
     store_get mem_redb KV_STORE ''a'' (sm_store r2) = (Inr x :: unit + _)"
proof -
  obtain meta data s1 where s1: "build_snapshot sample_raft (sample_replica_state [(''a'', CBytes 1)]) = (Inr (meta, data), s1)" "full s1"
    using totalD[OF total_build sample_full] by fastforce
  from sample_replica.build_snapshot_Inr(2)[OF s1(1)] obtain p where "snd (re_payload sample_raft) data = Inr p" by blast
  from totalD[OF total_install[OF this] sample_full] obtain r1 where
    r1: "install_snapshot sample_raft meta data (sample_replica_state [(''b'', CBytes 2)]) = (Inr (), r1)" "full r1" by fastforce
  obtain a s2 where s2: "apply_entries sample_raft sample_entries s1 = (Inr a, s2)" "full s2"
    using totalD[OF total_apply s1(2)] by blast
  obtain b r2 where r2: "apply_entries sample_raft sample_entries r1 = (Inr b, r2)" "full r2"
    using totalD[OF total_apply r1(2)] by blast
  have rb: "re_rb sample_raft = mem_redb" by (simp add: sample_raft_def)
  have get: "\<exists>x. store_get (re_rb sample_raft) KV_STORE ''a'' (sm_store s) = (Inr x :: unit + _)" if "full s" for s
    using that by (simp add: rb store_get_def mem_redb_def full_def)
  obtain x where x: "store_get (re_rb sample_raft) KV_STORE ''a'' (sm_store s2) = (Inr x :: unit + _)" using get[OF s2(2)] by blast
  obtain y where y: "store_get (re_rb sample_raft) KV_STORE ''a'' (sm_store r2) = (Inr y :: unit + _)" using get[OF r2(2)] by blast
  have t: "KV_STORE \<in> set snapshot_tables" by (simp add: snapshot_tables_def)
  from replica_catches_up[OF sample_replica.raft_laws_axioms s1(1) r1(1) s2(1) r2(1) t x y] s1 r1 s2 r2 x y
  show ?thesis unfolding rb by blast
qed

theorem restart_resumes_witness:
  "\<exists>rs s1 s2. apply_entries sample_raft sample_entries (sample_replica_state []) = (Inr rs, s1) \<and>
     state_machine_new sample_raft (sm_store s1) = (Inr s2 :: unit raft_error + _) \<and>
     sm_last_applied s2 = Some \<lparr>lid_leader = (1, 1), lid_index = 1\<rparr>"
proof -
  have "case apply_entries sample_raft sample_entries (sample_replica_state []) of (r, s1) \<Rightarrow>
      isl r = False \<and> isl (state_machine_new sample_raft (sm_store s1) :: unit raft_error + _) = False"
    by code_simp
  moreover obtain r s1 where a: "apply_entries sample_raft sample_entries (sample_replica_state []) = (r, s1)" by fastforce
  ultimately obtain rs s2 where "r = Inr rs" "state_machine_new sample_raft (sm_store s1) = (Inr s2 :: unit raft_error + _)"
    by (cases r; cases "state_machine_new sample_raft (sm_store s1) :: unit raft_error + _") simp_all
  with a have "\<exists>rs s1 s2. apply_entries sample_raft sample_entries (sample_replica_state []) = (Inr rs, s1) \<and>
     state_machine_new sample_raft (sm_store s1) = (Inr s2 :: unit raft_error + _)" by blast
  then obtain rs s1 s2 where r: "apply_entries sample_raft sample_entries (sample_replica_state []) = (Inr rs, s1)"
    "state_machine_new sample_raft (sm_store s1) = (Inr s2 :: unit raft_error + _)" by blast
  have "sample_entries \<noteq> []" by (simp add: sample_entries_def)
  from restart_resumes[OF sample_replica.raft_laws_axioms r(1) this r(2)] r show ?thesis
    unfolding sample_entries_def by auto
qed

end
