(* ===== verification/RaftLog.thy ===== *)
theory RaftLog
  imports RaftStore "HOL-Library.Multiset"
begin

text \<open>
  The log of the replicated store (\<open>rockbot-storage/src/raft/log_store.rs\<close>): entries, vote, commit and
  purge positions, kept in memory and written through to \<open>REPLICATION_META\<close>. A vote is OpenRaft's
  type and a parameter, like the codecs. Every operation writes the store first.
\<close>

record ('db, 'v, 'm, 'vt) log_store =
  lg_store :: 'db
  lg_vote :: "'vt option"
  lg_committed :: "log_id option"
  lg_last_purged :: "log_id option"
  lg_log :: "('v, 'm) raft_entry list"

record ('db, 'tx, 'v, 'e, 'm, 'vt) log_env =
  le_rb :: "('db, 'tx, 'v, 'e) redb"
  le_vote :: "('vt \<Rightarrow> 'e + 'v) \<times> ('v \<Rightarrow> 'e + 'vt)"
  le_log_id :: "(log_id \<Rightarrow> 'e + 'v) \<times> ('v \<Rightarrow> 'e + log_id)"
  le_entry :: "(('v, 'm) raft_entry \<Rightarrow> 'e + 'v) \<times> ('v \<Rightarrow> 'e + ('v, 'm) raft_entry)"

definition VOTE_KEY :: string where "VOTE_KEY = ''raft/internal/vote''"
definition COMMITTED_KEY :: string where "COMMITTED_KEY = ''raft/internal/committed''"
definition LAST_PURGED_KEY :: string where "LAST_PURGED_KEY = ''raft/internal/last_purged''"
definition LOG_PREFIX :: string where "LOG_PREFIX = ''raft/log/''"

definition entry_index :: "('v, 'm) raft_entry \<Rightarrow> nat" where
  "entry_index en = lid_index (en_log_id en)"

text \<open>An index below \<open>2\<^sup>6\<^sup>4\<close> has at most twenty decimal digits; they are padded with zeros.\<close>

definition log_key :: "nat \<Rightarrow> string" where
  "log_key i = LOG_PREFIX @ map (\<lambda>k. char_of (48 + i div 10 ^ k mod 10)) (rev [0..<20])"

subsection \<open>Operations\<close>

definition load_inner ::
  "('db, 'tx, 'v, 'e, 'm, 'vt) log_env \<Rightarrow> 'db \<Rightarrow> 'e + ('db, 'v, 'm, 'vt) log_store" where
  "load_inner env db =
     sbind (get_json (le_rb env) (snd (le_vote env)) REPLICATION_META VOTE_KEY db) (\<lambda>vote.
     sbind (get_json (le_rb env) (snd (le_log_id env)) REPLICATION_META COMMITTED_KEY db) (\<lambda>committed.
     sbind (get_json (le_rb env) (snd (le_log_id env)) REPLICATION_META LAST_PURGED_KEY db) (\<lambda>purged.
     sbind (list_json (le_rb env) (snd (le_entry env)) REPLICATION_META db) (\<lambda>rows.
     Inr \<lparr>lg_store = db, lg_vote = vote, lg_committed = committed, lg_last_purged = purged,
          lg_log = sort_key entry_index (map snd (filter (\<lambda>(k, _). prefix LOG_PREFIX k) rows))\<rparr>))))"

definition lg_write :: "('db \<Rightarrow> 'e + 'db) \<Rightarrow> (('db, 'v, 'm, 'vt) log_store, 'e, unit) sx" where
  "lg_write w s = (case w (lg_store s) of Inl e \<Rightarrow> (Inl e, s) | Inr db \<Rightarrow> (Inr (), s\<lparr>lg_store := db\<rparr>))"

definition persist_meta ::
  "('db, 'tx, 'v, 'e, 'm, 'vt) log_env \<Rightarrow> ('a \<Rightarrow> 'e + 'v) \<Rightarrow> string \<Rightarrow> 'a \<Rightarrow> (('db, 'v, 'm, 'vt) log_store, 'e, unit) sx" where
  "persist_meta env enc key x = lg_write (put_json (le_rb env) enc REPLICATION_META key x)"

definition delete_meta_key ::
  "('db, 'tx, 'v, 'e, 'm, 'vt) log_env \<Rightarrow> string \<Rightarrow> (('db, 'v, 'm, 'vt) log_store, 'e, unit) sx" where
  "delete_meta_key env key = lg_write (\<lambda>db. map_sum id fst (store_delete (le_rb env) REPLICATION_META key db))"

definition try_get_log_entries :: "(nat \<Rightarrow> bool) \<Rightarrow> ('db, 'v, 'm, 'vt) log_store \<Rightarrow> ('v, 'm) raft_entry list" where
  "try_get_log_entries within s = filter (\<lambda>en. within (entry_index en)) (lg_log s)"

definition read_vote :: "('db, 'v, 'm, 'vt) log_store \<Rightarrow> 'vt option" where
  "read_vote s = lg_vote s"

definition read_committed :: "('db, 'v, 'm, 'vt) log_store \<Rightarrow> log_id option" where
  "read_committed s = lg_committed s"

text \<open>The last purged and the last log id.\<close>

definition get_log_state :: "('db, 'v, 'm, 'vt) log_store \<Rightarrow> log_id option \<times> log_id option" where
  "get_log_state s = (lg_last_purged s,
     (if lg_log s = [] then lg_last_purged s else Some (en_log_id (last (lg_log s)))))"

definition save_vote ::
  "('db, 'tx, 'v, 'e, 'm, 'vt) log_env \<Rightarrow> 'vt \<Rightarrow> (('db, 'v, 'm, 'vt) log_store, 'e, unit) sx" where
  "save_vote env vote =
     sx_bind (persist_meta env (fst (le_vote env)) VOTE_KEY vote) (\<lambda>_. sx_update (\<lambda>s. s\<lparr>lg_vote := Some vote\<rparr>))"

definition save_committed ::
  "('db, 'tx, 'v, 'e, 'm, 'vt) log_env \<Rightarrow> log_id option \<Rightarrow> (('db, 'v, 'm, 'vt) log_store, 'e, unit) sx" where
  "save_committed env committed =
     sx_bind (case committed of
         Some l \<Rightarrow> persist_meta env (fst (le_log_id env)) COMMITTED_KEY l
       | None \<Rightarrow> delete_meta_key env COMMITTED_KEY)
     (\<lambda>_. sx_update (\<lambda>s. s\<lparr>lg_committed := committed\<rparr>))"

definition log_append ::
  "('db, 'tx, 'v, 'e, 'm, 'vt) log_env \<Rightarrow> ('v, 'm) raft_entry list \<Rightarrow> (('db, 'v, 'm, 'vt) log_store, 'e, unit) sx" where
  "log_append env entries =
     sx_bind (each (\<lambda>en. persist_meta env (fst (le_entry env)) (log_key (entry_index en)) en) entries)
       (\<lambda>_. sx_update (\<lambda>s. s\<lparr>lg_log := lg_log s @ entries\<rparr>))"

definition log_truncate_after ::
  "('db, 'tx, 'v, 'e, 'm, 'vt) log_env \<Rightarrow> log_id option \<Rightarrow> (('db, 'v, 'm, 'vt) log_store, 'e, unit) sx" where
  "log_truncate_after env last_log_id s =
     sx_bind (each (\<lambda>en. delete_meta_key env (log_key (entry_index en)))
        (filter (\<lambda>en. case last_log_id of Some l \<Rightarrow> lid_index l < entry_index en | None \<Rightarrow> True) (lg_log s)))
       (\<lambda>_. sx_update (\<lambda>s. s\<lparr>lg_log := (case last_log_id of
           Some l \<Rightarrow> filter (\<lambda>en. entry_index en \<le> lid_index l) (lg_log s) | None \<Rightarrow> [])\<rparr>)) s"

definition log_purge ::
  "('db, 'tx, 'v, 'e, 'm, 'vt) log_env \<Rightarrow> log_id \<Rightarrow> (('db, 'v, 'm, 'vt) log_store, 'e, unit) sx" where
  "log_purge env l s =
     sx_bind (each (\<lambda>en. delete_meta_key env (log_key (entry_index en)))
        (filter (\<lambda>en. entry_index en \<le> lid_index l) (lg_log s)))
       (\<lambda>_. sx_bind (persist_meta env (fst (le_log_id env)) LAST_PURGED_KEY l)
       (\<lambda>_. sx_update (\<lambda>s. s\<lparr>lg_log := filter (\<lambda>en. lid_index l < entry_index en) (lg_log s),
                              lg_last_purged := Some l\<rparr>))) s"


subsection \<open>Keys\<close>

lemma foldr_same: "(\<And>i. i \<in> set is \<Longrightarrow> f i = g i) \<Longrightarrow> foldr f is a = foldr g is a"
  by (induction "is") auto

lemma log_key_inj:
  assumes "log_key i = log_key j" "i < 2 ^ 64" "j < 2 ^ 64"
  shows "i = j"
proof -
  have "char_of (48 + i div 10 ^ k mod 10) = (char_of (48 + j div 10 ^ k mod 10) :: char)" if "k < 20" for k
    using assms(1) that by (simp add: log_key_def)
  then have "i div 10 ^ k mod 10 = j div 10 ^ k mod 10" if "k < 20" for k
  proof -
    have "(of_char (char_of (48 + i div 10 ^ k mod 10)) :: nat) = of_char (char_of (48 + j div 10 ^ k mod 10))"
      using \<open>\<And>k. k < 20 \<Longrightarrow> char_of (48 + i div 10 ^ k mod 10) = char_of (48 + j div 10 ^ k mod 10)\<close> that by simp
    moreover have "48 + n mod 10 < 256" for n :: nat using mod_less_divisor[of 10 n] by linarith
    ultimately show ?thesis by simp
  qed
  then have "foldr (\<lambda>k acc. i div 10 ^ k mod 10 + 10 * acc) [0..<20] 0 = foldr (\<lambda>k acc. j div 10 ^ k mod 10 + 10 * acc) [0..<20] 0"
    by (intro foldr_same) auto
  then have "i mod 10 ^ 20 = j mod 10 ^ 20" by (simp only: digits_mod)
  with assms(2,3) show ?thesis by simp
qed

lemma log_key_prefix [simp]: "prefix LOG_PREFIX (log_key i)"
  by (simp add: log_key_def)

lemma meta_keys [simp]:
  "\<not> prefix LOG_PREFIX VOTE_KEY" "\<not> prefix LOG_PREFIX COMMITTED_KEY" "\<not> prefix LOG_PREFIX LAST_PURGED_KEY"
  "VOTE_KEY \<noteq> COMMITTED_KEY" "VOTE_KEY \<noteq> LAST_PURGED_KEY" "COMMITTED_KEY \<noteq> LAST_PURGED_KEY"
  "COMMITTED_KEY \<noteq> VOTE_KEY" "LAST_PURGED_KEY \<noteq> VOTE_KEY" "LAST_PURGED_KEY \<noteq> COMMITTED_KEY"
  by (simp_all add: LOG_PREFIX_def VOTE_KEY_def COMMITTED_KEY_def LAST_PURGED_KEY_def)

lemma log_key_not_meta [simp]:
  "log_key i \<noteq> VOTE_KEY" "log_key i \<noteq> COMMITTED_KEY" "log_key i \<noteq> LAST_PURGED_KEY"
  "VOTE_KEY \<noteq> log_key i" "COMMITTED_KEY \<noteq> log_key i" "LAST_PURGED_KEY \<noteq> log_key i"
  using log_key_prefix[of i] meta_keys by metis+

subsection \<open>The persisted mirror\<close>

definition stored :: "('a \<Rightarrow> 'e + 'v) \<Rightarrow> (string \<rightharpoonup> 'v) \<Rightarrow> string \<Rightarrow> 'a option \<Rightarrow> bool" where
  "stored enc M key x = (case x of None \<Rightarrow> M key = None | Some y \<Rightarrow> (\<exists>v. enc y = Inr v \<and> M key = Some v))"

text \<open>The rows under the log prefix are exactly the entries in memory, and the other positions are
  stored as they are in memory.\<close>

definition mirrors ::
  "('db, 'tx, 'v, 'e, 'm, 'vt) log_env \<Rightarrow> (string \<rightharpoonup> 'v) \<Rightarrow> ('db, 'v, 'm, 'vt) log_store \<Rightarrow> bool" where
  "mirrors env M s \<longleftrightarrow>
     stored (fst (le_vote env)) M VOTE_KEY (lg_vote s) \<and>
     stored (fst (le_log_id env)) M COMMITTED_KEY (lg_committed s) \<and>
     stored (fst (le_log_id env)) M LAST_PURGED_KEY (lg_last_purged s) \<and>
     (\<forall>en \<in> set (lg_log s). stored (fst (le_entry env)) M (log_key (entry_index en)) (Some en)) \<and>
     (\<forall>k. prefix LOG_PREFIX k \<longrightarrow> M k \<noteq> None \<longrightarrow> (\<exists>en \<in> set (lg_log s). k = log_key (entry_index en))) \<and>
     distinct (map entry_index (lg_log s)) \<and> (\<forall>en \<in> set (lg_log s). entry_index en < 2 ^ 64)"

lemma stored_cong: "M' k = M k \<Longrightarrow> stored enc M' k x = stored enc M k x"
  by (simp add: stored_def split: option.splits)

lemma mirrors_keep:
  assumes "mirrors env M s"
    and "M' VOTE_KEY = M VOTE_KEY" "M' COMMITTED_KEY = M COMMITTED_KEY" "M' LAST_PURGED_KEY = M LAST_PURGED_KEY"
    and "lg_vote s' = lg_vote s" "lg_committed s' = lg_committed s" "lg_last_purged s' = lg_last_purged s"
    and "\<And>en. en \<in> set (lg_log s') \<Longrightarrow> stored (fst (le_entry env)) M' (log_key (entry_index en)) (Some en)"
    and "\<And>k. prefix LOG_PREFIX k \<Longrightarrow> M' k \<noteq> None \<Longrightarrow> \<exists>en \<in> set (lg_log s'). k = log_key (entry_index en)"
    and "distinct (map entry_index (lg_log s'))" "\<And>en. en \<in> set (lg_log s') \<Longrightarrow> entry_index en < 2 ^ 64"
  shows "mirrors env M' s'"
proof -
  note c = stored_cong[where M' = M' and M = M]
  show ?thesis using assms(1,5-) unfolding mirrors_def
    by (simp add: c[OF assms(2)] c[OF assms(3)] c[OF assms(4)])
qed

lemma mirrors_row:
  assumes "mirrors env M s" "prefix LOG_PREFIX k" "M k \<noteq> None"
  obtains en where "en \<in> set (lg_log s)" "k = log_key (entry_index en)"
  using assms by (auto simp: mirrors_def)

lemma mirrors_entry: "mirrors env M s \<Longrightarrow> en \<in> set (lg_log s) \<Longrightarrow>
    stored (fst (le_entry env)) M (log_key (entry_index en)) (Some en) \<and> entry_index en < 2 ^ 64"
  by (auto simp: mirrors_def)

lemma stored_upd [simp]:
  "k \<noteq> k' \<Longrightarrow> stored enc (M(k' := z)) k x = stored enc M k x"
  "stored enc (M(k := None)) k None"
  "stored enc (M(k \<mapsto> v)) k (Some y) \<longleftrightarrow> enc y = Inr v"
  by (auto simp: stored_def split: option.splits)

text \<open>The rows of \<open>REPLICATION_META\<close> in the store a log writes to.\<close>

definition meta_rows :: "('db \<Rightarrow> 'v contents) \<Rightarrow> ('db, 'v, 'm, 'vt) log_store \<Rightarrow> string \<rightharpoonup> 'v" where
  "meta_rows dbv s = (case dbv (lg_store s) REPLICATION_META of None \<Rightarrow> Map.empty | Some m \<Rightarrow> m)"

text \<open>Steps of the log as OpenRaft drives it: appended indices are fresh.\<close>

inductive log_step ::
  "('db, 'tx, 'v, 'e, 'm, 'vt) log_env \<Rightarrow> ('db, 'v, 'm, 'vt) log_store \<Rightarrow> ('db, 'v, 'm, 'vt) log_store \<Rightarrow> bool"
  for env where
  vote: "save_vote env v s = (Inr (), s') \<Longrightarrow> log_step env s s'"
| commit: "save_committed env c s = (Inr (), s') \<Longrightarrow> log_step env s s'"
| append: "log_append env es s = (Inr (), s') \<Longrightarrow> distinct (map entry_index (lg_log s @ es)) \<Longrightarrow>
    \<forall>en \<in> set es. entry_index en < 2 ^ 64 \<Longrightarrow> log_step env s s'"
| truncate: "log_truncate_after env l s = (Inr (), s') \<Longrightarrow> log_step env s s'"
| purge: "log_purge env i s = (Inr (), s') \<Longrightarrow> log_step env s s'"

lemma key_inj_on:
  assumes "distinct (map entry_index es)" "\<forall>en \<in> set es. entry_index en < 2 ^ 64"
  shows "inj_on (\<lambda>en. log_key (entry_index en)) (set es)"
proof (rule inj_onI)
  fix x y assume "x \<in> set es" "y \<in> set es" and k: "log_key (entry_index x) = log_key (entry_index y)"
  with log_key_inj[OF k] assms show "x = y" by (auto simp: distinct_map inj_on_def)
qed

lemma same_store [simp]: "\<exists>db. (s :: ('db, 'v, 'm, 'vt) log_store) = s\<lparr>lg_store := db\<rparr>"
  by (rule exI[of _ "lg_store s"]) simp

locale log_laws = redb_laws "le_rb env" dbv txv
  for env :: "('db, 'tx, 'v, 'e, 'm, 'vt) log_env" and dbv :: "'db \<Rightarrow> 'v contents" and txv :: "'tx \<Rightarrow> 'v contents" +
  assumes vote_codec: "reads_back (le_vote env)"
    and log_id_codec: "reads_back (le_log_id env)"
    and entry_codec: "reads_back (le_entry env)"
begin

abbreviation meta :: "('db, 'v, 'm, 'vt) log_store \<Rightarrow> string \<rightharpoonup> 'v" where
  "meta \<equiv> meta_rows dbv"

lemma meta_def: "meta s = view (lg_store s) REPLICATION_META"
  by (simp add: meta_rows_def view_def)

lemma meta_upd [simp]:
  "meta (s\<lparr>lg_log := l\<rparr>) = meta s" "meta (s\<lparr>lg_vote := v\<rparr>) = meta s" "meta (s\<lparr>lg_committed := c\<rparr>) = meta s"
  "meta (s\<lparr>lg_last_purged := c\<rparr>) = meta s"
  by (simp_all add: meta_def)

lemma persist_meta_Inr:
  assumes "persist_meta env enc key x s = (Inr u, s')"
  obtains db v where "s' = s\<lparr>lg_store := db\<rparr>" "enc x = Inr v" "meta s' = (meta s)(key \<mapsto> v)"
proof -
  from assms obtain db where p: "put_json (le_rb env) enc REPLICATION_META key x (lg_store s) = Inr db"
    "s' = s\<lparr>lg_store := db\<rparr>"
    by (auto simp: persist_meta_def lg_write_def split: sum.splits)
  then obtain v where v: "enc x = Inr v" "store_put (le_rb env) REPLICATION_META key v (lg_store s) = Inr db"
    by (auto simp: put_json_def sbind_Inr_iff)
  show thesis using that[OF p(2) v(1)] put_view[OF v(2)] p(2) by (simp add: meta_def)
qed

lemma delete_meta_Inr:
  assumes "delete_meta_key env key s = (Inr u, s')"
  obtains db where "s' = s\<lparr>lg_store := db\<rparr>" "meta s' = (meta s)(key := None)"
proof -
  from assms obtain db b where d: "store_delete (le_rb env) REPLICATION_META key (lg_store s) = Inr (db, b)"
    "s' = s\<lparr>lg_store := db\<rparr>"
    by (auto simp: delete_meta_key_def lg_write_def map_sum_def split: sum.splits)
  show thesis using that[OF d(2)] delete_view[OF d(1)] d(2) by (simp add: meta_def)
qed

lemma each_persist:
  "each (\<lambda>en. persist_meta env enc (key en) en) es s = (Inr u, s') \<Longrightarrow> inj_on key (set es) \<Longrightarrow>
   (\<exists>db. s' = s\<lparr>lg_store := db\<rparr>) \<and> (\<forall>en \<in> set es. stored enc (meta s') (key en) (Some en)) \<and>
   (\<forall>k. k \<notin> key ` set es \<longrightarrow> meta s' k = meta s k)"
proof (induction es arbitrary: s)
  case (Cons en es)
  from Cons.prems(1) obtain s1 where p: "persist_meta env enc (key en) en s = (Inr (), s1)"
    and r: "each (\<lambda>en. persist_meta env enc (key en) en) es s1 = (Inr u, s')"
    by (auto simp: sx_bind_Inr_iff)
  have "inj_on key (set es)" using Cons.prems(2) by simp
  note ih = Cons.IH[OF r this]
  from persist_meta_Inr[OF p] obtain db v where v: "s1 = s\<lparr>lg_store := db\<rparr>" "enc en = Inr v"
    "meta s1 = (meta s)(key en \<mapsto> v)" .
  have "stored enc (meta s') (key en) (Some en)"
  proof (cases "en \<in> set es")
    case False
    then have "key en \<notin> key ` set es" using Cons.prems(2) by (auto simp: inj_on_def)
    then show ?thesis using ih v(2,3) by (simp add: stored_def)
  qed (use ih in auto)
  moreover have "\<exists>db. s' = s\<lparr>lg_store := db\<rparr>" using ih v(1) by auto
  ultimately show ?case using ih v(3) by simp
qed simp

lemma each_delete:
  "each (\<lambda>en. delete_meta_key env (key en)) es s = (Inr u, s') \<Longrightarrow>
   (\<exists>db. s' = s\<lparr>lg_store := db\<rparr>) \<and> meta s' = (\<lambda>k. if k \<in> key ` set es then None else meta s k)"
proof (induction es arbitrary: s)
  case (Cons en es)
  from Cons.prems obtain s1 where d: "delete_meta_key env (key en) s = (Inr (), s1)"
    and r: "each (\<lambda>en. delete_meta_key env (key en)) es s1 = (Inr u, s')"
    by (auto simp: sx_bind_Inr_iff)
  from delete_meta_Inr[OF d] obtain db where "s1 = s\<lparr>lg_store := db\<rparr>" "meta s1 = (meta s)(key en := None)" .
  with Cons.IH[OF r] show ?case by (auto simp: fun_eq_iff)
qed simp

lemma save_vote_mirrors:
  assumes "save_vote env v s = (Inr (), s')" "mirrors env (meta s) s"
  shows "mirrors env (meta s') s'"
proof -
  from assms(1) obtain s1 where p: "persist_meta env (fst (le_vote env)) VOTE_KEY v s = (Inr (), s1)"
    and s': "s' = s1\<lparr>lg_vote := Some v\<rparr>" by (auto simp: save_vote_def sx_bind_Inr_iff sx_update_def)
  from persist_meta_Inr[OF p] obtain db w where w: "s1 = s\<lparr>lg_store := db\<rparr>" "fst (le_vote env) v = Inr w"
    "meta s1 = (meta s)(VOTE_KEY \<mapsto> w)" .
  have "meta s' = meta s1" by (simp add: s')
  with assms(2) w s' show ?thesis by (auto simp: mirrors_def split: if_splits)
qed

lemma save_committed_mirrors:
  assumes "save_committed env c s = (Inr (), s')" "mirrors env (meta s) s"
  shows "mirrors env (meta s') s'"
proof (cases c)
  case None
  with assms(1) obtain s1 where p: "delete_meta_key env COMMITTED_KEY s = (Inr (), s1)"
    and s': "s' = s1\<lparr>lg_committed := None\<rparr>" by (auto simp: save_committed_def sx_bind_Inr_iff sx_update_def)
  from delete_meta_Inr[OF p] obtain db where w: "s1 = s\<lparr>lg_store := db\<rparr>"
    "meta s1 = (meta s)(COMMITTED_KEY := None)" .
  have "meta s' = meta s1" by (simp add: s')
  with assms(2) w s' show ?thesis by (auto simp: mirrors_def split: if_splits)
next
  case (Some l)
  with assms(1) obtain s1 where p: "persist_meta env (fst (le_log_id env)) COMMITTED_KEY l s = (Inr (), s1)"
    and s': "s' = s1\<lparr>lg_committed := Some l\<rparr>" by (auto simp: save_committed_def sx_bind_Inr_iff sx_update_def)
  from persist_meta_Inr[OF p] obtain db w where w: "s1 = s\<lparr>lg_store := db\<rparr>" "fst (le_log_id env) l = Inr w"
    "meta s1 = (meta s)(COMMITTED_KEY \<mapsto> w)" .
  have "meta s' = meta s1" by (simp add: s')
  with assms(2) w s' show ?thesis by (auto simp: mirrors_def split: if_splits)
qed

lemma append_mirrors:
  assumes "log_append env es s = (Inr (), s')" "mirrors env (meta s) s"
    "distinct (map entry_index (lg_log s @ es))" "\<forall>en \<in> set es. entry_index en < 2 ^ 64"
  shows "mirrors env (meta s') s'"
proof -
  let ?key = "\<lambda>en. log_key (entry_index en)"
  from assms(1) obtain s1 where p: "each (\<lambda>en. persist_meta env (fst (le_entry env)) (?key en) en) es s = (Inr (), s1)"
    and s': "s' = s1\<lparr>lg_log := lg_log s1 @ es\<rparr>" by (auto simp: log_append_def sx_bind_Inr_iff sx_update_def)
  have all: "inj_on ?key (set (lg_log s @ es))"
    using assms(2-4) by (intro key_inj_on) (auto simp: mirrors_def)
  then have "inj_on ?key (set es)" by (rule inj_on_subset) simp
  from each_persist[OF p this] obtain db where e: "s1 = s\<lparr>lg_store := db\<rparr>"
    "\<forall>en \<in> set es. stored (fst (le_entry env)) (meta s1) (?key en) (Some en)"
    "\<And>k. k \<notin> ?key ` set es \<Longrightarrow> meta s1 k = meta s k" by blast
  have m: "meta s' = meta s1" by (simp add: s')
  have old: "?key en \<notin> ?key ` set es" if "en \<in> set (lg_log s)" for en
    using all that assms(3) by (auto dest!: inj_onD[where f = ?key])
  have "stored (fst (le_entry env)) (meta s1) (?key en) (Some en)" if "en \<in> set (lg_log s @ es)" for en
  proof (cases "en \<in> set es")
    case False
    with that have en: "en \<in> set (lg_log s)" by simp
    show ?thesis using mirrors_entry[OF assms(2) en] e(3)[OF old[OF en]] by (simp add: stored_def)
  qed (use e(2) in blast)
  moreover have "\<exists>en \<in> set (lg_log s @ es). k = ?key en" if k: "prefix LOG_PREFIX k" "meta s1 k \<noteq> None" for k
  proof (cases "k \<in> ?key ` set es")
    case False
    with k e(3) have "meta s k \<noteq> None" by simp
    from mirrors_row[OF assms(2) k(1) this] show ?thesis by (metis Un_iff set_append)
  qed auto
  moreover have "entry_index en < 2 ^ 64" if "en \<in> set (lg_log s @ es)" for en
    using that mirrors_entry[OF assms(2)] assms(4) by auto
  ultimately show ?thesis unfolding m
    by (intro mirrors_keep[OF assms(2)] e(3)) (use assms(3) in \<open>simp_all add: s' e(1) image_iff\<close>)
qed

lemma delete_some_mirrors:
  assumes "each (\<lambda>en. delete_meta_key env (log_key (entry_index en))) (filter P (lg_log s)) s = (Inr u, s1)"
    "mirrors env (meta s) s"
  shows "mirrors env (meta s1) (s1\<lparr>lg_log := filter (\<lambda>en. \<not> P en) (lg_log s)\<rparr>) \<and> lg_log s1 = lg_log s"
proof -
  let ?key = "\<lambda>en. log_key (entry_index en)"
  from each_delete[OF assms(1)] obtain db where d: "s1 = s\<lparr>lg_store := db\<rparr>"
    "meta s1 = (\<lambda>k. if k \<in> ?key ` set (filter P (lg_log s)) then None else meta s k)" by blast
  have all: "inj_on ?key (set (lg_log s))" using assms(2) by (intro key_inj_on) (auto simp: mirrors_def)
  have "meta s1 (?key en) = meta s (?key en)" if "en \<in> set (lg_log s)" "\<not> P en" for en
    using all that by (auto simp: d(2) dest!: inj_onD[where f = ?key])
  then have "stored (fst (le_entry env)) (meta s1) (?key en) (Some en)" if "en \<in> set (lg_log s)" "\<not> P en" for en
    using that mirrors_entry[OF assms(2)] by (simp add: stored_def)
  moreover have "\<exists>en \<in> set (filter (\<lambda>en. \<not> P en) (lg_log s)). k = ?key en"
    if k: "prefix LOG_PREFIX k" "meta s1 k \<noteq> None" for k
  proof -
    have "k \<notin> ?key ` set (filter P (lg_log s))" "meta s k \<noteq> None" using k(2) by (auto simp: d(2) split: if_splits)
    from mirrors_row[OF assms(2) k(1) this(2)] obtain en where en: "en \<in> set (lg_log s)" "k = ?key en" .
    with \<open>k \<notin> _\<close> have "\<not> P en" by auto
    with en show ?thesis by auto
  qed
  moreover have "distinct (map entry_index (filter (\<lambda>en. \<not> P en) (lg_log s)))"
    using assms(2) by (simp add: mirrors_def distinct_map_filter)
  moreover have "meta s1 VOTE_KEY = meta s VOTE_KEY" "meta s1 COMMITTED_KEY = meta s COMMITTED_KEY"
    "meta s1 LAST_PURGED_KEY = meta s LAST_PURGED_KEY" by (auto simp: d(2))
  ultimately show ?thesis
    by (intro conjI mirrors_keep[OF assms(2)]) (use mirrors_entry[OF assms(2)] in \<open>simp_all add: d(1)\<close>)
qed

lemma truncate_mirrors:
  assumes "log_truncate_after env l s = (Inr (), s')" "mirrors env (meta s) s"
  shows "mirrors env (meta s') s'"
proof -
  let ?P = "\<lambda>en. case l of Some l \<Rightarrow> lid_index l < entry_index en | None \<Rightarrow> True"
  from assms(1) obtain s1 where p: "each (\<lambda>en. delete_meta_key env (log_key (entry_index en))) (filter ?P (lg_log s)) s = (Inr (), s1)"
    and s': "s' = s1\<lparr>lg_log := (case l of
           Some l \<Rightarrow> filter (\<lambda>en. entry_index en \<le> lid_index l) (lg_log s1) | None \<Rightarrow> [])\<rparr>"
    by (auto simp: log_truncate_after_def sx_bind_Inr_iff sx_update_def)
  from delete_some_mirrors[OF p assms(2)] show ?thesis by (cases l) (simp_all add: s' not_less)
qed

lemma purge_mirrors:
  assumes "log_purge env l s = (Inr (), s')" "mirrors env (meta s) s"
  shows "mirrors env (meta s') s'"
proof -
  from assms(1) obtain s1 s2 where p: "each (\<lambda>en. delete_meta_key env (log_key (entry_index en)))
        (filter (\<lambda>en. entry_index en \<le> lid_index l) (lg_log s)) s = (Inr (), s1)"
    and q: "persist_meta env (fst (le_log_id env)) LAST_PURGED_KEY l s1 = (Inr (), s2)"
    and s': "s' = s2\<lparr>lg_log := filter (\<lambda>en. lid_index l < entry_index en) (lg_log s2), lg_last_purged := Some l\<rparr>"
    by (auto simp: log_purge_def sx_bind_Inr_iff sx_update_def)
  from persist_meta_Inr[OF q] obtain db w where w: "s2 = s1\<lparr>lg_store := db\<rparr>" "fst (le_log_id env) l = Inr w"
    "meta s2 = (meta s1)(LAST_PURGED_KEY \<mapsto> w)" .
  have "meta s' = meta s2" by (simp add: s')
  moreover note delete_some_mirrors[OF p assms(2), unfolded not_le]
  ultimately show ?thesis using w s' by (auto simp: mirrors_def split: if_splits)
qed

theorem log_step_mirrors:
  "log_step env s s' \<Longrightarrow> mirrors env (meta s) s \<Longrightarrow> mirrors env (meta s') s'"
  by (induction rule: log_step.induct)
    (auto intro: save_vote_mirrors save_committed_mirrors append_mirrors truncate_mirrors purge_mirrors)

theorem log_steps_mirror:
  "(log_step env)\<^sup>*\<^sup>* s s' \<Longrightarrow> mirrors env (meta s) s \<Longrightarrow> mirrors env (meta s') s'"
  by (induction rule: rtranclp_induct) (auto intro: log_step_mirrors)

text \<open>Reopening the store reads the mirrored state back.\<close>

lemma load_position:
  assumes "get_json (le_rb env) (snd codec) REPLICATION_META key db = Inr r" "reads_back codec"
    and "stored (fst codec) (view db REPLICATION_META) key x"
  shows "r = x"
  using assms(3) get_json_view[OF assms(1)] get_json_absent[OF assms(1)] reads_backD[OF assms(2)]
  by (cases x) (auto simp: stored_def)

lemma load_log:
  assumes l: "list_json (le_rb env) (snd (le_entry env)) REPLICATION_META (lg_store s) = Inr rows"
    and m: "mirrors env (meta s) s" and sorted: "sorted (map entry_index (lg_log s))"
  shows "sort_key entry_index (map snd (filter (\<lambda>(k, _). prefix LOG_PREFIX k) rows)) = lg_log s"
proof -
  let ?rows = "filter (\<lambda>(k, _). prefix LOG_PREFIX k) rows"
  note rows = list_json_view[OF l, folded meta_def]
  have row: "k = log_key (entry_index x) \<and> x \<in> set (lg_log s)" if kx: "(k, x) \<in> set ?rows" for k x
  proof -
    from rows(1) kx obtain v where v: "meta s k = Some v" "snd (le_entry env) v = Inr x" by fastforce
    with kx obtain en where en: "en \<in> set (lg_log s)" "k = log_key (entry_index en)"
      by (auto elim!: mirrors_row[OF m])
    with mirrors_entry[OF m en(1)] v have "x = en"
      by (auto simp: stored_def dest: reads_backD[OF entry_codec])
    with en show ?thesis by simp
  qed
  have "\<exists>k. (k, en) \<in> set ?rows" if en: "en \<in> set (lg_log s)" for en
  proof -
    from mirrors_entry[OF m en] obtain v where v: "fst (le_entry env) en = Inr v" "meta s (log_key (entry_index en)) = Some v"
      by (auto simp: stored_def)
    with rows(2)[OF v(2)] reads_backD[OF entry_codec v(1)] show ?thesis by auto
  qed
  with row have "set (map snd ?rows) = set (lg_log s)" by force
  moreover have "map (log_key \<circ> entry_index \<circ> snd) ?rows = map fst ?rows" using row by auto
  then have "distinct (map (log_key \<circ> entry_index \<circ> snd) ?rows)" using distinct_map_filter[OF rows(3)] by (simp only:)
  then have "distinct (map snd ?rows)" by (metis distinct_map map_map)
  moreover have "distinct (map entry_index (lg_log s))" using m by (simp add: mirrors_def)
  ultimately have "mset (map snd ?rows) = mset (lg_log s)"
    by (metis distinct_map set_eq_iff_mset_eq_distinct)
  with sorted \<open>distinct (map entry_index (lg_log s))\<close> show ?thesis
    by (intro sort_key_inj_key_eq) (simp_all only: distinct_map \<open>set (map snd ?rows) = _\<close>)
qed

theorem reopen:
  assumes "mirrors env (meta s) s" "sorted (map entry_index (lg_log s))" "load_inner env (lg_store s) = Inr s'"
  shows "s' = s"
proof -
  from assms(3) obtain v c p rows where
    v: "get_json (le_rb env) (snd (le_vote env)) REPLICATION_META VOTE_KEY (lg_store s) = Inr v" and
    c: "get_json (le_rb env) (snd (le_log_id env)) REPLICATION_META COMMITTED_KEY (lg_store s) = Inr c" and
    p: "get_json (le_rb env) (snd (le_log_id env)) REPLICATION_META LAST_PURGED_KEY (lg_store s) = Inr p" and
    r: "list_json (le_rb env) (snd (le_entry env)) REPLICATION_META (lg_store s) = Inr rows" and
    s': "s' = \<lparr>lg_store = lg_store s, lg_vote = v, lg_committed = c, lg_last_purged = p,
          lg_log = sort_key entry_index (map snd (filter (\<lambda>(k, _). prefix LOG_PREFIX k) rows))\<rparr>"
    by (auto simp: load_inner_def sbind_Inr_iff)
  have m: "stored (fst (le_vote env)) (view (lg_store s) REPLICATION_META) VOTE_KEY (lg_vote s)"
    "stored (fst (le_log_id env)) (view (lg_store s) REPLICATION_META) COMMITTED_KEY (lg_committed s)"
    "stored (fst (le_log_id env)) (view (lg_store s) REPLICATION_META) LAST_PURGED_KEY (lg_last_purged s)"
    using assms(1) by (simp_all add: mirrors_def meta_def)
  show ?thesis
    unfolding s' load_position[OF v vote_codec m(1)] load_position[OF c log_id_codec m(2)]
      load_position[OF p log_id_codec m(3)] load_log[OF r assms(1,2)] by simp
qed

theorem reopen_fails:
  assumes "mirrors env (meta s) s" "lg_vote s = Some v"
    and "\<And>w e. fst (le_vote env) v = Inr w \<Longrightarrow> \<not> (\<exists>en. snd (le_entry env) w = Inr en)"
  shows "\<exists>e. load_inner env (lg_store s) = Inl e"
proof (cases "load_inner env (lg_store s)")
  case (Inr s')
  then obtain rows where r: "list_json (le_rb env) (snd (le_entry env)) REPLICATION_META (lg_store s) = Inr rows"
    by (auto simp: load_inner_def sbind_Inr_iff)
  from assms(1,2) obtain w where "fst (le_vote env) v = Inr w" "meta s VOTE_KEY = Some w"
    by (auto simp: mirrors_def stored_def)
  with list_json_view(2)[OF r, folded meta_def] assms(3) show ?thesis by blast
qed simp

end

subsection \<open>A concrete environment\<close>

datatype log_cell = LVote nat | LLogId log_id | LEntry log_id "(log_cell, nat) payload"

definition sample_log_env :: "(log_cell mem_db, log_cell mem_db, log_cell, unit, nat, nat) log_env" where
  "sample_log_env = \<lparr>le_rb = mem_redb,
     le_vote = (Inr \<circ> LVote, \<lambda>c. case c of LVote v \<Rightarrow> Inr v | _ \<Rightarrow> Inl ()),
     le_log_id = (Inr \<circ> LLogId, \<lambda>c. case c of LLogId l \<Rightarrow> Inr l | _ \<Rightarrow> Inl ()),
     le_entry = (\<lambda>en. Inr (LEntry (en_log_id en) (en_payload en)),
        \<lambda>c. case c of LEntry l p \<Rightarrow> Inr \<lparr>en_log_id = l, en_payload = p\<rparr> | _ \<Rightarrow> Inl ())\<rparr>"

interpretation sample_log: log_laws sample_log_env mem_view mem_view
proof -
  have "redb_laws (le_rb sample_log_env) mem_view mem_view"
    unfolding sample_log_env_def log_env.select_convs by (rule mem.redb_laws_axioms)
  moreover have "log_laws_axioms sample_log_env"
    by unfold_locales (auto simp: reads_back_def sample_log_env_def)
  ultimately show "log_laws sample_log_env mem_view mem_view" by (rule log_laws.intro)
qed

definition empty_log :: "(log_cell mem_db, log_cell, nat, nat) log_store" where
  "empty_log = \<lparr>lg_store = (\<lambda>_. Some []), lg_vote = None, lg_committed = None, lg_last_purged = None, lg_log = []\<rparr>"

lemma empty_log_mirrors: "mirrors sample_log_env (meta_rows mem_view empty_log) empty_log"
  by (simp add: mirrors_def stored_def empty_log_def meta_rows_def mem_view_def)

subsection \<open>Properties\<close>

text \<open>The log survives a restart: whatever votes, commits, appends, truncations and purges OpenRaft
  makes, a log whose indices ascend is read back from the store exactly as it was in memory, when it
  can be read back at all.\<close>

theorem log_read_back:
  assumes "log_laws env dbv txv" "mirrors env (meta_rows dbv s0) s0" "(log_step env)\<^sup>*\<^sup>* s0 s"
    and "sorted (map entry_index (lg_log s))" "load_inner env (lg_store s) = Inr s'"
  shows "s' = s"
  using log_laws.reopen[OF assms(1) log_laws.log_steps_mirror[OF assms(1,3,2)] assms(4,5)] .

text \<open>Opening a log decodes every row of \<open>REPLICATION_META\<close> as an entry before it looks at the key.
  A stored vote is not an entry, so once a node has voted its log cannot be opened again.\<close>

theorem voted_log_not_reopened:
  assumes "log_laws env dbv txv" "mirrors env (meta_rows dbv s0) s0" "(log_step env)\<^sup>*\<^sup>* s0 s"
    and "lg_vote s = Some v" "\<And>w en. fst (le_vote env) v = Inr w \<Longrightarrow> snd (le_entry env) w \<noteq> Inr en"
  shows "\<exists>e. load_inner env (lg_store s) = Inl e"
  by (rule log_laws.reopen_fails[OF assms(1) log_laws.log_steps_mirror[OF assms(1,3,2)] assms(4)]) (use assms(5) in blast)

definition sample_log_entry :: "(log_cell, nat) raft_entry" where
  "sample_log_entry = \<lparr>en_log_id = \<lparr>lid_leader = (1, 1), lid_index = 1\<rparr>, en_payload = Blank\<rparr>"

lemma mem_put: "put_json mem_redb enc t k x db = sbind (enc x) (\<lambda>v. Inr (db(t \<mapsto> (k, v) # mem_rows t db)))"
  by (simp add: put_json_def store_put_def mem_redb_def mem_rows_def)

theorem log_read_back_witness:
  "\<exists>s. log_append sample_log_env [sample_log_entry] empty_log = (Inr (), s) \<and>
     load_inner sample_log_env (lg_store s) = Inr s \<and> lg_log s = [sample_log_entry]"
proof -
  let ?db = "(\<lambda>_. Some [])(REPLICATION_META \<mapsto> [(log_key 1, LEntry (en_log_id sample_log_entry) Blank)])"
  define s :: "(log_cell mem_db, log_cell, nat, nat) log_store" where
    "s = empty_log\<lparr>lg_store := ?db, lg_log := [sample_log_entry]\<rparr>"
  have a: "log_append sample_log_env [sample_log_entry] empty_log = (Inr (), s)"
    by (simp add: log_append_def persist_meta_def lg_write_def sx_bind_def sx_update_def sx_return_def
        sample_log_env_def mem_put empty_log_def s_def mem_rows_def sample_log_entry_def entry_index_def)
  have "\<exists>s'. load_inner sample_log_env (lg_store s) = Inr s'"
    by (simp add: load_inner_def sample_log_env_def s_def get_json_def list_json_def store_get_def store_list_def
        mem_redb_def mem_rows_def mem_sorted_def)
  then obtain s' where l: "load_inner sample_log_env (lg_store s) = Inr s'" by blast
  have "log_step sample_log_env empty_log s"
    by (rule log_step.append[OF a]) (simp_all add: empty_log_def sample_log_entry_def entry_index_def)
  from log_read_back[OF sample_log.log_laws_axioms empty_log_mirrors r_into_rtranclp[of "log_step sample_log_env", OF this] _ l] a l
  show ?thesis by (simp add: s_def empty_log_def)
qed

theorem voted_log_not_reopened_witness:
  "\<exists>s e. save_vote sample_log_env 7 empty_log = (Inr (), s) \<and> load_inner sample_log_env (lg_store s) = Inl e"
proof -
  define s where "s = snd (save_vote sample_log_env 7 empty_log)"
  have a: "save_vote sample_log_env 7 empty_log = (Inr (), s)" and v: "lg_vote s = Some 7"
    by (simp_all add: save_vote_def persist_meta_def lg_write_def sx_bind_def sx_update_def s_def sample_log_env_def mem_put)
  have "log_step sample_log_env empty_log s" by (rule log_step.vote[OF a])
  moreover have "snd (le_entry sample_log_env) w \<noteq> Inr en" if "fst (le_vote sample_log_env) 7 = Inr w" for w en
    using that by (auto simp: sample_log_env_def)
  ultimately have "\<exists>e. load_inner sample_log_env (lg_store s) = Inl e"
    using voted_log_not_reopened[OF sample_log.log_laws_axioms empty_log_mirrors
      r_into_rtranclp[of "log_step sample_log_env"] v] by blast
  with a show ?thesis by blast
qed

end
