(* ===== verification/Paths.thy ===== *)
theory Paths
  imports Prelude
begin

text \<open>
  Rust paths on Unix. \<open>Path\<close> values compare, hash and match prefixes by their components, so a path is
  its component list: a separator run counts once and a \<open>.\<close> survives only in front of a relative path.
  The file system is a parameter: what canonicalization, existence and the current directory answer.
\<close>

datatype comp = RootDir | CurDir | ParentDir | Normal string

type_synonym path = "comp list"

record os =
  os_canon :: "path \<Rightarrow> path option"
  os_exists :: "path \<Rightarrow> bool"
  os_cwd :: "path option"

subsection \<open>Reading a path\<close>

fun split_on :: "char \<Rightarrow> string \<Rightarrow> string list" where
  "split_on c [] = [[]]"
| "split_on c (x # xs) = (if x = c then [] # split_on c xs else
     (case split_on c xs of [] \<Rightarrow> [[x]] | w # ws \<Rightarrow> (x # w) # ws))"

definition comp_of :: "string \<Rightarrow> comp" where
  "comp_of w = (if w = ''.'' then CurDir else if w = ''..'' then ParentDir else Normal w)"

definition path_of :: "string \<Rightarrow> path" where
  "path_of s =
     (let ws = filter (\<lambda>w. w \<noteq> []) (split_on (CHR ''/'') s); cs = map comp_of ws in
      if prefix ''/'' s then RootDir # filter (\<lambda>c. c \<noteq> CurDir) cs
      else (case cs of [] \<Rightarrow> [] | c # cs \<Rightarrow> c # filter (\<lambda>c. c \<noteq> CurDir) cs))"

subsection \<open>Operations of the standard library\<close>

definition is_absolute :: "path \<Rightarrow> bool" where
  "is_absolute p \<longleftrightarrow> p \<noteq> [] \<and> hd p = RootDir"

definition starts_with :: "path \<Rightarrow> path \<Rightarrow> bool" where
  "starts_with p q \<longleftrightarrow> prefix q p"

definition parent :: "path \<Rightarrow> path option" where
  "parent p = (if p = [] \<or> last p = RootDir then None else Some (butlast p))"

definition file_name :: "path \<Rightarrow> string option" where
  "file_name p = (if p = [] then None else (case last p of Normal w \<Rightarrow> Some w | _ \<Rightarrow> None))"

definition path_join :: "path \<Rightarrow> path \<Rightarrow> path" where
  "path_join p q = (if is_absolute q then q else if p = [] then q else p @ filter (\<lambda>c. c \<noteq> CurDir) q)"

definition path_pop :: "path \<Rightarrow> path" where
  "path_pop p = (case parent p of Some q \<Rightarrow> q | None \<Rightarrow> p)"

subsection \<open>Clean paths\<close>

text \<open>A path without \<open>.\<close> and \<open>..\<close>: for such a path a prefix is a directory above it.\<close>

definition clean :: "path \<Rightarrow> bool" where
  "clean p \<longleftrightarrow> CurDir \<notin> set p \<and> ParentDir \<notin> set p"

lemma clean_simps [simp]: "clean []" "clean (p @ q) \<longleftrightarrow> clean p \<and> clean q"
  "clean (c # p) \<longleftrightarrow> c \<noteq> CurDir \<and> c \<noteq> ParentDir \<and> clean p"
  by (auto simp: clean_def)

lemma clean_butlast: "clean p \<Longrightarrow> clean (butlast p)"
  by (auto simp: clean_def dest: in_set_butlastD)

lemma clean_pop: "clean p \<Longrightarrow> clean (path_pop p)"
  by (simp add: path_pop_def parent_def clean_butlast)

lemma file_name_Some: "file_name p = Some w \<longleftrightarrow> p \<noteq> [] \<and> last p = Normal w"
  by (auto simp: file_name_def split: comp.splits)

text \<open>What canonicalization promises: an absolute, clean path that exists and is its own canonical form.\<close>

locale filesystem =
  fixes fs :: os
  assumes canon_clean: "os_canon fs p = Some q \<Longrightarrow> is_absolute q \<and> clean q"
    and canon_canon: "os_canon fs p = Some q \<Longrightarrow> os_canon fs q = Some q"
    and exists_canon: "os_exists fs p \<longleftrightarrow> os_canon fs p \<noteq> None"

end
