(* ===== verification/Security.thy ===== *)
theory Security
  imports Paths
begin

text \<open>
  Capabilities and sandbox restrictions (\<open>rockbot-security/src/lib.rs\<close>). Hash sets are sets. The
  \<open>glob\<close> crate is a parameter: compiling a pattern gives a matcher or fails.
\<close>

type_synonym glob_crate = "string \<Rightarrow> (string \<Rightarrow> bool) option"

datatype capability = FilesystemRead path | FilesystemWrite path | ProcessExecute
  | NetworkAccess string | SystemInfo | DatabaseAccess

type_synonym capabilities = "capability set"

record restrictions =
  rs_max_file_size :: "nat option"
  rs_max_execution_time :: "nat option"
  rs_allowed_executables :: "string set option"
  rs_blocked_executables :: "string set"
  rs_allowed_command_patterns :: "string list"
  rs_blocked_command_patterns :: "string list"
  rs_forbidden_paths :: "path set"

record security_context =
  sc_session_id :: string
  sc_capabilities :: capabilities
  sc_sandbox_enabled :: bool
  sc_restrictions :: restrictions

record fs_capabilities =
  fc_read_paths :: "path list"
  fc_write_paths :: "path list"
  fc_forbidden_paths :: "path list"

record net_capabilities =
  nc_allowed_domains :: "string list"
  nc_blocked_domains :: "string list"
  nc_max_request_size :: "nat option"

record process_capabilities =
  pc_allowed_commands :: "string list"
  pc_blocked_commands :: "string list"
  pc_max_execution_time :: "nat option"

record sandbox_config =
  sb_mode :: string
  sb_scope :: string
  sb_image :: "string option"

record capability_config =
  cc_filesystem :: "fs_capabilities option"
  cc_network :: "net_capabilities option"
  cc_process :: "process_capabilities option"

record security_config =
  cf_sandbox :: sandbox_config
  cf_capabilities :: capability_config

record security_manager =
  se_config :: security_config
  se_contexts :: "string \<rightharpoonup> security_context"

datatype security_error = AccessDenied string
text \<open>The reason of a denial, from which the message is rendered.\<close>

datatype denial = PathForbidden path | ExecutableBlocked string | ExecutableNotAllowed string
  | CommandBlocked string | CommandNotAllowed string

datatype enforcement = Allowed | Denied denial

subsection \<open>Paths\<close>

definition resolve_capability_path :: "os \<Rightarrow> path \<Rightarrow> path" where
  "resolve_capability_path fs p =
     (case os_canon fs p of
        Some q \<Rightarrow> q
      | None \<Rightarrow>
          (case Option.bind (parent p) (os_canon fs) of
             Some d \<Rightarrow> (case file_name p of Some n \<Rightarrow> path_join d [Normal n] | None \<Rightarrow> d)
           | None \<Rightarrow> p))"

definition resolve_capability_root :: "os \<Rightarrow> path \<Rightarrow> path" where
  "resolve_capability_root fs p =
     (if p = [CurDir] then (case os_cwd fs of Some d \<Rightarrow> d | None \<Rightarrow> [CurDir])
      else resolve_capability_path fs p)"

subsection \<open>Capability sets\<close>

definition filesystem_read :: capabilities where "filesystem_read = {FilesystemRead [CurDir]}"
definition filesystem_write :: capabilities where "filesystem_write = {FilesystemWrite [CurDir]}"
definition process_execute :: capabilities where "process_execute = {ProcessExecute}"

definition cap_add :: "capability \<Rightarrow> capabilities \<Rightarrow> capabilities" where "cap_add c cs = insert c cs"
definition cap_remove :: "capability \<Rightarrow> capabilities \<Rightarrow> capabilities" where "cap_remove c cs = cs - {c}"
definition cap_extend :: "capabilities \<Rightarrow> capabilities \<Rightarrow> capabilities" where "cap_extend cs ds = cs \<union> ds"

definition has_capability :: "os \<Rightarrow> capabilities \<Rightarrow> capability \<Rightarrow> bool" where
  "has_capability fs cs c =
     (case c of
        FilesystemRead p \<Rightarrow>
          (\<exists>cap \<in> cs. case cap of FilesystemRead a \<Rightarrow>
             starts_with (resolve_capability_path fs p) (resolve_capability_root fs a) | _ \<Rightarrow> False)
      | FilesystemWrite p \<Rightarrow>
          (\<exists>cap \<in> cs. case cap of FilesystemWrite a \<Rightarrow>
             starts_with (resolve_capability_path fs p) (resolve_capability_root fs a) | _ \<Rightarrow> False)
      | _ \<Rightarrow> c \<in> cs)"

definition cap_allows :: "os \<Rightarrow> capabilities \<Rightarrow> capabilities \<Rightarrow> bool" where
  "cap_allows fs cs required \<longleftrightarrow> (\<forall>c \<in> required. has_capability fs cs c)"

subsection \<open>Restrictions from the configuration\<close>

definition default_restrictions :: restrictions where
  "default_restrictions = \<lparr>rs_max_file_size = None, rs_max_execution_time = None,
     rs_allowed_executables = None, rs_blocked_executables = {}, rs_allowed_command_patterns = [],
     rs_blocked_command_patterns = [], rs_forbidden_paths = {}\<rparr>"

text \<open>Entries without glob characters or blanks name an executable.\<close>

definition plain_command :: "string \<Rightarrow> bool" where
  "plain_command s \<longleftrightarrow> \<not> list_ex (\<lambda>c. c \<in> set ''*?[] '') s"

definition build_restrictions :: "os \<Rightarrow> security_config \<Rightarrow> restrictions" where
  "build_restrictions fs config =
     (let r = default_restrictions;
          r = (case cc_filesystem (cf_capabilities config) of
                 Some f \<Rightarrow> r\<lparr>rs_forbidden_paths := rs_forbidden_paths r \<union>
                    set (map (resolve_capability_path fs) (fc_forbidden_paths f))\<rparr>
               | None \<Rightarrow> r) in
      (case cc_process (cf_capabilities config) of
         Some p \<Rightarrow>
           let r = (if pc_allowed_commands p \<noteq> [] then
                      r\<lparr>rs_allowed_command_patterns := pc_allowed_commands p,
                        rs_allowed_executables := Some (set (filter plain_command (pc_allowed_commands p)))\<rparr>
                    else r) in
           r\<lparr>rs_blocked_executables := rs_blocked_executables r \<union> set (filter plain_command (pc_blocked_commands p)),
             rs_blocked_command_patterns := pc_blocked_commands p,
             rs_max_execution_time := pc_max_execution_time p\<rparr>
       | None \<Rightarrow> r))"

subsection \<open>The manager\<close>

definition security_new :: "security_config \<Rightarrow> security_manager" where
  "security_new config = \<lparr>se_config = config, se_contexts = Map.empty\<rparr>"

definition config_capabilities :: "security_config \<Rightarrow> capabilities" where
  "config_capabilities config =
     (let cs = {};
          cs = (case cc_filesystem (cf_capabilities config) of
                  Some f \<Rightarrow> cs \<union> set (map FilesystemRead (fc_read_paths f)) \<union> set (map FilesystemWrite (fc_write_paths f))
                | None \<Rightarrow> cs \<union> {FilesystemRead [CurDir], FilesystemWrite [CurDir]});
          cs = (case cc_network (cf_capabilities config) of
                  Some n \<Rightarrow> cs \<union> set (map NetworkAccess (nc_allowed_domains n))
                | None \<Rightarrow> cs) in
      cs \<union> {ProcessExecute})"

definition create_session_context :: "os \<Rightarrow> string \<Rightarrow> security_manager \<Rightarrow> security_context \<times> security_manager" where
  "create_session_context fs sid m =
     (let c = \<lparr>sc_session_id = sid, sc_capabilities = config_capabilities (se_config m),
               sc_sandbox_enabled = (sb_mode (cf_sandbox (se_config m)) \<noteq> ''disabled''),
               sc_restrictions = build_restrictions fs (se_config m)\<rparr> in
      (c, m\<lparr>se_contexts := (se_contexts m)(sid \<mapsto> c)\<rparr>))"

definition get_session_context :: "os \<Rightarrow> string \<Rightarrow> security_manager \<Rightarrow> security_context \<times> security_manager" where
  "get_session_context fs sid m =
     (case se_contexts m sid of Some c \<Rightarrow> (c, m) | None \<Rightarrow> create_session_context fs sid m)"

definition check_access ::
  "os \<Rightarrow> string \<Rightarrow> string \<Rightarrow> capability \<Rightarrow> security_manager \<Rightarrow> (security_error + unit) \<times> security_manager" where
  "check_access fs sid resource c m =
     (let (ctx, m) = get_session_context fs sid m in
      (if \<not> has_capability fs (sc_capabilities ctx) c then Inl (AccessDenied resource) else Inr (), m))"

subsection \<open>Enforcement\<close>

definition enforce_path :: "os \<Rightarrow> path \<Rightarrow> restrictions \<Rightarrow> enforcement" where
  "enforce_path fs p r =
     (let q = resolve_capability_path fs p in
      if \<exists>f \<in> rs_forbidden_paths r. starts_with q (resolve_capability_path fs f) \<or> q = resolve_capability_path fs f
      then Denied (PathForbidden q) else Allowed)"

definition enforce_executable :: "string \<Rightarrow> restrictions \<Rightarrow> enforcement" where
  "enforce_executable cmd r =
     (if cmd \<in> rs_blocked_executables r then Denied (ExecutableBlocked cmd)
      else (case rs_allowed_executables r of
              Some a \<Rightarrow> if a \<noteq> {} \<and> cmd \<notin> a then Denied (ExecutableNotAllowed cmd) else Allowed
            | None \<Rightarrow> Allowed))"

definition matches_command_pattern :: "glob_crate \<Rightarrow> string \<Rightarrow> string \<Rightarrow> string \<Rightarrow> bool" where
  "matches_command_pattern gl pattern command executable =
     (case gl pattern of
        Some m \<Rightarrow> m command \<or> m executable
      | None \<Rightarrow> pattern = command \<or> pattern = executable)"

definition command_matches_any_pattern :: "glob_crate \<Rightarrow> string \<Rightarrow> string \<Rightarrow> string list \<Rightarrow> bool" where
  "command_matches_any_pattern gl command executable patterns =
     list_ex (\<lambda>p. matches_command_pattern gl p command executable) patterns"

definition enforce_command :: "glob_crate \<Rightarrow> string \<Rightarrow> string \<Rightarrow> restrictions \<Rightarrow> enforcement" where
  "enforce_command gl command executable r =
     (if command_matches_any_pattern gl command executable (rs_blocked_command_patterns r) then Denied (CommandBlocked command)
      else (case enforce_executable executable r of
              Denied reason \<Rightarrow> Denied reason
            | Allowed \<Rightarrow>
                if rs_allowed_command_patterns r \<noteq> [] \<and>
                   \<not> command_matches_any_pattern gl command executable (rs_allowed_command_patterns r)
                then Denied (CommandNotAllowed command) else Allowed))"

definition enforce_timeout :: "restrictions \<Rightarrow> nat option" where
  "enforce_timeout r = rs_max_execution_time r"

definition enforce_file_access :: "os \<Rightarrow> path \<Rightarrow> restrictions \<Rightarrow> enforcement" where
  "enforce_file_access fs p r = enforce_path fs p r"

subsection \<open>Lemmas\<close>

text \<open>Calls of the manager, each with the file system as it is at that moment.\<close>

inductive security_step :: "security_manager \<Rightarrow> security_manager \<Rightarrow> bool" where
  create: "security_step m (snd (create_session_context fs sid m))"
| get: "security_step m (snd (get_session_context fs sid m))"
| check: "security_step m (snd (check_access fs sid res c m))"

definition contexts_of :: "security_config \<Rightarrow> security_manager \<Rightarrow> bool" where
  "contexts_of config m \<longleftrightarrow> se_config m = config \<and>
     (\<forall>sid c. se_contexts m sid = Some c \<longrightarrow> sc_session_id c = sid \<and> sc_capabilities c = config_capabilities config \<and>
        (\<exists>fs. sc_restrictions c = build_restrictions fs config))"

lemma create_contexts: "contexts_of config m \<Longrightarrow> contexts_of config (snd (create_session_context fs sid m))"
  by (auto simp: contexts_of_def create_session_context_def Let_def)

lemma get_contexts: "contexts_of config m \<Longrightarrow> contexts_of config (snd (get_session_context fs sid m))"
  by (auto simp: get_session_context_def create_contexts split: option.splits)

lemma check_contexts: "contexts_of config m \<Longrightarrow> contexts_of config (snd (check_access fs sid res c m))"
  using get_contexts[of config m fs sid] by (cases "get_session_context fs sid m") (simp add: check_access_def)

lemma steps_contexts: "security_step\<^sup>*\<^sup>* m m' \<Longrightarrow> contexts_of config m \<Longrightarrow> contexts_of config m'"
  by (induction rule: rtranclp_induct)
    (auto elim!: security_step.cases intro: create_contexts get_contexts check_contexts)

lemma new_contexts: "contexts_of config (security_new config)"
  by (simp add: contexts_of_def security_new_def)

lemma get_capabilities:
  "contexts_of config m \<Longrightarrow> sc_capabilities (fst (get_session_context fs sid m)) = config_capabilities config"
  by (auto simp: contexts_of_def get_session_context_def create_session_context_def Let_def split: option.splits)

lemma resolve_existing: "os_canon fs p = Some q \<Longrightarrow> resolve_capability_path fs p = q"
  by (simp add: resolve_capability_path_def)

lemma resolve_new:
  "os_canon fs p = None \<Longrightarrow> parent p = Some d \<Longrightarrow> os_canon fs d = Some q \<Longrightarrow>
   prefix q (resolve_capability_path fs p)"
  by (auto simp: resolve_capability_path_def path_join_def is_absolute_def split: option.splits)

context filesystem
begin

lemma resolve_resolved:
  "os_canon fs f = Some d \<Longrightarrow> resolve_capability_path fs (resolve_capability_path fs f) = d"
  using canon_canon by (simp add: resolve_existing)

lemma forbidden_denied:
  assumes "f \<in> set (fc_forbidden_paths fc)" "cc_filesystem (cf_capabilities config) = Some fc"
    and "os_canon fs f = Some d" "prefix d (resolve_capability_path fs p)"
  shows "enforce_path fs p (build_restrictions fs config) = Denied (PathForbidden (resolve_capability_path fs p))"
proof -
  have "resolve_capability_path fs f \<in> rs_forbidden_paths (build_restrictions fs config)"
    using assms(1,2) by (auto simp: build_restrictions_def Let_def split: option.splits)
  then show ?thesis using resolve_resolved[OF assms(3)] assms(4)
    by (auto simp: enforce_path_def Let_def starts_with_def)
qed

end

subsection \<open>A concrete file system\<close>

text \<open>Directories without symbolic links: existing paths are the clean absolute ones below the given
  roots.\<close>

definition plain_fs :: "path list \<Rightarrow> os" where
  "plain_fs ds =
     (let c = (\<lambda>p. if p \<in> set ds \<and> is_absolute p \<and> clean p then Some p else None) in
      \<lparr>os_canon = c, os_exists = (\<lambda>p. c p \<noteq> None), os_cwd = None\<rparr>)"

interpretation plain: filesystem "plain_fs ds" for ds
  by unfold_locales (auto simp: plain_fs_def Let_def split: if_splits)

subsection \<open>Commands\<close>

text \<open>What the code relies on of the \<open>glob\<close> crate: a pattern without special characters matches itself.\<close>

definition glob_literal :: "glob_crate \<Rightarrow> bool" where
  "glob_literal gl \<longleftrightarrow> (\<forall>p. plain_command p \<longrightarrow> gl p = None \<or> gl p = Some (\<lambda>s. s = p))"

lemma plain_matches:
  assumes "glob_literal gl" "plain_command p"
  shows "matches_command_pattern gl p command executable \<longleftrightarrow> p = command \<or> p = executable"
proof -
  have "gl p = None \<or> gl p = Some (\<lambda>s. s = p)" using assms by (simp add: glob_literal_def)
  then show ?thesis by (elim disjE) (auto simp: matches_command_pattern_def)
qed

lemma build_process:
  assumes "cc_process (cf_capabilities config) = Some p"
  shows "rs_blocked_command_patterns (build_restrictions fs config) = pc_blocked_commands p"
    "rs_allowed_command_patterns (build_restrictions fs config) = pc_allowed_commands p"
    "rs_blocked_executables (build_restrictions fs config) = set (filter plain_command (pc_blocked_commands p))"
    "rs_allowed_executables (build_restrictions fs config) =
       (if pc_allowed_commands p = [] then None else Some (set (filter plain_command (pc_allowed_commands p))))"
  using assms by (auto simp: build_restrictions_def default_restrictions_def Let_def split: option.splits)

subsection \<open>Properties\<close>

text \<open>Whatever contexts were created before, and whenever, access for a session is decided by the
  configuration and the file system of the moment alone.\<close>

theorem access_decided_by_config:
  assumes "security_step\<^sup>*\<^sup>* (security_new config) m"
  shows "fst (check_access fs sid res c m) =
     (if has_capability fs (config_capabilities config) c then Inr () else Inl (AccessDenied res))"
  using get_capabilities[OF steps_contexts[OF assms new_contexts], of fs sid]
  by (cases "get_session_context fs sid m") (simp add: check_access_def)

text \<open>No spelling of a forbidden place passes: a path that exists below a forbidden directory, or would
  be created in a directory below it, is denied, through links, dots and repeated separators.\<close>

theorem forbidden_path_denied:
  assumes "filesystem fs" "cc_filesystem (cf_capabilities config) = Some fc" "f \<in> set (fc_forbidden_paths fc)"
    and "os_canon fs f = Some d"
    and "os_canon fs p = Some q \<and> prefix d q \<or> os_canon fs p = None \<and> parent p = Some u \<and> os_canon fs u = Some q \<and> prefix d q"
  shows "enforce_path fs p (build_restrictions fs config) \<noteq> Allowed"
proof -
  have "prefix d (resolve_capability_path fs p)"
    using assms(5)
  proof
    assume "os_canon fs p = Some q \<and> prefix d q"
    then show ?thesis by (simp add: resolve_existing)
  next
    assume "os_canon fs p = None \<and> parent p = Some u \<and> os_canon fs u = Some q \<and> prefix d q"
    then show ?thesis using resolve_new prefix_order.trans by blast
  qed
  from filesystem.forbidden_denied[OF assms(1,3,2,4) this] show ?thesis by simp
qed

text \<open>What a configured command policy admits: no blocked entry matches, and if there is an allow list
  then one of its entries matches and, when some entry names an executable, the executable is one of those.\<close>

theorem command_policy:
  assumes "glob_literal gl" "cc_process (cf_capabilities config) = Some p"
  shows "enforce_command gl command executable (build_restrictions fs config) = Allowed \<longleftrightarrow>
     (\<forall>b \<in> set (pc_blocked_commands p). \<not> matches_command_pattern gl b command executable) \<and>
     (pc_allowed_commands p = [] \<or>
       (\<exists>a \<in> set (pc_allowed_commands p). matches_command_pattern gl a command executable) \<and>
       (filter plain_command (pc_allowed_commands p) = [] \<or> executable \<in> set (filter plain_command (pc_allowed_commands p))))"
proof -
  have "\<exists>b \<in> set (pc_blocked_commands p). matches_command_pattern gl b command executable"
    if "executable \<in> set (filter plain_command (pc_blocked_commands p))"
    using that plain_matches[OF assms(1)] by auto
  then show ?thesis
    by (auto simp: enforce_command_def enforce_executable_def build_process[OF assms(2)] command_matches_any_pattern_def
        list_ex_iff filter_empty_conv split: enforcement.splits)
qed

text \<open>One allow-list entry that names an executable disables every pattern entry of the list: a command
  that a pattern admits is denied unless its executable is named.\<close>

theorem named_executable_disables_patterns:
  assumes "cc_process (cf_capabilities config) = Some p" "n \<in> set (pc_allowed_commands p)" "plain_command n"
    and "a \<in> set (pc_allowed_commands p)" "matches_command_pattern gl a command executable"
    and "executable \<notin> set (pc_allowed_commands p)"
  shows "enforce_command gl command executable (build_restrictions fs config) \<noteq> Allowed"
proof -
  have "pc_allowed_commands p \<noteq> []" "executable \<notin> set (filter plain_command (pc_allowed_commands p))"
    "set (filter plain_command (pc_allowed_commands p)) \<noteq> {}" using assms(2,3,6) by auto
  then show ?thesis
    by (simp add: enforce_command_def enforce_executable_def build_process[OF assms(1)])
qed

subsection \<open>Witnesses\<close>

definition sample_config :: security_config where
  "sample_config = \<lparr>cf_sandbox = \<lparr>sb_mode = ''tools'', sb_scope = ''session'', sb_image = None\<rparr>,
     cf_capabilities = \<lparr>cc_filesystem = Some \<lparr>fc_read_paths = [path_of ''/ws''], fc_write_paths = [],
         fc_forbidden_paths = [path_of ''/ws/secret'']\<rparr>,
       cc_network = None,
       cc_process = Some \<lparr>pc_allowed_commands = [''ls'', ''git *''], pc_blocked_commands = [''rm''],
         pc_max_execution_time = Some 30\<rparr>\<rparr>\<rparr>"

definition sample_fs :: os where
  "sample_fs = plain_fs (map path_of [''/'', ''/ws'', ''/ws/secret'', ''/ws/secret/key'', ''/ws/a''])"

text \<open>A glob matcher for patterns that end in a star.\<close>

definition sample_glob :: glob_crate where
  "sample_glob p = Some (if plain_command p then (\<lambda>s. s = p) else prefix (butlast p))"

lemma sample_glob_literal: "glob_literal sample_glob"
  by (simp add: glob_literal_def sample_glob_def)

theorem access_decided_by_config_witness:
  "fst (check_access sample_fs ''s'' ''r'' (FilesystemRead (path_of ''/ws/a''))
      (snd (create_session_context sample_fs ''s'' (security_new sample_config)))) = Inr ()"
proof -
  have "has_capability sample_fs (config_capabilities sample_config) (FilesystemRead (path_of ''/ws/a''))" by code_simp
  with access_decided_by_config[OF r_into_rtranclp[of security_step, OF security_step.create[of _ sample_fs "''s''"]]]
  show ?thesis by simp
qed

theorem forbidden_path_denied_witness:
  "enforce_path sample_fs (path_of ''/ws/secret/key'') (build_restrictions sample_fs sample_config) \<noteq> Allowed"
proof (rule forbidden_path_denied)
  show "filesystem sample_fs" unfolding sample_fs_def by (rule plain.filesystem_axioms)
  show "path_of ''/ws/secret'' \<in> set (fc_forbidden_paths (the (cc_filesystem (cf_capabilities sample_config))))"
    "cc_filesystem (cf_capabilities sample_config) = Some (the (cc_filesystem (cf_capabilities sample_config)))"
    by (simp_all add: sample_config_def)
  show "os_canon sample_fs (path_of ''/ws/secret'') = Some (path_of ''/ws/secret'')" by code_simp
  have "os_canon sample_fs (path_of ''/ws/secret/key'') = Some (path_of ''/ws/secret/key'') \<and>
      prefix (path_of ''/ws/secret'') (path_of ''/ws/secret/key'')" by code_simp
  then show "os_canon sample_fs (path_of ''/ws/secret/key'') = Some (path_of ''/ws/secret/key'') \<and>
      prefix (path_of ''/ws/secret'') (path_of ''/ws/secret/key'') \<or>
      os_canon sample_fs (path_of ''/ws/secret/key'') = None \<and> parent (path_of ''/ws/secret/key'') = Some [] \<and>
      os_canon sample_fs [] = Some (path_of ''/ws/secret/key'') \<and>
      prefix (path_of ''/ws/secret'') (path_of ''/ws/secret/key'')" ..
qed

lemma sample_process: "cc_process (cf_capabilities sample_config) =
    Some \<lparr>pc_allowed_commands = [''ls'', ''git *''], pc_blocked_commands = [''rm''], pc_max_execution_time = Some 30\<rparr>"
  by (simp add: sample_config_def)

lemma sample_patterns:
  "plain_command ''ls'' \<and> plain_command ''rm'' \<and> \<not> plain_command ''git *''"
  by code_simp

theorem command_policy_witness:
  "enforce_command sample_glob ''ls -la'' ''ls'' (build_restrictions sample_fs sample_config) = Allowed"
  by (subst command_policy[OF sample_glob_literal sample_process])
    (simp add: matches_command_pattern_def sample_glob_def sample_patterns)

theorem named_executable_disables_patterns_witness:
  "enforce_command sample_glob ''git status'' ''git'' (build_restrictions sample_fs sample_config) \<noteq> Allowed"
  by (rule named_executable_disables_patterns[OF sample_process, of "''ls''" "''git *''"])
    (simp_all add: matches_command_pattern_def sample_glob_def sample_patterns)

end
