(* ===== verification/RustStr.thy ===== *)
theory RustStr
  imports Prelude
begin

text \<open>
  String operations of the Rust standard library the components share: splitting at a pattern,
  replacing, searching, joining and words.
\<close>

subsection \<open>Searching and replacing\<close>

text \<open>The pieces of \<open>str::split\<close>: matches are found from the left and do not overlap; an empty pattern
  matches at every character boundary.\<close>

function pieces_from :: "string \<Rightarrow> string \<Rightarrow> string \<Rightarrow> string list" where
  "pieces_from pat acc s =
     (if s = [] \<or> pat = [] then [acc @ s]
      else if prefix pat s then acc # pieces_from pat [] (drop (length pat) s)
      else pieces_from pat (acc @ [hd s]) (tl s))"
  by pat_completeness auto
termination
  by (relation "measure (\<lambda>(pat, acc, s). length s)") (auto simp: prefix_def)

declare pieces_from.simps [simp del]

definition pieces :: "string \<Rightarrow> string \<Rightarrow> string list" where
  "pieces pat s = (if pat = [] then [] # chars s @ [[]] else pieces_from pat [] s)"

definition match_count :: "string \<Rightarrow> string \<Rightarrow> nat" where
  "match_count pat s = length (pieces pat s) - 1"

fun join_with :: "string \<Rightarrow> string list \<Rightarrow> string" where
  "join_with sep [] = []"
| "join_with sep [w] = w"
| "join_with sep (w # v # ws) = w @ sep @ join_with sep (v # ws)"

definition replace_all :: "string \<Rightarrow> string \<Rightarrow> string \<Rightarrow> string" where
  "replace_all pat new s = join_with new (pieces pat s)"

definition replace_first :: "string \<Rightarrow> string \<Rightarrow> string \<Rightarrow> string" where
  "replace_first pat new s = (case pieces pat s of
     w # v # ws \<Rightarrow> w @ new @ (if pat = [] then s else join_with pat (v # ws)) | _ \<Rightarrow> s)"

text \<open>\<open>split_whitespace\<close>.\<close>

fun words_from :: "string \<Rightarrow> string list \<Rightarrow> string list" where
  "words_from acc [] = (if acc = [] then [] else [acc])"
| "words_from acc (c # cs) =
     (if is_white c then (if acc = [] then [] else [acc]) @ words_from [] cs else words_from (acc @ c) cs)"

text \<open>\<open>str::find\<close> of a nonempty pattern.\<close>

fun find_sub :: "string \<Rightarrow> string \<Rightarrow> nat option" where
  "find_sub pat [] = (if pat = [] then Some 0 else None)"
| "find_sub pat (c # s) = (if prefix pat (c # s) then Some 0 else map_option Suc (find_sub pat s))"

text \<open>\<open>str::trim\<close>.\<close>

definition trim :: "string \<Rightarrow> string" where
  "trim s = concat (rev (dropWhile is_white (rev (dropWhile is_white (chars s)))))"

subsection \<open>Lemmas on replacement\<close>

lemma pieces_not_Nil [simp]: "pieces_from pat acc s \<noteq> []"
  by (induction pat acc s rule: pieces_from.induct) (subst pieces_from.simps, simp)

lemma join_Cons: "ws \<noteq> [] \<Longrightarrow> join_with sep (w # ws) = w @ sep @ join_with sep ws"
  by (cases ws) auto

lemma join_pieces: "pat \<noteq> [] \<Longrightarrow> join_with pat (pieces_from pat acc s) = acc @ s"
proof (induction pat acc s rule: pieces_from.induct)
  case (1 pat acc s)
  show ?case
  proof (cases "s = []")
    case True
    then show ?thesis by (subst pieces_from.simps) simp
  next
    case False
    show ?thesis
    proof (cases "prefix pat s")
      case True
      then show ?thesis using False 1(1)[OF _ True] 1(3)
        by (auto simp: pieces_from.simps[of pat acc s] join_Cons prefix_def)
    next
      case f: False
      then show ?thesis using False 1(2)[OF _ f] 1(3) by (simp add: pieces_from.simps[of pat acc s])
    qed
  qed
qed

lemma pieces_single: "pieces_from pat acc s = [x] \<Longrightarrow> pat \<noteq> [] \<Longrightarrow> \<not> sublist pat s"
proof (induction pat acc s rule: pieces_from.induct)
  case (1 pat acc s)
  show ?case
  proof (cases "s = []")
    case False
    with 1(3,4) have f: "\<not> prefix pat s" by (auto simp: pieces_from.simps[of pat acc s] split: if_splits)
    with False 1(3,4) have "pieces_from pat (acc @ [hd s]) (tl s) = [x]" by (simp add: pieces_from.simps[of pat acc s])
    with 1(2)[OF _ f] False 1(4) have "\<not> sublist pat (tl s)" by blast
    with f False show ?thesis by (cases s) (auto simp: sublist_Cons_right)
  qed (use 1(4) in simp)
qed

lemma pieces_two: "pieces_from pat acc s = [x, y] \<Longrightarrow> pat \<noteq> [] \<Longrightarrow> \<not> sublist pat y"
proof (induction pat acc s rule: pieces_from.induct)
  case (1 pat acc s)
  have s: "s \<noteq> []" using 1(3) by (auto simp: pieces_from.simps[of pat acc s])
  show ?case
  proof (cases "prefix pat s")
    case True
    with s 1(3,4) have d: "pieces_from pat [] (drop (length pat) s) = [y]" by (simp add: pieces_from.simps[of pat acc s])
    with 1(4) join_pieces[of pat "[]" "drop (length pat) s"] have "y = drop (length pat) s" by simp
    with pieces_single[OF d 1(4)] show ?thesis by simp
  next
    case False
    with s 1(3,4) have "pieces_from pat (acc @ [hd s]) (tl s) = [x, y]" by (simp add: pieces_from.simps[of pat acc s])
    with 1(2)[OF _ False] s 1(4) show ?thesis by blast
  qed
qed

lemma find_sub_Some: "find_sub pat s = Some i \<Longrightarrow> prefix pat (drop i s) \<and> i + length pat \<le> length s"
proof (induction pat s arbitrary: i rule: find_sub.induct)
  case (2 pat c s)
  then show ?case by (auto dest: prefix_length_le split: if_splits)
qed (auto split: if_splits)

end
