(* ===== verification/ToolPaths.thy ===== *)
theory ToolPaths
  imports Security Json RustStr
begin

text \<open>
  Screening of what the built-in tools are given (\<open>rockbot-tools/src/builtin.rs\<close>): file paths, commands
  and the addresses a fetch may reach. JSON values are the data type of \<open>serde_json\<close>; splitting a
  command into words (\<open>shell_words\<close>), parsing a URL and resolving a host name are parameters.
\<close>

datatype tool_error = ToolNotFound string | InvalidParameters string | ExecutionFailed string
  | SecurityError denial | MissingCapabilities | ApprovalRequired string


subsection \<open>Commands\<close>

record detected_command =
  dc_program :: string
  dc_args :: "string list"

type_synonym shell_words = "string \<Rightarrow> string list option"

definition parse_command_line :: "shell_words \<Rightarrow> string \<Rightarrow> tool_error + detected_command" where
  "parse_command_line split command =
     (case split command of
        None \<Rightarrow> Inl (InvalidParameters ''invalid command syntax'')
      | Some [] \<Rightarrow> Inl (InvalidParameters ''command cannot be empty'')
      | Some (program # args) \<Rightarrow> Inr \<lparr>dc_program = program, dc_args = args\<rparr>)"

text \<open>\<open>char::is_control\<close>: the general category Cc.\<close>

definition is_control :: "string \<Rightarrow> bool" where
  "is_control c \<longleftrightarrow>
     (length c = 1 \<and> (byte_of (hd c) < 32 \<or> byte_of (hd c) = 127)) \<or>
     (length c = 2 \<and> hd c = CHR 0xC2 \<and> byte_of (c ! 1) < 160)"

definition sanitize_shell_command :: "shell_words \<Rightarrow> string \<Rightarrow> tool_error + detected_command" where
  "sanitize_shell_command split command =
     (if blank command then Inl (InvalidParameters ''command cannot be empty'')
      else if list_ex (\<lambda>c. c = [CHR 0x00] \<or> c = [CHR 0x0A] \<or> c = [CHR 0x0D] \<or> (is_control c \<and> c \<noteq> [CHR 0x09])) (chars command)
      then Inl (InvalidParameters ''command contains unsupported control characters'')
      else parse_command_line split command)"

definition is_safe_workspace_relative_arg :: "string \<Rightarrow> bool" where
  "is_safe_workspace_relative_arg a \<longleftrightarrow>
     a \<noteq> [] \<and> \<not> prefix ''/'' a \<and> \<not> prefix ''~'' a \<and> \<not> sublist ''..'' a \<and> CHR 0x00 \<notin> set a"

definition args_are_flags_or_safe_paths :: "string list \<Rightarrow> bool" where
  "args_are_flags_or_safe_paths args = list_all (\<lambda>a. prefix ''-'' a \<or> is_safe_workspace_relative_arg a) args"

definition is_safe_read_only_git_command :: "string list \<Rightarrow> bool" where
  "is_safe_read_only_git_command args =
     (case args of
        [] \<Rightarrow> False
      | subcommand # rest \<Rightarrow>
          if subcommand \<in> set [''status'', ''diff'', ''show'', ''log'', ''rev-parse'', ''ls-files''] then True
          else if subcommand = ''branch'' then
            list_all (\<lambda>a. a \<in> set [''--show-current'', ''--all'', ''-a'', ''--remotes'', ''-r'', ''--list'', ''-vv'', ''-v'']) rest
          else False)"

definition is_safe_read_only_find_command :: "string list \<Rightarrow> bool" where
  "is_safe_read_only_find_command args =
     (if args = [] then True
      else if list_ex (\<lambda>a. a \<in> set [''-exec'', ''-execdir'', ''-ok'', ''-okdir'', ''-delete'', ''-fprint'', ''-fprintf'', ''-fls'']) args
      then False
      else list_all (\<lambda>a. if prefix ''-'' a then True else is_safe_workspace_relative_arg a) args)"

definition is_safe_read_only_exec_command :: "shell_words \<Rightarrow> string \<Rightarrow> bool" where
  "is_safe_read_only_exec_command split command =
     (case parse_command_line split command of
        Inl _ \<Rightarrow> False
      | Inr parsed \<Rightarrow>
          if dc_program parsed = ''pwd'' then dc_args parsed = []
          else if dc_program parsed = ''git'' then is_safe_read_only_git_command (dc_args parsed)
          else if dc_program parsed = ''ls'' then args_are_flags_or_safe_paths (dc_args parsed)
          else if dc_program parsed \<in> set [''cat'', ''head'', ''tail'', ''wc'', ''stat''] then args_are_flags_or_safe_paths (dc_args parsed)
          else if dc_program parsed = ''find'' then is_safe_read_only_find_command (dc_args parsed)
          else False)"

definition ascii_alnum :: "string \<Rightarrow> bool" where
  "ascii_alnum c \<longleftrightarrow> length c = 1 \<and>
     (let n = byte_of (hd c) in 48 \<le> n \<and> n \<le> 57 \<or> 65 \<le> n \<and> n \<le> 90 \<or> 97 \<le> n \<and> n \<le> 122)"

definition validate_runner_filter :: "string \<Rightarrow> tool_error + unit" where
  "validate_runner_filter s =
     (if s = [] then Inl (InvalidParameters ''filter cannot be empty'')
      else if \<not> list_all (\<lambda>c. ascii_alnum c \<or> c \<in> set [''_'', ''-'', ''.'', ''/'', '':'', ''='']) (chars s)
      then Inl (InvalidParameters ''filter contains unsupported characters'')
      else Inr ())"

subsection \<open>Paths inside the workspace\<close>

definition normalize_step :: "path \<Rightarrow> comp \<Rightarrow> path" where
  "normalize_step acc c = (case c of CurDir \<Rightarrow> acc | ParentDir \<Rightarrow> path_pop acc | _ \<Rightarrow> path_join acc [c])"

definition normalize_path :: "path \<Rightarrow> path" where
  "normalize_path p = foldl normalize_step [] p"

text \<open>The loop with the rest of the path and the names taken off its end so far.\<close>

function ancestor_loop :: "os \<Rightarrow> path \<Rightarrow> path \<Rightarrow> string list \<Rightarrow> path option" where
  "ancestor_loop fs p current taken =
     (if os_exists fs current then
        map_option (\<lambda>d. foldl (\<lambda>d w. path_join d [Normal w]) d (rev taken)) (os_canon fs current)
      else
        (case file_name current of
           None \<Rightarrow> os_canon fs current
         | Some w \<Rightarrow>
             (case parent current of
                None \<Rightarrow> os_canon fs p
              | Some up \<Rightarrow> ancestor_loop fs p up (taken @ [w]))))"
  by pat_completeness auto
termination
  by (relation "measure (\<lambda>(fs, p, current, taken). length current)") (auto simp: parent_def split: if_splits)

declare ancestor_loop.simps [simp del]

definition canonicalize_existing_ancestor :: "os \<Rightarrow> path \<Rightarrow> path option" where
  "canonicalize_existing_ancestor fs p = ancestor_loop fs p p []"

definition resolve_workspace_path :: "os \<Rightarrow> path \<Rightarrow> string \<Rightarrow> tool_error + path" where
  "resolve_workspace_path fs workspace_path raw =
     sbind (ok_or (InvalidParameters ''failed to resolve workspace'') (canonicalize_existing_ancestor fs workspace_path)) (\<lambda>workspace.
     sbind (ok_or (InvalidParameters ''failed to resolve path'') (canonicalize_existing_ancestor fs
        (if is_absolute (path_of raw) then normalize_path (path_of raw)
         else normalize_path (path_join workspace (path_of raw))))) (\<lambda>candidate.
     if \<not> starts_with candidate workspace then Inl (InvalidParameters ''path escapes the workspace'')
     else Inr candidate))"


definition BLOCKED_DEVICE_PATHS :: "string list" where
  "BLOCKED_DEVICE_PATHS =
     [''/dev/zero'', ''/dev/random'', ''/dev/urandom'', ''/dev/full'', ''/dev/stdin'', ''/dev/stdout'', ''/dev/stderr'',
      ''/dev/tty'', ''/dev/console'', ''/dev/fd/0'', ''/dev/fd/1'', ''/dev/fd/2'']"

definition is_blocked_device_path :: "string \<Rightarrow> bool" where
  "is_blocked_device_path s \<longleftrightarrow>
     s \<in> set BLOCKED_DEVICE_PATHS \<or>
     (prefix ''/proc/'' s \<and> (suffix ''/fd/0'' s \<or> suffix ''/fd/1'' s \<or> suffix ''/fd/2'' s))"

subsection \<open>Fetch targets\<close>

datatype ip = V4 "8 word" "8 word" "8 word" "8 word" | V6 "128 word"

definition v4_private :: "ip \<Rightarrow> bool" where
  "v4_private ip = (case ip of
      V4 a b c d \<Rightarrow> a = 10 \<or> (a = 172 \<and> 16 \<le> b \<and> b < 32) \<or> (a = 192 \<and> b = 168)
    | _ \<Rightarrow> False)"

definition v4_documentation :: "ip \<Rightarrow> bool" where
  "v4_documentation ip = (case ip of
      V4 a b c d \<Rightarrow> (a = 192 \<and> b = 0 \<and> c = 2) \<or> (a = 198 \<and> b = 51 \<and> c = 100) \<or> (a = 203 \<and> b = 0 \<and> c = 113)
    | _ \<Rightarrow> False)"

definition is_private_or_local_ip :: "ip \<Rightarrow> bool" where
  "is_private_or_local_ip ip = (case ip of
      V4 a b c d \<Rightarrow> v4_private ip \<or> a = 127 \<or> (a = 169 \<and> b = 254) \<or>
        (a = 255 \<and> b = 255 \<and> c = 255 \<and> d = 255) \<or> v4_documentation ip \<or>
        (a = 0 \<and> b = 0 \<and> c = 0 \<and> d = 0) \<or> (a = 169 \<and> b = 254 \<and> c = 169 \<and> d = 254)
    | V6 w \<Rightarrow> w = 1 \<or> w = 0 \<or> drop_bit 121 w = 0x7E \<or> drop_bit 118 w = 0x3FA)"

record url =
  u_scheme :: string
  u_host :: "string option"
  u_port :: "nat option"

record net =
  n_parse :: "string \<Rightarrow> url option"
  n_parse_ip :: "string \<Rightarrow> ip option"
  n_known_port :: "string \<Rightarrow> nat option"
  n_lookup :: "string \<Rightarrow> nat \<Rightarrow> ip list option"

definition validate_web_fetch_url :: "net \<Rightarrow> string \<Rightarrow> tool_error + url" where
  "validate_web_fetch_url net s =
     sbind (ok_or (InvalidParameters ''Invalid URL'') (n_parse net s)) (\<lambda>parsed.
     if u_scheme parsed \<notin> set [''http'', ''https''] then Inl (InvalidParameters ''Unsupported URL scheme'')
     else sbind (ok_or (InvalidParameters ''URL host is required'') (u_host parsed)) (\<lambda>host.
       if host \<in> set [''localhost'', ''localhost.localdomain''] \<or> suffix ''.local'' host \<or> suffix ''.internal'' host
       then Inl (InvalidParameters ''web_fetch does not allow localhost or internal hostnames'')
       else (case n_parse_ip net host of
           Some ip \<Rightarrow> if is_private_or_local_ip ip then Inl (InvalidParameters ''web_fetch does not allow private addresses'')
                      else Inr parsed
         | None \<Rightarrow>
             let port = (case u_port parsed of Some p \<Rightarrow> p | None \<Rightarrow>
                 (case n_known_port net (u_scheme parsed) of Some p \<Rightarrow> p | None \<Rightarrow> 80)) in
             sbind (ok_or (ExecutionFailed ''Failed to resolve host'') (n_lookup net host port)) (\<lambda>ips.
             if list_ex is_private_or_local_ip ips
             then Inl (InvalidParameters ''web_fetch target resolves to a private address'')
             else Inr parsed))))"

subsection \<open>Lemmas\<close>

lemma clean_join: "clean p \<Longrightarrow> clean q \<Longrightarrow> clean (path_join p q)"
  by (auto simp: path_join_def clean_def)

lemma clean_normalize_step: "clean acc \<Longrightarrow> clean (normalize_step acc c)"
  by (cases c) (simp_all add: normalize_step_def clean_pop clean_join)

lemma clean_normalize: "clean (normalize_path p)"
proof -
  have "clean acc \<Longrightarrow> clean (foldl normalize_step acc p)" for acc
    by (induction p arbitrary: acc) (simp_all add: clean_normalize_step)
  then show ?thesis by (simp add: normalize_path_def)
qed

lemma clean_names: "clean d \<Longrightarrow> clean (foldl (\<lambda>d w. path_join d [Normal w]) d ws)"
  by (induction ws arbitrary: d) (simp_all add: clean_join)

context filesystem
begin

lemma ancestor_clean: "ancestor_loop fs p current taken = Some q \<Longrightarrow> clean q"
proof (induction "length current" arbitrary: current taken rule: less_induct)
  case less
  note eq = ancestor_loop.simps[of fs p current taken]
  show ?case
  proof (cases "os_exists fs current")
    case True
    with less(2) obtain d where "os_canon fs current = Some d"
      "q = foldl (\<lambda>d w. path_join d [Normal w]) d (rev taken)"
      by (auto simp: eq)
    then show ?thesis using clean_names canon_clean by blast
  next
    case False
    show ?thesis
    proof (cases "file_name current")
      case None
      with False less(2) show ?thesis using canon_clean by (simp add: eq)
    next
      case (Some w)
      show ?thesis
      proof (cases "parent current")
        case None
        with False Some less(2) show ?thesis using canon_clean by (simp add: eq)
      next
        case (Some up)
        then have "length up < length current" by (auto simp: parent_def split: if_splits)
        moreover from Some False \<open>file_name current = _\<close> less(2) have "ancestor_loop fs p up (taken @ [w]) = Some q"
          by (simp add: eq)
        ultimately show ?thesis by (rule less(1))
      qed
    qed
  qed
qed

lemma resolve_confined:
  assumes "resolve_workspace_path fs w raw = Inr r"
  obtains ws where "canonicalize_existing_ancestor fs w = Some ws" "prefix ws r" "clean r" "clean ws"
proof -
  from assms obtain ws c where "canonicalize_existing_ancestor fs w = Some ws" "prefix ws r"
    "canonicalize_existing_ancestor fs c = Some r"
    by (auto simp: resolve_workspace_path_def sbind_Inr_iff ok_or_Inr_iff starts_with_def split: if_splits)
  then show thesis using that ancestor_clean by (auto simp: canonicalize_existing_ancestor_def)
qed

end

subsection \<open>Properties\<close>


text \<open>The forbidden paths are compared with a path parameter as the server process would read it, while
  the tools read it in the workspace: a relative path that means nothing in the working directory of the
  process is never denied, wherever it leads in the workspace.\<close>

theorem relative_path_not_checked:
  assumes "filesystem fs" "cc_filesystem (cf_capabilities config) = Some fc"
    and "\<forall>f \<in> set (fc_forbidden_paths fc). os_canon fs f \<noteq> None"
    and "p \<noteq> []" "\<not> is_absolute p" "os_canon fs p = None" "Option.bind (parent p) (os_canon fs) = None"
  shows "enforce_path fs p (build_restrictions fs config) = Allowed"
proof -
  have p: "resolve_capability_path fs p = p" using assms(6,7) by (simp add: resolve_capability_path_def)
  have "\<not> starts_with p (resolve_capability_path fs f) \<and> p \<noteq> resolve_capability_path fs f"
    if "f \<in> rs_forbidden_paths (build_restrictions fs config)" for f
  proof -
    from that assms(2) obtain g where g: "g \<in> set (fc_forbidden_paths fc)" "f = resolve_capability_path fs g"
      by (auto simp: build_restrictions_def default_restrictions_def Let_def split: option.splits if_splits)
    with assms(3) obtain d where d: "os_canon fs g = Some d" by blast
    with filesystem.resolve_resolved[OF assms(1) d] g have "resolve_capability_path fs f = d" by simp
    moreover have "is_absolute d" using filesystem.canon_clean[OF assms(1) d] by simp
    ultimately show ?thesis using assms(4,5) by (auto simp: starts_with_def is_absolute_def prefix_def)
  qed
  then show ?thesis by (auto simp: enforce_path_def p)
qed

text \<open>Commands that write pass as safe and read-only: \<open>find -fprint0\<close> writes a file, and no option of \<open>git diff\<close>,
  \<open>git show\<close> or \<open>git log\<close> is looked at, \<open>--output\<close> with an absolute path included.\<close>

theorem read_only_check_admits_writes:
  assumes "split c1 = Some [''find'', ''.'', ''-fprint0'', out]" "is_safe_workspace_relative_arg out" "\<not> prefix ''-'' out"
    and "split c2 = Some (''git'' # ''diff'' # args)"
  shows "is_safe_read_only_exec_command split c1 \<and> is_safe_read_only_exec_command split c2"
proof -
  have "is_safe_workspace_relative_arg ''.''" by code_simp
  moreover have "out \<notin> set [''-exec'', ''-execdir'', ''-ok'', ''-okdir'', ''-delete'', ''-fprint'', ''-fprintf'', ''-fls'']"
    using assms(3) by auto
  ultimately show ?thesis
    using assms by (auto simp: is_safe_read_only_exec_command_def parse_command_line_def
        is_safe_read_only_find_command_def is_safe_read_only_git_command_def)
qed

subsection \<open>Witnesses\<close>


theorem relative_path_not_checked_witness:
  "enforce_path sample_fs (path_of ''secret/key'') (build_restrictions sample_fs sample_config) = Allowed \<and>
   resolve_workspace_path sample_fs (path_of ''/ws'') ''secret/key'' = Inr (path_of ''/ws/secret/key'')"
proof -
  have c: "os_canon sample_fs (path_of ''secret/key'') = None" "Option.bind (parent (path_of ''secret/key'')) (os_canon sample_fs) = None"
    "path_of ''secret/key'' \<noteq> []" "\<not> is_absolute (path_of ''secret/key'')"
    "os_canon sample_fs (path_of ''/ws/secret'') \<noteq> None" by code_simp+
  have "cc_filesystem (cf_capabilities sample_config) = Some \<lparr>fc_read_paths = [path_of ''/ws''], fc_write_paths = [],
         fc_forbidden_paths = [path_of ''/ws/secret'']\<rparr>" by (simp add: sample_config_def)
  moreover have "filesystem sample_fs" unfolding sample_fs_def by (rule plain.filesystem_axioms)
  ultimately have "enforce_path sample_fs (path_of ''secret/key'') (build_restrictions sample_fs sample_config) = Allowed"
    using relative_path_not_checked c by simp
  moreover have "resolve_workspace_path sample_fs (path_of ''/ws'') ''secret/key'' = Inr (path_of ''/ws/secret/key'')" by code_simp
  ultimately show ?thesis by blast
qed

theorem read_only_check_admits_writes_witness:
  "is_safe_read_only_exec_command
     (\<lambda>s. if s = ''f'' then Some [''find'', ''.'', ''-fprint0'', ''Makefile''] else Some [''git'', ''diff'', ''--output=/home/u/.profile'']) ''g''"
proof -
  have "is_safe_workspace_relative_arg ''Makefile''" by code_simp
  then show ?thesis
    using read_only_check_admits_writes[of "\<lambda>s. if s = ''f'' then Some [''find'', ''.'', ''-fprint0'', ''Makefile'']
      else Some [''git'', ''diff'', ''--output=/home/u/.profile'']" "''f''" "''Makefile''" "''g''" "[''--output=/home/u/.profile'']"]
    by simp
qed

text \<open>An address that maps an IPv4 loopback address into IPv6 is not screened.\<close>

lemma mapped_loopback_not_private:
  "is_private_or_local_ip (V4 127 0 0 1) \<and> \<not> is_private_or_local_ip (V6 0xFFFF7F000001)"
  by code_simp

end
