(* ===== verification/Tools.thy ===== *)
theory Tools
  imports ToolPaths
begin

text \<open>
  The tool registry (\<open>rockbot-tools/src/lib.rs\<close>): which built-in tools a profile registers, and the gate every
  call passes before a tool runs. A tool is its name, what it requires and its body, a function of
  the parameters, the context and the world \<open>'w\<close>; approval callbacks, agent invokers and blackboards
  are such functions too. Execution times are left out.
\<close>

subsection \<open>Results, contexts, tools\<close>

datatype tool_result = TextResult string | JsonResult json
  | FileResult string "u8 list option" "string option" | ErrorResult string
  | HandoffResult string string "string option"

datatype approval_result = Approved | ApprovalDenied string | ApprovalPending string

record execution_result =
  er_tool_name :: string
  er_result :: tool_result
  er_success :: bool

record 'w blackboard_accessor =
  bb_read :: "string \<Rightarrow> string \<Rightarrow> 'w \<Rightarrow> json option"
  bb_write :: "string \<Rightarrow> string \<Rightarrow> json \<Rightarrow> 'w \<Rightarrow> 'w"
  bb_read_all :: "string \<Rightarrow> 'w \<Rightarrow> (string \<times> json) list"

text \<open>\<open>ai_cancelled n\<close> is the world in which a call that does not end within \<open>n\<close> seconds is dropped.\<close>

record 'w agent_invoker =
  ai_invoke :: "string \<Rightarrow> string \<Rightarrow> string \<Rightarrow> nat \<Rightarrow> 'w \<Rightarrow> (tool_error + string) \<times> 'w"
  ai_cancelled :: "nat \<Rightarrow> string \<Rightarrow> string \<Rightarrow> string \<Rightarrow> nat \<Rightarrow> 'w \<Rightarrow> 'w option"

record 'w tool_context =
  tc_session_id :: string
  tc_agent_id :: string
  tc_workspace_path :: path
  tc_security_context :: security_context
  tc_command_allowlist :: "string list"
  tc_approval_callback :: "(string \<Rightarrow> string \<Rightarrow> json \<Rightarrow> 'w \<Rightarrow> approval_result \<times> 'w) option"
  tc_agent_invoker :: "'w agent_invoker option"
  tc_delegation_depth :: nat
  tc_blackboard :: "'w blackboard_accessor option"
  tc_swarm_id :: "string option"

type_synonym 'w tool_body = "json \<Rightarrow> 'w tool_context \<Rightarrow> 'w \<Rightarrow> (tool_error + tool_result) \<times> 'w"

record 'w tool =
  tl_name :: string
  tl_required_capabilities :: capabilities
  tl_requires_approval :: bool
  tl_execute :: "'w tool_body"

record tool_env =
  te_os :: os
  te_glob :: glob_crate
  te_words :: shell_words
  te_json :: "string \<Rightarrow> json option"
  te_show :: "tool_error \<Rightarrow> string"

record tool_config =
  tcf_profile :: string
  tcf_deny :: "string list"

subsection \<open>Registration\<close>

definition builtin_profile :: "string \<Rightarrow> string list" where
  "builtin_profile profile =
     (if profile = ''minimal'' then [''read'', ''write'']
      else if profile = ''standard'' then
        [''read'', ''write'', ''edit'', ''exec'', ''glob'', ''grep'', ''patch'', ''invoke_agent'', ''handoff'',
         ''web_fetch'', ''web_search'', ''test'', ''lint'', ''clarify'']
      else if profile = ''full'' then
        [''read'', ''write'', ''edit'', ''exec'', ''glob'', ''grep'', ''patch'', ''memory_get'', ''memory_search'',
         ''invoke_agent'', ''handoff'', ''web_fetch'', ''web_search'', ''browser'', ''test'', ''lint'', ''clarify'',
         ''blackboard_read'', ''blackboard_write'']
      else [''read'', ''write'', ''edit'', ''exec'', ''glob'', ''grep'', ''patch''])"

definition core_profile :: "string \<Rightarrow> string list" where
  "core_profile profile =
     (if profile \<in> set [''minimal'', ''standard''] then [''invoke_agent'', ''handoff'', ''clarify'']
      else if profile = ''full'' then
        [''memory_get'', ''memory_search'', ''invoke_agent'', ''handoff'', ''clarify'', ''blackboard_read'', ''blackboard_write'']
      else [''clarify''])"

text \<open>What the built-in tools require; their bodies are given by name.\<close>

definition tool_requirements :: "string \<Rightarrow> (capabilities \<times> bool) option" where
  "tool_requirements name =
     (if name \<in> set [''read'', ''glob'', ''grep'', ''memory_get'', ''memory_search''] then Some (filesystem_read, False)
      else if name = ''write'' then Some (filesystem_write, True)
      else if name \<in> set [''edit'', ''patch''] then Some (cap_extend filesystem_read filesystem_write, True)
      else if name = ''exec'' then Some (process_execute, True)
      else if name \<in> set [''test'', ''lint''] then Some (process_execute, False)
      else if name \<in> set [''invoke_agent'', ''handoff'', ''blackboard_read'', ''blackboard_write'', ''clarify''] then Some ({}, False)
      else if name \<in> set [''web_fetch'', ''web_search''] then Some (cap_add (NetworkAccess ''*'') {}, False)
      else if name = ''browser'' then Some (cap_add (NetworkAccess ''*'') {}, True)
      else None)"

definition create_builtin_tool :: "(string \<Rightarrow> 'w tool_body) \<Rightarrow> string \<Rightarrow> 'w tool option" where
  "create_builtin_tool bodies name = (case tool_requirements name of
     None \<Rightarrow> None
   | Some (caps, approval) \<Rightarrow> Some \<lparr>tl_name = name, tl_required_capabilities = caps,
       tl_requires_approval = approval, tl_execute = bodies name\<rparr>)"

definition register_tool :: "'w tool \<Rightarrow> (string \<rightharpoonup> 'w tool) \<Rightarrow> (string \<rightharpoonup> 'w tool)" where
  "register_tool tool tools = tools(tl_name tool \<mapsto> tool)"

definition register_names ::
  "(string \<Rightarrow> 'w tool_body) \<Rightarrow> tool_config \<Rightarrow> string list \<Rightarrow> (string \<rightharpoonup> 'w tool) \<Rightarrow> (string \<rightharpoonup> 'w tool)" where
  "register_names bodies config names tools =
     foldl (\<lambda>tools name.
       if name \<in> set (tcf_deny config) then tools
       else (case create_builtin_tool bodies name of Some tool \<Rightarrow> register_tool tool tools | None \<Rightarrow> tools)) tools names"

definition registry_new :: "(string \<Rightarrow> 'w tool_body) \<Rightarrow> tool_config \<Rightarrow> string \<rightharpoonup> 'w tool" where
  "registry_new bodies config = register_names bodies config (builtin_profile (tcf_profile config)) Map.empty"

definition registry_new_core_only :: "(string \<Rightarrow> 'w tool_body) \<Rightarrow> tool_config \<Rightarrow> string \<rightharpoonup> 'w tool" where
  "registry_new_core_only bodies config = register_names bodies config (core_profile (tcf_profile config)) Map.empty"

definition get_available_tools :: "os \<Rightarrow> capabilities \<Rightarrow> 'w tool list \<Rightarrow> 'w tool list" where
  "get_available_tools fs caps tools = filter (\<lambda>tool. cap_allows fs caps (tl_required_capabilities tool)) tools"

subsection \<open>The gate\<close>

definition PATH_PARAM_KEYS :: "string list" where
  "PATH_PARAM_KEYS = [''path'', ''file_path'', ''file'', ''workdir'', ''directory'']"

definition executable_of :: "shell_words \<Rightarrow> string \<Rightarrow> string" where
  "executable_of split cmd = (case split cmd of Some (w # _) \<Rightarrow> w | _ \<Rightarrow> [])"

definition is_allowlisted :: "tool_env \<Rightarrow> 'w tool_context \<Rightarrow> json \<Rightarrow> bool" where
  "is_allowlisted env ctx params = (case str_param ''command'' params of
     None \<Rightarrow> False
   | Some cmd \<Rightarrow> is_safe_read_only_exec_command (te_words env) cmd \<or>
       command_matches_any_pattern (te_glob env) cmd (executable_of (te_words env) cmd) (tc_command_allowlist ctx))"

text \<open>The approval step: an outcome that ends the call, or none when it goes on.\<close>

definition approval_step ::
  "tool_env \<Rightarrow> string \<Rightarrow> 'w tool \<Rightarrow> json \<Rightarrow> 'w tool_context \<Rightarrow> 'w \<Rightarrow> (tool_error + execution_result) option \<times> 'w" where
  "approval_step env name tool params ctx w =
     (if tl_requires_approval tool \<and> \<not> is_allowlisted env ctx params then
        (case tc_approval_callback ctx of
           None \<Rightarrow> (Some (Inl (ApprovalRequired name)), w)
         | Some callback \<Rightarrow>
             (case callback name (tc_agent_id ctx) params w of
                (Approved, w) \<Rightarrow> (None, w)
              | (ApprovalDenied reason, w) \<Rightarrow>
                  (Some (Inr \<lparr>er_tool_name = name, er_result = ErrorResult (''Tool execution denied: '' @ reason), er_success = False\<rparr>), w)
              | (ApprovalPending request_id, w) \<Rightarrow>
                  (Some (Inr \<lparr>er_tool_name = name, er_result = ErrorResult (''Approval pending: '' @ request_id), er_success = False\<rparr>), w)))
      else (None, w))"

definition denied_paths :: "tool_env \<Rightarrow> 'w tool_context \<Rightarrow> json \<Rightarrow> denial list" where
  "denied_paths env ctx params =
     concat (map (\<lambda>key. case str_param key params of
        None \<Rightarrow> []
      | Some p \<Rightarrow> (case enforce_path (te_os env) (path_of p) (sc_restrictions (tc_security_context ctx)) of
          Denied reason \<Rightarrow> [reason] | Allowed \<Rightarrow> [])) PATH_PARAM_KEYS)"

definition restriction_step :: "tool_env \<Rightarrow> 'w tool_context \<Rightarrow> json \<Rightarrow> tool_error + unit" where
  "restriction_step env ctx params =
     (case denied_paths env ctx params of
        reason # _ \<Rightarrow> Inl (SecurityError reason)
      | [] \<Rightarrow>
          (case str_param ''command'' params of
             None \<Rightarrow> Inr ()
           | Some cmd \<Rightarrow>
               (case enforce_command (te_glob env) cmd (executable_of (te_words env) cmd) (sc_restrictions (tc_security_context ctx)) of
                  Denied reason \<Rightarrow> Inl (SecurityError reason)
                | Allowed \<Rightarrow> Inr ())))"

definition run_tool :: "tool_env \<Rightarrow> string \<Rightarrow> 'w tool \<Rightarrow> json \<Rightarrow> 'w tool_context \<Rightarrow> 'w \<Rightarrow> (tool_error + execution_result) \<times> 'w" where
  "run_tool env name tool params ctx w =
     (case tl_execute tool params ctx w of
        (Inr result, w) \<Rightarrow> (Inr \<lparr>er_tool_name = name, er_result = result, er_success = True\<rparr>, w)
      | (Inl e, w) \<Rightarrow> (Inr \<lparr>er_tool_name = name, er_result = ErrorResult (te_show env e), er_success = False\<rparr>, w))"

definition execute_tool ::
  "tool_env \<Rightarrow> (string \<rightharpoonup> 'w tool) \<Rightarrow> string \<Rightarrow> string \<Rightarrow> 'w tool_context \<Rightarrow> 'w \<Rightarrow> (tool_error + execution_result) \<times> 'w" where
  "execute_tool env tools name text ctx w =
     (case tools name of
        None \<Rightarrow> (Inl (ToolNotFound name), w)
      | Some tool \<Rightarrow>
          (case te_json env text of
             None \<Rightarrow> (Inl (InvalidParameters text), w)
           | Some params \<Rightarrow>
               if \<not> cap_allows (te_os env) (sc_capabilities (tc_security_context ctx)) (tl_required_capabilities tool)
               then (Inl MissingCapabilities, w)
               else (case approval_step env name tool params ctx w of
                   (Some outcome, w) \<Rightarrow> (outcome, w)
                 | (None, w) \<Rightarrow>
                     (case restriction_step env ctx params of
                        Inl e \<Rightarrow> (Inl e, w)
                      | Inr _ \<Rightarrow> run_tool env name tool params ctx w))))"

subsection \<open>Tools that reach other agents\<close>

definition MAX_DELEGATION_DEPTH :: nat where "MAX_DELEGATION_DEPTH = 3"
definition MAX_HANDOFF_DEPTH :: nat where "MAX_HANDOFF_DEPTH = 3"

definition invoke_agent_execute :: "(tool_error \<Rightarrow> string) \<Rightarrow> 'w tool_body" where
  "invoke_agent_execute sh params ctx w =
     (case str_param ''agent_id'' params of None \<Rightarrow> (Inl (InvalidParameters ''agent_id is required''), w)
      | Some agent_id \<Rightarrow>
     (case str_param ''message'' params of None \<Rightarrow> (Inl (InvalidParameters ''message is required''), w)
      | Some raw \<Rightarrow>
          let sub = (case str_param ''context'' params of Some c \<Rightarrow> c | None \<Rightarrow> []);
              message = (if sub = [] then raw
                else ''Context from parent agent ('' @ tc_agent_id ctx @ ''):'' @ [CHR 0x0A] @ sub @ [CHR 0x0A, CHR 0x0A] @
                  ''Task:'' @ [CHR 0x0A] @ raw) in
          if agent_id = tc_agent_id ctx then (Inr (ErrorResult ''Cannot invoke self''), w)
          else if MAX_DELEGATION_DEPTH \<le> tc_delegation_depth ctx then (Inr (ErrorResult ''Maximum delegation depth exceeded''), w)
          else (case tc_agent_invoker ctx of
              None \<Rightarrow> (Inr (ErrorResult ''Agent delegation is not available in this context''), w)
            | Some invoker \<Rightarrow>
                (case ai_cancelled invoker 300 agent_id message (tc_session_id ctx) (tc_delegation_depth ctx + 1) w of
                   Some w \<Rightarrow> (Inr (ErrorResult ''Agent invocation timed out after 300s''), w)
                 | None \<Rightarrow>
                     (case ai_invoke invoker agent_id message (tc_session_id ctx) (tc_delegation_depth ctx + 1) w of
                        (Inr response, w) \<Rightarrow> (Inr (TextResult response), w)
                      | (Inl e, w) \<Rightarrow> (Inr (ErrorResult (''Agent invocation failed: '' @ sh e)), w))))))"

definition agent_tool_execute :: "(tool_error \<Rightarrow> string) \<Rightarrow> string \<Rightarrow> 'w tool_body" where
  "agent_tool_execute sh agent_id params ctx w =
     (case str_param ''message'' params of None \<Rightarrow> (Inl (InvalidParameters ''message''), w)
      | Some message \<Rightarrow>
     (case tc_agent_invoker ctx of None \<Rightarrow> (Inl (ExecutionFailed ''No agent invoker available''), w)
      | Some invoker \<Rightarrow>
          if MAX_DELEGATION_DEPTH \<le> tc_delegation_depth ctx then (Inl (ExecutionFailed ''depth limit''), w)
          else if agent_id = tc_agent_id ctx then (Inl (ExecutionFailed ''Agent cannot delegate to itself''), w)
          else (case ai_invoke invoker agent_id message (tc_session_id ctx) (tc_delegation_depth ctx + 1) w of
              (Inr response, w) \<Rightarrow> (Inr (TextResult response), w)
            | (Inl e, w) \<Rightarrow> (Inl (ExecutionFailed (''Agent invocation failed: '' @ sh e)), w))))"

definition handoff_execute :: "'w tool_body" where
  "handoff_execute params ctx w =
     (case str_param ''target_agent_id'' params of None \<Rightarrow> (Inl (InvalidParameters ''target_agent_id is required''), w)
      | Some target \<Rightarrow>
     (case str_param ''context'' params of None \<Rightarrow> (Inl (InvalidParameters ''context is required''), w)
      | Some handoff_context \<Rightarrow>
          if target = tc_agent_id ctx then (Inr (ErrorResult ''Cannot hand off to self''), w)
          else if MAX_HANDOFF_DEPTH \<le> tc_delegation_depth ctx then (Inr (ErrorResult ''Maximum handoff depth exceeded''), w)
          else (Inr (HandoffResult target handoff_context (str_param ''message'' params)), w)))"

definition blackboard_read_execute :: "'w tool_body" where
  "blackboard_read_execute params ctx w =
     (case tc_swarm_id ctx of None \<Rightarrow> (Inr (ErrorResult ''This agent is not part of a swarm.''), w)
      | Some swarm \<Rightarrow>
     (case tc_blackboard ctx of None \<Rightarrow> (Inr (ErrorResult ''No blackboard available in this context''), w)
      | Some bb \<Rightarrow>
     (case str_param ''key'' params of
        Some key \<Rightarrow>
          (case bb_read bb swarm key w of
             Some v \<Rightarrow> (Inr (JsonResult (JObj [(''key'', JStr key), (''value'', v)])), w)
           | None \<Rightarrow> (Inr (JsonResult (JObj [(''key'', JStr key), (''value'', JNull),
               (''note'', JStr ''Key not found on blackboard'')])), w))
      | None \<Rightarrow> (Inr (JsonResult (JObj (bb_read_all bb swarm w))), w))))"

definition blackboard_write_execute :: "'w tool_body" where
  "blackboard_write_execute params ctx w =
     (case tc_swarm_id ctx of None \<Rightarrow> (Inr (ErrorResult ''This agent is not part of a swarm.''), w)
      | Some swarm \<Rightarrow>
     (case tc_blackboard ctx of None \<Rightarrow> (Inr (ErrorResult ''No blackboard available in this context''), w)
      | Some bb \<Rightarrow>
     (case str_param ''key'' params of None \<Rightarrow> (Inl (InvalidParameters ''key is required''), w)
      | Some key \<Rightarrow>
     (case json_get ''value'' params of None \<Rightarrow> (Inl (InvalidParameters ''value is required''), w)
      | Some v \<Rightarrow> (Inr (JsonResult (JObj [(''status'', JStr ''ok''), (''key'', JStr key), (''swarm_id'', JStr swarm)])),
          bb_write bb swarm key v w)))))"

subsection \<open>Lemmas\<close>

lemma create_name: "create_builtin_tool bodies name = Some tool \<Longrightarrow> tl_name tool = name"
  by (auto simp: create_builtin_tool_def split: option.splits)

lemma register_names_eq:
  "register_names bodies config names tools name =
     (if name \<in> set names \<and> name \<notin> set (tcf_deny config) \<and> create_builtin_tool bodies name \<noteq> None
      then create_builtin_tool bodies name else tools name)"
proof (induction names arbitrary: tools)
  case (Cons n names)
  let ?tools = "if n \<in> set (tcf_deny config) then tools
       else (case create_builtin_tool bodies n of Some tool \<Rightarrow> register_tool tool tools | None \<Rightarrow> tools)"
  have "register_names bodies config (n # names) tools = register_names bodies config names ?tools"
    by (simp add: register_names_def)
  then show ?case
    using Cons.IH[of ?tools] create_name[of bodies n] by (auto simp: register_tool_def split: option.splits if_splits)
qed (simp add: register_names_def)

lemma builtin_known: "name \<in> set (builtin_profile profile) \<Longrightarrow> create_builtin_tool bodies name \<noteq> None"
  by (auto simp: builtin_profile_def create_builtin_tool_def tool_requirements_def split: if_splits option.splits)

lemma approval_ignores_body [simp]: "approval_step env name (tool\<lparr>tl_execute := b\<rparr>) = approval_step env name tool"
  by (simp add: approval_step_def fun_eq_iff)

lemma approval_None:
  assumes "approval_step env name tool params ctx w = (None, w')" "tl_requires_approval tool"
  shows "is_allowlisted env ctx params \<or>
     (\<exists>cb. tc_approval_callback ctx = Some cb \<and> fst (cb name (tc_agent_id ctx) params w) = Approved)"
  using assms by (auto simp: approval_step_def split: option.splits prod.splits approval_result.splits if_splits)

lemma restriction_Inr:
  assumes "restriction_step env ctx params = Inr u"
  shows "\<And>key p. key \<in> set PATH_PARAM_KEYS \<Longrightarrow> str_param key params = Some p \<Longrightarrow>
      enforce_path (te_os env) (path_of p) (sc_restrictions (tc_security_context ctx)) = Allowed"
    and "\<And>cmd. str_param ''command'' params = Some cmd \<Longrightarrow>
      enforce_command (te_glob env) cmd (executable_of (te_words env) cmd) (sc_restrictions (tc_security_context ctx)) = Allowed"
proof -
  have d: "denied_paths env ctx params = []"
    using assms by (simp add: restriction_step_def split: list.splits)
  show "enforce_path (te_os env) (path_of p) (sc_restrictions (tc_security_context ctx)) = Allowed"
    if "key \<in> set PATH_PARAM_KEYS" "str_param key params = Some p" for key p
    using d that by (cases "enforce_path (te_os env) (path_of p) (sc_restrictions (tc_security_context ctx))")
      (auto simp: denied_paths_def)
  show "enforce_command (te_glob env) cmd (executable_of (te_words env) cmd) (sc_restrictions (tc_security_context ctx)) = Allowed"
    if "str_param ''command'' params = Some cmd" for cmd
    using assms d that by (simp add: restriction_step_def split: enforcement.splits)
qed

lemma gate_closed:
  assumes "tools name = Some tool" "te_json env text = Some params"
    and "\<not> cap_allows (te_os env) (sc_capabilities (tc_security_context ctx)) (tl_required_capabilities tool) \<or>
      fst (approval_step env name tool params ctx w) \<noteq> None \<or> isl (restriction_step env ctx params)"
  shows "execute_tool env (tools(name \<mapsto> tool\<lparr>tl_execute := b\<rparr>)) name text ctx w = execute_tool env tools name text ctx w"
proof (cases "cap_allows (te_os env) (sc_capabilities (tc_security_context ctx)) (tl_required_capabilities tool)")
  case True
  obtain out w' where a: "approval_step env name tool params ctx w = (out, w')" by fastforce
  show ?thesis
  proof (cases out)
    case None
    with assms(3) True a obtain e where "restriction_step env ctx params = Inl e"
      by (cases "restriction_step env ctx params") auto
    with None a assms(1,2) show ?thesis by (simp add: execute_tool_def)
  qed (use a assms(1,2) in \<open>simp add: execute_tool_def\<close>)
qed (use assms(1,2) in \<open>simp add: execute_tool_def\<close>)

subsection \<open>Blackboards\<close>

text \<open>What the blackboard tools rely on: an entry holds what was last written under its swarm and key.\<close>

locale blackboard =
  fixes bb :: "'w blackboard_accessor"
  assumes read_write: "bb_read bb swarm k (bb_write bb swarm' k' v w) =
      (if swarm = swarm' \<and> k = k' then Some v else bb_read bb swarm k w)"
begin

text \<open>An agent of a swarm reads what another agent of the swarm wrote last; other swarms see no change.\<close>

lemma write_then_read:
  assumes "tc_blackboard ctx = Some bb" "tc_swarm_id ctx = Some swarm" "tc_blackboard ctx' = Some bb" "tc_swarm_id ctx' = Some swarm'"
    and "str_param ''key'' params = Some k" "json_get ''value'' params = Some v" "str_param ''key'' params' = Some k"
    and "blackboard_write_execute params ctx w = (r, w')"
  shows "fst (blackboard_read_execute params' ctx' w') =
     (if swarm' = swarm then Inr (JsonResult (JObj [(''key'', JStr k), (''value'', v)]))
      else fst (blackboard_read_execute params' ctx' w))"
  using assms by (cases "swarm' = swarm") (auto simp: blackboard_write_execute_def blackboard_read_execute_def read_write split: option.splits)

end

subsection \<open>Properties\<close>

text \<open>C6. A tool's code matters only if the call is admitted: if exchanging the body of a tool changes what a
  call does, then the parameters parsed, the session has every capability the tool requires, a tool
  that needs approval was on the allow list or approved by the callback, and no path or command
  among the parameters is denied by the restrictions of the session.\<close>

theorem tool_body_gated:
  assumes "tools name = Some tool"
    and "execute_tool env (tools(name \<mapsto> tool\<lparr>tl_execute := b\<rparr>)) name text ctx w \<noteq> execute_tool env tools name text ctx w"
  shows "\<exists>params. te_json env text = Some params \<and>
     cap_allows (te_os env) (sc_capabilities (tc_security_context ctx)) (tl_required_capabilities tool) \<and>
     (tl_requires_approval tool \<longrightarrow> is_allowlisted env ctx params \<or>
        (\<exists>cb. tc_approval_callback ctx = Some cb \<and> fst (cb name (tc_agent_id ctx) params w) = Approved)) \<and>
     (\<forall>key p. key \<in> set PATH_PARAM_KEYS \<longrightarrow> str_param key params = Some p \<longrightarrow>
        enforce_path (te_os env) (path_of p) (sc_restrictions (tc_security_context ctx)) = Allowed) \<and>
     (\<forall>cmd. str_param ''command'' params = Some cmd \<longrightarrow>
        enforce_command (te_glob env) cmd (executable_of (te_words env) cmd) (sc_restrictions (tc_security_context ctx)) = Allowed)"
proof -
  from assms obtain params where p: "te_json env text = Some params"
    by (cases "te_json env text") (auto simp: execute_tool_def)
  from gate_closed[of tools name tool env "text" params ctx w b, OF assms(1) p] assms(2) have
    c: "cap_allows (te_os env) (sc_capabilities (tc_security_context ctx)) (tl_required_capabilities tool)" and
    a: "fst (approval_step env name tool params ctx w) = None" and r: "\<not> isl (restriction_step env ctx params)"
    by blast+
  from a obtain w' where a: "approval_step env name tool params ctx w = (None, w')" by (metis prod.collapse)
  from r obtain u where "restriction_step env ctx params = Inr u" by (cases "restriction_step env ctx params") auto
  from p c approval_None[OF a] restriction_Inr[OF this] show ?thesis by blast
qed

text \<open>The allow list is consulted for every tool that needs approval, not only for those that run
  commands: a call of any tool with an extra parameter \<open>command\<close> that reads \<open>pwd\<close> runs without anyone
  being asked.\<close>

theorem command_parameter_skips_approval:
  assumes "tools name = Some tool" "te_json env text = Some params" "te_words env ''pwd'' = Some [''pwd'']"
    and "cap_allows (te_os env) (sc_capabilities (tc_security_context ctx)) (tl_required_capabilities tool)"
    and "str_param ''command'' params = Some ''pwd''" "restriction_step env ctx params = Inr ()"
  shows "execute_tool env tools name text ctx w = run_tool env name tool params ctx w"
proof -
  have "is_safe_read_only_exec_command (te_words env) ''pwd''"
    by (simp add: is_safe_read_only_exec_command_def parse_command_line_def assms(3))
  then have "approval_step env name tool params ctx w = (None, w)"
    by (simp add: approval_step_def is_allowlisted_def assms(5))
  with assms show ?thesis by (simp add: execute_tool_def)
qed

text \<open>Exactly the tools of the profile that the configuration does not deny are registered.\<close>

theorem registry_exact:
  "registry_new bodies config name =
     (if name \<in> set (builtin_profile (tcf_profile config)) \<and> name \<notin> set (tcf_deny config)
      then create_builtin_tool bodies name else None)"
  using builtin_known[of name "tcf_profile config" bodies]
  by (auto simp: registry_new_def register_names_eq)

text \<open>Delegation is bounded: an agent reaches others only at depths one to three and never itself, so two
  invokers that agree there cannot be told apart.\<close>

theorem delegation_bounded:
  assumes "\<And>a m d w. a \<noteq> tc_agent_id ctx \<Longrightarrow> 1 \<le> d \<Longrightarrow> d \<le> 3 \<Longrightarrow>
       ai_invoke i a m (tc_session_id ctx) d w = ai_invoke j a m (tc_session_id ctx) d w \<and>
       ai_cancelled i 300 a m (tc_session_id ctx) d w = ai_cancelled j 300 a m (tc_session_id ctx) d w"
  shows "invoke_agent_execute sh params (ctx\<lparr>tc_agent_invoker := Some i\<rparr>) w =
       invoke_agent_execute sh params (ctx\<lparr>tc_agent_invoker := Some j\<rparr>) w \<and>
     agent_tool_execute sh agent params (ctx\<lparr>tc_agent_invoker := Some i\<rparr>) w =
       agent_tool_execute sh agent params (ctx\<lparr>tc_agent_invoker := Some j\<rparr>) w"
  using assms[of _ "tc_delegation_depth ctx + 1"]
  by (auto simp: invoke_agent_execute_def agent_tool_execute_def MAX_DELEGATION_DEPTH_def Let_def not_le
      split: option.splits)

subsection \<open>Witnesses\<close>

text \<open>The world counts the tools that ran.\<close>

definition sample_env :: tool_env where
  "sample_env = \<lparr>te_os = sample_fs, te_glob = sample_glob,
     te_words = (\<lambda>s. if s = ''pwd'' then Some [''pwd''] else Some []),
     te_json = (\<lambda>s. if s = ''1'' then Some (JObj [(''file_path'', JStr ''/ws/a''), (''command'', JStr ''pwd'')]) else Some (JObj [])),
     te_show = (\<lambda>_. [])\<rparr>"

definition sample_context :: "nat tool_context" where
  "sample_context = \<lparr>tc_session_id = ''s'', tc_agent_id = ''a'', tc_workspace_path = path_of ''/ws'',
     tc_security_context = \<lparr>sc_session_id = ''s'',
        sc_capabilities = {FilesystemRead (path_of ''/''), FilesystemWrite (path_of ''/'')}, sc_sandbox_enabled = True,
        sc_restrictions = default_restrictions\<rparr>,
     tc_command_allowlist = [], tc_approval_callback = None, tc_agent_invoker = None, tc_delegation_depth = 0,
     tc_blackboard = None, tc_swarm_id = None\<rparr>"

definition sample_tool :: "nat tool" where
  "sample_tool = \<lparr>tl_name = ''write'', tl_required_capabilities = {FilesystemWrite (path_of ''/ws'')},
     tl_requires_approval = True, tl_execute = (\<lambda>_ _ w. (Inr (TextResult ''done''), w + 1))\<rparr>"

lemma sample_runs:
  "execute_tool sample_env [''write'' \<mapsto> sample_tool] ''write'' ''1'' sample_context 0 =
     (Inr \<lparr>er_tool_name = ''write'', er_result = TextResult ''done'', er_success = True\<rparr>, 1)"
  by code_simp

theorem tool_body_gated_witness:
  "execute_tool sample_env [''write'' \<mapsto> sample_tool\<lparr>tl_execute := \<lambda>_ _ w. (Inr (TextResult ''other''), w)\<rparr>] ''write'' ''1'' sample_context 0
     \<noteq> execute_tool sample_env [''write'' \<mapsto> sample_tool] ''write'' ''1'' sample_context 0 \<and>
   (\<exists>params. te_json sample_env ''1'' = Some params \<and> is_allowlisted sample_env sample_context params)"
proof -
  have "fst (execute_tool sample_env [''write'' \<mapsto> sample_tool\<lparr>tl_execute := \<lambda>_ _ w. (Inr (TextResult ''other''), w)\<rparr>] ''write'' ''1'' sample_context 0)
     = Inr \<lparr>er_tool_name = ''write'', er_result = TextResult ''other'', er_success = True\<rparr>" by code_simp
  moreover have "fst (execute_tool sample_env [''write'' \<mapsto> sample_tool] ''write'' ''1'' sample_context 0)
     = Inr \<lparr>er_tool_name = ''write'', er_result = TextResult ''done'', er_success = True\<rparr>" by (simp add: sample_runs)
  moreover have "(''other'' :: string) \<noteq> ''done''" by simp
  ultimately have d: "execute_tool sample_env [''write'' \<mapsto> sample_tool\<lparr>tl_execute := \<lambda>_ _ w. (Inr (TextResult ''other''), w)\<rparr>] ''write'' ''1'' sample_context 0
     \<noteq> execute_tool sample_env [''write'' \<mapsto> sample_tool] ''write'' ''1'' sample_context 0"
    by (metis tool_result.inject(1) execution_result.ext_inject sum.inject(2))
  have "[''write'' \<mapsto> sample_tool] ''write'' = Some sample_tool" by simp
  from tool_body_gated[where tools = "[''write'' \<mapsto> sample_tool]" and name = "''write''" and tool = sample_tool
      and b = "\<lambda>_ _ w. (Inr (TextResult ''other''), w)", OF this] d
  have "\<exists>params. te_json sample_env ''1'' = Some params \<and>
      (tl_requires_approval sample_tool \<longrightarrow> is_allowlisted sample_env sample_context params \<or>
        (\<exists>cb. tc_approval_callback sample_context = Some cb \<and>
           fst (cb ''write'' (tc_agent_id sample_context) params 0) = Approved))"
    by (simp only: fun_upd_upd) blast
  with d show ?thesis by (auto simp: sample_tool_def sample_context_def)
qed

theorem command_parameter_skips_approval_witness:
  "tl_requires_approval sample_tool \<and> tc_approval_callback sample_context = None \<and>
   fst (execute_tool sample_env [''write'' \<mapsto> sample_tool] ''write'' ''1'' sample_context 0) =
     Inr \<lparr>er_tool_name = ''write'', er_result = TextResult ''done'', er_success = True\<rparr>"
proof -
  let ?params = "JObj [(''file_path'', JStr ''/ws/a''), (''command'', JStr ''pwd'')]"
  have "restriction_step sample_env sample_context ?params = Inr ()" by code_simp
  moreover have "cap_allows (te_os sample_env) (sc_capabilities (tc_security_context sample_context))
      (tl_required_capabilities sample_tool)" by code_simp
  ultimately have "execute_tool sample_env [''write'' \<mapsto> sample_tool] ''write'' ''1'' sample_context 0 =
      run_tool sample_env ''write'' sample_tool ?params sample_context 0"
    by (intro command_parameter_skips_approval)
      (simp_all add: sample_env_def str_param_def json_get_def as_str_def)
  then show ?thesis by (simp add: run_tool_def sample_tool_def sample_context_def)
qed

definition sample_delegation :: json where
  "sample_delegation = JObj [(''agent_id'', JStr ''b''), (''message'', JStr ''hi'')]"

definition sample_invoker :: "nat agent_invoker" where
  "sample_invoker = \<lparr>ai_invoke = \<lambda>a m s d w. (Inr m, w + d), ai_cancelled = \<lambda>_ _ _ _ _ _. None\<rparr>"

definition sample_shallow_invoker :: "nat agent_invoker" where
  "sample_shallow_invoker =
     \<lparr>ai_invoke = \<lambda>a m s d w. (Inr (if d \<le> 3 then m else []), w + d), ai_cancelled = \<lambda>_ _ _ _ _ _. None\<rparr>"

theorem delegation_bounded_witness:
  "invoke_agent_execute (\<lambda>_. ''error'') sample_delegation (sample_context\<lparr>tc_agent_invoker := Some sample_invoker\<rparr>) 0 =
   invoke_agent_execute (\<lambda>_. ''error'') sample_delegation (sample_context\<lparr>tc_agent_invoker := Some sample_shallow_invoker\<rparr>) 0 \<and>
   invoke_agent_execute (\<lambda>_. ''error'') sample_delegation (sample_context\<lparr>tc_agent_invoker := Some sample_invoker\<rparr>) 0 =
     (Inr (TextResult ''hi''), 1)"
proof
  show "invoke_agent_execute (\<lambda>_. ''error'') sample_delegation (sample_context\<lparr>tc_agent_invoker := Some sample_invoker\<rparr>) 0 =
   invoke_agent_execute (\<lambda>_. ''error'') sample_delegation (sample_context\<lparr>tc_agent_invoker := Some sample_shallow_invoker\<rparr>) 0"
    by (rule delegation_bounded[THEN conjunct1]) (simp add: sample_invoker_def sample_shallow_invoker_def)
  show "invoke_agent_execute (\<lambda>_. ''error'') sample_delegation (sample_context\<lparr>tc_agent_invoker := Some sample_invoker\<rparr>) 0 =
     (Inr (TextResult ''hi''), 1)" by code_simp
qed

end
