(* ===== verification/Workflow.thy ===== *)
theory Workflow
  imports RustStr "HOL-Library.Multiset"
begin

text \<open>
  Workflow execution over agents (\<open>rockbot-agent/src/orchestration.rs\<close>): validation with its cycle check,
  the layered execution as a step relation over the tasks of a layer, and the blackboard of a swarm.
  Agents answer as they like; lower-casing and regular expressions are parameters.
\<close>

datatype edge_condition = Always | Contains string | Pattern string

record wf_node =
  nd_id :: string
  nd_agent_id :: string
  nd_template :: "string option"

record wf_edge =
  ed_from :: string
  ed_to :: string
  ed_condition :: edge_condition

record wf_definition =
  wf_nodes :: "wf_node list"
  wf_edges :: "wf_edge list"
  wf_entry_nodes :: "string list"
  wf_exit_nodes :: "string list"

record text_env =
  tx_lower :: "string \<Rightarrow> string"
  tx_regex :: "string \<Rightarrow> (string \<Rightarrow> bool) option"

datatype wf_error = NoNodes | NoEntryNodes | EntryNotFound string | ExitNotFound string
  | EdgeSourceNotFound string | EdgeTargetNotFound string | HasCycle | NodeNotFound string | NoOutput

subsection \<open>Blackboard\<close>

type_synonym 'j blackboard = "string \<rightharpoonup> string \<rightharpoonup> 'j"

definition sb_read :: "string \<Rightarrow> string \<Rightarrow> 'j blackboard \<Rightarrow> 'j option" where
  "sb_read swarm key b = Option.bind (b swarm) (\<lambda>entries. entries key)"

definition sb_write :: "string \<Rightarrow> string \<Rightarrow> 'j \<Rightarrow> 'j blackboard \<Rightarrow> 'j blackboard" where
  "sb_write swarm key v b = b(swarm \<mapsto> (case b swarm of Some m \<Rightarrow> m | None \<Rightarrow> Map.empty)(key \<mapsto> v))"

definition sb_read_all :: "string \<Rightarrow> 'j blackboard \<Rightarrow> string \<rightharpoonup> 'j" where
  "sb_read_all swarm b = (case b swarm of Some m \<Rightarrow> m | None \<Rightarrow> Map.empty)"

subsection \<open>Validation\<close>

definition node_ids :: "wf_definition \<Rightarrow> string list" where
  "node_ids wfd = map nd_id (wf_nodes wfd)"

text \<open>One popped node: every edge out of it lowers the degree of its target, which is queued at zero.\<close>

definition kahn_edge :: "string \<Rightarrow> wf_edge \<Rightarrow> string list \<times> (string \<rightharpoonup> nat) \<Rightarrow> string list \<times> (string \<rightharpoonup> nat)" where
  "kahn_edge n e = (\<lambda>(queue, deg).
     if ed_from e = n then
       (case deg (ed_to e) of
          Some d \<Rightarrow> (if d - 1 = 0 then queue @ [ed_to e] else queue, deg(ed_to e \<mapsto> d - 1))
        | None \<Rightarrow> (queue, deg))
     else (queue, deg))"

partial_function (option) kahn :: "wf_edge list \<Rightarrow> string list \<Rightarrow> (string \<rightharpoonup> nat) \<Rightarrow> nat \<Rightarrow> nat option" where
  "kahn es queue deg visited =
     (if queue = [] then Some visited
      else (case fold (kahn_edge (last queue)) es (butlast queue, deg) of
          (queue', deg') \<Rightarrow> kahn es queue' deg' (visited + 1)))"

definition in_degree :: "wf_definition \<Rightarrow> string \<rightharpoonup> nat" where
  "in_degree wfd =
     fold (\<lambda>e deg. deg(ed_to e \<mapsto> (case deg (ed_to e) of Some d \<Rightarrow> d | None \<Rightarrow> 0) + 1)) (wf_edges wfd)
       (fold (\<lambda>n deg. deg(nd_id n \<mapsto> 0)) (wf_nodes wfd) Map.empty)"

text \<open>The order in which the hash map of degrees is traversed is an argument.\<close>

definition validate :: "string list \<Rightarrow> wf_definition \<Rightarrow> (wf_error + unit) option" where
  "validate order wfd =
     (if wf_nodes wfd = [] then Some (Inl NoNodes)
      else if wf_entry_nodes wfd = [] then Some (Inl NoEntryNodes)
      else (case List.find (\<lambda>i. i \<notin> set (node_ids wfd)) (wf_entry_nodes wfd) of Some i \<Rightarrow> Some (Inl (EntryNotFound i)) | None \<Rightarrow>
        (case List.find (\<lambda>i. i \<notin> set (node_ids wfd)) (wf_exit_nodes wfd) of Some i \<Rightarrow> Some (Inl (ExitNotFound i)) | None \<Rightarrow>
        (case List.find (\<lambda>e. ed_from e \<notin> set (node_ids wfd) \<or> ed_to e \<notin> set (node_ids wfd)) (wf_edges wfd) of
           Some e \<Rightarrow> Some (Inl (if ed_from e \<notin> set (node_ids wfd) then EdgeSourceNotFound (ed_from e) else EdgeTargetNotFound (ed_to e)))
         | None \<Rightarrow>
        map_option (\<lambda>visited. if visited \<noteq> length (wf_nodes wfd) then Inl HasCycle else Inr ())
          (kahn (wf_edges wfd) (filter (\<lambda>i. in_degree wfd i = Some 0) order) (in_degree wfd) 0)))))"

subsection \<open>Messages and conditions\<close>

function expand_outputs :: "(string \<rightharpoonup> string) \<Rightarrow> string \<Rightarrow> string" where
  "expand_outputs outputs s =
     (case find_sub ''{output:'' s of
        None \<Rightarrow> s
      | Some i \<Rightarrow>
          let after = drop (i + 8) s in
          take i s @
          (case find_sub ''}'' after of
             Some k \<Rightarrow> (case outputs (take k after) of Some out \<Rightarrow> out | None \<Rightarrow> ''[no output]'') @
                expand_outputs outputs (drop (k + 1) after)
           | None \<Rightarrow> ''{output:'' @ expand_outputs outputs after))"
  by pat_completeness auto
termination
  by (relation "measure (\<lambda>(outputs, s). length s)") (auto dest!: find_sub_Some)

declare expand_outputs.simps [simp del]

definition build_node_message :: "wf_node \<Rightarrow> string \<Rightarrow> (string \<rightharpoonup> string) \<Rightarrow> string" where
  "build_node_message n input outputs = (case nd_template n of
     Some template \<Rightarrow> expand_outputs outputs (replace_all ''{input}'' input template)
   | None \<Rightarrow> input)"

definition check_condition :: "text_env \<Rightarrow> edge_condition \<Rightarrow> string \<Rightarrow> bool" where
  "check_condition env c output = (case c of
     Always \<Rightarrow> True
   | Contains keyword \<Rightarrow> sublist (tx_lower env keyword) (tx_lower env output)
   | Pattern r \<Rightarrow> (case tx_regex env r of Some m \<Rightarrow> m output | None \<Rightarrow> False))"

subsection \<open>Execution\<close>

text \<open>
  The tasks of a layer run side by side: a task is waiting, or has read the outputs and is invoking its
  agent with the message it built. A task that ends is collected: its output is stored and its node is
  completed; a task that panicked is collected without either.
\<close>

record wf_state =
  ws_waiting :: "wf_node list"
  ws_running :: "(wf_node \<times> string) list"
  ws_outputs :: "string \<rightharpoonup> string"
  ws_completed :: "string set"

definition incoming :: "wf_definition \<Rightarrow> string \<Rightarrow> wf_edge list" where
  "incoming wfd i = filter (\<lambda>e. ed_to e = i) (wf_edges wfd)"

definition next_ready :: "text_env \<Rightarrow> wf_definition \<Rightarrow> wf_state \<Rightarrow> string list" where
  "next_ready env wfd s = map nd_id (filter (\<lambda>n.
     nd_id n \<notin> ws_completed s \<and> incoming wfd (nd_id n) \<noteq> [] \<and>
     list_all (\<lambda>e. ed_from e \<in> ws_completed s) (incoming wfd (nd_id n)) \<and>
     list_ex (\<lambda>e. check_condition env (ed_condition e)
        (case ws_outputs s (ed_from e) of Some out \<Rightarrow> out | None \<Rightarrow> [])) (incoming wfd (nd_id n))) (wf_nodes wfd))"

definition find_node :: "wf_definition \<Rightarrow> string \<Rightarrow> wf_error + wf_node" where
  "find_node wfd i = ok_or (NodeNotFound i) (List.find (\<lambda>n. nd_id n = i) (wf_nodes wfd))"

definition spawn_layer :: "wf_definition \<Rightarrow> string list \<Rightarrow> wf_state \<Rightarrow> wf_error + wf_state" where
  "spawn_layer wfd ready s = sbind (collect (find_node wfd) ready) (\<lambda>ns. Inr (s\<lparr>ws_waiting := ns\<rparr>))"

definition wf_start :: "wf_definition \<Rightarrow> wf_error + wf_state" where
  "wf_start wfd = spawn_layer wfd (wf_entry_nodes wfd)
     \<lparr>ws_waiting = [], ws_running = [], ws_outputs = Map.empty, ws_completed = {}\<rparr>"

datatype wf_label = Invoke string string | Collected string | Lost string | Layer

definition collect_output :: "string \<Rightarrow> string \<Rightarrow> wf_state \<Rightarrow> wf_state" where
  "collect_output i out s = s\<lparr>ws_outputs := (ws_outputs s)(i \<mapsto> out), ws_completed := insert i (ws_completed s)\<rparr>"

inductive wf_step :: "text_env \<Rightarrow> wf_definition \<Rightarrow> string \<Rightarrow> wf_state \<Rightarrow> wf_label \<Rightarrow> wf_state \<Rightarrow> bool"
  for env wfd input where
  begin_task: "n \<in> set (ws_waiting s) \<Longrightarrow>
    wf_step env wfd input s (Invoke (nd_id n) (build_node_message n input (ws_outputs s)))
      (s\<lparr>ws_waiting := remove1 n (ws_waiting s),
        ws_running := (n, build_node_message n input (ws_outputs s)) # ws_running s\<rparr>)"
| end_task: "(n, msg) \<in> set (ws_running s) \<Longrightarrow> (case answer of Inr out \<Rightarrow> out | Inl e \<Rightarrow> ''[ERROR: '' @ e @ '']'') = out \<Longrightarrow>
    wf_step env wfd input s (Collected (nd_id n))
      (collect_output (nd_id n) out (s\<lparr>ws_running := remove1 (n, msg) (ws_running s)\<rparr>))"
| lose_task: "(n, msg) \<in> set (ws_running s) \<Longrightarrow>
    wf_step env wfd input s (Lost (nd_id n)) (s\<lparr>ws_running := remove1 (n, msg) (ws_running s)\<rparr>)"
| next_layer: "ws_waiting s = [] \<Longrightarrow> ws_running s = [] \<Longrightarrow> next_ready env wfd s \<noteq> [] \<Longrightarrow>
    spawn_layer wfd (next_ready env wfd s) s = Inr s' \<Longrightarrow> wf_step env wfd input s Layer s'"

definition wf_finished :: "text_env \<Rightarrow> wf_definition \<Rightarrow> wf_state \<Rightarrow> bool" where
  "wf_finished env wfd s \<longleftrightarrow> ws_waiting s = [] \<and> ws_running s = [] \<and> next_ready env wfd s = []"

definition wf_result :: "wf_definition \<Rightarrow> wf_state \<Rightarrow> wf_error + string" where
  "wf_result wfd s =
     (let exits = (if wf_exit_nodes wfd = [] then
            map nd_id (filter (\<lambda>n. filter (\<lambda>e. ed_from e = nd_id n) (wf_edges wfd) = []) (wf_nodes wfd))
          else wf_exit_nodes wfd);
        outs = List.map_filter (ws_outputs s) exits in
      if outs = [] then Inl NoOutput
      else Inr (join_with ([CHR 0x0A, CHR 0x0A] @ ''---'' @ [CHR 0x0A, CHR 0x0A]) outs))"

subsection \<open>The cycle check\<close>

definition edge_rel :: "wf_edge list \<Rightarrow> (string \<times> string) set" where
  "edge_rel es = (\<lambda>e. (ed_from e, ed_to e)) ` set es"

text \<open>Edges into a node from outside a set, and edges from one node to another.\<close>

definition open_edges :: "wf_edge list \<Rightarrow> string set \<Rightarrow> string \<Rightarrow> nat" where
  "open_edges es S v = length (filter (\<lambda>e. ed_to e = v \<and> ed_from e \<notin> S) es)"

definition edges_between :: "wf_edge list \<Rightarrow> string \<Rightarrow> string \<Rightarrow> nat" where
  "edges_between es n v = length (filter (\<lambda>e. ed_from e = n \<and> ed_to e = v) es)"

lemma open_insert: "n \<notin> S \<Longrightarrow> open_edges es S v = open_edges es (insert n S) v + edges_between es n v"
  by (induction es) (auto simp: open_edges_def edges_between_def)

lemma open_zero: "open_edges es S v = 0 \<longleftrightarrow> (\<forall>u. (u, v) \<in> edge_rel es \<longrightarrow> u \<in> S)"
  by (auto simp: open_edges_def edge_rel_def filter_empty_conv)

lemma kahn_fold:
  assumes "\<forall>e \<in> set es. ed_to e \<in> V" "\<forall>v \<in> V. deg v = Some (d v)" "dom deg = V"
    and "\<forall>v. edges_between es n v \<le> d v" "\<forall>v \<in> set q. d v = 0" "distinct q"
  shows "\<exists>q' deg'. fold (kahn_edge n) es (q, deg) = (q', deg') \<and> distinct q' \<and>
     set q' = set q \<union> {v. 0 < edges_between es n v \<and> d v = edges_between es n v} \<and>
     (\<forall>v \<in> V. deg' v = Some (d v - edges_between es n v)) \<and> dom deg' = V"
  using assms
proof (induction es arbitrary: q deg d)
  case (Cons e es)
  let ?v = "ed_to e"
  show ?case
  proof (cases "ed_from e = n")
    case False
    then have "edges_between (e # es) n = edges_between es n" by (simp add: edges_between_def fun_eq_iff)
    with Cons.IH[of deg d q] Cons.prems False show ?thesis by (simp add: kahn_edge_def)
  next
    case True
    then have b: "edges_between (e # es) n v = edges_between es n v + (if v = ?v then 1 else 0)" for v
      by (simp add: edges_between_def)
    define d' where "d' = d(?v := d ?v - 1)"
    have dv: "1 \<le> d ?v" "deg ?v = Some (d ?v)" "?v \<in> V" "?v \<notin> set q"
      using Cons.prems(4)[rule_format, of ?v] Cons.prems(1,2,5) b[of ?v] by auto
    let ?q = "if d ?v - 1 = 0 then q @ [?v] else q" and ?deg = "deg(?v \<mapsto> d ?v - 1)"
    have "kahn_edge n e (q, deg) = (?q, ?deg)" using True dv by (simp add: kahn_edge_def)
    moreover have "\<exists>q' deg'. fold (kahn_edge n) es (?q, ?deg) = (q', deg') \<and> distinct q' \<and>
       set q' = set ?q \<union> {v. 0 < edges_between es n v \<and> d' v = edges_between es n v} \<and>
       (\<forall>v \<in> V. deg' v = Some (d' v - edges_between es n v)) \<and> dom deg' = V"
    proof (rule Cons.IH)
      show "\<forall>v. edges_between es n v \<le> d' v"
      proof
        fix v show "edges_between es n v \<le> d' v"
          using Cons.prems(4)[rule_format, of v] b[of v] by (simp add: d'_def split: if_splits)
      qed
      show "dom ?deg = V" using Cons.prems(3) dv(3) by (simp add: insert_absorb)
    qed (use Cons.prems dv in \<open>auto simp: d'_def\<close>)
    moreover have "set ?q \<union> {v. 0 < edges_between es n v \<and> d' v = edges_between es n v} =
        set q \<union> {v. 0 < edges_between (e # es) n v \<and> d v = edges_between (e # es) n v}"
      using dv Cons.prems(4)[rule_format, of ?v] b by (auto simp: d'_def split: if_splits)
    moreover have "d' v - edges_between es n v = d v - edges_between (e # es) n v" for v
      using b[of v] by (simp add: d'_def)
    ultimately show ?thesis by simp
  qed
qed (simp add: edges_between_def)

definition kahn_inv :: "wf_edge list \<Rightarrow> string set \<Rightarrow> string set \<Rightarrow> string list \<Rightarrow> (string \<rightharpoonup> nat) \<Rightarrow> bool" where
  "kahn_inv es V S q deg \<longleftrightarrow> finite V \<and> (\<forall>e \<in> set es. ed_from e \<in> V \<and> ed_to e \<in> V) \<and> dom deg = V \<and>
     (\<forall>v \<in> V. deg v = Some (open_edges es S v)) \<and> distinct q \<and> S \<inter> set q = {} \<and>
     S \<union> set q = {v \<in> V. open_edges es S v = 0} \<and> acyclic {r \<in> edge_rel es. snd r \<in> S}"

lemma acyclic_sink:
  assumes "acyclic r" "n \<notin> Domain (r \<union> A)" "\<forall>p \<in> A. snd p = n"
  shows "acyclic (r \<union> A)"
proof -
  have "(x, y) \<in> r\<^sup>+ \<or> y = n" if "(x, y) \<in> (r \<union> A)\<^sup>+" for x y
    using that
  proof (induction rule: trancl_induct)
    case (step y z)
    with assms(2) have "y \<noteq> n" by blast
    with step assms(3) show ?case by (auto intro: trancl_into_trancl)
  qed (use assms(3) in auto)
  moreover have "(n, n) \<notin> (r \<union> A)\<^sup>+" using assms(2) by (auto dest: tranclD)
  ultimately show ?thesis using assms(1) by (auto simp: acyclic_def)
qed

lemma kahn_pop:
  assumes "kahn_inv es V S q deg" "q \<noteq> []"
  shows "\<exists>q' deg'. fold (kahn_edge (last q)) es (butlast q, deg) = (q', deg') \<and>
     kahn_inv es V (insert (last q) S) q' deg' \<and> last q \<notin> S \<and> last q \<in> V"
proof -
  let ?n = "last q" and ?q = "butlast q"
  have q: "q = ?q @ [?n]" using assms(2) by simp
  from assms(1) have inv: "finite V" "\<forall>e \<in> set es. ed_from e \<in> V \<and> ed_to e \<in> V" "dom deg = V"
    "\<forall>v \<in> V. deg v = Some (open_edges es S v)" "distinct q" "S \<inter> set q = {}"
    "S \<union> set q = {v \<in> V. open_edges es S v = 0}" "acyclic {r \<in> edge_rel es. snd r \<in> S}"
    by (auto simp: kahn_inv_def)
  have "?n \<in> set q" using assms(2) by simp
  then have "?n \<notin> S" "?n \<in> {v \<in> V. open_edges es S v = 0}" using inv(6,7) by auto
  moreover have "distinct (?q @ [?n])" using inv(5) q by simp
  moreover have "set q = insert ?n (set ?q)" by (subst q) simp
  ultimately have n: "?n \<notin> S" "?n \<in> V" "open_edges es S ?n = 0" "?n \<notin> set ?q" "set q = insert ?n (set ?q)" by auto
  note split = open_insert[OF n(1), of es]
  have "\<exists>q' deg'. fold (kahn_edge ?n) es (?q, deg) = (q', deg') \<and> distinct q' \<and>
     set q' = set ?q \<union> {v. 0 < edges_between es ?n v \<and> open_edges es S v = edges_between es ?n v} \<and>
     (\<forall>v \<in> V. deg' v = Some (open_edges es S v - edges_between es ?n v)) \<and> dom deg' = V"
    using inv split by (intro kahn_fold) (auto simp: distinct_butlast dest: in_set_butlastD)
  then obtain q' deg' where f: "fold (kahn_edge ?n) es (?q, deg) = (q', deg')" "distinct q'"
    "set q' = set ?q \<union> {v. 0 < edges_between es ?n v \<and> open_edges es S v = edges_between es ?n v}"
    "\<forall>v \<in> V. deg' v = Some (open_edges es S v - edges_between es ?n v)" "dom deg' = V" by blast
  have "open_edges es S v = 0" if "v \<in> S \<union> set q" for v using that inv(7) by auto
  then have disj: "insert ?n S \<inter> set q' = {}" using f(3) inv(6) n by force
  have "v \<in> V" if "0 < edges_between es ?n v" for v
    using that inv(2) by (auto simp: edges_between_def filter_empty_conv)
  then have zero: "insert ?n S \<union> set q' = {v \<in> V. open_edges es (insert ?n S) v = 0}"
    using f(3) inv(7) n split by (auto simp: set_eq_iff)
  have "{r \<in> edge_rel es. snd r \<in> insert ?n S} = {r \<in> edge_rel es. snd r \<in> S} \<union> {r \<in> edge_rel es. snd r = ?n}"
    by auto
  moreover have "acyclic ({r \<in> edge_rel es. snd r \<in> S} \<union> {r \<in> edge_rel es. snd r = ?n})"
  proof (rule acyclic_sink[OF inv(8)])
    have "u \<in> S" if "v \<in> insert ?n S" "(u, v) \<in> edge_rel es" for u v
    proof -
      have "open_edges es S v = 0" using that(1) inv(7) n(3) by auto
      with that(2) show ?thesis by (simp add: open_zero)
    qed
    then show "?n \<notin> Domain ({r \<in> edge_rel es. snd r \<in> S} \<union> {r \<in> edge_rel es. snd r = ?n})"
      using n(1) by auto blast+
  qed auto
  ultimately show ?thesis
    using inv f split disj zero n unfolding kahn_inv_def by (intro exI[of _ q'] exI[of _ deg']) auto
qed

theorem kahn_complete:
  assumes "kahn_inv es V S q deg"
  shows "\<exists>S' deg'. kahn es q deg k = Some (k + card S' - card S) \<and> card S \<le> card S' \<and> kahn_inv es V S' [] deg'"
  using assms
proof (induction "card (V - S)" arbitrary: S q deg k rule: less_induct)
  case less
  show ?case
  proof (cases "q = []")
    case True
    with less.prems show ?thesis by (intro exI[of _ S] exI[of _ deg]) (simp add: kahn.simps)
  next
    case False
    from kahn_pop[OF less.prems False] obtain q' deg' where
      f: "fold (kahn_edge (last q)) es (butlast q, deg) = (q', deg')" and
      inv: "kahn_inv es V (insert (last q) S) q' deg'" and n: "last q \<notin> S" "last q \<in> V" by blast
    have "finite V" "S \<subseteq> V" using less.prems by (auto simp: kahn_inv_def)
    then have fin: "finite V" "finite S" using finite_subset by auto
    have "card (V - insert (last q) S) < card (V - S)"
      using n fin by (intro psubset_card_mono) auto
    from less.hyps[OF this inv, of "k + 1"] obtain S' deg'' where s: "kahn es q' deg' (k + 1) =
        Some (k + 1 + card S' - card (insert (last q) S))" "card (insert (last q) S) \<le> card S'" "kahn_inv es V S' [] deg''" by blast
    have "kahn es q deg k = kahn es q' deg' (k + 1)" using False f by (subst kahn.simps) simp
    with s n fin show ?thesis by (intro exI[of _ S'] exI[of _ deg'']) simp
  qed
qed

lemma degree_init: "fold (\<lambda>n deg. deg(nd_id n \<mapsto> 0)) ns m i = (if i \<in> nd_id ` set ns then Some 0 else m i)"
  for m :: "string \<rightharpoonup> nat"
  by (induction ns arbitrary: m) auto

lemma degree_count:
  "fold (\<lambda>e deg. deg(ed_to e \<mapsto> (case deg (ed_to e) of Some d \<Rightarrow> d | None \<Rightarrow> 0) + 1)) es m i =
     (if i \<in> ed_to ` set es then Some ((case m i of Some d \<Rightarrow> d | None \<Rightarrow> 0) + length (filter (\<lambda>e. ed_to e = i) es)) else m i)"
  for m :: "string \<rightharpoonup> nat"
  by (induction es arbitrary: m) (auto split: option.splits simp: filter_empty_conv image_iff)

lemma in_degree_eq:
  assumes "\<forall>e \<in> set (wf_edges wfd). ed_to e \<in> set (node_ids wfd)"
  shows "in_degree wfd i = (if i \<in> set (node_ids wfd) then Some (open_edges (wf_edges wfd) {} i) else None)"
proof -
  have "in_degree wfd i = (if i \<in> ed_to ` set (wf_edges wfd)
      then Some ((case if i \<in> nd_id ` set (wf_nodes wfd) then Some 0 else None of Some d \<Rightarrow> d | None \<Rightarrow> 0) +
        length (filter (\<lambda>e. ed_to e = i) (wf_edges wfd)))
      else if i \<in> nd_id ` set (wf_nodes wfd) then Some 0 else None)"
    unfolding in_degree_def degree_count degree_init by simp
  then show ?thesis
    using assms by (auto simp: open_edges_def node_ids_def filter_empty_conv image_iff)
qed

text \<open>At the end every node was visited exactly when there is no cycle.\<close>

lemma visited_all:
  assumes "kahn_inv es V S [] deg"
  shows "S = V \<longleftrightarrow> acyclic (edge_rel es)"
proof
  have V: "finite V" "\<forall>e \<in> set es. ed_from e \<in> V \<and> ed_to e \<in> V" "S = {v \<in> V. open_edges es S v = 0}"
    "acyclic {r \<in> edge_rel es. snd r \<in> S}" using assms by (auto simp: kahn_inv_def)
  {
    assume "S = V"
    then have "{r \<in> edge_rel es. snd r \<in> S} = edge_rel es" using V(2) by (auto simp: edge_rel_def)
    with V(4) show "acyclic (edge_rel es)" by simp
  next
    assume "acyclic (edge_rel es)"
    then have "wf (edge_rel es)" by (intro finite_acyclic_wf) (simp_all add: edge_rel_def)
    show "S = V"
    proof (rule ccontr)
      assume "S \<noteq> V"
      then have "V - S \<noteq> {}" using V(3) by blast
      then obtain v where v: "v \<in> V - S" "\<And>u. (u, v) \<in> edge_rel es \<Longrightarrow> u \<notin> V - S"
        using wfE_min[OF \<open>wf (edge_rel es)\<close>] by (metis ex_in_conv)
      have "u \<in> S" if "(u, v) \<in> edge_rel es" for u
        using v(2)[OF that] V(2) that by (auto simp: edge_rel_def)
      then have "open_edges es S v = 0" by (simp add: open_zero)
      with v(1) V(3) show False by blast
    qed
  }
qed

subsection \<open>Runs\<close>

definition wf_valid :: "wf_definition \<Rightarrow> bool" where
  "wf_valid wfd \<longleftrightarrow> wf_nodes wfd \<noteq> [] \<and> wf_entry_nodes wfd \<noteq> [] \<and> distinct (node_ids wfd) \<and>
     set (wf_entry_nodes wfd) \<subseteq> set (node_ids wfd) \<and> set (wf_exit_nodes wfd) \<subseteq> set (node_ids wfd) \<and>
     (\<forall>e \<in> set (wf_edges wfd). ed_from e \<in> set (node_ids wfd) \<and> ed_to e \<in> set (node_ids wfd)) \<and>
     acyclic (edge_rel (wf_edges wfd))"

inductive wf_run :: "text_env \<Rightarrow> wf_definition \<Rightarrow> string \<Rightarrow> wf_state \<Rightarrow> wf_label list \<Rightarrow> wf_state \<Rightarrow> bool"
  for env wfd input s0 where
  run_nil: "wf_run env wfd input s0 [] s0"
| run_step: "wf_run env wfd input s0 ls s \<Longrightarrow> wf_step env wfd input s l s' \<Longrightarrow> wf_run env wfd input s0 (ls @ [l]) s'"

definition invoked :: "wf_label list \<Rightarrow> string list" where
  "invoked ls = List.map_filter (\<lambda>l. case l of Invoke i _ \<Rightarrow> Some i | _ \<Rightarrow> None) ls"

definition no_loss :: "wf_label list \<Rightarrow> bool" where
  "no_loss ls \<longleftrightarrow> list_all (\<lambda>l. case l of Lost _ \<Rightarrow> False | _ \<Rightarrow> True) ls"

definition layers :: "wf_label list \<Rightarrow> nat" where
  "layers ls = length (filter (\<lambda>l. l = Layer) ls)"

lemma invoked_simps [simp]:
  "invoked [] = []" "invoked (ls @ [Invoke i m]) = invoked ls @ [i]" "invoked (ls @ [Collected i]) = invoked ls"
  "invoked (ls @ [Layer]) = invoked ls"
  by (simp_all add: invoked_def map_filter_def)

lemma labels_length:
  "no_loss ls \<Longrightarrow> length ls = length (invoked ls) + length (filter (\<lambda>l. \<exists>i. l = Collected i) ls) + layers ls"
  by (induction ls) (auto simp: no_loss_def invoked_def layers_def map_filter_simps split: wf_label.splits)

lemma find_node_Inr: "find_node wfd i = Inr n \<Longrightarrow> n \<in> set (wf_nodes wfd) \<and> nd_id n = i"
  by (auto simp: find_node_def ok_or_Inr_iff dest: find_Some_mem)

lemma find_node_ok: "i \<in> set (node_ids wfd) \<Longrightarrow> \<exists>n. find_node wfd i = Inr n"
  by (cases "List.find (\<lambda>n. nd_id n = i) (wf_nodes wfd)") (auto simp: find_node_def node_ids_def find_None_all)

lemma spawn_layer_Inr:
  assumes "spawn_layer wfd ready s = Inr s'"
  shows "map nd_id (ws_waiting s') = ready" "ws_running s' = ws_running s" "ws_outputs s' = ws_outputs s"
    "ws_completed s' = ws_completed s"
proof -
  from assms obtain ns where ns: "list_all2 (\<lambda>i n. find_node wfd i = Inr n) ready ns" "s' = s\<lparr>ws_waiting := ns\<rparr>"
    by (auto simp: spawn_layer_def sbind_Inr_iff collect_Inr_iff)
  from ns(1) have "map nd_id ns = ready"
    by (induction rule: list_all2_induct) (auto dest: find_node_Inr)
  with ns(2) show "map nd_id (ws_waiting s') = ready" "ws_running s' = ws_running s" "ws_outputs s' = ws_outputs s"
    "ws_completed s' = ws_completed s" by auto
qed

lemma spawn_layer_ok:
  assumes "set ready \<subseteq> set (node_ids wfd)"
  shows "\<exists>s'. spawn_layer wfd ready s = Inr s'"
proof -
  have "\<exists>ns. collect (find_node wfd) ready = Inr ns"
    using assms by (induction ready) (auto dest!: find_node_ok)
  then show ?thesis by (auto simp: spawn_layer_def)
qed

lemma next_ready_facts:
  assumes "i \<in> set (next_ready env wfd s)"
  shows "i \<in> set (node_ids wfd)" "i \<notin> ws_completed s" "(u, i) \<in> edge_rel (wf_edges wfd) \<Longrightarrow> u \<in> ws_completed s"
  using assms by (auto simp: next_ready_def node_ids_def edge_rel_def incoming_def list_all_iff)

lemma next_readyI:
  assumes "i \<in> set (node_ids wfd)" "i \<notin> ws_completed s" "e \<in> set (incoming wfd i)" "ed_condition e = Always"
    and "\<And>e. e \<in> set (incoming wfd i) \<Longrightarrow> ed_from e \<in> ws_completed s"
  shows "i \<in> set (next_ready env wfd s)"
proof -
  from assms(1) obtain n where n: "n \<in> set (wf_nodes wfd)" "i = nd_id n" by (auto simp: node_ids_def)
  have "list_ex (\<lambda>e. check_condition env (ed_condition e)
        (case ws_outputs s (ed_from e) of Some out \<Rightarrow> out | None \<Rightarrow> [])) (incoming wfd i)"
    unfolding list_ex_iff using assms(3,4) by (intro bexI[of _ e]) (simp_all add: check_condition_def)
  moreover have "list_all (\<lambda>e. ed_from e \<in> ws_completed s) (incoming wfd i)" using assms(5) by (simp add: list_all_iff)
  moreover have "incoming wfd i \<noteq> []" using assms(3) by auto
  ultimately show ?thesis using n assms(2) unfolding next_ready_def set_map set_filter by blast
qed

lemma next_ready_distinct: "distinct (node_ids wfd) \<Longrightarrow> distinct (next_ready env wfd s)"
  by (simp add: next_ready_def node_ids_def distinct_map_filter)

text \<open>What holds in every state of a run without lost tasks.\<close>

definition run_inv :: "wf_definition \<Rightarrow> wf_label list \<Rightarrow> wf_state \<Rightarrow> bool" where
  "run_inv wfd ls s \<longleftrightarrow>
     distinct (invoked ls @ map nd_id (ws_waiting s)) \<and>
     set (invoked ls @ map nd_id (ws_waiting s)) \<subseteq> set (node_ids wfd) \<and>
     set (wf_entry_nodes wfd) \<subseteq> set (invoked ls @ map nd_id (ws_waiting s)) \<and>
     mset (invoked ls) = mset (map (nd_id \<circ> fst) (ws_running s)) + mset_set (ws_completed s) \<and> finite (ws_completed s) \<and>
     ws_completed s = {i. Collected i \<in> set ls} \<and>
     length (filter (\<lambda>l. \<exists>i. l = Collected i) ls) = card (ws_completed s) \<and>
     layers ls \<le> length (invoked ls @ map nd_id (ws_waiting s)) \<and>
     (\<forall>i \<in> set (map nd_id (ws_waiting s)). i \<in> set (wf_entry_nodes wfd) \<or>
        (\<forall>u. (u, i) \<in> edge_rel (wf_edges wfd) \<longrightarrow> u \<in> ws_completed s)) \<and>
     (\<forall>ls1 i m ls2. ls = ls1 @ Invoke i m # ls2 \<longrightarrow> i \<in> set (wf_entry_nodes wfd) \<or>
        (\<forall>u. (u, i) \<in> edge_rel (wf_edges wfd) \<longrightarrow> Collected u \<in> set ls1))"

lemma snoc_split:
  "ls @ [l] = a @ x # b \<longleftrightarrow> (b = [] \<and> l = x \<and> ls = a) \<or> (\<exists>b'. b = b' @ [l] \<and> ls = a @ x # b')"
  by (cases b rule: rev_cases) auto

lemma mset_map_remove1: "x \<in> set xs \<Longrightarrow> mset (map f xs) = add_mset (f x) (mset (map f (remove1 x xs)))"
  by (induction xs) auto

lemma inv_begin:
  assumes "run_inv wfd ls s" "n \<in> set (ws_waiting s)"
  shows "run_inv wfd (ls @ [Invoke (nd_id n) msg])
    (s\<lparr>ws_waiting := remove1 n (ws_waiting s), ws_running := (n, msg) # ws_running s\<rparr>)"
proof -
  let ?w = "map nd_id (ws_waiting s)" and ?w' = "map nd_id (remove1 n (ws_waiting s))"
  have m: "mset (invoked ls @ [nd_id n] @ ?w') = mset (invoked ls @ ?w)"
    using mset_map_remove1[OF assms(2), of nd_id] by simp
  from mset_eq_imp_distinct_iff[OF m] mset_eq_setD[OF m] mset_eq_length[OF m] have
    eq: "distinct (invoked ls @ [nd_id n] @ ?w') = distinct (invoked ls @ ?w)"
    "set (invoked ls @ [nd_id n] @ ?w') = set (invoked ls @ ?w)"
    "length (invoked ls @ [nd_id n] @ ?w') = length (invoked ls @ ?w)" by auto
  have sub: "set ?w' \<subseteq> set ?w" "nd_id n \<in> set ?w" using assms(2) set_remove1_subset[of n "ws_waiting s"] by auto
  note inv = assms(1)[unfolded run_inv_def]
  have "distinct (invoked ls @ ?w)" "set (invoked ls @ ?w) \<subseteq> set (node_ids wfd)"
    "set (wf_entry_nodes wfd) \<subseteq> set (invoked ls @ ?w)" "layers ls \<le> length (invoked ls @ ?w)" using inv by blast+
  then have 1: "distinct ((invoked ls @ [nd_id n]) @ ?w')" "set ((invoked ls @ [nd_id n]) @ ?w') \<subseteq> set (node_ids wfd)"
    "set (wf_entry_nodes wfd) \<subseteq> set ((invoked ls @ [nd_id n]) @ ?w')" "layers ls \<le> length ((invoked ls @ [nd_id n]) @ ?w')"
    unfolding eq append_assoc by blast+
  have src: "nd_id n \<in> set (wf_entry_nodes wfd) \<or> (\<forall>u. (u, nd_id n) \<in> edge_rel (wf_edges wfd) \<longrightarrow> Collected u \<in> set ls)"
    using inv sub(2) by blast
  let ?s = "s\<lparr>ws_waiting := remove1 n (ws_waiting s), ws_running := (n, msg) # ws_running s\<rparr>"
  have sel: "ws_waiting ?s = remove1 n (ws_waiting s)" "ws_running ?s = (n, msg) # ws_running s"
    "ws_completed ?s = ws_completed s" by simp_all
  have lab: "layers (ls @ [Invoke (nd_id n) msg]) = layers ls"
    "{i. Collected i \<in> set (ls @ [Invoke (nd_id n) msg])} = {i. Collected i \<in> set ls}"
    "length (filter (\<lambda>l. \<exists>i. l = Collected i) (ls @ [Invoke (nd_id n) msg])) = length (filter (\<lambda>l. \<exists>i. l = Collected i) ls)"
    by (simp_all add: layers_def)
  have run: "mset (invoked ls @ [nd_id n]) = mset (map (nd_id \<circ> fst) ((n, msg) # ws_running s)) + mset_set (ws_completed s)"
    using inv by simp
  have wait: "\<forall>i \<in> set ?w'. i \<in> set (wf_entry_nodes wfd) \<or> (\<forall>u. (u, i) \<in> edge_rel (wf_edges wfd) \<longrightarrow> u \<in> ws_completed s)"
    using inv sub(1) by blast
  have "\<forall>ls1 i m ls2. ls = ls1 @ Invoke i m # ls2 \<longrightarrow> i \<in> set (wf_entry_nodes wfd) \<or>
        (\<forall>u. (u, i) \<in> edge_rel (wf_edges wfd) \<longrightarrow> Collected u \<in> set ls1)" using inv by blast
  with src have hist: "\<forall>ls1 i m ls2. ls @ [Invoke (nd_id n) msg] = ls1 @ Invoke i m # ls2 \<longrightarrow> i \<in> set (wf_entry_nodes wfd) \<or>
        (\<forall>u. (u, i) \<in> edge_rel (wf_edges wfd) \<longrightarrow> Collected u \<in> set ls1)" unfolding snoc_split by blast
  show ?thesis
    unfolding run_inv_def sel invoked_simps lab using 1 run wait hist inv by (intro conjI) blast+
qed

lemma inv_end:
  assumes "run_inv wfd ls s" "(n, msg) \<in> set (ws_running s)"
  shows "run_inv wfd (ls @ [Collected (nd_id n)])
    (collect_output (nd_id n) out (s\<lparr>ws_running := remove1 (n, msg) (ws_running s)\<rparr>))"
proof -
  from assms(1) have inv: "distinct (invoked ls)" "mset (invoked ls) = mset (map (nd_id \<circ> fst) (ws_running s)) + mset_set (ws_completed s)"
    "finite (ws_completed s)" by (auto simp: run_inv_def)
  have m: "mset (map (nd_id \<circ> fst) (ws_running s)) = add_mset (nd_id n) (mset (map (nd_id \<circ> fst) (remove1 (n, msg) (ws_running s))))"
    using mset_map_remove1[OF assms(2), of "nd_id \<circ> fst"] by simp
  have "nd_id n \<notin> ws_completed s"
  proof
    assume "nd_id n \<in> ws_completed s"
    then have "2 \<le> count (mset (invoked ls)) (nd_id n)" using inv(2,3) m by simp
    moreover have "count (mset (invoked ls)) (nd_id n) \<le> 1" using inv(1) by (simp add: distinct_count_atmost_1)
    ultimately show False by linarith
  qed
  with assms(1) m show ?thesis
    unfolding run_inv_def by (auto simp: collect_output_def snoc_split layers_def)
qed

lemma inv_layer:
  assumes "run_inv wfd ls s" "ws_waiting s = []" "ws_running s = []" "next_ready env wfd s \<noteq> []"
    and "spawn_layer wfd (next_ready env wfd s) s = Inr s'" "distinct (node_ids wfd)"
  shows "run_inv wfd (ls @ [Layer]) s'"
proof -
  note sp = spawn_layer_Inr[OF assms(5)] and rd = next_ready_facts[of _ env wfd s]
  from assms(1,3) have "set_mset (mset (invoked ls)) = set_mset (mset_set (ws_completed s))" "finite (ws_completed s)"
    by (auto simp: run_inv_def)
  then have "set (invoked ls) = ws_completed s" by simp
  then have d: "distinct (invoked ls @ next_ready env wfd s)" "set (next_ready env wfd s) \<subseteq> set (node_ids wfd)"
    using assms(1) rd next_ready_distinct[OF assms(6)] by (auto simp: run_inv_def)
  have "layers ls \<le> length (invoked ls)" using assms(1,2) by (simp add: run_inv_def)
  with assms(4) have "Suc (length (filter (\<lambda>l. l = Layer) ls)) \<le> length (invoked ls) + length (next_ready env wfd s)"
    by (cases "next_ready env wfd s") (simp_all add: layers_def)
  with assms(1-3) d sp rd(3) show ?thesis
    unfolding run_inv_def by (auto simp: snoc_split layers_def)
qed

lemma run_invariant:
  assumes "wf_run env wfd input s0 ls s" "wf_start wfd = Inr s0" "no_loss ls"
    and "wf_valid wfd" "distinct (wf_entry_nodes wfd)"
  shows "run_inv wfd ls s"
  using assms(1,3)
proof (induction rule: wf_run.induct)
  case run_nil
  from assms(2,4,5) spawn_layer_Inr[of wfd "wf_entry_nodes wfd" _ s0] show ?case
    by (auto simp: run_inv_def wf_start_def wf_valid_def layers_def)
next
  case (run_step ls s l s')
  then have "run_inv wfd ls s" by (simp add: no_loss_def)
  from run_step.hyps(2) this run_step.prems show ?case
  proof (cases rule: wf_step.cases)
    case next_layer
    with inv_layer[OF \<open>run_inv wfd ls s\<close>] assms(4) show ?thesis by (simp add: wf_valid_def)
  qed (auto simp: no_loss_def intro: inv_begin inv_end)
qed

lemma run_length:
  assumes "run_inv wfd ls s" "no_loss ls"
  shows "length ls \<le> 3 * length (wf_nodes wfd)"
proof -
  have fin: "finite (set (node_ids wfd))" and card: "card (set (node_ids wfd)) \<le> length (wf_nodes wfd)"
    by (simp_all add: node_ids_def, metis card_length length_map set_map)
  have "distinct (invoked ls @ map nd_id (ws_waiting s))" "set (invoked ls @ map nd_id (ws_waiting s)) \<subseteq> set (node_ids wfd)"
    and lay: "layers ls \<le> length (invoked ls @ map nd_id (ws_waiting s))"
    and m: "mset (invoked ls) = mset (map (nd_id \<circ> fst) (ws_running s)) + mset_set (ws_completed s)"
    and coll: "length (filter (\<lambda>l. \<exists>i. l = Collected i) ls) = card (ws_completed s)"
    using assms(1) by (auto simp: run_inv_def)
  from this(1,2) have "length (invoked ls @ map nd_id (ws_waiting s)) \<le> length (wf_nodes wfd)"
    using card_mono[OF fin] card distinct_card le_trans by metis
  moreover from arg_cong[OF m, of size] have "card (ws_completed s) \<le> length (invoked ls)" by simp
  ultimately show ?thesis using labels_length[OF assms(2)] lay coll by simp
qed

lemma progress:
  assumes "\<not> wf_finished env wfd s"
  shows "\<exists>l s'. wf_step env wfd input s l s' \<and> (\<forall>i. l \<noteq> Lost i)"
proof (cases "ws_waiting s")
  case Nil
  show ?thesis
  proof (cases "ws_running s")
    case r: Nil
    with Nil assms have ne: "next_ready env wfd s \<noteq> []" by (simp add: wf_finished_def)
    obtain s' where "spawn_layer wfd (next_ready env wfd s) s = Inr s'"
      using spawn_layer_ok[of "next_ready env wfd s" wfd s] next_ready_facts(1)[of _ env wfd s] by blast
    from next_layer[OF Nil r ne this] show ?thesis by blast
  next
    case (Cons p ps)
    obtain n msg where "p = (n, msg)" by (cases p)
    with Cons have "(n, msg) \<in> set (ws_running s)" by simp
    from end_task[OF this, of "Inr []"] show ?thesis by fastforce
  qed
next
  case (Cons n ns)
  then have "n \<in> set (ws_waiting s)" by simp
  from begin_task[OF this] show ?thesis by blast
qed

lemma finished_complete:
  assumes "run_inv wfd ls s" "wf_valid wfd" "wf_finished env wfd s"
    and "\<forall>e \<in> set (wf_edges wfd). ed_condition e = Always"
    and "\<forall>i \<in> set (node_ids wfd). incoming wfd i = [] \<longrightarrow> i \<in> set (wf_entry_nodes wfd)"
  shows "i \<in> set (node_ids wfd) \<Longrightarrow> i \<in> ws_completed s"
proof -
  have "wf (edge_rel (wf_edges wfd))"
    using assms(2) by (intro finite_acyclic_wf) (simp_all add: wf_valid_def edge_rel_def)
  then show "i \<in> set (node_ids wfd) \<Longrightarrow> i \<in> ws_completed s"
  proof (induction i rule: wf_induct_rule)
    case (less i)
    from assms(1,3) have "mset (invoked ls) = mset_set (ws_completed s)" "finite (ws_completed s)"
      by (auto simp: run_inv_def wf_finished_def)
    then have "set (invoked ls) = ws_completed s" using mset_eq_setD finite_set_mset_mset_set by (metis set_mset_mset)
    then have entry: "set (wf_entry_nodes wfd) \<subseteq> ws_completed s"
      using assms(1,3) by (auto simp: run_inv_def wf_finished_def)
    show ?case
    proof (cases "incoming wfd i = []")
      case True
      with less.prems assms(5) entry show ?thesis by blast
    next
      case False
      have "ed_from e \<in> ws_completed s" if "e \<in> set (incoming wfd i)" for e
        using that less.IH[of "ed_from e"] assms(2) by (force simp: incoming_def edge_rel_def wf_valid_def)
      moreover have "ed_condition e = Always" if "e \<in> set (incoming wfd i)" for e
        using that assms(4) by (auto simp: incoming_def)
      ultimately have "i \<in> ws_completed s \<or> i \<in> set (next_ready env wfd s)"
        using False less.prems next_readyI[of i wfd s "hd (incoming wfd i)" env] by auto
      with assms(3) show ?thesis by (auto simp: wf_finished_def)
    qed
  qed
qed

subsection \<open>Properties\<close>

text \<open>C37. Validation always returns, and accepts exactly the workflows that have nodes and entry nodes, refer
  to their own nodes only, repeat no node id and have no cycle.\<close>

theorem validate_decides:
  assumes "set order = set (node_ids wfd)" "distinct order"
  shows "\<exists>r. validate order wfd = Some r \<and> (r = Inr () \<longleftrightarrow> wf_valid wfd)"
proof (cases "wf_nodes wfd \<noteq> [] \<and> wf_entry_nodes wfd \<noteq> [] \<and> set (wf_entry_nodes wfd) \<subseteq> set (node_ids wfd) \<and>
    set (wf_exit_nodes wfd) \<subseteq> set (node_ids wfd) \<and>
    (\<forall>e \<in> set (wf_edges wfd). ed_from e \<in> set (node_ids wfd) \<and> ed_to e \<in> set (node_ids wfd))")
  case False
  then show ?thesis
    by (auto simp: validate_def wf_valid_def find_None_all split: option.splits dest: find_Some_mem)
next
  case True
  let ?es = "wf_edges wfd" and ?V = "set (node_ids wfd)" and ?q = "filter (\<lambda>i. in_degree wfd i = Some 0) order"
  have deg: "in_degree wfd i = (if i \<in> ?V then Some (open_edges ?es {} i) else None)" for i
    using True by (intro in_degree_eq) blast
  have "kahn_inv ?es ?V {} ?q (in_degree wfd)"
    using True assms deg by (auto simp: kahn_inv_def acyclic_def split: if_splits)
  from kahn_complete[OF this, of 0] obtain S deg' where
    k: "kahn ?es ?q (in_degree wfd) 0 = Some (card S)" and inv: "kahn_inv ?es ?V S [] deg'" by auto
  have "S \<subseteq> ?V" using inv by (auto simp: kahn_inv_def)
  then have "card S = length (wf_nodes wfd) \<longleftrightarrow> S = ?V \<and> distinct (node_ids wfd)"
    using card_distinct[of "node_ids wfd"] distinct_card[of "node_ids wfd"] card_length[of "node_ids wfd"]
      card_mono[of ?V S] card_subset_eq[of ?V S] by (auto simp: node_ids_def)
  with visited_all[OF inv] True k show ?thesis
    by (auto simp: validate_def wf_valid_def find_None_all split: option.splits dest: find_Some_mem)
qed

text \<open>C14. In a valid workflow every node is invoked at most once, and a node that is not an entry node only
  after every node with an edge to it has ended and its output is stored.\<close>

theorem invoked_once_after_sources:
  assumes "wf_valid wfd" "distinct (wf_entry_nodes wfd)" "wf_start wfd = Inr s0" "wf_run env wfd input s0 ls s" "no_loss ls"
  shows "distinct (invoked ls) \<and>
    (\<forall>ls1 i m ls2 e. ls = ls1 @ Invoke i m # ls2 \<longrightarrow> i \<notin> set (wf_entry_nodes wfd) \<longrightarrow>
       e \<in> set (wf_edges wfd) \<longrightarrow> ed_to e = i \<longrightarrow> Collected (ed_from e) \<in> set ls1)"
  using run_invariant[OF assms(4,3,5,1,2)] by (force simp: run_inv_def edge_rel_def)

text \<open>Execution ends: a run without lost tasks has at most three steps per node.\<close>

theorem run_bounded:
  assumes "wf_valid wfd" "distinct (wf_entry_nodes wfd)" "wf_start wfd = Inr s0" "wf_run env wfd input s0 ls s" "no_loss ls"
  shows "length ls \<le> 3 * length (wf_nodes wfd)"
  by (rule run_length[OF run_invariant[OF assms(4,3,5,1,2)] assms(5)])

text \<open>Execution never gets stuck, and when all edges are unconditional and the nodes without incoming edges
  are entry nodes, it ends only after every node was executed.\<close>

theorem workflow_completes:
  assumes "wf_valid wfd" "distinct (wf_entry_nodes wfd)" "wf_start wfd = Inr s0" "wf_run env wfd input s0 ls s" "no_loss ls"
    and "\<forall>e \<in> set (wf_edges wfd). ed_condition e = Always"
    and "\<forall>i \<in> set (node_ids wfd). incoming wfd i = [] \<longrightarrow> i \<in> set (wf_entry_nodes wfd)"
  shows "(\<exists>l s'. wf_step env wfd input s l s' \<and> no_loss (ls @ [l])) \<or>
    wf_finished env wfd s \<and> ws_completed s = set (node_ids wfd)"
proof (cases "wf_finished env wfd s")
  case True
  note inv = run_invariant[OF assms(4,3,5,1,2)]
  have "ws_completed s \<subseteq> set (invoked ls)"
  proof -
    have m: "mset (invoked ls) = mset (map (nd_id \<circ> fst) (ws_running s)) + mset_set (ws_completed s)"
      and fin: "finite (ws_completed s)" using inv by (auto simp: run_inv_def)
    from arg_cong[OF m, of set_mset] fin show ?thesis by auto
  qed
  then have "ws_completed s \<subseteq> set (node_ids wfd)" using inv by (auto simp: run_inv_def)
  with True finished_complete[OF inv assms(1) True assms(6,7)] show ?thesis by blast
next
  case False
  from progress[OF this, of input] obtain l s' where "wf_step env wfd input s l s'" "\<forall>i. l \<noteq> Lost i" by blast
  with assms(5) show ?thesis by (intro disjI1 exI[of _ l] exI[of _ s']) (cases l; simp add: no_loss_def)
qed

subsection \<open>Witnesses\<close>

definition sample_workflow :: wf_definition where
  "sample_workflow = \<lparr>wf_nodes = [\<lparr>nd_id = ''a'', nd_agent_id = ''x'', nd_template = None\<rparr>,
       \<lparr>nd_id = ''b'', nd_agent_id = ''y'', nd_template = Some ''see {output:a}''\<rparr>],
     wf_edges = [\<lparr>ed_from = ''a'', ed_to = ''b'', ed_condition = Always\<rparr>],
     wf_entry_nodes = [''a''], wf_exit_nodes = []\<rparr>"

definition sample_text_env :: text_env where
  "sample_text_env = \<lparr>tx_lower = id, tx_regex = (\<lambda>_. None)\<rparr>"

lemma sample_valid: "wf_valid sample_workflow"
proof -
  have "{(''a'', ''b'')}\<^sup>+ = {(''a'', ''b'')}" by (rule trancl_id) (simp add: trans_def)
  then show ?thesis by (simp add: wf_valid_def sample_workflow_def node_ids_def edge_rel_def acyclic_def)
qed

lemma sample_ids: "node_ids sample_workflow = [''a'', ''b'']" "wf_entry_nodes sample_workflow = [''a'']"
  "wf_nodes sample_workflow = [\<lparr>nd_id = ''a'', nd_agent_id = ''x'', nd_template = None\<rparr>,
       \<lparr>nd_id = ''b'', nd_agent_id = ''y'', nd_template = Some ''see {output:a}''\<rparr>]"
  "wf_edges sample_workflow = [\<lparr>ed_from = ''a'', ed_to = ''b'', ed_condition = Always\<rparr>]"
  by (simp_all add: sample_workflow_def node_ids_def)

text \<open>A complete run.\<close>

lemma sample_wf_run:
  "\<exists>s0 s. wf_start sample_workflow = Inr s0 \<and> wf_run sample_text_env sample_workflow ''q'' s0
     [Invoke ''a'' ''q'', Collected ''a'', Layer, Invoke ''b'' ''see one'', Collected ''b''] s \<and>
     wf_result sample_workflow s = Inr ''two''"
proof -
  let ?a = "\<lparr>nd_id = ''a'', nd_agent_id = ''x'', nd_template = None\<rparr>"
  let ?b = "\<lparr>nd_id = ''b'', nd_agent_id = ''y'', nd_template = Some ''see {output:a}''\<rparr>"
  let ?step = "wf_step sample_text_env sample_workflow ''q''"
  define s0 where "s0 = \<lparr>ws_waiting = [?a], ws_running = [], ws_outputs = Map.empty, ws_completed = {}\<rparr>"
  define s1 where "s1 = s0\<lparr>ws_waiting := [], ws_running := [(?a, ''q'')]\<rparr>"
  define s2 where "s2 = collect_output ''a'' ''one'' (s1\<lparr>ws_running := []\<rparr>)"
  define s3 where "s3 = s2\<lparr>ws_waiting := [?b]\<rparr>"
  define s4 where "s4 = s3\<lparr>ws_waiting := [], ws_running := [(?b, ''see one'')]\<rparr>"
  define s5 where "s5 = collect_output ''b'' ''two'' (s4\<lparr>ws_running := []\<rparr>)"
  note defs = s0_def s1_def s2_def s3_def s4_def s5_def collect_output_def
  have start: "wf_start sample_workflow = Inr s0"
    by (simp add: wf_start_def spawn_layer_def find_node_def sample_ids defs)
  have "?step s0 (Invoke ''a'' ''q'') s1"
    using begin_task[of ?a s0 sample_text_env sample_workflow "''q''"] by (simp add: defs build_node_message_def)
  moreover have "?step s1 (Collected ''a'') s2"
    using end_task[of ?a "''q''" s1 "Inr ''one''" "''one''"] by (simp add: defs)
  moreover have "?step s2 Layer s3"
  proof (rule next_layer)
    have r: "next_ready sample_text_env sample_workflow s2 = [''b'']"
      by (simp add: next_ready_def sample_ids incoming_def defs check_condition_def)
    then show "next_ready sample_text_env sample_workflow s2 \<noteq> []" by simp
    show "spawn_layer sample_workflow (next_ready sample_text_env sample_workflow s2) s2 = Inr s3"
      unfolding r by (simp add: spawn_layer_def find_node_def sample_ids defs)
  qed (simp_all add: defs)
  moreover have msg: "build_node_message ?b ''q'' [''a'' \<mapsto> ''one''] = ''see one''" by code_simp
  have "?step s3 (Invoke ''b'' ''see one'') s4"
    using begin_task[of ?b s3 sample_text_env sample_workflow "''q''"] msg by (simp add: defs)
  moreover have "?step s4 (Collected ''b'') s5"
    using end_task[of ?b "''see one''" s4 "Inr ''two''" "''two''"] by (simp add: defs)
  ultimately have "wf_run sample_text_env sample_workflow ''q'' s0
      ((((([] @ [Invoke ''a'' ''q'']) @ [Collected ''a'']) @ [Layer]) @ [Invoke ''b'' ''see one'']) @ [Collected ''b'']) s5"
    by (intro wf_run.run_step) (auto intro: wf_run.run_nil)
  moreover have "wf_result sample_workflow s5 = Inr ''two''"
    by (simp add: wf_result_def sample_ids sample_workflow_def defs map_filter_def)
  ultimately show ?thesis using start by auto
qed

theorem validate_decides_witness: "\<exists>r. validate [''b'', ''a''] sample_workflow = Some r \<and> r = Inr ()"
  using validate_decides[of "[''b'', ''a'']" sample_workflow] sample_valid by (auto simp: sample_ids)

theorem invoked_once_after_sources_witness:
  "\<exists>s0 s ls. wf_start sample_workflow = Inr s0 \<and> wf_run sample_text_env sample_workflow ''q'' s0 ls s \<and>
     invoked ls = [''a'', ''b''] \<and> distinct (invoked ls)"
proof -
  from sample_wf_run obtain s0 s where r: "wf_start sample_workflow = Inr s0"
    "wf_run sample_text_env sample_workflow ''q'' s0 [Invoke ''a'' ''q'', Collected ''a'', Layer, Invoke ''b'' ''see one'', Collected ''b''] s" by blast
  moreover have "invoked [Invoke ''a'' ''q'', Collected ''a'', Layer, Invoke ''b'' ''see one'', Collected ''b''] = [''a'', ''b'']"
    by (simp add: invoked_def map_filter_def)
  moreover have "distinct (wf_entry_nodes sample_workflow)" by (simp add: sample_ids)
  moreover have "no_loss [Invoke ''a'' ''q'', Collected ''a'', Layer, Invoke ''b'' ''see one'', Collected ''b'']"
    by (simp add: no_loss_def)
  ultimately show ?thesis using invoked_once_after_sources[OF sample_valid _ r] by blast
qed

theorem run_bounded_witness:
  "\<exists>s0 s ls. wf_start sample_workflow = Inr s0 \<and> wf_run sample_text_env sample_workflow ''q'' s0 ls s \<and> length ls = 5 \<and> length ls \<le> 6"
proof -
  from sample_wf_run obtain s0 s where r: "wf_start sample_workflow = Inr s0"
    "wf_run sample_text_env sample_workflow ''q'' s0 [Invoke ''a'' ''q'', Collected ''a'', Layer, Invoke ''b'' ''see one'', Collected ''b''] s" by blast
  moreover have "distinct (wf_entry_nodes sample_workflow)" by (simp add: sample_ids)
  moreover have "no_loss [Invoke ''a'' ''q'', Collected ''a'', Layer, Invoke ''b'' ''see one'', Collected ''b'']"
    by (simp add: no_loss_def)
  ultimately have "length [Invoke ''a'' ''q'', Collected ''a'', Layer, Invoke ''b'' ''see one'', Collected ''b''] \<le>
      3 * length (wf_nodes sample_workflow)" using run_bounded[OF sample_valid _ r] by blast
  with r show ?thesis by (intro exI[of _ s0] exI[of _ s] exI) (auto simp: sample_ids)
qed

theorem workflow_completes_witness:
  "\<exists>s0 s ls. wf_start sample_workflow = Inr s0 \<and> wf_run sample_text_env sample_workflow ''q'' s0 ls s \<and>
     ((\<exists>l s'. wf_step sample_text_env sample_workflow ''q'' s l s') \<or> ws_completed s = {''a'', ''b''})"
proof -
  from sample_wf_run obtain s0 s where r: "wf_start sample_workflow = Inr s0"
    "wf_run sample_text_env sample_workflow ''q'' s0 [Invoke ''a'' ''q'', Collected ''a'', Layer, Invoke ''b'' ''see one'', Collected ''b''] s" by blast
  have "\<forall>e \<in> set (wf_edges sample_workflow). ed_condition e = Always"
    "\<forall>i \<in> set (node_ids sample_workflow). incoming sample_workflow i = [] \<longrightarrow> i \<in> set (wf_entry_nodes sample_workflow)"
    "distinct (wf_entry_nodes sample_workflow)"
    by (auto simp: sample_ids incoming_def)
  moreover have "no_loss [Invoke ''a'' ''q'', Collected ''a'', Layer, Invoke ''b'' ''see one'', Collected ''b'']"
    by (simp add: no_loss_def)
  ultimately have "(\<exists>l s'. wf_step sample_text_env sample_workflow ''q'' s l s') \<or> ws_completed s = set (node_ids sample_workflow)"
    using workflow_completes[OF sample_valid _ r] by blast
  with r show ?thesis by (auto simp: sample_ids)
qed

end
