(* ===== verification/Swarm.thy ===== *)
theory Swarm
  imports Tools Workflow
begin

text \<open>The blackboard of \<open>orchestration.rs\<close> behind the accessor the tools use.\<close>

definition swarm_accessor :: "(string set \<Rightarrow> string list) \<Rightarrow> json blackboard blackboard_accessor" where
  "swarm_accessor order = \<lparr>bb_read = sb_read, bb_write = sb_write,
     bb_read_all = (\<lambda>swarm b. map (\<lambda>k. (k, the (sb_read_all swarm b k))) (order (dom (sb_read_all swarm b))))\<rparr>"

interpretation swarm: blackboard "swarm_accessor order" for order
  by unfold_locales (auto simp: swarm_accessor_def sb_read_def sb_write_def split: option.splits)

text \<open>Agents of a swarm share their blackboard and no other: what one writes under a key is what the next
  one reads there, and an agent of another swarm reads what it would have read before.\<close>

theorem blackboard_shared_in_swarm:
  assumes "tc_blackboard ctx = Some (swarm_accessor order)" "tc_swarm_id ctx = Some s"
    and "tc_blackboard ctx' = Some (swarm_accessor order)" "tc_swarm_id ctx' = Some s'"
    and "str_param ''key'' params = Some k" "json_get ''value'' params = Some v" "str_param ''key'' params' = Some k"
    and "blackboard_write_execute params ctx w = (r, w')"
  shows "fst (blackboard_read_execute params' ctx' w') =
     (if s' = s then Inr (JsonResult (JObj [(''key'', JStr k), (''value'', v)]))
      else fst (blackboard_read_execute params' ctx' w))"
  by (rule swarm.write_then_read[OF assms])

definition swarm_context :: "string \<Rightarrow> json blackboard tool_context" where
  "swarm_context s = \<lparr>tc_session_id = [], tc_agent_id = [], tc_workspace_path = [],
     tc_security_context = \<lparr>sc_session_id = [], sc_capabilities = {}, sc_sandbox_enabled = False,
        sc_restrictions = default_restrictions\<rparr>,
     tc_command_allowlist = [], tc_approval_callback = None, tc_agent_invoker = None, tc_delegation_depth = 0,
     tc_blackboard = Some (swarm_accessor (\<lambda>_. [])), tc_swarm_id = Some s\<rparr>"

theorem blackboard_shared_in_swarm_witness:
  "fst (blackboard_read_execute (JObj [(''key'', JStr ''k'')]) (swarm_context ''red'')
      (snd (blackboard_write_execute (JObj [(''key'', JStr ''k''), (''value'', JInt 1)]) (swarm_context ''red'') Map.empty))) =
   Inr (JsonResult (JObj [(''key'', JStr ''k''), (''value'', JInt 1)]))"
  using blackboard_shared_in_swarm[of "swarm_context ''red''" "\<lambda>_. []" "''red''" "swarm_context ''red''" "''red''"
      "JObj [(''key'', JStr ''k''), (''value'', JInt 1)]" "''k''" "JInt 1" "JObj [(''key'', JStr ''k'')]" Map.empty]
  by (cases "blackboard_write_execute (JObj [(''key'', JStr ''k''), (''value'', JInt 1)]) (swarm_context ''red'') Map.empty")
    (simp add: swarm_context_def str_param_def json_get_def as_str_def)

end
