(* ===== verification/TextTools.thy ===== *)
theory TextTools
  imports ToolPaths RustStr
begin

text \<open>
  The text-editing core of the built-in tools (\<open>rockbot-tools/src/builtin.rs\<close>): exact and
  whitespace-insensitive replacement of \<open>edit\<close>, hunks of \<open>patch\<close>, the line window of \<open>read\<close>, and
  truncation and tag stripping of output. Files are texts; \<open>usize\<close> arithmetic wraps as in a release build.
  The regular expression of a hunk header is a parameter that gives the parsed first line number.
\<close>

subsection \<open>Replacement\<close>

definition normalize_whitespace :: "string \<Rightarrow> string" where
  "normalize_whitespace s = join_with '' '' (words_from [] (chars s))"

definition find_original_span :: "string \<Rightarrow> string \<Rightarrow> string option" where
  "find_original_span haystack needle =
     (let norm = normalize_whitespace needle; hs = lines haystack; k = length (lines needle) in
      if k = 0 \<or> length hs < k then None
      else List.find (\<lambda>window. normalize_whitespace window = norm)
             (map (\<lambda>i. join_with [CHR 0x0A] (take k (drop i hs))) [0..<length hs - k + 1]))"

definition normalized_whitespace_match :: "string \<Rightarrow> string \<Rightarrow> string option" where
  "normalized_whitespace_match haystack needle =
     (if \<not> sublist (normalize_whitespace needle) (normalize_whitespace haystack) then None
      else find_original_span haystack needle)"

datatype edit_outcome = NotFound | Ambiguous nat | Replaced string | ReplacedNormalized string

text \<open>The edit tool on the content of the file.\<close>

definition edit_text :: "string \<Rightarrow> string \<Rightarrow> string \<Rightarrow> bool \<Rightarrow> edit_outcome" where
  "edit_text content old new every =
     (let count = match_count old content in
      if count = 0 then
        (case normalized_whitespace_match content old of
           Some matched \<Rightarrow> ReplacedNormalized (replace_first matched new content)
         | None \<Rightarrow> NotFound)
      else if 1 < count \<and> \<not> every then Ambiguous count
      else Replaced (if every then replace_all old new content else replace_first old new content))"

subsection \<open>Hunks\<close>

type_synonym hunk_regex = "string \<Rightarrow> int option"

definition usize :: "int \<Rightarrow> nat" where
  "usize i = nat (i mod 2 ^ 64)"

text \<open>The lines of a hunk, up to the next header: removed positions, added lines with their positions.\<close>

fun hunk_body :: "string list \<Rightarrow> nat \<Rightarrow> nat list \<Rightarrow> (nat \<times> string) list \<Rightarrow> nat list \<times> (nat \<times> string) list \<times> string list" where
  "hunk_body [] pos rs as = (rs, as, [])"
| "hunk_body (l # ls) pos rs as =
     (if prefix ''@@'' l then (rs, as, l # ls)
      else if prefix ''-'' l then hunk_body ls (wadd pos 1) (rs @ [pos]) as
      else if prefix ''+'' l then hunk_body ls pos rs (as @ [(pos, tl l)])
      else if prefix '' '' l \<or> l = [] then hunk_body ls (wadd pos 1) rs as
      else hunk_body ls pos rs as)"

definition insert_at :: "nat \<Rightarrow> 'a \<Rightarrow> 'a list \<Rightarrow> 'a list" where
  "insert_at i x xs = take i xs @ x # drop i xs"

definition remove_lines :: "nat list \<Rightarrow> string list \<Rightarrow> string list" where
  "remove_lines rs ls = foldl (\<lambda>ls i. if i < length ls then remove_at i ls else ls) ls (rev rs)"

fun insert_lines :: "nat \<Rightarrow> nat \<Rightarrow> (nat \<times> string) list \<Rightarrow> string list \<Rightarrow> string list" where
  "insert_lines k j [] ls = ls"
| "insert_lines k j ((i, text) # as) ls =
     insert_lines k (j + 1) as (insert_at (min (usize (int i - int k + int j)) (length ls)) text ls)"

definition apply_hunk :: "nat list \<Rightarrow> (nat \<times> string) list \<Rightarrow> string list \<Rightarrow> string list" where
  "apply_hunk rs as ls =
     (let limit = (case as of [] \<Rightarrow> u64_max | (i, _) # _ \<Rightarrow> i);
          k = length (filter (\<lambda>r. r \<le> limit) rs) in
      insert_lines k 0 as (remove_lines rs ls))"

lemma hunk_body_rest: "length (snd (snd (hunk_body ls pos rs as))) \<le> length ls"
  by (induction ls pos rs as rule: hunk_body.induct) auto

function apply_patch :: "hunk_regex \<Rightarrow> string list \<Rightarrow> int \<Rightarrow> nat \<Rightarrow> string list \<Rightarrow> nat \<times> string list" where
  "apply_patch re patch_lines offset n ls =
     (case patch_lines of
        [] \<Rightarrow> (n, ls)
      | l # rest \<Rightarrow>
          (case re l of
             None \<Rightarrow> apply_patch re rest offset n ls
           | Some start \<Rightarrow>
               (case hunk_body rest (usize (start - 1 + offset)) [] [] of
                  (rs, as, rest') \<Rightarrow>
                    apply_patch re rest' (offset + int (length as) - int (length rs)) (n + 1) (apply_hunk rs as ls))))"
  by pat_completeness auto
termination
proof (relation "measure (\<lambda>(re, patch_lines, offset, n, ls). length patch_lines)", goal_cases)
  case 3
  then show ?case by (auto dest!: arg_cong[where f = "\<lambda>x. length (snd (snd x))"] simp: le_imp_less_Suc hunk_body_rest)
qed auto

declare apply_patch.simps [simp del]

lemma apply_patch_Nil [simp]: "apply_patch re [] offset n ls = (n, ls)"
  by (subst apply_patch.simps) simp

lemma apply_patch_hunk:
  assumes "re l = Some start" "hunk_body rest (usize (start - 1 + offset)) [] [] = (rs, as, rest')"
  shows "apply_patch re (l # rest) offset n ls =
    apply_patch re rest' (offset + int (length as) - int (length rs)) (n + 1) (apply_hunk rs as ls)"
  by (subst apply_patch.simps) (simp add: assms)

text \<open>The new content, or nothing when the patch has no hunk.\<close>

definition patch_text :: "hunk_regex \<Rightarrow> string \<Rightarrow> string \<Rightarrow> string option" where
  "patch_text re patch content =
     (case apply_patch re (lines patch) 0 0 (lines content) of
        (n, ls) \<Rightarrow> if n = 0 then None else Some (join_with [CHR 0x0A] ls))"

subsection \<open>Reading and output\<close>

definition line_window :: "nat \<Rightarrow> nat \<Rightarrow> string list \<Rightarrow> string list" where
  "line_window offset max_lines ls =
     (if max_lines = 0 then take 1 (drop (offset - 1) ls) else take max_lines (drop (offset - 1) ls))"

definition truncate_utf8_chars :: "string \<Rightarrow> nat \<Rightarrow> string" where
  "truncate_utf8_chars s n = concat (take n (chars s))"

definition truncate_stream_output :: "(nat \<Rightarrow> string) \<Rightarrow> string \<Rightarrow> nat \<Rightarrow> string \<Rightarrow> string" where
  "truncate_stream_output show_nat s n label =
     (let total = length (chars s) in
      if total \<le> n then s
      else truncate_utf8_chars s n @ [CHR 0x0A] @ ''...['' @ label @ '' truncated at '' @ show_nat n @ '' of '' @
        show_nat total @ '' chars]'')"

text \<open>Tag stripping: whether inside a tag, whether the last character written is a blank, and the rest.\<close>

fun strip_loop :: "bool \<Rightarrow> bool \<Rightarrow> string list \<Rightarrow> string" where
  "strip_loop in_tag spaced [] = []"
| "strip_loop in_tag spaced (c # cs) =
     (if c = ''<'' then strip_loop True spaced cs
      else if c = ''>'' then (if spaced then [] else '' '') @ strip_loop False True cs
      else if in_tag then strip_loop in_tag spaced cs
      else if is_white c then (if spaced then [] else '' '') @ strip_loop in_tag True cs
      else c @ strip_loop in_tag False cs)"

definition strip_html_tags :: "string \<Rightarrow> string" where
  "strip_html_tags html = trim (strip_loop False False (chars html))"

subsection \<open>Lemmas on hunks\<close>

lemma hunk_context:
  "pos + length c < 2 ^ 64 \<Longrightarrow>
   hunk_body (map ((#) CHR '' '') c @ ls) pos rs as = hunk_body ls (pos + length c) rs as"
  by (induction c arbitrary: pos) simp_all

lemma hunk_removed:
  "pos + length r < 2 ^ 64 \<Longrightarrow>
   hunk_body (map ((#) CHR ''-'') r @ ls) pos rs as = hunk_body ls (pos + length r) (rs @ [pos..<pos + length r]) as"
proof (induction r arbitrary: pos rs)
  case (Cons w r)
  have "[pos..<pos + length (w # r)] = pos # [Suc pos..<Suc pos + length r]"
    by (simp add: upt_conv_Cons del: upt_Suc)
  with Cons.IH[of "Suc pos" "rs @ [pos]"] Cons.prems show ?case by (simp del: upt_Suc)
qed simp

lemma hunk_added:
  "hunk_body (map ((#) CHR ''+'') a @ ls) pos rs as = hunk_body ls pos rs (as @ map (Pair pos) a)"
  by (induction a arbitrary: as) simp_all

lemma hunk_stop: "ls = [] \<or> prefix ''@@'' (hd ls) \<Longrightarrow> hunk_body ls pos rs as = (rs, as, ls)"
  by (cases ls) auto

lemma remove_block: "remove_lines [length x..<length x + length r] (x @ r @ y) = x @ y"
proof (induction r arbitrary: y rule: rev_induct)
  case (snoc w r)
  have "remove_lines [length x..<length x + length (r @ [w])] (x @ (r @ [w]) @ y) =
      remove_lines [length x..<length x + length r] (remove_at (length x + length r) (x @ r @ w # y))"
    by (simp add: remove_lines_def)
  also have "remove_at (length x + length r) (x @ r @ w # y) = x @ r @ y" by (simp add: remove_at_def)
  finally show ?case using snoc.IH by simp
qed (simp add: remove_lines_def)

lemma insert_block:
  "length x = p + j \<Longrightarrow> p + j + length a < 2 ^ 64 \<Longrightarrow>
   insert_lines k j (map (Pair (p + k)) a) (x @ y) = x @ a @ y"
proof (induction a arbitrary: j x)
  case (Cons w a)
  have "usize (int (p + k) - int k + int j) = p + j" using Cons.prems(2) by (simp add: usize_def)
  then have "insert_lines k j (map (Pair (p + k)) (w # a)) (x @ y) = insert_lines k (j + 1) (map (Pair (p + k)) a) ((x @ [w]) @ y)"
    using Cons.prems(1) by (simp add: insert_at_def)
  also have "\<dots> = (x @ [w]) @ a @ y" using Cons.prems by (intro Cons.IH) simp_all
  finally show ?case by simp
qed simp

lemma apply_block:
  assumes "length x + length r + length a < 2 ^ 64"
  shows "apply_hunk [length x..<length x + length r] (map (Pair (length x + length r)) a) (x @ r @ y) = x @ a @ y"
proof (cases a)
  case Nil
  then show ?thesis by (simp add: apply_hunk_def remove_block Let_def)
next
  case (Cons w ws)
  have "filter (\<lambda>i. i \<le> length x + length r) [length x..<length x + length r] = [length x..<length x + length r]"
    by (simp add: filter_id_conv)
  with Cons show ?thesis
    using assms insert_block[of x "length x" 0 a "length r" y]
    by (simp add: apply_hunk_def remove_block Let_def)
qed

text \<open>A unified diff with one block of changes per hunk: lines skipped since the last hunk, context,
  removed lines, added lines, context.\<close>

record hunk =
  hk_skip :: "string list"
  hk_before :: "string list"
  hk_removed :: "string list"
  hk_added :: "string list"
  hk_after :: "string list"

definition old_lines :: "hunk \<Rightarrow> string list" where
  "old_lines h = hk_skip h @ hk_before h @ hk_removed h @ hk_after h"

definition new_lines :: "hunk \<Rightarrow> string list" where
  "new_lines h = hk_skip h @ hk_before h @ hk_added h @ hk_after h"

fun diff_lines :: "(nat \<Rightarrow> string) \<Rightarrow> nat \<Rightarrow> hunk list \<Rightarrow> string list" where
  "diff_lines header q [] = []"
| "diff_lines header q (h # hs) =
     header (q + length (hk_skip h) + 1) # map ((#) CHR '' '') (hk_before h) @ map ((#) CHR ''-'') (hk_removed h) @
       map ((#) CHR ''+'') (hk_added h) @ map ((#) CHR '' '') (hk_after h) @ diff_lines header (q + length (old_lines h)) hs"

definition hunk_size :: "hunk \<Rightarrow> nat" where
  "hunk_size h = length (old_lines h) + length (hk_added h)"

lemma apply_diff:
  assumes "\<And>k. re (header k) = Some (int k)" "\<And>k. prefix ''@@'' (header k)"
  shows "int (length p) = int q + offset \<Longrightarrow> length p + sum_list (map hunk_size hs) < 2 ^ 64 \<Longrightarrow>
     apply_patch re (diff_lines header q hs) offset n (p @ concat (map old_lines hs) @ b) =
       (n + length hs, p @ concat (map new_lines hs) @ b)"
proof (induction hs arbitrary: p q offset n)
  case (Cons h hs)
  let ?x = "p @ hk_skip h @ hk_before h" and ?r = "hk_removed h" and ?a = "hk_added h" and ?q = "q + length (old_lines h)"
  let ?rs = "[length ?x..<length ?x + length ?r]" and ?as = "map (Pair (length ?x + length ?r)) ?a"
  let ?rest = "diff_lines header ?q hs"
  have size: "length ?x + length ?r + length ?a + length (hk_after h) < 2 ^ 64"
    using Cons.prems(2) by (simp add: hunk_size_def old_lines_def)
  have stop: "?rest = [] \<or> prefix ''@@'' (hd ?rest)" using assms(2) by (cases hs) auto
  have body: "hunk_body (map ((#) CHR '' '') (hk_before h) @ map ((#) CHR ''-'') ?r @ map ((#) CHR ''+'') ?a @
      map ((#) CHR '' '') (hk_after h) @ ?rest) (length p + length (hk_skip h)) [] [] = (?rs, ?as, ?rest)"
    using size by (simp add: hunk_context hunk_removed hunk_added hunk_stop[OF stop] add.assoc)
  have pos: "usize (int (q + length (hk_skip h) + 1) - 1 + offset) = length p + length (hk_skip h)"
  proof -
    have "int (q + length (hk_skip h) + 1) - 1 + offset = int (length p + length (hk_skip h))"
      using Cons.prems(1) by simp
    then show ?thesis using size by (simp only: usize_def) (simp add: nat_mod_as_int)
  qed
  have hunk: "apply_hunk ?rs ?as (p @ concat (map old_lines (h # hs)) @ b) = (p @ new_lines h) @ concat (map old_lines hs) @ b"
    using size apply_block[of ?x ?r ?a "hk_after h @ concat (map old_lines hs) @ b"] by (simp add: old_lines_def new_lines_def)
  have "apply_patch re (diff_lines header q (h # hs)) offset n (p @ concat (map old_lines (h # hs)) @ b) =
      apply_patch re ?rest (offset + int (length ?as) - int (length ?rs)) (n + 1)
        ((p @ new_lines h) @ concat (map old_lines hs) @ b)"
    unfolding diff_lines.simps hunk[symmetric]
    by (rule apply_patch_hunk[where start = "int (q + length (hk_skip h) + 1)"]) (rule assms(1), unfold pos, rule body)
  also have "\<dots> = apply_patch re ?rest (offset + int (length ?a) - int (length ?r)) (n + 1)
        ((p @ new_lines h) @ concat (map old_lines hs) @ b)" by simp
  also have "\<dots> = ((n + 1) + length hs, (p @ new_lines h) @ concat (map new_lines hs) @ b)"
    using Cons.prems by (intro Cons.IH) (simp_all add: old_lines_def new_lines_def hunk_size_def)
  finally show ?case by simp
qed simp

subsection \<open>Properties\<close>

text \<open>\<open>edit\<close> without \<open>replace_all\<close> changes one place only, and there is no other: the old text stands
  exactly once in the file, and everything around it is kept.\<close>

theorem edit_replaces_one:
  assumes "edit_text content old new False = Replaced r" "old \<noteq> []"
  shows "\<exists>before after. content = before @ old @ after \<and> r = before @ new @ after \<and> \<not> sublist old after"
proof -
  from assms have "match_count old content = 1" and r: "r = replace_first old new content"
    by (auto simp: edit_text_def Let_def split: if_splits option.splits)
  moreover have "pieces old content = pieces_from old [] content" using assms(2) by (simp add: pieces_def)
  ultimately obtain w v where p: "pieces_from old [] content = [w, v]"
    using pieces_not_Nil[of old "[]" content]
    by (cases "pieces_from old [] content"; cases "tl (pieces_from old [] content)") (auto simp: match_count_def)
  with join_pieces[OF assms(2), of "[]" content] have "content = w @ old @ v" by simp
  moreover have "r = w @ new @ v" using p assms(2) by (simp add: r replace_first_def pieces_def)
  ultimately show ?thesis using pieces_two[OF p assms(2)] by blast
qed

text \<open>A unified diff whose hunks each hold one block of changes is applied exactly, however many hunks
  it has and however they shift the lines after them.\<close>

theorem patch_applies_diff:
  assumes "\<forall>k. re (header k) = Some (int k) \<and> prefix ''@@'' (header k)" "sum_list (map hunk_size hs) < 2 ^ 64"
  shows "apply_patch re (diff_lines header 0 hs) 0 0 (concat (map old_lines hs) @ rest) =
     (length hs, concat (map new_lines hs) @ rest)"
  using apply_diff[of re header "[]" 0 0 hs 0 rest] assms by simp

text \<open>A hunk with two separate changes is misapplied: after replacing one line, the replacement of a later
  line of the same hunk lands one line too low, behind the context line that follows it.\<close>

theorem second_change_misplaced:
  assumes "re header = Some 1" "c \<noteq> []" "2 + length c < 2 ^ 64"
  shows "apply_patch re (header # [CHR ''-'' # x, CHR ''+'' # x'] @ map ((#) CHR '' '') c @ [CHR ''-'' # y, CHR ''+'' # y', CHR '' '' # z])
       0 0 ([x] @ c @ [y, z] @ rest) = (1, [x'] @ c @ [z, y'] @ rest)"
proof -
  have body: "hunk_body ([CHR ''-'' # x, CHR ''+'' # x'] @ map ((#) CHR '' '') c @ [CHR ''-'' # y, CHR ''+'' # y', CHR '' '' # z])
      (usize (1 - 1 + 0)) [] [] = ([0, Suc (length c)], [(1, x'), (Suc (Suc (length c)), y')], [])"
  proof -
    have "hunk_body ([CHR ''-'' # x, CHR ''+'' # x'] @ ls) (usize (1 - 1 + 0)) [] [] = hunk_body ls 1 [0] [(1, x')]" for ls
      by (simp add: usize_def)
    moreover have "hunk_body (map ((#) CHR '' '') c @ ls) 1 [0] [(1, x')] = hunk_body ls (Suc (length c)) [0] [(1, x')]" for ls
      using hunk_context[of 1 c ls "[0]" "[(1, x')]"] assms(3) by simp
    moreover have "hunk_body [CHR ''-'' # y, CHR ''+'' # y', CHR '' '' # z] (Suc (length c)) [0] [(1, x')] =
        ([0, Suc (length c)], [(1, x'), (Suc (Suc (length c)), y')], [])"
      using assms(3) by simp
    ultimately show ?thesis by (simp only:)
  qed
  have "remove_lines [0, Suc (length c)] ([x] @ c @ [y, z] @ rest) = c @ [z] @ rest"
    by (simp add: remove_lines_def remove_at_def)
  moreover have "filter (\<lambda>r. r \<le> 1) [0, Suc (length c)] = [0]" using assms(2) by simp
  moreover have "insert_lines 1 0 [(1, x'), (Suc (Suc (length c)), y')] (c @ [z] @ rest) = [x'] @ c @ [z, y'] @ rest"
  proof -
    have u: "usize (int 1 - int 1 + int 0) = 0" "usize (int (Suc (Suc (length c))) - int 1 + int (0 + 1)) = Suc (Suc (length c))"
      using assms(3) by (simp_all add: usize_def)
    have i: "insert_at 0 x' (c @ [z] @ rest) = x' # c @ [z] @ rest"
      "insert_at (Suc (Suc (length c))) y' (x' # c @ [z] @ rest) = [x'] @ c @ [z, y'] @ rest"
      by (simp_all add: insert_at_def)
    have m: "min 0 (length (c @ [z] @ rest)) = 0"
      "min (Suc (Suc (length c))) (length (x' # c @ [z] @ rest)) = Suc (Suc (length c))" by simp_all
    show ?thesis by (simp only: insert_lines.simps u m i)
  qed
  ultimately have "apply_hunk [0, Suc (length c)] [(1, x'), (Suc (Suc (length c)), y')] ([x] @ c @ [y, z] @ rest) = [x'] @ c @ [z, y'] @ rest"
    by (simp add: apply_hunk_def Let_def del: filter.simps insert_lines.simps)
  with apply_patch_hunk[where re = re and l = header and start = 1 and offset = 0 and n = 0, OF assms(1) body] show ?thesis
    by simp
qed

text \<open>On a file with Windows line ends an edit that spans lines is reported as done but changes nothing.\<close>

theorem crlf_edit_lost:
  "edit_text (''a'' @ [CHR 0x0D, CHR 0x0A] @ ''b'' @ [CHR 0x0D, CHR 0x0A]) (''a'' @ [CHR 0x0A] @ ''b'') ''new'' False =
   ReplacedNormalized (''a'' @ [CHR 0x0D, CHR 0x0A] @ ''b'' @ [CHR 0x0D, CHR 0x0A])"
  by code_simp

subsection \<open>Witnesses\<close>

definition sample_header :: "nat \<Rightarrow> string" where
  "sample_header k = ''@@'' @ replicate k CHR ''1''"

definition sample_re :: hunk_regex where
  "sample_re l = (if prefix ''@@'' l then Some (int (length l - 2)) else None)"

theorem edit_replaces_one_witness:
  "\<exists>before after. ''abc'' = before @ ''b'' @ after \<and> ''axc'' = before @ ''x'' @ after \<and> \<not> sublist ''b'' after"
  by (rule edit_replaces_one) (code_simp, simp)

theorem patch_applies_diff_witness:
  "apply_patch sample_re (diff_lines sample_header 0
      [\<lparr>hk_skip = [''1''], hk_before = [''2''], hk_removed = [''3'', ''4''], hk_added = [''x''], hk_after = [''5'']\<rparr>,
       \<lparr>hk_skip = [], hk_before = [], hk_removed = [], hk_added = [''y''], hk_after = [''6'']\<rparr>])
     0 0 [''1'', ''2'', ''3'', ''4'', ''5'', ''6'', ''7''] = (2, [''1'', ''2'', ''x'', ''5'', ''y'', ''6'', ''7''])"
  using patch_applies_diff[of sample_re sample_header
      "[\<lparr>hk_skip = [''1''], hk_before = [''2''], hk_removed = [''3'', ''4''], hk_added = [''x''], hk_after = [''5'']\<rparr>,
       \<lparr>hk_skip = [], hk_before = [], hk_removed = [], hk_added = [''y''], hk_after = [''6'']\<rparr>]" "[''7'']"]
  by (simp add: sample_re_def sample_header_def hunk_size_def old_lines_def new_lines_def)

theorem second_change_misplaced_witness:
  "apply_patch sample_re [''@@1'', ''-a'', ''+A'', '' b'', ''-c'', ''+C'', '' d''] 0 0 [''a'', ''b'', ''c'', ''d'', ''e''] =
     (1, [''A'', ''b'', ''d'', ''C'', ''e''])"
  using second_change_misplaced[of sample_re "''@@1''" "[''b'']" "''a''" "''A''" "''c''" "''C''" "''d''" "[''e'']"]
  by (simp add: sample_re_def)

end
