(* ===== verification/Messages.thy ===== *)
theory Messages
  imports Json
begin

text \<open>
  The messages of a conversation (\<open>rockbot-config/src/message.rs\<close>) and the part of the messages the
  language-model clients exchange (\<open>rockbot-llm/src/lib.rs\<close>) that the agent reads. A constructor that
  calls the clock or the UUID generator takes the values they return as arguments. The text of a
  JSON value and the writing of a value to JSON are serde's and stay parameters.
\<close>

datatype message_role = RoleUser | RoleAssistant | RoleSystem | RoleTool

datatype system_level = LevelDebug | LevelInfo | LevelWarning | LevelError

record text_formatting =
  tf_bold :: bool
  tf_italic :: bool
  tf_strikethrough :: bool
  tf_underline :: bool
  tf_color :: "string option"

datatype content_block = TextBlock string text_formatting | CodeBlock string "string option"
  | ImageBlock string "string option" | ListBlock "string list" bool
  | TableBlock "string list" "string list list"

datatype message_tool_result = MsgText string | MsgJson json
  | MsgFile string "u8 list option" "string option" | MsgBinary "u8 list" "string option"
  | MsgError string "string option" "json option"

datatype message_content = Text string | Rich "content_block list" | ToolResultContent message_tool_result
  | SystemContent string system_level | ErrorContent string "string option"

record message_metadata =
  mm_role :: message_role
  mm_source :: "string option"
  mm_target :: "string option"
  mm_session_id :: "string option"
  mm_agent_id :: "string option"
  mm_channel :: "string option"
  mm_extra :: "string \<rightharpoonup> json"

record attachment =
  at_filename :: string
  at_mime_type :: "string option"
  at_size :: "nat option"
  at_data :: "u8 list option"
  at_url :: "string option"

record message =
  ms_id :: string
  ms_content :: message_content
  ms_metadata :: message_metadata
  ms_attachments :: "attachment list"
  ms_created_at :: datetime

abbreviation role_of :: "message \<Rightarrow> message_role" where
  "role_of m \<equiv> mm_role (ms_metadata m)"

abbreviation extra_of :: "message \<Rightarrow> string \<rightharpoonup> json" where
  "extra_of m \<equiv> mm_extra (ms_metadata m)"

subsection \<open>Constructors\<close>

definition default_metadata :: message_metadata where
  "default_metadata = \<lparr>mm_role = RoleUser, mm_source = None, mm_target = None, mm_session_id = None,
     mm_agent_id = None, mm_channel = None, mm_extra = Map.empty\<rparr>"

definition message_new :: "string \<Rightarrow> datetime \<Rightarrow> message_content \<Rightarrow> message" where
  "message_new uid now content = \<lparr>ms_id = uid, ms_content = content, ms_metadata = default_metadata,
     ms_attachments = [], ms_created_at = now\<rparr>"

definition message_text :: "string \<Rightarrow> datetime \<Rightarrow> string \<Rightarrow> message" where
  "message_text uid now s = message_new uid now (Text s)"

definition with_session_id :: "string \<Rightarrow> message \<Rightarrow> message" where
  "with_session_id sid m = m\<lparr>ms_metadata := (ms_metadata m)\<lparr>mm_session_id := Some sid\<rparr>\<rparr>"

definition with_agent_id :: "string \<Rightarrow> message \<Rightarrow> message" where
  "with_agent_id aid m = m\<lparr>ms_metadata := (ms_metadata m)\<lparr>mm_agent_id := Some aid\<rparr>\<rparr>"

definition with_role :: "message_role \<Rightarrow> message \<Rightarrow> message" where
  "with_role r m = m\<lparr>ms_metadata := (ms_metadata m)\<lparr>mm_role := r\<rparr>\<rparr>"

definition insert_extra :: "string \<Rightarrow> json \<Rightarrow> message \<Rightarrow> message" where
  "insert_extra k v m = m\<lparr>ms_metadata := (ms_metadata m)\<lparr>mm_extra := (extra_of m)(k \<mapsto> v)\<rparr>\<rparr>"

definition message_system :: "string \<Rightarrow> datetime \<Rightarrow> string \<Rightarrow> system_level \<Rightarrow> message" where
  "message_system uid now s level = with_role RoleSystem (message_new uid now (SystemContent s level))"

definition message_tool_result :: "string \<Rightarrow> datetime \<Rightarrow> string \<Rightarrow> string \<Rightarrow> string \<Rightarrow> message" where
  "message_tool_result uid now call_id name content =
     insert_extra ''tool_name'' (JStr name) (insert_extra ''tool_call_id'' (JStr call_id)
       (with_role RoleTool (message_new uid now (ToolResultContent (MsgText content)))))"

subsection \<open>The text of a message\<close>

fun join_lines :: "string list \<Rightarrow> string" where
  "join_lines [] = []"
| "join_lines [s] = s"
| "join_lines (s # t # ss) = s @ [CHR 0x0A] @ join_lines (t # ss)"

fun block_text :: "content_block \<Rightarrow> string list" where
  "block_text (TextBlock t _) = [t]"
| "block_text (CodeBlock code _) = [code]"
| "block_text (ListBlock items _) = items"
| "block_text _ = []"

fun extract_text :: "(json \<Rightarrow> string) \<Rightarrow> message_content \<Rightarrow> string option" where
  "extract_text show_json (Text t) = Some t"
| "extract_text show_json (Rich blocks) =
     (let parts = concat (map block_text blocks) in if parts = [] then None else Some (join_lines parts))"
| "extract_text show_json (ToolResultContent (MsgText t)) = Some t"
| "extract_text show_json (ToolResultContent (MsgJson d)) = Some (show_json d)"
| "extract_text show_json (ToolResultContent _) = None"
| "extract_text show_json (SystemContent s _) = Some s"
| "extract_text show_json (ErrorContent e _) = Some e"

definition text_or_empty :: "(json \<Rightarrow> string) \<Rightarrow> message \<Rightarrow> string" where
  "text_or_empty show_json m = (case extract_text show_json (ms_content m) of Some t \<Rightarrow> t | None \<Rightarrow> [])"

subsection \<open>Language-model messages\<close>

record tool_call =
  tcl_id :: string
  tcl_type :: string
  tcl_name :: string
  tcl_arguments :: string

record llm_message =
  lm_role :: message_role
  lm_content :: string
  lm_images :: "(string \<times> string) list"
  lm_tool_calls :: "tool_call list option"
  lm_tool_call_id :: "string option"

definition from_llm_message ::
  "(tool_call list \<Rightarrow> json option) \<Rightarrow> string \<Rightarrow> datetime \<Rightarrow> llm_message \<Rightarrow> string \<Rightarrow> string \<Rightarrow> message" where
  "from_llm_message to_value uid now lm session_id agent_id =
     (let msg = with_role (lm_role lm) (with_agent_id agent_id (with_session_id session_id
                  (message_text uid now (lm_content lm))));
          msg = (case lm_tool_calls lm of
                   Some (c # cs) \<Rightarrow> (case to_value (c # cs) of
                       Some v \<Rightarrow> insert_extra ''tool_calls'' v msg | None \<Rightarrow> msg)
                 | _ \<Rightarrow> msg)
      in case lm_tool_call_id lm of
           Some i \<Rightarrow> insert_extra ''tool_call_id'' (JStr i) msg | None \<Rightarrow> msg)"

lemmas message_defs = message_new_def message_text_def message_system_def with_session_id_def with_agent_id_def
  with_role_def insert_extra_def default_metadata_def

lemma from_llm_message_role [simp]: "role_of (from_llm_message f uid now lm sid aid) = lm_role lm"
  by (auto simp: from_llm_message_def message_defs Let_def split: option.splits list.splits)

lemma from_llm_message_content [simp]:
  "ms_content (from_llm_message f uid now lm sid aid) = Text (lm_content lm)"
  by (auto simp: from_llm_message_def message_defs Let_def split: option.splits list.splits)

lemma from_llm_message_created [simp]:
  "ms_id (from_llm_message f uid now lm sid aid) = uid"
  "ms_created_at (from_llm_message f uid now lm sid aid) = now"
  by (auto simp: from_llm_message_def message_defs Let_def split: option.splits list.splits)

lemma from_llm_message_calls:
  assumes "lm_tool_calls lm = Some calls" "calls \<noteq> []" "f calls = Some v" "lm_tool_call_id lm = None"
  shows "extra_of (from_llm_message f uid now lm sid aid) ''tool_calls'' = Some v"
proof -
  from assms(2) obtain c cs where "calls = c # cs" by (cases calls) auto
  with assms show ?thesis by (simp add: from_llm_message_def message_defs Let_def)
qed

lemma message_tool_result_simps [simp]:
  "role_of (message_tool_result uid now i n c) = RoleTool"
  "extra_of (message_tool_result uid now i n c) ''tool_call_id'' = Some (JStr i)"
  "ms_content (message_tool_result uid now i n c) = ToolResultContent (MsgText c)"
  by (simp_all add: message_tool_result_def message_defs)

lemma with_session_id_simps [simp]:
  "role_of (with_session_id sid m) = role_of m" "extra_of (with_session_id sid m) = extra_of m"
  "ms_content (with_session_id sid m) = ms_content m" "ms_id (with_session_id sid m) = ms_id m"
  "ms_created_at (with_session_id sid m) = ms_created_at m"
  by (simp_all add: with_session_id_def)

end
