(* ===== verification/RowCache.thy ===== *)
theory RowCache
  imports Store
begin

text \<open>
  Tables of serialised rows with a map of the decoded rows kept in memory: the pattern of the session
  manager, the routing engine and the cron scheduler. \<open>decoded\<close> is the abstract content of a table;
  the locale \<open>row_table\<close> adds to the laws of the database that serde reads back what it wrote and
  gives the clients the effect of every store operation on the abstract content.
\<close>

definition decoded :: "('v \<Rightarrow> 'e + 'x) \<Rightarrow> (string \<rightharpoonup> 'v) \<Rightarrow> (string \<rightharpoonup> 'x)" where
  "decoded dec m = (\<lambda>k. case m k of None \<Rightarrow> None | Some v \<Rightarrow> (case dec v of Inl _ \<Rightarrow> None | Inr x \<Rightarrow> Some x))"

definition keyed :: "('x \<Rightarrow> string) \<Rightarrow> (string \<rightharpoonup> 'x) \<Rightarrow> bool" where
  "keyed ident c \<longleftrightarrow> (\<forall>k x. c k = Some x \<longrightarrow> ident x = k)"

text \<open>Loading a table into a map, skipping the rows that do not decode.\<close>

definition insert_row :: "('x \<Rightarrow> string) \<Rightarrow> 'x \<Rightarrow> (string \<rightharpoonup> 'x) \<Rightarrow> (string \<rightharpoonup> 'x)" where
  "insert_row ident x c = c(ident x \<mapsto> x)"

fun load_rows :: "('v \<Rightarrow> 'e + 'x) \<Rightarrow> ('x \<Rightarrow> string) \<Rightarrow> (string \<times> 'v) list \<Rightarrow> (string \<rightharpoonup> 'x) \<Rightarrow> (string \<rightharpoonup> 'x)" where
  "load_rows dec ident [] c = c"
| "load_rows dec ident ((k, v) # rows) c =
     load_rows dec ident rows (case dec v of Inr x \<Rightarrow> insert_row ident x c | Inl _ \<Rightarrow> c)"

lemma decoded_empty [simp]: "decoded dec Map.empty = Map.empty"
  by (simp add: decoded_def)

lemma decoded_upd: "dec v = Inr x \<Longrightarrow> decoded dec (m(k \<mapsto> v)) = (decoded dec m)(k \<mapsto> x)"
  by (auto simp: decoded_def fun_eq_iff)

lemma decoded_del: "decoded dec (m(k := None)) = (decoded dec m)(k := None)"
  by (auto simp: decoded_def fun_eq_iff)

lemma decoded_Some: "decoded dec m k = Some x \<longleftrightarrow> (\<exists>v. m k = Some v \<and> dec v = Inr x)"
  by (auto simp: decoded_def split: option.splits sum.splits)

lemma keyedD: "keyed ident c \<Longrightarrow> c k = Some x \<Longrightarrow> ident x = k"
  by (simp add: keyed_def)

lemma keyed_upd: "keyed ident c \<Longrightarrow> keyed ident (c(ident x \<mapsto> x))"
  by (simp add: keyed_def)

lemma keyed_del: "keyed ident c \<Longrightarrow> keyed ident (c(k := None))"
  by (simp add: keyed_def)

lemma keyed_sub: "keyed ident c \<Longrightarrow> c' \<subseteq>\<^sub>m c \<Longrightarrow> keyed ident c'"
proof -
  assume k: "keyed ident c" and s: "c' \<subseteq>\<^sub>m c"
  have "ident x = i" if "c' i = Some x" for i x
  proof -
    have "c i = Some x" using s that by (auto simp: map_le_def dom_def)
    with k show ?thesis by (rule keyedD)
  qed
  then show ?thesis by (simp add: keyed_def)
qed

lemma load_rows_decoded:
  assumes "distinct (map fst rows)" "\<And>k v x. (k, v) \<in> set rows \<Longrightarrow> dec v = Inr x \<Longrightarrow> ident x = k"
  shows "load_rows dec ident rows c = c ++ decoded dec (map_of rows)"
  using assms
proof (induction rows arbitrary: c)
  case (Cons r rows)
  obtain k v where r: "r = (k, v)" by (cases r)
  have new: "map_of rows k = None" using Cons.prems(1) by (simp add: r map_of_eq_None_iff)
  have ih: "load_rows dec ident rows c' = c' ++ decoded dec (map_of rows)" for c'
  proof (rule Cons.IH)
    show "distinct (map fst rows)" using Cons.prems(1) by (simp add: r)
    show "ident x = k" if "(k, v) \<in> set rows" "dec v = Inr x" for k v x
      using that by (intro Cons.prems(2)) (simp_all add: r)
  qed
  show ?case
  proof (cases "dec v")
    case (Inl e)
    then have "decoded dec ((map_of rows)(k \<mapsto> v)) = decoded dec (map_of rows)"
      using new by (auto simp: decoded_def fun_eq_iff)
    with Inl show ?thesis by (simp add: r ih del: fun_upd_apply)
  next
    case (Inr x)
    then have "ident x = k" using Cons.prems(2)[of k v x] by (simp add: r)
    with Inr new show ?thesis
      by (auto simp: r ih insert_row_def decoded_upd map_add_def fun_eq_iff decoded_def split: option.splits)
  qed
qed simp

locale row_table = redb_laws rb dbv txv
  for rb :: "('db, 'tx, 'v, 'e) redb" and dbv :: "'db \<Rightarrow> 'v contents" and txv :: "'tx \<Rightarrow> 'v contents" +
  fixes enc :: "'x \<Rightarrow> 'e + 'v" and dec :: "'v \<Rightarrow> 'e + 'x"
  assumes codec: "enc x = Inr v \<Longrightarrow> dec v = Inr x"
begin

definition rows :: "'db \<Rightarrow> table \<Rightarrow> (string \<rightharpoonup> 'x)" where
  "rows db t = decoded dec (view db t)"

lemma put_rows:
  assumes "put_json rb enc t k x db = Inr db'"
  shows "rows db' t = (rows db t)(k \<mapsto> x)" "t' \<noteq> t \<Longrightarrow> view db' t' = view db t'"
    "\<exists>v. enc x = Inr v \<and> view db' t = (view db t)(k \<mapsto> v)"
proof -
  from assms obtain v where v: "enc x = Inr v" "store_put rb t k v db = Inr db'"
    by (auto simp: put_json_def sbind_Inr_iff)
  note p = put_view[OF v(2)]
  show "rows db' t = (rows db t)(k \<mapsto> x)" 
    using decoded_upd[where dec = dec and v = v and x = x, OF codec[OF v(1)]] by (simp add: rows_def p)
  show "t' \<noteq> t \<Longrightarrow> view db' t' = view db t'" by (simp add: p)
  show "\<exists>v. enc x = Inr v \<and> view db' t = (view db t)(k \<mapsto> v)" using v(1) by (simp add: p)
qed

lemma delete_rows:
  assumes "store_delete rb t k db = Inr (db', b)"
  shows "rows db' t = (rows db t)(k := None)" "t' \<noteq> t \<Longrightarrow> view db' t' = view db t'"
    "view db' t = (view db t)(k := None)" "b = (view db t k \<noteq> None)"
  using delete_view[OF assms] by (simp_all add: rows_def decoded_del)

lemma get_rows: "get_json rb dec t k db = Inr r \<Longrightarrow> r = rows db t k"
proof -
  assume "get_json rb dec t k db = Inr r"
  then obtain o' where o: "store_get rb t k db = Inr o'"
    and r: "(case o' of Some bytes \<Rightarrow> sbind (dec bytes) (\<lambda>x. Inr (Some x)) | None \<Rightarrow> Inr None) = Inr r"
    by (auto simp: get_json_def sbind_Inr_iff)
  have e: "view db t k = o'" using get_view[OF o] by simp
  show ?thesis using r by (cases o') (auto simp: rows_def decoded_def sbind_Inr_iff e)
qed

lemma load_rows_store:
  assumes "store_list rb t db = Inr raw" "keyed ident (rows db t)"
  shows "load_rows dec ident raw Map.empty = rows db t"
proof -
  from list_view[OF assms(1)] have v: "map_of raw = view db t" "distinct (map fst raw)" by auto
  have "ident x = k" if "(k, v) \<in> set raw" "dec v = Inr x" for k v x
  proof -
    have "map_of raw k = Some v" using v(2) that(1) by (rule map_of_is_SomeI)
    then have "rows db t k = Some x" using that(2) by (simp add: v(1) rows_def decoded_Some)
    with assms(2) show ?thesis by (rule keyedD)
  qed
  then show ?thesis using load_rows_decoded[OF v(2), of dec ident Map.empty] by (simp add: v(1) rows_def)
qed

lemma load_keyed:
  assumes "store_list rb t db = Inr raw" "\<And>k v x. view db t k = Some v \<Longrightarrow> dec v = Inr x \<Longrightarrow> ident x = k"
  shows "load_rows dec ident raw Map.empty = rows db t"
proof (rule load_rows_store[OF assms(1)])
  have "ident x = k" if "rows db t k = Some x" for k x
  proof -
    from that obtain v where "view db t k = Some v" "dec v = Inr x" by (auto simp: rows_def decoded_Some)
    then show ?thesis by (rule assms(2))
  qed
  then show "keyed ident (rows db t)" by (simp add: keyed_def)
qed

end

end
