(* ===== verification/Sessions.thy ===== *)
theory Sessions
  imports Messages RowCache
begin

text \<open>
  The session manager (\<open>rockbot-session/src/lib.rs\<close>): sessions and their messages in two tables of the
  store, and a map of the sessions used so far. Each operation is one transition; the clock and the
  UUID generator are arguments. A session identifier in the store is a UUID and holds no NUL byte,
  which the key format of the messages relies on.
\<close>

subsection \<open>Data\<close>

record token_stats =
  tk_input :: nat
  tk_output :: nat
  tk_total :: nat

datatype budget_status = BudgetNormal | BudgetWarning | BudgetCritical

record budget_snapshot =
  bs_estimated_input :: nat
  bs_max_context :: nat
  bs_utilization :: u8
  bs_status :: budget_status
  bs_updated_at :: datetime

record session_memory =
  sy_working_summary :: string
  sy_last_user_intent :: "string option"
  sy_recent_tools :: "string list"
  sy_context_budget :: "budget_snapshot option"

datatype session_state = SessActive | SessPaused | SessArchived | SessError string

record session =
  ss_id :: string
  ss_agent_id :: string
  ss_session_key :: string
  ss_created_at :: datetime
  ss_updated_at :: datetime
  ss_token_stats :: token_stats
  ss_memory :: session_memory
  ss_metadata :: "string \<rightharpoonup> json"
  ss_state :: session_state

record session_query =
  q_agent_id :: "string option"
  q_session_key :: "string option"
  q_state :: "session_state option"
  q_exclude_archived :: bool
  q_created_after :: "datetime option"
  q_created_before :: "datetime option"
  q_limit :: "nat option"
  q_offset :: "nat option"

record stored_message =
  sg_id :: int
  sg_session_id :: string
  sg_message :: message

record message_history =
  mh_messages :: "stored_message list"
  mh_total_count :: nat

record session_statistics =
  st_total_sessions :: nat
  st_active_sessions :: nat
  st_total_messages :: nat
  st_total_tokens :: nat

datatype 'e session_error = SessionNotFound string | SessionLimitExceeded | SessionStorage 'e

record 'db session_manager =
  sn_sessions :: "string \<rightharpoonup> session"
  sn_store :: 'db
  sn_max_sessions :: nat

record ('db, 'tx, 'v, 'e) session_env =
  se_rb :: "('db, 'tx, 'v, 'e) redb"
  se_session :: "(session \<Rightarrow> 'e + 'v) \<times> ('v \<Rightarrow> 'e + session)"
  se_message :: "(message \<Rightarrow> 'e + 'v) \<times> ('v \<Rightarrow> 'e + message)"
  se_show_state :: "session_state \<Rightarrow> string option"

type_synonym ('db, 'e, 'a) sn = "('db session_manager, 'e session_error, 'a) sx"

subsection \<open>A session\<close>

definition session_new :: "string \<Rightarrow> datetime \<Rightarrow> string \<Rightarrow> string \<Rightarrow> session" where
  "session_new uid now agent_id session_key =
     \<lparr>ss_id = uid, ss_agent_id = agent_id, ss_session_key = session_key, ss_created_at = now,
      ss_updated_at = now, ss_token_stats = \<lparr>tk_input = 0, tk_output = 0, tk_total = 0\<rparr>,
      ss_memory = \<lparr>sy_working_summary = [], sy_last_user_intent = None, sy_recent_tools = [], sy_context_budget = None\<rparr>,
      ss_metadata = Map.empty, ss_state = SessActive\<rparr>"

definition add_tokens :: "datetime \<Rightarrow> nat \<Rightarrow> nat \<Rightarrow> session \<Rightarrow> session" where
  "add_tokens now input output s =
     s\<lparr>ss_token_stats := (let t = ss_token_stats s in
          \<lparr>tk_input = wadd (tk_input t) input, tk_output = wadd (tk_output t) output,
           tk_total = wadd (tk_total t) (wadd input output)\<rparr>),
       ss_updated_at := now\<rparr>"

definition set_state :: "datetime \<Rightarrow> session_state \<Rightarrow> session \<Rightarrow> session" where
  "set_state now st s = s\<lparr>ss_state := st, ss_updated_at := now\<rparr>"

definition set_metadata :: "datetime \<Rightarrow> string \<Rightarrow> json \<Rightarrow> session \<Rightarrow> session" where
  "set_metadata now k v s = s\<lparr>ss_metadata := (ss_metadata s)(k \<mapsto> v), ss_updated_at := now\<rparr>"

definition session_update_working_memory ::
  "datetime \<Rightarrow> string \<Rightarrow> string option \<Rightarrow> string list \<Rightarrow> session \<Rightarrow> session" where
  "session_update_working_memory now summary intent tools s =
     s\<lparr>ss_memory := (ss_memory s)\<lparr>sy_working_summary := summary, sy_last_user_intent := intent,
                                  sy_recent_tools := tools\<rparr>, ss_updated_at := now\<rparr>"

definition utilization_percent :: "nat \<Rightarrow> nat \<Rightarrow> u8" where
  "utilization_percent estimated max_context =
     (if max_context = 0 then 0 else of_nat (min (sat_mul estimated 100 div max_context) 100))"

definition budget_status :: "u8 \<Rightarrow> budget_status" where
  "budget_status p = (if 90 \<le> p then BudgetCritical else if 75 \<le> p then BudgetWarning else BudgetNormal)"

definition session_update_context_budget :: "datetime \<Rightarrow> nat \<Rightarrow> nat \<Rightarrow> session \<Rightarrow> session" where
  "session_update_context_budget now estimated max_context s =
     (let p = utilization_percent estimated max_context in
      s\<lparr>ss_memory := (ss_memory s)\<lparr>sy_context_budget := Some
          \<lparr>bs_estimated_input = estimated, bs_max_context = max_context, bs_utilization = p,
           bs_status = budget_status p, bs_updated_at = now\<rparr>\<rparr>, ss_updated_at := now\<rparr>)"

definition is_active :: "session \<Rightarrow> bool" where
  "is_active s \<longleftrightarrow> ss_state s = SessActive"

subsection \<open>Keys of the messages\<close>

definition session_messages_prefix :: "string \<Rightarrow> string" where
  "session_messages_prefix sid = sid @ [CHR 0x00]"

definition session_messages_range :: "string \<Rightarrow> string \<times> string" where
  "session_messages_range sid = (session_messages_prefix sid, sid @ [CHR 0x01])"

text \<open>\<open>timestamp_millis\<close> of an instant in nanoseconds, and \<open>{:020}\<close> of it.\<close>

definition timestamp_millis :: "datetime \<Rightarrow> int" where
  "timestamp_millis t = t div 1000000"

definition show_millis :: "int \<Rightarrow> string" where
  "show_millis i = (if 0 \<le> i then dec_pad 20 (nat i) else CHR ''-'' # dec_pad 19 (nat (- i)))"

definition session_message_key :: "string \<Rightarrow> message \<Rightarrow> string" where
  "session_message_key sid m =
     session_messages_prefix sid @ show_millis (timestamp_millis (ms_created_at m)) @ [CHR 0x00] @ ms_id m"

subsection \<open>Operations of the manager\<close>

text \<open>\<open>sn_read\<close> runs a read of the store, \<open>sn_write\<close> a write; the error of either is passed on.\<close>

definition sn_read :: "('db \<Rightarrow> 'e + 'a) \<Rightarrow> ('db, 'e, 'a) sn" where
  "sn_read f s = (case f (sn_store s) of Inl e \<Rightarrow> (Inl (SessionStorage e), s) | Inr x \<Rightarrow> (Inr x, s))"

definition sn_write :: "('db \<Rightarrow> 'e + 'db \<times> 'a) \<Rightarrow> ('db, 'e, 'a) sn" where
  "sn_write f s = (case f (sn_store s) of Inl e \<Rightarrow> (Inl (SessionStorage e), s)
     | Inr (db, x) \<Rightarrow> (Inr x, s\<lparr>sn_store := db\<rparr>))"

definition cache_session :: "session \<Rightarrow> ('db, 'e, unit) sn" where
  "cache_session x = sx_update (\<lambda>s. s\<lparr>sn_sessions := (sn_sessions s)(ss_id x \<mapsto> x)\<rparr>)"

definition uncache_session :: "string \<Rightarrow> ('db, 'e, unit) sn" where
  "uncache_session sid = sx_update (\<lambda>s. s\<lparr>sn_sessions := (sn_sessions s)(sid := None)\<rparr>)"

definition load_all_sessions :: "('db, 'tx, 'v, 'e) session_env \<Rightarrow> ('db, 'e, session list) sn" where
  "load_all_sessions env = sn_read (\<lambda>db. sbind (store_list (se_rb env) SESSIONS db)
     (collect (\<lambda>(_, bytes). snd (se_session env) bytes)))"

definition persist_session :: "('db, 'tx, 'v, 'e) session_env \<Rightarrow> session \<Rightarrow> ('db, 'e, unit) sn" where
  "persist_session env x = sn_write (\<lambda>db. sbind (put_json (se_rb env) (fst (se_session env)) SESSIONS (ss_id x) x db)
     (\<lambda>db. Inr (db, ())))"

definition create_session ::
  "('db, 'tx, 'v, 'e) session_env \<Rightarrow> string \<Rightarrow> datetime \<Rightarrow> string \<Rightarrow> string \<Rightarrow> ('db, 'e, session) sn" where
  "create_session env uid now agent_id session_key =
     sx_bind (load_all_sessions env) (\<lambda>existing s.
       if sn_max_sessions s \<le> length existing then (Inl SessionLimitExceeded, s)
       else (let x = session_new uid now agent_id session_key in
         sx_bind (persist_session env x) (\<lambda>_. sx_bind (cache_session x) (\<lambda>_. sx_return x))) s)"

definition get_session :: "('db, 'tx, 'v, 'e) session_env \<Rightarrow> string \<Rightarrow> ('db, 'e, session option) sn" where
  "get_session env sid s =
     (case sn_sessions s sid of
        Some x \<Rightarrow> (Inr (Some x), s)
      | None \<Rightarrow>
          sx_bind (sn_read (get_json (se_rb env) (snd (se_session env)) SESSIONS sid)) (\<lambda>r.
            case r of None \<Rightarrow> sx_return None
            | Some x \<Rightarrow> sx_bind (cache_session x) (\<lambda>_. sx_return (Some x))) s)"

text \<open>\<open>sort_by_key\<close> is stable; \<open>Reverse\<close> turns the order of the keys around.\<close>

definition newest_first :: "session list \<Rightarrow> session list" where
  "newest_first = sort_key (\<lambda>x. - ss_updated_at x)"

definition find_by_session_key ::
  "('db, 'tx, 'v, 'e) session_env \<Rightarrow> string \<Rightarrow> ('db, 'e, session option) sn" where
  "find_by_session_key env session_key =
     sx_bind (load_all_sessions env) (\<lambda>all.
       case newest_first (filter (\<lambda>x. ss_session_key x = session_key) all) of
         [] \<Rightarrow> sx_return None
       | x # _ \<Rightarrow> sx_bind (cache_session x) (\<lambda>_. sx_return (Some x)))"

definition update_session :: "('db, 'tx, 'v, 'e) session_env \<Rightarrow> session \<Rightarrow> ('db, 'e, unit) sn" where
  "update_session env x = sx_bind (persist_session env x) (\<lambda>_. cache_session x)"

definition existing_session :: "('db, 'tx, 'v, 'e) session_env \<Rightarrow> string \<Rightarrow> ('db, 'e, session) sn" where
  "existing_session env sid = sx_bind (get_session env sid) (\<lambda>r.
     case r of None \<Rightarrow> sx_throw (SessionNotFound sid) | Some x \<Rightarrow> sx_return x)"

definition update_working_memory ::
  "('db, 'tx, 'v, 'e) session_env \<Rightarrow> datetime \<Rightarrow> string \<Rightarrow> string \<Rightarrow> string option \<Rightarrow> string list \<Rightarrow> ('db, 'e, unit) sn" where
  "update_working_memory env now sid summary intent tools =
     sx_bind (existing_session env sid) (\<lambda>x.
       update_session env (session_update_working_memory now summary intent tools x))"

definition update_context_budget ::
  "('db, 'tx, 'v, 'e) session_env \<Rightarrow> datetime \<Rightarrow> string \<Rightarrow> nat \<Rightarrow> nat \<Rightarrow> ('db, 'e, unit) sn" where
  "update_context_budget env now sid estimated max_context =
     sx_bind (existing_session env sid) (\<lambda>x.
       update_session env (session_update_context_budget now estimated max_context x))"

definition add_message :: "('db, 'tx, 'v, 'e) session_env \<Rightarrow> string \<Rightarrow> message \<Rightarrow> ('db, 'e, unit) sn" where
  "add_message env sid m = sn_write (\<lambda>db.
     sbind (put_json (se_rb env) (fst (se_message env)) SESSION_MESSAGES (session_message_key sid m) m db)
       (\<lambda>db. Inr (db, ())))"

definition get_message_history ::
  "('db, 'tx, 'v, 'e) session_env \<Rightarrow> string \<Rightarrow> nat option \<Rightarrow> nat option \<Rightarrow> ('db, 'e, message_history) sn" where
  "get_message_history env sid limit offset =
     sn_read (\<lambda>db. let (lo, hi) = session_messages_range sid in
       sbind (store_range (se_rb env) SESSION_MESSAGES lo hi db) (\<lambda>records.
       let total = length records;
           limit = (case limit of Some l \<Rightarrow> l | None \<Rightarrow> 100);
           offset = (case offset of Some n \<Rightarrow> n | None \<Rightarrow> 0) in
       sbind (collect (\<lambda>(idx, (_, bytes)). sbind (snd (se_message env) bytes) (\<lambda>m.
           Inr \<lparr>sg_id = int (offset + idx + 1), sg_session_id = sid, sg_message = m\<rparr>))
         (List.enumerate 0 (take limit (drop offset records)))) (\<lambda>messages.
       Inr \<lparr>mh_messages = messages, mh_total_count = total\<rparr>)))"

definition query_keeps :: "('db, 'tx, 'v, 'e) session_env \<Rightarrow> session_query \<Rightarrow> session \<Rightarrow> bool" where
  "query_keeps env q x \<longleftrightarrow>
     (case q_agent_id q of Some a \<Rightarrow> ss_agent_id x = a | None \<Rightarrow> True) \<and>
     (case q_session_key q of Some k \<Rightarrow> ss_session_key x = k | None \<Rightarrow> True) \<and>
     (case q_state q of Some st \<Rightarrow> se_show_state env (ss_state x) = se_show_state env st | None \<Rightarrow> True) \<and>
     \<not> (q_exclude_archived q \<and> ss_state x = SessArchived) \<and>
     (case q_created_after q of Some t \<Rightarrow> t \<le> ss_created_at x | None \<Rightarrow> True) \<and>
     (case q_created_before q of Some t \<Rightarrow> ss_created_at x \<le> t | None \<Rightarrow> True)"

definition query_sessions ::
  "('db, 'tx, 'v, 'e) session_env \<Rightarrow> session_query \<Rightarrow> ('db, 'e, session list) sn" where
  "query_sessions env q =
     sx_bind (load_all_sessions env) (\<lambda>all.
       let found = newest_first (filter (query_keeps env q) all);
           offset = (case q_offset q of Some n \<Rightarrow> n | None \<Rightarrow> 0);
           limit = (case q_limit q of Some n \<Rightarrow> n | None \<Rightarrow> length found) in
       sx_return (take limit (drop offset found)))"

definition archive_session :: "('db, 'tx, 'v, 'e) session_env \<Rightarrow> datetime \<Rightarrow> string \<Rightarrow> ('db, 'e, unit) sn" where
  "archive_session env now sid =
     sx_bind (existing_session env sid) (\<lambda>x.
     sx_bind (update_session env (set_state now SessArchived x)) (\<lambda>_. uncache_session sid))"

definition delete_row :: "('db, 'tx, 'v, 'e) session_env \<Rightarrow> table \<Rightarrow> string \<Rightarrow> ('db, 'e, bool) sn" where
  "delete_row env t k = sn_write (store_delete (se_rb env) t k)"

definition delete_session :: "('db, 'tx, 'v, 'e) session_env \<Rightarrow> string \<Rightarrow> ('db, 'e, unit) sn" where
  "delete_session env sid =
     sx_bind (delete_row env SESSIONS sid) (\<lambda>deleted.
     if \<not> deleted then sx_throw (SessionNotFound sid)
     else sx_bind (sn_read (\<lambda>db. let (lo, hi) = session_messages_range sid in
              store_range (se_rb env) SESSION_MESSAGES lo hi db)) (\<lambda>records.
          sx_bind (each (\<lambda>(key, _). sx_bind (delete_row env SESSION_MESSAGES key) (\<lambda>_. sx_return ())) records) (\<lambda>_.
          uncache_session sid)))"

definition get_statistics :: "('db, 'tx, 'v, 'e) session_env \<Rightarrow> ('db, 'e, session_statistics) sn" where
  "get_statistics env =
     sx_bind (load_all_sessions env) (\<lambda>all.
     sx_bind (sn_read (store_list (se_rb env) SESSION_MESSAGES)) (\<lambda>rows.
     sx_return \<lparr>st_total_sessions = length all, st_active_sessions = length (filter is_active all),
        st_total_messages = length rows, st_total_tokens = foldl (\<lambda>n x. wadd n (tk_total (ss_token_stats x))) 0 all\<rparr>))"

subsection \<open>Reachable states\<close>

text \<open>The contents of the two tables. Deleting a session can fail after its row is gone; the sequences
  of operations below contain the deletions that ended or found no session.\<close>

definition session_rows :: "('db, 'tx, 'v, 'e) session_env \<Rightarrow> ('db \<Rightarrow> 'v contents) \<Rightarrow> 'db \<Rightarrow> (string \<rightharpoonup> session)" where
  "session_rows env dbv db = decoded (snd (se_session env)) (redb_laws.view dbv db SESSIONS)"

definition message_rows :: "('db, 'tx, 'v, 'e) session_env \<Rightarrow> ('db \<Rightarrow> 'v contents) \<Rightarrow> 'db \<Rightarrow> (string \<rightharpoonup> message)" where
  "message_rows env dbv db = decoded (snd (se_message env)) (redb_laws.view dbv db SESSION_MESSAGES)"

definition recordable :: "string \<Rightarrow> message \<Rightarrow> bool" where
  "recordable sid m \<longleftrightarrow> CHR 0x00 \<notin> set sid \<and> 0 \<le> ms_created_at m \<and> timestamp_millis (ms_created_at m) < 2 ^ 63"

inductive sn_reachable ::
  "('db, 'tx, 'v, 'e) session_env \<Rightarrow> ('db \<Rightarrow> 'v contents) \<Rightarrow> 'db session_manager \<Rightarrow> bool"
  for env dbv where
  fresh: "redb_laws.view dbv db SESSIONS = Map.empty \<Longrightarrow> redb_laws.view dbv db SESSION_MESSAGES = Map.empty \<Longrightarrow>
     sn_reachable env dbv \<lparr>sn_sessions = Map.empty, sn_store = db, sn_max_sessions = n\<rparr>"
| reopen: "sn_reachable env dbv s \<Longrightarrow> sn_reachable env dbv (s\<lparr>sn_sessions := Map.empty, sn_max_sessions := n\<rparr>)"
| create: "sn_reachable env dbv s \<Longrightarrow> create_session env uid now agent key s = (r, s') \<Longrightarrow> sn_reachable env dbv s'"
| fetch: "sn_reachable env dbv s \<Longrightarrow> get_session env sid s = (r, s') \<Longrightarrow> sn_reachable env dbv s'"
| search: "sn_reachable env dbv s \<Longrightarrow> find_by_session_key env key s = (r, s') \<Longrightarrow> sn_reachable env dbv s'"
| update: "sn_reachable env dbv s \<Longrightarrow> update_session env x s = (r, s') \<Longrightarrow> sn_reachable env dbv s'"
| remember: "sn_reachable env dbv s \<Longrightarrow> update_working_memory env now sid summary intent tools s = (r, s') \<Longrightarrow>
     sn_reachable env dbv s'"
| budget: "sn_reachable env dbv s \<Longrightarrow> update_context_budget env now sid est mx s = (r, s') \<Longrightarrow> sn_reachable env dbv s'"
| message: "sn_reachable env dbv s \<Longrightarrow> recordable sid m \<Longrightarrow> add_message env sid m s = (r, s') \<Longrightarrow>
     sn_reachable env dbv s'"
| archive: "sn_reachable env dbv s \<Longrightarrow> archive_session env now sid s = (r, s') \<Longrightarrow> sn_reachable env dbv s'"
| delete: "sn_reachable env dbv s \<Longrightarrow> delete_session env sid s = (r, s') \<Longrightarrow>
     r = Inr () \<or> r = Inl (SessionNotFound sid) \<Longrightarrow> sn_reachable env dbv s'"

lemma sn_read_simps [simp]:
  "sn_read f s = (Inr x, s') \<longleftrightarrow> f (sn_store s) = Inr x \<and> s' = s"
  "sn_read f s = (Inl err, s') \<longleftrightarrow> (\<exists>e. f (sn_store s) = Inl e \<and> err = SessionStorage e) \<and> s' = s"
  by (auto simp: sn_read_def split: sum.splits)

lemma sn_write_simps [simp]:
  "sn_write f s = (Inr x, s') \<longleftrightarrow> (\<exists>db. f (sn_store s) = Inr (db, x) \<and> s' = s\<lparr>sn_store := db\<rparr>)"
  "sn_write f s = (Inl err, s') \<longleftrightarrow> (\<exists>e. f (sn_store s) = Inl e \<and> err = SessionStorage e) \<and> s' = s"
  by (auto simp: sn_write_def split: sum.splits)

lemma each_storage_error:
  "each (\<lambda>(key, _). sx_bind (delete_row env t key) (\<lambda>_. sx_return ())) records s = (Inl err, s') \<Longrightarrow> \<exists>e. err = SessionStorage e"
  by (induction records arbitrary: s)
    (auto simp: sx_bind_Inl_iff delete_row_def sn_write_def split: sum.splits)

subsection \<open>The order of the keys\<close>

lemma char_digit_less: "a < 10 \<Longrightarrow> b < 10 \<Longrightarrow> (char_of (48 + a) :: char) < char_of (48 + b) \<longleftrightarrow> a < b"
  for a b :: nat
  by (simp add: less_char_def of_char_of)

lemma dec_pad_less: "i < j \<Longrightarrow> j < 10 ^ w \<Longrightarrow> dec_pad w i @ s < dec_pad w j @ t"
proof (induction w arbitrary: i j)
  case (Suc w)
  have d: "i div 10 ^ w < 10" "j div 10 ^ w < 10" using Suc.prems by (simp_all add: less_mult_imp_div_less)
  show ?case
  proof (cases "i div 10 ^ w = j div 10 ^ w")
    case True
    then have "i mod 10 ^ w < j mod 10 ^ w"
      using Suc.prems(1) by (metis div_mult_mod_eq nat_add_left_cancel_less)
    from Suc.IH[OF this] have "dec_pad w i @ s < dec_pad w j @ t" by (simp add: dec_pad_mod)
    with True show ?thesis by (simp add: dec_pad_Suc)
  next
    case False
    with Suc.prems(1) have "i div 10 ^ w < j div 10 ^ w" by (simp add: div_le_mono le_neq_implies_less)
    with d show ?thesis by (simp add: dec_pad_Suc char_digit_less)
  qed
qed simp

lemma append_less: "(xs @ s :: string) < xs @ t \<longleftrightarrow> s < t"
  by (induction xs) auto

lemma key_less:
  assumes "recordable sid a" "recordable sid b"
    "timestamp_millis (ms_created_at a) < timestamp_millis (ms_created_at b)"
  shows "session_message_key sid a < session_message_key sid b"
proof -
  let ?a = "timestamp_millis (ms_created_at a)" and ?b = "timestamp_millis (ms_created_at b)"
  have nonneg: "0 \<le> ?a" "0 \<le> ?b"
    using assms by (simp_all add: recordable_def timestamp_millis_def pos_imp_zdiv_nonneg_iff)
  have "nat ?b < 2 ^ 63" using assms(2) nonneg by (simp add: recordable_def nat_less_iff)
  then have "nat ?b < 10 ^ 20" by (rule less_trans) simp
  moreover have "nat ?a < nat ?b" using assms(3) nonneg by simp
  ultimately have "dec_pad 20 (nat ?a) @ s < dec_pad 20 (nat ?b) @ t" for s t by (intro dec_pad_less)
  then show ?thesis using nonneg by (simp add: session_message_key_def show_millis_def append_less)
qed

lemma nul_prefix: "CHR 0x00 \<notin> set a \<Longrightarrow> CHR 0x00 \<notin> set b \<Longrightarrow> prefix (a @ [CHR 0x00]) (b @ [CHR 0x00] @ r) \<Longrightarrow> a = b"
proof (induction a arbitrary: b)
  case Nil
  then show ?case by (cases b) auto
next
  case (Cons c a)
  then show ?case by (cases b) auto
qed

lemma key_prefix:
  assumes "CHR 0x00 \<notin> set sid" "recordable sid' m"
  shows "prefix (session_messages_prefix sid) (session_message_key sid' m) \<longleftrightarrow> sid = sid'"
proof
  assume "prefix (session_messages_prefix sid) (session_message_key sid' m)"
  then have "prefix (sid @ [CHR 0x00]) (sid' @ [CHR 0x00] @
      show_millis (timestamp_millis (ms_created_at m)) @ [CHR 0x00] @ ms_id m)"
    by (simp add: session_message_key_def session_messages_prefix_def)
  with assms show "sid = sid'" by (intro nul_prefix) (auto simp: recordable_def)
qed (simp add: session_message_key_def)

subsection \<open>The laws the manager relies on\<close>

locale session_laws =
  sessions: row_table "se_rb env" dbv txv "fst (se_session env)" "snd (se_session env)" +
  messages: row_table "se_rb env" dbv txv "fst (se_message env)" "snd (se_message env)"
  for env :: "('db, 'tx, 'v, 'e) session_env" and dbv :: "'db \<Rightarrow> 'v contents" and txv :: "'tx \<Rightarrow> 'v contents"
begin

lemma rows_eq: "sessions.rows db SESSIONS = session_rows env dbv db" "messages.rows db SESSION_MESSAGES = message_rows env dbv db"
  by (simp_all add: session_rows_def message_rows_def sessions.rows_def messages.rows_def)

definition msgs_ok :: "'db \<Rightarrow> bool" where
  "msgs_ok db \<longleftrightarrow> (\<forall>k v. sessions.view db SESSION_MESSAGES k = Some v \<longrightarrow>
     (\<exists>sid m. snd (se_message env) v = Inr m \<and> recordable sid m \<and> k = session_message_key sid m))"

definition sn_ok :: "'db session_manager \<Rightarrow> bool" where
  "sn_ok s \<longleftrightarrow> keyed ss_id (session_rows env dbv (sn_store s)) \<and>
     sn_sessions s \<subseteq>\<^sub>m session_rows env dbv (sn_store s) \<and> msgs_ok (sn_store s)"

text \<open>Between writing a row and caching it the cache may be behind for that row.\<close>

definition sn_pending :: "session \<Rightarrow> 'db session_manager \<Rightarrow> bool" where
  "sn_pending x s \<longleftrightarrow> sn_ok (s\<lparr>sn_sessions := (sn_sessions s)(ss_id x \<mapsto> x)\<rparr>)"

lemma tables_distinct: "SESSIONS \<noteq> SESSION_MESSAGES"
  by (simp add: SESSIONS_def SESSION_MESSAGES_def)

lemma persist_pending: "sx_valid sn_ok (persist_session env x) (\<lambda>_. sn_pending x) sn_ok"
proof (rule sx_validI)
  fix s u s' assume ok: "sn_ok s" and p: "persist_session env x s = (Inr u, s')"
  then obtain db where db: "put_json (se_rb env) (fst (se_session env)) SESSIONS (ss_id x) x (sn_store s) = Inr db"
    and s': "s' = s\<lparr>sn_store := db\<rparr>"
    by (auto simp: persist_session_def sn_write_def sbind_Inr_iff split: sum.splits)
  note r = sessions.put_rows[OF db]
  have v: "sessions.view db SESSION_MESSAGES = sessions.view (sn_store s) SESSION_MESSAGES"
    using r(2) tables_distinct by metis
  have rows: "session_rows env dbv db = (session_rows env dbv (sn_store s))(ss_id x \<mapsto> x)"
    using r(1) by (simp add: rows_eq)
  show "sn_pending x s'"
    using ok by (auto simp: sn_pending_def sn_ok_def s' rows keyed_upd msgs_ok_def v intro: map_le_upd)
qed (auto simp: persist_session_def sn_write_def split: sum.splits)

lemma cache_pending: "sx_valid (sn_pending x) (cache_session x) (\<lambda>_. sn_ok) sn_ok"
  by (auto simp: cache_session_def sn_pending_def intro: sx_valid_update)

lemma uncache_ok: "sx_valid sn_ok (uncache_session sid) (\<lambda>_. sn_ok) E"
  unfolding uncache_session_def
proof (rule sx_valid_update)
  fix s assume ok: "sn_ok s"
  have "(sn_sessions s)(sid := None) \<subseteq>\<^sub>m sn_sessions s" by (auto simp: map_le_def)
  moreover have "sn_sessions s \<subseteq>\<^sub>m session_rows env dbv (sn_store s)" using ok by (simp add: sn_ok_def)
  ultimately have "(sn_sessions s)(sid := None) \<subseteq>\<^sub>m session_rows env dbv (sn_store s)" by (rule map_le_trans)
  with ok show "sn_ok (s\<lparr>sn_sessions := (sn_sessions s)(sid := None)\<rparr>)" by (simp add: sn_ok_def)
qed

lemma update_ok: "sx_valid sn_ok (update_session env x) (\<lambda>_. sn_ok) sn_ok"
  unfolding update_session_def by (rule sx_valid_bind[OF persist_pending cache_pending])

lemma stored_pending: "sn_ok s \<Longrightarrow> session_rows env dbv (sn_store s) (ss_id x) = Some x \<Longrightarrow> sn_pending x s"
  by (auto simp: sn_pending_def sn_ok_def map_le_def)

lemma read_ok: "sx_valid sn_ok (sn_read f) (\<lambda>x s. sn_ok s \<and> f (sn_store s) = Inr x) sn_ok"
  by (rule sx_validI) (auto simp: sn_read_def split: sum.splits)

lemma load_all_mem:
  assumes "sbind (store_list (se_rb env) SESSIONS db) (collect (\<lambda>(_, bytes). snd (se_session env) bytes)) = Inr xs"
    "x \<in> set xs" "keyed ss_id (session_rows env dbv db)"
  shows "session_rows env dbv db (ss_id x) = Some x"
proof -
  from assms(1) obtain raw where raw: "store_list (se_rb env) SESSIONS db = Inr raw"
    and c: "list_all2 (\<lambda>r x. snd (se_session env) (snd r) = Inr x) raw xs"
    by (auto simp: sbind_Inr_iff collect_Inr_iff case_prod_beta)
  from c assms(2) obtain r where r: "r \<in> set raw" "snd (se_session env) (snd r) = Inr x"
    by (induction rule: list_all2_induct) auto
  have "map_of raw (fst r) = Some (snd r)"
    by (rule map_of_is_SomeI) (use sessions.list_view[OF raw] r(1) in simp_all)
  then have "session_rows env dbv db (fst r) = Some x"
    using sessions.list_view[OF raw] r(2) by (simp add: session_rows_def decoded_Some)
  with keyedD[OF assms(3) this] show ?thesis by simp
qed

lemma load_all_ok:
  "sx_valid sn_ok (load_all_sessions env)
     (\<lambda>xs s. sn_ok s \<and> (\<forall>x \<in> set xs. session_rows env dbv (sn_store s) (ss_id x) = Some x)) sn_ok"
  unfolding load_all_sessions_def
  by (rule sx_valid_conseq[OF read_ok]) (auto simp: sn_ok_def dest: load_all_mem)

lemma pending_return: "sx_valid (sn_pending x) (sx_bind (cache_session x) (\<lambda>_. sx_return y)) (\<lambda>_. sn_ok) sn_ok"
  by (rule sx_valid_bind[OF cache_pending]) (rule sx_valid_return)

lemma create_ok: "sx_valid sn_ok (create_session env uid now agent key) (\<lambda>_. sn_ok) sn_ok"
  unfolding create_session_def
proof (rule sx_valid_bind[OF load_all_ok])
  fix xs
  let ?x = "session_new uid now agent key"
  have w: "sx_valid sn_ok (sx_bind (persist_session env ?x) (\<lambda>_. sx_bind (cache_session ?x) (\<lambda>_. sx_return ?x))) (\<lambda>_. sn_ok) sn_ok"
    by (rule sx_valid_bind[OF persist_pending pending_return])
  show "sx_valid (\<lambda>s. sn_ok s \<and> (\<forall>x \<in> set xs. session_rows env dbv (sn_store s) (ss_id x) = Some x))
     (\<lambda>s. if sn_max_sessions s \<le> length xs then (Inl SessionLimitExceeded, s)
       else (let x = ?x in sx_bind (persist_session env x) (\<lambda>_. sx_bind (cache_session x) (\<lambda>_. sx_return x))) s)
     (\<lambda>_. sn_ok) sn_ok"
    by (rule sx_validI) (auto simp: Let_def split: if_splits dest: sx_validD[OF w])
qed

lemma get_ok:
  "sx_valid sn_ok (get_session env sid)
     (\<lambda>r s. sn_ok s \<and> session_rows env dbv (sn_store s) sid = r) sn_ok"
proof -
  let ?fetch = "sx_bind (sn_read (get_json (se_rb env) (snd (se_session env)) SESSIONS sid)) (\<lambda>r.
      case r of None \<Rightarrow> sx_return None | Some x \<Rightarrow> sx_bind (cache_session x) (\<lambda>_. sx_return (Some x)))"
  have k: "ss_id x = sid" if "sn_ok s" "session_rows env dbv (sn_store s) sid = Some x" for s x
    using that by (auto simp: sn_ok_def dest: keyedD)
  have "sx_valid sn_ok ?fetch (\<lambda>r s. sn_ok s \<and> session_rows env dbv (sn_store s) sid = r) sn_ok"
  proof (rule sx_valid_bind[where Q = "\<lambda>r s. sn_ok s \<and> session_rows env dbv (sn_store s) sid = r"])
    show "sx_valid sn_ok (sn_read (get_json (se_rb env) (snd (se_session env)) SESSIONS sid))
        (\<lambda>r s. sn_ok s \<and> session_rows env dbv (sn_store s) sid = r) sn_ok"
      by (rule sx_valid_conseq[OF read_ok]) (auto dest: sessions.get_rows simp: rows_eq)
    show "sx_valid (\<lambda>s. sn_ok s \<and> session_rows env dbv (sn_store s) sid = r)
        (case r of None \<Rightarrow> sx_return None | Some x \<Rightarrow> sx_bind (cache_session x) (\<lambda>_. sx_return (Some x)))
        (\<lambda>r s. sn_ok s \<and> session_rows env dbv (sn_store s) sid = r) sn_ok" for r
    proof (cases r)
      case (Some x)
      have "sx_valid (\<lambda>s. sn_ok s \<and> session_rows env dbv (sn_store s) sid = r) (cache_session x)
          (\<lambda>_ s. sn_ok s \<and> session_rows env dbv (sn_store s) sid = r) sn_ok"
        unfolding cache_session_def
      proof (rule sx_valid_update)
        fix s assume a: "sn_ok s \<and> session_rows env dbv (sn_store s) sid = r"
        with Some k[of s x] have i: "ss_id x = sid" by simp
        with a Some stored_pending[of s x] have "sn_pending x s" by simp
        with a i show "sn_ok (s\<lparr>sn_sessions := (sn_sessions s)(ss_id x \<mapsto> x)\<rparr>) \<and>
            session_rows env dbv (sn_store (s\<lparr>sn_sessions := (sn_sessions s)(ss_id x \<mapsto> x)\<rparr>)) sid = r"
          by (simp add: sn_pending_def)
      qed
      then show ?thesis using Some by (auto intro!: sx_valid_bind sx_valid_return)
    qed (auto intro!: sx_valid_return)
  qed
  note fetch = sx_validD[OF this]
  show ?thesis
  proof (rule sx_validI)
    fix s r s' assume ok: "sn_ok s" and g: "get_session env sid s = (Inr r, s')"
    show "sn_ok s' \<and> session_rows env dbv (sn_store s') sid = r"
    proof (cases "sn_sessions s sid")
      case None
      with g fetch(1)[OF ok] show ?thesis by (simp add: get_session_def)
    next
      case (Some x)
      have "session_rows env dbv (sn_store s) sid = Some x"
        using ok Some by (auto simp: sn_ok_def map_le_def dom_def)
      with g Some ok show ?thesis by (simp add: get_session_def)
    qed
  next
    fix s e s' assume ok: "sn_ok s" and g: "get_session env sid s = (Inl e, s')"
    then show "sn_ok s'" using fetch(2)[OF ok] by (simp add: get_session_def split: option.splits)
  qed
qed

lemma existing_ok: "sx_valid sn_ok (existing_session env sid) (\<lambda>x s. sn_ok s \<and> ss_id x = sid) sn_ok"
  unfolding existing_session_def
proof (rule sx_valid_bind[OF get_ok])
  show "sx_valid (\<lambda>s. sn_ok s \<and> session_rows env dbv (sn_store s) sid = r)
      (case r of None \<Rightarrow> sx_throw (SessionNotFound sid) | Some x \<Rightarrow> sx_return x)
      (\<lambda>x s. sn_ok s \<and> ss_id x = sid) sn_ok" for r
    by (cases r) (auto intro!: sx_valid_throw sx_valid_return simp: sn_ok_def dest: keyedD)
qed

lemma change_ok: "sx_valid sn_ok (sx_bind (existing_session env sid) (\<lambda>x. update_session env (f x))) (\<lambda>_. sn_ok) sn_ok"
  by (rule sx_valid_bind[OF existing_ok], rule sx_valid_conseq[OF update_ok]) auto

lemma search_ok: "sx_valid sn_ok (find_by_session_key env key) (\<lambda>_. sn_ok) sn_ok"
  unfolding find_by_session_key_def
proof (rule sx_valid_bind[OF load_all_ok])
  fix xs
  show "sx_valid (\<lambda>s. sn_ok s \<and> (\<forall>x \<in> set xs. session_rows env dbv (sn_store s) (ss_id x) = Some x))
     (case newest_first (filter (\<lambda>x. ss_session_key x = key) xs) of [] \<Rightarrow> sx_return None
      | x # _ \<Rightarrow> sx_bind (cache_session x) (\<lambda>_. sx_return (Some x))) (\<lambda>_. sn_ok) sn_ok"
  proof (cases "newest_first (filter (\<lambda>x. ss_session_key x = key) xs)")
    case (Cons x ys)
    then have "x \<in> set (newest_first (filter (\<lambda>x. ss_session_key x = key) xs))" by simp
    then have "x \<in> set xs" by (simp add: newest_first_def)
    with Cons show ?thesis
      by (auto intro!: sx_valid_conseq[OF pending_return] stored_pending)
  qed (auto intro!: sx_valid_return)
qed

lemma archive_ok: "sx_valid sn_ok (archive_session env now sid) (\<lambda>_. sn_ok) sn_ok"
  unfolding archive_session_def
  by (rule sx_valid_bind[OF existing_ok], rule sx_valid_bind[OF _ uncache_ok], rule sx_valid_conseq[OF update_ok]) auto

lemma add_message_ok:
  assumes "recordable sid m"
  shows "sx_valid sn_ok (add_message env sid m) (\<lambda>_. sn_ok) sn_ok"
proof (rule sx_validI)
  fix s u s' assume ok: "sn_ok s" and p: "add_message env sid m s = (Inr u, s')"
  then obtain db where db: "put_json (se_rb env) (fst (se_message env)) SESSION_MESSAGES (session_message_key sid m) m (sn_store s) = Inr db"
    and s': "s' = s\<lparr>sn_store := db\<rparr>"
    by (auto simp: add_message_def sn_write_def sbind_Inr_iff split: sum.splits)
  note r = messages.put_rows[OF db]
  from r(3) obtain v where v: "fst (se_message env) m = Inr v"
    "sessions.view db SESSION_MESSAGES = (sessions.view (sn_store s) SESSION_MESSAGES)(session_message_key sid m \<mapsto> v)" by blast
  have "session_rows env dbv db = session_rows env dbv (sn_store s)"
    using r(2)[of SESSIONS] tables_distinct by (simp add: session_rows_def)
  moreover have "msgs_ok db"
    using ok assms messages.codec[OF v(1)] by (auto simp: msgs_ok_def sn_ok_def v(2))
  ultimately show "sn_ok s'" using ok by (simp add: sn_ok_def s')
qed (auto simp: add_message_def sn_write_def split: sum.splits)

subsubsection \<open>Deleting\<close>

lemma sn_delete_row_view:
  assumes "delete_row env t k s = (Inr b, s')"
  shows "\<exists>db. s' = s\<lparr>sn_store := db\<rparr> \<and> b = (sessions.view (sn_store s) t k \<noteq> None) \<and>
     sessions.view db = (sessions.view (sn_store s))(t := (sessions.view (sn_store s) t)(k := None))"
  using assms sessions.delete_view[of t k "sn_store s"]
  by (auto simp: delete_row_def sn_write_def split: sum.splits)

lemma each_delete_view:
  "each (\<lambda>(key, _). sx_bind (delete_row env t key) (\<lambda>_. sx_return ())) records s = (Inr u, s') \<Longrightarrow>
     \<exists>db. s' = s\<lparr>sn_store := db\<rparr> \<and>
       sessions.view db = (sessions.view (sn_store s))(t := sessions.view (sn_store s) t |` (- fst ` set records))"
proof (induction records arbitrary: s)
  case Nil
  then show ?case by (auto intro: exI[of _ "sn_store s"])
next
  case (Cons r records)
  obtain k v where r: "r = (k, v)" by (cases r)
  from Cons.prems obtain b s1 where d: "delete_row env t k s = (Inr b, s1)"
    and e: "each (\<lambda>(key, _). sx_bind (delete_row env t key) (\<lambda>_. sx_return ())) records s1 = (Inr u, s')"
    by (auto simp: r sx_bind_Inr_iff)
  from sn_delete_row_view[OF d] obtain db1 where s1: "s1 = s\<lparr>sn_store := db1\<rparr>"
    and v1: "sessions.view db1 = (sessions.view (sn_store s))(t := (sessions.view (sn_store s) t)(k := None))" by blast
  from Cons.IH[OF e] obtain db where s': "s' = s1\<lparr>sn_store := db\<rparr>"
    and v: "sessions.view db = (sessions.view (sn_store s1))(t := sessions.view (sn_store s1) t |` (- fst ` set records))" by blast
  have "(m(k := None)) |` (- fst ` set records) = m |` (- fst ` set (r # records))" for m :: "string \<rightharpoonup> 'v"
    by (auto simp: r restrict_map_def)
  then show ?case by (intro exI[of _ db]) (simp add: s' v s1 v1)
qed

text \<open>A deletion that ends removes the row of the session and the messages under its prefix.\<close>

lemma delete_session_view:
  assumes "delete_session env sid s = (Inr (), s')"
  shows "\<exists>db. s' = s\<lparr>sn_store := db, sn_sessions := (sn_sessions s)(sid := None)\<rparr> \<and>
     sessions.view db = (sessions.view (sn_store s))
       (SESSIONS := (sessions.view (sn_store s) SESSIONS)(sid := None),
        SESSION_MESSAGES := sessions.view (sn_store s) SESSION_MESSAGES |` {k. \<not> prefix (session_messages_prefix sid) k})"
proof -
  obtain s1 records s2 where d: "delete_row env SESSIONS sid s = (Inr True, s1)"
    and r: "store_range (se_rb env) SESSION_MESSAGES (session_messages_prefix sid) (sid @ [CHR 0x01]) (sn_store s1) = Inr records"
    and e: "each (\<lambda>(key, _). sx_bind (delete_row env SESSION_MESSAGES key) (\<lambda>_. sx_return ())) records s1 = (Inr (), s2)"
    and u: "uncache_session sid s2 = (Inr () :: 'e session_error + unit, s')"
    using assms by (clarsimp simp: delete_session_def sx_bind_Inr_iff session_messages_range_def split: if_splits)
  from sn_delete_row_view[OF d] obtain db1 where s1: "s1 = s\<lparr>sn_store := db1\<rparr>"
    and v1: "sessions.view db1 = (sessions.view (sn_store s))(SESSIONS := (sessions.view (sn_store s) SESSIONS)(sid := None))" by blast
  from each_delete_view[OF e] obtain db where s2: "s2 = s1\<lparr>sn_store := db\<rparr>"
    and v: "sessions.view db = (sessions.view db1)(SESSION_MESSAGES := sessions.view db1 SESSION_MESSAGES |` (- fst ` set records))"
    by (auto simp: s1)
  have m: "sessions.view db1 SESSION_MESSAGES = sessions.view (sn_store s) SESSION_MESSAGES"
    using tables_distinct by (simp add: v1)
  have "map_of records = sessions.view db1 SESSION_MESSAGES |` {k. prefix (session_messages_prefix sid) k}"
    using sessions.range_view[OF r] range_is_prefix[of sid] by (simp add: s1 session_messages_prefix_def)
  then have "fst ` set records = dom (sessions.view (sn_store s) SESSION_MESSAGES) \<inter> {k. prefix (session_messages_prefix sid) k}"
    unfolding dom_map_of_conv_image_fst[symmetric] m by (auto simp: restrict_map_def split: if_splits)
  then have "sessions.view (sn_store s) SESSION_MESSAGES |` (- fst ` set records) =
      sessions.view (sn_store s) SESSION_MESSAGES |` {k. \<not> prefix (session_messages_prefix sid) k}"
    by (auto simp: restrict_map_def fun_eq_iff domIff)
  then show ?thesis
    using u by (intro exI[of _ db])
      (auto simp: uncache_session_def sx_update_def s2 s1 v m v1 tables_distinct tables_distinct[symmetric])
qed

lemma delete_missing:
  assumes "delete_session env sid s = (Inl (SessionNotFound sid), s')" "sn_ok s"
  shows "sn_ok s'"
proof -
  from assms(1) obtain s1 where d: "delete_row env SESSIONS sid s = (Inr False, s1)" "s' = s1"
    by (auto simp: delete_session_def sx_bind_Inl_iff delete_row_def uncache_session_def sx_update_def
        split: if_splits dest!: each_storage_error[unfolded delete_row_def])
  from sn_delete_row_view[OF d(1)] obtain db where s1: "s1 = s\<lparr>sn_store := db\<rparr>" "sessions.view (sn_store s) SESSIONS sid = None"
    and v: "sessions.view db = (sessions.view (sn_store s))(SESSIONS := (sessions.view (sn_store s) SESSIONS)(sid := None))" by auto
  then have "sessions.view db = sessions.view (sn_store s)" by (simp add: fun_upd_idem)
  with assms(2) show ?thesis by (simp add: d(2) s1(1) sn_ok_def session_rows_def msgs_ok_def)
qed

lemma sn_runs_ok: "sn_reachable env dbv s \<Longrightarrow> sn_ok s"
proof (induction rule: sn_reachable.induct)
  case (create s uid now agent key r s')
  then show ?case using sx_validD[OF create_ok] by (cases r) blast+
next
  case (fetch s sid r s')
  then show ?case using sx_validD[OF get_ok] by (cases r) blast+
next
  case (search s key r s')
  then show ?case using sx_validD[OF search_ok] by (cases r) blast+
next
  case (update s x r s')
  then show ?case using sx_validD[OF update_ok] by (cases r) blast+
next
  case (remember s now sid summary intent tools r s')
  then show ?case
    using sx_validD[OF change_ok] unfolding update_working_memory_def by (cases r) blast+
next
  case (budget s now sid est mx r s')
  then show ?case
    using sx_validD[OF change_ok] unfolding update_context_budget_def by (cases r) blast+
next
  case (message s sid m r s')
  then show ?case using sx_validD[OF add_message_ok[OF message(2)]] by (cases r) blast+
next
  case (archive s now sid r s')
  then show ?case using sx_validD[OF archive_ok] by (cases r) blast+
next
  case (delete s sid r s')
  then show ?case
  proof (cases "r = Inr ()")
    case True
    with delete(2) have d: "delete_session env sid s = (Inr (), s')" by simp
    from delete_session_view[OF d] obtain db where s': "s' = s\<lparr>sn_store := db, sn_sessions := (sn_sessions s)(sid := None)\<rparr>"
      and v: "sessions.view db = (sessions.view (sn_store s))
         (SESSIONS := (sessions.view (sn_store s) SESSIONS)(sid := None),
          SESSION_MESSAGES := sessions.view (sn_store s) SESSION_MESSAGES |` {k. \<not> prefix (session_messages_prefix sid) k})" by blast
    have rows: "session_rows env dbv db = (session_rows env dbv (sn_store s))(sid := None)"
      using tables_distinct by (simp add: session_rows_def v decoded_del)
    have "sn_sessions s \<subseteq>\<^sub>m session_rows env dbv (sn_store s)" using delete.IH by (simp add: sn_ok_def)
    then have "(sn_sessions s)(sid := None) \<subseteq>\<^sub>m session_rows env dbv db" by (auto simp: rows map_le_def)
    moreover have "msgs_ok db" using delete.IH by (auto simp: sn_ok_def msgs_ok_def v restrict_map_def split: if_splits)
    ultimately show ?thesis using delete.IH keyed_del by (auto simp: sn_ok_def s' rows)
  next
    case False
    with delete have "delete_session env sid s = (Inl (SessionNotFound sid), s')" by blast
    then show ?thesis using delete.IH by (rule delete_missing)
  qed
qed (auto simp: sn_ok_def keyed_def session_rows_def msgs_ok_def)

lemma session_message:
  assumes "sn_ok s" "CHR 0x00 \<notin> set sid" "sessions.view (sn_store s) SESSION_MESSAGES k = Some v"
    "prefix (session_messages_prefix sid) k"
  shows "\<exists>m. snd (se_message env) v = Inr m \<and> recordable sid m \<and> k = session_message_key sid m"
proof -
  from assms(1,3) obtain sid' m where m: "snd (se_message env) v = Inr m" "recordable sid' m" "k = session_message_key sid' m"
    unfolding sn_ok_def msgs_ok_def by blast
  then have "sid = sid'" using assms(2,4) key_prefix by simp
  with m show ?thesis by blast
qed

lemma history_sorted:
  assumes "sn_ok s" "CHR 0x00 \<notin> set sid" "get_message_history env sid limit offset s = (Inr h, s')"
  shows "\<exists>all. sorted_wrt (\<lambda>a b. timestamp_millis (ms_created_at a) \<le> timestamp_millis (ms_created_at b)) all \<and>
      set all = {m. message_rows env dbv (sn_store s) (session_message_key sid m) = Some m \<and> recordable sid m} \<and>
      length all = mh_total_count h \<and>
      map sg_message (mh_messages h) =
        take (case limit of Some l \<Rightarrow> l | None \<Rightarrow> 100) (drop (case offset of Some n \<Rightarrow> n | None \<Rightarrow> 0) all)"
proof -
  let ?l = "case limit of Some l \<Rightarrow> l | None \<Rightarrow> 100" and ?o = "case offset of Some n \<Rightarrow> n | None \<Rightarrow> 0"
  let ?V = "sessions.view (sn_store s) SESSION_MESSAGES" and ?P = "session_messages_prefix sid"
  let ?dec = "snd (se_message env)"
  obtain records where r: "store_range (se_rb env) SESSION_MESSAGES ?P (sid @ [CHR 0x01]) (sn_store s) = Inr records"
    and t: "mh_total_count h = length records"
    and c: "collect (\<lambda>(idx, (_, bytes)). sbind (?dec bytes) (\<lambda>m.
           Inr \<lparr>sg_id = int (?o + idx + 1), sg_session_id = sid, sg_message = m\<rparr>))
         (List.enumerate 0 (take ?l (drop ?o records))) = Inr (mh_messages h)"
    using assms(3) by (auto simp: get_message_history_def session_messages_range_def Let_def sbind_Inr_iff)
  have "list_all2 (\<lambda>r sm. ?dec (snd (snd r)) = Inr (sg_message sm))
         (List.enumerate 0 (take ?l (drop ?o records))) (mh_messages h)"
    using c unfolding collect_Inr_iff by (rule list_all2_mono) (auto simp: sbind_Inr_iff)
  note h = t this
  have mo: "map_of records = ?V |` {k. prefix ?P k}" and so: "sorted (map fst records)" and di: "distinct (map fst records)"
    using sessions.range_view[OF r] range_is_prefix[of sid] by (simp_all add: session_messages_prefix_def)
  define dm where "dm = (\<lambda>r :: string \<times> 'v. case snd (se_message env) (snd r) of Inr m \<Rightarrow> m | Inl _ \<Rightarrow> undefined)"
  have rec: "snd (se_message env) (snd r) = Inr (dm r) \<and> recordable sid (dm r) \<and> fst r = session_message_key sid (dm r)"
    if "r \<in> set records" for r
  proof -
    have "map_of records (fst r) = Some (snd r)" by (rule map_of_is_SomeI) (use that di in simp_all)
    then have "?V (fst r) = Some (snd r)" "prefix ?P (fst r)" by (auto simp: mo restrict_map_def split: if_splits)
    from session_message[OF assms(1,2) this] show ?thesis by (auto simp: dm_def)
  qed
  show ?thesis
  proof (intro exI[of _ "map dm records"] conjI)
    have "sorted_wrt (\<lambda>a b. timestamp_millis (ms_created_at (dm a)) \<le> timestamp_millis (ms_created_at (dm b))) records"
    proof (rule sorted_wrt_mono_rel[of _ "\<lambda>a b. fst a \<le> fst b"])
      show "sorted_wrt (\<lambda>a b. fst a \<le> fst b) records" using so by (simp add: sorted_wrt_map)
      fix a b assume "a \<in> set records" "b \<in> set records" "fst a \<le> fst b"
      then show "timestamp_millis (ms_created_at (dm a)) \<le> timestamp_millis (ms_created_at (dm b))"
        using rec[of a] rec[of b] key_less[of sid "dm b" "dm a"] by (metis leD leI)
    qed
    then show "sorted_wrt (\<lambda>a b. timestamp_millis (ms_created_at a) \<le> timestamp_millis (ms_created_at b)) (map dm records)"
      by (simp add: sorted_wrt_map)
  next
    show "set (map dm records) = {m. message_rows env dbv (sn_store s) (session_message_key sid m) = Some m \<and> recordable sid m}"
      (is "?L = ?R")
    proof
      show "?L \<subseteq> ?R"
      proof
        fix m assume "m \<in> ?L"
        then obtain r where r: "r \<in> set records" "m = dm r" by auto
        have "map_of records (fst r) = Some (snd r)" by (rule map_of_is_SomeI) (use r(1) di in simp_all)
        then have "?V (fst r) = Some (snd r)" by (auto simp: mo restrict_map_def split: if_splits)
        with rec[OF r(1)] r(2) show "m \<in> ?R" by (simp add: message_rows_def decoded_Some)
      qed
      show "?R \<subseteq> ?L"
      proof
        fix m assume "m \<in> ?R"
        then obtain v where v: "?V (session_message_key sid m) = Some v" "snd (se_message env) v = Inr m"
          by (auto simp: message_rows_def decoded_Some)
        have "prefix ?P (session_message_key sid m)" by (simp add: session_message_key_def)
        with v(1) have "map_of records (session_message_key sid m) = Some v" by (simp add: mo)
        then have "(session_message_key sid m, v) \<in> set records" by (rule map_of_SomeD)
        moreover have "dm (session_message_key sid m, v) = m" using v(2) by (simp add: dm_def)
        ultimately show "m \<in> ?L" by force
      qed
    qed
  next
    show "length (map dm records) = mh_total_count h" by (simp add: h)
  next
    let ?page = "take ?l (drop ?o records)"
    have "length (mh_messages h) = length ?page" using h(2) by (simp add: list_all2_lengthD[symmetric])
    moreover have "sg_message (mh_messages h ! i) = dm (?page ! i)" if "i < length ?page" for i
    proof -
      have "?page ! i \<in> set records" using that by (meson in_set_dropD in_set_takeD nth_mem)
      moreover have "snd (se_message env) (snd (?page ! i)) = Inr (sg_message (mh_messages h ! i))"
        using list_all2_nthD[OF h(2), of i] that by (simp add: nth_enumerate_eq del: nth_take nth_drop take_drop)
      ultimately show ?thesis using rec by fastforce
    qed
    ultimately have "map sg_message (mh_messages h) = map dm ?page" by (auto intro!: nth_equalityI)
    then show "map sg_message (mh_messages h) = take ?l (drop ?o (map dm records))" by (simp add: take_map drop_map)
  qed
qed

end

subsection \<open>Properties\<close>

text \<open>The cache is transparent: in every reachable state a session read through the manager is the one
  in the store, whichever operations filled, updated or dropped the cache before.\<close>

theorem session_reads_current:
  assumes "session_laws env dbv txv" "sn_reachable env dbv s" "get_session env sid s = (Inr r, s')"
  shows "r = session_rows env dbv (sn_store s') sid"
  using sx_validD(1)[OF session_laws.get_ok[OF assms(1)] session_laws.sn_runs_ok[OF assms(1,2)] assms(3)] by simp

text \<open>The message history of a session is a page of the messages recorded for that session in the
  order of their time stamps; messages of other sessions do not appear and none is missing.\<close>

theorem history_in_order:
  assumes "session_laws env dbv txv" "sn_reachable env dbv s" "CHR 0x00 \<notin> set sid"
    and "get_message_history env sid limit offset s = (Inr h, s')"
  shows "\<exists>all. sorted_wrt (\<lambda>a b. timestamp_millis (ms_created_at a) \<le> timestamp_millis (ms_created_at b)) all \<and>
      set all = {m. message_rows env dbv (sn_store s) (session_message_key sid m) = Some m \<and> recordable sid m} \<and>
      length all = mh_total_count h \<and>
      map sg_message (mh_messages h) =
        take (case limit of Some l \<Rightarrow> l | None \<Rightarrow> 100) (drop (case offset of Some n \<Rightarrow> n | None \<Rightarrow> 0) all)"
  by (rule session_laws.history_sorted[OF assms(1) session_laws.sn_runs_ok[OF assms(1,2)] assms(3,4)])

text \<open>A session that was deleted is gone with all its messages, and every other session and its messages
  are as they were.\<close>

theorem delete_session_isolated:
  assumes "session_laws env dbv txv" "CHR 0x00 \<notin> set sid" "delete_session env sid s = (Inr (), s')"
  shows "session_rows env dbv (sn_store s') = (session_rows env dbv (sn_store s))(sid := None) \<and>
    sn_sessions s' = (sn_sessions s)(sid := None) \<and>
    (\<forall>sid' m. recordable sid' m \<longrightarrow> message_rows env dbv (sn_store s') (session_message_key sid' m) =
       (if sid' = sid then None else message_rows env dbv (sn_store s) (session_message_key sid' m)))"
proof -
  from session_laws.delete_session_view[OF assms(1,3)] obtain db where
    s': "s' = s\<lparr>sn_store := db, sn_sessions := (sn_sessions s)(sid := None)\<rparr>" and
    v: "redb_laws.view dbv db = (redb_laws.view dbv (sn_store s))
      (SESSIONS := (redb_laws.view dbv (sn_store s) SESSIONS)(sid := None),
       SESSION_MESSAGES := redb_laws.view dbv (sn_store s) SESSION_MESSAGES |` {k. \<not> prefix (session_messages_prefix sid) k})"
    by blast
  note d = session_laws.tables_distinct[OF assms(1)]
  have "session_rows env dbv db = (session_rows env dbv (sn_store s))(sid := None)"
    using d by (simp add: session_rows_def v decoded_del)
  moreover have "message_rows env dbv db (session_message_key sid' m) =
      (if sid' = sid then None else message_rows env dbv (sn_store s) (session_message_key sid' m))"
    if "recordable sid' m" for sid' m
    using key_prefix[OF assms(2) that] by (auto simp: message_rows_def decoded_def v restrict_map_def)
  ultimately show ?thesis by (simp add: s')
qed

text \<open>The recorded utilization is a percentage, and a session is marked critical only when the estimate
  reaches nine tenths of the budget.\<close>

theorem budget_within_percent:
  "unat (utilization_percent estimated max_context) \<le> 100 \<and>
   (budget_status (utilization_percent estimated max_context) = BudgetCritical \<longleftrightarrow>
     0 < max_context \<and> 90 * max_context \<le> min u64_max (100 * estimated))"
proof -
  let ?p = "min (sat_mul estimated 100 div max_context) 100"
  have p: "unat (of_nat ?p :: u8) = ?p" by (simp add: unat_of_nat)
  show ?thesis
  proof (cases "max_context = 0")
    case False
    have "90 \<le> ?p \<longleftrightarrow> 90 * max_context \<le> sat_mul estimated 100"
      using False by (simp add: less_eq_div_iff_mult_less_eq)
    moreover have "(90 \<le> (of_nat ?p :: u8)) \<longleftrightarrow> 90 \<le> ?p" by (simp add: word_le_nat_alt p)
    ultimately show ?thesis
      using False p by (auto simp: utilization_percent_def budget_status_def sat_mul_def mult.commute)
  qed (simp add: utilization_percent_def budget_status_def)
qed

subsection \<open>Witnesses\<close>

text \<open>A database in memory whose rows are the values themselves.\<close>

datatype session_cell = SessionCell session | MessageCell message

definition sample_session_env :: "(session_cell mem_db, session_cell mem_db, session_cell, unit) session_env" where
  "sample_session_env = \<lparr>se_rb = mem_redb,
     se_session = (\<lambda>x. Inr (SessionCell x), \<lambda>c. case c of SessionCell x \<Rightarrow> Inr x | MessageCell m \<Rightarrow> Inl ()),
     se_message = (\<lambda>m. Inr (MessageCell m), \<lambda>c. case c of MessageCell m \<Rightarrow> Inr m | SessionCell x \<Rightarrow> Inl ()),
     se_show_state = (\<lambda>_. None)\<rparr>"

interpretation sample_sessions: session_laws sample_session_env mem_view mem_view
  by unfold_locales
    (auto simp: sample_session_env_def mem.begin_read mem.begin_write mem.open_read mem.open_write
      mem.insert mem.remove mem.get mem.iter mem.range mem.commit)

definition sample_manager :: "session_cell mem_db session_manager" where
  "sample_manager = \<lparr>sn_sessions = Map.empty, sn_store = (\<lambda>_. Some []), sn_max_sessions = 3\<rparr>"

definition sample_late :: message where
  "sample_late = message_text ''late'' 90000000 ''b''"

definition sample_early :: message where
  "sample_early = message_text ''early'' 8000000 ''a''"

lemma sample_recordable [simp]: "recordable ''s1'' sample_late" "recordable ''s1'' sample_early"
  by (simp_all add: recordable_def sample_late_def sample_early_def message_defs timestamp_millis_def)

abbreviation sample_keys :: "string \<times> string" where
  "sample_keys \<equiv> (session_message_key ''s1'' sample_early, session_message_key ''s1'' sample_late)"

lemma sample_key_order: "fst sample_keys < snd sample_keys"
proof -
  have "timestamp_millis (ms_created_at sample_early) < timestamp_millis (ms_created_at sample_late)"
    by (simp add: sample_late_def sample_early_def message_defs timestamp_millis_def)
  then show ?thesis by (simp add: key_less)
qed

definition sample_recorded :: "session_cell mem_db session_manager" where
  "sample_recorded = \<lparr>sn_sessions = [''s1'' \<mapsto> session_new ''s1'' 7 ''agent'' ''key''],
     sn_store = (\<lambda>_. Some [])(SESSIONS \<mapsto> [(''s1'', SessionCell (session_new ''s1'' 7 ''agent'' ''key''))],
       SESSION_MESSAGES \<mapsto> [(fst sample_keys, MessageCell sample_early), (snd sample_keys, MessageCell sample_late)]),
     sn_max_sessions = 3\<rparr>"

lemmas sample_eval = sample_session_env_def store_put_def store_get_def store_list_def store_range_def store_delete_def
  put_json_def get_json_def mem_redb_def mem_rows_def sn_read_def sn_write_def sx_bind_def sx_return_def sx_update_def

lemma sample_create: "create_session sample_session_env ''s1'' 7 ''agent'' ''key'' sample_manager =
   (Inr (session_new ''s1'' 7 ''agent'' ''key''), sample_manager
     \<lparr>sn_sessions := [''s1'' \<mapsto> session_new ''s1'' 7 ''agent'' ''key''],
      sn_store := (\<lambda>_. Some [])(SESSIONS \<mapsto> [(''s1'', SessionCell (session_new ''s1'' 7 ''agent'' ''key''))])\<rparr>)"
  by (simp add: create_session_def load_all_sessions_def persist_session_def cache_session_def sample_manager_def
      sample_eval mem_sorted_def Let_def session_new_def)

lemma sample_recorded_reachable: "sn_reachable sample_session_env mem_view sample_recorded"
proof -
  note d = sample_sessions.tables_distinct
  have "sn_reachable sample_session_env mem_view sample_manager"
    unfolding sample_manager_def by (rule fresh) (simp_all add: mem.view_def mem_view_def)
  from create[OF this sample_create] message[OF _ sample_recordable(1) surjective_pairing]
  have "sn_reachable sample_session_env mem_view (snd (add_message sample_session_env ''s1'' sample_late (sample_manager
     \<lparr>sn_sessions := [''s1'' \<mapsto> session_new ''s1'' 7 ''agent'' ''key''],
      sn_store := (\<lambda>_. Some [])(SESSIONS \<mapsto> [(''s1'', SessionCell (session_new ''s1'' 7 ''agent'' ''key''))])\<rparr>)))" by blast
  from message[OF this sample_recordable(2) surjective_pairing]
  show ?thesis
    using d by (simp add: add_message_def sample_eval sample_recorded_def sample_manager_def fun_upd_twist)
qed

lemma mem_sorted_pair: "k < k' \<Longrightarrow> mem_sorted [(k, a), (k', b)] = [(k, a), (k', b)]"
proof -
  assume k: "k < k'"
  then have "sorted_list_of_set {k, k'} = [k, k']" by (intro sorted_distinct_set_unique) auto
  moreover have "k \<noteq> k'" using k by simp
  ultimately show ?thesis by (simp add: mem_sorted_def del: sorted_list_of_set_insert_remove)
qed

lemma sample_range:
  assumes "db SESSION_MESSAGES = sn_store sample_recorded SESSION_MESSAGES"
  shows "store_range mem_redb SESSION_MESSAGES (session_messages_prefix ''s1'') [CHR ''s'', CHR ''1'', CHR 0x01] db =
     Inr [(fst sample_keys, MessageCell sample_early), (snd sample_keys, MessageCell sample_late)]"
proof -
  have r: "session_messages_prefix ''s1'' \<le> k \<and> k < [CHR ''s'', CHR ''1'', CHR 0x01]"
    if "prefix (session_messages_prefix ''s1'') k" for k
    using that range_is_prefix[of "''s1''" k] unfolding session_messages_prefix_def by simp
  have p: "prefix (session_messages_prefix ''s1'') (session_message_key ''s1'' m)" for m
    by (simp add: session_message_key_def)
  show ?thesis
    using assms r[OF p, of sample_early] r[OF p, of sample_late]
    by (simp add: store_range_def mem_redb_def mem_rows_def sample_recorded_def mem_sorted_pair[OF sample_key_order, simplified])
qed

lemma sample_history:
  "\<exists>h. get_message_history sample_session_env ''s1'' None None sample_recorded = (Inr h, sample_recorded) \<and>
     map sg_message (mh_messages h) = [sample_early, sample_late]"
  by (simp add: get_message_history_def session_messages_range_def sn_read_def sample_session_env_def Let_def sample_range)

lemma sample_each_total:
  fixes rs :: "(string \<times> session_cell) list"
  shows "\<exists>s'. each (\<lambda>(key, _). sx_bind (delete_row sample_session_env t key) (\<lambda>_. sx_return ())) rs s = (Inr (), s')"
proof (induction rs arbitrary: s)
  case (Cons r rs)
  obtain b s1 where d: "delete_row sample_session_env t (fst r) s = (Inr b, s1)"
    by (simp add: delete_row_def sample_eval)
  from Cons.IH[of s1] d show ?case by (simp add: sx_bind_def sx_return_def case_prod_beta)
qed simp

text \<open>The later message was recorded first.\<close>

theorem history_in_order_witness:
  "\<exists>h all. get_message_history sample_session_env ''s1'' None None sample_recorded = (Inr h, sample_recorded) \<and>
     map sg_message (mh_messages h) = [sample_early, sample_late] \<and> length all = mh_total_count h \<and>
     set all = {m. message_rows sample_session_env mem_view (sn_store sample_recorded) (session_message_key ''s1'' m) = Some m \<and>
                   recordable ''s1'' m}"
proof -
  obtain h where h: "get_message_history sample_session_env ''s1'' None None sample_recorded = (Inr h, sample_recorded)"
    "map sg_message (mh_messages h) = [sample_early, sample_late]" by (metis sample_history)
  have "CHR 0x00 \<notin> set ''s1''" by simp
  from history_in_order[OF sample_sessions.session_laws_axioms sample_recorded_reachable this h(1)] obtain all where
    "set all = {m. message_rows sample_session_env mem_view (sn_store sample_recorded) (session_message_key ''s1'' m) = Some m \<and>
                   recordable ''s1'' m}" "length all = mh_total_count h" by (elim exE conjE)
  with h show ?thesis by (intro exI[of _ h] exI[of _ all] conjI)
qed

theorem session_reads_current_witness:
  "\<exists>r s'. get_session sample_session_env ''s1'' sample_recorded = (Inr r, s') \<and> r \<noteq> None \<and>
     r = session_rows sample_session_env mem_view (sn_store s') ''s1''"
proof -
  have g: "get_session sample_session_env ''s1'' sample_recorded =
      (Inr (Some (session_new ''s1'' 7 ''agent'' ''key'')), sample_recorded)"
    by (simp add: get_session_def sample_recorded_def)
  from session_reads_current[OF sample_sessions.session_laws_axioms sample_recorded_reachable g] g show ?thesis by blast
qed

theorem delete_session_isolated_witness:
  "\<exists>s'. delete_session sample_session_env ''s1'' sample_recorded = (Inr (), s') \<and>
     session_rows sample_session_env mem_view (sn_store s') ''s1'' = None \<and>
     message_rows sample_session_env mem_view (sn_store s') (fst sample_keys) = None"
proof -
  let ?s1 = "sample_recorded\<lparr>sn_store := (sn_store sample_recorded)(SESSIONS \<mapsto> [])\<rparr>"
  have d: "delete_row sample_session_env SESSIONS ''s1'' sample_recorded = (Inr True, ?s1)"
    using sample_sessions.tables_distinct
    by (simp add: delete_row_def sample_eval sample_recorded_def)
  have r: "store_range (se_rb sample_session_env) SESSION_MESSAGES (session_messages_prefix ''s1'') [CHR ''s'', CHR ''1'', CHR 0x01]
      (sn_store ?s1) = Inr [(fst sample_keys, MessageCell sample_early), (snd sample_keys, MessageCell sample_late)]"
    using sample_sessions.tables_distinct by (simp add: sample_session_env_def sample_range)
  from sample_each_total obtain s2 where e: "each (\<lambda>(key, _). sx_bind (delete_row sample_session_env SESSION_MESSAGES key) (\<lambda>_. sx_return ()))
      [(fst sample_keys, MessageCell sample_early), (snd sample_keys, MessageCell sample_late)] ?s1 = (Inr (), s2)" by blast
  have s': "delete_session sample_session_env ''s1'' sample_recorded = (Inr (), s2\<lparr>sn_sessions := (sn_sessions s2)(''s1'' := None)\<rparr>)"
    (is "_ = (_, ?s')")
    using d r e by (simp add: delete_session_def session_messages_range_def sx_bind_def sn_read_def uncache_session_def
        sx_update_def del: each.simps)
  from delete_session_isolated[OF sample_sessions.session_laws_axioms _ s'] s' show ?thesis by auto
qed

end
