(* ===== verification/Routing.thy ===== *)
theory Routing
  imports RowCache
begin

text \<open>
  Routing of incoming messages to agents (\<open>rockbot-gateway/src/routing.rs\<close>): bindings in a table of the
  store, mirrored in memory, and the resolution of a message context to an agent and a session key.
  The order in which the map of bindings is iterated is not determined by the program; it is the
  argument \<open>values\<close>.
\<close>

subsection \<open>Data\<close>

datatype matched_by = BindingPeer | BindingPeerParent | BindingGuildRoles | BindingGuild | BindingTeam
  | BindingAccount | BindingChannel | DefaultMatch

definition matched_by_label :: "matched_by \<Rightarrow> string" where
  "matched_by_label m = (case m of BindingPeer \<Rightarrow> ''binding.peer'' | BindingPeerParent \<Rightarrow> ''binding.peer.parent''
     | BindingGuildRoles \<Rightarrow> ''binding.guild+roles'' | BindingGuild \<Rightarrow> ''binding.guild'' | BindingTeam \<Rightarrow> ''binding.team''
     | BindingAccount \<Rightarrow> ''binding.account'' | BindingChannel \<Rightarrow> ''binding.channel'' | DefaultMatch \<Rightarrow> ''default'')"

datatype route_policy = MainSession | ScopedSession

datatype session_scope = PerSender | GlobalScope | PerPeer | PerChannelPeer | PerAccountChannelPeer

record resolved_route =
  rr_agent_id :: string
  rr_channel :: string
  rr_account_id :: string
  rr_session_key :: string
  rr_main_session_key :: string
  rr_last_route_policy :: route_policy
  rr_matched_by :: matched_by

record session_key =
  sk_scope :: string
  sk_channel :: string
  sk_identifier :: string

datatype binding_kind = PeerKind string string | GuildKind string string | GuildRolesKind string string "string list"
  | TeamKind string string | AccountKind string string | ChannelKind string

record binding =
  bd_id :: string
  bd_agent_id :: string
  bd_kind :: binding_kind
  bd_route_policy :: route_policy
  bd_session_scope :: "session_scope option"
  bd_created_at :: datetime
  bd_updated_at :: datetime

record routing_context =
  cx_channel :: string
  cx_account_id :: string
  cx_sender_id :: string
  cx_peer_id :: "string option"
  cx_parent_peer_id :: "string option"
  cx_guild_id :: "string option"
  cx_role_ids :: "string list"
  cx_team_id :: "string option"

record 'db routing_engine =
  re_bindings :: "string \<rightharpoonup> binding"
  re_store :: 'db
  re_default_agent_id :: string
  re_default_session_scope :: session_scope

subsection \<open>Session keys\<close>

definition session_key_new :: "string \<Rightarrow> string \<Rightarrow> string \<Rightarrow> session_key" where
  "session_key_new scope channel ident = \<lparr>sk_scope = scope, sk_channel = channel, sk_identifier = ident\<rparr>"

text \<open>\<open>splitn\<close>: the part before the first separator and the rest after it.\<close>

fun split_once :: "char \<Rightarrow> string \<Rightarrow> (string \<times> string) option" where
  "split_once c [] = None"
| "split_once c (d # s) = (if d = c then Some ([], s) else map_option (\<lambda>(a, b). (d # a, b)) (split_once c s))"

definition session_key_parse :: "string \<Rightarrow> session_key option" where
  "session_key_parse s =
     (case split_once (CHR '':'') s of None \<Rightarrow> None
      | Some (scope, rest) \<Rightarrow>
     (case split_once (CHR '':'') rest of None \<Rightarrow> None
      | Some (channel, ident) \<Rightarrow>
          if scope = [] \<or> channel = [] \<or> ident = [] then None
          else Some (session_key_new scope channel ident)))"

definition show_session_key :: "session_key \<Rightarrow> string" where
  "show_session_key k = sk_scope k @ '':'' @ sk_channel k @ '':'' @ sk_identifier k"

definition main_key :: "string \<Rightarrow> string \<Rightarrow> session_key" where
  "main_key channel account_id = session_key_new ''main'' channel account_id"

definition peer_or_sender :: "routing_context \<Rightarrow> string" where
  "peer_or_sender cx = (case cx_peer_id cx of Some p \<Rightarrow> p | None \<Rightarrow> cx_sender_id cx)"

definition compute_session_key :: "routing_context \<Rightarrow> session_scope \<Rightarrow> string" where
  "compute_session_key cx scope = show_session_key (case scope of
       GlobalScope \<Rightarrow> session_key_new ''global'' (cx_channel cx) ''shared''
     | PerSender \<Rightarrow> session_key_new ''sender'' (cx_channel cx) (cx_sender_id cx)
     | PerPeer \<Rightarrow> session_key_new ''peer'' (cx_channel cx) (peer_or_sender cx)
     | PerChannelPeer \<Rightarrow> session_key_new ''chpeer'' (cx_channel cx) (cx_channel cx @ ''_'' @ peer_or_sender cx)
     | PerAccountChannelPeer \<Rightarrow> session_key_new ''acctchpeer'' (cx_channel cx)
         (cx_account_id cx @ ''_'' @ cx_channel cx @ ''_'' @ peer_or_sender cx))"

subsection \<open>Bindings\<close>

definition binding_new :: "string \<Rightarrow> datetime \<Rightarrow> string \<Rightarrow> binding_kind \<Rightarrow> binding" where
  "binding_new uid now agent kind = \<lparr>bd_id = uid, bd_agent_id = agent, bd_kind = kind,
     bd_route_policy = ScopedSession, bd_session_scope = None, bd_created_at = now, bd_updated_at = now\<rparr>"

definition matched_by_type :: "binding \<Rightarrow> matched_by" where
  "matched_by_type b = (case bd_kind b of PeerKind _ _ \<Rightarrow> BindingPeer | GuildKind _ _ \<Rightarrow> BindingGuild
     | GuildRolesKind _ _ _ \<Rightarrow> BindingGuildRoles | TeamKind _ _ \<Rightarrow> BindingTeam
     | AccountKind _ _ \<Rightarrow> BindingAccount | ChannelKind _ \<Rightarrow> BindingChannel)"

definition find_peer_binding :: "binding list \<Rightarrow> string \<Rightarrow> string \<Rightarrow> binding option" where
  "find_peer_binding bs channel peer =
     List.find (\<lambda>b. case bd_kind b of PeerKind ch p \<Rightarrow> ch = channel \<and> p = peer | _ \<Rightarrow> False) bs"

definition find_guild_roles_binding :: "binding list \<Rightarrow> string \<Rightarrow> string \<Rightarrow> string list \<Rightarrow> binding option" where
  "find_guild_roles_binding bs channel guild roles =
     List.find (\<lambda>b. case bd_kind b of
        GuildRolesKind ch g rs \<Rightarrow> ch = channel \<and> g = guild \<and> list_ex (\<lambda>r. r \<in> set roles) rs | _ \<Rightarrow> False) bs"

definition find_guild_binding :: "binding list \<Rightarrow> string \<Rightarrow> string \<Rightarrow> binding option" where
  "find_guild_binding bs channel guild =
     List.find (\<lambda>b. case bd_kind b of GuildKind ch g \<Rightarrow> ch = channel \<and> g = guild | _ \<Rightarrow> False) bs"

definition find_team_binding :: "binding list \<Rightarrow> string \<Rightarrow> string \<Rightarrow> binding option" where
  "find_team_binding bs channel team =
     List.find (\<lambda>b. case bd_kind b of TeamKind ch t \<Rightarrow> ch = channel \<and> t = team | _ \<Rightarrow> False) bs"

definition find_account_binding :: "binding list \<Rightarrow> string \<Rightarrow> string \<Rightarrow> binding option" where
  "find_account_binding bs channel account =
     List.find (\<lambda>b. case bd_kind b of AccountKind ch a \<Rightarrow> ch = channel \<and> a = account | _ \<Rightarrow> False) bs"

definition find_channel_binding :: "binding list \<Rightarrow> string \<Rightarrow> binding option" where
  "find_channel_binding bs channel =
     List.find (\<lambda>b. case bd_kind b of ChannelKind ch \<Rightarrow> ch = channel | _ \<Rightarrow> False) bs"

subsection \<open>Resolution\<close>

definition build_route ::
  "'db routing_engine \<Rightarrow> routing_context \<Rightarrow> binding \<Rightarrow> matched_by \<Rightarrow> resolved_route" where
  "build_route eng cx b matched =
     (let scope = (case bd_session_scope b of Some s \<Rightarrow> s | None \<Rightarrow> re_default_session_scope eng) in
      \<lparr>rr_agent_id = bd_agent_id b, rr_channel = cx_channel cx, rr_account_id = cx_account_id cx,
       rr_session_key = compute_session_key cx scope,
       rr_main_session_key = show_session_key (main_key (cx_channel cx) (cx_account_id cx)),
       rr_last_route_policy = bd_route_policy b, rr_matched_by = matched\<rparr>)"

definition build_default_route :: "'db routing_engine \<Rightarrow> routing_context \<Rightarrow> resolved_route" where
  "build_default_route eng cx =
     \<lparr>rr_agent_id = re_default_agent_id eng, rr_channel = cx_channel cx, rr_account_id = cx_account_id cx,
      rr_session_key = compute_session_key cx (re_default_session_scope eng),
      rr_main_session_key = show_session_key (main_key (cx_channel cx) (cx_account_id cx)),
      rr_last_route_policy = ScopedSession, rr_matched_by = DefaultMatch\<rparr>"

definition resolve ::
  "((string \<rightharpoonup> binding) \<Rightarrow> binding list) \<Rightarrow> 'db routing_engine \<Rightarrow> routing_context \<Rightarrow> resolved_route" where
  "resolve values eng cx =
     (let bs = values (re_bindings eng); ch = cx_channel cx in
      case Option.bind (cx_peer_id cx) (find_peer_binding bs ch) of
        Some b \<Rightarrow> build_route eng cx b BindingPeer
      | None \<Rightarrow>
     (case Option.bind (cx_parent_peer_id cx) (find_peer_binding bs ch) of
        Some b \<Rightarrow> build_route eng cx b BindingPeerParent
      | None \<Rightarrow>
     (case (if cx_role_ids cx = [] then None
            else Option.bind (cx_guild_id cx) (\<lambda>g. find_guild_roles_binding bs ch g (cx_role_ids cx))) of
        Some b \<Rightarrow> build_route eng cx b BindingGuildRoles
      | None \<Rightarrow>
     (case Option.bind (cx_guild_id cx) (find_guild_binding bs ch) of
        Some b \<Rightarrow> build_route eng cx b BindingGuild
      | None \<Rightarrow>
     (case Option.bind (cx_team_id cx) (find_team_binding bs ch) of
        Some b \<Rightarrow> build_route eng cx b BindingTeam
      | None \<Rightarrow>
     (case find_account_binding bs ch (cx_account_id cx) of
        Some b \<Rightarrow> build_route eng cx b BindingAccount
      | None \<Rightarrow>
     (case find_channel_binding bs ch of
        Some b \<Rightarrow> build_route eng cx b BindingChannel
      | None \<Rightarrow> build_default_route eng cx)))))))"

subsection \<open>Operations on the bindings\<close>

record ('db, 'tx, 'v, 'e) routing_env =
  rt_rb :: "('db, 'tx, 'v, 'e) redb"
  rt_enc :: "binding \<Rightarrow> 'e + 'v"
  rt_dec :: "'v \<Rightarrow> 'e + binding"

type_synonym ('db, 'e, 'a) rx = "('db routing_engine, 'e, 'a) sx"

definition rt_write :: "('db \<Rightarrow> 'e + 'db \<times> 'a) \<Rightarrow> ('db, 'e, 'a) rx" where
  "rt_write f s = (case f (re_store s) of Inl e \<Rightarrow> (Inl e, s) | Inr (db, x) \<Rightarrow> (Inr x, s\<lparr>re_store := db\<rparr>))"

definition persist_binding :: "('db, 'tx, 'v, 'e) routing_env \<Rightarrow> binding \<Rightarrow> ('db, 'e, unit) rx" where
  "persist_binding env b = rt_write (\<lambda>db. sbind (put_json (rt_rb env) (rt_enc env) ROUTE_BINDINGS (bd_id b) b db)
     (\<lambda>db. Inr (db, ())))"

definition cache_binding :: "binding \<Rightarrow> ('db, 'e, unit) rx" where
  "cache_binding b = sx_update (\<lambda>s. s\<lparr>re_bindings := (re_bindings s)(bd_id b \<mapsto> b)\<rparr>)"

definition add_binding :: "('db, 'tx, 'v, 'e) routing_env \<Rightarrow> binding \<Rightarrow> ('db, 'e, unit) rx" where
  "add_binding env b = sx_bind (persist_binding env b) (\<lambda>_. cache_binding b)"

definition remove_binding :: "('db, 'tx, 'v, 'e) routing_env \<Rightarrow> string \<Rightarrow> ('db, 'e, bool) rx" where
  "remove_binding env i =
     sx_bind (rt_write (store_delete (rt_rb env) ROUTE_BINDINGS i)) (\<lambda>affected.
     sx_bind (sx_update (\<lambda>s. s\<lparr>re_bindings := (re_bindings s)(i := None)\<rparr>)) (\<lambda>_. sx_return affected))"

definition update_binding :: "('db, 'tx, 'v, 'e) routing_env \<Rightarrow> datetime \<Rightarrow> binding \<Rightarrow> ('db, 'e, bool) rx" where
  "update_binding env now b0 =
     (let b = b0\<lparr>bd_updated_at := now\<rparr> in
      sx_bind (sx_ask (\<lambda>s. store_get (rt_rb env) ROUTE_BINDINGS (bd_id b) (re_store s))) (\<lambda>row.
      if row = None then sx_return False
      else sx_bind (persist_binding env b) (\<lambda>_. sx_bind (cache_binding b) (\<lambda>_. sx_return True))))"

definition get_binding :: "'db routing_engine \<Rightarrow> string \<Rightarrow> binding option" where
  "get_binding eng i = re_bindings eng i"

definition list_bindings ::
  "((string \<rightharpoonup> binding) \<Rightarrow> binding list) \<Rightarrow> 'db routing_engine \<Rightarrow> string option \<Rightarrow> binding list" where
  "list_bindings values eng agent =
     filter (\<lambda>b. case agent of Some a \<Rightarrow> bd_agent_id b = a | None \<Rightarrow> True) (values (re_bindings eng))"

definition load_bindings :: "('db, 'tx, 'v, 'e) routing_env \<Rightarrow> ('db, 'e, unit) rx" where
  "load_bindings env =
     sx_bind (sx_ask (\<lambda>s. store_list (rt_rb env) ROUTE_BINDINGS (re_store s))) (\<lambda>raw.
     sx_update (\<lambda>s. s\<lparr>re_bindings := load_rows (rt_dec env) bd_id raw (re_bindings s)\<rparr>))"

definition routing_open :: "('db, 'tx, 'v, 'e) routing_env \<Rightarrow> 'db \<Rightarrow> string \<Rightarrow> session_scope \<Rightarrow> 'e + 'db routing_engine" where
  "routing_open env db agent scope =
     (case load_bindings env \<lparr>re_bindings = Map.empty, re_store = db, re_default_agent_id = agent,
         re_default_session_scope = scope\<rparr> of
        (Inl e, _) \<Rightarrow> Inl e | (Inr _, eng) \<Rightarrow> Inr eng)"

inductive rt_reachable ::
  "('db, 'tx, 'v, 'e) routing_env \<Rightarrow> ('db \<Rightarrow> 'v contents) \<Rightarrow> 'db routing_engine \<Rightarrow> bool" for env dbv where
  rt_fresh: "redb_laws.view dbv db ROUTE_BINDINGS = Map.empty \<Longrightarrow> routing_open env db agent scope = Inr s \<Longrightarrow> rt_reachable env dbv s"
| rt_reopen: "rt_reachable env dbv s \<Longrightarrow> routing_open env (re_store s) agent scope = Inr s' \<Longrightarrow> rt_reachable env dbv s'"
| rt_add: "rt_reachable env dbv s \<Longrightarrow> add_binding env b s = (r, s') \<Longrightarrow> rt_reachable env dbv s'"
| rt_remove: "rt_reachable env dbv s \<Longrightarrow> remove_binding env i s = (r, s') \<Longrightarrow> rt_reachable env dbv s'"
| rt_update: "rt_reachable env dbv s \<Longrightarrow> update_binding env now b s = (r, s') \<Longrightarrow> rt_reachable env dbv s'"

locale routing_laws = row_table "rt_rb env" dbv txv "rt_enc env" "rt_dec env"
  for env :: "('db, 'tx, 'v, 'e) routing_env" and dbv :: "'db \<Rightarrow> 'v contents" and txv :: "'tx \<Rightarrow> 'v contents"
begin

definition rt_ok :: "'db routing_engine \<Rightarrow> bool" where
  "rt_ok s \<longleftrightarrow> re_bindings s = rows (re_store s) ROUTE_BINDINGS \<and> keyed bd_id (rows (re_store s) ROUTE_BINDINGS)"

lemma persist_cache_ok: "sx_valid rt_ok (sx_bind (persist_binding env b) (\<lambda>_. cache_binding b)) (\<lambda>_. rt_ok) rt_ok"
proof (rule sx_validI)
  fix s u s' assume ok: "rt_ok s" and a: "sx_bind (persist_binding env b) (\<lambda>_. cache_binding b) s = (Inr u, s')"
  then obtain db where db: "put_json (rt_rb env) (rt_enc env) ROUTE_BINDINGS (bd_id b) b (re_store s) = Inr db"
    and s': "s' = s\<lparr>re_store := db, re_bindings := (re_bindings s)(bd_id b \<mapsto> b)\<rparr>"
    by (auto simp: sx_bind_Inr_iff persist_binding_def rt_write_def cache_binding_def sx_update_def sbind_Inr_iff split: sum.splits)
  show "rt_ok s'" using ok by (simp add: rt_ok_def s' put_rows(1)[OF db] keyed_upd)
qed (auto simp: sx_bind_Inl_iff persist_binding_def rt_write_def cache_binding_def sx_update_def split: sum.splits)

lemma remove_ok: "sx_valid rt_ok (remove_binding env i) (\<lambda>_. rt_ok) rt_ok"
proof (rule sx_validI)
  fix s x s' assume ok: "rt_ok s" and a: "remove_binding env i s = (Inr x, s')"
  then obtain db where db: "store_delete (rt_rb env) ROUTE_BINDINGS i (re_store s) = Inr (db, x)"
    and s': "s' = s\<lparr>re_store := db, re_bindings := (re_bindings s)(i := None)\<rparr>"
    by (auto simp: sx_bind_Inr_iff remove_binding_def rt_write_def sx_update_def split: sum.splits)
  show "rt_ok s'" using ok by (simp add: rt_ok_def s' delete_rows(1)[OF db] keyed_del)
qed (auto simp: sx_bind_Inl_iff remove_binding_def rt_write_def sx_update_def split: sum.splits)

lemma update_ok: "sx_valid rt_ok (update_binding env now b) (\<lambda>_. rt_ok) rt_ok"
proof -
  let ?b = "b\<lparr>bd_updated_at := now\<rparr>"
  have w: "sx_valid rt_ok (sx_bind (persist_binding env ?b) (\<lambda>_. sx_bind (cache_binding ?b) (\<lambda>_. sx_return True))) (\<lambda>_. rt_ok) rt_ok"
  proof (rule sx_validI)
    fix s x s' assume "rt_ok s" "sx_bind (persist_binding env ?b) (\<lambda>_. sx_bind (cache_binding ?b) (\<lambda>_. sx_return True)) s = (Inr x, s')"
    then show "rt_ok s'" using sx_validD(1)[OF persist_cache_ok, of s ?b] by (auto simp: sx_bind_Inr_iff)
  next
    fix s e s' assume "rt_ok s" "sx_bind (persist_binding env ?b) (\<lambda>_. sx_bind (cache_binding ?b) (\<lambda>_. sx_return True)) s = (Inl e, s')"
    then show "rt_ok s'" using sx_validD(2)[OF persist_cache_ok, of s ?b] by (auto simp: sx_bind_Inl_iff)
  qed
  have a: "sx_valid rt_ok (sx_ask f) (\<lambda>_. rt_ok) rt_ok" for f :: "'db routing_engine \<Rightarrow> 'e + 'a"
    by (rule sx_validI) auto
  show ?thesis
    unfolding update_binding_def Let_def
    by (rule sx_valid_bind[OF a]) (use w in \<open>auto intro: sx_valid_return\<close>)
qed

lemma rt_open_ok:
  assumes "routing_open env db agent scope = Inr s" "keyed bd_id (rows db ROUTE_BINDINGS)"
  shows "s = \<lparr>re_bindings = rows db ROUTE_BINDINGS, re_store = db, re_default_agent_id = agent, re_default_session_scope = scope\<rparr>"
  using assms load_rows_store[where ident = bd_id]
  by (auto simp: routing_open_def load_bindings_def sx_bind_def sx_ask_def sx_update_def split: sum.splits)

lemma rt_runs_ok: "rt_reachable env dbv s \<Longrightarrow> rt_ok s"
proof (induction rule: rt_reachable.induct)
  case (rt_fresh db agent scope s)
  then have "keyed bd_id (rows db ROUTE_BINDINGS)" by (simp add: rows_def keyed_def)
  with rt_open_ok[OF rt_fresh(2)] show ?case by (simp add: rt_ok_def)
next
  case (rt_reopen s agent scope s')
  with rt_open_ok[OF rt_reopen(2)] show ?case by (simp add: rt_ok_def)
next
  case (rt_add s b r s')
  then show ?case using sx_validD[OF persist_cache_ok] unfolding add_binding_def by (cases r) blast+
next
  case (rt_remove s i r s')
  then show ?case using sx_validD[OF remove_ok] by (cases r) blast+
next
  case (rt_update s now b r s')
  then show ?case using sx_validD[OF update_ok] by (cases r) blast+
qed

end

subsection \<open>Which bindings apply\<close>

definition applies :: "routing_context \<Rightarrow> matched_by \<Rightarrow> binding \<Rightarrow> bool" where
  "applies cx level b \<longleftrightarrow>
     (case level of
        BindingPeer \<Rightarrow> \<exists>p. cx_peer_id cx = Some p \<and> bd_kind b = PeerKind (cx_channel cx) p
      | BindingPeerParent \<Rightarrow> \<exists>p. cx_parent_peer_id cx = Some p \<and> bd_kind b = PeerKind (cx_channel cx) p
      | BindingGuildRoles \<Rightarrow> \<exists>g roles. cx_guild_id cx = Some g \<and> bd_kind b = GuildRolesKind (cx_channel cx) g roles \<and>
          set roles \<inter> set (cx_role_ids cx) \<noteq> {}
      | BindingGuild \<Rightarrow> \<exists>g. cx_guild_id cx = Some g \<and> bd_kind b = GuildKind (cx_channel cx) g
      | BindingTeam \<Rightarrow> \<exists>t. cx_team_id cx = Some t \<and> bd_kind b = TeamKind (cx_channel cx) t
      | BindingAccount \<Rightarrow> bd_kind b = AccountKind (cx_channel cx) (cx_account_id cx)
      | BindingChannel \<Rightarrow> bd_kind b = ChannelKind (cx_channel cx)
      | DefaultMatch \<Rightarrow> False)"

definition levels :: "matched_by list" where
  "levels = [BindingPeer, BindingPeerParent, BindingGuildRoles, BindingGuild, BindingTeam, BindingAccount, BindingChannel]"

text \<open>The lookup the program makes at a level finds an applicable binding, and fails only if there is none.\<close>

definition lookup_level :: "routing_context \<Rightarrow> binding list \<Rightarrow> matched_by \<Rightarrow> binding option" where
  "lookup_level cx bs level = List.find (applies cx level) bs"

lemma kind_is:
  "(case k of PeerKind ch p \<Rightarrow> ch = c \<and> p = i | _ \<Rightarrow> False) \<longleftrightarrow> k = PeerKind c i"
  "(case k of GuildKind ch g \<Rightarrow> ch = c \<and> g = i | _ \<Rightarrow> False) \<longleftrightarrow> k = GuildKind c i"
  "(case k of TeamKind ch g \<Rightarrow> ch = c \<and> g = i | _ \<Rightarrow> False) \<longleftrightarrow> k = TeamKind c i"
  "(case k of AccountKind ch g \<Rightarrow> ch = c \<and> g = i | _ \<Rightarrow> False) \<longleftrightarrow> k = AccountKind c i"
  "(case k of ChannelKind ch \<Rightarrow> ch = c | _ \<Rightarrow> False) \<longleftrightarrow> k = ChannelKind c"
  "(case k of GuildRolesKind ch g rs \<Rightarrow> ch = c \<and> g = i \<and> list_ex (\<lambda>r. r \<in> set roles) rs | _ \<Rightarrow> False) \<longleftrightarrow>
     (\<exists>rs. k = GuildRolesKind c i rs \<and> set rs \<inter> set roles \<noteq> {})"
  by (cases k; auto simp: list_ex_iff)+

lemma find_never: "List.find (\<lambda>_. False) bs = None"
  by (simp add: find_None_all)

lemma lookup_levels:
  "Option.bind (cx_peer_id cx) (find_peer_binding bs (cx_channel cx)) = lookup_level cx bs BindingPeer"
  "Option.bind (cx_parent_peer_id cx) (find_peer_binding bs (cx_channel cx)) = lookup_level cx bs BindingPeerParent"
  "(if cx_role_ids cx = [] then None
    else Option.bind (cx_guild_id cx) (\<lambda>g. find_guild_roles_binding bs (cx_channel cx) g (cx_role_ids cx))) =
      lookup_level cx bs BindingGuildRoles"
  "Option.bind (cx_guild_id cx) (find_guild_binding bs (cx_channel cx)) = lookup_level cx bs BindingGuild"
  "Option.bind (cx_team_id cx) (find_team_binding bs (cx_channel cx)) = lookup_level cx bs BindingTeam"
  "find_account_binding bs (cx_channel cx) (cx_account_id cx) = lookup_level cx bs BindingAccount"
  "find_channel_binding bs (cx_channel cx) = lookup_level cx bs BindingChannel"
  unfolding lookup_level_def find_peer_binding_def find_guild_roles_binding_def find_guild_binding_def
    find_team_binding_def find_account_binding_def find_channel_binding_def kind_is applies_def
  by (cases "cx_peer_id cx" "cx_parent_peer_id cx" rule: option.exhaust[case_product option.exhaust];
      cases "cx_guild_id cx"; cases "cx_team_id cx"; simp add: find_never)+

lemma lookup_level_Some: "lookup_level cx bs l = Some b \<Longrightarrow> b \<in> set bs \<and> applies cx l b"
  by (auto simp: lookup_level_def dest: find_Some_mem)

lemma lookup_level_None: "lookup_level cx bs l = None \<longleftrightarrow> (\<forall>b \<in> set bs. \<not> applies cx l b)"
  by (simp add: lookup_level_def find_None_all)

fun resolve_from :: "'db routing_engine \<Rightarrow> routing_context \<Rightarrow> binding list \<Rightarrow> matched_by list \<Rightarrow> resolved_route" where
  "resolve_from eng cx bs [] = build_default_route eng cx"
| "resolve_from eng cx bs (l # ls) = (case lookup_level cx bs l of
     Some b \<Rightarrow> build_route eng cx b l | None \<Rightarrow> resolve_from eng cx bs ls)"

lemma resolve_levels: "resolve values eng cx = resolve_from eng cx (values (re_bindings eng)) levels"
  unfolding resolve_def Let_def lookup_levels levels_def by (simp split: option.split)

lemma resolve_from_first:
  "case List.find (\<lambda>l. \<exists>b \<in> set bs. applies cx l b) ls of
     None \<Rightarrow> resolve_from eng cx bs ls = build_default_route eng cx
   | Some l \<Rightarrow> \<exists>b \<in> set bs. applies cx l b \<and> resolve_from eng cx bs ls = build_route eng cx b l"
proof (induction ls)
  case (Cons l ls)
  show ?case
  proof (cases "lookup_level cx bs l")
    case None
    then have "\<not> (\<exists>b \<in> set bs. applies cx l b)" by (simp add: lookup_level_None)
    then have "List.find (\<lambda>l. \<exists>b \<in> set bs. applies cx l b) (l # ls) = List.find (\<lambda>l. \<exists>b \<in> set bs. applies cx l b) ls"
      by simp
    moreover have "resolve_from eng cx bs (l # ls) = resolve_from eng cx bs ls" by (simp add: None)
    ultimately show ?thesis using Cons by (simp only:)
  next
    case (Some b)
    with lookup_level_Some[OF Some] show ?thesis by auto
  qed
qed simp

subsection \<open>Properties\<close>

text \<open>C20. A message goes to a binding of the most specific level that has an applicable one (peer, parent peer,
  guild roles, guild, team, account, channel), and to the default agent only if no binding applies.\<close>

theorem resolve_most_specific:
  assumes "set (values (re_bindings eng)) = ran (re_bindings eng)"
  shows "case List.find (\<lambda>l. \<exists>b \<in> ran (re_bindings eng). applies cx l b) levels of
     None \<Rightarrow> resolve values eng cx = build_default_route eng cx
   | Some l \<Rightarrow> \<exists>b \<in> ran (re_bindings eng). applies cx l b \<and> resolve values eng cx = build_route eng cx b l"
  unfolding resolve_levels assms[symmetric] by (rule resolve_from_first)

text \<open>Where at most one binding applies at each level, the route does not depend on the order in which
  the map of bindings is iterated.\<close>

theorem resolve_order_independent:
  assumes "set (values (re_bindings eng)) = ran (re_bindings eng)" "set (values' (re_bindings eng)) = ran (re_bindings eng)"
    and "\<And>l b b'. b \<in> ran (re_bindings eng) \<Longrightarrow> b' \<in> ran (re_bindings eng) \<Longrightarrow> applies cx l b \<Longrightarrow> applies cx l b' \<Longrightarrow> b = b'"
  shows "resolve values eng cx = resolve values' eng cx"
proof -
  have "lookup_level cx (values (re_bindings eng)) l = lookup_level cx (values' (re_bindings eng)) l" for l
  proof (cases "lookup_level cx (values (re_bindings eng)) l")
    case None
    then have "lookup_level cx (values' (re_bindings eng)) l = None" using assms(1,2) by (simp add: lookup_level_None)
    with None show ?thesis by simp
  next
    case (Some b)
    then have "lookup_level cx (values' (re_bindings eng)) l \<noteq> None"
      using lookup_level_Some[OF Some] assms(1,2) by (auto simp: lookup_level_None)
    then obtain b' where b': "lookup_level cx (values' (re_bindings eng)) l = Some b'" by blast
    then have "b = b'" using lookup_level_Some[OF Some] lookup_level_Some[OF b'] assms by auto
    with Some b' show ?thesis by simp
  qed
  then have "resolve_from eng cx (values (re_bindings eng)) ls = resolve_from eng cx (values' (re_bindings eng)) ls" for ls
    by (induction ls) (auto split: option.splits)
  then show ?thesis by (simp add: resolve_levels)
qed

text \<open>Whatever sequence of additions, removals, updates and restarts ran, an engine opened on the store
  has the bindings of the engine that was running.\<close>

theorem bindings_survive_restart:
  assumes "routing_laws env dbv txv" "rt_reachable env dbv s"
    and "routing_open env (re_store s) (re_default_agent_id s) (re_default_session_scope s) = Inr s'"
  shows "s' = s"
proof -
  have "routing_laws.rt_ok env dbv s" by (rule routing_laws.rt_runs_ok[OF assms(1,2)])
  with routing_laws.rt_open_ok[OF assms(1,3)] show ?thesis by (simp add: routing_laws.rt_ok_def[OF assms(1)])
qed

lemma split_once_append: "CHR '':'' \<notin> set a \<Longrightarrow> split_once (CHR '':'') (a @ CHR '':'' # b) = Some (a, b)"
  by (induction a) auto

definition plain_key :: "session_key \<Rightarrow> bool" where
  "plain_key k \<longleftrightarrow> sk_scope k \<noteq> [] \<and> sk_channel k \<noteq> [] \<and> sk_identifier k \<noteq> [] \<and>
     CHR '':'' \<notin> set (sk_scope k) \<and> CHR '':'' \<notin> set (sk_channel k)"

lemma parse_show: "plain_key k \<Longrightarrow> session_key_parse (show_session_key k) = Some k"
  by (simp add: plain_key_def session_key_parse_def show_session_key_def split_once_append session_key_new_def)

lemma show_inj: "plain_key k \<Longrightarrow> plain_key k' \<Longrightarrow> show_session_key k = show_session_key k' \<longleftrightarrow> k = k'"
  using parse_show by (metis option.inject)

lemma underscore_split:
  "CHR ''_'' \<notin> set a \<Longrightarrow> CHR ''_'' \<notin> set b \<Longrightarrow> a @ CHR ''_'' # x = b @ CHR ''_'' # y \<Longrightarrow> a = b \<and> x = y"
  by (induction a arbitrary: b) (auto simp: append_eq_Cons_conv Cons_eq_append_conv split: list.splits)

text \<open>A session key of a context reads back as its scope, channel and identifier, so two contexts of one
  channel share a session exactly when they have the same conversation; where account and channel names
  hold no underscore the most specific scope also keeps accounts apart.\<close>

theorem session_key_isolates:
  assumes "cx_channel cx \<noteq> []" "CHR '':'' \<notin> set (cx_channel cx)" "peer_or_sender cx \<noteq> []"
    and "cx_channel cx' \<noteq> []" "CHR '':'' \<notin> set (cx_channel cx')" "peer_or_sender cx' \<noteq> []"
  shows "session_key_parse (compute_session_key cx PerPeer) =
      Some \<lparr>sk_scope = ''peer'', sk_channel = cx_channel cx, sk_identifier = peer_or_sender cx\<rparr> \<and>
    (compute_session_key cx PerPeer = compute_session_key cx' PerPeer \<longleftrightarrow>
       cx_channel cx = cx_channel cx' \<and> peer_or_sender cx = peer_or_sender cx') \<and>
    (CHR ''_'' \<notin> set (cx_account_id cx @ cx_account_id cx' @ cx_channel cx @ cx_channel cx') \<longrightarrow>
       compute_session_key cx PerAccountChannelPeer = compute_session_key cx' PerAccountChannelPeer \<longleftrightarrow>
       cx_account_id cx = cx_account_id cx' \<and> cx_channel cx = cx_channel cx' \<and> peer_or_sender cx = peer_or_sender cx')"
proof (intro conjI impI)
  let ?k = "\<lambda>cx. session_key_new ''peer'' (cx_channel cx) (peer_or_sender cx)"
  let ?a = "\<lambda>cx. session_key_new ''acctchpeer'' (cx_channel cx)
     (cx_account_id cx @ ''_'' @ cx_channel cx @ ''_'' @ peer_or_sender cx)"
  have p: "plain_key (?k cx)" "plain_key (?k cx')" "plain_key (?a cx)" "plain_key (?a cx')"
    using assms by (simp_all add: plain_key_def session_key_new_def)
  show "session_key_parse (compute_session_key cx PerPeer) =
      Some \<lparr>sk_scope = ''peer'', sk_channel = cx_channel cx, sk_identifier = peer_or_sender cx\<rparr>"
    using parse_show[OF p(1)] by (simp add: compute_session_key_def session_key_new_def)
  show "compute_session_key cx PerPeer = compute_session_key cx' PerPeer \<longleftrightarrow>
       cx_channel cx = cx_channel cx' \<and> peer_or_sender cx = peer_or_sender cx'"
    using show_inj[OF p(1,2)] by (simp add: compute_session_key_def session_key_new_def)
  assume u: "CHR ''_'' \<notin> set (cx_account_id cx @ cx_account_id cx' @ cx_channel cx @ cx_channel cx')"
  have e: "compute_session_key cx PerAccountChannelPeer = compute_session_key cx' PerAccountChannelPeer \<longleftrightarrow> ?a cx = ?a cx'"
    using show_inj[OF p(3,4)] by (simp add: compute_session_key_def)
  show "compute_session_key cx PerAccountChannelPeer = compute_session_key cx' PerAccountChannelPeer \<longleftrightarrow>
       cx_account_id cx = cx_account_id cx' \<and> cx_channel cx = cx_channel cx' \<and> peer_or_sender cx = peer_or_sender cx'"
  proof
    assume "compute_session_key cx PerAccountChannelPeer = compute_session_key cx' PerAccountChannelPeer"
    then have "sk_identifier (?a cx) = sk_identifier (?a cx')" "sk_channel (?a cx) = sk_channel (?a cx')"
      unfolding e by simp_all
    then have "cx_account_id cx @ CHR ''_'' # (cx_channel cx @ ''_'' @ peer_or_sender cx) =
        cx_account_id cx' @ CHR ''_'' # (cx_channel cx' @ ''_'' @ peer_or_sender cx')" "cx_channel cx = cx_channel cx'"
      unfolding session_key_new_def session_key.simps append_Cons append_Nil .
    with underscore_split[OF _ _ this(1)] u
    show "cx_account_id cx = cx_account_id cx' \<and> cx_channel cx = cx_channel cx' \<and> peer_or_sender cx = peer_or_sender cx'" by auto
  qed (simp add: e session_key_new_def)
qed

text \<open>With an underscore in an account name two accounts can share a session in the scope that names the
  account.\<close>

theorem account_scope_collides:
  "\<exists>cx cx'. cx_account_id cx \<noteq> cx_account_id cx' \<and> peer_or_sender cx \<noteq> peer_or_sender cx' \<and>
     compute_session_key cx PerAccountChannelPeer = compute_session_key cx' PerAccountChannelPeer"
proof (intro exI conjI)
  let ?cx = "\<lambda>account peer. \<lparr>cx_channel = ''c'', cx_account_id = account, cx_sender_id = ''u'', cx_peer_id = Some peer,
     cx_parent_peer_id = None, cx_guild_id = None, cx_role_ids = [], cx_team_id = None\<rparr>"
  show "compute_session_key (?cx ''a'' ''c_p'') PerAccountChannelPeer = compute_session_key (?cx ''a_c'' ''p'') PerAccountChannelPeer"
    by (simp add: compute_session_key_def show_session_key_def session_key_new_def peer_or_sender_def)
qed (simp_all add: peer_or_sender_def)

subsection \<open>Witnesses\<close>

definition sample_context_of :: "string \<Rightarrow> string option \<Rightarrow> routing_context" where
  "sample_context_of channel peer = \<lparr>cx_channel = channel, cx_account_id = ''bot'', cx_sender_id = ''u'', cx_peer_id = peer,
     cx_parent_peer_id = None, cx_guild_id = None, cx_role_ids = [], cx_team_id = None\<rparr>"

definition sample_peer_binding :: binding where
  "sample_peer_binding = binding_new ''1'' 0 ''support'' (PeerKind ''slack'' ''t1'')"

definition sample_channel_binding :: binding where
  "sample_channel_binding = binding_new ''2'' 0 ''general'' (ChannelKind ''slack'')"

definition sample_engine :: "binding mem_db routing_engine" where
  "sample_engine = \<lparr>re_bindings = [''1'' \<mapsto> sample_peer_binding, ''2'' \<mapsto> sample_channel_binding],
     re_store = (\<lambda>_. Some [])(ROUTE_BINDINGS \<mapsto> [(''2'', sample_channel_binding), (''1'', sample_peer_binding)]),
     re_default_agent_id = ''main'', re_default_session_scope = PerPeer\<rparr>"

lemma sample_ran: "ran (re_bindings sample_engine) = {sample_peer_binding, sample_channel_binding}"
  by (simp add: sample_engine_def insert_commute)

text \<open>The peer binding wins over the channel binding, whichever is listed first.\<close>

theorem resolve_most_specific_witness:
  "rr_agent_id (resolve (\<lambda>_. [sample_channel_binding, sample_peer_binding]) sample_engine
     (sample_context_of ''slack'' (Some ''t1''))) = ''support''"
proof -
  let ?vs = "\<lambda>_ :: string \<rightharpoonup> binding. [sample_channel_binding, sample_peer_binding]"
  let ?cx = "sample_context_of ''slack'' (Some ''t1'')"
  have s: "set (?vs (re_bindings sample_engine)) = ran (re_bindings sample_engine)" by (auto simp: sample_ran)
  have "List.find (\<lambda>l. \<exists>b \<in> ran (re_bindings sample_engine). applies ?cx l b) levels = Some BindingPeer"
    by (simp add: sample_ran levels_def applies_def sample_context_of_def sample_peer_binding_def binding_new_def)
  with resolve_most_specific[of ?vs sample_engine ?cx, OF s]
  have "\<exists>b \<in> ran (re_bindings sample_engine). applies ?cx BindingPeer b \<and>
    resolve ?vs sample_engine ?cx = build_route sample_engine ?cx b BindingPeer" by simp
  then obtain b where b: "b \<in> ran (re_bindings sample_engine)" "applies ?cx BindingPeer b"
    "resolve ?vs sample_engine ?cx = build_route sample_engine ?cx b BindingPeer" by (elim bexE conjE)
  have "\<not> applies ?cx BindingPeer sample_channel_binding"
    by (simp add: applies_def sample_channel_binding_def binding_new_def)
  with b(1,2) have "b = sample_peer_binding" unfolding sample_ran by blast
  with b(3) show ?thesis by (simp add: build_route_def sample_peer_binding_def binding_new_def Let_def)
qed

theorem resolve_order_independent_witness:
  "resolve (\<lambda>_. [sample_channel_binding, sample_peer_binding]) sample_engine (sample_context_of ''slack'' (Some ''t1'')) =
   resolve (\<lambda>_. [sample_peer_binding, sample_channel_binding]) sample_engine (sample_context_of ''slack'' (Some ''t1''))"
proof (rule resolve_order_independent)
  show "b = b'" if "b \<in> ran (re_bindings sample_engine)" "b' \<in> ran (re_bindings sample_engine)"
    "applies (sample_context_of ''slack'' (Some ''t1'')) l b" "applies (sample_context_of ''slack'' (Some ''t1'')) l b'" for l b b'
    using that by (cases l) (auto simp: sample_ran applies_def sample_context_of_def sample_peer_binding_def
        sample_channel_binding_def binding_new_def)
qed (auto simp: sample_ran)

definition sample_routing_env :: "(binding mem_db, binding mem_db, binding, unit) routing_env" where
  "sample_routing_env = \<lparr>rt_rb = mem_redb, rt_enc = Inr, rt_dec = Inr\<rparr>"

interpretation sample_routing: routing_laws sample_routing_env mem_view mem_view
  by unfold_locales
    (auto simp: sample_routing_env_def mem.begin_read mem.begin_write mem.open_read mem.open_write
      mem.insert mem.remove mem.get mem.iter mem.range mem.commit)

theorem bindings_survive_restart_witness:
  "\<exists>s. rt_reachable sample_routing_env mem_view s \<and> re_bindings s = [''1'' \<mapsto> sample_peer_binding] \<and>
     routing_open sample_routing_env (re_store s) ''main'' PerPeer = Inr s"
proof -
  let ?init = "\<lparr>re_bindings = Map.empty, re_store = \<lambda>_. Some [], re_default_agent_id = ''main'',
     re_default_session_scope = PerPeer\<rparr> :: binding mem_db routing_engine"
  let ?one = "?init\<lparr>re_bindings := [''1'' \<mapsto> sample_peer_binding],
     re_store := (\<lambda>_. Some [])(ROUTE_BINDINGS \<mapsto> [(''1'', sample_peer_binding)])\<rparr>"
  note eval = sample_routing_env_def mem_redb_def mem_rows_def store_list_def store_put_def put_json_def sx_bind_def sx_ask_def
    sx_update_def rt_write_def mem_sorted_def
  have "routing_open sample_routing_env (\<lambda>_. Some []) ''main'' PerPeer = Inr ?init"
    by (simp add: routing_open_def load_bindings_def eval)
  then have "rt_reachable sample_routing_env mem_view ?init" by (rule rt_fresh[rotated]) (simp add: mem.view_def mem_view_def)
  moreover have "add_binding sample_routing_env sample_peer_binding ?init = (Inr (), ?one)"
    by (simp add: add_binding_def persist_binding_def cache_binding_def eval sample_peer_binding_def binding_new_def)
  ultimately have r: "rt_reachable sample_routing_env mem_view ?one" by (rule rt_add)
  obtain s' where s': "routing_open sample_routing_env (re_store ?one) ''main'' PerPeer = Inr s'"
    by (simp add: routing_open_def load_bindings_def eval)
  have "s' = ?one"
    by (rule bindings_survive_restart[OF sample_routing.routing_laws_axioms r]) (use s' in simp)
  with r s' show ?thesis by (intro exI[of _ ?one] conjI) simp_all
qed

theorem session_key_isolates_witness:
  "session_key_parse (compute_session_key (sample_context_of ''slack'' (Some ''t:1'')) PerPeer) =
     Some \<lparr>sk_scope = ''peer'', sk_channel = ''slack'', sk_identifier = ''t:1''\<rparr> \<and>
   compute_session_key (sample_context_of ''slack'' (Some ''t:1'')) PerAccountChannelPeer \<noteq>
   compute_session_key (sample_context_of ''slack'' None) PerAccountChannelPeer"
  using session_key_isolates[of "sample_context_of ''slack'' (Some ''t:1'')" "sample_context_of ''slack'' None"]
  by (simp add: sample_context_of_def peer_or_sender_def)

end
