(* ===== verification/Cron.thy ===== *)
theory Cron
  imports RowCache Json
begin

text \<open>
  The cron scheduler (\<open>rockbot-gateway/src/cron.rs\<close>). Jobs are rows of a table, mirrored in memory; a
  background loop ticks, executes the jobs that are due and records the outcome, while calls of other
  tasks add, update and remove jobs. The loop and the calls interleave at the points where the
  program awaits a lock, the executor or the command channel: the transition relation \<open>cron_step\<close> has
  one rule per section between two such points. Parsing and evaluating cron expressions (crates
  \<open>cron\<close> and \<open>chrono\<close>) and the executor are parameters.
\<close>

subsection \<open>Data\<close>

datatype run_status = RunSuccess | RunFailed | RunSkipped | RunRunning

datatype session_target = TargetExisting | TargetEphemeral | TargetPersistent

datatype wake_mode = WakeTurn | WakeEvent

record cron_delivery =
  dl_channel :: string
  dl_target :: string
  dl_metadata :: "string \<rightharpoonup> json"

datatype cron_schedule = ScheduleAt nat | ScheduleEvery nat | ScheduleCron string

datatype cron_payload = SystemEvent string "json option" | AgentTurn string "string option"

record cron_job_state =
  js_next_run_at_ms :: "nat option"
  js_last_run_at_ms :: "nat option"
  js_last_run_status :: "run_status option"
  js_last_error :: "string option"
  js_consecutive_errors :: nat

record cron_job =
  jb_id :: string
  jb_name :: string
  jb_description :: "string option"
  jb_enabled :: bool
  jb_agent_id :: "string option"
  jb_session_key :: "string option"
  jb_schedule :: cron_schedule
  jb_payload :: cron_payload
  jb_session_target :: session_target
  jb_wake_mode :: wake_mode
  jb_delivery :: "cron_delivery option"
  jb_target_client :: "string option"
  jb_state :: cron_job_state
  jb_created_at :: datetime
  jb_updated_at :: datetime

text \<open>\<open>ce_parse\<close> is \<open>CronExpression::from_str\<close>, \<open>ce_after\<close> the first element of \<open>after\<close>; instants of
  \<open>chrono\<close> convert from and to signed milliseconds.\<close>

record ('db, 'tx, 'v, 'e, 'cx, 'dt) cron_env =
  ce_rb :: "('db, 'tx, 'v, 'e) redb"
  ce_enc :: "cron_job \<Rightarrow> 'e + 'v"
  ce_dec :: "'v \<Rightarrow> 'e + cron_job"
  ce_parse :: "string \<Rightarrow> 'cx option"
  ce_after :: "'cx \<Rightarrow> 'dt \<Rightarrow> 'dt option"
  ce_from_millis :: "int \<Rightarrow> 'dt option"
  ce_millis :: "'dt \<Rightarrow> int"

datatype 'e cron_error = InvalidExpression string | JobNotFound string | NotRunning | CronStorage 'e

subsection \<open>Jobs\<close>

definition default_job_state :: cron_job_state where
  "default_job_state = \<lparr>js_next_run_at_ms = None, js_last_run_at_ms = None, js_last_run_status = None,
     js_last_error = None, js_consecutive_errors = 0\<rparr>"

definition cron_job_new :: "string \<Rightarrow> datetime \<Rightarrow> string \<Rightarrow> cron_schedule \<Rightarrow> cron_payload \<Rightarrow> cron_job" where
  "cron_job_new uid now name schedule payload =
     \<lparr>jb_id = uid, jb_name = name, jb_description = None, jb_enabled = True, jb_agent_id = None,
      jb_session_key = None, jb_schedule = schedule, jb_payload = payload, jb_session_target = TargetExisting,
      jb_wake_mode = WakeTurn, jb_delivery = None, jb_target_client = None, jb_state = default_job_state,
      jb_created_at = now, jb_updated_at = now\<rparr>"

text \<open>The casts between \<open>u64\<close> and \<open>i64\<close>.\<close>

definition as_i64 :: "nat \<Rightarrow> int" where
  "as_i64 n = (if n < 2 ^ 63 then int n else int n - 2 ^ 64)"

definition as_u64_cast :: "int \<Rightarrow> nat" where
  "as_u64_cast i = nat (i mod 2 ^ 64)"

definition compute_next_run :: "('db, 'tx, 'v, 'e, 'cx, 'dt) cron_env \<Rightarrow> cron_job \<Rightarrow> nat \<Rightarrow> nat option" where
  "compute_next_run env j now =
     (case jb_schedule j of
        ScheduleAt at \<Rightarrow>
          if js_last_run_at_ms (jb_state j) \<noteq> None then None
          else if now < at then Some at else Some now
      | ScheduleEvery interval \<Rightarrow>
          (let base = (case js_last_run_at_ms (jb_state j) of Some t \<Rightarrow> t | None \<Rightarrow> now);
               nxt = wadd base interval in
           if nxt \<le> now then Some now else Some nxt)
      | ScheduleCron expression \<Rightarrow>
          Option.bind (ce_parse env expression) (\<lambda>schedule.
          Option.bind (ce_from_millis env (as_i64 now)) (\<lambda>dt.
          map_option (\<lambda>d. as_u64_cast (ce_millis env d)) (ce_after env schedule dt))))"

definition is_due :: "nat \<Rightarrow> cron_job \<Rightarrow> bool" where
  "is_due now j \<longleftrightarrow> jb_enabled j \<and> (case js_next_run_at_ms (jb_state j) of Some t \<Rightarrow> t \<le> now | None \<Rightarrow> False)"

definition set_next_run :: "nat option \<Rightarrow> cron_job \<Rightarrow> cron_job" where
  "set_next_run t j = j\<lparr>jb_state := (jb_state j)\<lparr>js_next_run_at_ms := t\<rparr>\<rparr>"

text \<open>Recording the outcome of an execution that began at \<open>now\<close>.\<close>

definition record_outcome ::
  "('db, 'tx, 'v, 'e, 'cx, 'dt) cron_env \<Rightarrow> nat \<Rightarrow> datetime \<Rightarrow> string + unit \<Rightarrow> cron_job \<Rightarrow> cron_job" where
  "record_outcome env now stamp result j0 =
     (let st = (jb_state j0)\<lparr>js_last_run_at_ms := Some now\<rparr>;
          st = (case result of
                  Inr _ \<Rightarrow> st\<lparr>js_last_run_status := Some RunSuccess, js_last_error := None, js_consecutive_errors := 0\<rparr>
                | Inl e \<Rightarrow> st\<lparr>js_last_run_status := Some RunFailed, js_last_error := Some e,
                              js_consecutive_errors := (js_consecutive_errors st + 1) mod 2 ^ 32\<rparr>);
          j = j0\<lparr>jb_state := st, jb_updated_at := stamp\<rparr>;
          j = set_next_run (compute_next_run env j now) j in
      case jb_schedule j of
        ScheduleAt _ \<Rightarrow> if js_next_run_at_ms (jb_state j) = None then j\<lparr>jb_enabled := False\<rparr> else j
      | _ \<Rightarrow> j)"

subsection \<open>The scheduler\<close>

datatype scheduler_command = TriggerNow string | Shutdown

text \<open>\<open>Ticking\<close> holds the due jobs not yet started, \<open>Executing\<close> the job handed to the executor and when it
  began, \<open>Persisting\<close> a job whose state is not yet written. The last component is what the loop goes on with.\<close>

datatype loop_phase = Stopped | Waiting | Ticking "string list" | Executing string nat "string list"
  | Persisting cron_job "string list"

text \<open>A call between its write to the store and its update of the map.\<close>

datatype pending_call = Inserting cron_job | Removing string

record 'db scheduler =
  cr_jobs :: "string \<rightharpoonup> cron_job"
  cr_store :: 'db
  cr_tx :: bool
  cr_rx :: bool
  cr_queue :: "scheduler_command list"
  cr_loop :: loop_phase
  cr_calls :: "nat \<rightharpoonup> pending_call"

definition scheduler_open :: "('db, 'tx, 'v, 'e, 'cx, 'dt) cron_env \<Rightarrow> 'db \<Rightarrow> 'e + 'db scheduler" where
  "scheduler_open env db =
     sbind (store_list (ce_rb env) CRON_JOBS db) (\<lambda>raw.
     Inr \<lparr>cr_jobs = load_rows (ce_dec env) jb_id raw Map.empty, cr_store = db, cr_tx = False, cr_rx = False,
          cr_queue = [], cr_loop = Stopped, cr_calls = Map.empty\<rparr>)"

definition start :: "'db scheduler \<Rightarrow> 'db scheduler" where
  "start s = (if cr_tx s then s else s\<lparr>cr_tx := True, cr_rx := True, cr_queue := [], cr_loop := Waiting\<rparr>)"

definition validate_schedule :: "('db, 'tx, 'v, 'e, 'cx, 'dt) cron_env \<Rightarrow> cron_schedule \<Rightarrow> 'e cron_error + unit" where
  "validate_schedule env sched = (case sched of
       ScheduleCron expression \<Rightarrow> if ce_parse env expression = None then Inl (InvalidExpression expression) else Inr ()
     | _ \<Rightarrow> Inr ())"

definition persist_job :: "('db, 'tx, 'v, 'e, 'cx, 'dt) cron_env \<Rightarrow> cron_job \<Rightarrow> 'db \<Rightarrow> 'e cron_error + 'db" where
  "persist_job env j db = map_sum CronStorage id (put_json (ce_rb env) (ce_enc env) CRON_JOBS (jb_id j) j db)"

text \<open>The part of \<open>add_job\<close>, \<open>update_job\<close> and \<open>remove_job\<close> before the lock on the map is awaited.\<close>

definition add_job_begin ::
  "('db, 'tx, 'v, 'e, 'cx, 'dt) cron_env \<Rightarrow> nat \<Rightarrow> cron_job \<Rightarrow> 'db \<Rightarrow> 'e cron_error + cron_job \<times> 'db" where
  "add_job_begin env now j0 db =
     sbind (validate_schedule env (jb_schedule j0)) (\<lambda>_.
     let j = set_next_run (compute_next_run env j0 now) j0 in
     sbind (persist_job env j db) (\<lambda>db. Inr (j, db)))"

definition update_job_begin ::
  "('db, 'tx, 'v, 'e, 'cx, 'dt) cron_env \<Rightarrow> datetime \<Rightarrow> nat \<Rightarrow> cron_job \<Rightarrow> 'db \<Rightarrow> 'e cron_error + cron_job \<times> 'db" where
  "update_job_begin env stamp now j0 db =
     sbind (validate_schedule env (jb_schedule j0)) (\<lambda>_.
     let j = j0\<lparr>jb_updated_at := stamp\<rparr>; j = set_next_run (compute_next_run env j now) j in
     sbind (map_sum CronStorage id (store_get (ce_rb env) CRON_JOBS (jb_id j) db)) (\<lambda>row.
     if row = None then Inl (JobNotFound (jb_id j))
     else sbind (persist_job env j db) (\<lambda>db. Inr (j, db))))"

definition remove_job_begin ::
  "('db, 'tx, 'v, 'e, 'cx, 'dt) cron_env \<Rightarrow> string \<Rightarrow> 'db \<Rightarrow> 'e cron_error + 'db" where
  "remove_job_begin env i db =
     sbind (map_sum CronStorage id (store_delete (ce_rb env) CRON_JOBS i db)) (\<lambda>(db, removed).
     if removed then Inr db else Inl (JobNotFound i))"

text \<open>The part under the lock.\<close>

definition call_end :: "pending_call \<Rightarrow> 'db scheduler \<Rightarrow> 'db scheduler" where
  "call_end c s = (case c of
       Inserting j \<Rightarrow> s\<lparr>cr_jobs := (cr_jobs s)(jb_id j \<mapsto> j)\<rparr>
     | Removing i \<Rightarrow> s\<lparr>cr_jobs := (cr_jobs s)(i := None)\<rparr>)"

definition get_job :: "'db scheduler \<Rightarrow> string \<Rightarrow> cron_job option" where
  "get_job s i = cr_jobs s i"

definition list_jobs :: "((string \<rightharpoonup> cron_job) \<Rightarrow> cron_job list) \<Rightarrow> 'db scheduler \<Rightarrow> bool \<Rightarrow> cron_job list" where
  "list_jobs iter s enabled_only = filter (\<lambda>j. \<not> enabled_only \<or> jb_enabled j) (iter (cr_jobs s))"

text \<open>The channel holds 64 commands; a sender waits (\<open>None\<close>) while it is full and fails when the receiver is gone.\<close>

definition send_command :: "scheduler_command \<Rightarrow> 'db scheduler \<Rightarrow> ('e cron_error + 'db scheduler) option" where
  "send_command c s =
     (if \<not> cr_tx s then Some (Inl NotRunning)
      else if \<not> cr_rx s then Some (Inl NotRunning)
      else if 64 \<le> length (cr_queue s) then None
      else Some (Inr (s\<lparr>cr_queue := cr_queue s @ [c]\<rparr>)))"

definition trigger_now :: "string \<Rightarrow> 'db scheduler \<Rightarrow> ('e cron_error + 'db scheduler) option" where
  "trigger_now i s = (if cr_jobs s i = None then Some (Inl (JobNotFound i)) else send_command (TriggerNow i) s)"

definition shutdown :: "'db scheduler \<Rightarrow> 'db scheduler option" where
  "shutdown s = (if \<not> cr_tx s then Some s
     else (case send_command Shutdown s of None \<Rightarrow> None | Some (Inr s') \<Rightarrow> Some s'
           | Some (Inl (e :: unit cron_error)) \<Rightarrow> Some s))"

subsection \<open>The loop\<close>

definition due_ids :: "((string \<rightharpoonup> cron_job) \<Rightarrow> cron_job list) \<Rightarrow> nat \<Rightarrow> 'db scheduler \<Rightarrow> string list" where
  "due_ids iter now s = map jb_id (filter (is_due now) (iter (cr_jobs s)))"

text \<open>\<open>trigger_job\<close> up to the call of the executor: a job that is gone is skipped.\<close>

definition trigger_begin :: "nat \<Rightarrow> string \<Rightarrow> string list \<Rightarrow> 'db scheduler \<Rightarrow> 'db scheduler" where
  "trigger_begin now i rest s =
     s\<lparr>cr_loop := (if cr_jobs s i = None then Ticking rest else Executing i now rest)\<rparr>"

text \<open>From the return of the executor to the release of the lock.\<close>

definition trigger_record ::
  "('db, 'tx, 'v, 'e, 'cx, 'dt) cron_env \<Rightarrow> string \<Rightarrow> nat \<Rightarrow> datetime \<Rightarrow> string + unit \<Rightarrow> string list \<Rightarrow>
   'db scheduler \<Rightarrow> 'db scheduler" where
  "trigger_record env i now stamp result rest s =
     (case cr_jobs s i of
        None \<Rightarrow> s\<lparr>cr_loop := Ticking rest\<rparr>
      | Some j0 \<Rightarrow> (let j = record_outcome env now stamp result j0 in
          s\<lparr>cr_jobs := (cr_jobs s)(i \<mapsto> j), cr_loop := Persisting j rest\<rparr>))"

definition trigger_persist ::
  "('db, 'tx, 'v, 'e, 'cx, 'dt) cron_env \<Rightarrow> cron_job \<Rightarrow> string list \<Rightarrow> 'db scheduler \<Rightarrow> 'db scheduler" where
  "trigger_persist env j rest s =
     (case persist_job env j (cr_store s) of
        Inl _ \<Rightarrow> s\<lparr>cr_loop := Ticking rest\<rparr>
      | Inr db \<Rightarrow> s\<lparr>cr_store := db, cr_loop := Ticking rest\<rparr>)"

inductive cron_step ::
  "('db, 'tx, 'v, 'e, 'cx, 'dt) cron_env \<Rightarrow> ((string \<rightharpoonup> cron_job) \<Rightarrow> cron_job list) \<Rightarrow>
   'db scheduler \<Rightarrow> 'db scheduler \<Rightarrow> bool"
  for env :: "('db, 'tx, 'v, 'e, 'cx, 'dt) cron_env" and iter :: "(string \<rightharpoonup> cron_job) \<Rightarrow> cron_job list" where
  started: "cron_step env iter s (start s)"
| add: "add_job_begin env now j0 (cr_store s) = Inr (j, db) \<Longrightarrow> cr_calls s c = None \<Longrightarrow>
     cron_step env iter s (s\<lparr>cr_store := db, cr_calls := (cr_calls s)(c \<mapsto> Inserting j)\<rparr>)"
| update: "update_job_begin env stamp now j0 (cr_store s) = Inr (j, db) \<Longrightarrow> cr_calls s c = None \<Longrightarrow>
     cron_step env iter s (s\<lparr>cr_store := db, cr_calls := (cr_calls s)(c \<mapsto> Inserting j)\<rparr>)"
| remove: "remove_job_begin env i (cr_store s) = Inr db \<Longrightarrow> cr_calls s c = None \<Longrightarrow>
     cron_step env iter s (s\<lparr>cr_store := db, cr_calls := (cr_calls s)(c \<mapsto> Removing i)\<rparr>)"
| ended: "cr_calls s c = Some p \<Longrightarrow> cron_step env iter s ((call_end p s)\<lparr>cr_calls := (cr_calls s)(c := None)\<rparr>)"
| trigger: "trigger_now i s = Some (Inr s' :: unit cron_error + 'db scheduler) \<Longrightarrow> cron_step env iter s s'"
| shut: "shutdown s = Some s' \<Longrightarrow> cron_step env iter s s'"
| tick: "cr_loop s = Waiting \<Longrightarrow> cron_step env iter s (s\<lparr>cr_loop := Ticking (due_ids iter now s)\<rparr>)"
| recv_trigger: "cr_loop s = Waiting \<Longrightarrow> cr_queue s = TriggerNow i # q \<Longrightarrow>
     cron_step env iter s (trigger_begin now i [] (s\<lparr>cr_queue := q\<rparr>))"
| recv_shutdown: "cr_loop s = Waiting \<Longrightarrow> cr_queue s = Shutdown # q \<Longrightarrow>
     cron_step env iter s (s\<lparr>cr_queue := [], cr_rx := False, cr_loop := Stopped\<rparr>)"
| next_due: "cr_loop s = Ticking (i # rest) \<Longrightarrow> cron_step env iter s (trigger_begin now i rest s)"
| tick_done: "cr_loop s = Ticking [] \<Longrightarrow> cron_step env iter s (s\<lparr>cr_loop := Waiting\<rparr>)"
| executed: "cr_loop s = Executing i now rest \<Longrightarrow>
     cron_step env iter s (trigger_record env i now stamp result rest s)"
| persisted: "cr_loop s = Persisting j rest \<Longrightarrow> cron_step env iter s (trigger_persist env j rest s)"

text \<open>A run starts from a scheduler opened on an empty table; it may be restarted on its store at any moment,
  in the middle of a call or an execution.\<close>

inductive cron_reachable ::
  "('db, 'tx, 'v, 'e, 'cx, 'dt) cron_env \<Rightarrow> ((string \<rightharpoonup> cron_job) \<Rightarrow> cron_job list) \<Rightarrow> ('db \<Rightarrow> 'v contents) \<Rightarrow>
   'db scheduler \<Rightarrow> bool"
  for env :: "('db, 'tx, 'v, 'e, 'cx, 'dt) cron_env" and iter :: "(string \<rightharpoonup> cron_job) \<Rightarrow> cron_job list"
    and dbv :: "'db \<Rightarrow> 'v contents" where
  cron_fresh: "redb_laws.view dbv db CRON_JOBS = Map.empty \<Longrightarrow> scheduler_open env db = Inr s \<Longrightarrow> cron_reachable env iter dbv s"
| cron_restart: "cron_reachable env iter dbv s \<Longrightarrow> scheduler_open env (cr_store s) = Inr s' \<Longrightarrow> cron_reachable env iter dbv s'"
| cron_next: "cron_reachable env iter dbv s \<Longrightarrow> cron_step env iter s s' \<Longrightarrow> cron_reachable env iter dbv s'"

subsection \<open>One-shot jobs\<close>

text \<open>A one-shot job that has run has no next run; every place a job can be in has only such jobs.\<close>

definition shot_ok :: "cron_job \<Rightarrow> bool" where
  "shot_ok j \<longleftrightarrow> (\<forall>at. jb_schedule j = ScheduleAt at \<longrightarrow> js_last_run_at_ms (jb_state j) \<noteq> None \<longrightarrow>
     js_next_run_at_ms (jb_state j) = None)"

definition keyed_shots :: "(string \<rightharpoonup> cron_job) \<Rightarrow> bool" where
  "keyed_shots m \<longleftrightarrow> (\<forall>k j. m k = Some j \<longrightarrow> jb_id j = k \<and> shot_ok j)"

lemma shot_ok_next: "shot_ok (set_next_run (compute_next_run env j now) j)"
  by (auto simp: shot_ok_def set_next_run_def compute_next_run_def)

lemma shot_ok_stamp: "shot_ok j \<Longrightarrow> shot_ok (j\<lparr>jb_enabled := b\<rparr>)"
  by (simp add: shot_ok_def)

lemma shot_ok_outcome: "shot_ok (record_outcome env now stamp result j)"
proof -
  have "shot_ok (set_next_run (compute_next_run env j' now) j')" for j' by (rule shot_ok_next)
  then show ?thesis
    by (auto simp: record_outcome_def Let_def intro: shot_ok_stamp split: cron_schedule.split sum.split)
qed

lemma id_outcome [simp]: "jb_id (record_outcome env now stamp result j) = jb_id j"
  by (auto simp: record_outcome_def Let_def set_next_run_def split: cron_schedule.split)

lemma id_next [simp]: "jb_id (set_next_run t j) = jb_id j"
  by (simp add: set_next_run_def)

lemma keyed_shots_upd: "keyed_shots m \<Longrightarrow> shot_ok j \<Longrightarrow> keyed_shots (m(jb_id j \<mapsto> j))"
  by (simp add: keyed_shots_def)

lemma keyed_shots_del: "keyed_shots m \<Longrightarrow> keyed_shots (m(k := None))"
  by (simp add: keyed_shots_def)

text \<open>Calls and executions one after the other.\<close>

inductive serial_step ::
  "('db, 'tx, 'v, 'e, 'cx, 'dt) cron_env \<Rightarrow> 'db scheduler \<Rightarrow> 'db scheduler \<Rightarrow> bool"
  for env :: "('db, 'tx, 'v, 'e, 'cx, 'dt) cron_env" where
  serial_add: "add_job_begin env now j0 (cr_store s) = Inr (j, db) \<Longrightarrow>
     serial_step env s (call_end (Inserting j) (s\<lparr>cr_store := db\<rparr>))"
| serial_update: "update_job_begin env stamp now j0 (cr_store s) = Inr (j, db) \<Longrightarrow>
     serial_step env s (call_end (Inserting j) (s\<lparr>cr_store := db\<rparr>))"
| serial_remove: "remove_job_begin env i (cr_store s) = Inr db \<Longrightarrow>
     serial_step env s (call_end (Removing i) (s\<lparr>cr_store := db\<rparr>))"
| serial_run: "cr_jobs s i = Some j0 \<Longrightarrow> j = record_outcome env now stamp result j0 \<Longrightarrow>
     persist_job env j (cr_store s) = Inr db \<Longrightarrow>
     serial_step env s (s\<lparr>cr_jobs := (cr_jobs s)(i \<mapsto> j), cr_store := db\<rparr>)"

locale cron_laws = row_table "ce_rb env" dbv txv "ce_enc env" "ce_dec env"
  for env :: "('db, 'tx, 'v, 'e, 'cx, 'dt) cron_env" and dbv :: "'db \<Rightarrow> 'v contents" and txv :: "'tx \<Rightarrow> 'v contents"
begin

definition cron_ok :: "'db scheduler \<Rightarrow> bool" where
  "cron_ok s \<longleftrightarrow> keyed_shots (cr_jobs s) \<and> keyed_shots (rows (cr_store s) CRON_JOBS) \<and>
     (\<forall>c j. cr_calls s c = Some (Inserting j) \<longrightarrow> shot_ok j) \<and>
     (\<forall>j rest. cr_loop s = Persisting j rest \<longrightarrow> shot_ok j)"

lemma persist_rows:
  assumes "persist_job env j db = Inr db'"
  shows "rows db' CRON_JOBS = (rows db CRON_JOBS)(jb_id j \<mapsto> j)"
proof -
  have "put_json (ce_rb env) (ce_enc env) CRON_JOBS (jb_id j) j db = Inr db'"
    using assms by (cases "put_json (ce_rb env) (ce_enc env) CRON_JOBS (jb_id j) j db") (simp_all add: persist_job_def)
  then show ?thesis by (rule put_rows(1))
qed

lemma begin_rows:
  "add_job_begin env now j0 db = Inr (j, db') \<Longrightarrow> shot_ok j \<and> rows db' CRON_JOBS = (rows db CRON_JOBS)(jb_id j \<mapsto> j)"
  "update_job_begin env stamp now j0 db = Inr (j, db') \<Longrightarrow> shot_ok j \<and> rows db' CRON_JOBS = (rows db CRON_JOBS)(jb_id j \<mapsto> j)"
proof -
  assume "add_job_begin env now j0 db = Inr (j, db')"
  then have "j = set_next_run (compute_next_run env j0 now) j0" "persist_job env j db = Inr db'"
    by (auto simp: add_job_begin_def Let_def sbind_Inr_iff)
  with persist_rows[of j] shot_ok_next[of env j0]
  show "shot_ok j \<and> rows db' CRON_JOBS = (rows db CRON_JOBS)(jb_id j \<mapsto> j)" by simp
next
  assume "update_job_begin env stamp now j0 db = Inr (j, db')"
  then obtain j1 where "j = set_next_run (compute_next_run env j1 now) j1" "persist_job env j db = Inr db'"
    by (auto simp: update_job_begin_def Let_def sbind_Inr_iff split: if_splits)
  with persist_rows[of j] shot_ok_next[of env j1]
  show "shot_ok j \<and> rows db' CRON_JOBS = (rows db CRON_JOBS)(jb_id j \<mapsto> j)" by simp
qed

lemma remove_rows:
  assumes "remove_job_begin env i db = Inr db'"
  shows "rows db' CRON_JOBS = (rows db CRON_JOBS)(i := None)"
proof -
  obtain b where "store_delete (ce_rb env) CRON_JOBS i db = Inr (db', b)"
    using assms by (cases "store_delete (ce_rb env) CRON_JOBS i db") (auto simp: remove_job_begin_def split: if_splits)
  then show ?thesis by (rule delete_rows(1))
qed

lemma step_ok: "cron_step env iter s s' \<Longrightarrow> cron_ok s \<Longrightarrow> cron_ok s'"
proof (induction rule: cron_step.induct)
  case (add now j0 s j db c)
  with begin_rows(1)[OF add(1)] show ?case by (auto simp: cron_ok_def keyed_shots_upd)
next
  case (update stamp now j0 s j db c)
  with begin_rows(2)[OF update(1)] show ?case by (auto simp: cron_ok_def keyed_shots_upd)
next
  case (remove i s db c)
  with remove_rows[OF remove(1)] show ?case by (auto simp: cron_ok_def keyed_shots_del)
next
  case (ended s c p)
  then show ?case by (cases p) (auto simp: cron_ok_def call_end_def keyed_shots_upd keyed_shots_del)
next
  case (executed s i now rest stamp result)
  show ?case
  proof (cases "cr_jobs s i")
    case None
    with executed show ?thesis by (auto simp: cron_ok_def trigger_record_def)
  next
    case (Some j0)
    let ?j = "record_outcome env now stamp result j0"
    have "jb_id ?j = i" using executed Some by (simp add: cron_ok_def keyed_shots_def)
    with executed Some keyed_shots_upd[of "cr_jobs s" ?j] show ?thesis
      by (auto simp: cron_ok_def trigger_record_def Let_def shot_ok_outcome)
  qed
next
  case (persisted s j rest)
  then have "shot_ok j" by (simp add: cron_ok_def)
  with persisted show ?case
    by (auto simp: cron_ok_def trigger_persist_def persist_rows keyed_shots_upd split: sum.split)
qed (auto simp: cron_ok_def start_def trigger_now_def send_command_def shutdown_def trigger_begin_def
      split: if_splits option.splits sum.splits)

lemma open_rows:
  assumes "scheduler_open env db = Inr s" "keyed_shots (rows db CRON_JOBS)"
  shows "s = \<lparr>cr_jobs = rows db CRON_JOBS, cr_store = db, cr_tx = False, cr_rx = False, cr_queue = [],
              cr_loop = Stopped, cr_calls = Map.empty\<rparr>"
proof -
  have "keyed jb_id (rows db CRON_JOBS)" using assms(2) by (simp add: keyed_shots_def keyed_def)
  with assms(1) load_rows_store[where ident = jb_id] show ?thesis by (auto simp: scheduler_open_def sbind_Inr_iff)
qed

lemma cron_runs_ok: "cron_reachable env iter dbv s \<Longrightarrow> cron_ok s"
proof (induction rule: cron_reachable.induct)
  case (cron_fresh db s)
  then have "keyed_shots (rows db CRON_JOBS)" by (simp add: rows_def keyed_shots_def)
  with open_rows[OF cron_fresh(2)] show ?case by (simp add: cron_ok_def)
next
  case (cron_restart s s')
  then show ?case using open_rows[OF cron_restart(2)] by (simp add: cron_ok_def)
next
  case (cron_next s s')
  then show ?case by (blast intro: step_ok)
qed

lemma serial_ok:
  assumes "serial_step env s s'" "cr_jobs s = rows (cr_store s) CRON_JOBS" "keyed_shots (cr_jobs s)"
  shows "cr_jobs s' = rows (cr_store s') CRON_JOBS \<and> keyed_shots (cr_jobs s')"
  using assms
proof (induction rule: serial_step.induct)
  case (serial_add now j0 s j db)
  with begin_rows(1)[OF serial_add(1)] show ?case by (simp add: call_end_def keyed_shots_upd del: fun_upd_apply)
next
  case (serial_update stamp now j0 s j db)
  with begin_rows(2)[OF serial_update(1)] show ?case by (simp add: call_end_def keyed_shots_upd del: fun_upd_apply)
next
  case (serial_remove i s db)
  with remove_rows[OF serial_remove(1)] show ?case by (simp add: call_end_def keyed_shots_del del: fun_upd_apply)
next
  case (serial_run s i j0 j now stamp result db)
  then have "jb_id j = i" by (simp add: keyed_shots_def)
  with serial_run persist_rows[OF serial_run(3)] keyed_shots_upd[of "cr_jobs s" j] show ?case
    by (simp add: shot_ok_outcome del: fun_upd_apply)
qed

lemma serial_steps_ok:
  assumes "(serial_step env)\<^sup>*\<^sup>* s s'" "cr_jobs s = rows (cr_store s) CRON_JOBS" "keyed_shots (cr_jobs s)"
  shows "cr_jobs s' = rows (cr_store s') CRON_JOBS \<and> keyed_shots (cr_jobs s')"
  using assms by (induction rule: rtranclp_induct) (auto dest: serial_ok)

end

subsection \<open>Properties\<close>

text \<open>A one-shot job that has run is never due again: no tick starts it, in any reachable state, whatever
  calls, executions and restarts came before.\<close>

theorem fired_one_shot_not_due:
  assumes "cron_laws env dbv txv" "cron_reachable env iter dbv s" "set (iter (cr_jobs s)) = ran (cr_jobs s)"
    and "cr_jobs s i = Some j" "jb_schedule j = ScheduleAt at" "js_last_run_at_ms (jb_state j) = Some t"
  shows "i \<notin> set (due_ids iter now s)"
proof
  have ok: "keyed_shots (cr_jobs s)"
    using cron_laws.cron_runs_ok[OF assms(1,2)] by (simp add: cron_laws.cron_ok_def[OF assms(1)])
  assume "i \<in> set (due_ids iter now s)"
  then obtain j' where j': "j' \<in> ran (cr_jobs s)" "is_due now j'" "jb_id j' = i"
    using assms(3) by (auto simp: due_ids_def)
  then have "j' = j" using ok assms(4) by (auto simp: ran_def keyed_shots_def)
  moreover have "shot_ok j" using ok assms(4) by (simp add: keyed_shots_def)
  ultimately show False using j'(2) assms(5,6) by (simp add: is_due_def shot_ok_def)
qed

text \<open>The next run of a job is never in the past; one-shot jobs keep their time unless it has passed,
  repeating jobs keep their distance from the last run unless that time has passed or does not fit
  64 bits.\<close>

theorem next_run_not_past:
  assumes "\<And>x d d'. ce_after env x d = Some d' \<Longrightarrow> ce_millis env d < ce_millis env d' \<and> ce_millis env d' < 2 ^ 63"
    and "\<And>i d. ce_from_millis env i = Some d \<Longrightarrow> ce_millis env d = i"
    and "now < 2 ^ 63" "compute_next_run env j now = Some t"
  shows "now \<le> t \<and>
    (case jb_schedule j of
       ScheduleAt at \<Rightarrow> t = max now at
     | ScheduleEvery interval \<Rightarrow>
         t = max now (wadd (case js_last_run_at_ms (jb_state j) of Some l \<Rightarrow> l | None \<Rightarrow> now) interval)
     | ScheduleCron _ \<Rightarrow> now < t)"
proof (cases "jb_schedule j")
  case (ScheduleCron expression)
  with assms(4) obtain x d d' where d: "ce_from_millis env (as_i64 now) = Some d" "ce_after env x d = Some d'"
    and t: "t = as_u64_cast (ce_millis env d')"
    by (auto simp: compute_next_run_def bind_eq_Some_conv)
  have "ce_millis env d = int now" using assms(2)[OF d(1)] assms(3) by (simp add: as_i64_def)
  with assms(1)[OF d(2)] have m: "int now < ce_millis env d'" "ce_millis env d' < 2 ^ 63" by simp_all
  then have "ce_millis env d' mod 2 ^ 64 = ce_millis env d'" by (intro mod_pos_pos_trivial) simp_all
  with m have "now < t" by (simp add: t as_u64_cast_def zless_nat_eq_int_zless)
  with ScheduleCron show ?thesis by simp
qed (use assms(4) in \<open>auto simp: compute_next_run_def Let_def split: if_splits\<close>)

text \<open>While calls and executions do not overlap, a restart finds the jobs as they are in memory.\<close>

theorem serial_restart:
  assumes "cron_laws env dbv txv" "redb_laws.view dbv db CRON_JOBS = Map.empty" "scheduler_open env db = Inr s0"
    and "(serial_step env)\<^sup>*\<^sup>* s0 s" "scheduler_open env (cr_store s) = Inr s'"
  shows "cr_jobs s' = cr_jobs s"
proof -
  have e: "row_table.rows dbv (ce_dec env) db CRON_JOBS = Map.empty"
    using row_table.rows_def[OF cron_laws.axioms(1)[OF assms(1)]] assms(2) by simp
  then have k: "keyed_shots (row_table.rows dbv (ce_dec env) db CRON_JOBS)" by (simp add: keyed_shots_def)
  from cron_laws.open_rows[OF assms(1,3) k]
  have "cr_jobs s0 = row_table.rows dbv (ce_dec env) (cr_store s0) CRON_JOBS" "keyed_shots (cr_jobs s0)"
    using k by simp_all
  note m = cron_laws.serial_steps_ok[OF assms(1,4) this]
  have k: "keyed_shots (row_table.rows dbv (ce_dec env) (cr_store s) CRON_JOBS)"
    by (rule subst[of _ _ keyed_shots, OF conjunct1[OF m] conjunct2[OF m]])
  show ?thesis unfolding cron_laws.open_rows[OF assms(1,5) k] by (simp add: conjunct1[OF m])
qed

text \<open>Shutting down is final: once the loop has stopped, starting the scheduler again does nothing and no
  job can be triggered.\<close>

theorem stopped_for_good:
  assumes "(cron_step env iter)\<^sup>*\<^sup>* s s'" "cr_tx s" "\<not> cr_rx s" "cr_loop s = Stopped"
  shows "cr_loop s' = Stopped \<and> start s' = s' \<and>
    trigger_now i s' = Some (Inl (if cr_jobs s' i = None then JobNotFound i else NotRunning))"
proof -
  have "cr_tx s' \<and> \<not> cr_rx s' \<and> cr_loop s' = Stopped"
    using assms
  proof (induction rule: rtranclp_induct)
    case (step y z)
    then have "cr_tx y \<and> \<not> cr_rx y \<and> cr_loop y = Stopped" by blast
    with step(2) show ?case
      by (cases rule: cron_step.cases)
        (auto simp: start_def trigger_now_def send_command_def shutdown_def call_end_def
          split: if_splits option.splits sum.splits pending_call.splits)
  qed simp
  then show ?thesis by (simp add: start_def trigger_now_def send_command_def)
qed

subsection \<open>Witnesses\<close>

definition sample_cron_env :: "(cron_job mem_db, cron_job mem_db, cron_job, unit, unit, int) cron_env" where
  "sample_cron_env = \<lparr>ce_rb = mem_redb, ce_enc = Inr, ce_dec = Inr, ce_parse = (\<lambda>_. Some ()),
     ce_after = (\<lambda>_ d. if d < 1000 then Some (d + 1) else None), ce_from_millis = Some, ce_millis = id\<rparr>"

interpretation sample_cron: cron_laws sample_cron_env mem_view mem_view
  by unfold_locales
    (auto simp: sample_cron_env_def mem.begin_read mem.begin_write mem.open_read mem.open_write
      mem.insert mem.remove mem.get mem.iter mem.range mem.commit)

definition sample_iter :: "(string \<rightharpoonup> cron_job) \<Rightarrow> cron_job list" where
  "sample_iter m = (case m ''j'' of Some j \<Rightarrow> [j] | None \<Rightarrow> [])"

definition sample_job :: cron_job where
  "sample_job = set_next_run (Some 5) (cron_job_new ''j'' 0 ''once'' (ScheduleAt 5) (SystemEvent ''e'' None))"

definition sample_fired :: cron_job where
  "sample_fired = record_outcome sample_cron_env 6 0 (Inr ()) sample_job"

definition sample_scheduler :: "cron_job mem_db \<Rightarrow> loop_phase \<Rightarrow> cron_job mem_db scheduler" where
  "sample_scheduler db l = \<lparr>cr_jobs = [''j'' \<mapsto> sample_job], cr_store = db, cr_tx = True, cr_rx = True, cr_queue = [],
     cr_loop = l, cr_calls = Map.empty\<rparr>"

definition sample_db :: "cron_job mem_db" where
  "sample_db = (\<lambda>_. Some [])(CRON_JOBS \<mapsto> [(''j'', sample_job)])"

lemma sample_job_simps [simp]:
  "jb_id sample_job = ''j''" "jb_schedule sample_job = ScheduleAt 5" "jb_enabled sample_job"
  "js_next_run_at_ms (jb_state sample_job) = Some 5" "js_last_run_at_ms (jb_state sample_job) = None"
  by (simp_all add: sample_job_def set_next_run_def cron_job_new_def default_job_state_def)

lemma sample_fired_simps [simp]:
  "jb_id sample_fired = ''j''" "jb_schedule sample_fired = ScheduleAt 5" "js_last_run_at_ms (jb_state sample_fired) = Some 6"
  by (simp_all add: sample_fired_def record_outcome_def Let_def set_next_run_def compute_next_run_def)

lemmas sample_cron_eval = sample_cron_env_def put_json_def store_put_def store_get_def store_delete_def store_list_def
  mem_redb_def mem_rows_def mem_sorted_def persist_job_def

lemma sample_add: "add_job_begin sample_cron_env 0 sample_job (\<lambda>_. Some []) = Inr (sample_job, sample_db)"
proof -
  have "set_next_run (compute_next_run sample_cron_env sample_job 0) sample_job = sample_job"
    by (simp add: compute_next_run_def) (simp add: sample_job_def set_next_run_def)
  then show ?thesis
    by (simp add: add_job_begin_def validate_schedule_def Let_def sample_cron_eval sample_db_def)
qed

abbreviation sample_run :: "cron_job mem_db scheduler \<Rightarrow> bool" where
  "sample_run \<equiv> cron_reachable sample_cron_env sample_iter mem_view"

lemma sample_executing: "sample_run (sample_scheduler sample_db (Executing ''j'' 6 []))"
proof -
  let ?init = "\<lparr>cr_jobs = Map.empty, cr_store = \<lambda>_. Some [], cr_tx = False, cr_rx = False, cr_queue = [], cr_loop = Stopped,
     cr_calls = Map.empty\<rparr> :: cron_job mem_db scheduler"
  have "scheduler_open sample_cron_env (\<lambda>_. Some []) = Inr ?init"
    by (simp add: scheduler_open_def sample_cron_eval)
  then have "sample_run ?init" by (rule cron_fresh[rotated]) (simp add: mem.view_def mem_view_def)
  from cron_next[OF this started] have "sample_run (?init\<lparr>cr_tx := True, cr_rx := True, cr_loop := Waiting\<rparr>)"
    by (simp add: start_def)
  from cron_next[OF this add[where c = 0 and ?j0.0 = sample_job and now = 0 and j = sample_job and db = sample_db]]
  have "sample_run (?init\<lparr>cr_store := sample_db, cr_tx := True, cr_rx := True, cr_loop := Waiting, cr_calls := [0 \<mapsto> Inserting sample_job]\<rparr>)"
    by (simp add: sample_add)
  from cron_next[OF this ended[where c = 0 and p = "Inserting sample_job"]]
  have "sample_run (sample_scheduler sample_db Waiting)"
    by (simp add: call_end_def sample_scheduler_def)
  from cron_next[OF this tick[where now = 6]]
  have "sample_run (sample_scheduler sample_db (Ticking [''j'']))"
    by (simp add: sample_scheduler_def due_ids_def sample_iter_def is_due_def)
  from cron_next[OF this next_due[where now = 6 and i = "''j''" and rest = "[]"]]
  show ?thesis by (simp add: sample_scheduler_def trigger_begin_def)
qed

theorem fired_one_shot_not_due_witness:
  "\<exists>s. sample_run s \<and> cr_jobs s ''j'' = Some sample_fired \<and> ''j'' \<notin> set (due_ids sample_iter 100 s)"
proof -
  let ?s = "(sample_scheduler sample_db (Persisting sample_fired []))\<lparr>cr_jobs := [''j'' \<mapsto> sample_fired]\<rparr>"
  from cron_next[OF sample_executing executed[where i = "''j''" and now = 6 and rest = "[]" and stamp = 0 and result = "Inr ()"]]
  have r: "sample_run ?s"
    by (simp add: sample_scheduler_def trigger_record_def Let_def flip: sample_fired_def)
  have "set (sample_iter (cr_jobs ?s)) = ran (cr_jobs ?s)" by (simp add: sample_iter_def)
  then have "''j'' \<notin> set (due_ids sample_iter 100 ?s)"
    by (rule fired_one_shot_not_due[OF sample_cron.cron_laws_axioms r, where j = sample_fired and at = 5 and t = 6]) simp_all
  moreover have "cr_jobs ?s ''j'' = Some sample_fired" by simp
  ultimately show ?thesis using r by blast
qed

theorem next_run_not_past_witness:
  "compute_next_run sample_cron_env (sample_job\<lparr>jb_schedule := ScheduleCron ''x''\<rparr>) 7 = Some 8 \<and> (7::nat) \<le> 8"
proof -
  let ?j = "sample_job\<lparr>jb_schedule := ScheduleCron ''x''\<rparr>"
  have c: "compute_next_run sample_cron_env ?j 7 = Some 8"
    by (simp add: compute_next_run_def sample_cron_env_def as_i64_def as_u64_cast_def)
  have "7 \<le> (8::nat)"
    by (rule next_run_not_past[where env = sample_cron_env and j = ?j, THEN conjunct1])
      (use c in \<open>auto simp: sample_cron_env_def split: if_splits\<close>)
  with c show ?thesis by simp
qed

theorem serial_restart_witness:
  "\<exists>s s'. (serial_step sample_cron_env)\<^sup>*\<^sup>* \<lparr>cr_jobs = Map.empty, cr_store = \<lambda>_. Some [], cr_tx = False, cr_rx = False,
       cr_queue = [], cr_loop = Stopped, cr_calls = Map.empty\<rparr> s \<and> cr_jobs s ''j'' = Some sample_job \<and>
     scheduler_open sample_cron_env (cr_store s) = Inr s' \<and> cr_jobs s' = cr_jobs s"
proof -
  let ?init = "\<lparr>cr_jobs = Map.empty, cr_store = \<lambda>_. Some [], cr_tx = False, cr_rx = False,
       cr_queue = [], cr_loop = Stopped, cr_calls = Map.empty\<rparr> :: cron_job mem_db scheduler"
  let ?one = "call_end (Inserting sample_job) (?init\<lparr>cr_store := sample_db\<rparr>)"
  have o: "scheduler_open sample_cron_env (\<lambda>_. Some []) = Inr ?init" by (simp add: scheduler_open_def sample_cron_eval)
  have "serial_step sample_cron_env ?init ?one" by (rule serial_add[where now = 0 and ?j0.0 = sample_job]) (simp add: sample_add)
  then have r: "(serial_step sample_cron_env)\<^sup>*\<^sup>* ?init ?one" by simp
  have "\<exists>s'. scheduler_open sample_cron_env sample_db = Inr (s' :: cron_job mem_db scheduler)"
    by (simp add: scheduler_open_def sample_cron_eval sample_db_def)
  then obtain s' where s': "scheduler_open sample_cron_env (cr_store ?one) = Inr s'"
    by (auto simp: call_end_def)
  have "cr_jobs s' = cr_jobs ?one"
    by (rule serial_restart[OF sample_cron.cron_laws_axioms _ o r s']) (simp add: mem.view_def mem_view_def)
  with r s' show ?thesis by (intro exI[of _ ?one] exI[of _ s'] conjI) (simp_all add: call_end_def)
qed

theorem stopped_for_good_witness:
  "start ((sample_scheduler sample_db Stopped)\<lparr>cr_rx := False\<rparr>) = (sample_scheduler sample_db Stopped)\<lparr>cr_rx := False\<rparr> \<and>
   (trigger_now ''j'' ((sample_scheduler sample_db Stopped)\<lparr>cr_rx := False\<rparr>) :: (unit cron_error + _) option) = Some (Inl NotRunning)"
  using stopped_for_good[OF rtranclp.rtrancl_refl, of "(sample_scheduler sample_db Stopped)\<lparr>cr_rx := False\<rparr>" "''j''"]
  by (simp add: sample_scheduler_def)

text \<open>A removal that overlaps with an execution is undone by the next restart: the execution writes the row
  back after the removal deleted it.\<close>

theorem removed_job_returns:
  "\<exists>s db s2. sample_run s \<and> remove_job_begin sample_cron_env ''j'' (cr_store s) = Inr db \<and>
     (cron_step sample_cron_env sample_iter)\<^sup>*\<^sup>* (s\<lparr>cr_store := db, cr_calls := [0 \<mapsto> Removing ''j'']\<rparr>) s2 \<and>
     cr_calls s2 = Map.empty \<and> cr_jobs s2 ''j'' = None \<and> mem.view (cr_store s2) CRON_JOBS ''j'' = Some sample_fired"
proof -
  let ?s = "sample_scheduler sample_db (Executing ''j'' 6 [])"
  let ?db = "(\<lambda>_. Some [])(CRON_JOBS \<mapsto> [] :: (string \<times> cron_job) list)"
  let ?fired = "sample_db(CRON_JOBS \<mapsto> [(''j'', sample_fired)])"
  define step where "step = cron_step sample_cron_env sample_iter"
  let ?a = "?s\<lparr>cr_store := ?db, cr_calls := [0 \<mapsto> Removing ''j'']\<rparr>"
  let ?b = "?a\<lparr>cr_jobs := [''j'' \<mapsto> sample_fired], cr_loop := Persisting sample_fired []\<rparr>"
  let ?c = "?b\<lparr>cr_store := ?fired, cr_loop := Ticking []\<rparr>"
  let ?d = "?c\<lparr>cr_jobs := Map.empty, cr_calls := Map.empty\<rparr>"
  have r: "remove_job_begin sample_cron_env ''j'' (cr_store ?s) = Inr ?db"
    by (simp add: remove_job_begin_def sample_cron_eval sample_scheduler_def sample_db_def)
  have "step ?a (trigger_record sample_cron_env ''j'' 6 0 (Inr ()) [] ?a)" unfolding step_def
    by (rule executed) (simp add: sample_scheduler_def)
  then have "step ?a ?b" by (simp add: trigger_record_def sample_scheduler_def Let_def flip: sample_fired_def)
  moreover have "step ?b (trigger_persist sample_cron_env sample_fired [] ?b)" unfolding step_def
    by (rule persisted) simp
  then have "step ?b ?c" by (simp add: trigger_persist_def sample_cron_eval sample_scheduler_def sample_db_def)
  moreover have "step ?c ((call_end (Removing ''j'') ?c)\<lparr>cr_calls := (cr_calls ?c)(0 := None)\<rparr>)" unfolding step_def
    by (rule ended) (simp add: sample_scheduler_def)
  then have "step ?c ?d" by (simp add: call_end_def sample_scheduler_def)
  ultimately have "step\<^sup>*\<^sup>* ?a ?d" by (meson converse_rtranclp_into_rtranclp rtranclp.rtrancl_refl)
  with r sample_executing show ?thesis
    by (intro exI[of _ ?s] exI[of _ ?db] exI[of _ ?d]) (simp add: step_def mem.view_def mem_view_def)
qed

end
