(* ===== verification/LlmCalls.thy ===== *)
theory LlmCalls
  imports Sessions Tools
begin

text \<open>
  Calls to the language model (\<open>rockbot-llm/src/lib.rs\<close>, \<open>rockbot-agent/src/agent.rs\<close>): requests, responses
  and streams; the retry loops and the assembly of a streamed response. A provider is a set of
  functions on the world \<open>'w\<close>; a call under a deadline may be dropped before it ends. Delays between
  attempts, floating-point sampling parameters and log lines are left out.
\<close>

subsection \<open>Requests and responses\<close>

datatype llm_error = ModelNotFound string | ApiError string | AuthenticationFailed | RateLimitExceeded
  | RequestError bool "nat option" string | JsonError string

text \<open>\<open>RequestError\<close> has whether the error is a timeout or a failed connection, the HTTP status if it is a
  status error, and the text of the error.\<close>

record tool_definition =
  td_name :: string
  td_description :: string
  td_parameters :: json

record chat_request =
  rq_model :: string
  rq_messages :: "llm_message list"
  rq_tools :: "tool_definition list option"
  rq_max_tokens :: "nat option"
  rq_stream :: bool

record token_usage =
  us_prompt :: nat
  us_completion :: nat
  us_total :: nat

record choice =
  ch_message :: llm_message
  ch_finish_reason :: string

record chat_response =
  rs_id :: string
  rs_choices :: "choice list"
  rs_usage :: token_usage

record stream_choice =
  so_content :: "string option"
  so_tool_calls :: "tool_call list option"
  so_finish_reason :: "string option"

record stream_chunk =
  sc_id :: string
  sc_choices :: "stream_choice list"

text \<open>What the reader of a stream sees, one item after the other: a chunk, an error, or fifteen seconds
  without an item. A stream with no item left has ended.\<close>

datatype stream_item = Chunk stream_chunk | StreamFailed llm_error | Idle

record 'w llm_provider =
  lp_chat :: "chat_request \<Rightarrow> 'w \<Rightarrow> (llm_error + chat_response) \<times> 'w"
  lp_chat_cut :: "nat \<Rightarrow> chat_request \<Rightarrow> 'w \<Rightarrow> 'w option"
  lp_stream :: "chat_request \<Rightarrow> 'w \<Rightarrow> (llm_error + stream_item list) \<times> 'w"
  lp_stream_cut :: "nat \<Rightarrow> chat_request \<Rightarrow> 'w \<Rightarrow> 'w option"

text \<open>\<open>tokio::time::timeout\<close> around a call: no result when the call was dropped after \<open>secs\<close> seconds.\<close>

definition timed ::
  "(nat \<Rightarrow> chat_request \<Rightarrow> 'w \<Rightarrow> 'w option) \<Rightarrow> (chat_request \<Rightarrow> 'w \<Rightarrow> 'r \<times> 'w) \<Rightarrow> nat \<Rightarrow> chat_request \<Rightarrow> 'w \<Rightarrow> 'r option \<times> 'w" where
  "timed dropped run secs req w = (case dropped secs req w of
     Some w \<Rightarrow> (None, w) | None \<Rightarrow> (case run req w of (r, w) \<Rightarrow> (Some r, w)))"

subsection \<open>State of an agent\<close>

record agent_stats =
  as_messages_processed :: nat
  as_tool_executions :: nat
  as_total_tokens :: nat
  as_avg_response_time_ms :: nat
  as_error_count :: nat
  as_retry_attempts :: nat
  as_rate_limit_hits :: nat

text \<open>Progress events; durations and the locality of a tool are left out.\<close>

datatype progress_event = ToolStart string | ToolDone string "string option" bool | TextDelta string
  | ToolOutput string string bool | UsageEvent token_usage | HandoffEvent string string string

record ('db, 'w) agent_run =
  ag_stats :: agent_stats
  ag_events :: "progress_event list"
  ag_sessions :: "'db session_manager"
  ag_world :: 'w

datatype 'e agent_error = ModelError string | ExecutionError string | SessionFailed "'e session_error" | Panicked

type_synonym ('db, 'w, 'e, 'a) ax = "(('db, 'w) agent_run, 'e agent_error, 'a) sx"

definition bump_stats :: "(agent_stats \<Rightarrow> agent_stats) \<Rightarrow> ('db, 'w) agent_run \<Rightarrow> ('db, 'w) agent_run" where
  "bump_stats f s = s\<lparr>ag_stats := f (ag_stats s)\<rparr>"

text \<open>Events go to the progress channel when there is one.\<close>

definition emit :: "bool \<Rightarrow> progress_event list \<Rightarrow> ('db, 'w) agent_run \<Rightarrow> ('db, 'w) agent_run" where
  "emit progress es s = (if progress then s\<lparr>ag_events := ag_events s @ es\<rparr> else s)"

subsection \<open>Errors and retries\<close>

datatype error_category = Retryable | RateLimit "nat option" | AuthCategory | ClientCategory | ServerCategory | NetworkCategory

definition MAX_RETRIES :: nat where "MAX_RETRIES = 3"

definition show_llm_error :: "llm_error \<Rightarrow> string" where
  "show_llm_error e = (case e of ModelNotFound m \<Rightarrow> ''Model not found: '' @ m | ApiError m \<Rightarrow> ''API error: '' @ m
     | AuthenticationFailed \<Rightarrow> ''Authentication failed - run '' @ [CHR 0x27] @ ''claude'' @ [CHR 0x27] @ '' to authenticate''
     | RateLimitExceeded \<Rightarrow> ''Rate limit exceeded'' | RequestError _ _ t \<Rightarrow> ''Request error: '' @ t
     | JsonError t \<Rightarrow> ''JSON error: '' @ t)"

text \<open>\<open>str::contains\<close>.\<close>

definition contains :: "string \<Rightarrow> string \<Rightarrow> bool" where
  "contains s pat = (find_sub pat s \<noteq> None)"

definition classify_status :: "nat \<Rightarrow> error_category" where
  "classify_status n = (if n = 429 then RateLimit None else if n = 401 \<or> n = 403 then AuthCategory
     else if 400 \<le> n \<and> n \<le> 499 then ClientCategory else if 500 \<le> n \<and> n \<le> 599 then ServerCategory else NetworkCategory)"

definition classify_llm_error :: "(string \<Rightarrow> string) \<Rightarrow> llm_error \<Rightarrow> error_category" where
  "classify_llm_error lower e = (case e of
     RateLimitExceeded \<Rightarrow> RateLimit None
   | AuthenticationFailed \<Rightarrow> AuthCategory
   | ModelNotFound _ \<Rightarrow> ClientCategory
   | RequestError connection status _ \<Rightarrow>
       if connection then NetworkCategory
       else (case status of Some n \<Rightarrow> classify_status n | None \<Rightarrow> NetworkCategory)
   | ApiError message \<Rightarrow>
       let m = lower message in
       if contains m ''rate limit'' \<or> contains m ''too many requests'' then RateLimit None
       else if contains m ''auth'' \<or> contains m ''unauthorized'' \<or> contains m ''forbidden'' then AuthCategory
       else if contains m ''invalid'' \<or> contains m ''bad request'' then ClientCategory
       else ServerCategory
   | JsonError _ \<Rightarrow> ClientCategory)"

definition should_retry_error :: "error_category \<Rightarrow> bool" where
  "should_retry_error c = (case c of AuthCategory \<Rightarrow> False | ClientCategory \<Rightarrow> False | _ \<Rightarrow> True)"

text \<open>What the agent gives to its calls: the provider, \<open>to_lowercase\<close>, the token counter, the decimal
  rendering of a number, a fresh response identifier, and the timeout of its configuration.\<close>

record 'w llm_env =
  le_provider :: "'w llm_provider"
  le_lower :: "string \<Rightarrow> string"
  le_tokens :: "string \<Rightarrow> nat"
  le_show :: "nat \<Rightarrow> string"
  le_uuid :: string
  le_timeout_secs :: nat

definition count_error :: "error_category option \<Rightarrow> agent_stats \<Rightarrow> agent_stats" where
  "count_error c st =
     (let st = st\<lparr>as_error_count := wadd (as_error_count st) 1\<rparr> in
      case c of Some (RateLimit _) \<Rightarrow> st\<lparr>as_rate_limit_hits := wadd (as_rate_limit_hits st) 1\<rparr> | _ \<Rightarrow> st)"

definition retries_exhausted :: "'w llm_env \<Rightarrow> string \<Rightarrow> 'e agent_error" where
  "retries_exhausted env message =
     ModelError (''LLM API call failed after '' @ le_show env MAX_RETRIES @ '' retries: '' @
       (if message = [] then ''Unknown error during LLM API call'' else message))"

text \<open>One attempt of \<open>call_llm_with_retry\<close> after the other; \<open>left\<close> retries remain after this one.\<close>

fun chat_attempts :: "'w llm_env \<Rightarrow> chat_request \<Rightarrow> nat \<Rightarrow> nat \<Rightarrow> ('db, 'w, 'e, chat_response) ax" where
  "chat_attempts env req attempt left s =
     (case timed (lp_chat_cut (le_provider env)) (lp_chat (le_provider env)) (le_timeout_secs env) req (ag_world s) of
        (None, w) \<Rightarrow>
          let s = bump_stats (count_error None) (s\<lparr>ag_world := w\<rparr>);
              message = ''LLM API call timed out after '' @ le_show env (le_timeout_secs env) @ ''s''
          in (case left of 0 \<Rightarrow> (Inl (retries_exhausted env message), s)
              | Suc l \<Rightarrow> chat_attempts env req (Suc attempt) l s)
      | (Some (Inr response), w) \<Rightarrow>
          (Inr response, bump_stats (\<lambda>st. if 0 < attempt then st\<lparr>as_retry_attempts := wadd (as_retry_attempts st) attempt\<rparr> else st)
             (s\<lparr>ag_world := w\<rparr>))
      | (Some (Inl e), w) \<Rightarrow>
          let category = classify_llm_error (le_lower env) e;
              s = bump_stats (count_error (Some category)) (s\<lparr>ag_world := w\<rparr>)
          in (case left of 0 \<Rightarrow> (Inl (retries_exhausted env (show_llm_error e)), s)
              | Suc l \<Rightarrow> if should_retry_error category then chat_attempts env req (Suc attempt) l s
                         else (Inl (retries_exhausted env (show_llm_error e)), s)))"

declare chat_attempts.simps [simp del]

definition call_llm_with_retry :: "'w llm_env \<Rightarrow> chat_request \<Rightarrow> ('db, 'w, 'e, chat_response) ax" where
  "call_llm_with_retry env req = chat_attempts env req 0 MAX_RETRIES"

subsection \<open>Streamed responses\<close>

definition append_delta :: "tool_call \<Rightarrow> tool_call \<Rightarrow> tool_call" where
  "append_delta d tc = tc\<lparr>tcl_arguments := tcl_arguments tc @ tcl_arguments d,
     tcl_name := if tcl_name tc = [] \<and> tcl_name d \<noteq> [] then tcl_name d else tcl_name tc,
     tcl_id := if tcl_id tc = [] \<and> tcl_id d \<noteq> [] then tcl_id d else tcl_id tc\<rparr>"

definition merge_delta :: "tool_call list \<Rightarrow> tool_call \<Rightarrow> tool_call list" where
  "merge_delta acc d =
     (if tcl_id d = [] then (if acc = [] then [d] else butlast acc @ [append_delta d (last acc)])
      else (case position (\<lambda>tc. tcl_id tc = tcl_id d) acc of
              Some i \<Rightarrow> acc[i := append_delta d (acc ! i)] | None \<Rightarrow> acc @ [d]))"

definition merge_streaming_tool_calls :: "tool_call list \<Rightarrow> tool_call list \<Rightarrow> tool_call list" where
  "merge_streaming_tool_calls acc deltas = foldl merge_delta acc deltas"

record accumulated =
  ac_text :: string
  ac_calls :: "tool_call list"
  ac_id :: string
  ac_finish :: string

definition nothing_yet :: accumulated where
  "nothing_yet = \<lparr>ac_text = [], ac_calls = [], ac_id = [], ac_finish = ''stop''\<rparr>"

definition absorb_choice :: "stream_choice \<Rightarrow> accumulated \<Rightarrow> accumulated" where
  "absorb_choice c a =
     (let a = (case so_content c of Some t \<Rightarrow> a\<lparr>ac_text := ac_text a @ t\<rparr> | None \<Rightarrow> a);
          a = (case so_tool_calls c of Some ds \<Rightarrow> a\<lparr>ac_calls := merge_streaming_tool_calls (ac_calls a) ds\<rparr> | None \<Rightarrow> a)
      in case so_finish_reason c of Some r \<Rightarrow> a\<lparr>ac_finish := r\<rparr> | None \<Rightarrow> a)"

definition absorb_chunk :: "stream_chunk \<Rightarrow> accumulated \<Rightarrow> accumulated" where
  "absorb_chunk ck a =
     fold absorb_choice (sc_choices ck) (if ac_id a = [] then a\<lparr>ac_id := sc_id ck\<rparr> else a)"

definition chunk_events :: "stream_chunk \<Rightarrow> progress_event list" where
  "chunk_events ck = concat (map (\<lambda>c. case so_content c of Some t \<Rightarrow> [TextDelta t] | None \<Rightarrow> []) (sc_choices ck))"

text \<open>The reading loop: what was accumulated, the events sent and the error that ended it, if any. An idle
  stream ends the loop like a finished one.\<close>

fun read_stream ::
  "stream_item list \<Rightarrow> accumulated \<Rightarrow> progress_event list \<Rightarrow> accumulated \<times> progress_event list \<times> llm_error option" where
  "read_stream [] a es = (a, es, None)"
| "read_stream (Idle # items) a es = (a, es, None)"
| "read_stream (StreamFailed e # items) a es = (a, es, Some e)"
| "read_stream (Chunk ck # items) a es = read_stream items (absorb_chunk ck a) (es @ chunk_events ck)"

definition received_data :: "accumulated \<Rightarrow> bool" where
  "received_data a \<longleftrightarrow> ac_id a \<noteq> [] \<or> ac_text a \<noteq> [] \<or> ac_calls a \<noteq> []"

definition assemble :: "'w llm_env \<Rightarrow> chat_request \<Rightarrow> accumulated \<Rightarrow> chat_response" where
  "assemble env req a =
     (let completion = le_tokens env (ac_text a);
          prompt = foldl wadd 0 (map (\<lambda>m. le_tokens env (lm_content m)) (rq_messages req)) in
      \<lparr>rs_id = (if ac_id a = [] then ''stream-'' @ le_uuid env else ac_id a),
       rs_choices = [\<lparr>ch_message = \<lparr>lm_role = RoleAssistant, lm_content = ac_text a, lm_images = [],
          lm_tool_calls = (if ac_calls a = [] then None else Some (ac_calls a)), lm_tool_call_id = None\<rparr>,
          ch_finish_reason = ac_finish a\<rparr>],
       rs_usage = \<lparr>us_prompt = prompt, us_completion = completion, us_total = wadd prompt completion\<rparr>\<rparr>)"

text \<open>The streaming attempts: a response, or none when they are used up.\<close>

fun stream_attempts ::
  "'w llm_env \<Rightarrow> chat_request \<Rightarrow> nat \<Rightarrow> ('db, 'w) agent_run \<Rightarrow> chat_response option \<times> ('db, 'w) agent_run" where
  "stream_attempts env req left s =
     (case timed (lp_stream_cut (le_provider env)) (lp_stream (le_provider env)) (le_timeout_secs env) req (ag_world s) of
        (None, w) \<Rightarrow> (case left of 0 \<Rightarrow> (None, s\<lparr>ag_world := w\<rparr>) | Suc l \<Rightarrow> stream_attempts env req l (s\<lparr>ag_world := w\<rparr>))
      | (Some (Inl e), w) \<Rightarrow>
          (case left of 0 \<Rightarrow> (None, s\<lparr>ag_world := w\<rparr>)
           | Suc l \<Rightarrow> if should_retry_error (classify_llm_error (le_lower env) e)
                      then stream_attempts env req l (s\<lparr>ag_world := w\<rparr>) else (None, s\<lparr>ag_world := w\<rparr>))
      | (Some (Inr items), w) \<Rightarrow>
          (case read_stream items nothing_yet [] of (a, es, failed) \<Rightarrow>
             let s = emit True es (s\<lparr>ag_world := w\<rparr>) in
             if failed = None \<and> received_data a then (Some (assemble env req a), s)
             else (case left of 0 \<Rightarrow> (None, s) | Suc l \<Rightarrow> stream_attempts env req l s)))"

declare stream_attempts.simps [simp del]

definition first_content :: "chat_response \<Rightarrow> string" where
  "first_content r = (case rs_choices r of [] \<Rightarrow> [] | c # _ \<Rightarrow> lm_content (ch_message c))"

definition call_llm_streaming_with_retry :: "'w llm_env \<Rightarrow> bool \<Rightarrow> chat_request \<Rightarrow> ('db, 'w, 'e, chat_response) ax" where
  "call_llm_streaming_with_retry env progress req s =
     (if \<not> progress then call_llm_with_retry env req s
      else (case stream_attempts env req MAX_RETRIES s of
          (Some response, s) \<Rightarrow> (Inr response, s)
        | (None, s) \<Rightarrow>
            sx_bind (call_llm_with_retry env req) (\<lambda>response.
            sx_bind (sx_update (emit True (if first_content response = [] then [] else [TextDelta (first_content response)])))
              (\<lambda>_. sx_return response)) s))"

subsection \<open>Lemmas on retries\<close>

text \<open>The same calls on a world that counts the calls of the provider, and forgetting the count.\<close>

definition counting :: "'w llm_env \<Rightarrow> ('w \<times> nat) llm_env" where
  "counting env = (let p = le_provider env in
     \<lparr>le_provider = \<lparr>lp_chat = (\<lambda>req (w, n). case lp_chat p req w of (r, w) \<Rightarrow> (r, (w, Suc n))),
        lp_chat_cut = (\<lambda>secs req (w, n). map_option (\<lambda>w. (w, Suc n)) (lp_chat_cut p secs req w)),
        lp_stream = (\<lambda>req (w, n). case lp_stream p req w of (r, w) \<Rightarrow> (r, (w, Suc n))),
        lp_stream_cut = (\<lambda>secs req (w, n). map_option (\<lambda>w. (w, Suc n)) (lp_stream_cut p secs req w))\<rparr>,
      le_lower = le_lower env, le_tokens = le_tokens env, le_show = le_show env, le_uuid = le_uuid env,
      le_timeout_secs = le_timeout_secs env\<rparr>)"

definition uncount :: "('db, 'w \<times> nat) agent_run \<Rightarrow> ('db, 'w) agent_run" where
  "uncount s = \<lparr>ag_stats = ag_stats s, ag_events = ag_events s, ag_sessions = ag_sessions s, ag_world = fst (ag_world s)\<rparr>"

abbreviation calls_made :: "('db, 'w \<times> nat) agent_run \<Rightarrow> nat" where
  "calls_made s \<equiv> snd (ag_world s)"

lemma counting_simps [simp]:
  "le_lower (counting env) = le_lower env" "le_tokens (counting env) = le_tokens env" "le_show (counting env) = le_show env"
  "le_uuid (counting env) = le_uuid env" "le_timeout_secs (counting env) = le_timeout_secs env"
  by (simp_all add: counting_def Let_def)

lemma counting_provider:
  "lp_chat (le_provider (counting env)) req (w, n) = (case lp_chat (le_provider env) req w of (r, w) \<Rightarrow> (r, (w, Suc n)))"
  "lp_chat_cut (le_provider (counting env)) secs req (w, n) = map_option (\<lambda>w. (w, Suc n)) (lp_chat_cut (le_provider env) secs req w)"
  "lp_stream (le_provider (counting env)) req (w, n) = (case lp_stream (le_provider env) req w of (r, w) \<Rightarrow> (r, (w, Suc n)))"
  "lp_stream_cut (le_provider (counting env)) secs req (w, n) = map_option (\<lambda>w. (w, Suc n)) (lp_stream_cut (le_provider env) secs req w)"
  by (simp_all add: counting_def Let_def)

lemma counting_timed:
  "timed (lp_chat_cut (le_provider (counting env))) (lp_chat (le_provider (counting env))) secs req wn =
     (case timed (lp_chat_cut (le_provider env)) (lp_chat (le_provider env)) secs req (fst wn) of
        (r, w) \<Rightarrow> (r, (w, Suc (snd wn))))"
  by (cases wn; cases "lp_chat_cut (le_provider env) secs req (fst wn)"; cases "lp_chat (le_provider env) req (fst wn)")
    (simp_all add: timed_def counting_provider)

lemma counting_timed_stream:
  "timed (lp_stream_cut (le_provider (counting env))) (lp_stream (le_provider (counting env))) secs req wn =
     (case timed (lp_stream_cut (le_provider env)) (lp_stream (le_provider env)) secs req (fst wn) of
        (r, w) \<Rightarrow> (r, (w, Suc (snd wn))))"
  by (cases wn; cases "lp_stream_cut (le_provider env) secs req (fst wn)"; cases "lp_stream (le_provider env) req (fst wn)")
    (simp_all add: timed_def counting_provider)

lemma uncount_simps [simp]:
  "uncount (bump_stats f s) = bump_stats f (uncount s)" "uncount (emit p es s) = emit p es (uncount s)"
  "uncount (s\<lparr>ag_world := wn\<rparr>) = (uncount s)\<lparr>ag_world := fst wn\<rparr>" "ag_world (uncount s) = fst (ag_world s)"
  by (simp_all add: uncount_def bump_stats_def emit_def)

lemma world_simps [simp]:
  "ag_world (bump_stats f s) = ag_world s" "ag_world (emit p es s) = ag_world s"
  by (simp_all add: bump_stats_def emit_def)

lemma retries_exhausted_counting [simp]: "retries_exhausted (counting env) = retries_exhausted env"
  by (simp add: retries_exhausted_def fun_eq_iff)

lemma assemble_counting [simp]: "assemble (counting env) = assemble env"
  by (simp add: assemble_def fun_eq_iff)

lemma chat_attempts_counted:
  "chat_attempts (counting env) req attempt left s = (r, s') \<Longrightarrow>
     chat_attempts env req attempt left (uncount s) = (r, uncount s') \<and>
     calls_made s < calls_made s' \<and> calls_made s' \<le> calls_made s + Suc left"
proof (induction left arbitrary: attempt s)
  case 0
  then show ?case
    by (auto simp: chat_attempts.simps[of _ _ _ 0] counting_timed Let_def split: prod.splits option.splits sum.splits)
next
  case (Suc left)
  obtain o' w where t: "timed (lp_chat_cut (le_provider env)) (lp_chat (le_provider env)) (le_timeout_secs env) req (fst (ag_world s)) = (o', w)"
    by fastforce
  note step = chat_attempts.simps[of _ _ _ "Suc left"]
  show ?case
  proof (cases o')
    case None
    with Suc.prems t show ?thesis by (auto simp: step counting_timed Let_def dest!: Suc.IH)
  next
    case (Some x)
    with Suc.prems t show ?thesis
      by (cases x) (auto simp: step counting_timed Let_def dest!: Suc.IH split: if_splits)
  qed
qed

lemma stream_attempts_counted:
  "stream_attempts (counting env) req left s = (r, s') \<Longrightarrow>
     stream_attempts env req left (uncount s) = (r, uncount s') \<and>
     calls_made s < calls_made s' \<and> calls_made s' \<le> calls_made s + Suc left"
proof (induction left arbitrary: s)
  case 0
  then show ?case
    by (auto simp: stream_attempts.simps[of _ _ 0] counting_timed_stream Let_def split: prod.splits option.splits sum.splits if_splits)
next
  case (Suc left)
  obtain o' w where t: "timed (lp_stream_cut (le_provider env)) (lp_stream (le_provider env)) (le_timeout_secs env) req (fst (ag_world s)) = (o', w)"
    by fastforce
  note step = stream_attempts.simps[of _ _ "Suc left"]
  show ?case
  proof (cases o')
    case None
    with Suc.prems t show ?thesis by (auto simp: step counting_timed_stream dest!: Suc.IH)
  next
    case (Some x)
    with Suc.prems t show ?thesis
      by (cases x) (auto simp: step counting_timed_stream Let_def dest!: Suc.IH split: if_splits prod.splits)
  qed
qed

subsection \<open>Lemmas on streams\<close>

lemma read_chunks:
  "read_stream (map Chunk cks) a es = (fold absorb_chunk cks a, es @ concat (map chunk_events cks), None)"
  by (induction cks arbitrary: a es) auto




lemma merge_simps [simp]:
  "merge_streaming_tool_calls acc [] = acc"
  "merge_streaming_tool_calls acc (d # ds) = merge_streaming_tool_calls (merge_delta acc d) ds"
  by (simp_all add: merge_streaming_tool_calls_def)



text \<open>How a provider streams a call: first its identifier, type and name, then its arguments in fragments,
  each with the identifier repeated or left empty.\<close>

definition fragment :: "string \<Rightarrow> string \<Rightarrow> bool \<times> string \<Rightarrow> tool_call" where
  "fragment i ty = (\<lambda>(own, f). \<lparr>tcl_id = if own then i else [], tcl_type = ty, tcl_name = [], tcl_arguments = f\<rparr>)"






subsection \<open>Properties\<close>

text \<open>A request to the model ends after at most four calls of the provider, and after at most eight when
  progress is streamed; it makes at least one. Counting the calls changes nothing else.\<close>

theorem provider_calls_bounded:
  fixes r :: "'e agent_error + chat_response"
  assumes "call_llm_streaming_with_retry (counting env) progress req s = (r, s')"
  shows "call_llm_streaming_with_retry env progress req (uncount s) = (r, uncount s') \<and> calls_made s < calls_made s' \<and>
    calls_made s' \<le> calls_made s + (if progress then 2 else 1) * (MAX_RETRIES + 1)"
proof (cases progress)
  case False
  with assms show ?thesis
    by (auto simp: call_llm_streaming_with_retry_def call_llm_with_retry_def dest: chat_attempts_counted)
next
  case True
  obtain o' s1 where o': "stream_attempts (counting env) req MAX_RETRIES s = (o', s1)" by fastforce
  note streamed = stream_attempts_counted[OF o']
  show ?thesis
  proof (cases o')
    case (Some response)
    with assms True o' streamed show ?thesis by (auto simp: call_llm_streaming_with_retry_def)
  next
    case None
    obtain r2 :: "'e agent_error + chat_response" and s2 where r2: "chat_attempts (counting env) req 0 MAX_RETRIES s1 = (r2, s2)" by fastforce
    note retried = chat_attempts_counted[OF r2]
    from assms True o' None r2 streamed retried show ?thesis
      by (cases r2) (auto simp: call_llm_streaming_with_retry_def call_llm_with_retry_def sx_bind_def sx_update_def)
  qed
qed

text \<open>An answer that cannot be retried ends the request at once: the world is the one after that answer.\<close>

lemma rejected_not_repeated:
  assumes "timed (lp_chat_cut (le_provider env)) (lp_chat (le_provider env)) (le_timeout_secs env) req (ag_world s) = (Some (Inl e), w)"
    and "\<not> should_retry_error (classify_llm_error (le_lower env) e)"
  shows "call_llm_with_retry env req s =
     (Inl (retries_exhausted env (show_llm_error e)),
      bump_stats (count_error (Some (classify_llm_error (le_lower env) e))) (s\<lparr>ag_world := w\<rparr>))"
  using assms by (simp add: call_llm_with_retry_def MAX_RETRIES_def numeral_3_eq_3 chat_attempts.simps Let_def)

text \<open>With streaming the same answer is followed by a call without streaming.\<close>

lemma rejected_stream_falls_back:
  assumes "timed (lp_stream_cut (le_provider env)) (lp_stream (le_provider env)) (le_timeout_secs env) req (ag_world s) = (Some (Inl e), w)"
    and "\<not> should_retry_error (classify_llm_error (le_lower env) e)"
    and "call_llm_with_retry env req (s\<lparr>ag_world := w\<rparr>) = (Inl err, s')"
  shows "call_llm_streaming_with_retry env True req s = (Inl err, s')"
proof -
  have "stream_attempts env req MAX_RETRIES s = (None, s\<lparr>ag_world := w\<rparr>)"
    using assms(1,2) by (simp add: MAX_RETRIES_def numeral_3_eq_3 stream_attempts.simps)
  then show ?thesis using assms(3) by (simp add: call_llm_streaming_with_retry_def sx_bind_def)
qed

lemma read_ended:
  assumes "ending = [] \<or> hd ending = Idle"
  shows "read_stream (map Chunk cks @ ending) a es = (fold absorb_chunk cks a, es @ concat (map chunk_events cks), None)"
  using assms by (induction cks arbitrary: a es) (cases ending; auto)+


text \<open>A stream that stalls in the middle is taken for a finished one: what arrived so far is the response.\<close>

lemma stalled_stream_taken_as_complete:
  assumes "timed (lp_stream_cut (le_provider env)) (lp_stream (le_provider env)) (le_timeout_secs env) req (ag_world s) =
      (Some (Inr (map Chunk cks @ Idle # rest)), w)"
    and "received_data (fold absorb_chunk cks nothing_yet)"
  shows "fst (call_llm_streaming_with_retry env True req s) = Inr (assemble env req (fold absorb_chunk cks nothing_yet))"
  using assms read_ended[of "Idle # rest" cks nothing_yet "[]"]
  by (simp add: call_llm_streaming_with_retry_def stream_attempts.simps Let_def)

subsection \<open>Witnesses\<close>

text \<open>A provider whose world is the number of calls it has left to refuse.\<close>

definition sample_call :: tool_call where
  "sample_call = \<lparr>tcl_id = ''c1'', tcl_type = ''function'', tcl_name = ''read'', tcl_arguments = ''ab''\<rparr>"

definition sample_chunks :: "stream_chunk list" where
  "sample_chunks =
     [\<lparr>sc_id = ''r'', sc_choices = [\<lparr>so_content = Some ''o'', so_tool_calls = Some [sample_call\<lparr>tcl_arguments := []\<rparr>], so_finish_reason = None\<rparr>]\<rparr>,
      \<lparr>sc_id = ''r'', sc_choices = [\<lparr>so_content = Some ''k'', so_tool_calls = Some [fragment ''c1'' ''function'' (False, ''a'')], so_finish_reason = None\<rparr>]\<rparr>,
      \<lparr>sc_id = ''r'', sc_choices = [\<lparr>so_content = None, so_tool_calls = Some [fragment ''c1'' ''function'' (True, ''b'')], so_finish_reason = Some ''tool_calls''\<rparr>]\<rparr>]"

definition sample_provider :: "nat llm_provider" where
  "sample_provider = \<lparr>lp_chat = (\<lambda>req n. (Inl RateLimitExceeded, n - 1)), lp_chat_cut = (\<lambda>_ _ _. None),
     lp_stream = (\<lambda>req n. (if n = 0 then Inr (map Chunk sample_chunks) else Inl RateLimitExceeded, n - 1)), lp_stream_cut = (\<lambda>_ _ _. None)\<rparr>"

definition sample_llm_env :: "nat llm_env" where
  "sample_llm_env = \<lparr>le_provider = sample_provider, le_lower = id, le_tokens = length, le_show = (\<lambda>_. ''n''), le_uuid = ''u'', le_timeout_secs = 60\<rparr>"

definition sample_request :: chat_request where
  "sample_request = \<lparr>rq_model = ''m'', rq_messages = [], rq_tools = None, rq_max_tokens = None, rq_stream = True\<rparr>"

definition sample_agent :: "'w \<Rightarrow> (unit, 'w) agent_run" where
  "sample_agent w = \<lparr>ag_stats = \<lparr>as_messages_processed = 0, as_tool_executions = 0, as_total_tokens = 0, as_avg_response_time_ms = 0,
       as_error_count = 0, as_retry_attempts = 0, as_rate_limit_hits = 0\<rparr>,
     ag_events = [], ag_sessions = \<lparr>sn_sessions = Map.empty, sn_store = (), sn_max_sessions = 1\<rparr>, ag_world = w\<rparr>"

theorem provider_calls_bounded_witness:
  "\<exists>(r :: unit agent_error + chat_response) s'.
     call_llm_streaming_with_retry (counting sample_llm_env) True sample_request (sample_agent (5, 0)) = (r, s') \<and>
     0 < calls_made s' \<and> calls_made s' \<le> 8"
proof -
  obtain r :: "unit agent_error + chat_response" and s'
    where "call_llm_streaming_with_retry (counting sample_llm_env) True sample_request (sample_agent (5, 0)) = (r, s')" by fastforce
  with provider_calls_bounded[OF this] show ?thesis by (auto simp: sample_agent_def MAX_RETRIES_def)
qed


end
