(* ===== verification/Transcript.thy ===== *)
theory Transcript
  imports LlmCalls
begin

text \<open>
  From the messages of a conversation to a request (\<open>rockbot-agent/src/agent.rs\<close>): which messages are sent,
  how a long conversation is compacted, the working memory of a session and the request itself.
  The text of the system prompt and the definitions of the tools are arguments, and so are the JSON
  codec of tool calls, the clock and the identifier generator, which run on the world.
\<close>

subsection \<open>Agents and contexts\<close>

record agent_config =
  cf_id :: string
  cf_model :: "string option"
  cf_max_tokens :: "nat option"
  cf_max_context_tokens :: nat
  cf_max_tool_calls :: "nat option"
  cf_tool_timeout_secs :: nat
  cf_breakpoint_tools :: "string list"

record processing_context =
  pc_session_id :: string
  pc_messages :: "message list"
  pc_available_tools :: "string list"
  pc_token_count :: nat
  pc_workspace_override :: "path option"
  pc_remote_executor_target :: "string option"
  pc_remote_executor_strict :: bool
  pc_remote_workspace_override :: "string option"
  pc_delegation_depth :: nat

text \<open>\<open>ae_unique\<close> lists the elements of a hash set in its order; \<open>ae_fresh\<close> and \<open>ae_clock\<close> are \<open>Uuid::new_v4\<close>
  and \<open>Utc::now\<close>.\<close>

record ('db, 'tx, 'v, 'e, 'w) agent_env =
  ae_config :: agent_config
  ae_llm :: "'w llm_env"
  ae_sessions :: "('db, 'tx, 'v, 'e) session_env"
  ae_show_json :: "json \<Rightarrow> string"
  ae_calls_from :: "json \<Rightarrow> tool_call list option"
  ae_calls_to :: "tool_call list \<Rightarrow> json option"
  ae_unique :: "string list \<Rightarrow> string list"
  ae_fresh :: "'w \<Rightarrow> string \<times> 'w"
  ae_clock :: "'w \<Rightarrow> datetime \<times> 'w"
  ae_system_prompt :: "processing_context \<Rightarrow> ('db, 'w) agent_run \<Rightarrow> string"
  ae_tool_definitions :: "string list \<Rightarrow> string + tool_definition list"

definition fresh_message ::
  "('db, 'tx, 'v, 'e, 'w) agent_env \<Rightarrow> (string \<Rightarrow> datetime \<Rightarrow> message) \<Rightarrow> ('db, 'w, 'e, message) ax" where
  "fresh_message env f s =
     (case ae_fresh env (ag_world s) of (uid, w) \<Rightarrow> (case ae_clock env w of (now, w) \<Rightarrow> (Inr (f uid now), s\<lparr>ag_world := w\<rparr>)))"

definition count_tokens :: "('db, 'tx, 'v, 'e, 'w) agent_env \<Rightarrow> string \<Rightarrow> nat" where
  "count_tokens env = le_tokens (ae_llm env)"

definition message_tokens :: "('db, 'tx, 'v, 'e, 'w) agent_env \<Rightarrow> message list \<Rightarrow> nat" where
  "message_tokens env ms = sum_list (map (\<lambda>m. count_tokens env (text_or_empty (ae_show_json env) m)) ms)"

subsection \<open>Texts\<close>

definition truncate_content :: "(nat \<Rightarrow> string) \<Rightarrow> string \<Rightarrow> nat \<Rightarrow> string" where
  "truncate_content show_nat s n =
     (let total = length (chars s) in
      if total \<le> n then s
      else concat (take n (chars s)) @ [CHR 0x0A, CHR 0x0A] @ ''[... truncated '' @ [CHR 0xE2, CHR 0x80, CHR 0x94] @ '' '' @
        show_nat total @ '' total chars]'')"

definition truncate_utf8 :: "string \<Rightarrow> nat \<Rightarrow> string" where
  "truncate_utf8 s n = concat (take n (chars s))"

subsection \<open>The messages that are sent\<close>

definition COMPACTION_SUMMARY_KEY :: string where "COMPACTION_SUMMARY_KEY = ''compaction_summary''"

definition is_summary :: "message \<Rightarrow> bool" where
  "is_summary m = (case Option.bind (extra_of m COMPACTION_SUMMARY_KEY) as_bool of Some b \<Rightarrow> b | None \<Rightarrow> False)"

definition calls_of :: "(json \<Rightarrow> tool_call list option) \<Rightarrow> message \<Rightarrow> tool_call list option" where
  "calls_of from_json m = Option.bind (extra_of m ''tool_calls'') from_json"

definition call_id_of :: "message \<Rightarrow> string option" where
  "call_id_of m = Option.bind (extra_of m ''tool_call_id'') as_str"

definition sent_message :: "(json \<Rightarrow> string) \<Rightarrow> (json \<Rightarrow> tool_call list option) \<Rightarrow> message \<Rightarrow> llm_message" where
  "sent_message show_json from_json m = \<lparr>lm_role = role_of m, lm_content = text_or_empty show_json m, lm_images = [],
     lm_tool_calls = calls_of from_json m, lm_tool_call_id = call_id_of m\<rparr>"

text \<open>The required identifiers that the tool results right after a message answer.\<close>

fun satisfied_ids :: "string set \<Rightarrow> message list \<Rightarrow> string set" where
  "satisfied_ids required [] = {}"
| "satisfied_ids required (m # ms) =
     (if role_of m = RoleSystem then satisfied_ids required ms
      else if role_of m \<noteq> RoleTool then {}
      else (case call_id_of m of
          Some i \<Rightarrow> if i \<in> required then insert i (satisfied_ids required ms) else satisfied_ids required ms
        | None \<Rightarrow> satisfied_ids required ms))"

text \<open>\<open>pending\<close> holds the identifiers of calls that are still to be answered.\<close>

fun sent_messages ::
  "(json \<Rightarrow> string) \<Rightarrow> (json \<Rightarrow> tool_call list option) \<Rightarrow> message list \<Rightarrow> string set \<Rightarrow> llm_message list" where
  "sent_messages sj fj [] pending = []"
| "sent_messages sj fj (m # ms) pending =
     (if role_of m = RoleSystem \<and> \<not> is_summary m then sent_messages sj fj ms pending
      else if role_of m = RoleAssistant then
        (case calls_of fj m of
           None \<Rightarrow> sent_message sj fj m # sent_messages sj fj ms pending
         | Some calls \<Rightarrow>
             let required = set (map tcl_id calls) in
             if card (satisfied_ids required ms) \<noteq> card required then sent_messages sj fj ms pending
             else sent_message sj fj m # sent_messages sj fj ms (pending \<union> required))
      else if role_of m = RoleTool then
        (case call_id_of m of
           None \<Rightarrow> sent_messages sj fj ms pending
         | Some i \<Rightarrow> if i \<in> pending then sent_message sj fj m # sent_messages sj fj ms (pending - {i})
                     else sent_messages sj fj ms pending)
      else sent_message sj fj m # sent_messages sj fj ms pending)"

definition llm_messages_from_context :: "('db, 'tx, 'v, 'e, 'w) agent_env \<Rightarrow> processing_context \<Rightarrow> llm_message list" where
  "llm_messages_from_context env ctx = sent_messages (ae_show_json env) (ae_calls_from env) (pc_messages ctx) {}"

subsection \<open>Compaction\<close>

text \<open>Indexing past the end of the messages panics.\<close>

fun boundary_from :: "message list \<Rightarrow> nat \<Rightarrow> nat option" where
  "boundary_from ms 0 = Some 0"
| "boundary_from ms (Suc k) =
     (if length ms \<le> Suc k then None
      else if (role_of (ms ! k) = RoleAssistant \<and> extra_of (ms ! k) ''tool_calls'' \<noteq> None) \<or> role_of (ms ! Suc k) = RoleTool
      then boundary_from ms k else Some (Suc k))"

definition find_safe_compaction_boundary :: "message list \<Rightarrow> nat \<Rightarrow> nat option" where
  "find_safe_compaction_boundary ms keep_recent = boundary_from ms (length ms - keep_recent)"

definition role_label :: "message_role \<Rightarrow> string" where
  "role_label r = (case r of RoleUser \<Rightarrow> ''User'' | RoleAssistant \<Rightarrow> ''Assistant'' | RoleSystem \<Rightarrow> ''System'' | RoleTool \<Rightarrow> ''Tool'')"

fun summary_input :: "(json \<Rightarrow> string) \<Rightarrow> string \<Rightarrow> message list \<Rightarrow> string" where
  "summary_input sj acc [] = acc"
| "summary_input sj acc (m # ms) =
     (let acc = acc @ ''['' @ role_label (role_of m) @ '']: '' @ truncate_utf8 (text_or_empty sj m) 500 @ [CHR 0x0A] in
      if 6000 < length acc then acc @ ''[...earlier messages omitted...]'' @ [CHR 0x0A] else summary_input sj acc ms)"

definition keep_recent :: "agent_config \<Rightarrow> nat" where
  "keep_recent cf = (if cf_max_context_tokens cf \<le> 16000 then 8 else if cf_max_context_tokens cf \<le> 32000 then 12 else 20)"

definition plain_message :: "message_role \<Rightarrow> string \<Rightarrow> llm_message" where
  "plain_message role text = \<lparr>lm_role = role, lm_content = text, lm_images = [], lm_tool_calls = None, lm_tool_call_id = None\<rparr>"

definition COMPACTION_PROMPT :: string where
  "COMPACTION_PROMPT = ''You are a context compaction assistant. Summarize the following '' @
     ''conversation excerpt into a concise paragraph. Preserve: key decisions '' @
     ''made, files or resources accessed, tool results and their outcomes, '' @
     ''errors encountered, and any commitments or plans. Be factual and brief.''"

definition summary_request :: "agent_config \<Rightarrow> string \<Rightarrow> chat_request" where
  "summary_request cf input = \<lparr>rq_model = (case cf_model cf of Some m \<Rightarrow> m | None \<Rightarrow> ''default''),
     rq_messages = [plain_message RoleSystem COMPACTION_PROMPT, plain_message RoleUser input],
     rq_tools = None, rq_max_tokens = Some 1000, rq_stream = False\<rparr>"

definition tool_names :: "message list \<Rightarrow> string list" where
  "tool_names ms = List.map_filter (\<lambda>m. Option.bind (extra_of m ''tool_name'') as_str) (filter (\<lambda>m. role_of m = RoleTool) ms)"

definition summary_text :: "('db, 'tx, 'v, 'e, 'w) agent_env \<Rightarrow> message list \<Rightarrow> llm_error + chat_response \<Rightarrow> string" where
  "summary_text env dropped answer =
     (let count = le_show (ae_llm env) (length dropped) in
      case answer of
        Inr response \<Rightarrow>
          if first_content response = [] then ''[Previous context: '' @ count @ '' messages summarized]''
          else ''# Previous Context Summary'' @ [CHR 0x0A, CHR 0x0A] @ first_content response
      | Inl _ \<Rightarrow>
          let tools = ae_unique env (tool_names dropped) in
          ''[Previous context: '' @ count @ '' messages compacted. Tools used: '' @
            (if tools = [] then ''none'' else join_with '', '' tools) @ '']'')"

definition summary_message :: "string \<Rightarrow> string \<Rightarrow> string \<Rightarrow> datetime \<Rightarrow> message" where
  "summary_message sid text uid now =
     insert_extra COMPACTION_SUMMARY_KEY (JBool True) (with_session_id sid (message_system uid now text LevelInfo))"

definition compact_context :: "('db, 'tx, 'v, 'e, 'w) agent_env \<Rightarrow> processing_context \<Rightarrow> ('db, 'w, 'e, processing_context) ax" where
  "compact_context env ctx s =
     (let ms = pc_messages ctx; keep = keep_recent (ae_config env) in
      if length ms \<le> keep + 2 then (Inr ctx, s)
      else (case find_safe_compaction_boundary ms keep of
          None \<Rightarrow> (Inl Panicked, s)
        | Some k \<Rightarrow>
            (case lp_chat (le_provider (ae_llm env))
                (summary_request (ae_config env) (summary_input (ae_show_json env) [] (take k ms))) (ag_world s) of
               (answer, w) \<Rightarrow>
                 sx_bind (fresh_message env (summary_message (pc_session_id ctx) (summary_text env (take k ms) answer)))
                   (\<lambda>m. let ms = m # drop k ms in
                     sx_return (ctx\<lparr>pc_messages := ms, pc_token_count := message_tokens env ms\<rparr>)) (s\<lparr>ag_world := w\<rparr>))))"

definition compaction_threshold :: "agent_config \<Rightarrow> nat" where
  "compaction_threshold cf = cf_max_context_tokens cf * 80 div 100"

subsection \<open>Working memory\<close>

definition SESSION_SUMMARY_MAX_CHARS :: nat where "SESSION_SUMMARY_MAX_CHARS = 1500"

text \<open>The text of the newest message that satisfies a condition, cut to a length.\<close>

definition newest_text :: "('db, 'tx, 'v, 'e, 'w) agent_env \<Rightarrow> (message \<Rightarrow> bool) \<Rightarrow> nat \<Rightarrow> message list \<Rightarrow> string option" where
  "newest_text env p n ms = map_option (\<lambda>t. truncate_content (le_show (ae_llm env)) t n)
     (Option.bind (List.find p (rev ms)) (\<lambda>m. extract_text (ae_show_json env) (ms_content m)))"

fun collect_tools :: "string list \<Rightarrow> string list \<Rightarrow> string list" where
  "collect_tools acc [] = acc"
| "collect_tools acc (t # ts) =
     (let acc = (if t \<in> set acc then acc else acc @ [t]) in if 6 \<le> length acc then acc else collect_tools acc ts)"

definition recent_tools :: "message list \<Rightarrow> string list" where
  "recent_tools ms = rev (collect_tools [] (List.map_filter (\<lambda>m. Option.bind (extra_of m ''tool_name'') as_str) (rev ms)))"

definition build_session_working_memory ::
  "('db, 'tx, 'v, 'e, 'w) agent_env \<Rightarrow> message list \<Rightarrow> string \<times> string option \<times> string list" where
  "build_session_working_memory env ms =
     (let intent = newest_text env (\<lambda>m. role_of m = RoleUser) 300 ms;
          result = newest_text env (\<lambda>m. role_of m = RoleAssistant) 400 ms;
          summary = newest_text env (\<lambda>m. role_of m = RoleSystem \<and> is_summary m) 600 ms;
          tools = recent_tools ms;
          parts = (case intent of Some t \<Rightarrow> [''Current objective: '' @ t] | None \<Rightarrow> []) @
            (case result of Some t \<Rightarrow> [''Latest assistant state: '' @ t] | None \<Rightarrow> []) @
            (case summary of Some t \<Rightarrow> [''Compacted prior context: '' @ t] | None \<Rightarrow> []) @
            (if tools = [] then [] else [''Recent tools: '' @ join_with '', '' tools])
      in (if parts = [] then ''No session working memory recorded yet.''
          else truncate_content (le_show (ae_llm env)) (join_with [CHR 0x0A] parts) SESSION_SUMMARY_MAX_CHARS, intent, tools))"

text \<open>An operation of the session manager inside the agent.\<close>

definition on_sessions :: "('db, 'e, 'a) sn \<Rightarrow> ('db, 'w, 'e, 'a) ax" where
  "on_sessions f s = (case f (ag_sessions s) of
     (Inl e, m) \<Rightarrow> (Inl (SessionFailed e), s\<lparr>ag_sessions := m\<rparr>) | (Inr x, m) \<Rightarrow> (Inr x, s\<lparr>ag_sessions := m\<rparr>))"

definition clock_now :: "('db, 'tx, 'v, 'e, 'w) agent_env \<Rightarrow> ('db, 'w, 'e, datetime) ax" where
  "clock_now env s = (case ae_clock env (ag_world s) of (t, w) \<Rightarrow> (Inr t, s\<lparr>ag_world := w\<rparr>))"

definition refresh_session_working_memory ::
  "('db, 'tx, 'v, 'e, 'w) agent_env \<Rightarrow> string \<Rightarrow> message list \<Rightarrow> ('db, 'w, 'e, unit) ax" where
  "refresh_session_working_memory env sid ms =
     (case build_session_working_memory env ms of (summary, intent, tools) \<Rightarrow>
        sx_bind (clock_now env) (\<lambda>t. on_sessions (update_working_memory (ae_sessions env) t sid summary intent tools)))"

definition refresh_context_token_count :: "('db, 'tx, 'v, 'e, 'w) agent_env \<Rightarrow> processing_context \<Rightarrow> processing_context" where
  "refresh_context_token_count env ctx = ctx\<lparr>pc_token_count := message_tokens env (pc_messages ctx)\<rparr>"

definition compact_context_if_needed ::
  "('db, 'tx, 'v, 'e, 'w) agent_env \<Rightarrow> processing_context \<Rightarrow> ('db, 'w, 'e, processing_context) ax" where
  "compact_context_if_needed env ctx0 =
     (let ctx = refresh_context_token_count env ctx0 in
      if compaction_threshold (ae_config env) < pc_token_count ctx then
        sx_bind (compact_context env ctx) (\<lambda>ctx.
        sx_bind (refresh_session_working_memory env (pc_session_id ctx) (pc_messages ctx)) (\<lambda>_. sx_return ctx))
      else sx_return ctx)"

subsection \<open>Requests\<close>

definition estimate_request_tokens ::
  "('db, 'tx, 'v, 'e, 'w) agent_env \<Rightarrow> llm_message list \<Rightarrow> tool_definition list option \<Rightarrow> nat" where
  "estimate_request_tokens env ms tools =
     sum_list (map (\<lambda>m. count_tokens env (lm_content m)) ms) +
     (case tools of None \<Rightarrow> 0 | Some ts \<Rightarrow> sum_list (map (\<lambda>t. count_tokens env (td_name t) +
        count_tokens env (td_description t) + count_tokens env (ae_show_json env (td_parameters t))) ts))"

definition request_parts ::
  "('db, 'tx, 'v, 'e, 'w) agent_env \<Rightarrow> processing_context \<Rightarrow> ('db, 'w, 'e, llm_message list \<times> tool_definition list option) ax" where
  "request_parts env ctx s =
     (let prompt = ae_system_prompt env ctx s;
          ms = (if prompt = [] then [] else [plain_message RoleSystem prompt]) @ llm_messages_from_context env ctx in
      if pc_available_tools ctx = [] then (Inr (ms, None), s)
      else (case ae_tool_definitions env (pc_available_tools ctx) of
          Inl e \<Rightarrow> (Inl (ExecutionError e), s) | Inr defs \<Rightarrow> (Inr (ms, Some defs), s)))"

text \<open>The loop of \<open>materialize_llm_request_parts\<close> runs a second time only after it compacted the context, and
  compacts it only once.\<close>

definition materialize_llm_request_parts ::
  "('db, 'tx, 'v, 'e, 'w) agent_env \<Rightarrow> processing_context \<Rightarrow>
   ('db, 'w, 'e, (llm_message list \<times> tool_definition list option) \<times> processing_context) ax" where
  "materialize_llm_request_parts env ctx =
     sx_bind (request_parts env ctx) (\<lambda>parts.
       if compaction_threshold (ae_config env) < estimate_request_tokens env (fst parts) (snd parts) \<and> 10 < length (pc_messages ctx)
       then sx_bind (compact_context env ctx) (\<lambda>ctx. sx_bind (request_parts env ctx) (\<lambda>parts. sx_return (parts, ctx)))
       else sx_return (parts, ctx))"

definition build_llm_request ::
  "('db, 'tx, 'v, 'e, 'w) agent_env \<Rightarrow> bool \<Rightarrow> processing_context \<Rightarrow> ('db, 'w, 'e, chat_request \<times> processing_context) ax" where
  "build_llm_request env stream ctx =
     sx_bind (materialize_llm_request_parts env ctx) (\<lambda>((ms, tools), ctx).
     sx_bind (clock_now env) (\<lambda>t.
     sx_bind (sx_update (\<lambda>s. s\<lparr>ag_sessions := snd (update_context_budget (ae_sessions env) t (pc_session_id ctx)
         (estimate_request_tokens env ms tools) (cf_max_context_tokens (ae_config env)) (ag_sessions s))\<rparr>)) (\<lambda>_.
     sx_return (\<lparr>rq_model = (case cf_model (ae_config env) of Some m \<Rightarrow> m | None \<Rightarrow> ''anthropic/claude-sonnet-4-20250514''),
       rq_messages = ms, rq_tools = tools,
       rq_max_tokens = Some (case cf_max_tokens (ae_config env) of Some n \<Rightarrow> n | None \<Rightarrow> 16000), rq_stream = stream\<rparr>, ctx))))"

subsection \<open>Lemmas on the messages that are sent\<close>

text \<open>The typing judgement of a conversation: tool results answer open calls, and nothing but a system message
  stands between a call and its results.\<close>

definition opened :: "llm_message \<Rightarrow> string set" where
  "opened m = (if lm_role m = RoleAssistant then (case lm_tool_calls m of Some cs \<Rightarrow> set (map tcl_id cs) | None \<Rightarrow> {}) else {})"

inductive tool_protocol :: "string set \<Rightarrow> llm_message list \<Rightarrow> bool" where
  closed: "tool_protocol {} []"
| turn: "lm_role m = RoleUser \<or> lm_role m = RoleAssistant \<Longrightarrow> tool_protocol (opened m) ms \<Longrightarrow> tool_protocol {} (m # ms)"
| answer: "lm_role m = RoleTool \<Longrightarrow> lm_tool_call_id m = Some i \<Longrightarrow> i \<in> open_calls \<Longrightarrow>
     tool_protocol (open_calls - {i}) ms \<Longrightarrow> tool_protocol open_calls (m # ms)"
| note_in: "lm_role m = RoleSystem \<Longrightarrow> tool_protocol open_calls ms \<Longrightarrow> tool_protocol open_calls (m # ms)"

inductive_cases tool_protocol_Nil: "tool_protocol open_calls []"

lemma tool_protocol_Cons [consumes 1, case_names turn answer note_in]:
  assumes "tool_protocol open_calls (m # ms)"
  obtains "open_calls = {}" "lm_role m = RoleUser \<or> lm_role m = RoleAssistant" "tool_protocol (opened m) ms"
  | i where "lm_role m = RoleTool" "lm_tool_call_id m = Some i" "i \<in> open_calls" "tool_protocol (open_calls - {i}) ms"
  | "lm_role m = RoleSystem" "tool_protocol open_calls ms"
  using assms by (cases rule: tool_protocol.cases) auto

fun answered_ids :: "message list \<Rightarrow> string set" where
  "answered_ids [] = {}"
| "answered_ids (m # ms) =
     (if role_of m = RoleSystem then answered_ids ms
      else if role_of m \<noteq> RoleTool then {}
      else (case call_id_of m of Some i \<Rightarrow> insert i (answered_ids ms) | None \<Rightarrow> answered_ids ms))"

lemma satisfied_answered: "satisfied_ids required ms = required \<inter> answered_ids ms"
  by (induction ms) (auto split: option.split)

lemma satisfied_all:
  assumes "finite required" "card (satisfied_ids required ms) = card required"
  shows "required \<subseteq> answered_ids ms"
proof -
  have "satisfied_ids required ms \<subseteq> required" by (simp add: satisfied_answered)
  with assms have "satisfied_ids required ms = required" by (simp add: card_subset_eq)
  then show ?thesis by (auto simp: satisfied_answered)
qed

lemma sent_message_simps [simp]:
  "lm_role (sent_message sj fj m) = role_of m" "lm_tool_call_id (sent_message sj fj m) = call_id_of m"
  "lm_tool_calls (sent_message sj fj m) = calls_of fj m" "lm_content (sent_message sj fj m) = text_or_empty sj m"
  by (simp_all add: sent_message_def)

lemma sent_protocol:
  "pending \<subseteq> answered_ids ms \<Longrightarrow> tool_protocol pending (sent_messages sj fj ms pending)"
proof (induction ms arbitrary: pending)
  case Nil
  then show ?case by (simp add: tool_protocol.closed)
next
  case (Cons m ms)
  show ?case
  proof (cases "role_of m")
    case RoleUser
    with Cons.prems have "pending = {}" by simp
    with RoleUser Cons.IH[of "{}"] show ?thesis by (auto simp: opened_def intro!: tool_protocol.turn)
  next
    case RoleAssistant
    with Cons.prems have p: "pending = {}" by simp
    show ?thesis
    proof (cases "calls_of fj m")
      case None
      with RoleAssistant p Cons.IH[of "{}"] show ?thesis by (auto simp: opened_def intro!: tool_protocol.turn)
    next
      case (Some calls)
      show ?thesis
      proof (cases "card (satisfied_ids (set (map tcl_id calls)) ms) = card (set (map tcl_id calls))")
        case True
        have "set (map tcl_id calls) \<subseteq> answered_ids ms" by (rule satisfied_all[OF _ True]) simp
        with Cons.IH[of "set (map tcl_id calls)"] True RoleAssistant Some p show ?thesis
          by (auto simp: opened_def Let_def intro!: tool_protocol.turn)
      next
        case False
        with RoleAssistant Some p Cons.IH[of "{}"] show ?thesis by simp
      qed
    qed
  next
    case RoleSystem
    with Cons.prems have "pending \<subseteq> answered_ids ms" by simp
    from Cons.IH[OF this] RoleSystem show ?thesis by (auto intro!: tool_protocol.note_in)
  next
    case RoleTool
    show ?thesis
    proof (cases "call_id_of m")
      case None
      with RoleTool Cons show ?thesis by simp
    next
      case (Some i)
      show ?thesis
      proof (cases "i \<in> pending")
        case True
        have "pending - {i} \<subseteq> answered_ids ms" using Cons.prems RoleTool Some by auto
        from Cons.IH[OF this] RoleTool Some True show ?thesis by (auto intro!: tool_protocol.answer)
      next
        case False
        with Cons.prems RoleTool Some have "pending \<subseteq> answered_ids ms" by auto
        from Cons.IH[OF this] RoleTool Some False show ?thesis by simp
      qed
    qed
  qed
qed

text \<open>A conversation that follows the protocol is sent as it is.\<close>

lemma protocol_answered: "tool_protocol open_calls (map (sent_message sj fj) ms) \<Longrightarrow> open_calls \<subseteq> answered_ids ms"
proof (induction ms arbitrary: open_calls)
  case (Cons m ms)
  from Cons.prems have "tool_protocol open_calls (sent_message sj fj m # map (sent_message sj fj) ms)" by simp
  then show ?case
  proof (cases rule: tool_protocol_Cons)
    case (answer i)
    with Cons.IH[of "open_calls - {i}"] show ?thesis by auto
  qed (auto dest: Cons.IH)
qed (auto elim: tool_protocol_Nil)

lemma sent_complete:
  assumes "tool_protocol pending (map (sent_message sj fj) ms)" "\<forall>m \<in> set ms. role_of m = RoleSystem \<longrightarrow> is_summary m"
  shows "sent_messages sj fj ms pending = map (sent_message sj fj) ms"
  using assms
proof (induction ms arbitrary: pending)
  case (Cons m ms)
  have rest: "\<forall>m \<in> set ms. role_of m = RoleSystem \<longrightarrow> is_summary m" using Cons.prems(2) by simp
  from Cons.prems(1) have "tool_protocol pending (sent_message sj fj m # map (sent_message sj fj) ms)" by simp
  then show ?case
  proof (cases rule: tool_protocol_Cons)
    case turn
    note IH = Cons.IH[OF turn(3) rest]
    show ?thesis
    proof (cases "role_of m = RoleAssistant \<and> calls_of fj m \<noteq> None")
      case True
      then obtain calls where calls: "role_of m = RoleAssistant" "calls_of fj m = Some calls" by blast
      then have "opened (sent_message sj fj m) = set (map tcl_id calls)" by (simp add: opened_def)
      with protocol_answered[OF turn(3)] have "satisfied_ids (set (map tcl_id calls)) ms = set (map tcl_id calls)"
        by (auto simp: satisfied_answered)
      with IH calls turn(1) \<open>opened (sent_message sj fj m) = _\<close> show ?thesis by (simp add: Let_def)
    next
      case False
      with turn(2) IH turn(1) show ?thesis by (auto simp: opened_def)
    qed
  next
    case (answer i)
    with Cons.IH[OF answer(4) rest] show ?thesis by simp
  next
    case note_in
    with Cons.IH[OF note_in(2) rest] Cons.prems(2) show ?thesis by simp
  qed
qed simp

lemma protocol_drop:
  "tool_protocol open_calls ms \<Longrightarrow> k < length ms \<Longrightarrow> lm_role (ms ! k) = RoleUser \<or> lm_role (ms ! k) = RoleAssistant \<Longrightarrow>
     tool_protocol {} (drop k ms)"
proof (induction arbitrary: k rule: tool_protocol.induct)
  case (turn m ms)
  then show ?case by (cases k) (auto intro: tool_protocol.turn)
next
  case (answer m i open_calls ms)
  then show ?case by (cases k) auto
next
  case (note_in m open_calls ms)
  then show ?case by (cases k) auto
qed simp

subsection \<open>Lemmas on compaction\<close>

lemma boundary_total: "k < length ms \<Longrightarrow> \<exists>j. boundary_from ms k = Some j"
  by (induction k) auto

lemma boundary_from_Some:
  "boundary_from ms k = Some j \<Longrightarrow> j \<le> k \<and> (j = 0 \<or> j < length ms \<and> role_of (ms ! j) \<noteq> RoleTool)"
  by (induction k) (auto split: if_splits)

lemma keep_recent_pos: "0 < keep_recent cf"
  by (simp add: keep_recent_def)

lemma summary_message_simps [simp]:
  "role_of (summary_message sid t uid now) = RoleSystem" "is_summary (summary_message sid t uid now)"
  by (simp_all add: summary_message_def is_summary_def message_defs as_bool_def)

lemma compact_cases:
  assumes "compact_context env ctx s = (r, s')"
  obtains (small) "r = Inr ctx" "length (pc_messages ctx) \<le> keep_recent (ae_config env) + 2"
  | (compacted) k m where "find_safe_compaction_boundary (pc_messages ctx) (keep_recent (ae_config env)) = Some k"
      "keep_recent (ae_config env) < length (pc_messages ctx)" "role_of m = RoleSystem" "is_summary m"
      "r = Inr (ctx\<lparr>pc_messages := m # drop k (pc_messages ctx), pc_token_count := message_tokens env (m # drop k (pc_messages ctx))\<rparr>)"
proof (cases "length (pc_messages ctx) \<le> keep_recent (ae_config env) + 2")
  case True
  with assms small show ?thesis by (auto simp: compact_context_def Let_def)
next
  case False
  then have "length (pc_messages ctx) - keep_recent (ae_config env) < length (pc_messages ctx)"
    using keep_recent_pos[of "ae_config env"] by simp
  then obtain k where k: "find_safe_compaction_boundary (pc_messages ctx) (keep_recent (ae_config env)) = Some k"
    using boundary_total unfolding find_safe_compaction_boundary_def by blast
  with assms False show ?thesis
    by (auto simp: compact_context_def Let_def sx_bind_def fresh_message_def sx_return_def split: prod.splits intro!: compacted)
qed

subsection \<open>Properties\<close>

text \<open>C18. The messages of every request are well typed, whatever is stored in the conversation: each tool result
  answers one call of the assistant message before it that is still open, and every call is answered before the
  next user or assistant message.\<close>

theorem request_well_typed:
  assumes "build_llm_request env stream ctx s = (Inr (req, ctx'), s')"
  shows "tool_protocol {} (rq_messages req)"
proof -
  have sent: "tool_protocol {} (llm_messages_from_context env c)" for c
    by (simp add: llm_messages_from_context_def sent_protocol)
  have parts: "tool_protocol {} (fst p)" if "request_parts env c s0 = (Inr p, s1)" for c p s0 s1
    using that sent[of c]
    by (auto simp: request_parts_def Let_def plain_message_def split: if_splits sum.splits intro!: tool_protocol.note_in)
  have "tool_protocol {} (fst p)" if "materialize_llm_request_parts env c s0 = (Inr (p, c'), s1)" for c p c' s0 s1
    using that parts by (auto simp: materialize_llm_request_parts_def sx_bind_Inr_iff split: if_splits)
  then show ?thesis
    using assms by (force simp: build_llm_request_def sx_bind_Inr_iff)
qed

text \<open>Compaction never separates a call from its results: a conversation that follows the protocol, with
  nothing but an earlier summary as a system message, becomes a summary and a suffix that both are sent in full,
  and the suffix has at least the recent messages that are to be kept.\<close>

theorem compaction_keeps_exchanges:
  assumes "compact_context env ctx s = (r, s')"
    and "tool_protocol {} (map (sent_message (ae_show_json env) (ae_calls_from env)) (pc_messages ctx))"
    and "RoleSystem \<notin> role_of ` set (tl (pc_messages ctx))"
    and "\<forall>m \<in> set (pc_messages ctx). role_of m = RoleSystem \<longrightarrow> is_summary m"
  shows "\<exists>ctx' before after. r = Inr ctx' \<and> pc_messages ctx = before @ after \<and>
     (ctx' = ctx \<or> (\<exists>m. is_summary m \<and> pc_messages ctx' = m # after \<and> keep_recent (ae_config env) \<le> length after)) \<and>
     llm_messages_from_context env ctx' = map (sent_message (ae_show_json env) (ae_calls_from env)) (pc_messages ctx')"
  using assms(1)
proof (cases rule: compact_cases)
  case small
  have "llm_messages_from_context env ctx = map (sent_message (ae_show_json env) (ae_calls_from env)) (pc_messages ctx)"
    unfolding llm_messages_from_context_def by (rule sent_complete[OF assms(2,4)])
  with small show ?thesis by (intro exI[of _ ctx] exI[of _ "[]"] exI[of _ "pc_messages ctx"]) simp
next
  case (compacted k m)
  let ?ms = "pc_messages ctx" and ?sent = "sent_message (ae_show_json env) (ae_calls_from env)"
  have k: "k \<le> length ?ms - keep_recent (ae_config env)" "k = 0 \<or> k < length ?ms \<and> role_of (?ms ! k) \<noteq> RoleTool"
    using boundary_from_Some compacted(1) unfolding find_safe_compaction_boundary_def by blast+
  have "tool_protocol {} (map ?sent (drop k ?ms))"
  proof (cases k)
    case (Suc j)
    with k have "k < length ?ms" "?ms ! k \<in> set (tl ?ms)" by (auto simp: nth_tl[symmetric] intro!: nth_mem)
    with k Suc assms(3) have "role_of (?ms ! k) = RoleUser \<or> role_of (?ms ! k) = RoleAssistant"
      by (cases "role_of (?ms ! k)") force+
    with protocol_drop[OF assms(2), of k] \<open>k < length ?ms\<close> show ?thesis by (simp add: drop_map)
  qed (use assms(2) in simp)
  then have "tool_protocol {} (map ?sent (m # drop k ?ms))"
    using compacted(3) by (auto intro: tool_protocol.note_in)
  then have "sent_messages (ae_show_json env) (ae_calls_from env) (m # drop k ?ms) {} = map ?sent (m # drop k ?ms)"
    using assms(4) compacted(4) by (intro sent_complete) (auto dest: in_set_dropD)
  moreover have "length ?ms - k \<ge> keep_recent (ae_config env) \<or> length ?ms < keep_recent (ae_config env)" using k(1) by linarith
  ultimately show ?thesis using compacted(2,4,5)
    by (intro exI[of _ "ctx\<lparr>pc_messages := m # drop k ?ms, pc_token_count := message_tokens env (m # drop k ?ms)\<rparr>"]
        exI[of _ "take k ?ms"] exI[of _ "drop k ?ms"]) (auto simp: llm_messages_from_context_def)
qed

subsection \<open>Witnesses\<close>

text \<open>An agent whose world counts the identifiers and instants taken from it.\<close>

definition sample_config :: agent_config where
  "sample_config = \<lparr>cf_id = ''a'', cf_model = None, cf_max_tokens = None, cf_max_context_tokens = 1000, cf_max_tool_calls = None,
     cf_tool_timeout_secs = 30, cf_breakpoint_tools = []\<rparr>"

definition sample_agent_env :: "(session_cell mem_db, session_cell mem_db, session_cell, unit, nat) agent_env" where
  "sample_agent_env = \<lparr>ae_config = sample_config, ae_llm = sample_llm_env, ae_sessions = sample_session_env, ae_show_json = (\<lambda>_. []),
     ae_calls_from = (\<lambda>j. case j of JStr i \<Rightarrow> Some [sample_call\<lparr>tcl_id := i\<rparr>] | _ \<Rightarrow> None),
     ae_calls_to = (\<lambda>cs. case cs of [] \<Rightarrow> None | c # _ \<Rightarrow> Some (JStr (tcl_id c))), ae_unique = remdups,
     ae_fresh = (\<lambda>n. (replicate n (CHR ''u''), Suc n)), ae_clock = (\<lambda>n. (int n * 1000000, Suc n)),
     ae_system_prompt = (\<lambda>_ _. ''be brief''), ae_tool_definitions = (\<lambda>_. Inr [])\<rparr>"

definition sample_run_state :: "(session_cell mem_db, nat) agent_run" where
  "sample_run_state = \<lparr>ag_stats = \<lparr>as_messages_processed = 0, as_tool_executions = 0, as_total_tokens = 0, as_avg_response_time_ms = 0,
       as_error_count = 0, as_retry_attempts = 0, as_rate_limit_hits = 0\<rparr>,
     ag_events = [], ag_sessions = sample_manager, ag_world = 0\<rparr>"

definition sample_user :: message where
  "sample_user = message_text ''u1'' 0 ''hi''"

definition sample_asking :: message where
  "sample_asking = insert_extra ''tool_calls'' (JStr ''c1'') (with_role RoleAssistant (message_text ''u2'' 0 []))"

definition sample_result :: message where
  "sample_result = message_tool_result ''u3'' 0 ''c1'' ''read'' ''data''"

definition sample_context :: "message list \<Rightarrow> processing_context" where
  "sample_context ms = \<lparr>pc_session_id = ''s1'', pc_messages = ms, pc_available_tools = [], pc_token_count = 0, pc_workspace_override = None,
     pc_remote_executor_target = None, pc_remote_executor_strict = False, pc_remote_workspace_override = None, pc_delegation_depth = 0\<rparr>"

lemma sample_message_simps [simp]:
  "role_of sample_user = RoleUser" "role_of sample_asking = RoleAssistant" "role_of sample_result = RoleTool"
  "calls_of (ae_calls_from sample_agent_env) sample_asking = Some [sample_call]" "call_id_of sample_result = Some ''c1''"
  by (simp_all add: sample_user_def sample_asking_def sample_result_def message_defs calls_of_def call_id_of_def as_str_def
      sample_agent_env_def sample_call_def)

lemma build_uncompacted:
  assumes "request_parts env ctx s = (Inr (ms, tools), s)" "length (pc_messages ctx) \<le> 10"
  shows "\<exists>req s'. build_llm_request env stream ctx s = (Inr (req, ctx) :: 'e agent_error + _, s') \<and> rq_messages req = ms"
proof -
  have "materialize_llm_request_parts env ctx s = (Inr ((ms, tools), ctx) :: 'e agent_error + _, s)"
    using assms by (simp add: materialize_llm_request_parts_def sx_bind_def sx_return_def)
  then show ?thesis
    by (simp add: build_llm_request_def sx_bind_def clock_now_def sx_update_def sx_return_def split: prod.split)
qed

theorem request_well_typed_witness:
  "\<exists>req ctx' s'. build_llm_request sample_agent_env True (sample_context [sample_user, sample_result, sample_asking, sample_result])
       sample_run_state = (Inr (req, ctx') :: unit agent_error + _, s') \<and>
     length (rq_messages req) = 4 \<and> tool_protocol {} (rq_messages req)"
proof -
  let ?ctx = "sample_context [sample_user, sample_result, sample_asking, sample_result]"
  have sent: "length (llm_messages_from_context sample_agent_env ?ctx) = 3"
    by (simp add: llm_messages_from_context_def sample_context_def sample_call_def Let_def)
  have "request_parts sample_agent_env ?ctx sample_run_state =
      (Inr (plain_message RoleSystem ''be brief'' # llm_messages_from_context sample_agent_env ?ctx, None) :: unit agent_error + _, sample_run_state)"
  proof -
    have "ae_system_prompt sample_agent_env ?ctx sample_run_state = ''be brief''" "pc_available_tools ?ctx = []"
      by (simp_all add: sample_agent_env_def sample_context_def)
    then show ?thesis by (simp add: request_parts_def Let_def)
  qed
  then obtain req s' where r: "build_llm_request sample_agent_env True ?ctx sample_run_state = (Inr (req, ?ctx) :: unit agent_error + _, s')"
    and "rq_messages req = plain_message RoleSystem ''be brief'' # llm_messages_from_context sample_agent_env ?ctx"
    using build_uncompacted[of sample_agent_env ?ctx sample_run_state] by (fastforce simp: sample_context_def)
  with sent have l: "length (rq_messages req) = 4" by simp
  from request_well_typed[OF r] r l show ?thesis by blast
qed

theorem compaction_keeps_exchanges_witness:
  "\<exists>ctx' s'. compact_context sample_agent_env (sample_context (replicate 4 sample_user @ [sample_asking, sample_result] @ replicate 7 sample_user))
       sample_run_state = (Inr ctx' :: unit agent_error + _, s') \<and>
     length (llm_messages_from_context sample_agent_env ctx') = length (pc_messages ctx')"
proof -
  let ?ms = "replicate 4 sample_user @ [sample_asking, sample_result] @ replicate 7 sample_user"
  let ?sent = "sent_message (ae_show_json sample_agent_env) (ae_calls_from sample_agent_env)"
  have users: "tool_protocol {} (replicate n (?sent sample_user) @ ms)" if "tool_protocol {} ms" for n ms
    using that by (induction n) (auto simp: opened_def intro!: tool_protocol.turn)
  have "tool_protocol {} (replicate 7 (?sent sample_user))" using users[OF tool_protocol.closed, of 7] by simp
  then have "tool_protocol {''c1''} (?sent sample_result # replicate 7 (?sent sample_user))"
    by (intro tool_protocol.answer[where i = "''c1''"]) simp_all
  then have "tool_protocol {} (?sent sample_asking # ?sent sample_result # replicate 7 (?sent sample_user))"
    by (intro tool_protocol.turn) (simp_all add: opened_def sample_call_def)
  then have p: "tool_protocol {} (map ?sent (pc_messages (sample_context ?ms)))"
    using users[of _ 4] by (simp add: sample_context_def map_replicate)
  obtain r :: "unit agent_error + processing_context" and s'
    where r: "compact_context sample_agent_env (sample_context ?ms) sample_run_state = (r, s')" by fastforce
  have "RoleSystem \<notin> role_of ` set (tl (pc_messages (sample_context ?ms)))"
    "\<forall>m \<in> set (pc_messages (sample_context ?ms)). role_of m = RoleSystem \<longrightarrow> is_summary m"
    by (auto simp: sample_context_def numeral_eq_Suc)
  from compaction_keeps_exchanges[OF r p this] obtain ctx' where "r = Inr ctx'"
    "llm_messages_from_context sample_agent_env ctx' = map ?sent (pc_messages ctx')" by blast
  with r show ?thesis by (intro exI[of _ ctx'] exI[of _ s']) simp
qed

end
