(* ===== verification/ToolLoop.thy ===== *)
theory ToolLoop
  imports Transcript
begin

text \<open>
  The heuristics of the agent loop (\<open>rockbot-agent/src/agent.rs\<close>): the detector of repeated tool calls, the
  removal of reasoning blocks and the recognition of answers that only announce work. Hash functions
  and \<open>to_lowercase\<close> are arguments.
\<close>

subsection \<open>The loop detector\<close>

record call_signature =
  sg_call_hash :: "64 word"
  sg_tool_name :: string
  sg_result_hash :: "64 word option"

record loop_detector =
  ld_history :: "call_signature list"
  ld_max_history :: nat
  ld_warn_threshold :: nat
  ld_critical_threshold :: nat
  ld_circuit_breaker :: nat

datatype loop_verdict = VerdictOk | VerdictWarning string nat | VerdictCritical string nat

definition detector_new :: loop_detector where
  "detector_new = \<lparr>ld_history = [], ld_max_history = 60, ld_warn_threshold = 5, ld_critical_threshold = 10, ld_circuit_breaker = 30\<rparr>"

definition record_call :: "(string \<Rightarrow> string \<Rightarrow> 64 word) \<Rightarrow> string \<Rightarrow> string \<Rightarrow> loop_detector \<Rightarrow> loop_detector" where
  "record_call hash_pair name arguments d =
     (let h = ld_history d @ [\<lparr>sg_call_hash = hash_pair name arguments, sg_tool_name = name, sg_result_hash = None\<rparr>] in
      d\<lparr>ld_history := if ld_max_history d < length h then tl h else h\<rparr>)"

fun attach_result :: "64 word \<Rightarrow> string \<Rightarrow> call_signature list \<Rightarrow> call_signature list" where
  "attach_result h name [] = []"
| "attach_result h name (sg # sgs) =
     (if sg_tool_name sg = name \<and> sg_result_hash sg = None then sg\<lparr>sg_result_hash := Some h\<rparr> # sgs
      else sg # attach_result h name sgs)"

definition record_result :: "(string \<Rightarrow> 64 word) \<Rightarrow> string \<Rightarrow> string \<Rightarrow> loop_detector \<Rightarrow> loop_detector" where
  "record_result hash_str name content d =
     d\<lparr>ld_history := rev (attach_result (hash_str content) name (rev (ld_history d)))\<rparr>"

fun ping_pong_count :: "'a \<Rightarrow> 'a \<Rightarrow> 'a list \<Rightarrow> nat" where
  "ping_pong_count a b (x # y # zs) = (if x = b \<and> y = a then Suc (ping_pong_count a b zs) else 0)"
| "ping_pong_count a b _ = 0"

definition detector_check :: "(nat \<Rightarrow> string) \<Rightarrow> loop_detector \<Rightarrow> loop_verdict" where
  "detector_check show_nat d =
     (let h = ld_history d; n = length h; tick = [CHR 0x60] in
      if h = [] then VerdictOk
      else if ld_circuit_breaker d \<le> n then
        VerdictCritical (''Global circuit breaker: '' @ show_nat n @ '' tool calls executed without completion.'') n
      else
        let latest = last h;
            streak = length (takeWhile (\<lambda>sg. sg_call_hash sg = sg_call_hash latest) (rev h)) in
        if ld_critical_threshold d \<le> streak then
          VerdictCritical (''Tool '' @ tick @ sg_tool_name latest @ tick @ '' called '' @ show_nat streak @
            '' times in a row with identical arguments.'') streak
        else if ld_warn_threshold d \<le> streak then
          VerdictWarning (''Tool '' @ tick @ sg_tool_name latest @ tick @ '' has been called '' @ show_nat streak @
            '' times with the same arguments. Try a different approach or different parameters.'') streak
        else if 6 \<le> n \<and> sg_call_hash (h ! (n - 2)) \<noteq> sg_call_hash (h ! (n - 1)) then
          let cycles = ping_pong_count (sg_call_hash (h ! (n - 2))) (sg_call_hash (h ! (n - 1))) (map sg_call_hash (rev h));
              pair = tick @ sg_tool_name (h ! (n - 2)) @ tick @ '' and '' @ tick @ sg_tool_name (h ! (n - 1)) @ tick in
          if ld_critical_threshold d div 2 \<le> cycles then
            VerdictCritical (''Ping-pong loop detected: alternating between '' @ pair @ '' ('' @ show_nat cycles @ '' cycles).'') (cycles * 2)
          else if ld_warn_threshold d div 2 \<le> cycles then
            VerdictWarning (''Possible ping-pong: alternating between '' @ pair @ '' ('' @ show_nat cycles @
              '' cycles). Consider a different strategy.'') (cycles * 2)
          else VerdictOk
        else VerdictOk)"

subsection \<open>Reasoning blocks\<close>

definition THINK_OPEN :: string where "THINK_OPEN = ''<think>''"
definition THINK_CLOSE :: string where "THINK_CLOSE = ''</think>''"

function strip_blocks :: "string \<Rightarrow> string \<Rightarrow> string" where
  "strip_blocks result remaining =
     (case find_sub THINK_OPEN remaining of
        None \<Rightarrow> result @ remaining
      | Some start \<Rightarrow>
          (case find_sub THINK_CLOSE (drop start remaining) of
             None \<Rightarrow> result @ take start remaining
           | Some stop \<Rightarrow> strip_blocks (result @ take start remaining) (drop (start + stop + length THINK_CLOSE) remaining)))"
  by pat_completeness auto
termination
  by (relation "measure (\<lambda>(_, remaining). length remaining)")
    (auto simp: THINK_OPEN_def THINK_CLOSE_def dest!: find_sub_Some)

declare strip_blocks.simps [simp del]

definition strip_think_blocks :: "string \<Rightarrow> string" where
  "strip_think_blocks text =
     (let trimmed = trim (replace_all THINK_CLOSE [] (strip_blocks [] text)) in
      if trimmed = [] \<and> trim text \<noteq> [] then ''[Internal reasoning completed]'' else trimmed)"

subsection \<open>Recognising announcements\<close>

definition trim_end :: "string \<Rightarrow> string" where
  "trim_end s = concat (rev (dropWhile is_white (rev (chars s))))"

definition APOSTROPHE :: string where "APOSTROPHE = [CHR 0x27]"

definition contains_any :: "string list \<Rightarrow> string \<Rightarrow> bool" where
  "contains_any pats s \<longleftrightarrow> list_ex (contains s) pats"

definition question_starts :: "string list" where
  "question_starts = [''what is '', ''what are '', ''what'' @ APOSTROPHE @ ''s '', ''who are '', ''who is '', ''how are '', ''how do you '',
     ''how does '', ''can you tell me'', ''what do you '', ''what can you '', ''why '', ''explain '', ''describe '', ''tell me about '', ''do you '']"

definition is_conversational_question :: "(string \<Rightarrow> string) \<Rightarrow> message list \<Rightarrow> bool" where
  "is_conversational_question lower ms =
     (case List.find (\<lambda>m. role_of m = RoleUser) (rev ms) of
        None \<Rightarrow> False
      | Some m \<Rightarrow>
          (case ms_content m of
             Text raw \<Rightarrow>
               let text = trim raw in
               suffix ''?'' text \<and> length text < 200 \<or>
               list_ex (\<lambda>p. prefix p (lower text)) question_starts \<and> length text < 300
           | _ \<Rightarrow> False))"

definition ack_phrases :: "string list" where
  "ack_phrases = [''i'' @ APOSTROPHE @ ''ll '', ''i will '', ''i can '', ''i'' @ APOSTROPHE @ ''d be happy to'', ''let me '', ''sure'', ''of course'',
     ''certainly'', ''i'' @ APOSTROPHE @ ''ll help'', ''i would '', ''i'' @ APOSTROPHE @ ''m going to'', ''here'' @ APOSTROPHE @ ''s what i'',
     ''here is what i'', ''to do this'', ''to accomplish this'', ''first, i'', ''the steps'']"

definition plan_intros :: "string list" where
  "plan_intros = [''here'' @ APOSTROPHE @ ''s what i would do'', ''here is what i would do'', ''here'' @ APOSTROPHE @ ''s the plan'',
     ''here is the plan'', ''plan:'', ''steps:'', ''approach:'', ''i would:'']"

definition looks_like_acknowledgment :: "(string \<Rightarrow> string) \<Rightarrow> string \<Rightarrow> bool" where
  "looks_like_acknowledgment lower text =
     (if length text < 500 \<and> contains_any ack_phrases (lower text) then True
      else contains_any plan_intros (lower text) \<and>
        3 \<le> length (filter (\<lambda>l. prefix ''1.'' (trim l) \<or> prefix ''- '' (trim l) \<or> prefix ''* '' (trim l)) (lines text)) \<and>
        length text < 2000)"

definition continuation_phrases :: "string list" where
  "continuation_phrases = [''let me '', ''now i'' @ APOSTROPHE @ ''ll '', ''now i will '', ''next i'' @ APOSTROPHE @ ''ll '', ''next i will '',
     ''i'' @ APOSTROPHE @ ''ll now '', ''i will now '', ''i need to '', ''i should '', ''let'' @ APOSTROPHE @ ''s '', ''moving on to '',
     ''continuing with '', ''i'' @ APOSTROPHE @ ''m going to '', ''first let me '', ''now let'' @ APOSTROPHE @ ''s '', ''let me also '',
     ''i'' @ APOSTROPHE @ ''ll also '', ''i also need to '', ''more thoroughly'', ''more closely'', ''in more detail'', ''let me check'',
     ''let me look'', ''let me read'', ''let me search'', ''let me explore'', ''let me examine'', ''let me investigate'']"

definition looks_like_continuation_intent :: "(string \<Rightarrow> string) \<Rightarrow> string \<Rightarrow> bool" where
  "looks_like_continuation_intent lower text =
     (if 1000 < length text then False
      else if (suffix '':'' (trim_end text) \<or> suffix ''...'' (trim_end text) \<or> suffix [CHR 0xE2, CHR 0x80, CHR 0xA6] (trim_end text)) \<and>
        contains_any continuation_phrases (lower text) then True
      else contains_any [''let me '', ''now i'' @ APOSTROPHE @ ''ll '', ''i need to '', ''i'' @ APOSTROPHE @ ''m going to ''] (lower text) \<and>
        length text < 500)"

subsection \<open>Lemmas on the detector\<close>

text \<open>What the detector looks for, stated on the sequence of call hashes.\<close>

definition repeats :: "nat \<Rightarrow> 'a list \<Rightarrow> bool" where
  "repeats n hs \<longleftrightarrow> (\<exists>pre h. hs = pre @ replicate n h)"

definition alternates :: "nat \<Rightarrow> 'a list \<Rightarrow> bool" where
  "alternates n hs \<longleftrightarrow> (\<exists>pre a b. a \<noteq> b \<and> hs = pre @ concat (replicate n [a, b]))"

lemma rev_replicate_pair: "rev (concat (replicate n [a, b])) = concat (replicate n [b, a])"
proof -
  have shift: "concat (replicate n [b, a]) @ [b, a] = [b, a] @ concat (replicate n [b, a])" for n
    by (induction n) auto
  show ?thesis by (induction n) (auto simp: shift[simplified])
qed

lemma streak_repeats:
  assumes "hs \<noteq> []"
  shows "n \<le> length (takeWhile (\<lambda>x. x = last hs) (rev hs)) \<longleftrightarrow> repeats n hs"
proof
  assume n: "n \<le> length (takeWhile (\<lambda>x. x = last hs) (rev hs))"
  let ?w = "takeWhile (\<lambda>x. x = last hs) (rev hs)" and ?d = "dropWhile (\<lambda>x. x = last hs) (rev hs)"
  have "replicate (length ?w) (last hs) = ?w" by (rule replicate_length_same) (blast dest: set_takeWhileD)
  moreover have "replicate (length ?w) (last hs) = replicate n (last hs) @ replicate (length ?w - n) (last hs)"
    using n by (simp flip: replicate_add)
  ultimately have "rev hs = replicate n (last hs) @ replicate (length ?w - n) (last hs) @ ?d"
    by (metis append.assoc takeWhile_dropWhile_id)
  then have "rev (rev hs) = rev (replicate n (last hs) @ replicate (length ?w - n) (last hs) @ ?d)" by (rule arg_cong)
  then have "hs = (rev ?d @ replicate (length ?w - n) (last hs)) @ replicate n (last hs)" by simp
  then show "repeats n hs" unfolding repeats_def by (intro exI)
next
  assume "repeats n hs"
  then obtain pre h where h: "hs = pre @ replicate n h" by (auto simp: repeats_def)
  show "n \<le> length (takeWhile (\<lambda>x. x = last hs) (rev hs))"
  proof (cases n)
    case (Suc m)
    then have "last hs = h" by (simp add: h)
    have "takeWhile (\<lambda>x. x = h) (replicate n h @ rev pre) = replicate n h @ takeWhile (\<lambda>x. x = h) (rev pre)"
      by (rule takeWhile_append2) auto
    with h \<open>last hs = h\<close> show ?thesis by simp
  qed simp
qed

lemma short_of_pairs: "length ys < 2 \<Longrightarrow> (\<exists>rest. ys = concat (replicate n [a, b]) @ rest) \<longleftrightarrow> n = 0"
  by (cases n) auto

lemma ping_pong_prefix: "n \<le> ping_pong_count a b ys \<longleftrightarrow> (\<exists>rest. ys = concat (replicate n [b, a]) @ rest)"
proof (induction a b ys arbitrary: n rule: ping_pong_count.induct)
  case (1 a b x y zs)
  show ?case
  proof (cases n)
    case (Suc m)
    with 1[of m] show ?thesis by auto
  qed simp
qed (simp_all add: short_of_pairs)

lemma alternates_end:
  assumes "alternates (Suc n) hs"
  shows "2 * Suc n \<le> length hs" "hs ! (length hs - 2) \<noteq> hs ! (length hs - 1)"
proof -
  obtain pre a b where h: "a \<noteq> b" "hs = pre @ concat (replicate (Suc n) [a, b])" using assms by (auto simp: alternates_def)
  have "concat (replicate (Suc n) [a, b]) = concat (replicate n [a, b]) @ [a, b]"
    by (induction n) auto
  with h have h2: "hs = (pre @ concat (replicate n [a, b])) @ [a, b]" by simp
  have "length (concat (replicate n [a, b])) = 2 * n" by (induction n) auto
  with h2 show "2 * Suc n \<le> length hs" by simp
  from h(1) show "hs ! (length hs - 2) \<noteq> hs ! (length hs - 1)" unfolding h2 by (simp add: nth_append)
qed

lemma cycles_alternate:
  assumes "hs ! (length hs - 2) \<noteq> hs ! (length hs - 1)" "2 \<le> length hs"
  shows "n \<le> ping_pong_count (hs ! (length hs - 2)) (hs ! (length hs - 1)) (rev hs) \<longleftrightarrow> alternates n hs"
proof
  assume "n \<le> ping_pong_count (hs ! (length hs - 2)) (hs ! (length hs - 1)) (rev hs)"
  then obtain rest where "rev hs = concat (replicate n [hs ! (length hs - 1), hs ! (length hs - 2)]) @ rest"
    by (auto simp: ping_pong_prefix)
  then have "hs = rev rest @ concat (replicate n [hs ! (length hs - 2), hs ! (length hs - 1)])"
    by (metis rev_append rev_replicate_pair rev_rev_ident)
  with assms(1) show "alternates n hs" unfolding alternates_def by blast
next
  assume alt: "alternates n hs"
  show "n \<le> ping_pong_count (hs ! (length hs - 2)) (hs ! (length hs - 1)) (rev hs)"
  proof (cases n)
    case (Suc m)
    obtain pre a b where h: "a \<noteq> b" "hs = pre @ concat (replicate n [a, b])" using alt by (auto simp: alternates_def)
    have "concat (replicate (Suc m) [a, b]) = concat (replicate m [a, b]) @ [a, b]"
      by (induction m) auto
    with h Suc have h2: "hs = (pre @ concat (replicate m [a, b])) @ [a, b]" by simp
    have "hs ! (length hs - 2) = a" "hs ! (length hs - 1) = b" unfolding h2 by (simp_all add: nth_append)
    moreover have "rev hs = concat (replicate n [b, a]) @ rev pre" unfolding h(2) by (simp add: rev_replicate_pair)
    ultimately show ?thesis by (auto simp: ping_pong_prefix)
  qed simp
qed

lemma repeats_end: "repeats n hs \<Longrightarrow> 2 \<le> n \<Longrightarrow> hs ! (length hs - 2) = hs ! (length hs - 1)"
  by (auto simp: repeats_def nth_append)

lemma repeats_mono: "repeats n hs \<Longrightarrow> m \<le> n \<Longrightarrow> repeats m hs"
proof -
  assume "repeats n hs" "m \<le> n"
  then obtain pre h where "hs = pre @ replicate (n - m + m) h" by (auto simp: repeats_def)
  then show ?thesis unfolding repeats_def replicate_add by (metis append.assoc)
qed

lemma verdict_shape:
  fixes h :: "call_signature list"
  defines "n \<equiv> length h" and "S \<equiv> length (takeWhile (\<lambda>sg. sg_call_hash sg = sg_call_hash (last h)) (rev h))"
    and "A \<equiv> sg_call_hash (h ! (length h - 2)) \<noteq> sg_call_hash (h ! (length h - 1))"
    and "C \<equiv> ping_pong_count (sg_call_hash (h ! (length h - 2))) (sg_call_hash (h ! (length h - 1))) (map sg_call_hash (rev h))"
  assumes "h \<noteq> []"
  shows "case detector_check show_nat (detector_new\<lparr>ld_history := h\<rparr>) of
      VerdictCritical _ _ \<Rightarrow> 30 \<le> n \<or> 10 \<le> S \<or> S < 5 \<and> 6 \<le> n \<and> A \<and> 5 \<le> C
    | VerdictWarning _ _ \<Rightarrow> n < 30 \<and> S < 10 \<and> (5 \<le> S \<or> 6 \<le> n \<and> A \<and> 2 \<le> C \<and> C < 5)
    | VerdictOk \<Rightarrow> n < 30 \<and> S < 5 \<and> \<not> (6 \<le> n \<and> A \<and> 2 \<le> C)"
proof -
  note unfolded = detector_check_def detector_new_def Let_def
  consider "30 \<le> n" | "n < 30" "10 \<le> S" | "n < 30" "5 \<le> S" "S < 10" | "n < 30" "S < 5" "6 \<le> n" A "5 \<le> C"
    | "n < 30" "S < 5" "6 \<le> n" A "2 \<le> C" "C < 5" | "n < 30" "S < 5" "6 \<le> n" A "C < 2" | "n < 30" "S < 5" "\<not> (6 \<le> n \<and> A)"
    by linarith
  then show ?thesis
  proof cases
    case 1 then show ?thesis using assms(5) by (simp add: unfolded n_def)
  next
    case 2 then show ?thesis using assms(5) by (simp add: unfolded n_def S_def)
  next
    case 3 then show ?thesis using assms(5) by (simp add: unfolded n_def S_def)
  next
    case 4 then show ?thesis using assms(5) by (simp add: unfolded n_def S_def A_def C_def)
  next
    case 5 then show ?thesis using assms(5) by (simp add: unfolded n_def S_def A_def C_def)
  next
    case 6 then show ?thesis using assms(5) by (simp add: unfolded n_def S_def A_def C_def)
  next
    case 7 then show ?thesis using assms(5) by (auto simp: unfolded n_def S_def A_def)
  qed
qed

lemma verdict_patterns:
  assumes "h \<noteq> []" "hs = map sg_call_hash h"
  shows "(case detector_check show_nat (detector_new\<lparr>ld_history := h\<rparr>) of
      VerdictCritical _ _ \<Rightarrow> 30 \<le> length h \<or> repeats 10 hs \<or> alternates 5 hs
    | VerdictWarning _ _ \<Rightarrow> \<not> (30 \<le> length h \<or> repeats 10 hs \<or> alternates 5 hs) \<and> (repeats 5 hs \<or> 6 \<le> length h \<and> alternates 2 hs)
    | VerdictOk \<Rightarrow> \<not> (30 \<le> length h \<or> repeats 10 hs \<or> alternates 5 hs \<or> repeats 5 hs \<or> 6 \<le> length h \<and> alternates 2 hs))"
proof -
  define S where "S = length (takeWhile (\<lambda>sg. sg_call_hash sg = sg_call_hash (last h)) (rev h))"
  define A where "A \<longleftrightarrow> sg_call_hash (h ! (length h - 2)) \<noteq> sg_call_hash (h ! (length h - 1))"
  define C where "C = ping_pong_count (sg_call_hash (h ! (length h - 2))) (sg_call_hash (h ! (length h - 1))) (map sg_call_hash (rev h))"
  note shape = verdict_shape[OF assms(1), of show_nat, folded S_def A_def C_def]
  have hs: "hs \<noteq> []" "length hs = length h" using assms(1) by (simp_all add: assms(2))
  have nth: "sg_call_hash (h ! (length h - 2)) = hs ! (length hs - 2)" "sg_call_hash (h ! (length h - 1)) = hs ! (length hs - 1)"
    using assms(1) by (simp_all add: assms(2))
  have "S = length (takeWhile (\<lambda>x. x = last hs) (rev hs))"
    using assms(1) by (simp add: S_def assms(2) last_map rev_map takeWhile_map comp_def)
  then have streak: "n \<le> S \<longleftrightarrow> repeats n hs" for n
    using streak_repeats[OF hs(1), of n] by simp
  have C: "C = ping_pong_count (hs ! (length hs - 2)) (hs ! (length hs - 1)) (rev hs)"
    unfolding C_def nth by (simp add: assms(2) rev_map)
  have A: "A \<longleftrightarrow> hs ! (length hs - 2) \<noteq> hs ! (length hs - 1)" unfolding A_def nth ..
  have cycles: "n \<le> C \<longleftrightarrow> alternates n hs" if "A" "6 \<le> length h" for n
    unfolding C using that hs by (intro cycles_alternate) (simp_all add: A)
  have alt: "A" "10 \<le> length h" if "alternates 5 hs" using alternates_end[of 4 hs] that by (simp_all add: A hs)
  have alt2: "A" if "alternates 2 hs" using alternates_end(2)[of 1 hs] that by (simp add: A numeral_2_eq_2)
  have same: "\<not> A" if "repeats 5 hs" using repeats_end[OF that] by (simp add: A)
  have ten: "repeats 5 hs" if "repeats 10 hs" using repeats_mono[OF that] by simp
  show ?thesis
  proof (cases "detector_check show_nat (detector_new\<lparr>ld_history := h\<rparr>)")
    case VerdictOk
    with shape have "length h < 30" "\<not> 5 \<le> S" "\<not> (6 \<le> length h \<and> A \<and> 2 \<le> C)" by simp_all
    with VerdictOk cycles[of 2] cycles[of 5] alt alt2 ten streak[of 5]
    show ?thesis by auto
  next
    case (VerdictWarning m c)
    with shape have "length h < 30" "\<not> 10 \<le> S" "5 \<le> S \<or> 6 \<le> length h \<and> A \<and> 2 \<le> C \<and> \<not> 5 \<le> C" by auto
    with VerdictWarning cycles[of 2] cycles[of 5] alt same streak[of 5] streak[of 10]
    show ?thesis by auto
  next
    case (VerdictCritical m c)
    with shape have "30 \<le> length h \<or> 10 \<le> S \<or> 6 \<le> length h \<and> A \<and> 5 \<le> C" by auto
    with VerdictCritical cycles[of 5] streak[of 10]
    show ?thesis by auto
  qed
qed

text \<open>C38. The detector decides the documented patterns, for a history of any length: a critical verdict is given
  exactly when thirty calls were recorded, the last ten calls are the same, or the last ten alternate between two;
  a warning exactly when it is not critical and the last five are the same or, among six or more, the last four
  alternate.\<close>

theorem loop_verdict_exact:
  "(case detector_check show_nat (detector_new\<lparr>ld_history := h\<rparr>) of
      VerdictCritical _ _ \<Rightarrow> 30 \<le> length h \<or> repeats 10 (map sg_call_hash h) \<or> alternates 5 (map sg_call_hash h)
    | VerdictWarning _ _ \<Rightarrow> \<not> (30 \<le> length h \<or> repeats 10 (map sg_call_hash h) \<or> alternates 5 (map sg_call_hash h)) \<and>
        (repeats 5 (map sg_call_hash h) \<or> 6 \<le> length h \<and> alternates 2 (map sg_call_hash h))
    | VerdictOk \<Rightarrow> \<not> (30 \<le> length h \<or> repeats 10 (map sg_call_hash h) \<or> alternates 5 (map sg_call_hash h) \<or>
        repeats 5 (map sg_call_hash h) \<or> 6 \<le> length h \<and> alternates 2 (map sg_call_hash h)))"
proof (cases "h = []")
  case True
  then show ?thesis by (simp add: detector_check_def detector_new_def repeats_def alternates_def)
next
  case False
  then show ?thesis by (rule verdict_patterns[OF _ refl])
qed

subsection \<open>Lemmas on reasoning blocks\<close>

lemma find_sub_first: "c \<notin> set v \<Longrightarrow> find_sub (c # p) (v @ (c # p) @ r) = Some (length v)"
  by (induction v) auto

lemma find_sub_absent: "c \<notin> set v \<Longrightarrow> find_sub (c # p) v = None"
  by (induction v) auto

lemma pieces_absent: "c \<notin> set s \<Longrightarrow> pieces_from (c # p) acc s = [acc @ s]"
proof (induction s arbitrary: acc)
  case Nil
  show ?case by (subst pieces_from.simps) simp
next
  case (Cons d s)
  then have "pieces_from (c # p) acc (d # s) = pieces_from (c # p) (acc @ [d]) s"
    by (subst pieces_from.simps) simp
  with Cons.IH[of "acc @ [d]"] Cons.prems show ?case by simp
qed

text \<open>A text with reasoning blocks between visible parts.\<close>

definition with_blocks :: "(string \<times> string) list \<Rightarrow> string \<Rightarrow> string" where
  "with_blocks parts rest = concat (map (\<lambda>(visible, thought). visible @ THINK_OPEN @ thought @ THINK_CLOSE) parts) @ rest"

lemma strip_with_blocks:
  assumes "\<forall>(visible, thought) \<in> set parts. CHR ''<'' \<notin> set visible \<and> CHR ''<'' \<notin> set thought" "CHR ''<'' \<notin> set rest"
  shows "strip_blocks acc (with_blocks parts rest) = acc @ concat (map fst parts) @ rest"
  using assms(1)
proof (induction parts arbitrary: acc)
  case Nil
  have "find_sub THINK_OPEN rest = None" using assms(2) by (simp add: THINK_OPEN_def find_sub_absent)
  then show ?case by (subst strip_blocks.simps) (simp add: with_blocks_def)
next
  case (Cons x parts)
  obtain v t where x: "x = (v, t)" by fastforce
  let ?tail = "with_blocks parts rest"
  have shape: "with_blocks (x # parts) rest = v @ THINK_OPEN @ t @ THINK_CLOSE @ ?tail" by (simp add: with_blocks_def x)
  have start: "find_sub THINK_OPEN (v @ THINK_OPEN @ t @ THINK_CLOSE @ ?tail) = Some (length v)"
    using Cons.prems find_sub_first[of "CHR ''<''" v "''think>''"] by (simp add: THINK_OPEN_def x)
  have "find_sub THINK_CLOSE ((''think>'' @ t) @ THINK_CLOSE @ ?tail) = Some (length (''think>'' @ t))"
    using Cons.prems find_sub_first[of "CHR ''<''" "''think>'' @ t" "''/think>''" ?tail] unfolding THINK_CLOSE_def by (simp add: x)
  then have stop: "find_sub THINK_CLOSE (THINK_OPEN @ t @ THINK_CLOSE @ ?tail) = Some (7 + length t)"
    by (simp add: THINK_OPEN_def THINK_CLOSE_def)
  have "strip_blocks acc (with_blocks (x # parts) rest) = strip_blocks (acc @ v) ?tail"
    unfolding shape
  proof (subst strip_blocks.simps, simp only: start option.case)
    have n: "length v + (7 + length t) + length THINK_CLOSE = length (v @ THINK_OPEN @ t @ THINK_CLOSE)"
      by (simp add: THINK_OPEN_def THINK_CLOSE_def)
    have "drop (length (v @ THINK_OPEN @ t @ THINK_CLOSE)) ((v @ THINK_OPEN @ t @ THINK_CLOSE) @ ?tail) = ?tail"
      by (rule iffD1[OF append_eq_conv_conj, THEN conjunct2, symmetric]) (rule refl)
    then have "drop (length v + (7 + length t) + length THINK_CLOSE) (v @ THINK_OPEN @ t @ THINK_CLOSE @ ?tail) = ?tail"
      by (simp only: n append.assoc)
    with stop show "(case find_sub THINK_CLOSE (drop (length v) (v @ THINK_OPEN @ t @ THINK_CLOSE @ ?tail)) of
        None \<Rightarrow> acc @ take (length v) (v @ THINK_OPEN @ t @ THINK_CLOSE @ ?tail)
      | Some stop \<Rightarrow> strip_blocks (acc @ take (length v) (v @ THINK_OPEN @ t @ THINK_CLOSE @ ?tail))
          (drop (length v + stop + length THINK_CLOSE) (v @ THINK_OPEN @ t @ THINK_CLOSE @ ?tail))) = strip_blocks (acc @ v) ?tail"
      by simp
  qed
  then show ?case using Cons.IH[of "acc @ v"] Cons.prems by (simp add: x)
qed

text \<open>What the model thinks in closed blocks never reaches the answer: of a text whose parts hold no other tag
  exactly the visible parts are kept, trimmed; if nothing visible is left the answer says so.\<close>

theorem think_blocks_removed:
  assumes "\<forall>(visible, thought) \<in> set parts. CHR ''<'' \<notin> set visible \<and> CHR ''<'' \<notin> set thought" "CHR ''<'' \<notin> set rest"
  shows "strip_think_blocks (with_blocks parts rest) =
     (if trim (concat (map fst parts) @ rest) = [] \<and> trim (with_blocks parts rest) \<noteq> [] then ''[Internal reasoning completed]''
      else trim (concat (map fst parts) @ rest))"
proof -
  have "CHR ''<'' \<notin> set (concat (map fst parts) @ rest)" using assms by fastforce
  then have "replace_all THINK_CLOSE [] (concat (map fst parts) @ rest) = concat (map fst parts) @ rest"
    using pieces_absent[of "CHR ''<''" "concat (map fst parts) @ rest" "''/think>''" "[]"]
    by (simp add: replace_all_def pieces_def THINK_CLOSE_def)
  then show ?thesis
    using strip_with_blocks[OF assms, of "[]"] by (simp add: strip_think_blocks_def Let_def)
qed

text \<open>The answer is empty only for a blank text, so the nudge for an answer that holds nothing but reasoning never
  fires.\<close>

lemma stripped_empty_only_if_blank: "strip_think_blocks text = [] \<Longrightarrow> trim text = []"
  by (auto simp: strip_think_blocks_def Let_def split: if_splits)

theorem think_blocks_removed_witness:
  "strip_think_blocks (with_blocks [(''Hi '', ''secret''), (''there'', ''more'')] ''!'') = ''Hi there!''"
proof -
  have "trim (concat (map fst [(''Hi '', ''secret''), (''there'', ''more'')]) @ ''!'') = ''Hi there!''" by code_simp
  then show ?thesis using think_blocks_removed[of "[(''Hi '', ''secret''), (''there'', ''more'')]" "''!''"] by simp
qed

end
