(* ===== verification/AgentLoop.thy ===== *)
theory AgentLoop
  imports ToolLoop
begin

text \<open>
  The tool loop of an agent (\<open>rockbot-agent/src/agent.rs\<close>): the execution of the tool calls of a response and
  the loop that alternates model and tools until an answer is found. Hooks, the security contexts,
  the workspace and the hash functions are functions of the world; the dispatch to a remote executor,
  which a feature of the build switches on, and all durations are left out.
\<close>

subsection \<open>Execution of tool calls\<close>

datatype hook_event = PreToolCall string string string json | PostToolCall string string string json bool
  | OnError string string string

record 'w tools_env =
  tn_env :: tool_env
  tn_tools :: "string \<rightharpoonup> 'w tool"
  tn_cut :: "nat \<Rightarrow> string \<Rightarrow> string \<Rightarrow> 'w tool_context \<Rightarrow> 'w \<Rightarrow> 'w option"
  tn_security :: "string \<Rightarrow> 'w \<Rightarrow> string + security_context"
  tn_hook :: "hook_event \<Rightarrow> 'w \<Rightarrow> string option \<times> 'w"
  tn_callback :: "(string \<Rightarrow> string \<Rightarrow> json \<Rightarrow> 'w \<Rightarrow> approval_result \<times> 'w) option"
  tn_invoker :: "'w agent_invoker option"
  tn_blackboard :: "'w blackboard_accessor option"
  tn_swarm_id :: "string option"
  tn_workspace :: "processing_context \<Rightarrow> path"
  tn_pretty :: "json \<Rightarrow> string"
  tn_result_json :: "tool_result \<Rightarrow> json"
  tn_hash_pair :: "string \<Rightarrow> string \<Rightarrow> 64 word"
  tn_hash_str :: "string \<Rightarrow> 64 word"

record handoff_signal =
  hs_target_agent_id :: string
  hs_context :: string
  hs_message_override :: "string option"

text \<open>How a call ends: with a message and perhaps a result, or with a hand-off.\<close>

datatype call_outcome = CallDone "execution_result option" message | CallHandoff execution_result message handoff_signal

definition MAX_TOOL_RESULT_CHARS :: nat where "MAX_TOOL_RESULT_CHARS = 30000"
definition MAX_PREVIEW_CHARS :: nat where "MAX_PREVIEW_CHARS = 500"

definition tool_content :: "'w tools_env \<Rightarrow> (nat \<Rightarrow> string) \<Rightarrow> tool_result \<Rightarrow> string" where
  "tool_content tn show_nat r = (case r of
     TextResult c \<Rightarrow> truncate_content show_nat c MAX_TOOL_RESULT_CHARS
   | ErrorResult m \<Rightarrow> ''Error: '' @ m
   | JsonResult d \<Rightarrow> truncate_content show_nat (tn_pretty tn d) MAX_TOOL_RESULT_CHARS
   | FileResult p _ _ \<Rightarrow> ''[File: '' @ p @ '']''
   | HandoffResult _ _ _ \<Rightarrow> [])"

definition tool_result_preview :: "(json \<Rightarrow> string) \<Rightarrow> (nat \<Rightarrow> string) \<Rightarrow> tool_result \<Rightarrow> string" where
  "tool_result_preview show_json show_nat r = (case r of
     TextResult c \<Rightarrow> truncate_content show_nat c MAX_PREVIEW_CHARS
   | ErrorResult m \<Rightarrow> truncate_content show_nat (''Error: '' @ m) MAX_PREVIEW_CHARS
   | JsonResult d \<Rightarrow> truncate_content show_nat (show_json d) MAX_PREVIEW_CHARS
   | FileResult p _ _ \<Rightarrow> ''[File: '' @ p @ '']''
   | HandoffResult t _ _ \<Rightarrow> ''[Handoff to '' @ t @ '']'')"

definition fire :: "'w tools_env \<Rightarrow> hook_event \<Rightarrow> ('db, 'w, 'e, string option) ax" where
  "fire tn ev s = (case tn_hook tn ev (ag_world s) of (r, w) \<Rightarrow> (Inr r, s\<lparr>ag_world := w\<rparr>))"

definition result_message ::
  "('db, 'tx, 'v, 'e, 'w) agent_env \<Rightarrow> string \<Rightarrow> tool_call \<Rightarrow> string \<Rightarrow> ('db, 'w, 'e, message) ax" where
  "result_message env sid tc text =
     fresh_message env (\<lambda>uid now. with_session_id sid (message_tool_result uid now (tcl_id tc) (tcl_name tc) text))"

text \<open>A call that is refused before it runs: its message, and an event with a preview.\<close>

definition refuse_call ::
  "('db, 'tx, 'v, 'e, 'w) agent_env \<Rightarrow> bool \<Rightarrow> string \<Rightarrow> tool_call \<Rightarrow> string \<Rightarrow> string \<Rightarrow> ('db, 'w, 'e, call_outcome) ax" where
  "refuse_call env progress sid tc text preview =
     sx_bind (result_message env sid tc text) (\<lambda>m.
     sx_bind (sx_update (emit progress [ToolDone (tcl_name tc) (Some preview) False])) (\<lambda>_. sx_return (CallDone None m)))"

definition breakpoint_step ::
  "('db, 'tx, 'v, 'e, 'w) agent_env \<Rightarrow> 'w tools_env \<Rightarrow> tool_call \<Rightarrow> json \<Rightarrow> ('db, 'w, 'e, approval_result) ax" where
  "breakpoint_step env tn tc params s =
     (if tcl_name tc \<notin> set (cf_breakpoint_tools (ae_config env)) then (Inr Approved, s)
      else (case tn_callback tn of
          Some callback \<Rightarrow> (case callback (tcl_name tc) (cf_id (ae_config env)) params (ag_world s) of
              (a, w) \<Rightarrow> (Inr a, s\<lparr>ag_world := w\<rparr>))
        | None \<Rightarrow> (Inr (ApprovalDenied (''Tool '' @ APOSTROPHE @ tcl_name tc @ APOSTROPHE @
            '' requires human approval, but no approval callback is configured'')), s)))"

definition tool_context_of ::
  "('db, 'tx, 'v, 'e, 'w) agent_env \<Rightarrow> 'w tools_env \<Rightarrow> string \<Rightarrow> processing_context \<Rightarrow> security_context \<Rightarrow> 'w tool_context" where
  "tool_context_of env tn sid ctx security = \<lparr>tc_session_id = sid, tc_agent_id = cf_id (ae_config env),
     tc_workspace_path = tn_workspace tn ctx, tc_security_context = security, tc_command_allowlist = [],
     tc_approval_callback = tn_callback tn, tc_agent_invoker = tn_invoker tn, tc_delegation_depth = pc_delegation_depth ctx,
     tc_blackboard = tn_blackboard tn, tc_swarm_id = tn_swarm_id tn\<rparr>"

text \<open>The call runs under the tool timeout of the agent.\<close>

definition timed_tool ::
  "('db, 'tx, 'v, 'e, 'w) agent_env \<Rightarrow> 'w tools_env \<Rightarrow> tool_call \<Rightarrow> 'w tool_context \<Rightarrow>
   ('db, 'w, 'e, (tool_error + execution_result) option) ax" where
  "timed_tool env tn tc tctx s =
     (case tn_cut tn (cf_tool_timeout_secs (ae_config env)) (tcl_name tc) (tcl_arguments tc) tctx (ag_world s) of
        Some w \<Rightarrow> (Inr None, s\<lparr>ag_world := w\<rparr>)
      | None \<Rightarrow> (case execute_tool (tn_env tn) (tn_tools tn) (tcl_name tc) (tcl_arguments tc) tctx (ag_world s) of
          (r, w) \<Rightarrow> (Inr (Some r), s\<lparr>ag_world := w\<rparr>)))"

definition finish_call ::
  "('db, 'tx, 'v, 'e, 'w) agent_env \<Rightarrow> 'w tools_env \<Rightarrow> bool \<Rightarrow> string \<Rightarrow> tool_call \<Rightarrow> (tool_error + execution_result) option \<Rightarrow>
   ('db, 'w, 'e, call_outcome) ax" where
  "finish_call env tn progress sid tc outcome =
     (let agent = cf_id (ae_config env); name = tcl_name tc; shown = le_show (ae_llm env) in
      case outcome of
        None \<Rightarrow>
          let text = ''Tool execution timed out after '' @ shown (cf_tool_timeout_secs (ae_config env)) @ ''s. The operation was cancelled.'' in
          sx_bind (result_message env sid tc text) (\<lambda>m.
          sx_bind (sx_update (emit progress [ToolDone name (Some text) False])) (\<lambda>_.
          sx_return (CallDone (Some \<lparr>er_tool_name = name, er_result = ErrorResult text, er_success = False\<rparr>) m)))
      | Some (Inr result) \<Rightarrow>
          sx_bind (fire tn (PostToolCall agent sid name (tn_result_json tn (er_result result)) (er_success result))) (\<lambda>_.
            case er_result result of
              HandoffResult target context override \<Rightarrow>
                sx_bind (result_message env sid tc (''Transferring conversation to agent '' @ APOSTROPHE @ target @ APOSTROPHE @ ''...'')) (\<lambda>m.
                sx_return (CallHandoff result m \<lparr>hs_target_agent_id = target, hs_context = context, hs_message_override = override\<rparr>))
            | _ \<Rightarrow>
                sx_bind (result_message env sid tc (tool_content tn shown (er_result result))) (\<lambda>m. sx_return (CallDone (Some result) m)))
      | Some (Inl e) \<Rightarrow>
          let text = te_show (tn_env tn) e in
          sx_bind (fire tn (PostToolCall agent sid name (JObj [(''error'', JStr text)]) False)) (\<lambda>_.
          sx_bind (fire tn (OnError agent sid (''Tool '' @ APOSTROPHE @ name @ APOSTROPHE @ '' failed: '' @ text))) (\<lambda>_.
          refuse_call env progress sid tc (''Tool execution failed: '' @ text) (''Tool execution failed: '' @ text))))"

definition execute_call ::
  "('db, 'tx, 'v, 'e, 'w) agent_env \<Rightarrow> 'w tools_env \<Rightarrow> bool \<Rightarrow> string \<Rightarrow> processing_context \<Rightarrow> tool_call \<Rightarrow>
   ('db, 'w, 'e, call_outcome) ax" where
  "execute_call env tn progress sid ctx tc =
     (let name = tcl_name tc;
          params = (case te_json (tn_env tn) (tcl_arguments tc) of Some v \<Rightarrow> v | None \<Rightarrow> JNull) in
      sx_bind (sx_update (bump_stats (\<lambda>st. st\<lparr>as_tool_executions := wadd (as_tool_executions st) 1\<rparr>))) (\<lambda>_.
      sx_bind (fire tn (PreToolCall (cf_id (ae_config env)) sid name params)) (\<lambda>hook.
        case hook of
          Some reason \<Rightarrow> refuse_call env progress sid tc (''Tool call aborted by hook: '' @ reason) (''Tool call aborted by hook: '' @ reason)
        | None \<Rightarrow>
            sx_bind (breakpoint_step env tn tc params) (\<lambda>approval.
              case approval of
                ApprovalDenied reason \<Rightarrow> refuse_call env progress sid tc (''Tool execution denied: '' @ reason)
                  (''Tool '' @ APOSTROPHE @ name @ APOSTROPHE @ '' denied: '' @ reason)
              | ApprovalPending i \<Rightarrow> refuse_call env progress sid tc (''Approval pending: '' @ i)
                  (''Tool '' @ APOSTROPHE @ name @ APOSTROPHE @ '' awaiting approval ('' @ i @ '')'')
              | Approved \<Rightarrow>
                  (\<lambda>s. case tn_security tn sid (ag_world s) of
                     Inl e \<Rightarrow> (Inl (ExecutionError e), s)
                   | Inr security \<Rightarrow>
                       sx_bind (timed_tool env tn tc (tool_context_of env tn sid ctx security)) (finish_call env tn progress sid tc) s)))))"

text \<open>The calls of a response one after the other; a hand-off ends them.\<close>

fun execute_tool_calls ::
  "('db, 'tx, 'v, 'e, 'w) agent_env \<Rightarrow> 'w tools_env \<Rightarrow> bool \<Rightarrow> string \<Rightarrow> processing_context \<Rightarrow> tool_call list \<Rightarrow>
   ('db, 'w, 'e, execution_result list \<times> message list \<times> handoff_signal option) ax" where
  "execute_tool_calls env tn progress sid ctx [] = sx_return ([], [], None)"
| "execute_tool_calls env tn progress sid ctx (tc # tcs) =
     sx_bind (execute_call env tn progress sid ctx tc) (\<lambda>outcome.
       case outcome of
         CallHandoff result m signal \<Rightarrow> sx_return ([result], [m], Some signal)
       | CallDone result m \<Rightarrow>
           sx_bind (execute_tool_calls env tn progress sid ctx tcs) (\<lambda>(results, ms, signal).
             sx_return ((case result of Some r \<Rightarrow> r # results | None \<Rightarrow> results), m # ms, signal)))"

subsection \<open>The loop\<close>

record loop_state =
  lo_context :: processing_context
  lo_response :: chat_response
  lo_results :: "execution_result list"
  lo_usage :: token_usage
  lo_nudges :: nat
  lo_detector :: loop_detector

definition add_usage :: "token_usage \<Rightarrow> token_usage \<Rightarrow> token_usage" where
  "add_usage a b = \<lparr>us_prompt = wadd (us_prompt a) (us_prompt b), us_completion = wadd (us_completion a) (us_completion b),
     us_total = wadd (us_total a) (us_total b)\<rparr>"

definition max_tool_iterations :: "agent_config \<Rightarrow> nat \<Rightarrow> nat" where
  "max_tool_iterations cf tool_count =
     (case cf_max_tool_calls cf of
        Some n \<Rightarrow> if 0 < n then n else max 32 (min 160 (32 + tool_count * 8))
      | None \<Rightarrow> max 32 (min 160 (32 + tool_count * 8)))"

definition MAX_CONSECUTIVE_NUDGES :: nat where "MAX_CONSECUTIVE_NUDGES = 2"

definition response_calls :: "chat_response \<Rightarrow> tool_call list" where
  "response_calls r = (case rs_choices r of [] \<Rightarrow> [] | c # _ \<Rightarrow>
     (case lm_tool_calls (ch_message c) of Some cs \<Rightarrow> cs | None \<Rightarrow> []))"

text \<open>\<open>&s[..n]\<close>, which panics inside a character.\<close>

definition slice_to :: "string \<Rightarrow> nat \<Rightarrow> string option" where
  "slice_to s n = map_option (\<lambda>_. take n s) (slice_from s n)"

definition EM_DASH :: string where "EM_DASH = [CHR 0xE2, CHR 0x80, CHR 0x94]"
definition ELLIPSIS :: string where "ELLIPSIS = [CHR 0xE2, CHR 0x80, CHR 0xA6]"

text \<open>Why the model is asked to go on.\<close>

datatype nudge = EmptyAfterWork | MidTaskPause | InitialAck

definition nudge_kind :: "(string \<Rightarrow> string) \<Rightarrow> execution_result list \<Rightarrow> string \<Rightarrow> nudge option" where
  "nudge_kind lower results visible =
     (if results \<noteq> [] \<and> visible = [] then Some EmptyAfterWork
      else if results \<noteq> [] \<and> visible \<noteq> [] \<and> looks_like_continuation_intent lower visible then Some MidTaskPause
      else if results = [] \<and> visible \<noteq> [] \<and> looks_like_acknowledgment lower visible then Some InitialAck
      else None)"

definition nudge_text :: "nudge \<Rightarrow> nat \<Rightarrow> string" where
  "nudge_text k n = (case k of
     EmptyAfterWork \<Rightarrow>
       if n = 1 then ''You executed tools but did not provide a visible response. You MUST respond with your findings, analysis, or next actions. Do not only think internally '' @ EM_DASH @ '' produce visible output for the user.''
       else if n = 2 then ''You MUST provide a response NOW. Summarize what you found from the tool calls you made. The user cannot see your internal reasoning.''
       else ''FINAL WARNING: Produce a visible response immediately. Summarize your findings or continue working with tool calls.''
   | MidTaskPause \<Rightarrow>
       if n = 1 then ''You indicated you want to continue but stopped calling tools. Continue working '' @ EM_DASH @ '' use your tools now to take the next step.''
       else if n = 2 then ''You MUST continue executing. Call a tool right now to make progress. Do not describe what you plan to do '' @ EM_DASH @ '' just do it.''
       else ''FINAL WARNING: You have tools available and work remaining. Call a tool immediately or this task will be considered complete.''
   | InitialAck \<Rightarrow>
       if n = 1 then ''You described what you would do but did not take action. Use your tools now to accomplish the task. Do not describe steps '' @ EM_DASH @ '' execute them.''
       else if n = 2 then ''You are still not using tools. You MUST call a tool right now. Start with the first concrete action needed. Do not output any text '' @ EM_DASH @ '' only tool calls.''
       else ''FINAL WARNING: Call a tool immediately or this task will be considered failed. Pick the single most important action and execute it now.'')"

text \<open>What an iteration decides: another iteration, the text of the answer, or a hand-off.\<close>

datatype loop_decision = Again loop_state | Answer string loop_state | HandOff string loop_state

definition from_llm ::
  "('db, 'tx, 'v, 'e, 'w) agent_env \<Rightarrow> string \<Rightarrow> llm_message \<Rightarrow> ('db, 'w, 'e, message) ax" where
  "from_llm env sid lm = fresh_message env (\<lambda>uid now. from_llm_message (ae_calls_to env) uid now lm sid (cf_id (ae_config env)))"

definition said :: "('db, 'tx, 'v, 'e, 'w) agent_env \<Rightarrow> string \<Rightarrow> message_role \<Rightarrow> string \<Rightarrow> ('db, 'w, 'e, message) ax" where
  "said env sid role text =
     fresh_message env (\<lambda>uid now. with_role role (with_agent_id (cf_id (ae_config env)) (with_session_id sid (message_text uid now text))))"

definition push :: "message \<Rightarrow> processing_context \<Rightarrow> processing_context" where
  "push m ctx = ctx\<lparr>pc_messages := pc_messages ctx @ [m]\<rparr>"

text \<open>The next request, sent to the model.\<close>

definition ask_model ::
  "('db, 'tx, 'v, 'e, 'w) agent_env \<Rightarrow> bool \<Rightarrow> loop_state \<Rightarrow> ('db, 'w, 'e, ('e agent_error + chat_response) \<times> loop_state) ax" where
  "ask_model env progress lo =
     sx_bind (build_llm_request env False (lo_context lo)) (\<lambda>(req, ctx).
       let lo = lo\<lparr>lo_context := ctx\<rparr> in
       (\<lambda>s. case call_llm_streaming_with_retry (ae_llm env) progress req s of
          (Inl e, s) \<Rightarrow> (Inr (Inl e, lo), s)
        | (Inr r, s) \<Rightarrow> (Inr (Inr r, lo\<lparr>lo_response := r, lo_usage := add_usage (lo_usage lo) (rs_usage r)\<rparr>), s)))"

text \<open>What the model said is kept in the context; when the next call fails the loop ends with the visible text.\<close>

definition keep_reply ::
  "('db, 'tx, 'v, 'e, 'w) agent_env \<Rightarrow> string \<Rightarrow> loop_state \<Rightarrow> ('db, 'w, 'e, loop_state) ax" where
  "keep_reply env sid lo =
     (if first_content (lo_response lo) = [] then sx_return lo
      else sx_bind (from_llm env sid (plain_message RoleAssistant (first_content (lo_response lo)))) (\<lambda>m.
        sx_return (lo\<lparr>lo_context := push m (lo_context lo)\<rparr>)))"

definition nudged :: "string \<Rightarrow> 'e agent_error + chat_response \<Rightarrow> loop_state \<Rightarrow> loop_decision" where
  "nudged visible answer lo = (case answer of Inr _ \<Rightarrow> Again lo | Inl _ \<Rightarrow> Answer visible lo)"

definition nudge_step ::
  "('db, 'tx, 'v, 'e, 'w) agent_env \<Rightarrow> bool \<Rightarrow> string \<Rightarrow> nudge \<Rightarrow> string \<Rightarrow> loop_state \<Rightarrow> ('db, 'w, 'e, loop_decision) ax" where
  "nudge_step env progress sid kind visible lo0 =
     sx_bind (keep_reply env sid (lo0\<lparr>lo_nudges := lo_nudges lo0 + 1\<rparr>)) (\<lambda>lo.
     sx_bind (said env sid RoleUser (nudge_text kind (lo_nudges lo))) (\<lambda>m.
     sx_bind (ask_model env progress (lo\<lparr>lo_context := push m (lo_context lo)\<rparr>)) (\<lambda>(answer, lo).
       sx_return (nudged visible answer lo))))"

definition summary_line :: "execution_result \<Rightarrow> string option" where
  "summary_line r =
     map_option (\<lambda>preview. ''  '' @ (if er_success r then [CHR 0xE2, CHR 0x9C, CHR 0x93] else [CHR 0xE2, CHR 0x9C, CHR 0x97]) @ '' '' @
         er_tool_name r @ preview)
       (case er_result r of
          TextResult c \<Rightarrow>
            let t = trim c in
            if 200 < length t then map_option (\<lambda>p. '': '' @ p @ ELLIPSIS) (slice_to t 200)
            else if t \<noteq> [] then Some ('': '' @ t) else Some []
        | ErrorResult m \<Rightarrow> Some ('': '' @ m)
        | _ \<Rightarrow> Some [])"

fun all_lines :: "execution_result list \<Rightarrow> string list option" where
  "all_lines [] = Some []"
| "all_lines (r # rs) = Option.bind (summary_line r) (\<lambda>l. map_option ((#) l) (all_lines rs))"

definition final_text ::
  "('db, 'tx, 'v, 'e, 'w) agent_env \<Rightarrow> execution_result list \<Rightarrow> string \<Rightarrow> ('db, 'w, 'e, string) ax" where
  "final_text env results visible =
     (if visible \<noteq> [] \<or> results = [] then sx_return visible
      else (case all_lines results of
          None \<Rightarrow> sx_throw Panicked
        | Some ls \<Rightarrow> sx_return (''Completed '' @ le_show (ae_llm env) (length results) @
            '' tool call(s). The model did not produce a visible summary.'' @ [CHR 0x0A] @ ''Tools executed:'' @ [CHR 0x0A] @
            join_with [CHR 0x0A] ls)))"

text \<open>An iteration without tool calls.\<close>

definition text_step ::
  "('db, 'tx, 'v, 'e, 'w) agent_env \<Rightarrow> bool \<Rightarrow> string \<Rightarrow> loop_state \<Rightarrow> ('db, 'w, 'e, loop_decision) ax" where
  "text_step env progress sid lo =
     (let visible = strip_think_blocks (first_content (lo_response lo)); lower = le_lower (ae_llm env) in
      case nudge_kind lower (lo_results lo) visible of
        Some kind \<Rightarrow>
          if lo_nudges lo < MAX_CONSECUTIVE_NUDGES \<and> \<not> is_conversational_question lower (pc_messages (lo_context lo))
          then nudge_step env progress sid kind visible lo
          else sx_bind (final_text env (lo_results lo) visible) (\<lambda>t. sx_return (Answer t lo))
      | None \<Rightarrow> sx_bind (final_text env (lo_results lo) visible) (\<lambda>t. sx_return (Answer t lo)))"

text \<open>The exchange of an iteration, recorded in the session and in the context: the message of the assistant
  first, then the results.\<close>

definition record_message ::
  "('db, 'tx, 'v, 'e, 'w) agent_env \<Rightarrow> string \<Rightarrow> message \<Rightarrow> processing_context \<Rightarrow> ('db, 'w, 'e, processing_context) ax" where
  "record_message env sid m ctx =
     sx_bind (on_sessions (add_message (ae_sessions env) sid m)) (\<lambda>_. sx_return (push m ctx))"

fun record_all ::
  "('db, 'tx, 'v, 'e, 'w) agent_env \<Rightarrow> string \<Rightarrow> message list \<Rightarrow> processing_context \<Rightarrow> ('db, 'w, 'e, processing_context) ax" where
  "record_all env sid [] ctx = sx_return ctx"
| "record_all env sid (m # ms) ctx = sx_bind (record_message env sid m ctx) (record_all env sid ms)"

definition record_exchange ::
  "('db, 'tx, 'v, 'e, 'w) agent_env \<Rightarrow> string \<Rightarrow> message list \<Rightarrow> loop_state \<Rightarrow> ('db, 'w, 'e, loop_state) ax" where
  "record_exchange env sid ms lo =
     sx_bind (case rs_choices (lo_response lo) of
          [] \<Rightarrow> sx_return (lo_context lo)
        | c # _ \<Rightarrow> sx_bind (from_llm env sid \<lparr>lm_role = RoleAssistant, lm_content = lm_content (ch_message c), lm_images = [],
              lm_tool_calls = lm_tool_calls (ch_message c), lm_tool_call_id = None\<rparr>)
            (\<lambda>m. record_message env sid m (lo_context lo))) (\<lambda>ctx.
     sx_bind (record_all env sid ms ctx) (\<lambda>ctx. sx_return (lo\<lparr>lo_context := ctx\<rparr>)))"

definition message_text_of :: "('db, 'tx, 'v, 'e, 'w) agent_env \<Rightarrow> message \<Rightarrow> string" where
  "message_text_of env m = text_or_empty (ae_show_json env) m"

definition outcome_events ::
  "('db, 'tx, 'v, 'e, 'w) agent_env \<Rightarrow> execution_result list \<Rightarrow> message list \<Rightarrow> progress_event list" where
  "outcome_events env results ms = concat (map (\<lambda>(r, m).
     [ToolOutput (er_tool_name r) (message_text_of env m) (er_success r),
      ToolDone (er_tool_name r) (Some (tool_result_preview (ae_show_json env) (le_show (ae_llm env)) (er_result r))) (er_success r)])
     (zip results ms))"

definition loop_hint :: "string \<Rightarrow> string" where
  "loop_hint message = [CHR 0xE2, CHR 0x9A, CHR 0xA0] @ '' LOOP DETECTED: '' @ message @ [CHR 0x0A] @
     ''You are repeating the same actions without progress. Stop and reconsider your approach. Try a completely different strategy.''"

definition go_on :: "'e agent_error + chat_response \<Rightarrow> loop_state \<Rightarrow> ('db, 'w, 'e, loop_decision) ax" where
  "go_on answer lo = (case answer of Inr _ \<Rightarrow> sx_return (Again lo) | Inl e \<Rightarrow> sx_throw e)"

text \<open>The part of an iteration after the tools ran without a hand-off.\<close>

definition verdict_step ::
  "('db, 'tx, 'v, 'e, 'w) agent_env \<Rightarrow> bool \<Rightarrow> string \<Rightarrow> message list \<Rightarrow> loop_state \<Rightarrow> ('db, 'w, 'e, loop_decision) ax" where
  "verdict_step env progress sid ms lo =
     (let shown = le_show (ae_llm env) in
      case detector_check shown (lo_detector lo) of
        VerdictCritical message _ \<Rightarrow>
          sx_bind (record_exchange env sid ms lo) (\<lambda>lo.
            sx_return (Answer (''Tool execution stopped: '' @ message @ [CHR 0x0A, CHR 0x0A] @ ''Completed '' @ shown (length (lo_results lo)) @
              '' tool call(s) before the loop was detected.'') lo))
      | VerdictWarning message _ \<Rightarrow>
          sx_bind (record_exchange env sid ms lo) (\<lambda>lo.
          sx_bind (said env sid RoleUser (loop_hint message)) (\<lambda>m.
          sx_bind (ask_model env progress (lo\<lparr>lo_context := push m (lo_context lo)\<rparr>)) (\<lambda>(answer, lo).
            go_on answer lo)))
      | VerdictOk \<Rightarrow>
          sx_bind (record_exchange env sid ms lo) (\<lambda>lo.
            let ctx = refresh_context_token_count env (lo_context lo) in
            sx_bind (if compaction_threshold (ae_config env) < pc_token_count ctx then compact_context env ctx else sx_return ctx) (\<lambda>ctx.
            sx_bind (ask_model env progress (lo\<lparr>lo_context := ctx\<rparr>)) (\<lambda>(answer, lo).
              go_on answer lo))))"

definition handoff_step ::
  "('db, 'tx, 'v, 'e, 'w) agent_env \<Rightarrow> bool \<Rightarrow> string \<Rightarrow> execution_result list \<Rightarrow> message list \<Rightarrow> handoff_signal \<Rightarrow> loop_state \<Rightarrow>
   ('db, 'w, 'e, loop_decision) ax" where
  "handoff_step env progress sid results ms signal lo =
     (let preview = (if length (hs_context signal) \<le> 100 then Some (hs_context signal)
            else map_option (\<lambda>p. p @ ''...'') (slice_to (hs_context signal) 100)) in
      if progress \<and> preview = None then sx_throw Panicked
      else
        sx_bind (sx_update (emit progress [HandoffEvent (cf_id (ae_config env)) (hs_target_agent_id signal)
            (case preview of Some p \<Rightarrow> p | None \<Rightarrow> [])])) (\<lambda>_.
        sx_bind (record_exchange env sid ms lo) (\<lambda>lo.
        sx_return (HandOff (''[Handing off to agent '' @ APOSTROPHE @ hs_target_agent_id signal @ APOSTROPHE @ '']'')
          (lo\<lparr>lo_results := lo_results lo @ results\<rparr>)))))"

definition record_calls :: "'w tools_env \<Rightarrow> tool_call list \<Rightarrow> loop_detector \<Rightarrow> loop_detector" where
  "record_calls tn calls d = fold (\<lambda>tc. record_call (tn_hash_pair tn) (tcl_name tc) (tcl_arguments tc)) calls d"

definition record_results ::
  "('db, 'tx, 'v, 'e, 'w) agent_env \<Rightarrow> 'w tools_env \<Rightarrow> execution_result list \<Rightarrow> message list \<Rightarrow> loop_detector \<Rightarrow> loop_detector" where
  "record_results env tn results ms d =
     fold (\<lambda>(r, m). record_result (tn_hash_str tn) (er_tool_name r) (message_text_of env m)) (zip results ms) d"

text \<open>An iteration with tool calls.\<close>

definition tool_step ::
  "('db, 'tx, 'v, 'e, 'w) agent_env \<Rightarrow> 'w tools_env \<Rightarrow> bool \<Rightarrow> string \<Rightarrow> loop_state \<Rightarrow> ('db, 'w, 'e, loop_decision) ax" where
  "tool_step env tn progress sid lo0 =
     (let calls = response_calls (lo_response lo0);
          lo = lo0\<lparr>lo_nudges := 0, lo_detector := record_calls tn calls (lo_detector lo0)\<rparr> in
      sx_bind (sx_update (emit progress (map (\<lambda>tc. ToolStart (tcl_name tc)) calls))) (\<lambda>_.
      sx_bind (execute_tool_calls env tn progress sid (lo_context lo) calls) (\<lambda>(results, ms, handoff).
      sx_bind (sx_update (emit progress (outcome_events env results ms))) (\<lambda>_.
        case handoff of
          Some signal \<Rightarrow> handoff_step env progress sid results ms signal lo
        | None \<Rightarrow> verdict_step env progress sid ms
            (lo\<lparr>lo_detector := record_results env tn results ms (lo_detector lo), lo_results := lo_results lo @ results\<rparr>)))))"

definition loop_step ::
  "('db, 'tx, 'v, 'e, 'w) agent_env \<Rightarrow> 'w tools_env \<Rightarrow> bool \<Rightarrow> string \<Rightarrow> loop_state \<Rightarrow> ('db, 'w, 'e, loop_decision) ax" where
  "loop_step env tn progress sid lo =
     sx_bind (sx_update (emit progress [UsageEvent (lo_usage lo)])) (\<lambda>_.
       if response_calls (lo_response lo) \<noteq> [] then tool_step env tn progress sid lo else text_step env progress sid lo)"

text \<open>The loop, by the number of iterations that are left. A hand-off returns its message; every other end goes on
  with the text of the answer.\<close>

fun agent_loop ::
  "('db, 'tx, 'v, 'e, 'w) agent_env \<Rightarrow> 'w tools_env \<Rightarrow> bool \<Rightarrow> string \<Rightarrow> nat \<Rightarrow> nat \<Rightarrow> loop_state \<Rightarrow>
   ('db, 'w, 'e, (string + string) \<times> loop_state) ax" where
  "agent_loop env tn progress sid limit 0 lo =
     sx_return (Inr (''Reached the maximum number of tool iterations ('' @ le_show (ae_llm env) limit @ ''). Completed '' @
       le_show (ae_llm env) (length (lo_results lo)) @ '' tool call(s) before stopping.''), lo)"
| "agent_loop env tn progress sid limit (Suc left) lo =
     sx_bind (loop_step env tn progress sid lo) (\<lambda>decision. case decision of
         Again lo \<Rightarrow> agent_loop env tn progress sid limit left lo
       | Answer text lo \<Rightarrow> sx_return (Inr text, lo)
       | HandOff text lo \<Rightarrow> sx_return (Inl text, lo))"

definition process_llm_response ::
  "('db, 'tx, 'v, 'e, 'w) agent_env \<Rightarrow> 'w tools_env \<Rightarrow> bool \<Rightarrow> string \<Rightarrow> processing_context \<Rightarrow> chat_response \<Rightarrow>
   ('db, 'w, 'e, message \<times> execution_result list \<times> token_usage \<times> processing_context) ax" where
  "process_llm_response env tn progress sid ctx response =
     (let limit = max_tool_iterations (ae_config env) (length (pc_available_tools ctx)) in
      sx_bind (agent_loop env tn progress sid limit limit
          \<lparr>lo_context = ctx, lo_response = response, lo_results = [], lo_usage = rs_usage response, lo_nudges = 0,
           lo_detector = detector_new\<rparr>) (\<lambda>(text, lo).
      sx_bind (said env sid RoleAssistant (case text of Inl t \<Rightarrow> t | Inr t \<Rightarrow> strip_think_blocks t)) (\<lambda>m.
      sx_return (m, lo_results lo, lo_usage lo, lo_context lo))))"

subsection \<open>Lemmas on the end of the loop\<close>

definition detector_ok :: "loop_detector \<Rightarrow> bool" where
  "detector_ok d \<longleftrightarrow> ld_max_history d = 60 \<and> ld_circuit_breaker d = 30 \<and> length (ld_history d) \<le> 60"

lemma detector_ok_new [simp]: "detector_ok detector_new"
  by (simp add: detector_ok_def detector_new_def)

lemma record_call_ok:
  assumes "detector_ok d"
  shows "detector_ok (record_call f name args d)" "length (ld_history (record_call f name args d)) = min 60 (length (ld_history d) + 1)"
  using assms by (auto simp: detector_ok_def record_call_def Let_def)

lemma record_calls_ok:
  "detector_ok d \<Longrightarrow> detector_ok (record_calls tn calls d) \<and>
     length (ld_history (record_calls tn calls d)) = min 60 (length (ld_history d) + length calls)"
proof (induction calls arbitrary: d)
  case (Cons tc calls)
  let ?d = "record_call (tn_hash_pair tn) (tcl_name tc) (tcl_arguments tc) d"
  have "record_calls tn (tc # calls) d = record_calls tn calls ?d" by (simp add: record_calls_def)
  with Cons.IH[of ?d] record_call_ok[OF Cons.prems, of "tn_hash_pair tn" "tcl_name tc" "tcl_arguments tc"] show ?case by simp
qed (auto simp: record_calls_def detector_ok_def)

lemma length_attach [simp]: "length (attach_result h name sgs) = length sgs"
  by (induction sgs) auto

lemma record_result_ok:
  "detector_ok d \<Longrightarrow> detector_ok (record_result f name c d) \<and> length (ld_history (record_result f name c d)) = length (ld_history d)"
  by (simp add: detector_ok_def record_result_def)

lemma record_results_ok:
  "detector_ok d \<Longrightarrow> detector_ok (record_results env tn results ms d) \<and>
     length (ld_history (record_results env tn results ms d)) = length (ld_history d)"
proof -
  have "detector_ok d \<Longrightarrow> detector_ok (fold (\<lambda>(r, m). record_result (tn_hash_str tn) (er_tool_name r) (message_text_of env m)) xs d) \<and>
     length (ld_history (fold (\<lambda>(r, m). record_result (tn_hash_str tn) (er_tool_name r) (message_text_of env m)) xs d)) = length (ld_history d)"
    for xs
    by (induction xs arbitrary: d) (auto simp: record_result_ok split: prod.splits)
  then show "detector_ok d \<Longrightarrow> ?thesis" by (simp add: record_results_def)
qed

lemma check_breaks: "detector_ok d \<Longrightarrow> 30 \<le> length (ld_history d) \<Longrightarrow> \<exists>m n. detector_check f d = VerdictCritical m n"
proof -
  assume "detector_ok d" "30 \<le> length (ld_history d)"
  then have "ld_circuit_breaker d = 30" "ld_history d \<noteq> []" by (auto simp: detector_ok_def)
  with \<open>30 \<le> length (ld_history d)\<close> show ?thesis by (simp add: detector_check_def Let_def)
qed

lemma ask_model_cases:
  fixes answer :: "'e agent_error + chat_response"
  assumes "ask_model env progress lo s = (Inr (answer, lo'), s')"
  obtains req ctx s1 where "build_llm_request env False (lo_context lo) s = (Inr (req, ctx), s1)"
      "call_llm_streaming_with_retry (ae_llm env) progress req s1 = (answer, s')"
      "case answer of Inl _ \<Rightarrow> lo' = lo\<lparr>lo_context := ctx\<rparr>
       | Inr r \<Rightarrow> lo' = lo\<lparr>lo_context := ctx, lo_response := r, lo_usage := add_usage (lo_usage lo) (rs_usage r)\<rparr>"
proof -
  from assms[unfolded ask_model_def sx_bind_Inr_iff] obtain rc s1 where
    rc: "build_llm_request env False (lo_context lo) s = (Inr rc, s1)"
    and a: "(case rc of (req, ctx) \<Rightarrow> let lo = lo\<lparr>lo_context := ctx\<rparr> in
       (\<lambda>s. case call_llm_streaming_with_retry (ae_llm env) progress req s of
          (Inl e, s) \<Rightarrow> (Inr (Inl e, lo), s)
        | (Inr r, s) \<Rightarrow> (Inr (Inr r, lo\<lparr>lo_response := r, lo_usage := add_usage (lo_usage lo) (rs_usage r)\<rparr>), s))) s1 =
      ((Inr (answer, lo'), s') :: ('e agent_error + ('e agent_error + chat_response) \<times> loop_state) \<times> _)" by blast
  obtain req ctx where rc': "rc = (req, ctx)" by fastforce
  note b = rc[unfolded rc']
  show ?thesis
  proof (cases "call_llm_streaming_with_retry (ae_llm env) progress req s1 :: ('e agent_error + chat_response) \<times> _")
    case (Pair x s2)
    with a rc' that[OF b] show ?thesis by (cases x) (auto simp: Let_def)
  qed
qed

lemma ask_model_keeps:
  assumes "ask_model env progress lo s = (Inr (answer, lo'), s')"
  shows "lo_detector lo' = lo_detector lo \<and> lo_nudges lo' = lo_nudges lo \<and> lo_results lo' = lo_results lo"
  using assms by (rule ask_model_cases) (auto split: sum.splits)

lemma record_exchange_keeps:
  assumes "record_exchange env sid ms lo s = (Inr lo', s')"
  shows "lo_detector lo' = lo_detector lo \<and> lo_nudges lo' = lo_nudges lo \<and> lo_results lo' = lo_results lo \<and> lo_response lo' = lo_response lo"
  using assms by (auto simp: record_exchange_def sx_bind_Inr_iff)

lemma go_on_again [simp]: "go_on answer lo s = (Inr (Again lo'), s') \<longleftrightarrow> (\<exists>r. answer = Inr r) \<and> lo' = lo \<and> s' = s"
  by (auto simp: go_on_def split: sum.split)

lemma keep_reply_keeps:
  "keep_reply env sid lo s = (Inr lo', s') \<Longrightarrow>
     lo_detector lo' = lo_detector lo \<and> lo_nudges lo' = lo_nudges lo \<and> lo_results lo' = lo_results lo"
  by (auto simp: keep_reply_def sx_bind_Inr_iff split: if_splits)

lemma nudged_again [simp]: "Again lo' = nudged visible answer lo \<longleftrightarrow> (\<exists>r. answer = Inr r) \<and> lo' = lo"
  "nudged visible answer lo = Again lo' \<longleftrightarrow> (\<exists>r. answer = Inr r) \<and> lo' = lo"
  by (auto simp: nudged_def split: sum.split)

lemma nudge_step_again:
  assumes "nudge_step env progress sid kind visible lo s = (Inr (Again lo'), s')"
  shows "lo_detector lo' = lo_detector lo \<and> lo_nudges lo' = lo_nudges lo + 1"
  using assms
  by (auto simp: nudge_step_def sx_bind_Inr_iff dest!: ask_model_keeps keep_reply_keeps)

lemma handoff_not_again: "handoff_step env progress sid results ms signal lo s \<noteq> (Inr (Again lo'), s')"
  by (auto simp: handoff_step_def Let_def sx_bind_Inr_iff)

lemma verdict_step_again:
  assumes "verdict_step env progress sid ms lo s = (Inr (Again lo'), s')" "detector_ok (lo_detector lo)"
  shows "lo_detector lo' = lo_detector lo" "lo_nudges lo' = lo_nudges lo" "length (ld_history (lo_detector lo)) < 30"
proof -
  have nc: "\<nexists>m n. detector_check (le_show (ae_llm env)) (lo_detector lo) = VerdictCritical m n"
    using assms(1) by (auto simp: verdict_step_def Let_def sx_bind_Inr_iff)
  with check_breaks[OF assms(2)] show "length (ld_history (lo_detector lo)) < 30" by (meson not_less)
  from assms(1) nc show "lo_detector lo' = lo_detector lo" "lo_nudges lo' = lo_nudges lo"
    by (auto simp: verdict_step_def Let_def sx_bind_Inr_iff dest!: ask_model_keeps record_exchange_keeps
        split: loop_verdict.splits)
qed

text \<open>What decreases: three for every call the circuit breaker still admits, and the nudges that are left.\<close>

definition loop_measure :: "loop_state \<Rightarrow> nat" where
  "loop_measure lo = 3 * (30 - length (ld_history (lo_detector lo))) + (MAX_CONSECUTIVE_NUDGES - lo_nudges lo)"

definition loop_ok :: "loop_state \<Rightarrow> bool" where
  "loop_ok lo \<longleftrightarrow> detector_ok (lo_detector lo) \<and> lo_nudges lo \<le> MAX_CONSECUTIVE_NUDGES"

lemma tool_step_again:
  assumes "tool_step env tn progress sid lo s = (Inr (Again lo'), s')" "loop_ok lo" "response_calls (lo_response lo) \<noteq> []"
  shows "loop_ok lo' \<and> loop_measure lo' < loop_measure lo"
proof -
  let ?calls = "response_calls (lo_response lo)"
  let ?d = "record_calls tn ?calls (lo_detector lo)"
  from assms(1) obtain results ms s1 where
    v: "verdict_step env progress sid ms
      (lo\<lparr>lo_nudges := 0, lo_detector := record_results env tn results ms ?d, lo_results := lo_results lo @ results\<rparr>) s1 = (Inr (Again lo'), s')"
    by (auto simp: tool_step_def Let_def sx_bind_Inr_iff handoff_not_again split: option.splits)
  have d: "detector_ok ?d" "length (ld_history ?d) = min 60 (length (ld_history (lo_detector lo)) + length ?calls)"
    using record_calls_ok assms(2) by (auto simp: loop_ok_def)
  note r = record_results_ok[OF d(1), of env tn results ms]
  have again: "lo_detector lo' = record_results env tn results ms ?d" "lo_nudges lo' = 0" "length (ld_history ?d) < 30"
    using verdict_step_again[OF v] r by simp_all
  have "0 < length ?calls" using assms(3) by simp
  with d(2) again(3) have "length (ld_history (lo_detector lo)) < length (ld_history ?d)" by simp
  with again r show ?thesis by (simp add: loop_ok_def loop_measure_def MAX_CONSECUTIVE_NUDGES_def)
qed

lemma loop_step_again:
  assumes "loop_step env tn progress sid lo s = (Inr (Again lo'), s')" "loop_ok lo"
  shows "loop_ok lo' \<and> loop_measure lo' < loop_measure lo"
proof (cases "response_calls (lo_response lo) = []")
  case True
  with assms(1) obtain kind visible s1 where
    n: "nudge_step env progress sid kind visible lo s1 = (Inr (Again lo'), s')" "lo_nudges lo < MAX_CONSECUTIVE_NUDGES"
    by (auto simp: loop_step_def text_step_def Let_def sx_bind_Inr_iff split: option.splits if_splits)
  from nudge_step_again[OF n(1)] n(2) assms(2) show ?thesis by (auto simp: loop_ok_def loop_measure_def)
next
  case False
  with assms(1) obtain s1 where "tool_step env tn progress sid lo s1 = (Inr (Again lo'), s')"
    by (auto simp: loop_step_def sx_bind_Inr_iff)
  from tool_step_again[OF this assms(2) False] show ?thesis .
qed

lemma agent_loop_settled:
  "loop_ok lo \<Longrightarrow> loop_measure lo < left \<Longrightarrow> loop_measure lo < left' \<Longrightarrow>
     agent_loop env tn progress sid limit left lo s = agent_loop env tn progress sid limit' left' lo s"
proof (induction left arbitrary: left' lo s)
  case (Suc left)
  obtain left1 where l: "left' = Suc left1" using Suc.prems(3) by (cases left') auto
  obtain r s1 where step: "loop_step env tn progress sid lo s = (r, s1)" by fastforce
  show ?case
  proof (cases r)
    case (Inr decision)
    show ?thesis
    proof (cases decision)
      case (Again lo')
      with loop_step_again[of env tn progress sid lo s lo' s1] step Inr Suc.prems(1)
      have "loop_ok lo'" "loop_measure lo' < loop_measure lo" by auto
      with Suc.IH[of lo' left1 s1] Suc.prems l step Inr Again show ?thesis by (simp add: sx_bind_def)
    qed (simp_all add: l step Inr sx_bind_def)
  qed (simp add: l step sx_bind_def)
qed simp

text \<open>The loop ends by itself: whatever the model answers and the tools return, at most ninety-three iterations
  are made, so any limit from there on gives the same outcome.\<close>

theorem tool_loop_ends:
  "agent_loop env tn progress sid limit (93 + k) (lo\<lparr>lo_nudges := 0, lo_detector := detector_new\<rparr>) s =
   agent_loop env tn progress sid limit' 93 (lo\<lparr>lo_nudges := 0, lo_detector := detector_new\<rparr>) s"
  by (rule agent_loop_settled)
    (simp_all add: loop_ok_def loop_measure_def MAX_CONSECUTIVE_NUDGES_def detector_ok_def detector_new_def)

end
