(* ===== verification/CertExtensions.thy ===== *)
theory CertExtensions
  imports Prelude
begin

text \<open>
  Roles and groups in certificates (\<open>rockbot-pki/src/extensions.rs\<close>): the DER encoding of a sequence of
  strings and the extensions built from it. A certificate is the list of its extensions, each an object
  identifier with its contents; the X.509 parser itself is a library.
\<close>

subsection \<open>UTF-8\<close>

definition as_bytes :: "string \<Rightarrow> u8 list" where
  "as_bytes s = map (\<lambda>c. word_of_nat (byte_of c)) s"

definition bytes_between :: "nat \<Rightarrow> nat \<Rightarrow> string \<Rightarrow> bool" where
  "bytes_between lo hi s \<longleftrightarrow> (case s of [] \<Rightarrow> False | c # _ \<Rightarrow> lo \<le> byte_of c \<and> byte_of c \<le> hi)"

text \<open>The width of the valid character a string starts with: no overlong forms, no surrogates, nothing
  above U+10FFFF.\<close>

definition utf8_width :: "string \<Rightarrow> nat option" where
  "utf8_width s =
     (let second = drop 1 s; third = drop 2 s; fourth = drop 3 s; tail = bytes_between 0x80 0xBF in
      if bytes_between 0 0x7F s then Some 1
      else if bytes_between 0xC2 0xDF s \<and> tail second then Some 2
      else if (bytes_between 0xE0 0xE0 s \<and> bytes_between 0xA0 0xBF second
          \<or> (bytes_between 0xE1 0xEC s \<or> bytes_between 0xEE 0xEF s) \<and> tail second
          \<or> bytes_between 0xED 0xED s \<and> bytes_between 0x80 0x9F second) \<and> tail third then Some 3
      else if (bytes_between 0xF0 0xF0 s \<and> bytes_between 0x90 0xBF second
          \<or> bytes_between 0xF1 0xF3 s \<and> tail second
          \<or> bytes_between 0xF4 0xF4 s \<and> bytes_between 0x80 0x8F second) \<and> tail third \<and> tail fourth then Some 4
      else None)"

lemma utf8_width_pos: "utf8_width s = Some n \<Longrightarrow> 0 < n"
  by (auto simp: utf8_width_def Let_def split: if_splits)

function utf8_valid :: "string \<Rightarrow> bool" where
  "utf8_valid s = (if s = [] then True else (case utf8_width s of None \<Rightarrow> False | Some n \<Rightarrow> utf8_valid (drop n s)))"
  by pat_completeness auto
termination
  by (relation "measure length") (auto dest: utf8_width_pos)

declare utf8_valid.simps [simp del]

definition from_utf8 :: "u8 list \<Rightarrow> string option" where
  "from_utf8 bs = (let s = map (\<lambda>b. char_of (unat b)) bs in if utf8_valid s then Some s else None)"

subsection \<open>Encoding\<close>

definition TAG_UTF8STRING :: u8 where "TAG_UTF8STRING = 0x0C"
definition TAG_SEQUENCE :: u8 where "TAG_SEQUENCE = 0x30"

definition encode_der_length :: "nat \<Rightarrow> u8 list" where
  "encode_der_length n =
     (if n < 128 then [word_of_nat n]
      else if n < 256 then [0x81, word_of_nat n]
      else [0x82, word_of_nat (n div 256), word_of_nat n])"

definition encode_string :: "string \<Rightarrow> u8 list" where
  "encode_string v = TAG_UTF8STRING # encode_der_length (length v) @ as_bytes v"

definition encode_string_sequence :: "string list \<Rightarrow> u8 list" where
  "encode_string_sequence values =
     (let body = concat (map encode_string values) in TAG_SEQUENCE # encode_der_length (length body) @ body)"

subsection \<open>Decoding\<close>

text \<open>\<open>SlicePanic\<close> is the panic of a slice that ends after its data.\<close>

datatype der_error = NotASequence u8 | NotAString u8 nat | LengthMissing | LengthTruncated | LengthUnsupported u8
  | ExceedsData | NotUtf8 | SlicePanic

definition decode_der_length :: "u8 list \<Rightarrow> der_error + nat \<times> nat" where
  "decode_der_length bs = (case bs of
     [] \<Rightarrow> Inl LengthMissing
   | b # rest \<Rightarrow>
       if b < 128 then Inr (unat b, 1)
       else if b = 0x81 then (case rest of c # _ \<Rightarrow> Inr (unat c, 2) | _ \<Rightarrow> Inl LengthTruncated)
       else if b = 0x82 then (case rest of c # d # _ \<Rightarrow> Inr (unat c * 256 + unat d, 3) | _ \<Rightarrow> Inl LengthTruncated)
       else Inl (LengthUnsupported b))"

text \<open>The strings from position \<open>pos\<close> of the body on.\<close>

function decode_strings :: "u8 list \<Rightarrow> nat \<Rightarrow> der_error + string list" where
  "decode_strings body pos =
     (if length body \<le> pos then Inr []
      else if body ! pos \<noteq> TAG_UTF8STRING then Inl (NotAString (body ! pos) pos)
      else sbind (decode_der_length (drop (pos + 1) body)) (\<lambda>(n, used).
        let start = pos + 1 + used in
        if length body < start + n then Inl ExceedsData
        else (case from_utf8 (take n (drop start body)) of
            None \<Rightarrow> Inl NotUtf8
          | Some s \<Rightarrow> sbind (decode_strings body (start + n)) (\<lambda>ss. Inr (s # ss)))))"
  by pat_completeness auto
termination
  by (relation "measure (\<lambda>(body, pos). length body - pos)") auto

declare decode_strings.simps [simp del]

definition decode_string_sequence :: "u8 list \<Rightarrow> der_error + string list" where
  "decode_string_sequence der =
     (if der = [] then Inr []
      else if hd der \<noteq> TAG_SEQUENCE then Inl (NotASequence (hd der))
      else sbind (decode_der_length (tl der)) (\<lambda>(n, used).
        if length der < used + 1 + n then Inl SlicePanic else decode_strings (take n (drop (used + 1) der)) 0))"

subsection \<open>Extensions\<close>

definition OID_ROCKBOT_ROLES :: "nat list" where "OID_ROCKBOT_ROLES = [1, 3, 6, 1, 4, 1, 59584, 1, 1]"
definition OID_ROCKBOT_GROUPS :: "nat list" where "OID_ROCKBOT_GROUPS = [1, 3, 6, 1, 4, 1, 59584, 1, 2]"

record extension =
  ex_oid :: "nat list"
  ex_critical :: bool
  ex_content :: "u8 list"

definition build_extensions :: "string list \<Rightarrow> string list \<Rightarrow> extension list" where
  "build_extensions roles groups =
     (if roles = [] then [] else [\<lparr>ex_oid = OID_ROCKBOT_ROLES, ex_critical = False, ex_content = encode_string_sequence roles\<rparr>]) @
     (if groups = [] then [] else [\<lparr>ex_oid = OID_ROCKBOT_GROUPS, ex_critical = False, ex_content = encode_string_sequence groups\<rparr>])"

record cert_extensions =
  cx_roles :: "string list"
  cx_groups :: "string list"

fun read_extensions :: "extension list \<Rightarrow> cert_extensions \<Rightarrow> der_error + cert_extensions" where
  "read_extensions [] acc = Inr acc"
| "read_extensions (e # es) acc =
     (if ex_oid e = OID_ROCKBOT_ROLES then
        sbind (decode_string_sequence (ex_content e)) (\<lambda>roles. read_extensions es (acc\<lparr>cx_roles := roles\<rparr>))
      else if ex_oid e = OID_ROCKBOT_GROUPS then
        sbind (decode_string_sequence (ex_content e)) (\<lambda>groups. read_extensions es (acc\<lparr>cx_groups := groups\<rparr>))
      else read_extensions es acc)"

definition parse_extensions :: "extension list \<Rightarrow> der_error + cert_extensions" where
  "parse_extensions es = read_extensions es \<lparr>cx_roles = [], cx_groups = []\<rparr>"

subsection \<open>Lemmas on the encoding\<close>

lemma length_as_bytes [simp]: "length (as_bytes s) = length s"
  by (simp add: as_bytes_def)

lemma from_utf8_as_bytes: "utf8_valid s \<Longrightarrow> from_utf8 (as_bytes s) = Some s"
proof -
  have "char_of (unat (word_of_nat (byte_of c) :: u8)) = c" for c
    by (simp add: byte_of_def unat_of_nat)
  then have "map (\<lambda>b. char_of (unat b)) (as_bytes s) = s" by (simp add: as_bytes_def o_def)
  then show "utf8_valid s \<Longrightarrow> ?thesis" by (simp add: from_utf8_def Let_def)
qed

lemma decode_long_length: "256 \<le> n \<Longrightarrow> decode_der_length (encode_der_length n @ rest) = Inr (n mod 65536, 3)"
proof -
  have "n div 256 mod 256 * 256 + n mod 256 = n mod 65536"
    using mod_mult2_eq[of n 256 256] by (simp add: mult.commute)
  then show "256 \<le> n \<Longrightarrow> ?thesis" by (simp add: encode_der_length_def decode_der_length_def unat_of_nat)
qed

lemma decode_encoded_length:
  assumes "n < 65536"
  shows "decode_der_length (encode_der_length n @ rest) = Inr (n, length (encode_der_length n))"
proof (cases "n < 256")
  case True
  have "(word_of_nat n :: u8) < 128" if "n < 128" using that by (simp add: word_less_nat_alt unat_of_nat)
  with True show ?thesis by (simp add: encode_der_length_def decode_der_length_def unat_of_nat)
next
  case False
  with assms decode_long_length[of n rest] show ?thesis by (simp add: encode_der_length_def)
qed

lemma length_encode_der_length: "0 < length (encode_der_length n)"
  by (simp add: encode_der_length_def)

lemma length_encode_string: "length v < length (encode_string v)"
  by (simp add: encode_string_def)

lemma decode_strings_step:
  assumes "utf8_valid v" "length v < 65536"
  shows "decode_strings (front @ encode_string v @ rest) (length front) =
    sbind (decode_strings (front @ encode_string v @ rest) (length (front @ encode_string v))) (\<lambda>ss. Inr (v # ss))"
proof -
  let ?body = "front @ encode_string v @ rest" and ?used = "length (encode_der_length (length v))"
  have at: "?body ! length front = TAG_UTF8STRING" "drop (length front + 1) ?body = encode_der_length (length v) @ as_bytes v @ rest"
    by (simp_all add: encode_string_def nth_append)
  have taken: "from_utf8 (drop (Suc ?used) (encode_string v)) = Some v"
    by (simp add: encode_string_def from_utf8_as_bytes assms(1))
  have "decode_der_length (drop (length front + 1) ?body) = Inr (length v, ?used)"
    unfolding at by (rule decode_encoded_length[OF assms(2)])
  moreover have "length (front @ encode_string v) = length front + 1 + ?used + length v" "\<not> length ?body \<le> length front"
    by (simp_all add: encode_string_def)
  ultimately show ?thesis
    by (subst decode_strings.simps) (simp add: at taken Let_def ac_simps)
qed

lemma decode_strings_encoded:
  "list_all (\<lambda>v. utf8_valid v \<and> length v < 65536) vs \<Longrightarrow>
    decode_strings (front @ concat (map encode_string vs)) (length front) = Inr vs"
proof (induction vs arbitrary: front)
  case Nil
  show ?case by (simp add: decode_strings.simps)
next
  case (Cons v vs)
  from Cons.prems Cons.IH[of "front @ encode_string v"] show ?case
    by (simp add: decode_strings_step[simplified])
qed

lemma encoded_items_bound: "v \<in> set vs \<Longrightarrow> length v < length (concat (map encode_string vs))"
  by (induction vs) (auto simp: length_encode_string trans_less_add1 trans_less_add2)

lemma decode_encoded:
  assumes "list_all utf8_valid vs" "length (concat (map encode_string vs)) < 65536"
  shows "decode_string_sequence (encode_string_sequence vs) = Inr vs"
proof -
  let ?body = "concat (map encode_string vs)"
  have "list_all (\<lambda>v. utf8_valid v \<and> length v < 65536) vs"
    using assms encoded_items_bound[of _ vs] by (fastforce simp: list_all_iff)
  from decode_strings_encoded[OF this, of "[]"] have "decode_strings ?body 0 = Inr vs" by simp
  with assms(2) show ?thesis
    by (simp add: decode_string_sequence_def encode_string_sequence_def Let_def decode_encoded_length)
qed

lemma read_foreign:
  "list_all (\<lambda>e. ex_oid e \<noteq> OID_ROCKBOT_ROLES \<and> ex_oid e \<noteq> OID_ROCKBOT_GROUPS) es \<Longrightarrow>
    read_extensions (es @ fs) acc = read_extensions fs acc"
  by (induction es) auto

subsection \<open>Properties\<close>

text \<open>C39. The roles and groups built into a certificate are read back exactly, whatever other extensions the
  certificate carries, as long as the strings are UTF-8 and each list takes fewer than 65536 bytes.\<close>

theorem roles_read_back:
  assumes "list_all utf8_valid (roles @ groups)"
    and "length (concat (map encode_string roles)) < 65536" "length (concat (map encode_string groups)) < 65536"
    and "list_all (\<lambda>e. ex_oid e \<noteq> OID_ROCKBOT_ROLES \<and> ex_oid e \<noteq> OID_ROCKBOT_GROUPS) (before @ after)"
  shows "parse_extensions (before @ build_extensions roles groups @ after) = Inr \<lparr>cx_roles = roles, cx_groups = groups\<rparr>"
proof -
  have "OID_ROCKBOT_ROLES \<noteq> OID_ROCKBOT_GROUPS" by (simp add: OID_ROCKBOT_ROLES_def OID_ROCKBOT_GROUPS_def)
  moreover have "read_extensions after acc = Inr acc" for acc using read_foreign[of after "[]"] assms(4) by simp
  ultimately show ?thesis
    using assms by (simp add: parse_extensions_def read_foreign build_extensions_def decode_encoded)
qed

text \<open>Longer lists are written with a length field that has lost its high bits.\<close>

lemma long_list_misread:
  assumes "65536 \<le> length (concat (map encode_string vs))" "length (concat (map encode_string vs)) mod 65536 = 0"
  shows "decode_string_sequence (encode_string_sequence vs) = Inr []"
  using assms decode_long_length
  by (simp add: decode_string_sequence_def encode_string_sequence_def Let_def decode_strings.simps)

subsection \<open>A concrete certificate\<close>

theorem roles_read_back_witness:
  "parse_extensions ([\<lparr>ex_oid = [2, 5, 29, 15], ex_critical = True, ex_content = [3, 2, 7, 128]\<rparr>] @
     build_extensions [''admin'', [CHR 0xC3, CHR 0xA9]] [''ops''] @ []) = Inr \<lparr>cx_roles = [''admin'', [CHR 0xC3, CHR 0xA9]], cx_groups = [''ops'']\<rparr>"
  by (rule roles_read_back)
    (simp_all add: utf8_valid.simps utf8_width_def bytes_between_def byte_of_def encode_string_def encode_der_length_def as_bytes_def
      OID_ROCKBOT_ROLES_def OID_ROCKBOT_GROUPS_def)

end
