(* ===== verification/Pki.thy ===== *)
theory Pki
  imports CertExtensions RustStr
begin

text \<open>
  The certificate authority (\<open>rockbot-pki/src/index.rs\<close>, \<open>ca.rs\<close>, \<open>backend.rs\<close>, \<open>manager.rs\<close>): the registry of
  certificates and enrollment tokens, the files of the PKI directory and the manager on top of them.
  Cryptography, X.509, the JSON codec of the registry, the clock and random numbers are functions of the
  world. Paths are relative to the PKI directory; names that are different strings are different
  files, as they are for names the gateway admits.
\<close>

subsection \<open>The registry\<close>

datatype cert_role = CertGateway | CertAgent | CertTui
datatype cert_status = CertActive | CertRevoked | CertExpired

definition cert_role_name :: "cert_role \<Rightarrow> string" where
  "cert_role_name r = (case r of CertGateway \<Rightarrow> ''gateway'' | CertAgent \<Rightarrow> ''agent'' | CertTui \<Rightarrow> ''tui'')"

definition cert_role_from :: "(string \<Rightarrow> string) \<Rightarrow> string \<Rightarrow> cert_role option" where
  "cert_role_from lower s = (let l = lower s in
     if l = ''gateway'' then Some CertGateway else if l = ''agent'' then Some CertAgent
     else if l = ''tui'' then Some CertTui else None)"

record cert_entry =
  ce_serial :: nat
  ce_name :: string
  ce_role :: cert_role
  ce_status :: cert_status
  ce_not_before :: datetime
  ce_not_after :: datetime
  ce_fingerprint :: string
  ce_subject :: string
  ce_sans :: "string list"
  ce_roles :: "string list"
  ce_groups :: "string list"

record enrollment_token =
  et_id :: string
  et_token :: string
  et_remaining_uses :: "nat option"
  et_expires_at :: "datetime option"
  et_created_at :: datetime
  et_role :: cert_role
  et_roles :: "string list"

record pki_index =
  px_next_serial :: nat
  px_entries :: "cert_entry list"
  px_enrollments :: "enrollment_token list"

datatype pki_error = FileError string | CaAlreadyInitialised | CaNotInitialised | CertificateNotFound string
  | NoActiveCertificate string | TokenNotFound | TokenRoleMismatch cert_role cert_role | TokenExpired | TokenUsedUp
  | InvalidSan string | CryptoFailed | RegistryUnreadable | WrongKeyLength nat | TimeOverflow

definition empty_index :: pki_index where
  "empty_index = \<lparr>px_next_serial = 2, px_entries = [], px_enrollments = []\<rparr>"

definition next_serial :: "pki_index \<Rightarrow> nat \<times> pki_index" where
  "next_serial ix = (px_next_serial ix, ix\<lparr>px_next_serial := wadd (px_next_serial ix) 1\<rparr>)"

definition add_entry :: "cert_entry \<Rightarrow> pki_index \<Rightarrow> pki_index" where
  "add_entry e ix = ix\<lparr>px_entries := px_entries ix @ [e]\<rparr>"

definition find_by_name :: "string \<Rightarrow> pki_index \<Rightarrow> cert_entry option" where
  "find_by_name name ix = List.find (\<lambda>e. ce_name e = name) (px_entries ix)"

fun revoke_first :: "string \<Rightarrow> cert_entry list \<Rightarrow> cert_entry list option" where
  "revoke_first name [] = None"
| "revoke_first name (e # es) =
     (if ce_name e = name \<and> ce_status e = CertActive then Some (e\<lparr>ce_status := CertRevoked\<rparr> # es)
      else map_option ((#) e) (revoke_first name es))"

definition revoke_entry :: "string \<Rightarrow> pki_index \<Rightarrow> pki_error + pki_index" where
  "revoke_entry name ix = (case revoke_first name (rev (px_entries ix)) of
     None \<Rightarrow> Inl (NoActiveCertificate name) | Some es \<Rightarrow> Inr (ix\<lparr>px_entries := rev es\<rparr>))"

definition active_entries :: "pki_index \<Rightarrow> cert_entry list" where
  "active_entries ix = filter (\<lambda>e. ce_status e = CertActive) (px_entries ix)"

definition add_enrollment :: "enrollment_token \<Rightarrow> pki_index \<Rightarrow> pki_index" where
  "add_enrollment t ix = ix\<lparr>px_enrollments := px_enrollments ix @ [t]\<rparr>"

definition token_usable :: "datetime \<Rightarrow> cert_role \<Rightarrow> enrollment_token \<Rightarrow> pki_error + unit" where
  "token_usable clock_time role t =
     (if et_role t \<noteq> role then Inl (TokenRoleMismatch (et_role t) role)
      else if (case et_expires_at t of Some e \<Rightarrow> e < clock_time | None \<Rightarrow> False) then Inl TokenExpired
      else if et_remaining_uses t = Some 0 then Inl TokenUsedUp else Inr ())"

text \<open>The comparison takes the same time wherever the strings differ, which does not change its value.\<close>

definition use_enrollment :: "datetime \<Rightarrow> string \<Rightarrow> cert_role \<Rightarrow> pki_index \<Rightarrow> pki_error + enrollment_token \<times> pki_index" where
  "use_enrollment clock_time token role ix =
     (case position (\<lambda>t. et_token t = token) (px_enrollments ix) of
        None \<Rightarrow> Inl TokenNotFound
      | Some i \<Rightarrow>
          let t = px_enrollments ix ! i in
          sbind (token_usable clock_time role t) (\<lambda>_. Inr (t,
            case et_remaining_uses t of
              None \<Rightarrow> ix
            | Some n \<Rightarrow> if n - 1 = 0 then ix\<lparr>px_enrollments := remove_at i (px_enrollments ix)\<rparr>
                        else ix\<lparr>px_enrollments := (px_enrollments ix)[i := t\<lparr>et_remaining_uses := Some (n - 1)\<rparr>]\<rparr>)))"

subsection \<open>Files and the world\<close>

text \<open>\<open>pe_write\<close> decides whether a write succeeds; when it fails it says what the file holds afterwards.\<close>

datatype san = IpSan string | DnsSan string

record cert_params =
  cp_serial :: nat
  cp_not_before :: datetime
  cp_not_after :: datetime
  cp_common_name :: string
  cp_server_auth :: bool
  cp_sans :: "san list"
  cp_extensions :: "extension list"

record ('k, 'w) pki_env =
  pe_write :: "string \<Rightarrow> 'w \<Rightarrow> string option option \<times> 'w"
  pe_unreadable :: "string \<Rightarrow> 'w \<Rightarrow> bool"
  pe_undeletable :: "string \<Rightarrow> 'w \<Rightarrow> bool"
  pe_clock :: "'w \<Rightarrow> datetime \<times> 'w"
  pe_uuid :: "'w \<Rightarrow> string \<times> 'w"
  pe_random32 :: "'w \<Rightarrow> string option \<times> 'w"
  pe_keygen :: "'w \<Rightarrow> string option \<times> 'w"
  pe_key :: "string \<Rightarrow> 'k option"
  pe_self_sign :: "'k \<Rightarrow> datetime \<Rightarrow> datetime \<Rightarrow> 'w \<Rightarrow> string option \<times> 'w"
  pe_sign :: "cert_params \<Rightarrow> 'k \<Rightarrow> string \<Rightarrow> 'k \<Rightarrow> 'w \<Rightarrow> (string \<times> string) option \<times> 'w"
  pe_csr_ok :: "string \<Rightarrow> bool"
  pe_sign_csr :: "string \<Rightarrow> string \<Rightarrow> 'k \<Rightarrow> 'w \<Rightarrow> (string \<times> string) option \<times> 'w"
  pe_sign_crl :: "nat list \<Rightarrow> datetime \<Rightarrow> string \<Rightarrow> 'k \<Rightarrow> 'w \<Rightarrow> string option \<times> 'w"
  pe_sha256 :: "string \<Rightarrow> u8 list"
  pe_pem_der :: "string \<Rightarrow> string option"
  pe_validity :: "string \<Rightarrow> (datetime \<times> datetime) option"
  pe_is_ip :: "string \<Rightarrow> bool"
  pe_show_index :: "pki_index \<Rightarrow> string"
  pe_read_index :: "string \<Rightarrow> pki_index option"
  pe_age_public :: "string \<Rightarrow> string option"
  pe_age_generate :: "'w \<Rightarrow> (string \<times> string) \<times> 'w"

record 'w pki =
  pk_files :: "string \<rightharpoonup> string"
  pk_index :: pki_index
  pk_world :: 'w

type_synonym ('w, 'a) px = "('w pki, pki_error, 'a) sx"

definition CA_CERT_FILE :: string where "CA_CERT_FILE = ''ca.crt''"
definition CA_KEY_LABEL :: string where "CA_KEY_LABEL = ''ca''"
definition INDEX_FILE :: string where "INDEX_FILE = ''index.json''"
definition CRL_FILE :: string where "CRL_FILE = ''crl.pem''"
definition cert_file :: "string \<Rightarrow> string" where "cert_file name = ''certs/'' @ name @ ''.crt''"
definition key_file :: "string \<Rightarrow> string" where "key_file label = ''keys/'' @ label @ ''.key''"
definition storage_key_path :: "string \<Rightarrow> string" where "storage_key_path label = ''storage/'' @ label @ ''.storage.key''"
definition identity_file :: "string \<Rightarrow> string" where "identity_file label = ''vault/'' @ label @ ''.vault.agekey''"
definition public_file :: "string \<Rightarrow> string" where "public_file label = ''vault/'' @ label @ ''.vault.pub''"

definition write_file :: "('k, 'w) pki_env \<Rightarrow> string \<Rightarrow> string \<Rightarrow> ('w, unit) px" where
  "write_file env path text s = (case pe_write env path (pk_world s) of
     (None, w) \<Rightarrow> (Inr (), s\<lparr>pk_files := (pk_files s)(path \<mapsto> text), pk_world := w\<rparr>)
   | (Some left, w) \<Rightarrow> (Inl (FileError path), s\<lparr>pk_files := (pk_files s)(path := left), pk_world := w\<rparr>))"

definition read_file :: "('k, 'w) pki_env \<Rightarrow> string \<Rightarrow> ('w, string) px" where
  "read_file env path s = (case pk_files s path of
     Some text \<Rightarrow> if pe_unreadable env path (pk_world s) then (Inl (FileError path), s) else (Inr text, s)
   | None \<Rightarrow> (Inl (FileError path), s))"

definition remove_file :: "('k, 'w) pki_env \<Rightarrow> string \<Rightarrow> ('w, unit) px" where
  "remove_file env path s =
     (if path \<notin> dom (pk_files s) \<or> pe_undeletable env path (pk_world s) then (Inl (FileError path), s)
      else (Inr (), s\<lparr>pk_files := (pk_files s)(path := None)\<rparr>))"

definition drawn :: "('w \<Rightarrow> 'a \<times> 'w) \<Rightarrow> ('w, 'a) px" where
  "drawn f s = (case f (pk_world s) of (x, w) \<Rightarrow> (Inr x, s\<lparr>pk_world := w\<rparr>))"

definition crypto :: "('w \<Rightarrow> 'a option \<times> 'w) \<Rightarrow> ('w, 'a) px" where
  "crypto f = sx_bind (drawn f) (\<lambda>r. case r of Some x \<Rightarrow> sx_return x | None \<Rightarrow> sx_throw CryptoFailed)"

definition on_index :: "(pki_index \<Rightarrow> pki_index) \<Rightarrow> ('w, unit) px" where
  "on_index f = sx_update (\<lambda>s. s\<lparr>pk_index := f (pk_index s)\<rparr>)"

definition take_serial :: "('w, nat) px" where
  "take_serial s = (case next_serial (pk_index s) of (n, ix) \<Rightarrow> (Inr n, s\<lparr>pk_index := ix\<rparr>))"

definition parse_key :: "('k, 'w) pki_env \<Rightarrow> string \<Rightarrow> ('w, 'k) px" where
  "parse_key env pem = (case pe_key env pem of Some k \<Rightarrow> sx_return k | None \<Rightarrow> sx_throw CryptoFailed)"

text \<open>The file backend.\<close>

definition backend_generate :: "('k, 'w) pki_env \<Rightarrow> string \<Rightarrow> ('w, 'k) px" where
  "backend_generate env label =
     sx_bind (crypto (pe_keygen env)) (\<lambda>pem.
     sx_bind (write_file env (key_file label) pem) (\<lambda>_. parse_key env pem))"

definition backend_load :: "('k, 'w) pki_env \<Rightarrow> string \<Rightarrow> ('w, 'k) px" where
  "backend_load env path = sx_bind (read_file env path) (parse_key env)"


subsection \<open>Signing\<close>

definition SECOND :: int where "SECOND = 1000000000"
definition DAY :: int where "DAY = 86400 * SECOND"
definition LAST_INSTANT :: int where "LAST_INSTANT = 253402300800 * SECOND - 1"

text \<open>Adding to a time panics after the year 9999.\<close>

definition days_after :: "datetime \<Rightarrow> nat \<Rightarrow> ('w, datetime) px" where
  "days_after t days = (let u = t + int days * DAY in if u \<le> LAST_INSTANT then sx_return u else sx_throw TimeOverflow)"

definition whole_seconds :: "datetime \<Rightarrow> datetime" where
  "whole_seconds t = t div SECOND * SECOND"

definition upper_hex :: "nat \<Rightarrow> char" where
  "upper_hex n = (if n < 10 then char_of (48 + n) else char_of (55 + n))"

definition sha256_fingerprint :: "('k, 'w) pki_env \<Rightarrow> string \<Rightarrow> string" where
  "sha256_fingerprint env der =
     join_with '':'' (map (\<lambda>b. [upper_hex (unat b div 16), upper_hex (unat b mod 16)]) (pe_sha256 env der))"

definition parse_san :: "('k, 'w) pki_env \<Rightarrow> string \<Rightarrow> pki_error + san" where
  "parse_san env s = (if pe_is_ip env s then Inr (IpSan s) else if ascii_str s then Inr (DnsSan s) else Inl (InvalidSan s))"

definition generate_ca :: "('k, 'w) pki_env \<Rightarrow> 'k \<Rightarrow> nat \<Rightarrow> ('w, string) px" where
  "generate_ca env key days =
     sx_bind (drawn (pe_clock env)) (\<lambda>t.
     sx_bind (days_after t days) (\<lambda>until. crypto (pe_self_sign env key t until)))"

definition generate_client_cert ::
  "('k, 'w) pki_env \<Rightarrow> 'k \<Rightarrow> string \<Rightarrow> 'k \<Rightarrow> string \<Rightarrow> cert_role \<Rightarrow> string list \<Rightarrow> nat \<Rightarrow> nat \<Rightarrow> string list \<Rightarrow> string list \<Rightarrow>
   ('w, string \<times> cert_entry) px" where
  "generate_client_cert env key ca_pem ca_key name role sans days serial roles groups =
     sx_bind (drawn (pe_clock env)) (\<lambda>t.
     sx_bind (days_after t days) (\<lambda>until.
     sx_bind (sx_ask (\<lambda>_. collect (parse_san env) sans)) (\<lambda>alt_names.
     sx_bind (crypto (pe_sign env \<lparr>cp_serial = serial, cp_not_before = t, cp_not_after = until, cp_common_name = name,
         cp_server_auth = (role = CertGateway), cp_sans = alt_names, cp_extensions = build_extensions roles groups\<rparr> key ca_pem ca_key))
       (\<lambda>(pem, der). sx_return (pem, \<lparr>ce_serial = serial, ce_name = name, ce_role = role, ce_status = CertActive,
         ce_not_before = whole_seconds t, ce_not_after = whole_seconds until, ce_fingerprint = sha256_fingerprint env der,
         ce_subject = ''CN='' @ name @ '',O=RockBot'', ce_sans = sans, ce_roles = roles, ce_groups = groups\<rparr>)))))"

definition sign_csr ::
  "('k, 'w) pki_env \<Rightarrow> string \<Rightarrow> string \<Rightarrow> 'k \<Rightarrow> string \<Rightarrow> cert_role \<Rightarrow> nat \<Rightarrow> nat \<Rightarrow> string list \<Rightarrow> string list \<Rightarrow>
   ('w, string \<times> cert_entry) px" where
  "sign_csr env csr ca_pem ca_key name role days serial roles groups =
     (if \<not> pe_csr_ok env csr then sx_throw CryptoFailed else
     sx_bind (drawn (pe_clock env)) (\<lambda>t.
     sx_bind (days_after t days) (\<lambda>until.
     sx_bind (crypto (pe_sign_csr env csr ca_pem ca_key))
       (\<lambda>(pem, der). sx_return (pem, \<lparr>ce_serial = serial, ce_name = name, ce_role = role, ce_status = CertActive,
         ce_not_before = whole_seconds t, ce_not_after = whole_seconds until, ce_fingerprint = sha256_fingerprint env der,
         ce_subject = ''CN='' @ name, ce_sans = [], ce_roles = roles, ce_groups = groups\<rparr>)))))"

definition generate_crl :: "('k, 'w) pki_env \<Rightarrow> cert_entry list \<Rightarrow> string \<Rightarrow> 'k \<Rightarrow> ('w, string) px" where
  "generate_crl env revoked ca_pem ca_key =
     sx_bind (drawn (pe_clock env)) (\<lambda>t. crypto (pe_sign_crl env (map ce_serial revoked) t ca_pem ca_key))"

subsection \<open>The manager\<close>

definition load_index :: "('k, 'w) pki_env \<Rightarrow> ('w, pki_index) px" where
  "load_index env s =
     (if INDEX_FILE \<notin> dom (pk_files s) then (Inr empty_index, s)
      else sx_bind (read_file env INDEX_FILE) (\<lambda>text.
        case pe_read_index env text of Some ix \<Rightarrow> sx_return ix | None \<Rightarrow> sx_throw RegistryUnreadable) s)"

definition open_pki :: "('k, 'w) pki_env \<Rightarrow> ('w, unit) px" where
  "open_pki env = sx_bind (load_index env) (\<lambda>ix. on_index (\<lambda>_. ix))"

definition save_index :: "('k, 'w) pki_env \<Rightarrow> ('w, unit) px" where
  "save_index env s = write_file env INDEX_FILE (pe_show_index env (pk_index s)) s"

definition ensure_local_storage_key :: "('k, 'w) pki_env \<Rightarrow> string \<Rightarrow> ('w, string) px" where
  "ensure_local_storage_key env label s =
     (let path = storage_key_path label in
      if path \<in> dom (pk_files s) then
        sx_bind (read_file env path) (\<lambda>key. if length key \<noteq> 32 then sx_throw (WrongKeyLength (length key)) else sx_return key) s
      else sx_bind (crypto (pe_random32 env)) (\<lambda>key. sx_bind (write_file env path key) (\<lambda>_. sx_return key)) s)"

definition ensure_vault_keypair :: "('k, 'w) pki_env \<Rightarrow> string \<Rightarrow> ('w, string) px" where
  "ensure_vault_keypair env label s =
     (let line = [CHR 0x0A] in
      sx_bind (if identity_file label \<in> dom (pk_files s) then
          sx_bind (read_file env (identity_file label)) (\<lambda>text.
            case pe_age_public env (trim text) of Some k \<Rightarrow> sx_return k | None \<Rightarrow> sx_throw CryptoFailed)
        else sx_bind (drawn (pe_age_generate env)) (\<lambda>(identity, public_key).
          sx_bind (write_file env (identity_file label) identity) (\<lambda>_.
          sx_bind (write_file env (public_file label) (public_key @ line)) (\<lambda>_. sx_return public_key))))
        (\<lambda>public_key s. if public_file label \<in> dom (pk_files s) then (Inr public_key, s)
           else sx_bind (write_file env (public_file label) (public_key @ line)) (\<lambda>_. sx_return public_key) s) s)"

definition ca_cert_pem :: "('k, 'w) pki_env \<Rightarrow> ('w, string) px" where
  "ca_cert_pem env s = (if CA_CERT_FILE \<notin> dom (pk_files s) then (Inl CaNotInitialised, s) else read_file env CA_CERT_FILE s)"

definition ca_key_handle :: "('k, 'w) pki_env \<Rightarrow> ('w, 'k) px" where
  "ca_key_handle env = backend_load env (key_file CA_KEY_LABEL)"

definition init_ca :: "('k, 'w) pki_env \<Rightarrow> nat \<Rightarrow> ('w, unit) px" where
  "init_ca env days s =
     (if CA_CERT_FILE \<in> dom (pk_files s) then (Inl CaAlreadyInitialised, s)
      else sx_bind (backend_generate env CA_KEY_LABEL) (\<lambda>key.
        sx_bind (generate_ca env key days) (\<lambda>pem.
        sx_bind (write_file env CA_CERT_FILE pem) (\<lambda>_. save_index env))) s)"

definition record_entry :: "('k, 'w) pki_env \<Rightarrow> cert_entry \<Rightarrow> ('w, unit) px" where
  "record_entry env e = sx_bind (on_index (add_entry e)) (\<lambda>_. save_index env)"

definition generate_client ::
  "('k, 'w) pki_env \<Rightarrow> string \<Rightarrow> cert_role \<Rightarrow> string list \<Rightarrow> nat \<Rightarrow> string list \<Rightarrow> string list \<Rightarrow> ('w, string \<times> string) px" where
  "generate_client env name role sans days roles groups =
     sx_bind (ca_cert_pem env) (\<lambda>ca_pem.
     sx_bind (ca_key_handle env) (\<lambda>ca_key.
     sx_bind take_serial (\<lambda>serial.
     sx_bind (backend_generate env name) (\<lambda>key.
     sx_bind (generate_client_cert env key ca_pem ca_key name role sans days serial roles groups) (\<lambda>(pem, e).
     sx_bind (write_file env (cert_file name) pem) (\<lambda>_.
     sx_bind (record_entry env e) (\<lambda>_. sx_return (cert_file name, key_file name))))))))"

definition regenerate_crl :: "('k, 'w) pki_env \<Rightarrow> ('w, unit) px" where
  "regenerate_crl env =
     sx_bind (ca_cert_pem env) (\<lambda>ca_pem.
     sx_bind (ca_key_handle env) (\<lambda>ca_key.
     sx_bind (sx_ask (\<lambda>s. Inr (filter (\<lambda>e. ce_status e = CertRevoked) (px_entries (pk_index s))))) (\<lambda>revoked.
     sx_bind (generate_crl env revoked ca_pem ca_key) (write_file env CRL_FILE))))"

definition revoke_client :: "('k, 'w) pki_env \<Rightarrow> string \<Rightarrow> ('w, unit) px" where
  "revoke_client env name =
     sx_bind (sx_ask (\<lambda>s. revoke_entry name (pk_index s))) (\<lambda>ix.
     sx_bind (on_index (\<lambda>_. ix)) (\<lambda>_.
     sx_bind (save_index env) (\<lambda>_. regenerate_crl env)))"

definition client_info :: "string \<Rightarrow> ('w, cert_entry) px" where
  "client_info name = sx_ask (\<lambda>s. ok_or (CertificateNotFound name) (find_by_name name (pk_index s)))"

definition rotate_client :: "('k, 'w) pki_env \<Rightarrow> string \<Rightarrow> string list \<Rightarrow> nat \<Rightarrow> ('w, string \<times> string) px" where
  "rotate_client env name sans days =
     sx_bind (client_info name) (\<lambda>existing.
     sx_bind (revoke_client env name) (\<lambda>_.
     sx_bind (\<lambda>s. if key_file name \<in> dom (pk_files s) then remove_file env (key_file name) s else (Inr (), s)) (\<lambda>_.
     generate_client env name (ce_role existing) sans days (ce_roles existing) (ce_groups existing))))"

definition manager_sign_csr ::
  "('k, 'w) pki_env \<Rightarrow> string \<Rightarrow> string \<Rightarrow> cert_role \<Rightarrow> nat \<Rightarrow> string list \<Rightarrow> string list \<Rightarrow> ('w, string) px" where
  "manager_sign_csr env csr name role days roles groups =
     sx_bind (ca_cert_pem env) (\<lambda>ca_pem.
     sx_bind (ca_key_handle env) (\<lambda>ca_key.
     sx_bind take_serial (\<lambda>serial.
     sx_bind (sign_csr env csr ca_pem ca_key name role days serial roles groups) (\<lambda>(pem, e).
     sx_bind (record_entry env e) (\<lambda>_. sx_return pem)))))"

definition import_signed_client :: "('k, 'w) pki_env \<Rightarrow> string \<Rightarrow> cert_role \<Rightarrow> string \<Rightarrow> ('w, unit) px" where
  "import_signed_client env name role pem =
     (case (pe_validity env pem, pe_pem_der env pem) of
        (Some (t, until), Some der) \<Rightarrow>
          sx_bind take_serial (\<lambda>serial. record_entry env \<lparr>ce_serial = serial, ce_name = name, ce_role = role, ce_status = CertActive,
            ce_not_before = t, ce_not_after = until, ce_fingerprint = sha256_fingerprint env der,
            ce_subject = ''CN='' @ name, ce_sans = [], ce_roles = [], ce_groups = []\<rparr>)
      | _ \<Rightarrow> sx_throw CryptoFailed)"

definition create_enrollment ::
  "('k, 'w) pki_env \<Rightarrow> cert_role \<Rightarrow> string list \<Rightarrow> nat option \<Rightarrow> datetime option \<Rightarrow> ('w, string) px" where
  "create_enrollment env role roles uses expires =
     sx_bind (drawn (pe_uuid env)) (\<lambda>token.
     sx_bind (drawn (pe_uuid env)) (\<lambda>tid.
     sx_bind (drawn (pe_clock env)) (\<lambda>t.
     sx_bind (on_index (add_enrollment \<lparr>et_id = tid, et_token = token, et_remaining_uses = uses, et_expires_at = expires,
       et_created_at = t, et_role = role, et_roles = roles\<rparr>)) (\<lambda>_.
     sx_bind (save_index env) (\<lambda>_. sx_return token)))))"

definition revoke_enrollment :: "('k, 'w) pki_env \<Rightarrow> string \<Rightarrow> ('w, unit) px" where
  "revoke_enrollment env tid s =
     (case position (\<lambda>t. et_id t = tid) (px_enrollments (pk_index s)) of
        None \<Rightarrow> (Inl TokenNotFound, s)
      | Some i \<Rightarrow> sx_bind (on_index (\<lambda>ix. ix\<lparr>px_enrollments := remove_at i (px_enrollments ix)\<rparr>)) (\<lambda>_. save_index env) s)"

definition validate_enrollment :: "('k, 'w) pki_env \<Rightarrow> string \<Rightarrow> cert_role \<Rightarrow> ('w, enrollment_token) px" where
  "validate_enrollment env token role =
     sx_bind (drawn (pe_clock env)) (\<lambda>t.
     sx_bind (sx_ask (\<lambda>s. use_enrollment t token role (pk_index s))) (\<lambda>(enrollment, ix).
     sx_bind (on_index (\<lambda>_. ix)) (\<lambda>_.
     sx_bind (save_index env) (\<lambda>_. sx_return enrollment))))"


text \<open>The calls of the manager that change its state, whatever they return.\<close>

datatype pki_call = InitCa nat
  | GenerateClient string cert_role "string list" nat "string list" "string list"
  | RevokeClient string
  | RotateClient string "string list" nat
  | SignCsr string string cert_role nat "string list" "string list"
  | ImportSignedClient string cert_role string
  | CreateEnrollment cert_role "string list" "nat option" "datetime option"
  | RevokeEnrollment string
  | ValidateEnrollment string cert_role
  | EnsureStorageKey string
  | EnsureVaultKeypair string

fun perform :: "('k, 'w) pki_env \<Rightarrow> pki_call \<Rightarrow> 'w pki \<Rightarrow> 'w pki" where
  "perform env (InitCa days) s = snd (init_ca env days s)"
| "perform env (GenerateClient name role sans days roles groups) s = snd (generate_client env name role sans days roles groups s)"
| "perform env (RevokeClient name) s = snd (revoke_client env name s)"
| "perform env (RotateClient name sans days) s = snd (rotate_client env name sans days s)"
| "perform env (SignCsr csr name role days roles groups) s = snd (manager_sign_csr env csr name role days roles groups s)"
| "perform env (ImportSignedClient name role pem) s = snd (import_signed_client env name role pem s)"
| "perform env (CreateEnrollment role roles uses expires) s = snd (create_enrollment env role roles uses expires s)"
| "perform env (RevokeEnrollment tid) s = snd (revoke_enrollment env tid s)"
| "perform env (ValidateEnrollment token role) s = snd (validate_enrollment env token role s)"
| "perform env (EnsureStorageKey label) s = snd (ensure_local_storage_key env label s)"
| "perform env (EnsureVaultKeypair label) s = snd (ensure_vault_keypair env label s)"

text \<open>The name of the key a call writes.\<close>

fun key_name :: "pki_call \<Rightarrow> string option" where
  "key_name (GenerateClient name role sans days roles groups) = Some name"
| "key_name (RotateClient name sans days) = Some name"
| "key_name _ = None"

subsection \<open>What operations keep\<close>

text \<open>\<open>keeps f m\<close>: however \<open>m\<close> ends, it does not change what \<open>f\<close> reads.\<close>

named_theorems keeps_intros \<open>operations that keep a part of the state\<close>

definition keeps :: "('s \<Rightarrow> 'x) \<Rightarrow> ('s, 'e, 'a) sx \<Rightarrow> bool" where
  "keeps f m \<longleftrightarrow> (\<forall>s r s'. m s = (r, s') \<longrightarrow> f s' = f s)"

lemma keepsD: "keeps f m \<Longrightarrow> m s = (r, s') \<Longrightarrow> f s' = f s"
  unfolding keeps_def by blast

lemma keeps_run: "keeps f m \<Longrightarrow> f (snd (m s)) = f s"
  by (metis keepsD prod.collapse)

lemma keeps_bind [keeps_intros]:
  assumes "keeps f m" "\<And>x. keeps f (g x)"
  shows "keeps f (sx_bind m g)"
proof -
  have "f s' = f s" if "sx_bind m g s = (r, s')" for s r s'
  proof -
    obtain r1 s1 where first: "m s = (r1, s1)" by fastforce
    show ?thesis
      by (cases r1) (use that first keepsD[OF assms(1) first] keepsD[OF assms(2)] in \<open>auto simp: sx_bind_def\<close>)
  qed
  then show ?thesis by (simp add: keeps_def)
qed

lemma keeps_simple [keeps_intros]:
  "keeps f (sx_return x)" "keeps f (sx_throw e)" "keeps f (sx_ask h)"
  by (auto simp: keeps_def)

lemma keeps_option [keeps_intros]:
  "(\<And>x. keeps f (g x)) \<Longrightarrow> keeps f h \<Longrightarrow> keeps f (case o' of Some x \<Rightarrow> g x | None \<Rightarrow> h)"
  by (cases o') auto

lemma keeps_if [keeps_intros]: "keeps f g \<Longrightarrow> keeps f h \<Longrightarrow> keeps f (if b then g else h)"
  by simp

lemma keeps_pair [keeps_intros]: "(\<And>x y. keeps f (g x y)) \<Longrightarrow> keeps f (case p of (x, y) \<Rightarrow> g x y)"
  by (cases p) simp

lemma keeps_world [keeps_intros]:
  "keeps pk_index (drawn d)" "keeps (\<lambda>s. pk_files s p) (drawn d)" "keeps pk_files (drawn d)"
  by (auto simp: keeps_def drawn_def split: prod.splits)

lemma keeps_crypto [keeps_intros]: "keeps f (drawn d) \<Longrightarrow> keeps f (crypto d)"
  unfolding crypto_def by (intro keeps_intros)

lemma keeps_write [keeps_intros]:
  "keeps pk_index (write_file env path text)" "path \<noteq> p \<Longrightarrow> keeps (\<lambda>s. pk_files s p) (write_file env path text)"
  by (auto simp: keeps_def write_file_def split: prod.splits option.splits)

lemma keeps_remove [keeps_intros]:
  "keeps pk_index (remove_file env path)" "path \<noteq> p \<Longrightarrow> keeps (\<lambda>s. pk_files s p) (remove_file env path)"
  by (auto simp: keeps_def remove_file_def split: if_splits)

lemma keeps_read [keeps_intros]: "keeps f (read_file env path)"
  by (auto simp: keeps_def read_file_def split: option.splits if_splits)

lemma keeps_parse_key [keeps_intros]: "keeps f (parse_key env pem)"
  unfolding parse_key_def by (intro keeps_intros)

lemma keeps_files [keeps_intros]:
  "keeps pk_files (on_index g)" "keeps (\<lambda>s. pk_files s p) (on_index g)" "keeps pk_files take_serial"
  "keeps (\<lambda>s. pk_files s p) take_serial"
  by (auto simp: keeps_def on_index_def sx_update_def take_serial_def next_serial_def)

lemma keeps_loads [keeps_intros]: "keeps f (ca_cert_pem env)" "keeps f (ca_key_handle env)"
proof -
  show "keeps f (ca_cert_pem env)"
    using keeps_read[of f env CA_CERT_FILE] by (auto simp: keeps_def ca_cert_pem_def split: if_splits)
  show "keeps f (ca_key_handle env)"
    unfolding ca_key_handle_def backend_load_def by (intro keeps_intros)
qed

lemma keeps_save [keeps_intros]:
  "keeps pk_index (save_index env)" "INDEX_FILE \<noteq> p \<Longrightarrow> keeps (\<lambda>s. pk_files s p) (save_index env)"
  using keeps_write[where env = env and path = INDEX_FILE] by (auto simp: keeps_def save_index_def)

lemma keeps_generate [keeps_intros]:
  "keeps pk_index (backend_generate env label)" "key_file label \<noteq> p \<Longrightarrow> keeps (\<lambda>s. pk_files s p) (backend_generate env label)"
  unfolding backend_generate_def by (intro keeps_intros; assumption)+

lemma keeps_days [keeps_intros]: "keeps f (days_after t d)"
  unfolding days_after_def Let_def by (intro keeps_intros)

lemma keeps_signing [keeps_intros]:
  assumes "\<And>(d :: 'w \<Rightarrow> (string \<times> string) option \<times> 'w). keeps f (drawn d)" "keeps f (drawn (pe_clock env))"
  shows "keeps f (generate_client_cert env key ca_pem ca_key name role sans days serial roles groups)"
    "keeps f (sign_csr env csr ca_pem ca_key name role days serial roles groups)"
  unfolding generate_client_cert_def sign_csr_def by (intro keeps_intros assms)+

lemma keeps_crl [keeps_intros]:
  "keeps pk_index (regenerate_crl env)" "CRL_FILE \<noteq> p \<Longrightarrow> keeps (\<lambda>s. pk_files s p) (regenerate_crl env)"
  unfolding regenerate_crl_def generate_crl_def by (intro keeps_intros; assumption)+


subsection \<open>How the registry grows\<close>

text \<open>What may happen to an entry, and the shape of the serial numbers.\<close>

definition aged :: "cert_entry \<Rightarrow> cert_entry \<Rightarrow> bool" where
  "aged e e' \<longleftrightarrow> e' = e \<or> ce_status e = CertActive \<and> e' = e\<lparr>ce_status := CertRevoked\<rparr>"

definition serials_ok :: "pki_index \<Rightarrow> bool" where
  "serials_ok ix \<longleftrightarrow> sorted_wrt (<) (map ce_serial (px_entries ix)) \<and> (\<forall>e \<in> set (px_entries ix). ce_serial e < px_next_serial ix)"

definition extends_registry :: "pki_index \<Rightarrow> pki_index \<Rightarrow> bool" where
  "extends_registry ix ix' \<longleftrightarrow> (\<exists>old new. px_entries ix' = old @ new \<and> list_all2 aged (px_entries ix) old)"

lemma aged_refl [simp]: "aged e e"
  by (simp add: aged_def)

lemma aged_serial [simp]: "aged e e' \<Longrightarrow> ce_serial e' = ce_serial e"
  by (auto simp: aged_def)

lemma aged_revoked: "ce_status e = CertActive \<Longrightarrow> aged e (e\<lparr>ce_status := CertRevoked\<rparr>)"
  unfolding aged_def by blast

lemma aged_trans: "aged a b \<Longrightarrow> aged b c \<Longrightarrow> aged a c"
proof -
  assume ab: "aged a b" and bc: "aged b c"
  from ab consider "b = a" | "b = a\<lparr>ce_status := CertRevoked\<rparr>" unfolding aged_def by blast
  then show "aged a c"
  proof cases
    case 2
    then have "ce_status b = CertRevoked" by simp
    then have "\<not> ce_status b = CertActive" by simp
    with bc have "c = b" unfolding aged_def by blast
    with ab show ?thesis by simp
  qed (use bc in simp)
qed

lemma aged_all_refl [simp]: "list_all2 aged es es"
  by (simp add: list_all2_same)

lemma aged_all_serials: "list_all2 aged es es' \<Longrightarrow> map ce_serial es' = map ce_serial es"
  by (induction rule: list_all2_induct) auto

lemma extends_aged: "list_all2 aged (px_entries ix) (px_entries ix') \<Longrightarrow> extends_registry ix ix'"
  unfolding extends_registry_def by (metis append_Nil2)

lemma extends_refl [simp]: "extends_registry ix ix"
  by (simp add: extends_aged)

lemma extends_trans: "extends_registry a b \<Longrightarrow> extends_registry b c \<Longrightarrow> extends_registry a c"
proof -
  assume "extends_registry a b" "extends_registry b c"
  then obtain old new old' new' where b: "px_entries b = old @ new" "list_all2 aged (px_entries a) old"
    and c: "px_entries c = old' @ new'" "list_all2 aged (old @ new) old'"
    unfolding extends_registry_def by auto
  from c(2) obtain older newer where "old' = older @ newer" "list_all2 aged old older"
    unfolding list_all2_append1 by blast
  with b(2) have "list_all2 aged (px_entries a) older" "px_entries c = older @ (newer @ new')"
    using c(1) list_all2_trans[OF aged_trans] by auto
  then show ?thesis unfolding extends_registry_def by blast
qed

lemma revoke_first_aged: "revoke_first name es = Some es' \<Longrightarrow> list_all2 aged es es'"
proof (induction es arbitrary: es')
  case (Cons e es)
  then show ?case by (cases "ce_name e = name \<and> ce_status e = CertActive") (auto intro: aged_revoked)
qed simp

lemma revoke_first_split:
  "revoke_first name es = Some es' \<Longrightarrow> \<exists>skipped e rest. es = skipped @ e # rest \<and> ce_name e = name \<and> ce_status e = CertActive \<and>
     (\<forall>x \<in> set skipped. \<not> (ce_name x = name \<and> ce_status x = CertActive)) \<and> es' = skipped @ e\<lparr>ce_status := CertRevoked\<rparr> # rest"
proof (induction es arbitrary: es')
  case (Cons a es)
  show ?case
  proof (cases "ce_name a = name \<and> ce_status a = CertActive")
    case True
    with Cons.prems show ?thesis by (intro exI[of _ "[]"]) auto
  next
    case False
    with Cons.prems obtain es'' where "revoke_first name es = Some es''" "es' = a # es''" by (auto split: if_splits)
    with Cons.IH[OF this(1)] False show ?thesis by (metis append_Cons set_ConsD)
  qed
qed simp

lemma revoke_entry_aged:
  assumes "revoke_entry name ix = Inr ix'"
  shows "list_all2 aged (px_entries ix) (px_entries ix')" "px_next_serial ix' = px_next_serial ix"
  using assms revoke_first_aged[of name "rev (px_entries ix)"]
  by (auto simp: revoke_entry_def list_all2_rev1 split: option.splits)

lemma serials_aged:
  assumes "serials_ok ix" "list_all2 aged (px_entries ix) (px_entries ix')" "px_next_serial ix' = px_next_serial ix"
  shows "serials_ok ix'"
proof -
  have "map ce_serial (px_entries ix') = map ce_serial (px_entries ix)" using aged_all_serials[OF assms(2)] .
  then have same: "map ce_serial (px_entries ix') = map ce_serial (px_entries ix)" "ce_serial ` set (px_entries ix') = ce_serial ` set (px_entries ix)"
    by (simp_all flip: set_map)
  have "ce_serial e < px_next_serial ix'" if "e \<in> set (px_entries ix')" for e
  proof -
    from that same(2) obtain e0 where "e0 \<in> set (px_entries ix)" "ce_serial e = ce_serial e0" by (metis imageE imageI)
    with assms show ?thesis by (simp add: serials_ok_def)
  qed
  with assms(1) same(1) show ?thesis by (simp add: serials_ok_def)
qed

text \<open>The three indices an issuing operation may end with: the old one, the one after the serial was taken,
  or the one with the new entry.\<close>

definition with_entry :: "pki_index \<Rightarrow> pki_index \<Rightarrow> bool" where
  "with_entry ix ix' \<longleftrightarrow> (\<exists>e. ce_serial e = px_next_serial ix \<and> ce_status e = CertActive \<and> ix' = add_entry e (snd (next_serial ix)))"

definition issuing :: "pki_index \<Rightarrow> 'w pki \<Rightarrow> bool" where
  "issuing ix s \<longleftrightarrow> pk_index s = ix \<or> pk_index s = snd (next_serial ix) \<or> with_entry ix (pk_index s)"

definition grown :: "pki_index \<Rightarrow> pki_index \<Rightarrow> bool" where
  "grown ix ix' \<longleftrightarrow> (serials_ok ix \<and> px_next_serial ix + 1 < 2 ^ 64 \<longrightarrow>
     serials_ok ix' \<and> px_next_serial ix' \<le> px_next_serial ix + 1) \<and> extends_registry ix ix'"

lemma grown_same [simp]: "grown ix ix"
  by (simp add: grown_def)

lemma grown_aged:
  "list_all2 aged (px_entries ix) (px_entries ix') \<Longrightarrow> px_next_serial ix' = px_next_serial ix \<Longrightarrow> grown ix ix'"
  by (auto simp: grown_def extends_registry_def intro: serials_aged)

lemma grown_taken: "grown ix (snd (next_serial ix))"
proof -
  have "extends_registry ix (snd (next_serial ix))" by (simp add: extends_aged next_serial_def)
  then show ?thesis by (auto simp: grown_def serials_ok_def next_serial_def)
qed

lemma grown_entry:
  assumes "ce_serial e = px_next_serial ix"
  shows "grown ix (add_entry e (snd (next_serial ix)))"
proof -
  have "extends_registry ix (add_entry e (snd (next_serial ix)))"
    unfolding extends_registry_def
    by (rule exI[of _ "px_entries ix"], rule exI[of _ "[e]"]) (simp add: add_entry_def next_serial_def)
  with assms show ?thesis by (auto simp: grown_def serials_ok_def next_serial_def add_entry_def sorted_wrt_append)
qed

lemma grown_issuing: "issuing ix s \<Longrightarrow> grown ix (pk_index s)"
  using grown_taken grown_entry by (auto simp: issuing_def with_entry_def)


subsection \<open>What each operation does to the registry\<close>

lemma bind_assoc: "sx_bind (sx_bind m f) g = sx_bind m (\<lambda>x. sx_bind (f x) g)"
  by (rule ext) (auto simp: sx_bind_def split: prod.splits sum.splits)

lemma bind_return: "sx_bind (sx_return x) f = f x"
  by (rule ext) (simp add: sx_bind_def sx_return_def)

lemma bind_unit: "sx_bind m sx_return = m"
  by (rule ext) (auto simp: sx_bind_def sx_return_def split: prod.splits sum.splits)

lemma run_simps:
  "sx_bind (on_index f) g s = g () (s\<lparr>pk_index := f (pk_index s)\<rparr>)"
  "sx_bind (sx_ask h) k s = (case h s of Inl e \<Rightarrow> (Inl e, s) | Inr x \<Rightarrow> k x s)"
  by (simp_all add: sx_bind_def on_index_def sx_update_def sx_ask_def)

lemma bind_InrE:
  assumes "sx_bind m f s = (Inr y, s')"
  obtains x s1 where "m s = (Inr x, s1)" "f x s1 = (Inr y, s')"
  using assms unfolding sx_bind_Inr_iff by blast

lemma record_entry_index: "record_entry env e s = (r, s') \<Longrightarrow> pk_index s' = add_entry e (pk_index s)"
  using keepsD[OF keeps_save(1)[of env]] by (fastforce simp: record_entry_def sx_bind_def on_index_def sx_update_def)

lemma record_keeps [keeps_intros]: "INDEX_FILE \<noteq> p \<Longrightarrow> keeps (\<lambda>s. pk_files s p) (record_entry env e)"
  unfolding record_entry_def by (intro keeps_intros)

lemma signed_entry:
  "generate_client_cert env key ca_pem ca_key name role sans days n roles groups s = (Inr (pem, e), s') \<Longrightarrow>
    ce_serial e = n \<and> ce_status e = CertActive"
  "sign_csr env csr ca_pem ca_key name role days n roles groups s = (Inr (pem, e), s') \<Longrightarrow>
    ce_serial e = n \<and> ce_status e = CertActive"
  by (auto simp: generate_client_cert_def sign_csr_def sx_bind_Inr_iff split: if_splits)

text \<open>A serial is taken, an entry with it is made and stored, and the entry is recorded.\<close>

definition issue ::
  "('k, 'w) pki_env \<Rightarrow> (nat \<Rightarrow> ('w, 'x \<times> cert_entry) px) \<Rightarrow> ('x \<Rightarrow> ('w, unit) px) \<Rightarrow> ('x \<Rightarrow> 'y) \<Rightarrow> ('w, 'y) px" where
  "issue env body store res = sx_bind take_serial (\<lambda>n. sx_bind (body n) (\<lambda>(x, e).
     sx_bind (store x) (\<lambda>_. sx_bind (record_entry env e) (\<lambda>_. sx_return (res x)))))"

lemma issue_issues:
  assumes body: "\<And>n. keeps pk_index (body n)" and serial: "\<And>n s x e s'. body n s = (Inr (x, e), s') \<Longrightarrow> ce_serial e = n \<and> ce_status e = CertActive"
    and store: "\<And>x. keeps pk_index (store x)" and run: "issue env body store res s = (r, s')"
  shows "issuing (pk_index s) s'"
proof -
  obtain s1 where s1: "take_serial s = (Inr (px_next_serial (pk_index s)), s1)" "pk_index s1 = snd (next_serial (pk_index s))"
    by (simp add: take_serial_def next_serial_def)
  let ?n = "px_next_serial (pk_index s)"
  obtain r2 s2 where s2: "body ?n s1 = (r2, s2)" by fastforce
  note same2 = keepsD[OF body s2]
  show ?thesis
  proof (cases r2)
    case (Inl x)
    with run s1 s2 same2 show ?thesis by (auto simp: issue_def sx_bind_def issuing_def)
  next
    case (Inr p)
    obtain x e where p: "p = (x, e)" by fastforce
    obtain r3 s3 where s3: "store x s2 = (r3, s3)" by fastforce
    note same3 = keepsD[OF store s3]
    obtain r4 s4 where s4: "record_entry env e s3 = (r4, s4)" by fastforce
    have e: "ce_serial e = ?n" "ce_status e = CertActive" using serial s2 Inr p by auto
    have "issuing (pk_index s) s4"
      using record_entry_index[OF s4] same2 same3 s1 e by (auto simp: issuing_def with_entry_def)
    moreover have "issuing (pk_index s) s3" using same2 same3 s1 by (simp add: issuing_def)
    ultimately show ?thesis
      using run s1 s2 s3 s4 Inr p
      by (cases r3; cases r4) (auto simp: issue_def sx_bind_def sx_return_def)
  qed
qed

text \<open>The three issuing operations have this form.\<close>

lemma generate_client_form:
  "generate_client env name role sans days roles groups = sx_bind (ca_cert_pem env) (\<lambda>ca_pem. sx_bind (ca_key_handle env) (\<lambda>ca_key.
     issue env (\<lambda>n. sx_bind (backend_generate env name) (\<lambda>key. generate_client_cert env key ca_pem ca_key name role sans days n roles groups))
       (write_file env (cert_file name)) (\<lambda>_. (cert_file name, key_file name))))"
  by (simp add: generate_client_def issue_def bind_assoc case_prod_beta')

lemma manager_sign_csr_form:
  "manager_sign_csr env csr name role days roles groups = sx_bind (ca_cert_pem env) (\<lambda>ca_pem. sx_bind (ca_key_handle env) (\<lambda>ca_key.
     issue env (\<lambda>n. sign_csr env csr ca_pem ca_key name role days n roles groups) (\<lambda>_. sx_return ()) (\<lambda>pem. pem)))"
  by (simp add: manager_sign_csr_def issue_def bind_return case_prod_beta')

lemma keeps_then:
  assumes "keeps pk_index m" "\<And>x s r s'. f x s = (r, s') \<Longrightarrow> issuing (pk_index s) s'" "sx_bind m f s = (r, s')"
  shows "issuing (pk_index s) s'"
proof -
  obtain r1 s1 where m: "m s = (r1, s1)" by fastforce
  note same = keepsD[OF assms(1) m]
  show ?thesis
  proof (cases r1)
    case (Inl e)
    with assms(3) m same show ?thesis by (simp add: sx_bind_def issuing_def)
  next
    case (Inr x)
    with assms(3) m have "f x s1 = (r, s')" by (simp add: sx_bind_def)
    from assms(2)[OF this] same show ?thesis by simp
  qed
qed

lemma generate_client_issues: "generate_client env name role sans days roles groups s = (r, s') \<Longrightarrow> issuing (pk_index s) s'"
  unfolding generate_client_form
  by (erule keeps_then[OF keeps_loads(1) keeps_then[OF keeps_loads(2) issue_issues], rotated -1], rule keeps_intros, rule keeps_intros)
    (auto intro!: keeps_intros simp: sx_bind_Inr_iff dest: signed_entry)

lemma manager_sign_csr_issues: "manager_sign_csr env csr name role days roles groups s = (r, s') \<Longrightarrow> issuing (pk_index s) s'"
  unfolding manager_sign_csr_form
  by (erule keeps_then[OF keeps_loads(1) keeps_then[OF keeps_loads(2) issue_issues], rotated -1])
    (auto intro!: keeps_intros dest: signed_entry)


lemma import_issues: "import_signed_client env name role pem s = (r, s') \<Longrightarrow> issuing (pk_index s) s'"
proof -
  assume run: "import_signed_client env name role pem s = (r, s')"
  show ?thesis
  proof (cases "pe_validity env pem")
    case (Some v)
    obtain t until where v: "v = (t, until)" by fastforce
    show ?thesis
    proof (cases "pe_pem_der env pem")
      case der: (Some der)
      let ?body = "\<lambda>n. sx_return ((), \<lparr>ce_serial = n, ce_name = name, ce_role = role, ce_status = CertActive, ce_not_before = t,
         ce_not_after = until, ce_fingerprint = sha256_fingerprint env der, ce_subject = ''CN='' @ name, ce_sans = [], ce_roles = [], ce_groups = []\<rparr>)"
      have "issue env ?body (\<lambda>_. sx_return ()) (\<lambda>_. ()) s = (r, s')"
        using run by (simp add: import_signed_client_def Some v der issue_def bind_return bind_unit)
      then show ?thesis by (rule issue_issues[rotated -1]) (auto intro: keeps_intros)
    qed (use run Some v in \<open>simp add: import_signed_client_def issuing_def\<close>)
  qed (use run in \<open>simp add: import_signed_client_def issuing_def\<close>)
qed

lemma revoke_client_index:
  assumes "revoke_client env name s = (r, s')"
  shows "pk_index s' = pk_index s \<and> revoke_entry name (pk_index s) = Inl (NoActiveCertificate name) \<and> r = Inl (NoActiveCertificate name)
    \<or> revoke_entry name (pk_index s) = Inr (pk_index s')"
proof (cases "revoke_entry name (pk_index s)")
  case (Inl e)
  then have "e = NoActiveCertificate name" by (auto simp: revoke_entry_def split: option.splits)
  with assms Inl show ?thesis by (simp add: revoke_client_def run_simps)
next
  case (Inr ix)
  have "keeps pk_index (sx_bind (save_index env) (\<lambda>_. regenerate_crl env))" by (intro keeps_intros)
  from keepsD[OF this] assms Inr have "pk_index s' = ix" by (fastforce simp: revoke_client_def run_simps)
  with Inr show ?thesis by simp
qed

lemma grown_revoked: "revoke_entry name ix = Inr ix' \<Longrightarrow> grown ix ix'"
  using revoke_entry_aged by (blast intro: grown_aged)

lemma grown_after_aged:
  assumes "list_all2 aged (px_entries a) (px_entries b)" "px_next_serial b = px_next_serial a" "grown b c"
  shows "grown a c"
  using assms extends_trans[OF extends_aged[OF assms(1)]] serials_aged[OF _ assms(1,2)] by (auto simp: grown_def)

lemma rotate_grows: "rotate_client env name sans days s = (r, s') \<Longrightarrow> grown (pk_index s) (pk_index s')"
proof -
  assume run: "rotate_client env name sans days s = (r, s')"
  obtain r1 s1 where s1: "revoke_client env name s = (r1, s1)" by fastforce
  have aged: "list_all2 aged (px_entries (pk_index s)) (px_entries (pk_index s1))" "px_next_serial (pk_index s1) = px_next_serial (pk_index s)"
    using revoke_client_index[OF s1] revoke_entry_aged[of name "pk_index s"] by auto
  let ?remove = "\<lambda>s. if key_file name \<in> dom (pk_files s) then remove_file env (key_file name) s else (Inr (), s)"
  obtain r2 s2 where s2: "?remove s1 = (r2, s2)" by fastforce
  then have same: "pk_index s2 = pk_index s1" using keepsD[OF keeps_remove(1)] by (auto split: if_splits)
  show ?thesis
  proof (cases "find_by_name name (pk_index s)")
    case (Some existing)
    obtain r3 s3 where s3: "generate_client env name (ce_role existing) sans days (ce_roles existing) (ce_groups existing) s2 = (r3, s3)" by fastforce
    have "grown (pk_index s1) (pk_index s3)" using grown_issuing[OF generate_client_issues[OF s3]] same by simp
    then have "grown (pk_index s) (pk_index s3)" by (rule grown_after_aged[OF aged])
    moreover have "grown (pk_index s) (pk_index s1)" by (rule grown_aged[OF aged])
    ultimately show ?thesis
      using run s1 s2 s3 Some same
      by (cases r1; cases r2) (auto simp: rotate_client_def client_info_def sx_bind_def sx_ask_def)
  qed (use run in \<open>auto simp: rotate_client_def client_info_def sx_bind_def sx_ask_def\<close>)
qed

lemma keeps_grown: "keeps pk_index m \<Longrightarrow> grown (pk_index s) (pk_index (snd (m s)))"
  by (metis grown_same keepsD prod.collapse)

lemma grown_enrollments: "px_entries ix' = px_entries ix \<Longrightarrow> px_next_serial ix' = px_next_serial ix \<Longrightarrow> grown ix ix'"
  by (rule grown_aged) simp_all


lemma use_enrollment_entries:
  "use_enrollment t token role ix = Inr (e, ix') \<Longrightarrow> px_entries ix' = px_entries ix \<and> px_next_serial ix' = px_next_serial ix"
  by (auto simp: use_enrollment_def Let_def sbind_Inr_iff split: option.splits if_splits)

lemma then_save: "sx_bind (save_index env) (\<lambda>_. sx_return x) s = (r, s') \<Longrightarrow> pk_index s' = pk_index s"
  by (erule keepsD[rotated]) (intro keeps_intros)

lemma enrollments_grow:
  "create_enrollment env role roles uses expires s = (r1, s') \<Longrightarrow> grown (pk_index s) (pk_index s')"
  "revoke_enrollment env tid s = (r2, s') \<Longrightarrow> grown (pk_index s) (pk_index s')"
  "validate_enrollment env token role s = (r3, s') \<Longrightarrow> grown (pk_index s) (pk_index s')"
proof -
  assume "create_enrollment env role roles uses expires s = (r1, s')"
  then obtain e where "pk_index s' = add_enrollment e (pk_index s)"
    by (auto simp: create_enrollment_def sx_bind_def[of "drawn d" for d] drawn_def run_simps dest!: then_save split: prod.splits)
  then show "grown (pk_index s) (pk_index s')" by (intro grown_enrollments) (simp_all add: add_enrollment_def)
next
  assume "revoke_enrollment env tid s = (r2, s')"
  then show "grown (pk_index s) (pk_index s')"
    using keepsD[OF keeps_save(1)[of env]]
    by (intro grown_enrollments) (auto simp: revoke_enrollment_def run_simps split: option.splits)
next
  assume run: "validate_enrollment env token role s = (r3, s')"
  obtain t w where t: "pe_clock env (pk_world s) = (t, w)" by fastforce
  show "grown (pk_index s) (pk_index s')"
  proof (cases "use_enrollment t token role (pk_index s)")
    case (Inr p)
    obtain e ix where p: "p = (e, ix)" by fastforce
    with run t Inr have "pk_index s' = ix"
      by (auto simp: validate_enrollment_def sx_bind_def[of "drawn d" for d] drawn_def run_simps dest!: then_save)
    with use_enrollment_entries Inr p show ?thesis by (auto intro: grown_enrollments)
  qed (use run t in \<open>auto simp: validate_enrollment_def sx_bind_def[of "drawn d" for d] drawn_def run_simps\<close>)
qed

lemma init_keeps_index: "keeps pk_index (init_ca env days)"
proof -
  have "keeps pk_index (sx_bind (backend_generate env CA_KEY_LABEL) (\<lambda>key. sx_bind (generate_ca env key days) (\<lambda>pem.
      sx_bind (write_file env CA_CERT_FILE pem) (\<lambda>_. save_index env))))"
    unfolding generate_ca_def by (intro keeps_intros)
  then show ?thesis by (auto simp: keeps_def init_ca_def split: if_splits)
qed

lemma key_files_keep:
  assumes "\<And>d :: 'w \<Rightarrow> (string \<times> string) \<times> 'w. keeps f (drawn d)" "\<And>d :: 'w \<Rightarrow> string option \<times> 'w. keeps f (drawn d)"
    and "\<And>text. keeps f (write_file env (storage_key_path label) text)" "\<And>text. keeps f (write_file env (identity_file label) text)"
      "\<And>text. keeps f (write_file env (public_file label) text)"
  shows "keeps f (ensure_local_storage_key env label)" "keeps f (ensure_vault_keypair env label)"
proof -
  have "keeps f (sx_bind (read_file env p) (\<lambda>key. if length key \<noteq> 32 then sx_throw (WrongKeyLength (length key)) else sx_return key))"
    "keeps f (sx_bind (crypto (pe_random32 env)) (\<lambda>key. sx_bind (write_file env (storage_key_path label) key) (\<lambda>_. sx_return key)))" for p
    by (intro keeps_intros assms)+
  then show "keeps f (ensure_local_storage_key env label)"
    by (auto simp: keeps_def ensure_local_storage_key_def Let_def split: if_splits)
  let ?pub = "\<lambda>k s. if public_file label \<in> dom (pk_files s) then (Inr k, s)
      else sx_bind (write_file env (public_file label) (k @ [CHR 0x0A])) (\<lambda>_. sx_return k) s"
  have "keeps f (sx_bind (write_file env (public_file label) (k @ [CHR 0x0A])) (\<lambda>_. sx_return k))" for k
    by (intro keeps_intros assms)
  then have pub: "keeps f (?pub k)" for k by (auto simp: keeps_def split: if_splits)
  have "keeps f (sx_bind (if b then sx_bind (read_file env (identity_file label)) (\<lambda>text.
        case pe_age_public env (trim text) of Some k \<Rightarrow> sx_return k | None \<Rightarrow> sx_throw CryptoFailed)
      else sx_bind (drawn (pe_age_generate env)) (\<lambda>(identity, public_key).
        sx_bind (write_file env (identity_file label) identity) (\<lambda>_.
        sx_bind (write_file env (public_file label) (public_key @ [CHR 0x0A])) (\<lambda>_. sx_return public_key)))) ?pub)" for b
    by (intro keeps_intros assms pub)
  then show "keeps f (ensure_vault_keypair env label)"
    by (auto simp: keeps_def ensure_vault_keypair_def Let_def)
qed

lemma perform_grows: "grown (pk_index s) (pk_index (perform env c s))"
proof (cases c)
  case (EnsureStorageKey label)
  show ?thesis unfolding EnsureStorageKey perform.simps by (intro keeps_grown key_files_keep keeps_world keeps_write)
next
  case (EnsureVaultKeypair label)
  show ?thesis unfolding EnsureVaultKeypair perform.simps by (intro keeps_grown key_files_keep keeps_world keeps_write)
next
  case (InitCa days)
  show ?thesis unfolding InitCa perform.simps by (intro keeps_grown init_keeps_index)
next
  case (RevokeClient name)
  obtain r s' where run: "revoke_client env name s = (r, s')" by fastforce
  then show ?thesis using RevokeClient revoke_client_index[OF run] grown_revoked by auto
qed (simp_all add: grown_issuing[OF generate_client_issues[OF surjective_pairing]] grown_issuing[OF import_issues[OF surjective_pairing]]
    grown_issuing[OF manager_sign_csr_issues[OF surjective_pairing]] rotate_grows[OF surjective_pairing]
    enrollments_grow[OF surjective_pairing])

lemma perform_all_grows:
  "serials_ok (pk_index s) \<Longrightarrow> px_next_serial (pk_index s) + length calls < 2 ^ 64 \<Longrightarrow>
    serials_ok (pk_index (fold (perform env) calls s)) \<and> extends_registry (pk_index s) (pk_index (fold (perform env) calls s))"
proof (induction calls arbitrary: s)
  case (Cons c calls)
  let ?s = "perform env c s"
  have "serials_ok (pk_index ?s)" "px_next_serial (pk_index ?s) \<le> px_next_serial (pk_index s) + 1" "extends_registry (pk_index s) (pk_index ?s)"
    using perform_grows[of s env c] Cons.prems by (auto simp: grown_def)
  with Cons.IH[of ?s] Cons.prems extends_trans show ?case by fastforce
qed simp


subsection \<open>The files of the authority\<close>

lemma path_simps [simp]:
  "cert_file name \<noteq> CA_CERT_FILE" "key_file name \<noteq> CA_CERT_FILE" "INDEX_FILE \<noteq> CA_CERT_FILE" "CRL_FILE \<noteq> CA_CERT_FILE"
  "cert_file name \<noteq> key_file label" "INDEX_FILE \<noteq> key_file label" "CRL_FILE \<noteq> key_file label" "INDEX_FILE \<noteq> CRL_FILE"
  "key_file name = key_file label \<longleftrightarrow> name = label" "storage_key_path name \<noteq> CA_CERT_FILE" "storage_key_path name \<noteq> key_file label"
  "identity_file name \<noteq> CA_CERT_FILE" "identity_file name \<noteq> key_file label" "public_file name \<noteq> CA_CERT_FILE"
  "public_file name \<noteq> key_file label"
  by (simp_all add: cert_file_def key_file_def CA_CERT_FILE_def INDEX_FILE_def CRL_FILE_def storage_key_path_def identity_file_def public_file_def)

lemma keeps_fun_if: "keeps f g \<Longrightarrow> keeps f h \<Longrightarrow> keeps f (\<lambda>s. if b s then g s else h s)"
  by (simp add: keeps_def)

lemma client_keeps_file:
  assumes "key_file name \<noteq> p" "cert_file name \<noteq> p" "INDEX_FILE \<noteq> p"
  shows "keeps (\<lambda>s. pk_files s p) (generate_client env name role sans days roles groups)"
  unfolding generate_client_def by (intro keeps_intros assms)

lemma revoke_keeps_file:
  assumes "INDEX_FILE \<noteq> p" "CRL_FILE \<noteq> p"
  shows "keeps (\<lambda>s. pk_files s p) (revoke_client env name)"
  unfolding revoke_client_def by (intro keeps_intros assms)

lemma rotate_keeps_file:
  assumes "key_file name \<noteq> p" "cert_file name \<noteq> p" "INDEX_FILE \<noteq> p" "CRL_FILE \<noteq> p"
  shows "keeps (\<lambda>s. pk_files s p) (rotate_client env name sans days)"
  unfolding rotate_client_def client_info_def
  by (intro keeps_bind keeps_simple revoke_keeps_file client_keeps_file keeps_fun_if keeps_remove(2) assms) (simp add: keeps_def)

lemma other_calls_keep_file:
  assumes "INDEX_FILE \<noteq> p"
  shows "keeps (\<lambda>s. pk_files s p) (manager_sign_csr env csr name role days roles groups)"
    "keeps (\<lambda>s. pk_files s p) (import_signed_client env name role pem)"
    "keeps (\<lambda>s. pk_files s p) (create_enrollment env role roles uses expires)"
    "keeps (\<lambda>s. pk_files s p) (validate_enrollment env token role)"
    "keeps (\<lambda>s. pk_files s p) (revoke_enrollment env tid)"
proof -
  show "keeps (\<lambda>s. pk_files s p) (import_signed_client env name role pem)"
    unfolding import_signed_client_def by (intro keeps_intros assms)
  have "keeps (\<lambda>s. pk_files s p) (sx_bind (on_index g) (\<lambda>_. save_index env))" for g by (intro keeps_intros assms)
  then show "keeps (\<lambda>s. pk_files s p) (revoke_enrollment env tid)"
    by (fastforce simp: keeps_def revoke_enrollment_def split: option.splits)
qed (unfold manager_sign_csr_def create_enrollment_def validate_enrollment_def, (intro keeps_intros assms)+)

lemma call_keeps_ca:
  assumes "p = CA_CERT_FILE \<or> p = key_file CA_KEY_LABEL" "CA_CERT_FILE \<in> dom (pk_files s)" "key_name c \<noteq> Some CA_KEY_LABEL"
  shows "pk_files (perform env c s) p = pk_files s p"
proof -
  note kept = keeps_run[of "\<lambda>s. pk_files s p"]
  have side: "cert_file n \<noteq> p" "INDEX_FILE \<noteq> p" "CRL_FILE \<noteq> p" "storage_key_path n \<noteq> p" "identity_file n \<noteq> p" "public_file n \<noteq> p" for n
    using assms(1) by auto
  have key: "key_file n \<noteq> p" if "n \<noteq> CA_KEY_LABEL" for n using assms(1) that by auto
  have ensured: "keeps (\<lambda>s. pk_files s p) (ensure_local_storage_key env l)" "keeps (\<lambda>s. pk_files s p) (ensure_vault_keypair env l)" for l
    by (intro key_files_keep keeps_world keeps_write(2) side)+
  show ?thesis
  proof (cases c)
    case (InitCa days)
    with assms(2) show ?thesis by (simp add: init_ca_def)
  qed (use assms(3) in \<open>simp_all add: kept[OF client_keeps_file] kept[OF revoke_keeps_file] kept[OF rotate_keeps_file]
      kept[OF other_calls_keep_file(1)] kept[OF other_calls_keep_file(2)] kept[OF other_calls_keep_file(3)]
      kept[OF other_calls_keep_file(4)] kept[OF other_calls_keep_file(5)] kept[OF ensured(1)] kept[OF ensured(2)] side key\<close>)
qed

subsection \<open>Properties\<close>

text \<open>Whatever calls the manager gets and however they end, serial numbers stay distinct and increasing, no entry
  of the registry disappears or changes except that an active one may become revoked, and none that was revoked
  becomes active again.\<close>

theorem registry_history:
  assumes "serials_ok (pk_index s)" "px_next_serial (pk_index s) + length calls < 2 ^ 64"
  shows "let es = px_entries (pk_index s); es' = px_entries (pk_index (fold (perform env) calls s)) in
    sorted_wrt (<) (map ce_serial es') \<and> length es \<le> length es' \<and>
    (\<forall>i < length es. es' ! i = es ! i \<or> ce_status (es ! i) = CertActive \<and> es' ! i = (es ! i)\<lparr>ce_status := CertRevoked\<rparr>)"
proof -
  let ?es = "px_entries (pk_index s)" and ?es' = "px_entries (pk_index (fold (perform env) calls s))"
  obtain old new where old: "?es' = old @ new" "list_all2 aged ?es old"
    using perform_all_grows[OF assms, of env] unfolding extends_registry_def by auto
  have "aged (?es ! i) (?es' ! i)" if "i < length ?es" for i
    using old list_all2_nthD[OF old(2) that] list_all2_lengthD[OF old(2)] that by (simp add: nth_append)
  moreover have "length ?es \<le> length ?es'" using old list_all2_lengthD[OF old(2)] by simp
  moreover have "sorted_wrt (<) (map ce_serial ?es')" using perform_all_grows[OF assms, of env] by (simp add: serials_ok_def)
  ultimately show ?thesis unfolding Let_def aged_def by blast
qed

text \<open>Once the authority exists, no call changes its certificate or its key, as long as no client certificate is
  called like the key of the authority.\<close>

theorem ca_files_kept:
  assumes "CA_CERT_FILE \<in> dom (pk_files s)" "list_all (\<lambda>c. key_name c \<noteq> Some CA_KEY_LABEL) calls"
  shows "pk_files (fold (perform env) calls s) CA_CERT_FILE = pk_files s CA_CERT_FILE \<and>
    pk_files (fold (perform env) calls s) (key_file CA_KEY_LABEL) = pk_files s (key_file CA_KEY_LABEL)"
  using assms
proof (induction calls arbitrary: s)
  case (Cons c calls)
  let ?s = "perform env c s"
  have same: "pk_files ?s CA_CERT_FILE = pk_files s CA_CERT_FILE" "pk_files ?s (key_file CA_KEY_LABEL) = pk_files s (key_file CA_KEY_LABEL)"
    using call_keeps_ca[of _ s c env] Cons.prems by auto
  then have "CA_CERT_FILE \<in> dom (pk_files ?s)" using Cons.prems by (simp add: domIff)
  from Cons.IH[OF this] Cons.prems same show ?case by simp
qed simp

text \<open>A client certificate called \<open>ca\<close> overwrites the key of the authority.\<close>

lemma client_called_ca:
  assumes "generate_client env CA_KEY_LABEL role sans days roles groups s = (Inr r, s')"
  shows "\<exists>pem w w'. pe_keygen env w = (Some pem, w') \<and> pk_files s' (key_file CA_KEY_LABEL) = Some pem"
proof -
  let ?path = "key_file CA_KEY_LABEL"
  obtain key s1 s2 s3 ca_pem ca_key n pem e where gen: "backend_generate env CA_KEY_LABEL s1 = (Inr key, s2)"
    and cert: "generate_client_cert env key ca_pem ca_key CA_KEY_LABEL role sans days n roles groups s2 = (Inr (pem, e), s3)"
    and rest: "sx_bind (write_file env (cert_file CA_KEY_LABEL) pem) (\<lambda>_. sx_bind (record_entry env e)
       (\<lambda>_. sx_return (cert_file CA_KEY_LABEL, key_file CA_KEY_LABEL))) s3 = (Inr r, s')"
    using assms unfolding generate_client_def by (elim bind_InrE) (auto split: prod.splits)
  have "keeps (\<lambda>s. pk_files s ?path) (generate_client_cert env key ca_pem ca_key CA_KEY_LABEL role sans days n roles groups)"
    "keeps (\<lambda>s. pk_files s ?path) (sx_bind (write_file env (cert_file CA_KEY_LABEL) pem) (\<lambda>_. sx_bind (record_entry env e)
       (\<lambda>_. sx_return (cert_file CA_KEY_LABEL, key_file CA_KEY_LABEL))))"
    by (intro keeps_intros path_simps)+
  from keepsD[OF this(1) cert] keepsD[OF this(2) rest] have same: "pk_files s' ?path = pk_files s2 ?path" by simp
  obtain w' pem where "pe_keygen env (pk_world s1) = (Some pem, w')" "pk_files s2 (key_file CA_KEY_LABEL) = Some pem"
    using gen unfolding backend_generate_def crypto_def
    by (elim bind_InrE) (auto simp: drawn_def write_file_def parse_key_def split: prod.splits option.splits)
  with same show ?thesis by auto
qed


lemma write_file_Inr: "write_file env path text s = (Inr r, s') \<Longrightarrow> pk_files s' path = Some text"
  by (auto simp: write_file_def split: prod.splits option.splits)

lemma revoke_first_None: "revoke_first name es = None \<longleftrightarrow> (\<forall>x \<in> set es. \<not> (ce_name x = name \<and> ce_status x = CertActive))"
  by (induction es) auto

lemma revoke_entry_split:
  assumes "revoke_entry name ix = Inr ix'"
  shows "\<exists>before e later. px_entries ix = before @ e # later \<and> ce_name e = name \<and> ce_status e = CertActive \<and>
    (\<forall>x \<in> set later. \<not> (ce_name x = name \<and> ce_status x = CertActive)) \<and> px_entries ix' = before @ e\<lparr>ce_status := CertRevoked\<rparr> # later"
proof -
  from assms obtain es where es: "revoke_first name (rev (px_entries ix)) = Some es" "ix' = ix\<lparr>px_entries := rev es\<rparr>"
    by (auto simp: revoke_entry_def split: option.splits)
  from revoke_first_split[OF es(1)] obtain skipped e rest where split: "rev (px_entries ix) = skipped @ e # rest"
    "ce_name e = name" "ce_status e = CertActive" "\<forall>x \<in> set skipped. \<not> (ce_name x = name \<and> ce_status x = CertActive)"
    "es = skipped @ e\<lparr>ce_status := CertRevoked\<rparr> # rest" by blast
  from split(1) have "px_entries ix = rev rest @ e # rev skipped"
    by (metis append.assoc append_Cons append_Nil rev.simps(2) rev_append rev_rev_ident)
  with split es show ?thesis by (intro exI[of _ "rev rest"] exI[of _ e] exI[of _ "rev skipped"]) simp
qed

text \<open>A successful revocation revokes the newest active certificate of the name and no other, and leaves on disk the
  new registry and a revocation list of exactly the serial numbers that are revoked in it.\<close>

theorem revocation_published:
  assumes "revoke_client env name s = (Inr (), s')"
  shows "\<exists>before e later. px_entries (pk_index s) = before @ e # later \<and> ce_name e = name \<and> ce_status e = CertActive \<and>
      (\<forall>x \<in> set later. \<not> (ce_name x = name \<and> ce_status x = CertActive)) \<and>
      px_entries (pk_index s') = before @ e\<lparr>ce_status := CertRevoked\<rparr> # later \<and>
      pk_files s' INDEX_FILE = Some (pe_show_index env (pk_index s')) \<and>
      (\<exists>ca_pem ca_key t w crl w'. pk_files s' CRL_FILE = Some crl \<and> pe_sign_crl env
         (map ce_serial (filter (\<lambda>e. ce_status e = CertRevoked) (px_entries (pk_index s')))) t ca_pem ca_key w = (Some crl, w'))"
proof -
  from assms obtain ix where ix: "revoke_entry name (pk_index s) = Inr ix"
    and run: "sx_bind (save_index env) (\<lambda>_. regenerate_crl env) (s\<lparr>pk_index := ix\<rparr>) = (Inr (), s')"
    by (auto simp: revoke_client_def run_simps split: sum.splits)
  from run obtain s2 where save: "save_index env (s\<lparr>pk_index := ix\<rparr>) = (Inr (), s2)" and crl: "regenerate_crl env s2 = (Inr (), s')"
    by (elim bind_InrE) simp
  have index: "pk_index s' = ix" using keepsD[OF keeps_crl(1) crl] keepsD[OF keeps_save(1) save] by simp
  have stored: "pk_files s' INDEX_FILE = Some (pe_show_index env ix)"
    using keepsD[OF keeps_crl(2) crl, of INDEX_FILE] path_simps(8) write_file_Inr save by (fastforce simp: save_index_def)
  obtain ca_pem ca_key s3 revoked s4 crl_pem where revoked: "revoked = filter (\<lambda>e. ce_status e = CertRevoked) (px_entries (pk_index s3))"
    and s3: "pk_index s3 = ix" and gen: "generate_crl env revoked ca_pem ca_key s3 = (Inr crl_pem, s4)" and out: "write_file env CRL_FILE crl_pem s4 = (Inr (), s')"
  proof -
    from crl obtain ca_pem sa ca_key sb where a: "ca_cert_pem env s2 = (Inr ca_pem, sa)" "ca_key_handle env sa = (Inr ca_key, sb)"
      and b: "sx_bind (generate_crl env (filter (\<lambda>e. ce_status e = CertRevoked) (px_entries (pk_index sb))) ca_pem ca_key) (write_file env CRL_FILE) sb = (Inr (), s')"
      unfolding regenerate_crl_def by (elim bind_InrE[of "ca_cert_pem env"] bind_InrE[of "ca_key_handle env"]) (auto simp: run_simps)
    have "pk_index sb = ix"
      using keepsD[OF keeps_loads(1) a(1), of pk_index] keepsD[OF keeps_loads(2) a(2), of pk_index] keepsD[OF keeps_save(1) save] by simp
    with b that show thesis by (elim bind_InrE) blast
  qed
  from gen obtain t w w' where "pe_sign_crl env (map ce_serial revoked) t ca_pem ca_key w = (Some crl_pem, w')"
    unfolding generate_crl_def crypto_def by (elim bind_InrE) (auto simp: drawn_def split: prod.splits option.splits)
  moreover have "pk_files s' CRL_FILE = Some crl_pem" using write_file_Inr[OF out] .
  ultimately show ?thesis using revoke_entry_split[OF ix] index stored revoked s3 by metis
qed

text \<open>A revocation that fails after the registry changed is not completed by trying again.\<close>

lemma revocation_not_retried:
  assumes "px_entries (pk_index s) = before @ e # later" "ce_name e = name"
    and "\<forall>x \<in> set (before @ later). \<not> (ce_name x = name \<and> ce_status x = CertActive)"
    and "revoke_client env name s = (r, s1)"
  shows "revoke_client env name s1 = (Inl (NoActiveCertificate name), s1)"
proof -
  have "\<forall>x \<in> set (px_entries (pk_index s1)). \<not> (ce_name x = name \<and> ce_status x = CertActive)"
  proof (cases "revoke_entry name (pk_index s) = Inr (pk_index s1)")
    case True
    from revoke_entry_split[OF this] obtain b d l where d: "px_entries (pk_index s) = b @ d # l" "ce_name d = name" "ce_status d = CertActive"
      "\<forall>x \<in> set l. \<not> (ce_name x = name \<and> ce_status x = CertActive)" "px_entries (pk_index s1) = b @ d\<lparr>ce_status := CertRevoked\<rparr> # l"
      by blast
    have "length (filter (\<lambda>x. ce_name x = name \<and> ce_status x = CertActive) (before @ e # later)) \<le> 1"
    proof -
      have "filter (\<lambda>x. ce_name x = name \<and> ce_status x = CertActive) before = []" "filter (\<lambda>x. ce_name x = name \<and> ce_status x = CertActive) later = []"
        using assms(3) by (auto simp: filter_empty_conv)
      then show ?thesis by simp
    qed
    with d(1-3) assms(1) have "filter (\<lambda>x. ce_name x = name \<and> ce_status x = CertActive) b = []" by simp
    then have "\<forall>x \<in> set b. \<not> (ce_name x = name \<and> ce_status x = CertActive)" by (auto simp: filter_empty_conv)
    with d(4,5) show ?thesis by auto
  next
    case False
    with revoke_client_index[OF assms(4)] have "pk_index s1 = pk_index s" "revoke_entry name (pk_index s) = Inl (NoActiveCertificate name)" by auto
    then show ?thesis by (simp add: revoke_entry_def revoke_first_None split: option.splits)
  qed
  then show ?thesis by (simp add: revoke_client_def run_simps revoke_entry_def revoke_first_None[THEN iffD2])
qed

text \<open>A certificate signed for a request does not depend on the serial number, the role and the authorisations under
  which it is entered in the registry.\<close>

lemma csr_certificate_ignores_registry:
  assumes "sign_csr env csr ca_pem ca_key name role days n roles groups s = (Inr (pem, e), s')"
  shows "\<exists>e'. sign_csr env csr ca_pem ca_key name' role' days n' roles' groups' s = (Inr (pem, e'), s')"
proof -
  have csr: "pe_csr_ok env csr" using assms by (auto simp: sign_csr_def split: if_splits)
  with assms obtain t s1 until s2 der s3 where run: "drawn (pe_clock env) s = (Inr t, s1)" "days_after t days s1 = (Inr until, s2)"
    "crypto (pe_sign_csr env csr ca_pem ca_key) s2 = (Inr (pem, der), s3)" and "s' = s3"
    unfolding sign_csr_def by (simp split: if_splits) (elim bind_InrE, auto)
  then show ?thesis using csr by (simp add: sign_csr_def sx_bind_def)
qed


subsection \<open>Uses of an enrollment token\<close>

text \<open>How many of a sequence of attempts, each at a time and for a role, a token is accepted in.\<close>

fun accepted_uses :: "string \<Rightarrow> (datetime \<times> cert_role) list \<Rightarrow> pki_index \<Rightarrow> nat" where
  "accepted_uses token [] ix = 0"
| "accepted_uses token ((t, role) # attempts) ix = (case use_enrollment t token role ix of
     Inl _ \<Rightarrow> accepted_uses token attempts ix | Inr (_, ix') \<Rightarrow> Suc (accepted_uses token attempts ix'))"

lemma position_split: "\<forall>u \<in> set us. \<not> p u \<Longrightarrow> p x \<Longrightarrow> position p (us @ x # vs) = Some (length us)"
  by (induction us) auto

lemma accepted_unknown: "filter (\<lambda>t. et_token t = token) (px_enrollments ix) = [] \<Longrightarrow> accepted_uses token attempts ix = 0"
proof (induction attempts)
  case (Cons a attempts)
  then have "position (\<lambda>t. et_token t = token) (px_enrollments ix) = None" by (auto simp: position_None filter_empty_conv)
  with Cons show ?case by (cases a) (simp add: use_enrollment_def)
qed simp

text \<open>A token with \<open>n\<close> uses left is accepted by exactly the first \<open>n\<close> of the attempts that come in time and for its role.\<close>

theorem enrollment_uses_bounded:
  assumes "filter (\<lambda>t. et_token t = token) (px_enrollments ix) = [e]" "et_remaining_uses e = Some n"
  shows "accepted_uses token attempts ix =
    min n (length (filter (\<lambda>(t, role). role = et_role e \<and> (case et_expires_at e of Some x \<Rightarrow> t \<le> x | None \<Rightarrow> True)) attempts))"
  using assms
proof (induction attempts arbitrary: ix e n)
  case (Cons a attempts)
  obtain t role where a: "a = (t, role)" by fastforce
  let ?p = "\<lambda>t. et_token t = token"
  from Cons.prems(1) obtain us vs where split: "px_enrollments ix = us @ e # vs" "\<forall>u \<in> set us. \<not> ?p u" "?p e" "filter ?p vs = []"
    by (auto simp: filter_eq_Cons_iff)
  then have pos: "position ?p (us @ e # vs) = Some (length us)" by (intro position_split)
  have none: "filter ?p us = []" using split(2) by (simp add: filter_empty_conv)
  let ?good = "role = et_role e \<and> (case et_expires_at e of Some x \<Rightarrow> t \<le> x | None \<Rightarrow> True)"
  have usable: "token_usable t role e = Inr () \<longleftrightarrow> ?good \<and> n \<noteq> 0"
    using Cons.prems(2) by (auto simp: token_usable_def split: option.splits)
  show ?case
  proof (cases "?good \<and> n \<noteq> 0")
    case False
    with usable obtain x where "token_usable t role e = Inl x" by (cases "token_usable t role e") auto
    then have "accepted_uses token (a # attempts) ix = accepted_uses token attempts ix" by (simp add: a use_enrollment_def pos split(1))
    with Cons.IH[OF Cons.prems] False show ?thesis by (auto simp: a)
  next
    case True
    show ?thesis
    proof (cases "n = 1")
      case one: True
      let ?ix = "ix\<lparr>px_enrollments := us @ vs\<rparr>"
      have "use_enrollment t token role ix = Inr (e, ?ix)"
        using True usable Cons.prems(2) one by (simp add: use_enrollment_def pos split(1) Let_def remove_at_def)
      moreover have "accepted_uses token attempts ?ix = 0" by (rule accepted_unknown) (simp add: none split(4))
      ultimately show ?thesis using True one by (simp add: a)
    next
      case more: False
      let ?e = "e\<lparr>et_remaining_uses := Some (n - 1)\<rparr>"
      let ?ix = "ix\<lparr>px_enrollments := us @ ?e # vs\<rparr>"
      have "use_enrollment t token role ix = Inr (e, ?ix)"
        using True usable Cons.prems(2) more by (simp add: use_enrollment_def pos split(1) Let_def list_update_append)
      moreover have "filter ?p (px_enrollments ?ix) = [?e]" using split(3,4) none by simp
      from Cons.IH[OF this] have "accepted_uses token attempts ?ix = min (n - 1) (length (filter (\<lambda>(t, role). role = et_role e \<and>
          (case et_expires_at e of Some x \<Rightarrow> t \<le> x | None \<Rightarrow> True)) attempts))" by simp
      moreover obtain k where "n = Suc k" using True by (cases n) auto
      ultimately show ?thesis using True by (simp add: a)
    qed
  qed
qed simp

text \<open>Restarting after a stored registry gives the registry back.\<close>

lemma restart_reads_registry:
  assumes "save_index env s = (Inr (), s')" "pe_read_index env (pe_show_index env (pk_index s)) = Some (pk_index s)"
    and "\<not> pe_unreadable env INDEX_FILE (pk_world s')"
  shows "open_pki env (s'\<lparr>pk_index := empty_index\<rparr>) = (Inr (), s'\<lparr>pk_index := pk_index s\<rparr>)"
proof -
  have "pk_files s' INDEX_FILE = Some (pe_show_index env (pk_index s))" using assms(1) write_file_Inr by (simp add: save_index_def)
  with assms(2,3) show ?thesis
    by (auto simp: open_pki_def load_index_def read_file_def sx_bind_def sx_return_def on_index_def sx_update_def)
qed

subsection \<open>A concrete authority\<close>

definition sample_pki_env :: "(string, nat) pki_env" where
  "sample_pki_env = \<lparr>pe_write = (\<lambda>p w. (None, w)), pe_unreadable = (\<lambda>p w. False), pe_undeletable = (\<lambda>p w. False),
     pe_clock = (\<lambda>w. (int w, Suc w)), pe_uuid = (\<lambda>w. (''u'', Suc w)), pe_random32 = (\<lambda>w. (Some (replicate 32 CHR ''k''), w)),
     pe_keygen = (\<lambda>w. (Some ''key'', w)), pe_key = Some, pe_self_sign = (\<lambda>k t u w. (Some ''authority'', w)),
     pe_sign = (\<lambda>cp k ca ck w. (Some (''pem'', ''der''), w)), pe_csr_ok = (\<lambda>c. True),
     pe_sign_csr = (\<lambda>c ca k w. (Some (''pem'', ''der''), w)), pe_sign_crl = (\<lambda>ns t ca k w. (Some (map char_of ns), w)),
     pe_sha256 = (\<lambda>d. [1, 171]), pe_pem_der = Some, pe_validity = (\<lambda>p. Some (0, 1)), pe_is_ip = (\<lambda>s. False),
     pe_show_index = (\<lambda>ix. ''index''), pe_read_index = (\<lambda>s. Some empty_index), pe_age_public = Some,
     pe_age_generate = (\<lambda>w. ((''identity'', ''public''), w))\<rparr>"

definition sample_entry :: cert_entry where
  "sample_entry = \<lparr>ce_serial = 2, ce_name = ''alice'', ce_role = CertAgent, ce_status = CertActive, ce_not_before = 0, ce_not_after = 1,
     ce_fingerprint = ''01'', ce_subject = ''CN=alice'', ce_sans = [], ce_roles = [], ce_groups = []\<rparr>"

definition sample_pki :: "nat pki" where
  "sample_pki = \<lparr>pk_files = [CA_CERT_FILE \<mapsto> ''authority'', key_file CA_KEY_LABEL \<mapsto> ''cakey''],
     pk_index = \<lparr>px_next_serial = 3, px_entries = [sample_entry], px_enrollments = []\<rparr>, pk_world = 7\<rparr>"

definition sample_calls :: "pki_call list" where
  "sample_calls = [GenerateClient ''bob'' CertTui [] 30 [''admin''] [], RevokeClient ''alice'', CreateEnrollment CertAgent [] (Some 1) None]"

theorem registry_history_witness:
  "let es = px_entries (pk_index sample_pki); es' = px_entries (pk_index (fold (perform sample_pki_env) sample_calls sample_pki)) in
    sorted_wrt (<) (map ce_serial es') \<and> length es \<le> length es' \<and>
    (\<forall>i < length es. es' ! i = es ! i \<or> ce_status (es ! i) = CertActive \<and> es' ! i = (es ! i)\<lparr>ce_status := CertRevoked\<rparr>)"
  by (rule registry_history) (simp_all add: sample_pki_def sample_calls_def serials_ok_def sample_entry_def)

theorem ca_files_kept_witness:
  "pk_files (fold (perform sample_pki_env) sample_calls sample_pki) CA_CERT_FILE = pk_files sample_pki CA_CERT_FILE \<and>
    pk_files (fold (perform sample_pki_env) sample_calls sample_pki) (key_file CA_KEY_LABEL) = pk_files sample_pki (key_file CA_KEY_LABEL)"
  by (rule ca_files_kept) (simp_all add: sample_pki_def sample_calls_def CA_KEY_LABEL_def)

theorem revocation_published_witness:
  "\<exists>s'. revoke_client sample_pki_env ''alice'' sample_pki = (Inr (), s') \<and> (\<exists>before e later. before @ e # later = [sample_entry] \<and>
     px_entries (pk_index s') = before @ e\<lparr>ce_status := CertRevoked\<rparr> # later)"
proof -
  obtain s' where run: "revoke_client sample_pki_env ''alice'' sample_pki = (Inr (), s')"
    by (simp add: revoke_client_def run_simps revoke_entry_def sample_pki_def sample_entry_def sample_pki_env_def save_index_def
      write_file_def regenerate_crl_def ca_cert_pem_def ca_key_handle_def backend_load_def read_file_def parse_key_def generate_crl_def
      crypto_def drawn_def sx_bind_def sx_return_def sx_ask_def on_index_def sx_update_def INDEX_FILE_def CA_CERT_FILE_def key_file_def CA_KEY_LABEL_def)
  from revocation_published[OF run] obtain before e later where "px_entries (pk_index sample_pki) = before @ e # later"
    "px_entries (pk_index s') = before @ e\<lparr>ce_status := CertRevoked\<rparr> # later" by blast
  moreover have "px_entries (pk_index sample_pki) = [sample_entry]" by (simp add: sample_pki_def)
  ultimately show ?thesis using run by metis
qed

definition sample_token :: enrollment_token where
  "sample_token = \<lparr>et_id = ''1'', et_token = ''u'', et_remaining_uses = Some 2, et_expires_at = Some 8, et_created_at = 1,
     et_role = CertAgent, et_roles = []\<rparr>"

theorem enrollment_uses_bounded_witness:
  "accepted_uses ''u'' [(5, CertAgent), (6, CertTui), (8, CertAgent), (9, CertAgent)]
     \<lparr>px_next_serial = 2, px_entries = [], px_enrollments = [sample_token]\<rparr> = 2"
  using enrollment_uses_bounded[of "''u''" "\<lparr>px_next_serial = 2, px_entries = [], px_enrollments = [sample_token]\<rparr>" sample_token 2
      "[(5, CertAgent), (6, CertTui), (8, CertAgent), (9, CertAgent)]"]
  by (simp add: sample_token_def del: accepted_uses.simps)

end
