(* ===== verification/CertSign.thy ===== *)
theory CertSign
  imports Pki
begin

text \<open>
  Signing requests at the gateway (\<open>rockbot-gateway/src/gateway.rs\<close>): the rate limit per address, the names that
  are admitted and the endpoint that signs a certificate request for an enrollment token. The endpoint
  works on the files of the PKI directory without a lock; it is modelled as a part that reads and
  a part that writes, so that two requests can be interleaved.
\<close>

subsection \<open>Names\<close>

definition is_alphanumeric :: "char \<Rightarrow> bool" where
  "is_alphanumeric c \<longleftrightarrow> (let b = byte_of c in 48 \<le> b \<and> b \<le> 57 \<or> 65 \<le> b \<and> b \<le> 90 \<or> 97 \<le> b \<and> b \<le> 122)"

definition is_valid_agent_id :: "string \<Rightarrow> bool" where
  "is_valid_agent_id s \<longleftrightarrow> s \<noteq> [] \<and> length s \<le> 64 \<and> CHR ''/'' \<notin> set s \<and> CHR 0x5C \<notin> set s \<and> find_sub ''..'' s = None \<and>
     list_all (\<lambda>c. is_alphanumeric c \<or> c = CHR ''-'' \<or> c = CHR ''_'') s"

definition is_valid_cert_name :: "string \<Rightarrow> bool" where
  "is_valid_cert_name = is_valid_agent_id"

subsection \<open>The rate limit\<close>

definition CERT_SIGN_MAX_ATTEMPTS :: nat where "CERT_SIGN_MAX_ATTEMPTS = 3"
definition CERT_SIGN_WINDOW_SECS :: nat where "CERT_SIGN_WINDOW_SECS = 60"

text \<open>Instants are in nanoseconds; \<open>duration_since\<close> saturates at zero.\<close>

definition within_window :: "nat \<Rightarrow> nat \<Rightarrow> bool" where
  "within_window clock_time a \<longleftrightarrow> (clock_time - a) div 1000000000 < CERT_SIGN_WINDOW_SECS"

definition record_cert_sign_attempt :: "('ip \<rightharpoonup> nat list) \<Rightarrow> 'ip \<Rightarrow> nat \<Rightarrow> bool \<times> ('ip \<rightharpoonup> nat list)" where
  "record_cert_sign_attempt attempts ip clock_time =
     (let attempts = (case attempts ip of
            None \<Rightarrow> attempts
          | Some ts \<Rightarrow> let kept = filter (within_window clock_time) ts in if kept = [] then attempts(ip := None) else attempts(ip \<mapsto> kept));
          entry = (case attempts ip of Some ts \<Rightarrow> ts | None \<Rightarrow> [])
      in if CERT_SIGN_MAX_ATTEMPTS \<le> length entry then (False, attempts(ip \<mapsto> entry))
         else (True, attempts(ip \<mapsto> entry @ [clock_time])))"

subsection \<open>The endpoint\<close>

record sign_request =
  sr_csr :: string
  sr_psk :: string
  sr_name :: string
  sr_role :: string
  sr_days :: nat

text \<open>Why a request is refused; the last is a panic, which ends the process.\<close>

datatype refusal = TooManyAttempts | NoClientAddress | InvalidJson | InvalidName | InvalidRole string
  | IndexFailed pki_error | EnrollmentFailed pki_error | NotInitialised pki_error | SigningFailed pki_error | Aborted

definition status_code :: "refusal \<Rightarrow> nat option" where
  "status_code r = (case r of
     TooManyAttempts \<Rightarrow> Some 429 | NoClientAddress \<Rightarrow> Some 400 | InvalidJson \<Rightarrow> Some 400 | InvalidName \<Rightarrow> Some 400
   | InvalidRole _ \<Rightarrow> Some 400 | IndexFailed _ \<Rightarrow> Some 500 | EnrollmentFailed _ \<Rightarrow> Some 403 | NotInitialised _ \<Rightarrow> Some 503
   | SigningFailed _ \<Rightarrow> Some 500 | Aborted \<Rightarrow> None)"

definition signed_file :: "string \<Rightarrow> string" where "signed_file name = ''clients/'' @ name @ ''.crt''"

definition refusing :: "(pki_error \<Rightarrow> refusal) \<Rightarrow> ('w, 'a) px \<Rightarrow> ('w pki, refusal, 'a) sx" where
  "refusing f m s = (case m s of (Inl e, s') \<Rightarrow> (Inl (f e), s') | (Inr x, s') \<Rightarrow> (Inr x, s'))"

text \<open>A result that is ignored.\<close>

definition ignoring :: "('w, unit) px \<Rightarrow> ('w pki, refusal, unit) sx" where
  "ignoring m s = (Inr (), snd (m s))"

definition cert_sign_begin ::
  "('k, 'w) pki_env \<Rightarrow> (string \<Rightarrow> string) \<Rightarrow> sign_request \<Rightarrow> ('w pki, refusal, string \<times> string \<times> cert_entry \<times> pki_index) sx" where
  "cert_sign_begin env lower req =
     (if \<not> is_valid_cert_name (sr_name req) then sx_throw InvalidName else
      sx_bind (refusing IndexFailed (load_index env)) (\<lambda>ix.
      case cert_role_from lower (sr_role req) of
        None \<Rightarrow> sx_throw (InvalidRole (sr_role req))
      | Some role \<Rightarrow>
          sx_bind (refusing IndexFailed (drawn (pe_clock env))) (\<lambda>t.
          sx_bind (sx_ask (\<lambda>_. case use_enrollment t (sr_psk req) role ix of Inl e \<Rightarrow> Inl (EnrollmentFailed e) | Inr p \<Rightarrow> Inr p)) (\<lambda>(enrollment, ix).
          sx_bind (refusing NotInitialised (read_file env CA_CERT_FILE)) (\<lambda>ca_pem.
          sx_bind (refusing NotInitialised (load_index env)) (\<lambda>_.
          sx_bind (refusing NotInitialised (ca_key_handle env)) (\<lambda>ca_key.
          case next_serial ix of (serial, ix) \<Rightarrow>
          sx_bind (refusing (\<lambda>e. if e = TimeOverflow then Aborted else SigningFailed e)
              (sign_csr env (sr_csr req) ca_pem ca_key (sr_name req) role (sr_days req) serial (et_roles enrollment) [])) (\<lambda>(pem, e).
          sx_return (pem, ca_pem, e, ix)))))))))"

definition cert_sign_end ::
  "('k, 'w) pki_env \<Rightarrow> sign_request \<Rightarrow> string \<times> string \<times> cert_entry \<times> pki_index \<Rightarrow> ('w pki, refusal, string \<times> string) sx" where
  "cert_sign_end env req = (\<lambda>(pem, ca_pem, e, ix).
     sx_bind (ignoring (write_file env (signed_file (sr_name req)) pem)) (\<lambda>_.
     sx_bind (ignoring (write_file env INDEX_FILE (pe_show_index env (add_entry e ix)))) (\<lambda>_.
     sx_return (pem, ca_pem))))"


subsection \<open>Lemmas on the rate limit\<close>

definition attempts_of :: "('ip \<rightharpoonup> nat list) \<Rightarrow> 'ip \<Rightarrow> nat list" where
  "attempts_of m ip = (case m ip of Some ts \<Rightarrow> ts | None \<Rightarrow> [])"

lemma record_attempt:
  "fst (record_cert_sign_attempt m ip t) \<longleftrightarrow> length (filter (within_window t) (attempts_of m ip)) < CERT_SIGN_MAX_ATTEMPTS"
  "attempts_of (snd (record_cert_sign_attempt m ip t)) ip' =
     (if ip' = ip then filter (within_window t) (attempts_of m ip) @
        (if length (filter (within_window t) (attempts_of m ip)) < CERT_SIGN_MAX_ATTEMPTS then [t] else [])
      else attempts_of m ip')"
  by (auto simp: record_cert_sign_attempt_def attempts_of_def Let_def split: option.splits)

definition WINDOW :: nat where "WINDOW = 60 * 1000000000"

lemma within_window_iff: "within_window t a \<longleftrightarrow> t < a + WINDOW"
  by (auto simp: within_window_def CERT_SIGN_WINDOW_SECS_def WINDOW_def div_less_iff_less_mult)

text \<open>Running a sequence of attempts, each of an address at a time, and the accepted ones.\<close>

fun run_attempts :: "('ip \<rightharpoonup> nat list) \<Rightarrow> ('ip \<times> nat) list \<Rightarrow> ('ip \<times> nat) list" where
  "run_attempts m [] = []"
| "run_attempts m ((ip, t) # rest) = (case record_cert_sign_attempt m ip t of (ok, m') \<Rightarrow>
     (if ok then [(ip, t)] else []) @ run_attempts m' rest)"

definition times_of :: "'ip \<Rightarrow> ('ip \<times> nat) list \<Rightarrow> nat list" where
  "times_of ip accepted = map snd (filter (\<lambda>(i, _). i = ip) accepted)"

lemma times_of_simps [simp]:
  "times_of ip [] = []" "times_of ip ((i, t) # ps) = (if i = ip then t # times_of ip ps else times_of ip ps)"
  "times_of ip (ps @ qs) = times_of ip ps @ times_of ip qs"
  by (simp_all add: times_of_def)

definition in_span :: "nat \<Rightarrow> nat \<Rightarrow> bool" where
  "in_span start t \<longleftrightarrow> start \<le> t \<and> t < start + WINDOW"

definition limited :: "'ip \<Rightarrow> nat \<Rightarrow> ('ip \<rightharpoonup> nat list) \<Rightarrow> ('ip \<times> nat) list \<Rightarrow> bool" where
  "limited ip latest m accepted \<longleftrightarrow>
     (\<exists>old. (\<forall>P. length (filter P (times_of ip accepted)) = length (filter P old) + length (filter P (attempts_of m ip))) \<and>
        (\<forall>a \<in> set old. a + WINDOW \<le> latest)) \<and>
     length (attempts_of m ip) \<le> 3 \<and> (\<forall>start. length (filter (in_span start) (times_of ip accepted)) \<le> 3)"

lemma split_count: "length (filter P xs) = length (filter P (filter (\<lambda>a. \<not> Q a) xs)) + length (filter P (filter Q xs))"
  by (induction xs) auto

lemma limited_step:
  assumes "limited ip latest m accepted" "latest \<le> t" "record_cert_sign_attempt m i t = (ok, m')"
  shows "limited ip t m' (accepted @ (if ok then [(i, t)] else []))"
proof (cases "i = ip")
  case False
  have "attempts_of m' ip = attempts_of m ip" using record_attempt(2)[of m i t ip] assms(3) False by simp
  then show ?thesis using assms(1,2) False unfolding limited_def by fastforce
next
  case True
  note same = True
  from assms(1) obtain old where
    whole: "\<forall>P. length (filter P (times_of ip accepted)) = length (filter P old) + length (filter P (attempts_of m ip))"
    and earlier: "\<forall>a \<in> set old. a + WINDOW \<le> latest" and few: "length (attempts_of m ip) \<le> 3"
    and spans: "\<forall>start. length (filter (in_span start) (times_of ip accepted)) \<le> 3"
    unfolding limited_def by blast
  let ?kept = "filter (within_window t) (attempts_of m ip)" and ?gone = "filter (\<lambda>a. \<not> within_window t a) (attempts_of m ip)"
  have ok: "ok \<longleftrightarrow> length ?kept < 3" and m': "attempts_of m' ip = ?kept @ (if ok then [t] else [])"
    using record_attempt[of m i t] assms(3) True by (auto simp: CERT_SIGN_MAX_ATTEMPTS_def)
  let ?new = "times_of ip (accepted @ (if ok then [(i, t)] else []))"
  have new: "?new = times_of ip accepted @ (if ok then [t] else [])" using True by simp
  have split: "length (filter P (attempts_of m ip)) = length (filter P ?gone) + length (filter P ?kept)" for P
    by (rule split_count)
  have count: "length (filter P ?new) = length (filter P (old @ ?gone)) + length (filter P (attempts_of m' ip))" for P
    using whole[rule_format, of P] split[of P] True by (simp add: m')
  have past: "\<forall>a \<in> set (old @ ?gone). a + WINDOW \<le> t"
    using earlier assms(2) by (auto simp: within_window_iff)
  have small: "length (attempts_of m' ip) \<le> 3"
    using order_trans[OF length_filter_le[of "within_window t" "attempts_of m ip"] few] by (auto simp: m' ok)
  have "length (filter (in_span start) ?new) \<le> 3" for start
  proof (cases "in_span start t \<and> ok")
    case True
    then have "\<forall>a \<in> set (old @ ?gone). \<not> in_span start a" using past unfolding in_span_def by (meson leD le_trans add_le_mono1 order_less_le_trans)
    then have "filter (in_span start) (old @ ?gone) = []" by (auto simp: filter_empty_conv)
    with count[of "in_span start"] have "length (filter (in_span start) ?new) = length (filter (in_span start) (attempts_of m' ip))" by simp
    also have "\<dots> \<le> 3" using length_filter_le[of "in_span start" "attempts_of m' ip"] small by linarith
    finally show ?thesis .
  qed (use spans same in \<open>auto\<close>)
  with count past small show ?thesis unfolding limited_def by blast
qed

lemma run_limited:
  "limited ip latest m accepted \<Longrightarrow> sorted (latest # map snd steps) \<Longrightarrow>
    length (filter (in_span start) (times_of ip (accepted @ run_attempts m steps))) \<le> 3"
proof (induction steps arbitrary: latest m accepted)
  case Nil
  then show ?case by (simp add: limited_def)
next
  case (Cons p steps)
  obtain i t where p: "p = (i, t)" by fastforce
  obtain ok m' where step: "record_cert_sign_attempt m i t = (ok, m')" by fastforce
  have "limited ip t m' (accepted @ (if ok then [(i, t)] else []))"
    using limited_step[OF Cons.prems(1) _ step] Cons.prems(2) p by simp
  from Cons.IH[OF this] Cons.prems(2) p step show ?case by simp
qed

subsection \<open>Properties\<close>

text \<open>From any address at most three signing requests are let through in any span of sixty seconds, wherever it starts,
  as long as the clock does not run backwards.\<close>

theorem cert_sign_rate:
  assumes "sorted (map snd steps)"
  shows "length (filter (\<lambda>(i, t). i = ip \<and> start \<le> t \<and> t < start + 60 * 1000000000) (run_attempts Map.empty steps)) \<le> 3"
proof -
  have "limited ip 0 Map.empty []" by (auto simp: limited_def attempts_of_def intro: exI[of _ "[]"])
  from run_limited[OF this, of steps start] assms
  have "length (filter (in_span start) (times_of ip (run_attempts Map.empty steps))) \<le> 3" by simp
  moreover have "length (filter (in_span start) (times_of ip ps)) = length (filter (\<lambda>(i, t). i = ip \<and> in_span start t) ps)" for ps :: "('a \<times> nat) list"
  proof (induction ps)
    case (Cons p ps)
    then show ?case by (cases p) simp
  qed simp
  ultimately show ?thesis by (simp add: in_span_def WINDOW_def)
qed


subsection \<open>Lemmas on the endpoint\<close>

















subsection \<open>Requests at the same time\<close>

definition sign_env :: "nat \<Rightarrow> (string, nat) pki_env" where
  "sign_env uses = sample_pki_env\<lparr>pe_read_index := (\<lambda>_. Some \<lparr>px_next_serial = 2, px_entries = [],
     px_enrollments = [sample_token\<lparr>et_remaining_uses := Some uses\<rparr>]\<rparr>), pe_clock := (\<lambda>w. (int w, w)),
     pe_show_index := (\<lambda>ix. concat (map ce_name (px_entries ix)))\<rparr>"

definition sign_pki :: "nat pki" where
  "sign_pki = sample_pki\<lparr>pk_files := (pk_files sample_pki)(INDEX_FILE \<mapsto> ''registry'')\<rparr>"

definition signing :: "string \<Rightarrow> sign_request" where
  "signing name = \<lparr>sr_csr = ''csr'', sr_psk = ''u'', sr_name = name, sr_role = ''agent'', sr_days = 30\<rparr>"

definition sample_steps :: "(nat \<times> nat) list" where
  "sample_steps = [(1, 5), (1, 6), (2, 6), (1, 7), (1, 8), (1, 60 * 1000000000 + 5)]"

theorem cert_sign_rate_witness:
  "length (filter (\<lambda>(i, t). i = 1 \<and> 5 \<le> t \<and> t < 5 + 60 * 1000000000) (run_attempts Map.empty sample_steps)) \<le> 3 \<and>
    run_attempts Map.empty sample_steps = [(1, 5), (1, 6), (2, 6), (1, 7), (1, 60 * 1000000000 + 5)]"
proof (rule conjI)
  show "length (filter (\<lambda>(i, t). i = 1 \<and> 5 \<le> t \<and> t < 5 + 60 * 1000000000) (run_attempts Map.empty sample_steps)) \<le> 3"
    by (rule cert_sign_rate) (simp add: sample_steps_def)
  show "run_attempts Map.empty sample_steps = [(1, 5), (1, 6), (2, 6), (1, 7), (1, 60 * 1000000000 + 5)]"
    by (simp add: sample_steps_def record_cert_sign_attempt_def within_window_def CERT_SIGN_WINDOW_SECS_def CERT_SIGN_MAX_ATTEMPTS_def)
qed

lemmas sign_run = cert_sign_begin_def cert_sign_end_def sign_env_def sign_pki_def sample_pki_def sample_pki_env_def signing_def
  refusing_def ignoring_def sx_bind_def sx_return_def sx_throw_def sx_ask_def load_index_def read_file_def drawn_def crypto_def
  cert_role_from_def use_enrollment_def token_usable_def sample_token_def sbind_def ca_key_handle_def backend_load_def parse_key_def
  next_serial_def sign_csr_def days_after_def LAST_INSTANT_def DAY_def SECOND_def add_entry_def write_file_def

lemma begun:
  "name = ''bob'' \<or> name = ''eve'' \<Longrightarrow> \<exists>e. ce_name e = name \<and> ce_serial e = 2 \<and> cert_sign_begin (sign_env 1) id (signing name) sign_pki =
     (Inr (''pem'', ''authority'', e, \<lparr>px_next_serial = 3, px_entries = [], px_enrollments = []\<rparr>), sign_pki)"
  by (elim disjE; simp add: sign_run is_valid_cert_name_def is_valid_agent_id_def INDEX_FILE_def CA_CERT_FILE_def key_file_def CA_KEY_LABEL_def
      is_alphanumeric_def byte_of_def wadd_def)


lemma ended:
  "cert_sign_end (sign_env uses) (signing name) (pem, ca, e, ix) s =
     (Inr (pem, ca), s\<lparr>pk_files := (pk_files s)(signed_file name \<mapsto> pem, INDEX_FILE \<mapsto> concat (map ce_name (px_entries ix @ [e])))\<rparr>)"
  by (simp add: sign_run)

text \<open>A token for one use: two requests that both read the registry before either writes it are both served, with the
  same serial number, and the registry keeps only the second.\<close>

lemma single_use_token_used_twice:
  "\<exists>a b s. cert_sign_begin (sign_env 1) id (signing ''bob'') sign_pki = (Inr a, sign_pki) \<and>
    cert_sign_begin (sign_env 1) id (signing ''eve'') sign_pki = (Inr b, sign_pki) \<and>
    ce_serial (fst (snd (snd a))) = ce_serial (fst (snd (snd b))) \<and>
    cert_sign_end (sign_env 1) (signing ''bob'') a sign_pki = (Inr (''pem'', ''authority''), s) \<and>
    cert_sign_end (sign_env 1) (signing ''eve'') b s = (Inr (''pem'', ''authority''), snd (cert_sign_end (sign_env 1) (signing ''eve'') b s)) \<and>
    pk_files (snd (cert_sign_end (sign_env 1) (signing ''eve'') b s)) INDEX_FILE = Some ''eve''"
proof -
  obtain a where a: "ce_name a = ''bob''" "ce_serial a = 2"
    "cert_sign_begin (sign_env 1) id (signing ''bob'') sign_pki =
       (Inr (''pem'', ''authority'', a, \<lparr>px_next_serial = 3, px_entries = [], px_enrollments = []\<rparr>), sign_pki)" using begun by blast
  obtain b where b: "ce_name b = ''eve''" "ce_serial b = 2"
    "cert_sign_begin (sign_env 1) id (signing ''eve'') sign_pki =
       (Inr (''pem'', ''authority'', b, \<lparr>px_next_serial = 3, px_entries = [], px_enrollments = []\<rparr>), sign_pki)" using begun by blast
  show ?thesis
    by (rule exI, rule exI, rule exI, intro conjI, rule a(3), rule b(3)) (simp_all add: ended a b)
qed


end
