(* ===== verification/GatewayWs.thy ===== *)
theory GatewayWs
  imports Pki
begin

text \<open>
  WebSocket connections of the gateway (\<open>rockbot-gateway/src/gateway.rs\<close>): the register of connections, the
  authentication of a browser by a signature under the key of its certificate, the guard in front of the
  messages that need it, and the tasks, one for every message, whose steps are interleaved. A step of
  a task is what it does while it holds the lock of the register, or between two such sections.
\<close>

subsection \<open>Connections\<close>

datatype listener_kind = PublicListener | ClientListener

record browser_auth =
  ba_authenticated :: bool
  ba_pending_cert :: "string option"
  ba_pending_challenge :: "string option"
  ba_cert_name :: "string option"
  ba_cert_role :: "string option"

record client_identity =
  ci_uuid :: string
  ci_hostname :: string
  ci_label :: "string option"

datatype ws_message =
    AgentMessage string string string "string option" "string option" "bool option"
  | HealthCheck
  | Ping
  | ClientIdentify "string option" string "string option"
  | CronResult string bool "string option" "string option"
  | NoiseHandshake string nat
  | RemoteCapabilities "string list" string "string option"
  | RemoteToolResponse string bool string nat
  | RemoteToolOutput string string "string option"
  | ApiRequest string string string "string option"
  | WebAuthBegin string
  | WebAuthComplete string

datatype web_auth_error = ConnectionNotFound | NoPendingCertificate | NoPendingChallenge | NoPendingIdentity | NoPendingRole
  | NoPemCertificate | PkiNotConfigured | RegistryFailed pki_error | NotActiveCertificate | NoRandomness
  | BadCertificate | BadSignatureEncoding | VerificationFailed

datatype ws_response =
    Pong
  | HealthStatus string
  | WsError string
  | ClientIdentityAssigned string string "string option"
  | WebAuthChallenge string
  | WebAuthResult bool "web_auth_error option" "string option" "string option"
  | HandlerResponse string

record ws_connection =
  wc_queue :: "ws_response list"
  wc_identity :: "client_identity option"
  wc_listener :: listener_kind
  wc_auth :: browser_auth

definition no_browser_auth :: browser_auth where
  "no_browser_auth = \<lparr>ba_authenticated = False, ba_pending_cert = None, ba_pending_challenge = None, ba_cert_name = None, ba_cert_role = None\<rparr>"

definition new_connection :: "listener_kind \<Rightarrow> ws_connection" where
  "new_connection kind = \<lparr>wc_queue = [], wc_identity = None, wc_listener = kind, wc_auth = no_browser_auth\<rparr>"

definition MAX_WS_OUTBOUND_QUEUE :: nat where "MAX_WS_OUTBOUND_QUEUE = 256"
definition MAX_WS_INFLIGHT_MESSAGES :: nat where "MAX_WS_INFLIGHT_MESSAGES = 32"

text \<open>Tasks, and what they do that is observed.\<close>

datatype ws_task =
    Received string
  | CheckAuth ws_message
  | Dispatch ws_message
  | IdentifyWrite string
  | BeginRead
  | BeginLookup string
  | BeginWrite string cert_entry string
  | CompleteRead string
  | CompleteVerify string string string string string
  | CompleteWrite string string string string string
  | CompleteFail web_auth_error

datatype ws_event =
    Connected string listener_kind
  | Disconnected string
  | Identified string string
  | Issued string string cert_entry string
  | Accepted string string string string string string
  | Served string ws_message

record 'w gateway =
  gw_conns :: "string \<rightharpoonup> ws_connection"
  gw_tasks :: "(string \<times> ws_task) list"
  gw_ids :: "string set"
  gw_pki :: "'w pki"

datatype ecdsa_format = Asn1 | Fixed

record ('k, 'w) ws_env =
  we_parse :: "string \<Rightarrow> ws_message option"
  we_pki :: "('k, 'w) pki_env"
  we_pki_dir :: bool
  we_first_der :: "string \<Rightarrow> string option"
  we_certificate_keys :: "string \<Rightarrow> (string \<times> string) option"
  we_ecdsa :: "ecdsa_format \<Rightarrow> string \<Rightarrow> string \<Rightarrow> string \<Rightarrow> bool"
  we_base64 :: "string \<Rightarrow> string"
  we_unbase64 :: "string \<Rightarrow> string option"
  we_health :: "'w pki \<Rightarrow> string"
  we_remote_exec :: bool
  we_serve :: "string \<Rightarrow> ws_connection option \<Rightarrow> ws_message \<Rightarrow> 'w pki \<Rightarrow> ws_response list \<times> 'w pki"

subsection \<open>Operations on the register\<close>

definition enqueue_ws_message :: "ws_response \<Rightarrow> ws_connection \<Rightarrow> ws_connection" where
  "enqueue_ws_message resp conn = (if length (wc_queue conn) < MAX_WS_OUTBOUND_QUEUE then conn\<lparr>wc_queue := wc_queue conn @ [resp]\<rparr> else conn)"

definition on_connection :: "string \<Rightarrow> (ws_connection \<Rightarrow> ws_connection) \<Rightarrow> 'w gateway \<Rightarrow> 'w gateway" where
  "on_connection c f s = (case gw_conns s c of None \<Rightarrow> s | Some conn \<Rightarrow> s\<lparr>gw_conns := (gw_conns s)(c \<mapsto> f conn)\<rparr>)"

definition reply :: "string \<Rightarrow> ws_response \<Rightarrow> 'w gateway \<Rightarrow> 'w gateway" where
  "reply c resp = on_connection c (enqueue_ws_message resp)"

definition is_ws_authenticated :: "string \<Rightarrow> 'w gateway \<Rightarrow> bool" where
  "is_ws_authenticated c s = (case gw_conns s c of None \<Rightarrow> False
     | Some conn \<Rightarrow> (case wc_listener conn of
         ClientListener \<Rightarrow> wc_identity conn \<noteq> None | PublicListener \<Rightarrow> ba_authenticated (wc_auth conn)))"

definition requires_ws_auth :: "ws_message \<Rightarrow> bool" where
  "requires_ws_auth msg = (case msg of
     Ping \<Rightarrow> False | HealthCheck \<Rightarrow> False | WebAuthBegin _ \<Rightarrow> False | WebAuthComplete _ \<Rightarrow> False | ClientIdentify _ _ _ \<Rightarrow> False
   | _ \<Rightarrow> True)"

subsection \<open>Browser authentication\<close>

definition clear_browser_auth :: "string \<Rightarrow> ws_connection \<Rightarrow> ws_connection" where
  "clear_browser_auth pem conn = conn\<lparr>wc_auth := \<lparr>ba_authenticated = False, ba_pending_cert = Some pem, ba_pending_challenge = None,
     ba_cert_name = None, ba_cert_role = None\<rparr>\<rparr>"

text \<open>The entry of the registry that is active and has the fingerprint of the certificate.\<close>

definition active_entry_of :: "('k, 'w) ws_env \<Rightarrow> string \<Rightarrow> pki_index \<Rightarrow> cert_entry option" where
  "active_entry_of env der ix =
     List.find (\<lambda>e. ce_status e = CertActive \<and> ce_fingerprint e = sha256_fingerprint (we_pki env) der) (px_entries ix)"

definition browser_lookup :: "('k, 'w) ws_env \<Rightarrow> string \<Rightarrow> 'w pki \<Rightarrow> (web_auth_error + string \<times> cert_entry) \<times> 'w pki" where
  "browser_lookup env pem p =
     (case we_first_der env pem of
        None \<Rightarrow> (Inl NoPemCertificate, p)
      | Some der \<Rightarrow>
          if \<not> we_pki_dir env then (Inl PkiNotConfigured, p)
          else (case load_index (we_pki env) p of
              (Inl e, p) \<Rightarrow> (Inl (RegistryFailed e), p)
            | (Inr ix, p) \<Rightarrow> (case active_entry_of env der ix of
                None \<Rightarrow> (Inl NotActiveCertificate, p)
              | Some e \<Rightarrow> (case pe_random32 (we_pki env) (pk_world p) of
                  (None, w) \<Rightarrow> (Inl NoRandomness, p\<lparr>pk_world := w\<rparr>)
                | (Some challenge, w) \<Rightarrow> (Inr (challenge, e), p\<lparr>pk_world := w\<rparr>)))))"

definition install_challenge :: "string \<Rightarrow> cert_entry \<Rightarrow> ws_connection \<Rightarrow> ws_connection" where
  "install_challenge challenge e conn = conn\<lparr>wc_auth := (wc_auth conn)\<lparr>ba_pending_challenge := Some challenge,
     ba_cert_name := Some (ce_name e), ba_cert_role := Some (cert_role_name (ce_role e)), ba_authenticated := False\<rparr>\<rparr>"

definition pending_authentication :: "string \<Rightarrow> 'w gateway \<Rightarrow> web_auth_error + string \<times> string \<times> string \<times> string" where
  "pending_authentication c s =
     (case gw_conns s c of
        None \<Rightarrow> Inl ConnectionNotFound
      | Some conn \<Rightarrow>
          sbind (ok_or NoPendingCertificate (ba_pending_cert (wc_auth conn))) (\<lambda>pem.
          sbind (ok_or NoPendingChallenge (ba_pending_challenge (wc_auth conn))) (\<lambda>challenge.
          sbind (ok_or NoPendingIdentity (ba_cert_name (wc_auth conn))) (\<lambda>name.
          sbind (ok_or NoPendingRole (ba_cert_role (wc_auth conn))) (\<lambda>role. Inr (pem, challenge, name, role))))))"

definition signature_valid :: "('k, 'w) ws_env \<Rightarrow> string \<Rightarrow> string \<Rightarrow> string \<Rightarrow> web_auth_error + bool" where
  "signature_valid env pem challenge signature_b64 =
     (case we_first_der env pem of
        None \<Rightarrow> Inl NoPemCertificate
      | Some der \<Rightarrow> (case we_certificate_keys env der of
          None \<Rightarrow> Inl BadCertificate
        | Some (public_key, spki) \<Rightarrow> (case we_unbase64 env signature_b64 of
            None \<Rightarrow> Inl BadSignatureEncoding
          | Some signature \<Rightarrow> Inr (list_ex (\<lambda>(fmt, key). we_ecdsa env fmt key challenge signature)
              [(Asn1, public_key), (Fixed, public_key), (Asn1, spki), (Fixed, spki)]))))"

definition mark_authenticated :: "ws_connection \<Rightarrow> ws_connection" where
  "mark_authenticated conn = conn\<lparr>wc_auth := (wc_auth conn)\<lparr>ba_authenticated := True, ba_pending_challenge := None\<rparr>\<rparr>"

definition mark_failed :: "ws_connection \<Rightarrow> ws_connection" where
  "mark_failed conn = conn\<lparr>wc_auth := (wc_auth conn)\<lparr>ba_authenticated := False, ba_pending_challenge := None,
     ba_cert_name := None, ba_cert_role := None\<rparr>\<rparr>"

definition begin_failed :: "string \<Rightarrow> web_auth_error \<Rightarrow> 'w gateway \<Rightarrow> 'w gateway" where
  "begin_failed c e = reply c (WebAuthResult False (Some e) None None)"

subsection \<open>Messages\<close>

definition trusted_hostname :: "string \<Rightarrow> string" where
  "trusted_hostname u = ''client-'' @ take (min 8 (length u)) u"

definition identity_of :: "string \<Rightarrow> client_identity" where
  "identity_of u = \<lparr>ci_uuid = u, ci_hostname = trusted_hostname u, ci_label = None\<rparr>"

text \<open>The messages with handlers of their own: what a handler does outside the register is a parameter.\<close>

definition serve :: "('k, 'w) ws_env \<Rightarrow> string \<Rightarrow> ws_message \<Rightarrow> 'w gateway \<Rightarrow> 'w gateway" where
  "serve env c msg s = (case we_serve env c (gw_conns s c) msg (gw_pki s) of (resps, p) \<Rightarrow>
     fold (reply c) resps (s\<lparr>gw_pki := p\<rparr>))"

definition dispatch ::
  "('k, 'w) ws_env \<Rightarrow> string \<Rightarrow> ws_message \<Rightarrow> 'w gateway \<Rightarrow> ws_task option \<times> ws_event list \<times> 'w gateway" where
  "dispatch env c msg s = (case msg of
     Ping \<Rightarrow> (None, [], reply c Pong s)
   | HealthCheck \<Rightarrow> (None, [], reply c (HealthStatus (we_health env (gw_pki s))) s)
   | ClientIdentify claimed hostname label \<Rightarrow>
       (case Option.bind (gw_conns s c) wc_identity of
          Some i \<Rightarrow> (Some (IdentifyWrite (ci_uuid i)), [], s)
        | None \<Rightarrow> (case pe_uuid (we_pki env) (pk_world (gw_pki s)) of (u, w) \<Rightarrow>
            (Some (IdentifyWrite u), [], s\<lparr>gw_pki := (gw_pki s)\<lparr>pk_world := w\<rparr>\<rparr>)))
   | CronResult _ _ _ _ \<Rightarrow> (None, [Served c msg], s)
   | NoiseHandshake _ _ \<Rightarrow> (None, [Served c msg],
       if we_remote_exec env then serve env c msg s else reply c (WsError ''Remote execution not enabled on this gateway'') s)
   | RemoteCapabilities _ _ _ \<Rightarrow> (None, [Served c msg],
       if we_remote_exec env then serve env c msg s else reply c (WsError ''Remote execution not enabled on this gateway'') s)
   | RemoteToolResponse _ _ _ _ \<Rightarrow> (None, [Served c msg], if we_remote_exec env then serve env c msg s else s)
   | RemoteToolOutput _ _ _ \<Rightarrow> (None, [Served c msg], if we_remote_exec env then serve env c msg s else s)
   | AgentMessage _ _ _ _ _ _ \<Rightarrow> (None, [Served c msg], serve env c msg s)
   | ApiRequest _ _ _ _ \<Rightarrow> (None, [Served c msg], serve env c msg s)
   | WebAuthBegin pem \<Rightarrow> (Some BeginRead, [], on_connection c (clear_browser_auth pem) s)
   | WebAuthComplete sig \<Rightarrow> (Some (CompleteRead sig), [], s))"

fun task_step ::
  "('k, 'w) ws_env \<Rightarrow> string \<Rightarrow> ws_task \<Rightarrow> 'w gateway \<Rightarrow> ws_task option \<times> ws_event list \<times> 'w gateway" where
  "task_step env c (Received raw) s =
     (case we_parse env raw of
        None \<Rightarrow> (None, [], reply c (WsError ''Invalid message'') s)
      | Some msg \<Rightarrow>
          if requires_ws_auth msg \<and> gw_conns s c \<noteq> None then (Some (CheckAuth msg), [], s) else (Some (Dispatch msg), [], s))"
| "task_step env c (CheckAuth msg) s =
     (if is_ws_authenticated c s then (Some (Dispatch msg), [], s)
      else (None, [], reply c (WsError ''This WebSocket connection is not authenticated yet'') s))"
| "task_step env c (Dispatch msg) s = dispatch env c msg s"
| "task_step env c (IdentifyWrite u) s =
     (None, (if gw_conns s c \<noteq> None then [Identified c u] else []),
      reply c (ClientIdentityAssigned u (trusted_hostname u) None) (on_connection c (\<lambda>conn. conn\<lparr>wc_identity := Some (identity_of u)\<rparr>) s))"
| "task_step env c BeginRead s =
     (case gw_conns s c of
        None \<Rightarrow> (None, [], begin_failed c ConnectionNotFound s)
      | Some conn \<Rightarrow> (case ba_pending_cert (wc_auth conn) of
          None \<Rightarrow> (None, [], begin_failed c NoPendingCertificate s)
        | Some pem \<Rightarrow> (Some (BeginLookup pem), [], s)))"
| "task_step env c (BeginLookup pem) s =
     (case browser_lookup env pem (gw_pki s) of
        (Inl e, p) \<Rightarrow> (None, [], begin_failed c e (s\<lparr>gw_pki := p\<rparr>))
      | (Inr (challenge, e), p) \<Rightarrow> (Some (BeginWrite challenge e pem), [], s\<lparr>gw_pki := p\<rparr>))"
| "task_step env c (BeginWrite challenge e pem) s =
     (if gw_conns s c = None then (None, [], begin_failed c ConnectionNotFound s)
      else (None, [Issued c pem e challenge],
        reply c (WebAuthChallenge (we_base64 env challenge)) (on_connection c (install_challenge challenge e) s)))"
| "task_step env c (CompleteRead sig) s =
     (case pending_authentication c s of
        Inl e \<Rightarrow> (Some (CompleteFail e), [], s)
      | Inr (pem, challenge, name, role) \<Rightarrow> (Some (CompleteVerify sig pem challenge name role), [], s))"
| "task_step env c (CompleteVerify sig pem challenge name role) s =
     (case signature_valid env pem challenge sig of
        Inl e \<Rightarrow> (Some (CompleteFail e), [], s)
      | Inr ok \<Rightarrow> if ok then (Some (CompleteWrite sig pem challenge name role), [], s) else (Some (CompleteFail VerificationFailed), [], s))"
| "task_step env c (CompleteWrite sig pem challenge name role) s =
     (if gw_conns s c = None then (Some (CompleteFail ConnectionNotFound), [], s)
      else (None, [Accepted c pem challenge sig name role],
        reply c (WebAuthResult True None (Some name) (Some role)) (on_connection c mark_authenticated s)))"
| "task_step env c (CompleteFail e) s = (None, [], reply c (WebAuthResult False (Some e) None None) (on_connection c mark_failed s))"

subsection \<open>The gateway\<close>

definition replace_task :: "string \<Rightarrow> ws_task option \<Rightarrow> (string \<times> ws_task) list" where
  "replace_task c t = (case t of None \<Rightarrow> [] | Some t \<Rightarrow> [(c, t)])"

text \<open>Connection ids are random and never repeat. The reader of a connection takes a message when fewer than the
  admitted number of its tasks are running; tasks go on after the connection is gone. Anything else in
  the process or on the machine may change the files and the world at any time.\<close>

inductive ws_step :: "('k, 'w) ws_env \<Rightarrow> 'w gateway \<Rightarrow> ws_event list \<Rightarrow> 'w gateway \<Rightarrow> bool"
  for env :: "('k, 'w) ws_env"
where
  connect: "c \<notin> gw_ids s \<Longrightarrow>
     ws_step env s [Connected c kind] (s\<lparr>gw_conns := (gw_conns s)(c \<mapsto> new_connection kind), gw_ids := insert c (gw_ids s)\<rparr>)"
| receive: "gw_conns s c \<noteq> None \<Longrightarrow> length (filter (\<lambda>(d, _). d = c) (gw_tasks s)) < MAX_WS_INFLIGHT_MESSAGES \<Longrightarrow>
     ws_step env s [] (s\<lparr>gw_tasks := gw_tasks s @ [(c, Received raw)]\<rparr>)"
| run: "gw_tasks s = before @ (c, t) # after \<Longrightarrow> task_step env c t s = (t', es, s') \<Longrightarrow>
     ws_step env s es (s'\<lparr>gw_tasks := before @ replace_task c t' @ after\<rparr>)"
| send: "gw_conns s c = Some conn \<Longrightarrow> wc_queue conn = resp # rest \<Longrightarrow>
     ws_step env s [] (s\<lparr>gw_conns := (gw_conns s)(c \<mapsto> conn\<lparr>wc_queue := rest\<rparr>)\<rparr>)"
| disconnect: "gw_conns s c \<noteq> None \<Longrightarrow> ws_step env s [Disconnected c] (s\<lparr>gw_conns := (gw_conns s)(c := None)\<rparr>)"
| elsewhere: "ws_step env s [] (s\<lparr>gw_pki := p\<rparr>)"

definition gateway_init :: "'w pki \<Rightarrow> 'w gateway" where
  "gateway_init p = \<lparr>gw_conns = Map.empty, gw_tasks = [], gw_ids = {}, gw_pki = p\<rparr>"

inductive ws_run :: "('k, 'w) ws_env \<Rightarrow> ws_event list \<Rightarrow> 'w gateway \<Rightarrow> bool"
  for env :: "('k, 'w) ws_env"
where
  start: "ws_run env [] (gateway_init p)"
| step: "ws_run env es s \<Longrightarrow> ws_step env s fs s' \<Longrightarrow> ws_run env (es @ fs) s'"

text \<open>Runs in which a connection never has two messages in work.\<close>

inductive serial_run :: "('k, 'w) ws_env \<Rightarrow> ws_event list \<Rightarrow> 'w gateway \<Rightarrow> bool"
  for env :: "('k, 'w) ws_env"
where
  start: "serial_run env [] (gateway_init p)"
| step: "serial_run env es s \<Longrightarrow> ws_step env s fs s' \<Longrightarrow> distinct (map fst (gw_tasks s')) \<Longrightarrow> serial_run env (es @ fs) s'"


subsection \<open>The register without its queues\<close>

definition core :: "'w gateway \<Rightarrow> string \<Rightarrow> (client_identity option \<times> listener_kind \<times> browser_auth) option" where
  "core s c = map_option (\<lambda>conn. (wc_identity conn, wc_listener conn, wc_auth conn)) (gw_conns s c)"

lemma core_None: "gw_conns s c = None \<longleftrightarrow> core s c = None"
  by (simp add: core_def)

lemma core_Some: "gw_conns s c = Some conn \<Longrightarrow> core s c = Some (wc_identity conn, wc_listener conn, wc_auth conn)"
  by (simp add: core_def)

lemma core_cong [simp]: "core (s\<lparr>gw_pki := p\<rparr>) = core s" "core (s\<lparr>gw_tasks := ts\<rparr>) = core s" "core (s\<lparr>gw_ids := is\<rparr>) = core s"
  by (simp_all add: core_def fun_eq_iff)

lemma core_on_connection:
  "core (on_connection c f s) =
     (core s)(c := map_option (\<lambda>conn. (wc_identity (f conn), wc_listener (f conn), wc_auth (f conn))) (gw_conns s c))"
  by (auto simp: core_def on_connection_def split: option.splits)

lemma core_reply [simp]: "core (reply c r s) = core s"
  by (auto simp: core_def reply_def on_connection_def enqueue_ws_message_def split: option.splits)

lemma core_replies [simp]: "core (fold (reply c) rs s) = core s"
  by (induction rs arbitrary: s) simp_all

lemma core_begin_failed [simp]: "core (begin_failed c e s) = core s"
  by (simp add: begin_failed_def)

lemma core_serve [simp]: "core (serve env c msg s) = core s"
  by (auto simp: serve_def split: prod.splits)

lemma ids_kept [simp]:
  "gw_ids (on_connection c f s) = gw_ids s" "gw_ids (reply c r s) = gw_ids s" "gw_ids (begin_failed c e s) = gw_ids s"
  by (simp_all add: reply_def begin_failed_def on_connection_def split: option.splits)

lemma ids_served [simp]: "gw_ids (fold (reply c) rs s) = gw_ids s" "gw_ids (serve env c msg s) = gw_ids s"
proof -
  show all: "gw_ids (fold (reply c) rs s) = gw_ids s" for rs and s :: "'w gateway" by (induction rs arbitrary: s) simp_all
  show "gw_ids (serve env c msg s) = gw_ids s" by (simp add: serve_def all split: prod.splits)
qed

subsection \<open>What a trace says\<close>

definition accepted :: "string \<Rightarrow> ws_event list \<Rightarrow> bool" where
  "accepted c tr \<longleftrightarrow> (\<exists>pem challenge sig name role. Accepted c pem challenge sig name role \<in> set tr)"

definition identified :: "string \<Rightarrow> ws_event list \<Rightarrow> bool" where
  "identified c tr \<longleftrightarrow> (\<exists>u. Identified c u \<in> set tr)"

definition admitted_by :: "string \<Rightarrow> ws_event list \<Rightarrow> bool" where
  "admitted_by c tr \<longleftrightarrow> (\<exists>kind. Connected c kind \<in> set tr \<and> (Disconnected c \<in> set tr \<or>
     (case kind of PublicListener \<Rightarrow> accepted c tr | ClientListener \<Rightarrow> identified c tr)))"

definition certified :: "('k, 'w) ws_env \<Rightarrow> string \<Rightarrow> cert_entry \<Rightarrow> bool" where
  "certified env pem e \<longleftrightarrow> ce_status e = CertActive \<and>
     (\<exists>der. we_first_der env pem = Some der \<and> ce_fingerprint e = sha256_fingerprint (we_pki env) der)"

definition issued ::
  "('k, 'w) ws_env \<Rightarrow> string \<Rightarrow> (string \<Rightarrow> bool) \<Rightarrow> string \<Rightarrow> string \<Rightarrow> string \<Rightarrow> ws_event list \<Rightarrow> bool" where
  "issued env c P challenge name role tr \<longleftrightarrow> (\<exists>pem e. P pem \<and> Issued c pem e challenge \<in> set tr \<and> certified env pem e \<and>
     name = ce_name e \<and> role = cert_role_name (ce_role e))"

lemma acceptedI: "Accepted c pem challenge sig name role \<in> set tr \<Longrightarrow> accepted c tr"
  unfolding accepted_def by blast

lemma trace_mono:
  assumes "set tr \<subseteq> set tr'"
  shows "accepted c tr \<Longrightarrow> accepted c tr'" "identified c tr \<Longrightarrow> identified c tr'" "admitted_by c tr \<Longrightarrow> admitted_by c tr'"
    "issued env c P challenge name role tr \<Longrightarrow> issued env c P challenge name role tr'"
proof -
  show acc: "accepted c tr \<Longrightarrow> accepted c tr'" and ident: "identified c tr \<Longrightarrow> identified c tr'"
    and "issued env c P challenge name role tr \<Longrightarrow> issued env c P challenge name role tr'"
    using assms unfolding accepted_def identified_def issued_def by blast+
  show "admitted_by c tr \<Longrightarrow> admitted_by c tr'"
    using assms acc ident unfolding admitted_by_def by (fastforce split: listener_kind.splits)
qed

lemma issued_weaken: "issued env c P challenge name role tr \<Longrightarrow> (\<And>pem. P pem \<Longrightarrow> Q pem) \<Longrightarrow> issued env c Q challenge name role tr"
  unfolding issued_def by blast

text \<open>What is right in a state after a trace; \<open>one\<close> says that messages of a connection do not overlap.\<close>

definition pending_is :: "(string \<Rightarrow> (client_identity option \<times> listener_kind \<times> browser_auth) option) \<Rightarrow> string \<Rightarrow> string \<Rightarrow> bool" where
  "pending_is conns c pem \<longleftrightarrow> (\<forall>i k a. conns c = Some (i, k, a) \<longrightarrow> ba_pending_cert a = Some pem)"

definition conn_ok :: "('k, 'w) ws_env \<Rightarrow> bool \<Rightarrow> ws_event list \<Rightarrow> string \<Rightarrow> client_identity option \<times> listener_kind \<times> browser_auth \<Rightarrow> bool" where
  "conn_ok env one tr c = (\<lambda>(i, k, a). Connected c k \<in> set tr \<and> (ba_authenticated a \<longrightarrow> accepted c tr) \<and> (i \<noteq> None \<longrightarrow> identified c tr) \<and>
     (\<forall>challenge name role. ba_pending_challenge a = Some challenge \<longrightarrow> ba_cert_name a = Some name \<longrightarrow> ba_cert_role a = Some role \<longrightarrow>
        issued env c (\<lambda>pem. one \<longrightarrow> ba_pending_cert a = Some pem) challenge name role tr))"

fun ws_task_ok where
  "ws_task_ok env one tr conns c (Dispatch msg) = (requires_ws_auth msg \<longrightarrow> admitted_by c tr)"
| "ws_task_ok env one tr conns c (BeginLookup pem) = (one \<longrightarrow> pending_is conns c pem)"
| "ws_task_ok env one tr conns c (BeginWrite challenge e pem) = (certified env pem e \<and> (one \<longrightarrow> pending_is conns c pem))"
| "ws_task_ok env one tr conns c (CompleteVerify sig pem challenge name role) = issued env c (\<lambda>p. one \<longrightarrow> p = pem) challenge name role tr"
| "ws_task_ok env one tr conns c (CompleteWrite sig pem challenge name role) =
     (issued env c (\<lambda>p. one \<longrightarrow> p = pem) challenge name role tr \<and> signature_valid env pem challenge sig = Inr True)"
| "ws_task_ok env one tr conns c _ = True"

definition gateway_ok :: "('k, 'w) ws_env \<Rightarrow> bool \<Rightarrow> ws_event list \<Rightarrow> 'w gateway \<Rightarrow> bool" where
  "gateway_ok env one tr s \<longleftrightarrow>
     (\<forall>c x. core s c = Some x \<longrightarrow> c \<in> gw_ids s \<and> conn_ok env one tr c x) \<and>
     (\<forall>(c, t) \<in> set (gw_tasks s). c \<in> gw_ids s \<and> ws_task_ok env one tr (core s) c t) \<and>
     (\<forall>c \<in> gw_ids s. \<exists>kind. Connected c kind \<in> set tr \<and> (core s c = None \<longrightarrow> Disconnected c \<in> set tr))"

text \<open>What an event needs of what came before it.\<close>

fun event_ok where
  "event_ok env one tr (Served c msg) = admitted_by c tr"
| "event_ok env one tr (Accepted c pem challenge sig name role) =
     (issued env c (\<lambda>p. one \<longrightarrow> p = pem) challenge name role tr \<and> signature_valid env pem challenge sig = Inr True)"
| "event_ok env one tr _ = True"

lemma conn_ok_mono: "conn_ok env one tr c x \<Longrightarrow> set tr \<subseteq> set tr' \<Longrightarrow> conn_ok env one tr' c x"
  by (cases x) (auto simp: conn_ok_def dest: trace_mono)

lemma ws_task_ok_mono:
  "ws_task_ok env one tr conns c t \<Longrightarrow> set tr \<subseteq> set tr' \<Longrightarrow> (\<And>pem. one \<Longrightarrow> pending_is conns c pem \<Longrightarrow> pending_is conns' c pem) \<Longrightarrow>
    ws_task_ok env one tr' conns' c t"
  by (cases t) (auto dest: trace_mono)

lemma browser_lookup_certified: "browser_lookup env pem p = (Inr (challenge, e), p') \<Longrightarrow> certified env pem e"
  by (auto simp: browser_lookup_def certified_def active_entry_of_def find_Some_iff split: option.splits if_splits prod.splits sum.splits)


lemma gone_admits: "gateway_ok env one tr s \<Longrightarrow> c \<in> gw_ids s \<Longrightarrow> gw_conns s c = None \<Longrightarrow> admitted_by c tr"
  unfolding gateway_ok_def admitted_by_def core_None by blast

lemma authenticated_admits:
  assumes "gateway_ok env one tr s" "is_ws_authenticated c s"
  shows "admitted_by c tr"
proof -
  from assms(2) obtain conn where conn: "gw_conns s c = Some conn" by (auto simp: is_ws_authenticated_def split: option.splits)
  have "conn_ok env one tr c (wc_identity conn, wc_listener conn, wc_auth conn)"
    using assms(1) core_Some[OF conn] unfolding gateway_ok_def by blast
  with assms(2) conn show ?thesis
    by (auto simp: conn_ok_def admitted_by_def is_ws_authenticated_def split: listener_kind.splits)
qed

text \<open>The effect of a step of a task of connection \<open>c\<close>.\<close>

definition effect_ok ::
  "('k, 'w) ws_env \<Rightarrow> bool \<Rightarrow> ws_event list \<Rightarrow> string \<Rightarrow> 'w gateway \<Rightarrow> ws_task option \<times> ws_event list \<times> 'w gateway \<Rightarrow> bool" where
  "effect_ok env one tr c s = (\<lambda>(t', es, s'). gw_ids s' = gw_ids s \<and> (\<forall>d. d \<noteq> c \<longrightarrow> core s' d = core s d) \<and>
     (core s' c = None \<longleftrightarrow> core s c = None) \<and> (\<forall>x. core s' c = Some x \<longrightarrow> conn_ok env one (tr @ es) c x) \<and>
     (\<forall>u. t' = Some u \<longrightarrow> ws_task_ok env one (tr @ es) (core s') c u) \<and> (\<forall>e \<in> set es. event_ok env one tr e) \<and> length es \<le> 1)"

lemma effect_same:
  assumes "\<And>x. core s c = Some x \<Longrightarrow> conn_ok env one tr c x" "core s' = core s" "gw_ids s' = gw_ids s"
    and "\<And>u. t' = Some u \<Longrightarrow> ws_task_ok env one tr (core s) c u"
  shows "effect_ok env one tr c s (t', [], s')"
  using assms by (auto simp: effect_ok_def)

lemma effect_served:
  assumes "\<And>x. core s c = Some x \<Longrightarrow> conn_ok env one tr c x" "core s' = core s" "gw_ids s' = gw_ids s" "admitted_by c tr"
  shows "effect_ok env one tr c s (None, [Served c msg], s')"
  using assms by (auto simp: effect_ok_def intro: conn_ok_mono)

lemma effect_update:
  assumes "core s' = (core s)(c := map_option (\<lambda>conn. (wc_identity (f conn), wc_listener (f conn), wc_auth (f conn))) (gw_conns s c))"
    and "gw_ids s' = gw_ids s" "length es \<le> 1" "\<And>e. e \<in> set es \<Longrightarrow> event_ok env one tr e"
    and "\<And>conn. gw_conns s c = Some conn \<Longrightarrow> conn_ok env one (tr @ es) c (wc_identity (f conn), wc_listener (f conn), wc_auth (f conn))"
    and "\<And>u. t' = Some u \<Longrightarrow> ws_task_ok env one (tr @ es) (core s') c u"
  shows "effect_ok env one tr c s (t', es, s')"
  using assms by (auto simp: effect_ok_def core_None)

lemma old_conn_ok:
  assumes "gateway_ok env one tr s" "gw_conns s c = Some conn"
  shows "conn_ok env one tr c (wc_identity conn, wc_listener conn, wc_auth conn)"
  using assms core_Some unfolding gateway_ok_def by blast

lemma dispatch_effect:
  assumes ok: "gateway_ok env one tr s" and adm: "requires_ws_auth msg \<Longrightarrow> admitted_by c tr"
  shows "effect_ok env one tr c s (dispatch env c msg s)"
proof -
  have conn: "\<And>x. core s c = Some x \<Longrightarrow> conn_ok env one tr c x" using ok unfolding gateway_ok_def by blast
  note same = effect_same[OF conn] and served = effect_served[OF conn]
  show ?thesis
  proof (cases msg)
    case (ClientIdentify claimed hostname label)
    then show ?thesis by (auto simp: dispatch_def intro!: same split: option.splits prod.splits)
  next
    case (WebAuthBegin pem)
    show ?thesis unfolding dispatch_def WebAuthBegin ws_message.case
    proof (rule effect_update[OF core_on_connection])
      fix conn assume "gw_conns s c = Some conn"
      from old_conn_ok[OF ok this] show "conn_ok env one (tr @ []) c (wc_identity (clear_browser_auth pem conn),
          wc_listener (clear_browser_auth pem conn), wc_auth (clear_browser_auth pem conn))"
        by (simp add: conn_ok_def clear_browser_auth_def)
    qed simp_all
  qed (use adm in \<open>auto simp: dispatch_def requires_ws_auth_def intro!: same served\<close>)
qed

lemma task_effect:
  assumes ok: "gateway_ok env one tr s" and task: "(c, t) \<in> set (gw_tasks s)"
  shows "effect_ok env one tr c s (task_step env c t s)"
proof -
  have conn: "\<And>x. core s c = Some x \<Longrightarrow> conn_ok env one tr c x" using ok unfolding gateway_ok_def by blast
  note same = effect_same[OF conn]
  have known: "c \<in> gw_ids s" and t: "ws_task_ok env one tr (core s) c t" using ok task unfolding gateway_ok_def by auto
  show ?thesis
  proof (cases t)
    case (Received raw)
    then show ?thesis using gone_admits[OF ok known] by (auto intro!: same split: option.splits)
  next
    case (CheckAuth msg)
    then show ?thesis using authenticated_admits[OF ok] by (auto intro!: same)
  next
    case (Dispatch msg)
    then show ?thesis using dispatch_effect[OF ok] t by simp
  next
    case (IdentifyWrite u)
    show ?thesis unfolding IdentifyWrite task_step.simps
    proof (rule effect_update[where f = "\<lambda>conn. conn\<lparr>wc_identity := Some (identity_of u)\<rparr>"])
      fix conn assume c: "gw_conns s c = Some conn"
      from conn_ok_mono[OF old_conn_ok[OF ok c], of "tr @ [Identified c u]"] c
      show "conn_ok env one (tr @ (if gw_conns s c \<noteq> None then [Identified c u] else [])) c
          (wc_identity (conn\<lparr>wc_identity := Some (identity_of u)\<rparr>), wc_listener (conn\<lparr>wc_identity := Some (identity_of u)\<rparr>),
           wc_auth (conn\<lparr>wc_identity := Some (identity_of u)\<rparr>))"
        by (auto simp: conn_ok_def identified_def)
    qed (auto simp: core_on_connection split: if_splits)
  next
    case BeginRead
    then show ?thesis by (auto intro!: same simp: pending_is_def core_def split: option.splits)
  next
    case (BeginLookup pem)
    with t show ?thesis by (auto intro!: same split: prod.splits sum.splits dest: browser_lookup_certified)
  next
    case (BeginWrite challenge e pem)
    show ?thesis
    proof (cases "gw_conns s c")
      case None
      with BeginWrite show ?thesis by (auto intro!: same)
    next
      case (Some conn0)
      have "effect_ok env one tr c s (None, [Issued c pem e challenge],
          reply c (WebAuthChallenge (we_base64 env challenge)) (on_connection c (install_challenge challenge e) s))"
      proof (rule effect_update[where f = "install_challenge challenge e"])
        fix conn assume c: "gw_conns s c = Some conn"
        have "one \<Longrightarrow> ba_pending_cert (wc_auth conn) = Some pem" and "certified env pem e"
          using t BeginWrite core_Some[OF c] by (auto simp: pending_is_def)
        with conn_ok_mono[OF old_conn_ok[OF ok c], of "tr @ [Issued c pem e challenge]"]
        show "conn_ok env one (tr @ [Issued c pem e challenge]) c (wc_identity (install_challenge challenge e conn),
            wc_listener (install_challenge challenge e conn), wc_auth (install_challenge challenge e conn))"
          by (auto simp: conn_ok_def install_challenge_def issued_def)
      qed (simp_all add: core_on_connection)
      with BeginWrite Some show ?thesis by simp
    qed
  next
    case (CompleteRead sig)
    show ?thesis
    proof (cases "pending_authentication c s")
      case (Inl e)
      with CompleteRead show ?thesis by (auto intro!: same)
    next
      case (Inr p)
      obtain pem challenge name role where p: "p = (pem, challenge, name, role)" by (cases p)
      with Inr obtain k where k: "gw_conns s c = Some k" "ba_pending_cert (wc_auth k) = Some pem" "ba_pending_challenge (wc_auth k) = Some challenge"
        "ba_cert_name (wc_auth k) = Some name" "ba_cert_role (wc_auth k) = Some role"
        by (auto simp: pending_authentication_def sbind_def ok_or_def split: option.splits sum.splits)
      with old_conn_ok[OF ok k(1)] have "issued env c (\<lambda>p. one \<longrightarrow> p = pem) challenge name role tr"
        by (auto simp: conn_ok_def elim: issued_weaken)
      with Inr p CompleteRead show ?thesis by (auto intro!: same)
    qed
  next
    case (CompleteVerify sig pem challenge name role)
    with t show ?thesis by (auto intro!: same split: sum.splits)
  next
    case (CompleteWrite sig pem challenge name role)
    show ?thesis
    proof (cases "gw_conns s c")
      case None
      with CompleteWrite show ?thesis by (auto intro!: same)
    next
      case (Some conn0)
      have "effect_ok env one tr c s (None, [Accepted c pem challenge sig name role],
          reply c (WebAuthResult True None (Some name) (Some role)) (on_connection c mark_authenticated s))"
      proof (rule effect_update[where f = mark_authenticated])
        fix conn assume c: "gw_conns s c = Some conn"
        have "accepted c (tr @ [Accepted c pem challenge sig name role])" by (rule acceptedI[of c pem challenge sig name role]) simp
        moreover have "conn_ok env one (tr @ [Accepted c pem challenge sig name role]) c (wc_identity conn, wc_listener conn, wc_auth conn)"
          by (rule conn_ok_mono[OF old_conn_ok[OF ok c]]) auto
        ultimately show "conn_ok env one (tr @ [Accepted c pem challenge sig name role]) c (wc_identity (mark_authenticated conn),
            wc_listener (mark_authenticated conn), wc_auth (mark_authenticated conn))"
          by (simp add: conn_ok_def mark_authenticated_def)
      qed (use t CompleteWrite in \<open>simp_all add: core_on_connection\<close>)
      with CompleteWrite Some show ?thesis by simp
    qed
  next
    case (CompleteFail e)
    show ?thesis unfolding CompleteFail task_step.simps
    proof (rule effect_update[where f = mark_failed])
      fix conn assume c: "gw_conns s c = Some conn"
      from old_conn_ok[OF ok c] show "conn_ok env one (tr @ []) c (wc_identity (mark_failed conn), wc_listener (mark_failed conn), wc_auth (mark_failed conn))"
        by (simp add: conn_ok_def mark_failed_def)
    qed (simp_all add: core_on_connection)
  qed
qed


subsection \<open>Runs\<close>

lemma pending_same: "core s' d = core s d \<Longrightarrow> pending_is (core s) d pem \<Longrightarrow> pending_is (core s') d pem"
  by (simp add: pending_is_def)

lemma known_id: "gateway_ok env one tr s \<Longrightarrow> c \<in> gw_ids s \<Longrightarrow> \<exists>kind. Connected c kind \<in> set tr \<and> (core s c = None \<longrightarrow> Disconnected c \<in> set tr)"
  by (simp add: gateway_ok_def)

lemma gateway_okI:
  assumes ok: "gateway_ok env one tr s" and sub: "set tr \<subseteq> set tr'" and ids: "gw_ids s \<subseteq> gw_ids s'"
    and conns: "\<And>c x. core s' c = Some x \<Longrightarrow> core s c \<noteq> Some x \<Longrightarrow> c \<in> gw_ids s' \<and> conn_ok env one tr' c x"
    and gone: "\<And>c. c \<in> gw_ids s' \<Longrightarrow> (c \<in> gw_ids s \<and> (core s' c = None \<longrightarrow> core s c = None)) \<or>
        (\<exists>kind. Connected c kind \<in> set tr' \<and> (core s' c = None \<longrightarrow> Disconnected c \<in> set tr'))"
    and tasks: "\<And>c t. (c, t) \<in> set (gw_tasks s') \<Longrightarrow> c \<in> gw_ids s' \<and> ws_task_ok env one tr' (core s') c t"
  shows "gateway_ok env one tr' s'"
proof -
  have "c \<in> gw_ids s' \<and> conn_ok env one tr' c x" if "core s' c = Some x" for c x
  proof (cases "core s c = Some x")
    case True
    with ok have "c \<in> gw_ids s" "conn_ok env one tr c x" unfolding gateway_ok_def by blast+
    with ids conn_ok_mono[OF _ sub] show ?thesis by blast
  qed (use conns[OF that] in simp)
  moreover have "\<exists>kind. Connected c kind \<in> set tr' \<and> (core s' c = None \<longrightarrow> Disconnected c \<in> set tr')" if c: "c \<in> gw_ids s'" for c
    using gone[OF c]
  proof
    assume old: "c \<in> gw_ids s \<and> (core s' c = None \<longrightarrow> core s c = None)"
    then obtain kind where "Connected c kind \<in> set tr" "core s c = None \<longrightarrow> Disconnected c \<in> set tr"
      using known_id[OF ok] by blast
    then show ?thesis using old sub by (intro exI[of _ kind]) auto
  qed
  moreover have "\<forall>(c, t) \<in> set (gw_tasks s'). c \<in> gw_ids s' \<and> ws_task_ok env one tr' (core s') c t" using tasks by auto
  ultimately show ?thesis unfolding gateway_ok_def by simp
qed

lemma old_task: "gateway_ok env one tr s \<Longrightarrow> (c, t) \<in> set (gw_tasks s) \<Longrightarrow> c \<in> gw_ids s \<and> ws_task_ok env one tr (core s) c t"
  unfolding gateway_ok_def by auto

lemma kept_task:
  assumes "gateway_ok env one tr s" "(c, t) \<in> set (gw_tasks s)" "set tr \<subseteq> set tr'" "\<And>pem. one \<Longrightarrow> pending_is (core s) c pem \<Longrightarrow> pending_is (core s') c pem"
  shows "c \<in> gw_ids s \<and> ws_task_ok env one tr' (core s') c t"
proof (rule conjI)
  show "c \<in> gw_ids s" using old_task[OF assms(1,2)] by simp
  show "ws_task_ok env one tr' (core s') c t"
    by (rule ws_task_ok_mono[OF conjunct2[OF old_task[OF assms(1,2)]] assms(3,4)])
qed

lemma run_ok:
  assumes ok: "gateway_ok env one tr s" and alone: "one \<Longrightarrow> distinct (map fst (gw_tasks s))"
    and tasks: "gw_tasks s = before @ (c, t) # after" and step: "task_step env c t s = (t', es, s')"
  shows "gateway_ok env one (tr @ es) (s'\<lparr>gw_tasks := before @ replace_task c t' @ after\<rparr>) \<and> (\<forall>e \<in> set es. event_ok env one tr e) \<and> length es \<le> 1"
proof -
  have here: "(c, t) \<in> set (gw_tasks s)" using tasks by simp
  from task_effect[OF ok here] step have eff: "gw_ids s' = gw_ids s" "\<And>d. d \<noteq> c \<Longrightarrow> core s' d = core s d"
    "core s' c = None \<longleftrightarrow> core s c = None" "\<And>x. core s' c = Some x \<Longrightarrow> conn_ok env one (tr @ es) c x"
    "\<And>u. t' = Some u \<Longrightarrow> ws_task_ok env one (tr @ es) (core s') c u"
    and events: "\<forall>e \<in> set es. event_ok env one tr e" "length es \<le> 1"
    by (auto simp: effect_ok_def)
  have c: "c \<in> gw_ids s" using old_task[OF ok here] by simp
  let ?s = "s'\<lparr>gw_tasks := before @ replace_task c t' @ after\<rparr>"
  have "gateway_ok env one (tr @ es) ?s"
  proof (rule gateway_okI[OF ok])
    show "d \<in> gw_ids ?s \<and> conn_ok env one (tr @ es) d x" if "core ?s d = Some x" "core s d \<noteq> Some x" for d x
      using that eff c by (cases "d = c") auto
    show "(d \<in> gw_ids s \<and> (core ?s d = None \<longrightarrow> core s d = None)) \<or>
        (\<exists>kind. Connected d kind \<in> set (tr @ es) \<and> (core ?s d = None \<longrightarrow> Disconnected d \<in> set (tr @ es)))" if "d \<in> gw_ids ?s" for d
      using that eff by (cases "d = c") auto
    fix d u assume du: "(d, u) \<in> set (gw_tasks ?s)"
    show "d \<in> gw_ids ?s \<and> ws_task_ok env one (tr @ es) (core ?s) d u"
    proof (cases "(d, u) \<in> set (before @ after)")
      case True
      then have old: "(d, u) \<in> set (gw_tasks s)" using tasks by auto
      have "one \<Longrightarrow> d \<noteq> c" using alone True unfolding tasks by (force simp: rev_image_eqI)
      then have "d \<in> gw_ids s \<and> ws_task_ok env one (tr @ es) (core ?s) d u"
        using eff(2) by (intro kept_task[OF ok old]) (auto simp: pending_is_def)
      then show ?thesis using eff(1) by simp
    next
      case False
      with du have "t' = Some u" "d = c" by (auto simp: replace_task_def split: option.splits)
      with eff c show ?thesis by simp
    qed
  qed (use eff in auto)
  with events show ?thesis by simp
qed

lemma ws_step_ok:
  assumes ok: "gateway_ok env one tr s" and alone: "one \<Longrightarrow> distinct (map fst (gw_tasks s))" and step: "ws_step env s es s'"
  shows "gateway_ok env one (tr @ es) s' \<and> (\<forall>e \<in> set es. event_ok env one tr e) \<and> length es \<le> 1"
  using step
proof cases
  case (connect c kind)
  have "gateway_ok env one (tr @ [Connected c kind]) s'"
  proof (rule gateway_okI[OF ok])
    show "d \<in> gw_ids s' \<and> conn_ok env one (tr @ [Connected c kind]) d x" if "core s' d = Some x" "core s d \<noteq> Some x" for d x
    proof (cases "d = c")
      case True
      with that connect have "x = (None, kind, no_browser_auth)" by (auto simp: core_def new_connection_def)
      with True connect show ?thesis by (simp add: conn_ok_def no_browser_auth_def)
    qed (use that connect in \<open>auto simp: core_def\<close>)
    fix d t assume "(d, t) \<in> set (gw_tasks s')"
    then have old: "(d, t) \<in> set (gw_tasks s)" using connect by simp
    with ok have "d \<noteq> c" using connect(3) unfolding gateway_ok_def by blast
    then have "d \<in> gw_ids s \<and> ws_task_ok env one (tr @ [Connected c kind]) (core s') d t"
      using connect by (intro kept_task[OF ok old]) (auto simp: pending_is_def core_def)
    then show "d \<in> gw_ids s' \<and> ws_task_ok env one (tr @ [Connected c kind]) (core s') d t" using connect by simp
  qed (use connect in \<open>auto simp: core_def\<close>)
  with connect show ?thesis by simp
next
  case (receive c raw)
  have "gateway_ok env one tr s'"
  proof (rule gateway_okI[OF ok])
    fix d t assume "(d, t) \<in> set (gw_tasks s')"
    moreover have "c \<in> gw_ids s" using receive(3) ok unfolding gateway_ok_def core_None by auto
    ultimately show "d \<in> gw_ids s' \<and> ws_task_ok env one tr (core s') d t" using receive old_task[OF ok] by auto
  qed (use receive in auto)
  with receive show ?thesis by simp
next
  case (run before c t after t' s1)
  with run_ok[OF ok alone run(2,3)] show ?thesis by simp
next
  case (send c conn resp rest)
  then have "core s' = core s" by (auto simp: core_def)
  then have "gateway_ok env one tr s'" using ok send unfolding gateway_ok_def by simp
  with send show ?thesis by simp
next
  case (disconnect c)
  have "gateway_ok env one (tr @ [Disconnected c]) s'"
  proof (rule gateway_okI[OF ok])
    fix d t assume "(d, t) \<in> set (gw_tasks s')"
    then have old: "(d, t) \<in> set (gw_tasks s)" using disconnect by simp
    have "d \<in> gw_ids s \<and> ws_task_ok env one (tr @ [Disconnected c]) (core s') d t"
      using disconnect by (intro kept_task[OF ok old]) (auto simp: pending_is_def core_def)
    then show "d \<in> gw_ids s' \<and> ws_task_ok env one (tr @ [Disconnected c]) (core s') d t" using disconnect by simp
  next
    fix d assume "d \<in> gw_ids s'"
    then have d: "d \<in> gw_ids s" using disconnect by simp
    then obtain kind where "Connected d kind \<in> set tr" using ok unfolding gateway_ok_def by blast
    with d disconnect show "(d \<in> gw_ids s \<and> (core s' d = None \<longrightarrow> core s d = None)) \<or>
        (\<exists>kind. Connected d kind \<in> set (tr @ [Disconnected c]) \<and> (core s' d = None \<longrightarrow> Disconnected d \<in> set (tr @ [Disconnected c])))"
      by (cases "d = c") (auto simp: core_def)
  qed (use disconnect in \<open>auto simp: core_def split: if_splits\<close>)
  with disconnect show ?thesis by simp
next
  case (elsewhere p)
  then have "core s' = core s" "gw_ids s' = gw_ids s" "gw_tasks s' = gw_tasks s" by simp_all
  then have "gateway_ok env one tr s'" using ok unfolding gateway_ok_def by simp
  with elsewhere show ?thesis by simp
qed


definition trace_ok :: "('k, 'w) ws_env \<Rightarrow> bool \<Rightarrow> ws_event list \<Rightarrow> bool" where
  "trace_ok env one tr \<longleftrightarrow> (\<forall>before e after. tr = before @ e # after \<longrightarrow> event_ok env one before e)"

lemma trace_okD: "trace_ok env one (before @ e # after) \<Longrightarrow> event_ok env one before e"
  unfolding trace_ok_def by blast

lemma trace_ok_snoc: "trace_ok env one tr \<Longrightarrow> event_ok env one tr e \<Longrightarrow> trace_ok env one (tr @ [e])"
  unfolding trace_ok_def by (metis append_eq_append_conv2 append_self_conv butlast.simps(2) butlast_append butlast_snoc last_appendR last_snoc
    list.distinct(1) last.simps append_butlast_last_id)

lemma trace_ok_step:
  assumes "trace_ok env one tr" "length es \<le> 1" "\<forall>e \<in> set es. event_ok env one tr e"
  shows "trace_ok env one (tr @ es)"
proof (cases es)
  case (Cons e rest)
  with assms(2) have "es = [e]" by simp
  with assms trace_ok_snoc show ?thesis by simp
qed (use assms in simp)

lemma init_ok: "gateway_ok env one [] (gateway_init p)" "trace_ok env one []"
  by (simp_all add: gateway_ok_def gateway_init_def core_def trace_ok_def)

lemma ws_run_ok: "ws_run env tr s \<Longrightarrow> gateway_ok env False tr s \<and> trace_ok env False tr"
proof (induction rule: ws_run.induct)
  case (step es s fs s')
  with ws_step_ok[of env False es s fs s'] trace_ok_step show ?case by blast
qed (simp add: init_ok)

lemma serial_run_ok: "serial_run env tr s \<Longrightarrow> gateway_ok env True tr s \<and> trace_ok env True tr \<and> distinct (map fst (gw_tasks s))"
proof (induction rule: serial_run.induct)
  case (step es s fs s')
  with ws_step_ok[of env True es s fs s'] trace_ok_step show ?case by blast
qed (intro conjI init_ok, simp add: gateway_init_def)

subsection \<open>Properties\<close>

text \<open>C12. However the messages of all connections are interleaved, a message that needs authentication is handled only after
  its connection was authenticated, by an accepted signature on the public listener and by identifying itself on the
  listener for clients; or after its connection has ended.\<close>

theorem served_after_authentication:
  assumes "ws_run env (before @ Served c msg # after) s"
  shows "\<exists>kind. Connected c kind \<in> set before \<and> (Disconnected c \<in> set before \<or> (case kind of
     PublicListener \<Rightarrow> \<exists>pem challenge sig name role. Accepted c pem challenge sig name role \<in> set before
   | ClientListener \<Rightarrow> \<exists>u. Identified c u \<in> set before))"
proof -
  have "admitted_by c before" using trace_okD[OF conjunct2[OF ws_run_ok[OF assms]]] by simp
  then show ?thesis unfolding admitted_by_def accepted_def identified_def .
qed

text \<open>However messages are interleaved, a browser is accepted under a name only when a challenge was issued to that very
  connection for an active certificate of that name and role, and the signature of that challenge is valid under the key
  of the certificate the connection has presented.\<close>

theorem accepted_on_challenge:
  assumes "ws_run env (before @ Accepted c pem challenge sig name role # after) s"
  shows "\<exists>pem' e der. Issued c pem' e challenge \<in> set before \<and> ce_status e = CertActive \<and> we_first_der env pem' = Some der \<and>
    ce_fingerprint e = sha256_fingerprint (we_pki env) der \<and> name = ce_name e \<and> role = cert_role_name (ce_role e) \<and>
    signature_valid env pem challenge sig = Inr True"
  using trace_okD[OF conjunct2[OF ws_run_ok[OF assms]]] by (auto simp: issued_def certified_def)

text \<open>When the messages of a connection are handled one after the other, the certificate whose key verifies the signature
  is the one the name and the role belong to.\<close>

theorem accepted_as_owner:
  assumes "serial_run env (before @ Accepted c pem challenge sig name role # after) s"
  shows "\<exists>e der. Issued c pem e challenge \<in> set before \<and> ce_status e = CertActive \<and> we_first_der env pem = Some der \<and>
    ce_fingerprint e = sha256_fingerprint (we_pki env) der \<and> name = ce_name e \<and> role = cert_role_name (ce_role e) \<and>
    signature_valid env pem challenge sig = Inr True"
  using trace_okD[OF conjunct1[OF conjunct2[OF serial_run_ok[OF assms]]]] by (auto simp: issued_def certified_def)

subsection \<open>Bounds\<close>

text \<open>How many steps a task has left at most.\<close>

fun task_rank :: "ws_task \<Rightarrow> nat" where
  "task_rank (Received raw) = 7"
| "task_rank (CheckAuth msg) = 6"
| "task_rank (Dispatch msg) = 5"
| "task_rank (CompleteRead sig) = 4"
| "task_rank (CompleteVerify sig pem challenge name role) = 3"
| "task_rank (CompleteWrite sig pem challenge name role) = 2"
| "task_rank (CompleteFail e) = 1"
| "task_rank BeginRead = 3"
| "task_rank (BeginLookup pem) = 2"
| "task_rank (BeginWrite challenge e pem) = 1"
| "task_rank (IdentifyWrite u) = 1"

lemma task_ends: "task_step env c t s = (Some t', es, s') \<Longrightarrow> task_rank t' < task_rank t"
  by (cases t) (auto simp: dispatch_def split: if_splits option.splits sum.splits prod.splits ws_message.splits)

lemma inflight_bounded:
  assumes "ws_run env tr s"
  shows "length (filter (\<lambda>(d, _). d = c) (gw_tasks s)) \<le> MAX_WS_INFLIGHT_MESSAGES"
  using assms
proof (induction rule: ws_run.induct)
  case (step es s fs s')
  from step(2) step.IH show ?case
  proof cases
    case (run before d t after t' s1)
    have "length (filter (\<lambda>(e, _). e = c) (replace_task d t')) \<le> length (filter (\<lambda>(e, _). e = c) [(d, t)])"
      by (simp add: replace_task_def split: option.splits)
    with run step.IH show ?thesis by (cases "d = c") simp_all
  qed auto
qed (simp add: gateway_init_def)

subsection \<open>Concrete runs\<close>

datatype act = Connects string listener_kind | Sends string string | Runs nat | Leaves string

fun play :: "('k, 'w) ws_env \<Rightarrow> act \<Rightarrow> 'w gateway \<Rightarrow> (ws_event list \<times> 'w gateway) option" where
  "play env (Connects c kind) s = (if c \<in> gw_ids s then None
     else Some ([Connected c kind], s\<lparr>gw_conns := (gw_conns s)(c \<mapsto> new_connection kind), gw_ids := insert c (gw_ids s)\<rparr>))"
| "play env (Sends c raw) s = (if gw_conns s c = None \<or> MAX_WS_INFLIGHT_MESSAGES \<le> length (filter (\<lambda>(d, _). d = c) (gw_tasks s)) then None
     else Some ([], s\<lparr>gw_tasks := gw_tasks s @ [(c, Received raw)]\<rparr>))"
| "play env (Runs i) s = (case drop i (gw_tasks s) of [] \<Rightarrow> None
     | (c, t) # after \<Rightarrow> (case task_step env c t s of (t', es, s') \<Rightarrow>
         Some (es, s'\<lparr>gw_tasks := take i (gw_tasks s) @ replace_task c t' @ after\<rparr>)))"
| "play env (Leaves c) s = (if gw_conns s c = None then None else Some ([Disconnected c], s\<lparr>gw_conns := (gw_conns s)(c := None)\<rparr>))"

lemma play_step: "play env a s = Some (es, s') \<Longrightarrow> ws_step env s es s'"
proof (cases a)
  case (Runs i)
  assume "play env a s = Some (es, s')"
  with Runs obtain c t after t' s1 where drop: "drop i (gw_tasks s) = (c, t) # after" and step: "task_step env c t s = (t', es, s1)"
    and s': "s' = s1\<lparr>gw_tasks := take i (gw_tasks s) @ replace_task c t' @ after\<rparr>"
    by (auto split: list.splits prod.splits)
  have "gw_tasks s = take i (gw_tasks s) @ (c, t) # after" using append_take_drop_id[of i "gw_tasks s"] drop by simp
  from ws_step.run[OF this step] s' show ?thesis by simp
qed (auto intro: ws_step.intros split: if_splits)

fun plays :: "('k, 'w) ws_env \<Rightarrow> bool \<Rightarrow> act list \<Rightarrow> ws_event list \<times> 'w gateway \<Rightarrow> (ws_event list \<times> 'w gateway) option" where
  "plays env one [] p = Some p"
| "plays env one (a # as) (tr, s) = (case play env a s of None \<Rightarrow> None
     | Some (es, s') \<Rightarrow> if one \<and> \<not> distinct (map fst (gw_tasks s')) then None else plays env one as (tr @ es, s'))"

lemma plays_run: "plays env False as (tr, s) = Some (tr', s') \<Longrightarrow> ws_run env tr s \<Longrightarrow> ws_run env tr' s'"
  by (induction as arbitrary: tr s) (auto split: option.splits dest!: play_step intro: ws_run.step)

lemma plays_serial: "plays env True as (tr, s) = Some (tr', s') \<Longrightarrow> serial_run env tr s \<Longrightarrow> serial_run env tr' s'"
proof (induction as arbitrary: tr s)
  case (Cons a as)
  then obtain es s1 where run: "play env a s = Some (es, s1)" "distinct (map fst (gw_tasks s1))" "plays env True as (tr @ es, s1) = Some (tr', s')"
    by (auto split: option.splits if_splits)
  with Cons.IH serial_run.step[OF Cons.prems(2) play_step] show ?case by blast
qed simp


definition sample_registry :: "(string \<times> string) list \<Rightarrow> pki_index" where
  "sample_registry es = \<lparr>px_next_serial = 4, px_entries = map (\<lambda>(name, fp). sample_entry\<lparr>ce_name := name, ce_fingerprint := fp\<rparr>) es, px_enrollments = []\<rparr>"

text \<open>Two certificates, each its own key; a signature is valid under the key of \<open>''M''\<close> only.\<close>

definition sample_ws :: "(string, nat) ws_env" where
  "sample_ws = \<lparr>we_parse = [''begin V'' \<mapsto> WebAuthBegin ''V'', ''begin M'' \<mapsto> WebAuthBegin ''M'', ''complete'' \<mapsto> WebAuthComplete ''signed'',
       ''request'' \<mapsto> ApiRequest ''1'' ''POST'' ''/api/agents'' None],
     we_pki = sample_pki_env\<lparr>pe_sha256 := (\<lambda>d. if d = ''V'' then [1] else [2]),
       pe_read_index := (\<lambda>_. Some (sample_registry [(''victim'', ''01''), (''mallory'', ''02'')])), pe_random32 := (\<lambda>w. (Some ''challenge'', w))\<rparr>,
     we_pki_dir = True, we_first_der = Some, we_certificate_keys = (\<lambda>d. Some (d, d)),
     we_ecdsa = (\<lambda>f key ch sg. key = ''M'' \<and> ch = ''challenge'' \<and> sg = ''signed''), we_base64 = id, we_unbase64 = Some,
     we_health = (\<lambda>p. ''ok''), we_remote_exec = False, we_serve = (\<lambda>c conn msg p. ([], p))\<rparr>"

definition sample_gateway :: "nat gateway" where
  "sample_gateway = gateway_init (sample_pki\<lparr>pk_files := [INDEX_FILE \<mapsto> ''registry'']\<rparr>)"

lemma sample_entries:
  "active_entry_of sample_ws ''V'' (sample_registry [(''victim'', ''01''), (''mallory'', ''02'')]) = Some (sample_entry\<lparr>ce_name := ''victim'', ce_fingerprint := ''01''\<rparr>)"
  "active_entry_of sample_ws ''M'' (sample_registry [(''victim'', ''01''), (''mallory'', ''02'')]) = Some (sample_entry\<lparr>ce_name := ''mallory'', ce_fingerprint := ''02''\<rparr>)"
  by (simp_all add: active_entry_of_def sample_registry_def sample_ws_def sha256_fingerprint_def upper_hex_def sample_entry_def char_of_def bit_0)



lemma sample_fields [simp]:
  "we_first_der sample_ws = Some" "we_pki_dir sample_ws" "we_certificate_keys sample_ws d = Some (d, d)" "we_base64 sample_ws = id"
  "we_unbase64 sample_ws = Some" "pe_random32 (we_pki sample_ws) w = (Some ''challenge'', w)"
  "we_ecdsa sample_ws f key ch sg \<longleftrightarrow> key = ''M'' \<and> ch = ''challenge'' \<and> sg = ''signed''" "we_serve sample_ws c conn msg p = ([], p)"
  "we_parse sample_ws ''begin V'' = Some (WebAuthBegin ''V'')" "we_parse sample_ws ''begin M'' = Some (WebAuthBegin ''M'')"
  "we_parse sample_ws ''complete'' = Some (WebAuthComplete ''signed'')"
  "we_parse sample_ws ''request'' = Some (ApiRequest ''1'' ''POST'' ''/api/agents'' None)"
  by (simp_all add: sample_ws_def)

lemma sample_load:
  "pk_files p = [INDEX_FILE \<mapsto> ''registry''] \<Longrightarrow>
    load_index (we_pki sample_ws) p = (Inr (sample_registry [(''victim'', ''01''), (''mallory'', ''02'')]), p)"
  by (simp add: load_index_def read_file_def sx_bind_def sx_return_def sample_ws_def sample_pki_env_def)

lemma sample_lookup [simp]:
  "pk_files p = [INDEX_FILE \<mapsto> ''registry''] \<Longrightarrow> browser_lookup sample_ws ''V'' p = (Inr (''challenge'', sample_entry\<lparr>ce_name := ''victim'', ce_fingerprint := ''01''\<rparr>), p)"
  "pk_files p = [INDEX_FILE \<mapsto> ''registry''] \<Longrightarrow> browser_lookup sample_ws ''M'' p = (Inr (''challenge'', sample_entry\<lparr>ce_name := ''mallory'', ce_fingerprint := ''02''\<rparr>), p)"
  by (simp_all add: browser_lookup_def sample_entries sample_load)

lemmas play_simps = dispatch_def requires_ws_auth_def on_connection_def reply_def enqueue_ws_message_def begin_failed_def
  clear_browser_auth_def install_challenge_def mark_authenticated_def pending_authentication_def signature_valid_def
  new_connection_def no_browser_auth_def replace_task_def MAX_WS_INFLIGHT_MESSAGES_def MAX_WS_OUTBOUND_QUEUE_def is_ws_authenticated_def
  serve_def sbind_def


text \<open>What a scenario of actions leads to: the events it makes.\<close>

definition plays_events :: "bool \<Rightarrow> act list \<Rightarrow> ws_event list option" where
  "plays_events one as = map_option fst (plays sample_ws one as ([], sample_gateway))"

lemma scenario:
  "plays_events False as = Some tr \<Longrightarrow> \<exists>s. ws_run sample_ws tr s"
  "plays_events True as = Some tr \<Longrightarrow> \<exists>s. serial_run sample_ws tr s"
  unfolding plays_events_def sample_gateway_def using plays_run[OF _ ws_run.start] plays_serial[OF _ serial_run.start] by fastforce+

definition victim_entry :: cert_entry where "victim_entry = sample_entry\<lparr>ce_name := ''victim'', ce_fingerprint := ''01''\<rparr>"
definition mallory_entry :: cert_entry where "mallory_entry = sample_entry\<lparr>ce_name := ''mallory'', ce_fingerprint := ''02''\<rparr>"

lemmas scenario_simps = plays_events_def sample_gateway_def gateway_init_def play_simps sample_entry_def cert_role_name_def victim_entry_def mallory_entry_def

text \<open>Messages of one connection at the same time: the second certificate replaces the first between the moment the first
  one was found in the registry and the moment its challenge and name are stored. The signature is then made with the key
  of the second, and the connection is accepted under the name of the first.\<close>

definition swap_events :: "ws_event list" where
  "swap_events = [Connected ''c'' PublicListener, Issued ''c'' ''V'' victim_entry ''challenge'',
     Accepted ''c'' ''M'' ''challenge'' ''signed'' ''victim'' ''agent'']"

lemma certificate_swapped: "\<exists>s. ws_run sample_ws swap_events s"
proof (rule scenario(1))
  show "plays_events False [Connects ''c'' PublicListener, Sends ''c'' ''begin V'', Runs 0, Runs 0, Runs 0, Runs 0,
      Sends ''c'' ''begin M'', Runs 1, Runs 1, Runs 0, Sends ''c'' ''complete'', Runs 1, Runs 1, Runs 1, Runs 1, Runs 1] = Some swap_events"
    by (simp add: scenario_simps swap_events_def)
qed

text \<open>A connection that ends while its message waits: the message is handled without any authentication.\<close>

lemma served_after_leaving:
  "\<exists>s. ws_run sample_ws [Connected ''c'' PublicListener, Disconnected ''c'', Served ''c'' (ApiRequest ''1'' ''POST'' ''/api/agents'' None)] s"
proof (rule scenario(1))
  show "plays_events False [Connects ''c'' PublicListener, Sends ''c'' ''request'', Leaves ''c'', Runs 0, Runs 0] =
      Some [Connected ''c'' PublicListener, Disconnected ''c'', Served ''c'' (ApiRequest ''1'' ''POST'' ''/api/agents'' None)]"
    by (simp add: scenario_simps)
qed

definition login_acts :: "act list" where
  "login_acts = [Connects ''c'' PublicListener, Sends ''c'' ''begin M'', Runs 0, Runs 0, Runs 0, Runs 0, Runs 0,
     Sends ''c'' ''complete'', Runs 0, Runs 0, Runs 0, Runs 0, Runs 0, Sends ''c'' ''request'', Runs 0, Runs 0, Runs 0]"

definition login_events :: "ws_event list" where
  "login_events = [Connected ''c'' PublicListener, Issued ''c'' ''M'' mallory_entry ''challenge'',
     Accepted ''c'' ''M'' ''challenge'' ''signed'' ''mallory'' ''agent'', Served ''c'' (ApiRequest ''1'' ''POST'' ''/api/agents'' None)]"

lemma login_runs: "plays_events False login_acts = Some login_events" "plays_events True login_acts = Some login_events"
  by (simp_all add: scenario_simps login_acts_def login_events_def)

theorem accepted_as_owner_witness:
  "(\<exists>s. serial_run sample_ws login_events s) \<and> signature_valid sample_ws ''M'' ''challenge'' ''signed'' = Inr True"
proof -
  obtain s where s: "serial_run sample_ws login_events s" using scenario(2)[OF login_runs(2)] by blast
  from accepted_as_owner[of sample_ws "take 2 login_events" "''c''" "''M''" "''challenge''" "''signed''" "''mallory''" "''agent''" "drop 3 login_events" s] s
  show ?thesis by (auto simp: login_events_def)
qed

theorem accepted_on_challenge_witness:
  "(\<exists>s. ws_run sample_ws swap_events s) \<and> signature_valid sample_ws ''M'' ''challenge'' ''signed'' = Inr True"
proof -
  obtain s where s: "ws_run sample_ws swap_events s" using certificate_swapped by blast
  from accepted_on_challenge[of sample_ws "take 2 swap_events" "''c''" "''M''" "''challenge''" "''signed''" "''victim''" "''agent''" "drop 3 swap_events" s] s
  show ?thesis by (auto simp: swap_events_def)
qed

theorem served_after_authentication_witness:
  "(\<exists>s. ws_run sample_ws login_events s) \<and> (\<exists>kind. Connected ''c'' kind \<in> set (take 3 login_events))"
proof -
  obtain s where s: "ws_run sample_ws login_events s" using scenario(1)[OF login_runs(1)] by blast
  from served_after_authentication[of sample_ws "take 3 login_events" "''c''" "ApiRequest ''1'' ''POST'' ''/api/agents'' None" "[]" s] s
  show ?thesis by (auto simp: login_events_def)
qed

end
