(* ===== verification/ToolApprovals.thy ===== *)
theory ToolApprovals
  imports Tools CertSign "HOL-Library.Sublist"
begin

text \<open>
  Approval of tool calls at the gateway (\<open>rockbot-gateway/src/gateway.rs\<close>): the callback a tool call waits
  in, the map of requests that wait, and the endpoint by which an operator answers one. A call and
  an answer take the lock of the map separately, so their steps are interleaved.
\<close>

subsection \<open>Requests and answers\<close>

record tool_approval_status =
  as_request_id :: string
  as_agent_id :: string
  as_tool_name :: string
  as_params :: json

datatype tool_decision = DecisionApproved | DecisionDenied string

record tool_approval_request =
  ar_request_id :: string
  ar_approved :: bool
  ar_reason :: "string option"

definition TOOL_APPROVAL_TIMEOUT_SECS :: nat where "TOOL_APPROVAL_TIMEOUT_SECS = 300"

text \<open>A call: waiting; woken by an answer, or by the loss of the channel; woken by the timeout; returned.\<close>

datatype approval_call =
    Awaits string
  | Woken string "tool_decision option"
  | TimesOut string
  | Returned approval_result

record approvals =
  av_pending :: "string \<rightharpoonup> tool_approval_status"
  av_calls :: "nat \<rightharpoonup> approval_call"
  av_used :: "string set"

definition decision_result :: "tool_decision option option \<Rightarrow> approval_result" where
  "decision_result d = (case d of
     Some (Some DecisionApproved) \<Rightarrow> Approved
   | Some (Some (DecisionDenied reason)) \<Rightarrow> ApprovalDenied reason
   | Some None \<Rightarrow> ApprovalDenied ''Approval request receiver was dropped''
   | None \<Rightarrow> ApprovalDenied ''Approval timed out after 300 seconds'')"

definition request_approval :: "nat \<Rightarrow> string \<Rightarrow> string \<Rightarrow> string \<Rightarrow> json \<Rightarrow> approvals \<Rightarrow> approvals" where
  "request_approval n rid tool agent params s =
     s\<lparr>av_pending := (av_pending s)(rid \<mapsto> \<lparr>as_request_id = rid, as_agent_id = agent, as_tool_name = tool, as_params = params\<rparr>),
       av_calls := (av_calls s)(n \<mapsto> Awaits rid), av_used := insert rid (av_used s)\<rparr>"

text \<open>The call removes its request once more, whoever woke it, and returns.\<close>

definition finish_approval :: "nat \<Rightarrow> string \<Rightarrow> tool_decision option option \<Rightarrow> approvals \<Rightarrow> approvals" where
  "finish_approval n rid d s =
     s\<lparr>av_pending := (av_pending s)(rid := None), av_calls := (av_calls s)(n \<mapsto> Returned (decision_result d))\<rparr>"

text \<open>Sending on the channel of a request wakes the call that waits for it; if none does, the error is ignored.\<close>

definition wake :: "string \<Rightarrow> tool_decision \<Rightarrow> approval_call \<Rightarrow> approval_call" where
  "wake rid d c = (case c of Awaits r \<Rightarrow> if r = rid then Woken rid (Some d) else c | _ \<Rightarrow> c)"

definition decision_of :: "tool_approval_request \<Rightarrow> tool_decision" where
  "decision_of req = (if ar_approved req then DecisionApproved
     else DecisionDenied (case ar_reason req of Some r \<Rightarrow> r | None \<Rightarrow> ''Denied by operator''))"

definition resolve_tool_approval :: "string \<Rightarrow> tool_approval_request \<Rightarrow> approvals \<Rightarrow> string option \<times> approvals" where
  "resolve_tool_approval agent req s = (case av_pending s (ar_request_id req) of
     None \<Rightarrow> (None, s)
   | Some entry \<Rightarrow>
       if as_agent_id entry \<noteq> agent then (None, s)
       else (Some (if ar_approved req then ''approved'' else ''denied''),
         s\<lparr>av_pending := (av_pending s)(ar_request_id req := None),
           av_calls := (\<lambda>n. map_option (wake (ar_request_id req) (decision_of req)) (av_calls s n))\<rparr>))"

text \<open>The map has no order; the order of its keys is an argument.\<close>

definition list_tool_approvals :: "string list \<Rightarrow> string \<Rightarrow> approvals \<Rightarrow> tool_approval_status list" where
  "list_tool_approvals keys agent s = filter (\<lambda>e. as_agent_id e = agent) (List.map_filter (av_pending s) keys)"

subsection \<open>The endpoints\<close>

definition after_prefix :: "string \<Rightarrow> string \<Rightarrow> string option" where
  "after_prefix p s = (if prefix p s then Some (drop (length p) s) else None)"

definition before_suffix :: "string \<Rightarrow> string \<Rightarrow> string option" where
  "before_suffix p s = (if suffix p s then Some (take (length s - length p) s) else None)"

definition agent_in_path :: "string \<Rightarrow> string \<Rightarrow> string" where
  "agent_in_path ending path = (case Option.bind (after_prefix ''/api/agents/'' path) (before_suffix ending) of Some a \<Rightarrow> a | None \<Rightarrow> [])"

datatype approval_reply = InvalidAgentId | InvalidApprovalJson | AgentNotFound string | PendingNotFound | Answered string string string

definition handle_tool_approval ::
  "string set \<Rightarrow> string \<Rightarrow> tool_approval_request option \<Rightarrow> approvals \<Rightarrow> approval_reply \<times> approvals" where
  "handle_tool_approval agents path body s =
     (let agent = agent_in_path ''/approve'' path in
      if \<not> is_valid_agent_id agent then (InvalidAgentId, s)
      else (case body of
          None \<Rightarrow> (InvalidApprovalJson, s)
        | Some req \<Rightarrow>
            if agent \<notin> agents then (AgentNotFound agent, s)
            else (case resolve_tool_approval agent req s of
                (Some status, s') \<Rightarrow> (Answered status (ar_request_id req) agent, s')
              | (None, s') \<Rightarrow> (PendingNotFound, s'))))"

definition handle_list_tool_approvals :: "string list \<Rightarrow> string \<Rightarrow> approvals \<Rightarrow> tool_approval_status list option" where
  "handle_list_tool_approvals keys path s =
     (let agent = agent_in_path ''/approvals'' path in
      if \<not> is_valid_agent_id agent then None else Some (list_tool_approvals keys agent s))"

subsection \<open>Calls and answers interleaved\<close>

datatype approval_event =
    Asked nat string string string json
  | Answer string tool_approval_request approval_reply
  | Result nat approval_result

text \<open>Request ids are random and never repeat; which agents exist may change at any time.\<close>

inductive ta_step :: "approvals \<Rightarrow> approval_event list \<Rightarrow> approvals \<Rightarrow> bool" where
  ask: "av_calls s n = None \<Longrightarrow> rid \<notin> av_used s \<Longrightarrow> ta_step s [Asked n rid tool agent params] (request_approval n rid tool agent params s)"
| expire: "av_calls s n = Some (Awaits rid) \<Longrightarrow> ta_step s [] (s\<lparr>av_calls := (av_calls s)(n \<mapsto> TimesOut rid)\<rparr>)"
| finish_woken: "av_calls s n = Some (Woken rid d) \<Longrightarrow> ta_step s [Result n (decision_result (Some d))] (finish_approval n rid (Some d) s)"
| finish_expired: "av_calls s n = Some (TimesOut rid) \<Longrightarrow> ta_step s [Result n (decision_result None)] (finish_approval n rid None s)"
| answer: "handle_tool_approval agents path (Some req) s = (reply, s') \<Longrightarrow> ta_step s [Answer path req reply] s'"

definition approvals_init :: approvals where
  "approvals_init = \<lparr>av_pending = Map.empty, av_calls = Map.empty, av_used = {}\<rparr>"

inductive ta_run :: "approval_event list \<Rightarrow> approvals \<Rightarrow> bool" where
  start: "ta_run [] approvals_init"
| step: "ta_run tr s \<Longrightarrow> ta_step s es s' \<Longrightarrow> ta_run (tr @ es) s'"

subsection \<open>Lemmas\<close>

text \<open>The request of a call was approved: it was asked for, and an answer to that very request, given for the agent that
  asked, approved it.\<close>

definition approved_by_operator :: "nat \<Rightarrow> string \<Rightarrow> approval_event list \<Rightarrow> bool" where
  "approved_by_operator n rid tr \<longleftrightarrow> (\<exists>tool agent params path req. Asked n rid tool agent params \<in> set tr \<and>
     Answer path req (Answered ''approved'' rid agent) \<in> set tr \<and> ar_request_id req = rid \<and> ar_approved req \<and> agent_in_path ''/approve'' path = agent)"

lemma approved_mono: "approved_by_operator n rid tr \<Longrightarrow> set tr \<subseteq> set tr' \<Longrightarrow> approved_by_operator n rid tr'"
  unfolding approved_by_operator_def by blast

definition approvals_ok :: "approval_event list \<Rightarrow> approvals \<Rightarrow> bool" where
  "approvals_ok tr s \<longleftrightarrow>
     (\<forall>n rid tool agent params. Asked n rid tool agent params \<in> set tr \<longrightarrow> rid \<in> av_used s) \<and>
     (\<forall>n n' rid tool tool' agent agent' params params'. Asked n rid tool agent params \<in> set tr \<longrightarrow>
        Asked n' rid tool' agent' params' \<in> set tr \<longrightarrow> n' = n \<and> agent' = agent) \<and>
     (\<forall>rid e. av_pending s rid = Some e \<longrightarrow> (\<exists>n tool params. Asked n rid tool (as_agent_id e) params \<in> set tr)) \<and>
     (\<forall>n rid. av_calls s n = Some (Awaits rid) \<longrightarrow> (\<exists>tool agent params. Asked n rid tool agent params \<in> set tr)) \<and>
     (\<forall>n rid. av_calls s n = Some (Woken rid (Some DecisionApproved)) \<longrightarrow> approved_by_operator n rid tr)"

lemma wake_Awaits: "wake rid d c = Awaits r \<longleftrightarrow> c = Awaits r \<and> r \<noteq> rid"
  by (auto simp: wake_def split: approval_call.splits)

lemma wake_Woken: "wake rid d c = Woken r x \<longleftrightarrow> c = Woken r x \<or> c = Awaits r \<and> r = rid \<and> x = Some d"
  by (auto simp: wake_def split: approval_call.splits)


lemma approvals_okD:
  assumes "approvals_ok tr s"
  shows "Asked n rid tool agent params \<in> set tr \<Longrightarrow> rid \<in> av_used s"
    "Asked n rid tool agent params \<in> set tr \<Longrightarrow> Asked n' rid tool' agent' params' \<in> set tr \<Longrightarrow> n' = n \<and> agent' = agent"
    "av_pending s rid = Some e \<Longrightarrow> \<exists>n tool params. Asked n rid tool (as_agent_id e) params \<in> set tr"
    "av_calls s n = Some (Awaits rid) \<Longrightarrow> \<exists>tool agent params. Asked n rid tool agent params \<in> set tr"
    "av_calls s n = Some (Woken rid (Some DecisionApproved)) \<Longrightarrow> approved_by_operator n rid tr"
  using assms unfolding approvals_ok_def by blast+

lemma approvals_ok_intro:
  assumes "\<And>n rid tool agent params. Asked n rid tool agent params \<in> set tr \<Longrightarrow> rid \<in> av_used s"
    and "\<And>n n' rid tool tool' agent agent' params params'. Asked n rid tool agent params \<in> set tr \<Longrightarrow>
        Asked n' rid tool' agent' params' \<in> set tr \<Longrightarrow> n' = n \<and> agent' = agent"
    and "\<And>rid e. av_pending s rid = Some e \<Longrightarrow> \<exists>n tool params. Asked n rid tool (as_agent_id e) params \<in> set tr"
    and "\<And>n rid. av_calls s n = Some (Awaits rid) \<Longrightarrow> \<exists>tool agent params. Asked n rid tool agent params \<in> set tr"
    and "\<And>n rid. av_calls s n = Some (Woken rid (Some DecisionApproved)) \<Longrightarrow> approved_by_operator n rid tr"
  shows "approvals_ok tr s"
  unfolding approvals_ok_def
proof (intro conjI[OF _ conjI[OF _ conjI[OF _ conjI]]] allI impI)
qed (erule (1) assms | erule assms)+

text \<open>Steps that ask for nothing.\<close>

lemma approvals_okI:
  assumes ok: "approvals_ok tr s" and asked: "\<And>n rid tool agent params. Asked n rid tool agent params \<notin> set es" and used: "av_used s' = av_used s"
    and pending: "\<And>rid e. av_pending s' rid = Some e \<Longrightarrow> av_pending s rid = Some e"
    and awaits: "\<And>n rid. av_calls s' n = Some (Awaits rid) \<Longrightarrow> av_calls s n = Some (Awaits rid)"
    and woken: "\<And>n rid. av_calls s' n = Some (Woken rid (Some DecisionApproved)) \<Longrightarrow>
        av_calls s n = Some (Woken rid (Some DecisionApproved)) \<or> approved_by_operator n rid (tr @ es)"
  shows "approvals_ok (tr @ es) s'"
proof -
  have same: "Asked n rid tool agent params \<in> set (tr @ es) \<longleftrightarrow> Asked n rid tool agent params \<in> set tr" for n rid tool agent params
    using asked by auto
  have "rid \<in> av_used s'" if "Asked n rid tool agent params \<in> set (tr @ es)" for n rid tool agent params
    using approvals_okD(1)[OF ok, of n rid tool agent params] that used same[of n rid tool agent params] by simp
  moreover have "n' = n \<and> agent' = agent" if "Asked n rid tool agent params \<in> set (tr @ es)" "Asked n' rid tool' agent' params' \<in> set (tr @ es)"
    for n n' rid tool tool' agent agent' params params'
    by (rule approvals_okD(2)[OF ok iffD1[OF same that(1)] iffD1[OF same that(2)]])
  moreover have "\<exists>n tool params. Asked n rid tool (as_agent_id e) params \<in> set (tr @ es)" if "av_pending s' rid = Some e" for rid e
    using approvals_okD(3)[OF ok pending[OF that]] by (simp only: same)
  moreover have "\<exists>tool agent params. Asked n rid tool agent params \<in> set (tr @ es)" if "av_calls s' n = Some (Awaits rid)" for n rid
    using approvals_okD(4)[OF ok awaits[OF that]] by (simp only: same)
  moreover have "approved_by_operator n rid (tr @ es)" if w: "av_calls s' n = Some (Woken rid (Some DecisionApproved))" for n rid
    using woken[OF w] approvals_okD(5)[OF ok] approved_mono[of n rid tr "tr @ es"] by auto
  ultimately show ?thesis by (rule approvals_ok_intro)
qed

lemma resolve_cases:
  assumes "handle_tool_approval agents path (Some req) s = (reply, s')"
  obtains "s' = s" "\<And>status rid agent. reply \<noteq> Answered status rid agent"
  | entry where "av_pending s (ar_request_id req) = Some entry" "agent_in_path ''/approve'' path = as_agent_id entry"
    "reply = Answered (if ar_approved req then ''approved'' else ''denied'') (ar_request_id req) (as_agent_id entry)"
    "s' = s\<lparr>av_pending := (av_pending s)(ar_request_id req := None),
       av_calls := (\<lambda>n. map_option (wake (ar_request_id req) (decision_of req)) (av_calls s n))\<rparr>"
proof (cases "is_valid_agent_id (agent_in_path ''/approve'' path) \<and> agent_in_path ''/approve'' path \<in> agents")
  case False
  then have "s' = s" "reply = InvalidAgentId \<or> reply = AgentNotFound (agent_in_path ''/approve'' path)"
    using assms by (auto simp: handle_tool_approval_def Let_def split: if_splits)
  then show thesis using that(1) by auto
next
  case True
  show thesis
  proof (cases "av_pending s (ar_request_id req)")
    case None
    with True assms that(1) show thesis by (simp add: handle_tool_approval_def resolve_tool_approval_def)
  next
    case (Some entry)
    show thesis
    proof (cases "as_agent_id entry = agent_in_path ''/approve'' path")
      case same: True
      from True Some same assms show thesis by (intro that(2)[OF Some]) (simp_all add: handle_tool_approval_def resolve_tool_approval_def)
    next
      case False
      with True Some assms that(1) show thesis by (simp add: handle_tool_approval_def resolve_tool_approval_def)
    qed
  qed
qed

lemma answer_ok:
  assumes ok: "approvals_ok tr s" and step: "handle_tool_approval agents path (Some req) s = (reply, s')"
  shows "approvals_ok (tr @ [Answer path req reply]) s'"
  using step
proof (cases rule: resolve_cases)
  case 1
  then show ?thesis by (intro approvals_okI[OF ok]) auto
next
  case (2 entry)
  show ?thesis
  proof (rule approvals_okI[OF ok])
    show "av_pending s' rid = Some e \<Longrightarrow> av_pending s rid = Some e" for rid e using 2 by (auto split: if_splits)
    show "av_calls s' n = Some (Awaits rid) \<Longrightarrow> av_calls s n = Some (Awaits rid)" for n rid using 2 by (auto simp: wake_Awaits)
    fix n rid assume "av_calls s' n = Some (Woken rid (Some DecisionApproved))"
    with 2 consider "av_calls s n = Some (Woken rid (Some DecisionApproved))"
      | "av_calls s n = Some (Awaits rid)" "rid = ar_request_id req" "decision_of req = DecisionApproved"
      by (auto simp: wake_Woken)
    then show "av_calls s n = Some (Woken rid (Some DecisionApproved)) \<or> approved_by_operator n rid (tr @ [Answer path req reply])"
    proof cases
      case b: 2
      obtain tool agent params where asked: "Asked n rid tool agent params \<in> set tr" using approvals_okD(4)[OF ok b(1)] by blast
      obtain n' tool' params' where "Asked n' rid tool' (as_agent_id entry) params' \<in> set tr"
        using approvals_okD(3)[OF ok 2(1)] b(2) by blast
      with approvals_okD(2)[OF ok asked] have agent: "agent = as_agent_id entry" by simp
      have "ar_approved req" using b(3) by (auto simp: decision_of_def split: if_splits)
      then have "Answer path req (Answered ''approved'' rid agent) \<in> set (tr @ [Answer path req reply])"
        and "ar_request_id req = rid" "agent_in_path ''/approve'' path = agent"
        using 2 b(2) agent by simp_all
      with asked \<open>ar_approved req\<close> show ?thesis unfolding approved_by_operator_def by auto
    qed simp
  qed (use 2 in simp_all)
qed

lemma ask_ok:
  assumes ok: "approvals_ok tr s" and fresh: "rid \<notin> av_used s"
  shows "approvals_ok (tr @ [Asked n rid tool agent params]) (request_approval n rid tool agent params s)"
proof -
  let ?tr = "tr @ [Asked n rid tool agent params]" and ?s = "request_approval n rid tool agent params s"
  have old: "Asked m r t a p \<in> set tr \<Longrightarrow> r \<noteq> rid" for m r t a p using approvals_okD(1)[OF ok] fresh by blast
  have "r \<in> av_used ?s" if "Asked m r t a p \<in> set ?tr" for m r t a p
    using that approvals_okD(1)[OF ok] by (auto simp: request_approval_def)
  moreover have "m' = m \<and> a' = a" if "Asked m r t a p \<in> set ?tr" "Asked m' r t' a' p' \<in> set ?tr" for m m' r t t' a a' p p'
    using that old approvals_okD(2)[OF ok, of m r t a p m' t' a' p'] by (cases "r = rid") (auto dest: old)
  moreover have "\<exists>m t p. Asked m r t (as_agent_id e) p \<in> set ?tr" if "av_pending ?s r = Some e" for r e
  proof -
    from that have "r = rid \<and> as_agent_id e = agent \<or> av_pending s r = Some e" by (auto simp: request_approval_def split: if_splits)
    with approvals_okD(3)[OF ok, of r e] show ?thesis by fastforce
  qed
  moreover have "\<exists>t a p. Asked m r t a p \<in> set ?tr" if "av_calls ?s m = Some (Awaits r)" for m r
  proof -
    from that have "m = n \<and> r = rid \<or> av_calls s m = Some (Awaits r)" by (auto simp: request_approval_def split: if_splits)
    with approvals_okD(4)[OF ok, of m r] show ?thesis by fastforce
  qed
  moreover have "approved_by_operator m r ?tr" if "av_calls ?s m = Some (Woken r (Some DecisionApproved))" for m r
    using that approvals_okD(5)[OF ok] approved_mono[of m r tr ?tr] by (auto simp: request_approval_def split: if_splits)
  ultimately show ?thesis by (rule approvals_ok_intro)
qed


lemma finish_ok:
  assumes ok: "approvals_ok tr s"
  shows "approvals_ok (tr @ [Result n r]) (finish_approval n rid d s)"
  by (rule approvals_okI[OF ok]) (auto simp: finish_approval_def split: if_splits)

text \<open>What a result of a call needs of what came before it.\<close>

definition result_ok :: "approval_event list \<Rightarrow> approval_event \<Rightarrow> bool" where
  "result_ok tr e = (case e of Result n Approved \<Rightarrow> (\<exists>rid. approved_by_operator n rid tr) | _ \<Rightarrow> True)"

lemma ta_step_ok:
  assumes "ta_step s es s'" and ok: "approvals_ok tr s"
  shows "approvals_ok (tr @ es) s' \<and> (\<exists>e. es \<in> {[], [e]} \<and> result_ok tr e)"
  using assms(1)
proof cases
  case (ask n rid tool agent params)
  with ask_ok[OF ok] show ?thesis by (auto simp: result_ok_def)
next
  case (expire n rid)
  then have "approvals_ok (tr @ []) s'" by (intro approvals_okI[OF ok]) (auto split: if_splits)
  moreover have "result_ok tr (Result n (ApprovalDenied []))" by (simp add: result_ok_def)
  ultimately show ?thesis using expire by blast
next
  case (finish_woken n rid d)
  have "result_ok tr (Result n (decision_result (Some d)))"
    using approvals_okD(5)[OF ok, of n rid] finish_woken(3)
    by (auto simp: result_ok_def decision_result_def split: option.splits tool_decision.splits)
  with finish_woken finish_ok[OF ok] show ?thesis by auto
next
  case (finish_expired n rid)
  have "result_ok tr (Result n (decision_result None))" by (simp add: result_ok_def decision_result_def)
  with finish_expired finish_ok[OF ok] show ?thesis by auto
next
  case (answer agents path req reply)
  have "result_ok tr (Answer path req reply)" by (simp add: result_ok_def)
  with answer answer_ok[OF ok] show ?thesis by auto
qed

lemma ta_run_ok:
  "ta_run tr s \<Longrightarrow> approvals_ok tr s \<and> (\<forall>before e after. tr = before @ e # after \<longrightarrow> result_ok before e)"
proof (induction rule: ta_run.induct)
  case (step tr s es s')
  from ta_step_ok[OF step(2)] step.IH obtain e where ok: "approvals_ok (tr @ es) s'" and e: "es \<in> {[], [e]}" "result_ok tr e" by blast
  have "result_ok before x" if "tr @ es = before @ x # after" for before x after
  proof (cases es)
    case (Cons y ys)
    with e that have "tr @ [e] = before @ x # after" by auto
    then show ?thesis using step.IH e(2) by (cases after rule: rev_cases) auto
  qed (use that step.IH in simp)
  with ok show ?case by blast
qed (simp add: approvals_ok_def approvals_init_def)

subsection \<open>Properties\<close>

text \<open>C13. However calls, answers and timeouts are interleaved, a call is let through only after an operator has approved
  that very request under the agent that made the call; a timeout, a denial or a lost channel never lets a call through.\<close>

theorem approved_only_by_operator:
  assumes "ta_run (before @ Result n Approved # after) s"
  shows "\<exists>rid tool agent params path req. Asked n rid tool agent params \<in> set before \<and>
    Answer path req (Answered ''approved'' rid agent) \<in> set before \<and> ar_request_id req = rid \<and> ar_approved req \<and>
    agent_in_path ''/approve'' path = agent"
proof -
  from conjunct2[OF ta_run_ok[OF assms]] have "result_ok before (Result n Approved)" by blast
  then show ?thesis unfolding result_ok_def approved_by_operator_def by auto
qed

text \<open>An answer that comes after the timeout, and before the call has removed its request, is reported as given.\<close>

definition late_request :: tool_approval_request where
  "late_request = \<lparr>ar_request_id = ''r'', ar_approved = True, ar_reason = None\<rparr>"

lemma sample_path: "agent_in_path ''/approve'' ''/api/agents/a1/approve'' = ''a1''" "is_valid_agent_id ''a1''"
  by code_simp+

lemma answered_too_late:
  "\<exists>s. ta_run [Asked 0 ''r'' ''exec'' ''a1'' JNull, Answer ''/api/agents/a1/approve'' late_request (Answered ''approved'' ''r'' ''a1''),
     Result 0 (ApprovalDenied ''Approval timed out after 300 seconds'')] s"
proof -
  let ?s1 = "request_approval 0 ''r'' ''exec'' ''a1'' JNull approvals_init"
  let ?s2 = "?s1\<lparr>av_calls := (av_calls ?s1)(0 \<mapsto> TimesOut ''r'')\<rparr>"
  let ?s3 = "snd (handle_tool_approval {''a1''} ''/api/agents/a1/approve'' (Some late_request) ?s2)"
  have "ta_run ([] @ [Asked 0 ''r'' ''exec'' ''a1'' JNull]) ?s1"
    by (rule ta_run.step[OF ta_run.start ta_step.ask]) (simp_all add: approvals_init_def)
  then have "ta_run (([] @ [Asked 0 ''r'' ''exec'' ''a1'' JNull]) @ []) ?s2"
    by (rule ta_run.step[OF _ ta_step.expire]) (simp add: request_approval_def)
  moreover have reply: "handle_tool_approval {''a1''} ''/api/agents/a1/approve'' (Some late_request) ?s2 = (Answered ''approved'' ''r'' ''a1'', ?s3)"
    by (simp add: handle_tool_approval_def sample_path resolve_tool_approval_def late_request_def request_approval_def)
  ultimately have "ta_run ((([] @ [Asked 0 ''r'' ''exec'' ''a1'' JNull]) @ []) @
      [Answer ''/api/agents/a1/approve'' late_request (Answered ''approved'' ''r'' ''a1'')]) ?s3"
    by (intro ta_run.step[OF _ ta_step.answer])
  from ta_run.step[OF this ta_step.finish_expired, of 0 "''r''"] show ?thesis
    by (auto simp: handle_tool_approval_def sample_path resolve_tool_approval_def late_request_def request_approval_def
      approvals_init_def wake_def decision_result_def)
qed


theorem approved_only_by_operator_witness:
  "\<exists>s. ta_run ([Asked 0 ''r'' ''exec'' ''a1'' JNull, Answer ''/api/agents/a1/approve'' late_request (Answered ''approved'' ''r'' ''a1'')] @
      Result 0 Approved # []) s \<and>
    (\<exists>rid tool agent params. Asked 0 rid tool agent params \<in> set [Asked 0 ''r'' ''exec'' ''a1'' JNull])"
proof -
  let ?s1 = "request_approval 0 ''r'' ''exec'' ''a1'' JNull approvals_init"
  let ?s2 = "snd (handle_tool_approval {''a1''} ''/api/agents/a1/approve'' (Some late_request) ?s1)"
  have one: "ta_run ([] @ [Asked 0 ''r'' ''exec'' ''a1'' JNull]) ?s1"
    by (rule ta_run.step[OF ta_run.start ta_step.ask]) (simp_all add: approvals_init_def)
  have reply: "handle_tool_approval {''a1''} ''/api/agents/a1/approve'' (Some late_request) ?s1 = (Answered ''approved'' ''r'' ''a1'', ?s2)"
    by (simp add: handle_tool_approval_def sample_path resolve_tool_approval_def late_request_def request_approval_def)
  have two: "ta_run (([] @ [Asked 0 ''r'' ''exec'' ''a1'' JNull]) @
      [Answer ''/api/agents/a1/approve'' late_request (Answered ''approved'' ''r'' ''a1'')]) ?s2"
    by (rule ta_run.step[OF one ta_step.answer[OF reply]])
  have woken: "av_calls ?s2 0 = Some (Woken ''r'' (Some DecisionApproved))"
    by (simp add: handle_tool_approval_def sample_path resolve_tool_approval_def late_request_def request_approval_def wake_def decision_of_def)
  from ta_run.step[OF two ta_step.finish_woken[OF woken]] obtain s where
    run: "ta_run ([Asked 0 ''r'' ''exec'' ''a1'' JNull, Answer ''/api/agents/a1/approve'' late_request (Answered ''approved'' ''r'' ''a1'')] @
      Result 0 Approved # []) s" by (auto simp: decision_result_def)
  from approved_only_by_operator[OF run] run show ?thesis by auto
qed

end
