(* ===== verification/A2a.thy ===== *)
theory A2a
  imports Json
begin

text \<open>
  The agent-to-agent protocol (\<open>rockbot-gateway/src/a2a.rs\<close> and its endpoint in \<open>gateway.rs\<close>): the
  store of tasks and the dispatch of JSON-RPC requests. A request takes the lock of the store several
  times, and the agent works between two of them, so the steps of requests are interleaved.
\<close>

subsection \<open>Tasks\<close>

datatype a2a_status = Submitted | Working | Completed | Failed | Canceled

datatype part = TextPart string | FilePart string "string option" "string option" | DataPart json

record a2a_message =
  am_role :: string
  am_parts :: "part list"

record artifact =
  af_name :: string
  af_description :: "string option"
  af_parts :: "part list"

record a2a_task =
  at_id :: string
  at_agent_id :: string
  at_status :: a2a_status
  at_messages :: "a2a_message list"
  at_artifacts :: "artifact list"
  at_metadata :: "(string \<times> json) list option"

type_synonym task_store = "string \<rightharpoonup> a2a_task"

definition create_task :: "string \<Rightarrow> string \<Rightarrow> a2a_message \<Rightarrow> task_store \<Rightarrow> task_store" where
  "create_task tid agent msg st = st(tid \<mapsto> \<lparr>at_id = tid, at_agent_id = agent, at_status = Submitted, at_messages = [msg],
     at_artifacts = [], at_metadata = None\<rparr>)"

definition on_task :: "string \<Rightarrow> (a2a_task \<Rightarrow> a2a_task) \<Rightarrow> task_store \<Rightarrow> bool \<times> task_store" where
  "on_task tid f st = (case st tid of None \<Rightarrow> (False, st) | Some t \<Rightarrow> (True, st(tid \<mapsto> f t)))"

definition update_status :: "string \<Rightarrow> a2a_status \<Rightarrow> task_store \<Rightarrow> bool \<times> task_store" where
  "update_status tid status = on_task tid (\<lambda>t. t\<lparr>at_status := status\<rparr>)"

definition add_task_message :: "string \<Rightarrow> a2a_message \<Rightarrow> task_store \<Rightarrow> bool \<times> task_store" where
  "add_task_message tid msg = on_task tid (\<lambda>t. t\<lparr>at_messages := at_messages t @ [msg]\<rparr>)"

definition add_artifact :: "string \<Rightarrow> artifact \<Rightarrow> task_store \<Rightarrow> bool \<times> task_store" where
  "add_artifact tid a = on_task tid (\<lambda>t. t\<lparr>at_artifacts := at_artifacts t @ [a]\<rparr>)"

subsection \<open>JSON\<close>

text \<open>The members of an object built by \<open>to_value\<close> are in the order of their names.\<close>

definition opt_member :: "string \<Rightarrow> json option \<Rightarrow> (string \<times> json) list" where
  "opt_member k v = (case v of Some x \<Rightarrow> [(k, x)] | None \<Rightarrow> [])"

definition status_json :: "a2a_status \<Rightarrow> json" where
  "status_json s = JStr (case s of Submitted \<Rightarrow> ''submitted'' | Working \<Rightarrow> ''working'' | Completed \<Rightarrow> ''completed''
     | Failed \<Rightarrow> ''failed'' | Canceled \<Rightarrow> ''canceled'')"

definition part_json :: "part \<Rightarrow> json" where
  "part_json p = (case p of
     TextPart s \<Rightarrow> JObj [(''text'', JStr s), (''type'', JStr ''text'')]
   | FilePart name mime content \<Rightarrow> JObj (opt_member ''data'' (map_option JStr content) @ opt_member ''mime_type'' (map_option JStr mime) @
       [(''name'', JStr name), (''type'', JStr ''file'')])
   | DataPart v \<Rightarrow> JObj [(''data'', v), (''type'', JStr ''data'')])"

definition message_json :: "a2a_message \<Rightarrow> json" where
  "message_json m = JObj [(''parts'', JArr (map part_json (am_parts m))), (''role'', JStr (am_role m))]"

definition artifact_json :: "artifact \<Rightarrow> json" where
  "artifact_json a = JObj (opt_member ''description'' (map_option JStr (af_description a)) @
     [(''name'', JStr (af_name a)), (''parts'', JArr (map part_json (af_parts a)))])"

definition task_json :: "a2a_task \<Rightarrow> json" where
  "task_json t = JObj ([(''agentId'', JStr (at_agent_id t))] @
     (if at_artifacts t = [] then [] else [(''artifacts'', JArr (map artifact_json (at_artifacts t)))]) @
     [(''id'', JStr (at_id t)), (''messages'', JArr (map message_json (at_messages t)))] @
     opt_member ''metadata'' (map_option JObj (at_metadata t)) @ [(''status'', status_json (at_status t))])"

subsection \<open>Requests\<close>

record rpc_request =
  rq_jsonrpc :: string
  rq_id :: "json option"
  rq_method :: string
  rq_params :: json

record rpc_error =
  re_code :: int
  re_message :: string

record rpc_response =
  rp_id :: "json option"
  rp_result :: "json option"
  rp_error :: "rpc_error option"

definition rpc_success :: "json option \<Rightarrow> json \<Rightarrow> rpc_response" where
  "rpc_success i v = \<lparr>rp_id = i, rp_result = Some v, rp_error = None\<rparr>"

definition rpc_failure :: "json option \<Rightarrow> int \<Rightarrow> string \<Rightarrow> rpc_response" where
  "rpc_failure i code msg = \<lparr>rp_id = i, rp_result = None, rp_error = Some \<lparr>re_code = code, re_message = msg\<rparr>\<rparr>"

definition METHOD_NOT_FOUND :: int where "METHOD_NOT_FOUND = -32601"
definition INVALID_PARAMS :: int where "INVALID_PARAMS = -32602"
definition TASK_NOT_FOUND :: int where "TASK_NOT_FOUND = -32001"

text \<open>A parameter under its camel-case name, or else under its other name; only the value found is looked at.\<close>

definition either_param :: "string \<Rightarrow> string \<Rightarrow> json \<Rightarrow> string option" where
  "either_param k k' v = Option.bind (case json_get k v of Some x \<Rightarrow> Some x | None \<Rightarrow> json_get k' v) as_str"

definition user_message :: "string \<Rightarrow> a2a_message" where "user_message t = \<lparr>am_role = ''user'', am_parts = [TextPart t]\<rparr>"
definition agent_message :: "string \<Rightarrow> a2a_message" where "agent_message t = \<lparr>am_role = ''agent'', am_parts = [TextPart t]\<rparr>"

definition sent_agent :: "json \<Rightarrow> string" where
  "sent_agent params = (case either_param ''agentId'' ''agent_id'' params of Some a \<Rightarrow> a | None \<Rightarrow> ''default'')"

definition sent_text :: "json \<Rightarrow> string" where
  "sent_text params = (case str_param ''message'' params of Some t \<Rightarrow> t | None \<Rightarrow> [])"

definition not_found :: "json option \<Rightarrow> string \<Rightarrow> rpc_response" where
  "not_found i tid = rpc_failure i TASK_NOT_FOUND (''Task '' @ [CHR 0x27] @ tid @ [CHR 0x27] @ '' not found'')"

definition handle_tasks_get :: "json option \<Rightarrow> json \<Rightarrow> task_store \<Rightarrow> rpc_response" where
  "handle_tasks_get i params st = (case either_param ''taskId'' ''task_id'' params of
     None \<Rightarrow> rpc_failure i INVALID_PARAMS (''Missing '' @ [CHR 0x27] @ ''taskId'' @ [CHR 0x27] @ '' parameter'')
   | Some tid \<Rightarrow> (case st tid of Some t \<Rightarrow> rpc_success i (task_json t) | None \<Rightarrow> not_found i tid))"

definition handle_tasks_cancel :: "json option \<Rightarrow> json \<Rightarrow> task_store \<Rightarrow> rpc_response \<times> task_store" where
  "handle_tasks_cancel i params st = (case either_param ''taskId'' ''task_id'' params of
     None \<Rightarrow> (rpc_failure i INVALID_PARAMS (''Missing '' @ [CHR 0x27] @ ''taskId'' @ [CHR 0x27] @ '' parameter''), st)
   | Some tid \<Rightarrow> (case update_status tid Canceled st of
       (True, st') \<Rightarrow> (rpc_success i (JObj [(''status'', JStr ''canceled''), (''taskId'', JStr tid)]), st')
     | (False, st') \<Rightarrow> (not_found i tid, st')))"

text \<open>A request in work: at its start; after the task was created; while the agent works; with the agent's answer, before
  and after it is stored; before the task is read back; and answered.\<close>

datatype rpc_call =
    Start rpc_request
  | Created "json option" string string string
  | Invoking "json option" string string string
  | Replied "json option" string "string + string"
  | Stored "json option" string a2a_status
  | Reading "json option" string
  | Answered rpc_response

definition MAX_DEPTH_START :: nat where "MAX_DEPTH_START = 0"

text \<open>The agent: with its name, the text, a session and the depth of delegation it answers or fails.\<close>

type_synonym 'w invoker = "string \<Rightarrow> string \<Rightarrow> string \<Rightarrow> nat \<Rightarrow> 'w \<Rightarrow> (string + string) \<times> 'w"

fun rpc_step :: "'w invoker option \<Rightarrow> string \<Rightarrow> rpc_call \<Rightarrow> task_store \<Rightarrow> 'w \<Rightarrow> rpc_call \<times> task_store \<times> 'w" where
  "rpc_step agents fresh (Start rq) st w =
     (if rq_method rq = ''tasks/send'' then
        (Created (rq_id rq) fresh (sent_agent (rq_params rq)) (sent_text (rq_params rq)),
         create_task fresh (sent_agent (rq_params rq)) (user_message (sent_text (rq_params rq))) st, w)
      else if rq_method rq = ''tasks/get'' then (Answered (handle_tasks_get (rq_id rq) (rq_params rq) st), st, w)
      else if rq_method rq = ''tasks/cancel'' then
        (case handle_tasks_cancel (rq_id rq) (rq_params rq) st of (r, st') \<Rightarrow> (Answered r, st', w))
      else (Answered (rpc_failure (rq_id rq) METHOD_NOT_FOUND (''Method '' @ [CHR 0x27] @ rq_method rq @ [CHR 0x27] @ '' not found'')), st, w))"
| "rpc_step agents fresh (Created i tid agent text) st w =
     (case agents of
        Some _ \<Rightarrow> (Invoking i tid agent text, snd (update_status tid Working st), w)
      | None \<Rightarrow> (Answered (rpc_success i (JObj [(''status'', JStr ''working''), (''taskId'', JStr tid)])), snd (update_status tid Working st), w))"
| "rpc_step agents fresh (Invoking i tid agent text) st w =
     (case agents of
        Some invoke \<Rightarrow> (case invoke agent text (''a2a:'' @ tid) MAX_DEPTH_START w of (r, w') \<Rightarrow> (Replied i tid r, st, w'))
      | None \<Rightarrow> (Invoking i tid agent text, st, w))"
| "rpc_step agents fresh (Replied i tid (Inr reply)) st w =
     (Stored i tid Completed, snd (add_task_message tid (agent_message reply) st), w)"
| "rpc_step agents fresh (Replied i tid (Inl e)) st w =
     (Stored i tid Failed, snd (add_task_message tid (agent_message (''Error: '' @ e)) st), w)"
| "rpc_step agents fresh (Stored i tid status) st w = (Reading i tid, snd (update_status tid status st), w)"
| "rpc_step agents fresh (Reading i tid) st w =
     (Answered (rpc_success i (case st tid of Some t \<Rightarrow> task_json t | None \<Rightarrow> JNull)), st, w)"
| "rpc_step agents fresh (Answered r) st w = (Answered r, st, w)"

subsection \<open>The endpoint\<close>

text \<open>The token of a request: the bearer of its authorization, or else a header of its own. The text of a header that is
  not printable is none.\<close>

definition bearer_token :: "string \<Rightarrow> string option" where
  "bearer_token v = (if take 7 v = ''Bearer '' then Some (drop 7 v) else None)"

definition is_a2a_authorized :: "string option \<Rightarrow> (string \<Rightarrow> string option) \<Rightarrow> bool" where
  "is_a2a_authorized token headers = (case token of
     None \<Rightarrow> False
   | Some expected \<Rightarrow> (case Option.bind (headers ''authorization'') bearer_token of
       Some provided \<Rightarrow> provided = expected
     | None \<Rightarrow> (case headers ''x-rockbot-a2a-token'' of Some provided \<Rightarrow> provided = expected | None \<Rightarrow> False)))"

datatype a2a_admission = Unauthorized | Unparsed rpc_response | Admitted rpc_call

definition handle_a2a_request :: "string option \<Rightarrow> (string \<Rightarrow> string option) \<Rightarrow> rpc_request option \<Rightarrow> a2a_admission" where
  "handle_a2a_request token headers body =
     (if \<not> is_a2a_authorized token headers then Unauthorized
      else (case body of None \<Rightarrow> Unparsed (rpc_failure None (-32700) ''Parse error: invalid JSON'') | Some rq \<Rightarrow> Admitted (Start rq)))"

text \<open>All requests and the store. Task ids are random and never repeat.\<close>

record 'w a2a =
  aa_tasks :: task_store
  aa_calls :: "nat \<rightharpoonup> rpc_call"
  aa_used :: "string set"
  aa_world :: 'w

inductive a2a_step :: "'w invoker option \<Rightarrow> 'w a2a \<Rightarrow> 'w a2a \<Rightarrow> bool" for agents :: "'w invoker option" where
  arrive: "aa_calls s n = None \<Longrightarrow> handle_a2a_request token headers (Some rq) = Admitted call \<Longrightarrow>
      a2a_step agents s (s\<lparr>aa_calls := (aa_calls s)(n \<mapsto> call)\<rparr>)"
| run: "aa_calls s n = Some call \<Longrightarrow> fresh \<notin> aa_used s \<Longrightarrow> rpc_step agents fresh call (aa_tasks s) (aa_world s) = (call', st, w) \<Longrightarrow>
      a2a_step agents s (s\<lparr>aa_calls := (aa_calls s)(n \<mapsto> call'), aa_tasks := st, aa_used := insert fresh (aa_used s), aa_world := w\<rparr>)"

definition a2a_init :: "'w \<Rightarrow> 'w a2a" where
  "a2a_init w = \<lparr>aa_tasks = Map.empty, aa_calls = Map.empty, aa_used = {}, aa_world = w\<rparr>"

inductive a2a_reachable :: "'w invoker option \<Rightarrow> 'w a2a \<Rightarrow> bool" for agents :: "'w invoker option" where
  start: "a2a_reachable agents (a2a_init w)"
| step: "a2a_reachable agents s \<Longrightarrow> a2a_step agents s s' \<Longrightarrow> a2a_reachable agents s'"


subsection \<open>Lemmas\<close>

definition open_task :: "a2a_task \<Rightarrow> bool" where
  "open_task t \<longleftrightarrow> (\<exists>text. at_messages t = [user_message text]) \<and> at_status t \<notin> {Completed, Failed}"

definition replied_task :: "a2a_task \<Rightarrow> bool" where
  "replied_task t \<longleftrightarrow> (\<exists>text reply. at_messages t = [user_message text, agent_message reply])"

text \<open>The task a call is working on, and what holds of it.\<close>

fun owned :: "rpc_call \<Rightarrow> (string \<times> (a2a_task \<Rightarrow> bool)) option" where
  "owned (Created i tid agent text) = Some (tid, open_task)"
| "owned (Invoking i tid agent text) = Some (tid, open_task)"
| "owned (Replied i tid r) = Some (tid, open_task)"
| "owned (Stored i tid status) = Some (tid, replied_task)"
| "owned _ = None"

definition task_ok :: "string \<Rightarrow> a2a_task \<Rightarrow> bool" where
  "task_ok tid t \<longleftrightarrow> at_id t = tid \<and> (open_task t \<or> replied_task t)"

definition a2a_ok :: "'w a2a \<Rightarrow> bool" where
  "a2a_ok s \<longleftrightarrow> (\<forall>tid t. aa_tasks s tid = Some t \<longrightarrow> tid \<in> aa_used s \<and> task_ok tid t) \<and>
     (\<forall>n c tid P. aa_calls s n = Some c \<longrightarrow> owned c = Some (tid, P) \<longrightarrow> tid \<in> aa_used s \<and> (\<forall>t. aa_tasks s tid = Some t \<longrightarrow> P t)) \<and>
     (\<forall>n m c d tid P Q. aa_calls s n = Some c \<longrightarrow> aa_calls s m = Some d \<longrightarrow> owned c = Some (tid, P) \<longrightarrow> owned d = Some (tid, Q) \<longrightarrow> m = n)"

lemma on_task_result: "snd (on_task tid f st) = (case st tid of None \<Rightarrow> st | Some t \<Rightarrow> st(tid \<mapsto> f t))"
  by (simp add: on_task_def split: option.splits)


lemma owned_canceled: "owned c = Some (tid, P) \<Longrightarrow> P t \<Longrightarrow> P (t\<lparr>at_status := Canceled\<rparr>)"
  by (cases c) (auto simp: open_task_def replied_task_def)

lemma task_ok_canceled: "task_ok tid t \<Longrightarrow> task_ok tid (t\<lparr>at_status := Canceled\<rparr>)"
  by (auto simp: task_ok_def open_task_def replied_task_def)

text \<open>A step leaves the tasks as they are, creates one, cancels one, or changes the task of its own call.\<close>

lemma rpc_step_cases:
  assumes "rpc_step agents fresh call st w = (call', st', w')"
  obtains (same) "st' = st" "owned call' = None \<or> owned call' = owned call"
  | (created) agent body where "owned call' = Some (fresh, open_task)" "st' = create_task fresh agent (user_message body) st"
  | (canceled) tid t where "owned call' = None" "st tid = Some t" "st' = st(tid \<mapsto> t\<lparr>at_status := Canceled\<rparr>)"
  | (own) tid P f where "owned call = Some (tid, P)" "st' = snd (on_task tid f st)" "owned call' = None \<or> (\<exists>Q. owned call' = Some (tid, Q))"
      "\<And>t. at_id t = tid \<Longrightarrow> P t \<Longrightarrow> task_ok tid (f t) \<and> (\<forall>Q. owned call' = Some (tid, Q) \<longrightarrow> Q (f t))"
proof (cases call)
  case (Start rq)
  show thesis
  proof (cases "rq_method rq = ''tasks/send''")
    case True
    with assms Start show thesis by (intro created) auto
  next
    case False
    show thesis
    proof (cases "rq_method rq = ''tasks/cancel''")
      case True
      with assms Start obtain r where r: "handle_tasks_cancel (rq_id rq) (rq_params rq) st = (r, st')" "call' = Answered r"
        by (auto split: prod.splits)
      show thesis
      proof (cases "Option.bind (either_param ''taskId'' ''task_id'' (rq_params rq)) st")
        case None
        with r show thesis
          by (intro same) (auto simp: handle_tasks_cancel_def update_status_def on_task_def split: option.splits)
      next
        case (Some t)
        then obtain tid where "either_param ''taskId'' ''task_id'' (rq_params rq) = Some tid" "st tid = Some t" by (auto simp: bind_eq_Some_conv)
        with r show thesis by (intro canceled[of tid t]) (simp_all add: handle_tasks_cancel_def update_status_def on_task_def)
      qed
    next
      case no_cancel: False
      with False assms Start show thesis by (intro same) (auto split: if_splits)
    qed
  qed
next
  case (Created i tid agent body)
  show thesis
    by (rule own[of tid open_task "\<lambda>t. t\<lparr>at_status := Working\<rparr>"])
      (use assms Created in \<open>auto simp: update_status_def open_task_def task_ok_def split: option.splits\<close>)
next
  case (Replied i tid r)
  obtain msg status where "call' = Stored i tid status" "st' = snd (add_task_message tid (agent_message msg) st)"
    using assms Replied by (cases r) auto
  then show thesis
    by (intro own[of tid open_task "\<lambda>t. t\<lparr>at_messages := at_messages t @ [agent_message msg]\<rparr>"])
      (use Replied in \<open>auto simp: add_task_message_def open_task_def replied_task_def task_ok_def\<close>)
next
  case (Stored i tid status)
  show thesis
    by (rule own[of tid replied_task "\<lambda>t. t\<lparr>at_status := status\<rparr>"])
      (use assms Stored in \<open>auto simp: update_status_def replied_task_def task_ok_def\<close>)
next
  case (Invoking i tid agent body)
  show thesis by (rule same) (use assms Invoking in \<open>auto split: option.splits prod.splits\<close>)
next
  case (Reading i tid)
  show thesis by (rule same) (use assms Reading in auto)
next
  case (Answered r)
  show thesis by (rule same) (use assms Answered in auto)
qed

lemma a2a_okD:
  assumes "a2a_ok s"
  shows "aa_tasks s tid = Some t \<Longrightarrow> tid \<in> aa_used s \<and> task_ok tid t"
    "aa_calls s n = Some c \<Longrightarrow> owned c = Some (tid, P) \<Longrightarrow> tid \<in> aa_used s"
    "aa_calls s n = Some c \<Longrightarrow> owned c = Some (tid, P) \<Longrightarrow> aa_tasks s tid = Some t \<Longrightarrow> P t"
    "aa_calls s n = Some c \<Longrightarrow> aa_calls s m = Some d \<Longrightarrow> owned c = Some (tid, P) \<Longrightarrow> owned d = Some (tid, Q) \<Longrightarrow> m = n"
  using assms unfolding a2a_ok_def by blast+

lemma a2a_okI:
  assumes "\<And>tid t. aa_tasks s tid = Some t \<Longrightarrow> tid \<in> aa_used s \<and> task_ok tid t"
    "\<And>n c tid P. aa_calls s n = Some c \<Longrightarrow> owned c = Some (tid, P) \<Longrightarrow> tid \<in> aa_used s \<and> (\<forall>t. aa_tasks s tid = Some t \<longrightarrow> P t)"
    "\<And>n m c d tid P Q. aa_calls s n = Some c \<Longrightarrow> aa_calls s m = Some d \<Longrightarrow> owned c = Some (tid, P) \<Longrightarrow> owned d = Some (tid, Q) \<Longrightarrow> m = n"
  shows "a2a_ok s"
  unfolding a2a_ok_def using assms by blast


text \<open>A step of a call keeps what is right, when it keeps the tasks right and owns only what it owned or the fresh one.\<close>

lemma run_a2a_ok:
  assumes ok: "a2a_ok s" and call: "aa_calls s n = Some c" and fresh: "fresh \<notin> aa_used s"
    and tasks: "\<And>tid t. st tid = Some t \<Longrightarrow> tid \<in> insert fresh (aa_used s) \<and> task_ok tid t"
    and own: "\<And>tid P. owned c' = Some (tid, P) \<Longrightarrow> ((\<exists>Q. owned c = Some (tid, Q)) \<or> tid = fresh) \<and> (\<forall>t. st tid = Some t \<longrightarrow> P t)"
    and others: "\<And>m d tid P t. m \<noteq> n \<Longrightarrow> aa_calls s m = Some d \<Longrightarrow> owned d = Some (tid, P) \<Longrightarrow> st tid = Some t \<Longrightarrow> P t"
  shows "a2a_ok (s\<lparr>aa_calls := (aa_calls s)(n \<mapsto> c'), aa_tasks := st, aa_used := insert fresh (aa_used s), aa_world := w\<rparr>)" (is "a2a_ok ?s")
proof (rule a2a_okI)
  show "tid \<in> aa_used ?s \<and> task_ok tid t" if "aa_tasks ?s tid = Some t" for tid t using tasks that by simp
  show "tid \<in> aa_used ?s \<and> (\<forall>t. aa_tasks ?s tid = Some t \<longrightarrow> P t)" if c: "aa_calls ?s m = Some d" "owned d = Some (tid, P)" for m d tid P
  proof (cases "m = n")
    case True
    with c have d: "owned c' = Some (tid, P)" by simp
    from own[OF d] a2a_okD(2)[OF ok call] show ?thesis by auto
  next
    case False
    with c have "aa_calls s m = Some d" by simp
    with a2a_okD(2)[OF ok this c(2)] others[OF False this c(2)] show ?thesis by simp
  qed
  show "m' = m" if c: "aa_calls ?s m = Some d" "aa_calls ?s m' = Some d'" "owned d = Some (tid, P)" "owned d' = Some (tid, Q)"
    for m m' d d' tid P Q
  proof -
    have mine: "k = n" if k: "aa_calls s k = Some e" "owned e = Some (tid, R)" "owned c' = Some (tid, R')" for k e R R'
      using own[OF k(3)] a2a_okD(2)[OF ok k(1,2)] a2a_okD(4)[OF ok call k(1) _ k(2)] fresh by blast
    show ?thesis
    proof (cases "m = n"; cases "m' = n")
      assume "m = n" "m' \<noteq> n"
      with c mine[of m' d' Q P] show ?thesis by simp
    next
      assume "m \<noteq> n" "m' = n"
      with c mine[of m d P Q] show ?thesis by simp
    next
      assume "m \<noteq> n" "m' \<noteq> n"
      with c a2a_okD(4)[OF ok, of m d m' d'] show ?thesis by simp
    qed simp
  qed
qed

lemma a2a_step_ok:
  assumes "a2a_step agents s s'" and ok: "a2a_ok s"
  shows "a2a_ok s'"
  using assms(1)
proof cases
  case (arrive n token headers rq call)
  then have "owned call = None" by (auto simp: handle_a2a_request_def split: if_splits)
  with arrive show ?thesis
    by (intro a2a_okI) (auto dest: a2a_okD[OF ok] split: if_splits)
next
  case (run n call fresh call' st w)
  have fresh_free: "aa_tasks s fresh = None" using a2a_okD(1)[OF ok] run(3) by (cases "aa_tasks s fresh") auto
  note old = a2a_okD[OF ok]
  from run(4) have "a2a_ok (s\<lparr>aa_calls := (aa_calls s)(n \<mapsto> call'), aa_tasks := st, aa_used := insert fresh (aa_used s), aa_world := w\<rparr>)"
  proof (cases rule: rpc_step_cases)
    case same
    show ?thesis
    proof (rule run_a2a_ok[OF ok run(2,3)])
      show "tid \<in> insert fresh (aa_used s) \<and> task_ok tid t" if "st tid = Some t" for tid t using that same(1) old(1) by simp
      show "((\<exists>Q. owned call = Some (tid, Q)) \<or> tid = fresh) \<and> (\<forall>t. st tid = Some t \<longrightarrow> P t)" if "owned call' = Some (tid, P)" for tid P
      proof -
        from that same(2) have "owned call = Some (tid, P)" by auto
        with old(3)[OF run(2)] same(1) show ?thesis by auto
      qed
      show "P t" if "m \<noteq> n" "aa_calls s m = Some d" "owned d = Some (tid, P)" "st tid = Some t" for m d tid P t
        using that same(1) old(3) by simp
    qed
  next
    case (created agent body)
    show ?thesis
    proof (rule run_a2a_ok[OF ok run(2,3)])
      show "tid \<in> insert fresh (aa_used s) \<and> task_ok tid t" if "st tid = Some t" for tid t
        using that created(2) old(1) by (auto simp: create_task_def task_ok_def open_task_def split: if_splits)
      show "((\<exists>Q. owned call = Some (tid, Q)) \<or> tid = fresh) \<and> (\<forall>t. st tid = Some t \<longrightarrow> P t)" if "owned call' = Some (tid, P)" for tid P
        using that created by (auto simp: create_task_def open_task_def)
      show "P t" if "m \<noteq> n" "aa_calls s m = Some d" "owned d = Some (tid, P)" "st tid = Some t" for m d tid P t
        using that created(2) old(2)[OF that(2,3)] old(3)[OF that(2,3)] run(3) by (auto simp: create_task_def split: if_splits)
    qed
  next
    case (canceled tid0 t0)
    show ?thesis
    proof (rule run_a2a_ok[OF ok run(2,3)])
      show "tid \<in> insert fresh (aa_used s) \<and> task_ok tid t" if "st tid = Some t" for tid t
        using that canceled old(1)[of tid] by (auto intro: task_ok_canceled split: if_splits)
      show "P t" if "m \<noteq> n" "aa_calls s m = Some d" "owned d = Some (tid, P)" "st tid = Some t" for m d tid P t
        using that canceled old(3)[OF that(2,3)] owned_canceled[OF that(3)] by (auto split: if_splits)
    qed (use canceled in simp)
  next
    case (own tid0 P0 f)
    have st: "st tid = (if tid = tid0 then map_option f (aa_tasks s tid0) else aa_tasks s tid)" for tid
      using own(2) by (simp add: on_task_result split: option.splits)
    have mine: "task_ok tid0 (f t) \<and> (\<forall>Q. owned call' = Some (tid0, Q) \<longrightarrow> Q (f t))" if "aa_tasks s tid0 = Some t" for t
    proof -
      have "at_id t = tid0" using old(1)[OF that] by (simp add: task_ok_def)
      from own(4)[OF this old(3)[OF run(2) own(1) that]] show ?thesis .
    qed
    show ?thesis
    proof (rule run_a2a_ok[OF ok run(2,3)])
      show "tid \<in> insert fresh (aa_used s) \<and> task_ok tid t" if "st tid = Some t" for tid t
        using that st[of tid] mine old(1)[of tid] by (auto split: if_splits)
      show "((\<exists>Q. owned call = Some (tid, Q)) \<or> tid = fresh) \<and> (\<forall>t. st tid = Some t \<longrightarrow> P t)" if "owned call' = Some (tid, P)" for tid P
        using that own(1,3) st[of tid] mine by auto
      show "P t" if "m \<noteq> n" "aa_calls s m = Some d" "owned d = Some (tid, P)" "st tid = Some t" for m d tid P t
        using that st[of tid] old(4)[OF run(2) that(2) own(1), of P] old(3)[OF that(2,3)] by (auto split: if_splits)
    qed
  qed
  with run show ?thesis by simp
qed

lemma a2a_reachable_ok: "a2a_reachable agents s \<Longrightarrow> a2a_ok s"
proof (induction rule: a2a_reachable.induct)
  case (step s s')
  then show ?case using a2a_step_ok by blast
qed (simp add: a2a_ok_def a2a_init_def)

subsection \<open>Properties\<close>

text \<open>However requests are interleaved, a task keeps its id and the text it was sent with, gets at most one reply, and
  is completed or failed only when the reply is there.\<close>

theorem task_has_reply:
  assumes "a2a_reachable agents s" "aa_tasks s tid = Some t"
  shows "at_id t = tid \<and> (\<exists>body. at_messages t = [user_message body] \<and> at_status t \<noteq> Completed \<and> at_status t \<noteq> Failed \<or>
    (\<exists>reply. at_messages t = [user_message body, agent_message reply]))"
  using a2a_okD(1)[OF a2a_reachable_ok[OF assms(1)] assms(2)] by (auto simp: task_ok_def open_task_def replied_task_def)


subsection \<open>Concrete requests\<close>

definition echo_agent :: "nat invoker" where
  "echo_agent agent body session depth w = (Inr body, Suc w)"

definition send_request :: rpc_request where
  "send_request = \<lparr>rq_jsonrpc = ''2.0'', rq_id = Some (JInt 1), rq_method = ''tasks/send'', rq_params = JObj [(''agentId'', JStr ''a''), (''message'', JStr ''hello'')]\<rparr>"

definition cancel_request :: rpc_request where
  "cancel_request = \<lparr>rq_jsonrpc = ''2.0'', rq_id = Some (JInt 2), rq_method = ''tasks/cancel'', rq_params = JObj [(''taskId'', JStr ''t'')]\<rparr>"

lemma arrives: "a2a_reachable agents s \<Longrightarrow> aa_calls s n = None \<Longrightarrow> a2a_reachable agents (s\<lparr>aa_calls := (aa_calls s)(n \<mapsto> Start rq)\<rparr>)"
  by (rule a2a_reachable.step, assumption, rule a2a_step.arrive[where token = "Some ''k''" and headers = "\<lambda>h. Some ''k''" and rq = rq])
    (simp_all add: handle_a2a_request_def is_a2a_authorized_def bearer_token_def)

lemma runs:
  "a2a_reachable agents s \<Longrightarrow> aa_calls s n = Some call \<Longrightarrow> fresh \<notin> aa_used s \<Longrightarrow> rpc_step agents fresh call (aa_tasks s) (aa_world s) = (call', st, w) \<Longrightarrow>
    a2a_reachable agents (s\<lparr>aa_calls := (aa_calls s)(n \<mapsto> call'), aa_tasks := st, aa_used := insert fresh (aa_used s), aa_world := w\<rparr>)"
  by (rule a2a_reachable.step, assumption, rule a2a_step.run)


datatype a2a_act = Sends nat rpc_request | Steps nat string

fun a2a_play :: "'w invoker option \<Rightarrow> a2a_act list \<Rightarrow> 'w a2a \<Rightarrow> 'w a2a option" where
  "a2a_play agents [] s = Some s"
| "a2a_play agents (Sends n rq # as) s =
     (if aa_calls s n \<noteq> None then None else a2a_play agents as (s\<lparr>aa_calls := (aa_calls s)(n \<mapsto> Start rq)\<rparr>))"
| "a2a_play agents (Steps n fresh # as) s = (case aa_calls s n of
     None \<Rightarrow> None
   | Some call \<Rightarrow> if fresh \<in> aa_used s then None
       else (case rpc_step agents fresh call (aa_tasks s) (aa_world s) of (call', st, w) \<Rightarrow>
         a2a_play agents as (s\<lparr>aa_calls := (aa_calls s)(n \<mapsto> call'), aa_tasks := st, aa_used := insert fresh (aa_used s), aa_world := w\<rparr>)))"

lemma a2a_play_reachable: "a2a_play agents as s = Some s' \<Longrightarrow> a2a_reachable agents s \<Longrightarrow> a2a_reachable agents s'"
proof (induction agents as s rule: a2a_play.induct)
  case (2 agents n rq as s)
  then show ?case using arrives by (auto split: if_splits)
next
  case (3 agents n fresh as s)
  from "3.prems"(1) obtain call call' st w where c: "aa_calls s n = Some call" "fresh \<notin> aa_used s"
    "rpc_step agents fresh call (aa_tasks s) (aa_world s) = (call', st, w)"
    "a2a_play agents as (s\<lparr>aa_calls := (aa_calls s)(n \<mapsto> call'), aa_tasks := st, aa_used := insert fresh (aa_used s), aa_world := w\<rparr>) = Some s'"
    by (auto split: option.splits if_splits prod.splits)
  with "3.IH"[OF c(1,2) c(3)[symmetric] refl c(4)] runs[OF "3.prems"(2) c(1-3)] show ?case by simp
qed simp

definition hello_task :: "a2a_status \<Rightarrow> a2a_message list \<Rightarrow> a2a_task" where
  "hello_task status replies = \<lparr>at_id = ''t'', at_agent_id = ''a'', at_status = status, at_messages = user_message ''hello'' # replies,
     at_artifacts = [], at_metadata = None\<rparr>"

lemmas a2a_run = send_request_def cancel_request_def echo_agent_def a2a_init_def create_task_def sent_agent_def sent_text_def either_param_def
  str_param_def json_get_def as_str_def update_status_def add_task_message_def on_task_def handle_tasks_cancel_def hello_task_def

text \<open>A task that is canceled while its agent works becomes completed all the same, after its client was told it is canceled.\<close>

lemma canceled_then_completed:
  "\<exists>s s'. a2a_reachable (Some echo_agent) s \<and> aa_tasks s ''t'' = Some (hello_task Canceled []) \<and>
    aa_calls s 2 = Some (Answered (rpc_success (Some (JInt 2)) (JObj [(''status'', JStr ''canceled''), (''taskId'', JStr ''t'')]))) \<and>
    a2a_play (Some echo_agent) [Steps 1 ''5'', Steps 1 ''6'', Steps 1 ''7''] s = Some s' \<and>
    aa_tasks s' ''t'' = Some (hello_task Completed [agent_message ''hello''])"
proof -
  obtain s where s: "a2a_play (Some echo_agent) [Sends 1 send_request, Steps 1 ''t'', Steps 1 ''2'', Sends 2 cancel_request, Steps 2 ''3''] (a2a_init 0) = Some s"
    by (simp add: a2a_run)
  have "a2a_reachable (Some echo_agent) s" using a2a_play_reachable[OF s a2a_reachable.start] .
  with s show ?thesis by (auto simp: a2a_run)
qed

theorem task_has_reply_witness:
  "\<exists>s :: nat a2a. a2a_reachable (Some echo_agent) s \<and> (\<exists>t. aa_tasks s ''t'' = Some t \<and> at_status t = Completed \<and>
     (\<exists>body reply. at_messages t = [user_message body, agent_message reply]))"
proof -
  obtain s s' where s: "a2a_reachable (Some echo_agent) s"
    and run: "a2a_play (Some echo_agent) [Steps 1 ''5'', Steps 1 ''6'', Steps 1 ''7''] s = Some s'"
    and t: "aa_tasks s' ''t'' = Some (hello_task Completed [agent_message ''hello''])" using canceled_then_completed by blast
  have s': "a2a_reachable (Some echo_agent) s'" using a2a_play_reachable[OF run s] .
  have "at_status (hello_task Completed [agent_message ''hello'']) = Completed" by (simp add: hello_task_def)
  with task_has_reply[OF s' t] s' t show ?thesis by blast
qed

end
