(* ===== verification/RemoteExec.thy ===== *)
theory RemoteExec
  imports RustStr
begin

text \<open>
  Remote execution of tools (\<open>rockbot-client/src/remote_exec.rs\<close>): which tools a client can execute, the
  register of clients, and the calls that are sent to one of them and wait for its response. A call
  holds the register for reading as long as it waits, so that no client can be registered or removed meanwhile;
  responses, timeouts and other calls come in between.
\<close>

subsection \<open>Capabilities\<close>

datatype tool_capability = CapFilesystem | CapShell | CapBrowser | CapNetwork | CapAgent | CapMemory | CapFull

definition for_tool :: "string \<Rightarrow> tool_capability option" where
  "for_tool tool =
     (if tool \<in> {''read'', ''write'', ''edit'', ''glob'', ''grep'', ''patch''} then Some CapFilesystem
      else if tool \<in> {''exec'', ''test'', ''lint''} then Some CapShell
      else if tool = ''browser'' then Some CapBrowser
      else if tool \<in> {''web_fetch'', ''web_search''} then Some CapNetwork
      else if tool \<in> {''invoke_agent'', ''handoff''} then Some CapAgent
      else if tool \<in> {''memory_get'', ''memory_search''} then Some CapMemory
      else None)"

record client_capabilities =
  cc_capabilities :: "tool_capability set"
  cc_client_type :: string
  cc_client_name :: "string option"
  cc_working_dir :: "string option"

definition tui_capabilities :: client_capabilities where
  "tui_capabilities = \<lparr>cc_capabilities = {CapFilesystem, CapShell, CapNetwork}, cc_client_type = ''tui'', cc_client_name = None, cc_working_dir = None\<rparr>"

definition browser_capabilities :: client_capabilities where
  "browser_capabilities = \<lparr>cc_capabilities = {CapBrowser}, cc_client_type = ''browser'', cc_client_name = None, cc_working_dir = None\<rparr>"

definition can_execute :: "client_capabilities \<Rightarrow> string \<Rightarrow> bool" where
  "can_execute caps tool = (CapFull \<in> cc_capabilities caps \<or>
     (case for_tool tool of Some cap \<Rightarrow> cap \<in> cc_capabilities caps | None \<Rightarrow> False))"

subsection \<open>The register\<close>

record executor_identity =
  ei_conn_id :: string
  ei_client_uuid :: "string option"
  ei_hostname :: "string option"
  ei_label :: "string option"

record remote_request =
  rr_request_id :: string
  rr_tool_name :: string
  rr_params :: string
  rr_agent_id :: string
  rr_session_id :: string
  rr_workspace_path :: string

record remote_response =
  rs_request_id :: string
  rs_success :: bool
  rs_output :: string
  rs_execution_time_ms :: nat

record remote_output =
  ro_request_id :: string
  ro_stream :: "string option"
  ro_output :: string

text \<open>The transport that encrypts for the client is left out; \<open>ns_outbox\<close> is the channel to its task.\<close>

record noise_session =
  ns_identity :: executor_identity
  ns_conn_id :: string
  ns_capabilities :: client_capabilities
  ns_outbox :: "remote_request list"

record remote_pending =
  pc_waiting :: bool
  pc_outputs :: "remote_output list option"
  pc_completed :: bool

record remote_call =
  rc_target :: "string option"
  rc_tool :: string
  rc_params :: string
  rc_agent :: string
  rc_session :: string
  rc_workspace :: string
  rc_streams :: bool

text \<open>A call: the client is chosen; it waits; it is woken by a response, or by the loss of the channel; it has timed
  out; it has returned.\<close>

datatype dispatch_state =
    Chosen remote_call string
  | Waits string string
  | Woke string string "remote_response option"
  | Expired string string
  | Done "remote_response option"

record registry =
  rg_sessions :: "string \<rightharpoonup> noise_session"
  rg_pending :: "string \<rightharpoonup> remote_pending"
  rg_recent :: "string set"
  rg_calls :: "nat \<rightharpoonup> dispatch_state"
  rg_used :: "string set"

definition resolve_remote_workspace :: "noise_session \<Rightarrow> string \<Rightarrow> string \<Rightarrow> string" where
  "resolve_remote_workspace session path tool =
     (if \<not> blank path then path
      else if for_tool tool \<in> {Some CapFilesystem, Some CapShell} then
        (case cc_working_dir (ns_capabilities session) of Some d \<Rightarrow> d | None \<Rightarrow> path)
      else path)"

text \<open>The map of sessions has no order; the order of its keys is an argument.\<close>

fun find_executor :: "(string \<rightharpoonup> noise_session) \<Rightarrow> string \<Rightarrow> string option \<Rightarrow> string list \<Rightarrow> string option" where
  "find_executor sessions tool best [] = best"
| "find_executor sessions tool best (c # cs) = (case sessions c of
     None \<Rightarrow> find_executor sessions tool best cs
   | Some session \<Rightarrow>
       if can_execute (ns_capabilities session) tool then
         (if cc_client_type (ns_capabilities session) = ''tui'' then Some c
          else find_executor sessions tool (if best = None then Some c else best) cs)
       else find_executor sessions tool best cs)"

definition is_target :: "string \<Rightarrow> noise_session \<Rightarrow> bool" where
  "is_target target session \<longleftrightarrow> ns_conn_id session = target \<or> ei_client_uuid (ns_identity session) = Some target \<or>
     ei_label (ns_identity session) = Some target \<or> ei_hostname (ns_identity session) = Some target"

definition resolve_executor_target :: "(string \<rightharpoonup> noise_session) \<Rightarrow> string \<Rightarrow> string \<Rightarrow> string list \<Rightarrow> string option" where
  "resolve_executor_target sessions target tool keys =
     List.find (\<lambda>c. case sessions c of None \<Rightarrow> False
       | Some session \<Rightarrow> can_execute (ns_capabilities session) tool \<and> is_target target session) keys"

definition choose_executor :: "(string \<rightharpoonup> noise_session) \<Rightarrow> remote_call \<Rightarrow> string list \<Rightarrow> string option" where
  "choose_executor sessions call keys = (case rc_target call of
     None \<Rightarrow> find_executor sessions (rc_tool call) None keys
   | Some target \<Rightarrow> resolve_executor_target sessions target (rc_tool call) keys)"

definition register :: "noise_session \<Rightarrow> registry \<Rightarrow> registry" where
  "register session s = s\<lparr>rg_sessions := (rg_sessions s)(ns_conn_id session \<mapsto> session)\<rparr>"

definition remove_session :: "string \<Rightarrow> registry \<Rightarrow> registry" where
  "remove_session c s = s\<lparr>rg_sessions := (rg_sessions s)(c := None)\<rparr>"

definition request_for :: "string \<Rightarrow> remote_call \<Rightarrow> noise_session \<Rightarrow> remote_request" where
  "request_for rid call session = \<lparr>rr_request_id = rid, rr_tool_name = rc_tool call, rr_params = rc_params call, rr_agent_id = rc_agent call,
     rr_session_id = rc_session call, rr_workspace_path = resolve_remote_workspace session (rc_workspace call) (rc_tool call)\<rparr>"

definition set_call :: "nat \<Rightarrow> dispatch_state \<Rightarrow> registry \<Rightarrow> registry" where
  "set_call n d s = s\<lparr>rg_calls := (rg_calls s)(n \<mapsto> d)\<rparr>"

definition send_remote :: "nat \<Rightarrow> string \<Rightarrow> remote_call \<Rightarrow> string \<Rightarrow> noise_session \<Rightarrow> registry \<Rightarrow> registry" where
  "send_remote n rid call c session s =
     s\<lparr>rg_pending := (rg_pending s)(rid \<mapsto> \<lparr>pc_waiting = True, pc_outputs = (if rc_streams call then Some [] else None), pc_completed = False\<rparr>),
       rg_sessions := (rg_sessions s)(c \<mapsto> session\<lparr>ns_outbox := ns_outbox session @ [request_for rid call session]\<rparr>),
       rg_calls := (rg_calls s)(n \<mapsto> Waits rid c), rg_used := insert rid (rg_used s)\<rparr>"

definition wake_dispatch :: "remote_response \<Rightarrow> dispatch_state \<Rightarrow> dispatch_state" where
  "wake_dispatch resp d = (case d of Waits rid c \<Rightarrow> if rid = rs_request_id resp then Woke rid c (Some resp) else d | _ \<Rightarrow> d)"

definition deliver_response :: "remote_response \<Rightarrow> registry \<Rightarrow> registry" where
  "deliver_response resp s = (case rg_pending s (rs_request_id resp) of
     None \<Rightarrow> s
   | Some call \<Rightarrow> if \<not> pc_waiting call then s
       else s\<lparr>rg_pending := (rg_pending s)(rs_request_id resp \<mapsto> call\<lparr>pc_waiting := False, pc_completed := True\<rparr>),
              rg_calls := (\<lambda>n. map_option (wake_dispatch resp) (rg_calls s n))\<rparr>)"

definition deliver_output :: "remote_output \<Rightarrow> registry \<Rightarrow> registry" where
  "deliver_output out s = (case rg_pending s (ro_request_id out) of
     None \<Rightarrow> s
   | Some call \<Rightarrow> (case pc_outputs call of
       None \<Rightarrow> s
     | Some outs \<Rightarrow> s\<lparr>rg_pending := (rg_pending s)(ro_request_id out \<mapsto> call\<lparr>pc_outputs := Some (outs @ [out])\<rparr>)\<rparr>))"

text \<open>The end of a call: after a response its request is kept for two more seconds, for output that trails it; otherwise it
  is removed at once.\<close>

definition finish_dispatch :: "nat \<Rightarrow> string \<Rightarrow> remote_response option \<Rightarrow> registry \<Rightarrow> registry" where
  "finish_dispatch n rid resp s = (case resp of
     Some _ \<Rightarrow> s\<lparr>rg_recent := insert rid (rg_recent s), rg_calls := (rg_calls s)(n \<mapsto> Done resp)\<rparr>
   | None \<Rightarrow> s\<lparr>rg_pending := (rg_pending s)(rid := None), rg_calls := (rg_calls s)(n \<mapsto> Done None)\<rparr>)"

definition cleanup :: "string \<Rightarrow> registry \<Rightarrow> registry" where
  "cleanup rid s = s\<lparr>rg_pending := (rg_pending s)(rid := None), rg_recent := rg_recent s - {rid}\<rparr>"

fun holds_sessions :: "dispatch_state \<Rightarrow> bool" where
  "holds_sessions (Chosen call c) = False"
| "holds_sessions (Waits rid c) = True"
| "holds_sessions (Woke rid c r) = True"
| "holds_sessions (Expired rid c) = True"
| "holds_sessions (Done r) = False"

definition sessions_free :: "registry \<Rightarrow> bool" where
  "sessions_free s \<longleftrightarrow> (\<forall>n d. rg_calls s n = Some d \<longrightarrow> \<not> holds_sessions d)"

datatype remote_event =
    Requested nat remote_call
  | Picked nat string noise_session
  | Sent nat string remote_request
  | Delivered remote_response
  | Finished nat "remote_response option"

text \<open>Request ids are random and never repeat.\<close>

inductive rx_step :: "registry \<Rightarrow> remote_event list \<Rightarrow> registry \<Rightarrow> bool" where
  join: "sessions_free s \<Longrightarrow> rx_step s [] (register session s)"
| leave: "sessions_free s \<Longrightarrow> rx_step s [] (remove_session c s)"
| no_client: "rg_calls s n = None \<Longrightarrow> set keys = dom (rg_sessions s) \<Longrightarrow>
      choose_executor (rg_sessions s) call keys = None \<Longrightarrow>
      rx_step s [Requested n call, Finished n None] (set_call n (Done None) s)"
| chosen: "rg_calls s n = None \<Longrightarrow> set keys = dom (rg_sessions s) \<Longrightarrow>
      choose_executor (rg_sessions s) call keys = Some c \<Longrightarrow> rg_sessions s c = Some session \<Longrightarrow>
      rx_step s [Requested n call, Picked n c session] (set_call n (Chosen call c) s)"
| gone: "rg_calls s n = Some (Chosen call c) \<Longrightarrow> rg_sessions s c = None \<Longrightarrow> rx_step s [Finished n None] (set_call n (Done None) s)"
| send: "rg_calls s n = Some (Chosen call c) \<Longrightarrow> rg_sessions s c = Some session \<Longrightarrow> rid \<notin> rg_used s \<Longrightarrow>
      rx_step s [Sent n c (request_for rid call session)] (send_remote n rid call c session s)"
| respond: "rx_step s [Delivered resp] (deliver_response resp s)"
| stream: "rx_step s [] (deliver_output out s)"
| expire: "rg_calls s n = Some (Waits rid c) \<Longrightarrow> rx_step s [] (set_call n (Expired rid c) s)"
| finish_woken: "rg_calls s n = Some (Woke rid c r) \<Longrightarrow> rx_step s [Finished n r] (finish_dispatch n rid r s)"
| finish_expired: "rg_calls s n = Some (Expired rid c) \<Longrightarrow> rx_step s [Finished n None] (finish_dispatch n rid None s)"
| forget: "rid \<in> rg_recent s \<Longrightarrow> rx_step s [] (cleanup rid s)"

definition registry_init :: registry where
  "registry_init = \<lparr>rg_sessions = Map.empty, rg_pending = Map.empty, rg_recent = {}, rg_calls = Map.empty, rg_used = {}\<rparr>"

inductive rx_run :: "remote_event list \<Rightarrow> registry \<Rightarrow> bool" where
  start: "rx_run [] registry_init"
| step: "rx_run tr s \<Longrightarrow> rx_step s es s' \<Longrightarrow> rx_run (tr @ es) s'"


subsection \<open>The choice of a client\<close>

lemma find_executor_sound:
  "find_executor sessions tool best keys = Some c \<Longrightarrow>
    best = Some c \<or> c \<in> set keys \<and> (\<exists>session. sessions c = Some session \<and> can_execute (ns_capabilities session) tool)"
  by (induction keys arbitrary: best) (fastforce split: option.splits if_splits)+

lemma find_executor_tui:
  "find_executor sessions tool best keys = Some c \<Longrightarrow> d \<in> set keys \<Longrightarrow> sessions d = Some session \<Longrightarrow> can_execute (ns_capabilities session) tool \<Longrightarrow>
    cc_client_type (ns_capabilities session) = ''tui'' \<Longrightarrow> \<exists>session. sessions c = Some session \<and> cc_client_type (ns_capabilities session) = ''tui''"
  by (induction keys arbitrary: best) (auto split: option.splits if_splits)

lemma find_executor_None:
  "find_executor sessions tool best keys = None \<longleftrightarrow>
    best = None \<and> (\<forall>c \<in> set keys. \<forall>session. sessions c = Some session \<longrightarrow> \<not> can_execute (ns_capabilities session) tool)"
  by (induction keys arbitrary: best) (auto split: option.splits)

lemma resolve_target_sound:
  "resolve_executor_target sessions target tool keys = Some c \<Longrightarrow>
    \<exists>session. sessions c = Some session \<and> can_execute (ns_capabilities session) tool \<and> is_target target session"
  by (auto simp: resolve_executor_target_def find_Some_iff split: option.splits)

lemma resolve_target_None:
  "resolve_executor_target sessions target tool keys = None \<longleftrightarrow>
    (\<forall>c \<in> set keys. \<forall>session. sessions c = Some session \<longrightarrow> \<not> (can_execute (ns_capabilities session) tool \<and> is_target target session))"
  by (auto simp: resolve_executor_target_def find_None_iff split: option.splits)

definition fits :: "remote_call \<Rightarrow> noise_session \<Rightarrow> bool" where
  "fits call session \<longleftrightarrow> can_execute (ns_capabilities session) (rc_tool call) \<and>
     (\<forall>target. rc_target call = Some target \<longrightarrow> is_target target session)"

lemma choose_sound: "choose_executor sessions call keys = Some c \<Longrightarrow> \<exists>session. sessions c = Some session \<and> fits call session"
  by (auto simp: choose_executor_def fits_def split: option.splits dest: find_executor_sound resolve_target_sound)

lemma choose_None:
  assumes "set keys = dom sessions"
  shows "choose_executor sessions call keys = None \<longleftrightarrow> (\<forall>c session. sessions c = Some session \<longrightarrow> \<not> fits call session)"
  using assms by (auto simp: choose_executor_def fits_def find_executor_None resolve_target_None split: option.splits)

subsection \<open>Runs\<close>

definition asked_of :: "nat \<Rightarrow> string \<Rightarrow> string \<Rightarrow> remote_event list \<Rightarrow> bool" where
  "asked_of n rid c tr \<longleftrightarrow> (\<exists>call session req. Requested n call \<in> set tr \<and> Picked n c session \<in> set tr \<and> fits call session \<and>
     Sent n c req \<in> set tr \<and> rr_request_id req = rid \<and> rr_tool_name req = rc_tool call)"

fun dispatch_ok :: "remote_event list \<Rightarrow> nat \<Rightarrow> dispatch_state \<Rightarrow> bool" where
  "dispatch_ok tr n (Chosen call c) = (Requested n call \<in> set tr \<and> (\<exists>session. Picked n c session \<in> set tr \<and> fits call session))"
| "dispatch_ok tr n (Waits rid c) = asked_of n rid c tr"
| "dispatch_ok tr n (Woke rid c r) = (\<forall>resp. r = Some resp \<longrightarrow> asked_of n rid c tr \<and> Delivered resp \<in> set tr \<and> rs_request_id resp = rid)"
| "dispatch_ok tr n _ = True"

lemma asked_mono: "asked_of n rid c tr \<Longrightarrow> set tr \<subseteq> set tr' \<Longrightarrow> asked_of n rid c tr'"
  unfolding asked_of_def by blast

lemma dispatch_ok_mono: "dispatch_ok tr n d \<Longrightarrow> set tr \<subseteq> set tr' \<Longrightarrow> dispatch_ok tr' n d"
  by (cases d) (auto intro: asked_mono)

lemma dispatch_ok_append: "dispatch_ok tr n d \<Longrightarrow> dispatch_ok (tr @ es) n d"
  by (rule dispatch_ok_mono) auto

definition registry_ok :: "remote_event list \<Rightarrow> registry \<Rightarrow> bool" where
  "registry_ok tr s \<longleftrightarrow> (\<forall>n d. rg_calls s n = Some d \<longrightarrow> dispatch_ok tr n d)"

definition finish_ok :: "remote_event list \<Rightarrow> remote_event \<Rightarrow> bool" where
  "finish_ok tr e \<longleftrightarrow> (\<forall>n resp. e = Finished n (Some resp) \<longrightarrow> (\<exists>c. asked_of n (rs_request_id resp) c tr \<and> Delivered resp \<in> set tr))"

lemma registry_okI:
  assumes "registry_ok tr s" "\<And>n d. rg_calls s' n = Some d \<Longrightarrow> rg_calls s n = Some d \<or> dispatch_ok (tr @ es) n d"
  shows "registry_ok (tr @ es) s'"
  using assms dispatch_ok_mono[of tr _ _ "tr @ es"] unfolding registry_ok_def by (metis Un_upper1 set_append)

lemma wake_dispatch_ok:
  "dispatch_ok tr n d \<Longrightarrow> wake_dispatch resp d = d \<or> dispatch_ok (tr @ [Delivered resp]) n (wake_dispatch resp d)"
  by (cases d) (auto simp: wake_dispatch_def intro: asked_mono)

lemma rx_step_ok:
  assumes "rx_step s es s'" and ok: "registry_ok tr s"
  shows "registry_ok (tr @ es) s' \<and> (\<forall>e \<in> set es. finish_ok tr e)"
  using assms(1)
proof cases
  case (respond resp)
  have "registry_ok (tr @ es) s'"
  proof (rule registry_okI[OF ok])
    fix n d assume d: "rg_calls s' n = Some d"
    show "rg_calls s n = Some d \<or> dispatch_ok (tr @ es) n d"
    proof (cases "rg_calls s' = rg_calls s")
      case False
      with respond d obtain d0 where "rg_calls s n = Some d0" "d = wake_dispatch resp d0"
        by (auto simp: deliver_response_def split: option.splits if_splits)
      with wake_dispatch_ok[of tr n d0 resp] ok respond show ?thesis unfolding registry_ok_def by auto
    qed (use d in simp)
  qed
  with respond show ?thesis by (simp add: finish_ok_def)
next
  case (send n call c session rid)
  have "dispatch_ok tr n (Chosen call c)" using ok send unfolding registry_ok_def by blast
  then have "asked_of n rid c (tr @ es)" using send unfolding asked_of_def by (fastforce simp: request_for_def)
  then have "registry_ok (tr @ es) s'"
    by (intro registry_okI[OF ok]) (use send in \<open>auto simp: send_remote_def split: if_splits\<close>)
  with send show ?thesis by (simp add: finish_ok_def)
next
  case (chosen n keys call c session)
  from choose_sound[OF chosen(5)] chosen(6) have "fits call session" by auto
  then have "registry_ok (tr @ es) s'"
    by (intro registry_okI[OF ok]) (use chosen in \<open>auto simp: set_call_def split: if_splits\<close>)
  with chosen show ?thesis by (simp add: finish_ok_def)
next
  case (finish_woken n rid c r)
  have "dispatch_ok tr n (Woke rid c r)" using ok finish_woken unfolding registry_ok_def by blast
  then have "finish_ok tr (Finished n r)" by (auto simp: finish_ok_def)
  moreover have "registry_ok (tr @ es) s'"
    by (rule registry_okI[OF ok]) (use finish_woken in \<open>auto simp: finish_dispatch_def split: option.splits if_splits\<close>)
  ultimately show ?thesis using finish_woken by simp
qed (use ok in \<open>auto intro!: dispatch_ok_append simp: registry_ok_def finish_ok_def register_def remove_session_def set_call_def
       deliver_output_def finish_dispatch_def cleanup_def split: option.splits if_splits\<close>)


lemma rx_run_ok:
  "rx_run tr s \<Longrightarrow> registry_ok tr s \<and> (\<forall>before e after. tr = before @ e # after \<longrightarrow> finish_ok before e)"
proof (induction rule: rx_run.induct)
  case (step tr s es s')
  from rx_step_ok[OF step(2)] step.IH have ok: "registry_ok (tr @ es) s'" and new: "\<forall>e \<in> set es. finish_ok tr e" by blast+
  have "finish_ok before x" if "tr @ es = before @ x # after" for before x after
  proof (cases "length before < length tr")
    case True
    with that obtain after' where "tr = before @ x # after'"
      by (auto simp: append_eq_append_conv2 Cons_eq_append_conv append_eq_Cons_conv)
    with step.IH show ?thesis by blast
  next
    case False
    with that obtain front where front: "before = tr @ front" "es = front @ x # after" by (auto simp: append_eq_append_conv2)
    then have "finish_ok tr x" using new by simp
    then show ?thesis using asked_mono[of _ _ _ tr before] front(1) unfolding finish_ok_def by fastforce
  qed
  with ok show ?case by blast
qed (simp add: registry_ok_def registry_init_def)

lemma wake_dispatch_Waits: "wake_dispatch resp d = Waits rid c \<Longrightarrow> d = Waits rid c"
  by (cases d) (auto simp: wake_dispatch_def split: if_splits)

text \<open>A call that waits keeps the client it was sent to in the register, whatever happens to the connection.\<close>

definition waits_registered :: "registry \<Rightarrow> bool" where
  "waits_registered s \<longleftrightarrow> (\<forall>n rid c. rg_calls s n = Some (Waits rid c) \<longrightarrow> rg_sessions s c \<noteq> None)"

lemma waiting_registered: "rx_run tr s \<Longrightarrow> waits_registered s"
proof (induction rule: rx_run.induct)
  case (step tr s es s')
  from step(2) step.IH show ?case
  proof cases
    case (respond resp)
    then show ?thesis using step.IH
      by (auto simp: waits_registered_def deliver_response_def split: option.splits if_splits dest: wake_dispatch_Waits)
  next
    case (leave c)
    have "rg_calls s n \<noteq> Some (Waits rid d)" for n rid d using leave(3) unfolding sessions_free_def by force
    then show ?thesis using leave by (simp add: waits_registered_def remove_session_def)
  qed (auto simp: waits_registered_def register_def set_call_def send_remote_def deliver_output_def finish_dispatch_def cleanup_def
        split: option.splits if_splits)
qed (simp add: waits_registered_def registry_init_def)

subsection \<open>Properties\<close>

text \<open>C19. However calls, responses, timeouts and clients are interleaved, a call returns a response only when its request
  was sent to a client that had declared it can execute the tool and is the one that was asked for, if one
  was, and that response was delivered under the id of this very request, by whichever client: the code
  does not compare the client that delivers with the one the request went to.\<close>

theorem response_from_executor:
  assumes "rx_run (before @ Finished n (Some resp) # after) s"
  shows "\<exists>call c session req. Requested n call \<in> set before \<and> Picked n c session \<in> set before \<and>
    can_execute (ns_capabilities session) (rc_tool call) \<and> (\<forall>target. rc_target call = Some target \<longrightarrow> is_target target session) \<and>
    Sent n c req \<in> set before \<and> rr_tool_name req = rc_tool call \<and> rr_request_id req = rs_request_id resp \<and> Delivered resp \<in> set before"
  using conjunct2[OF rx_run_ok[OF assms]] unfolding finish_ok_def asked_of_def fits_def by blast

text \<open>A call without a target is sent to a terminal client whenever one can execute its tool, to another client that can
  when there is none, and to nobody exactly when no client can.\<close>

theorem executor_choice:
  assumes "set keys = dom sessions"
  shows "(case find_executor sessions tool None keys of
      None \<Rightarrow> \<forall>c session. sessions c = Some session \<longrightarrow> \<not> can_execute (ns_capabilities session) tool
    | Some c \<Rightarrow> \<exists>session. sessions c = Some session \<and> can_execute (ns_capabilities session) tool \<and>
        (cc_client_type (ns_capabilities session) \<noteq> ''tui'' \<longrightarrow> (\<forall>d other. sessions d = Some other \<longrightarrow>
           can_execute (ns_capabilities other) tool \<longrightarrow> cc_client_type (ns_capabilities other) \<noteq> ''tui'')))"
proof (cases "find_executor sessions tool None keys")
  case None
  then have "\<forall>c session. sessions c = Some session \<longrightarrow> \<not> can_execute (ns_capabilities session) tool"
    using assms unfolding find_executor_None by auto
  with None show ?thesis by simp
next
  case (Some c)
  from find_executor_sound[OF Some] obtain session where "sessions c = Some session" "can_execute (ns_capabilities session) tool" by auto
  moreover have "cc_client_type (ns_capabilities other) \<noteq> ''tui''"
    if "cc_client_type (ns_capabilities session) \<noteq> ''tui''" "sessions d = Some other" "can_execute (ns_capabilities other) tool" for d other
    using find_executor_tui[OF Some _ that(2,3)] that assms \<open>sessions c = Some session\<close> by auto
  ultimately show ?thesis using Some by auto
qed

subsection \<open>A concrete call\<close>

definition sample_session :: noise_session where
  "sample_session = \<lparr>ns_identity = \<lparr>ei_conn_id = ''c'', ei_client_uuid = None, ei_hostname = None, ei_label = Some ''laptop''\<rparr>, ns_conn_id = ''c'',
     ns_capabilities = tui_capabilities, ns_outbox = []\<rparr>"

definition sample_call :: remote_call where
  "sample_call = \<lparr>rc_target = Some ''laptop'', rc_tool = ''read'', rc_params = ''{}'', rc_agent = ''a'', rc_session = ''s'', rc_workspace = ''/w'', rc_streams = False\<rparr>"

definition sample_response :: remote_response where
  "sample_response = \<lparr>rs_request_id = ''r'', rs_success = True, rs_output = ''text'', rs_execution_time_ms = 1\<rparr>"

theorem executor_choice_witness:
  "find_executor [''c'' \<mapsto> sample_session] ''read'' None [''c''] = Some ''c'' \<and>
   (\<exists>session. [''c'' \<mapsto> sample_session] ''c'' = Some session \<and> can_execute (ns_capabilities session) ''read'')"
proof -
  have one: "find_executor [''c'' \<mapsto> sample_session] ''read'' None [''c''] = Some ''c''"
    by (simp add: sample_session_def can_execute_def tui_capabilities_def for_tool_def)
  from executor_choice[of "[''c'']" "[''c'' \<mapsto> sample_session]" "''read''"] one show ?thesis by auto
qed

theorem response_from_executor_witness:
  "\<exists>s. rx_run ([Requested 0 sample_call, Picked 0 ''c'' sample_session, Sent 0 ''c'' (request_for ''r'' sample_call sample_session), Delivered sample_response] @
     Finished 0 (Some sample_response) # []) s \<and> can_execute (ns_capabilities sample_session) ''read''"
proof -
  let ?s1 = "register sample_session registry_init" and ?start = "[Requested 0 sample_call, Picked 0 ''c'' sample_session]"
  let ?s2 = "set_call 0 (Chosen sample_call ''c'') ?s1"
  let ?s3 = "send_remote 0 ''r'' sample_call ''c'' sample_session ?s2"
  let ?s4 = "deliver_response sample_response ?s3"
  have sessions: "rg_sessions ?s1 = [''c'' \<mapsto> sample_session]" by (simp add: register_def registry_init_def sample_session_def)
  have "rx_run ([] @ []) ?s1" by (rule rx_run.step[OF rx_run.start rx_step.join]) (simp add: sessions_free_def registry_init_def)
  then have "rx_run (([] @ []) @ ?start) ?s2"
  proof (rule rx_run.step[OF _ rx_step.chosen[where keys = "[''c'']"]])
    show "choose_executor (rg_sessions ?s1) sample_call [''c''] = Some ''c''"
      unfolding sessions by (simp add: choose_executor_def sample_call_def resolve_executor_target_def sample_session_def can_execute_def tui_capabilities_def
        for_tool_def is_target_def)
  qed (simp_all only: sessions, simp_all add: register_def registry_init_def)
  then have "rx_run ((([] @ []) @ ?start) @ [Sent 0 ''c'' (request_for ''r'' sample_call sample_session)]) ?s3"
    by (rule rx_run.step[OF _ rx_step.send]) (simp_all add: set_call_def register_def registry_init_def sample_session_def)
  then have "rx_run (((([] @ []) @ ?start) @ [Sent 0 ''c'' (request_for ''r'' sample_call sample_session)]) @ [Delivered sample_response]) ?s4"
    by (rule rx_run.step[OF _ rx_step.respond])
  from rx_run.step[OF this rx_step.finish_woken, of 0 "''r''" "''c''" "Some sample_response"]
  obtain s where run: "rx_run ([Requested 0 sample_call, Picked 0 ''c'' sample_session, Sent 0 ''c'' (request_for ''r'' sample_call sample_session),
      Delivered sample_response] @ Finished 0 (Some sample_response) # []) s"
    by (auto simp: deliver_response_def send_remote_def sample_response_def wake_dispatch_def)
  from response_from_executor[OF run] run show ?thesis by (auto simp: sample_call_def)
qed

end
