(* ===== verification/Spec2Isabelle.thy ===== *)
theory Spec2Isabelle
  imports Prelude CredTypes Glob Permissions PathPolicy Store AuditLog Vault CredManager Vdisk RaftStore RaftLog Security Swarm TextTools Sessions Routing Cron AgentLoop CertSign GatewayWs ToolApprovals A2a RemoteExec
begin

text \<open>
  RockBot: a gateway that routes messages of chat channels and of WebSocket clients to agents, which
  call language models and tools. The sources are Rust crates under \<open>src/crates\<close>; every path below is
  relative to it. The theories follow the crates from the bottom up.

  Parts and how they interact

  A message reaches the gateway over a connection (\<open>GatewayWs\<close>) or a channel. The routing engine
  (\<open>Routing\<close>) resolves it to an agent and a session key; the session manager (\<open>Sessions\<close>) stores the
  conversation. The agent builds a request from it (\<open>Transcript\<close>), calls a provider (\<open>LlmCalls\<close>) and
  runs the calls of the answer in its tool loop (\<open>ToolLoop\<close>, \<open>AgentLoop\<close>). Every tool call passes the
  gate of the tool registry (\<open>Tools\<close>), which asks the security manager (\<open>Security\<close>, \<open>ToolPaths\<close>) and, where a
  tool needs it, an operator (\<open>ToolApprovals\<close>). Credentials are released by the credential manager
  (\<open>CredManager\<close>) after its policies (\<open>Glob\<close>, \<open>Permissions\<close>, \<open>PathPolicy\<close>), from the vault (\<open>Vault\<close>), and every
  access is logged (\<open>AuditLog\<close>). Jobs are started by the scheduler (\<open>Cron\<close>), groups of agents by the
  workflow executor (\<open>Workflow\<close>, \<open>Swarm\<close>) and by other gateways (\<open>A2a\<close>). All of it is stored in an embedded
  database (\<open>Store\<close>, \<open>RowCache\<close>), on an encrypted virtual disk (\<open>Vdisk\<close>), replicated by a log (\<open>RaftLog\<close>,
  \<open>RaftStore\<close>). Clients are authenticated by certificates (\<open>CertExtensions\<close>, \<open>Pki\<close>, \<open>CertSign\<close>).

  Theories and sources

  \<^item> \<open>Prelude\<close>, \<open>RustStr\<close>, \<open>Json\<close>, \<open>Paths\<close>: 64-bit arithmetic that wraps, checks or saturates; results as sums
    and state passing with errors (\<open>sx\<close>, with a triple \<open>sx_valid\<close>); strings as bytes of UTF-8 with the
    slices, line and pattern operations of the standard library, a slice inside a character being a
    panic; JSON values; paths as components, with the locale \<open>filesystem\<close> of what canonicalization does.
  \<^item> \<open>CredTypes\<close>, \<open>Glob\<close>, \<open>Permissions\<close>, \<open>PathPolicy\<close>, \<open>Vault\<close>, \<open>AuditLog\<close>, \<open>CredManager\<close>: \<open>rockbot-credentials\<close>
    (\<open>types.rs\<close>, \<open>permissions.rs\<close>, \<open>manager.rs\<close>, \<open>storage.rs\<close>, \<open>audit.rs\<close>). The two rule selections are instances of one
    locale, \<open>best_rule\<close>. Released secrets, approvals and locking are a step relation over concurrent calls, in which
    locking takes two steps, the key first and then the flag.
  \<^item> \<open>Store\<close>, \<open>RowCache\<close>: \<open>rockbot-storage/src/lib.rs\<close>, \<open>tables.rs\<close>, \<open>sync.rs\<close>, and the cache in front of a table that
    sessions, routing and cron share. The database is a parameter whose laws are the locale \<open>redb_laws\<close>,
    interpreted on an in-memory database.
  \<^item> \<open>RaftLog\<close>, \<open>RaftStore\<close>: \<open>rockbot-storage/src/raft\<close>. \<open>Vdisk\<close>: \<open>rockbot-vdisk/src/lib.rs\<close>, a refinement of an
    array of bytes; the sector cipher is the locale \<open>sector_cipher\<close>.
  \<^item> \<open>Security\<close>, \<open>ToolPaths\<close>, \<open>Tools\<close>, \<open>TextTools\<close>: \<open>rockbot-security/src/lib.rs\<close> and \<open>rockbot-tools\<close> (\<open>lib.rs\<close>,
    \<open>builtin.rs\<close>).
  \<^item> \<open>Workflow\<close>, \<open>Swarm\<close>: \<open>rockbot-agent/src/orchestration.rs\<close>; the layers of a workflow run their nodes as tasks
    in any order.
  \<^item> \<open>Messages\<close>, \<open>Sessions\<close>, \<open>Routing\<close>, \<open>Cron\<close>: \<open>rockbot-config/src/message.rs\<close>, \<open>rockbot-session/src/lib.rs\<close>,
    \<open>rockbot-gateway/src/routing.rs\<close> and \<open>cron.rs\<close>.
  \<^item> \<open>LlmCalls\<close>, \<open>Transcript\<close>, \<open>ToolLoop\<close>, \<open>AgentLoop\<close>: \<open>rockbot-agent/src/agent.rs\<close>: retries and streaming, the
    conversation that is sent and its compaction, the loop detector and the nudges, the loop itself.
  \<^item> \<open>CertExtensions\<close>, \<open>Pki\<close>: \<open>rockbot-pki\<close> (\<open>extensions.rs\<close>, \<open>index.rs\<close>, \<open>manager.rs\<close>, \<open>ca.rs\<close>, \<open>backend.rs\<close>).
  \<^item> \<open>CertSign\<close>, \<open>GatewayWs\<close>, \<open>ToolApprovals\<close>, \<open>A2a\<close>: \<open>rockbot-gateway/src/gateway.rs\<close> and \<open>a2a.rs\<close>.
  \<^item> \<open>RemoteExec\<close>: \<open>rockbot-client/src/remote_exec.rs\<close>, tools that are executed by a client; the handshake and the
    encryption of a library are left out.

  How state and effects are modelled

  A struct is a record and an enum a datatype with the constructors of the source. Operations pass the state
  explicitly; what fails returns a sum whose left side is an error of the component, panics included
  where a caller can cause them. What the crates only call is a parameter: the environment records
  (\<open>vault_env\<close>, \<open>pki_env\<close>, \<open>ws_env\<close> and their like) hold ciphers, hashes, JSON codecs, clocks and random numbers,
  the last drawn from a world that is passed along. Iteration orders of hash maps are arguments, so that
  a theorem holds for each of them. Where calls run at the same time and take locks one after the other, the
  sections between two locks are the steps of an inductive relation, and a theorem about its runs
  holds for every interleaving. Where the code is wrong only under an interleaving, a lemma exhibits
  the run and a theorem states what holds for serial ones. A run of \<open>CredManager\<close>, \<open>GatewayWs\<close>, \<open>ToolApprovals\<close> or
  \<open>RemoteExec\<close> records the events that can be observed, in order, so that what a call returns is tied to the
  request, the answer and the check that belong to that very call.

  What the groups of lemmas show

  \<^item> Selection and matching: the matchers agree with a declarative reading of patterns, except that the slash after a
    double star is optional for the matcher of \<open>Glob\<close> (the documented language is \<open>documented\<close>, given apart from the
    matcher), and the most specific rule decides, the strictest of equals first.
  \<^item> Invariants by induction over calls or runs: hash chain of the audit log, cache and table agree, log and
    store agree, sequence numbers of the certificate registry, replies of tasks, results of calls.
  \<^item> Round trips and refinements: the virtual disk is an array, a replica that applies the log equals the
    state, a streamed response is assembled to what was sent, roles come back from a certificate.
  \<^item> Safety: a secret is released, a tool is run, a certificate is signed, a browser is accepted only when
    the checks of the code have passed for that very request.
  \<^item> Bounds and termination: uses of a token, attempts per minute, calls of a provider, the tool loop.

  Bounds and fuel

  Recursions are structural or have a termination proof; none needs fuel. \<open>agent_loop\<close> is bounded by
  the code itself: at most 93 iterations whatever limit is configured, since the detector of repeated
  calls stops a loop that the configured limit would not. \<open>MAX_RETRIES\<close> is 3 per call of a provider; three
  signing attempts per sixty seconds and address; 32 messages of a connection in work, 256 answers in its
  queue; tool approvals expire after 300 seconds, which is a step that may happen at any time.

  Not modelled

  \<^item> The terminal interface (\<open>rockbot-tui\<close>), the command line (\<open>rockbot-cli\<close>) and the web pages: rendering and
    prompts around operations that are modelled.
  \<^item> The clients of language models and of chat services, and deployment: wire formats of services. Providers answer arbitrarily in the theorems on the agent.
  \<^item> The HTTP handlers that only decode a request and call a manager; the handlers of agent messages and API
    requests are one step of a connection's task.
  \<^item> Memory search, the index, skills and the local overseer: scores in floating point over files, whose result is
    text in a prompt, a parameter here.
  \<^item> Configuration loading, opening of database files, legacy migrations, logging, metrics.
  \<^item> Bodies of tools that start processes, fetch pages or drive a browser: a tool is an arbitrary function behind the gate.
\<close>

end
